(* ===== verification/Ltfs_Prelude.thy ===== *)
theory Ltfs_Prelude
  imports Main "HOL-Library.Word"
begin

unbundle bit_operations_syntax

text \<open>
  Types, error values and generic lemmas shared by every component of the development.

  Bytes and the registers of the checksum code are words of their C width. File offsets,
  byte counts and block numbers (\<^verbatim>\<open>uint64_t\<close> in the sources) are natural numbers on which
  the C operations are \<open>add64\<close> and \<open>sub64\<close>: the wrap-around at \<open>2 ^ 64\<close> is written out, and the
  collection \<open>u64_arith\<close> removes it where a bound is known.
\<close>

type_synonym byte = "8 word"
type_synonym u16 = "16 word"
type_synonym u32 = "32 word"
type_synonym u64 = "64 word"

named_theorems u64_arith \<open>wrap-around arithmetic without a wrap\<close>

section \<open>Unsigned 64-bit and 32-bit arithmetic on naturals\<close>

definition U64 :: nat where
  "U64 = 18446744073709551616"

definition U32 :: nat where
  "U32 = 4294967296"

definition add64 :: "nat \<Rightarrow> nat \<Rightarrow> nat" where
  "add64 a b = (a + b) mod U64"

definition sub64 :: "nat \<Rightarrow> nat \<Rightarrow> nat" where
  "sub64 a b = (a + (U64 - b mod U64)) mod U64"

definition to32 :: "nat \<Rightarrow> nat" where
  "to32 a = a mod U32"

lemma U64_pos [simp]: "0 < U64"
  by (simp add: U64_def)

lemma U32_pos [simp]: "0 < U32"
  by (simp add: U32_def)

lemma U32_less_U64: "U32 < U64"
  by (simp add: U64_def U32_def)

lemma add64_exact [u64_arith]: "a + b < U64 \<Longrightarrow> add64 a b = a + b"
  by (simp add: add64_def)

lemma sub64_exact [u64_arith]:
  assumes "b \<le> a" and "a < U64"
  shows "sub64 a b = a - b"
proof -
  from assms have "b mod U64 = b" by simp
  moreover from assms have "a + (U64 - b) = (a - b) + U64" by simp
  ultimately have "sub64 a b = (a - b + U64) mod U64"
    by (simp only: sub64_def)
  also have "\<dots> = (a - b) mod U64"
    by (rule mod_add_self2)
  finally show ?thesis using assms by simp
qed

lemma to32_exact [u64_arith]: "a < U32 \<Longrightarrow> to32 a = a"
  by (simp add: to32_def)

lemma add64_less [simp]: "add64 a b < U64"
  by (simp add: add64_def)

lemma sub64_less [simp]: "sub64 a b < U64"
  by (simp add: sub64_def)

section \<open>Words\<close>

lemma unat_less_exp:
  fixes w :: "'a::len word"
  assumes "take_bit n w = w"
  shows "unat w < 2 ^ n"
proof -
  have "unat (take_bit n w) = take_bit n (unat w)"
    by (rule unsigned_take_bit_eq)
  with assms have "unat w = take_bit n (unat w)" by simp
  then show ?thesis
    using take_bit_nat_less_exp [of n "unat w"] by simp
qed

section \<open>Texts\<close>

text \<open>A string literal as bytes.\<close>

definition str :: "string \<Rightarrow> byte list" where
  "str s = map of_char s"

section \<open>Error values\<close>

text \<open>
  The negative return codes of \<^verbatim>\<open>libltfs/ltfs_error.h\<close> that the modelled code returns.
  A function that returns \<open>-LTFS_X\<close> returns \<open>Inl LTFS_X\<close> in the model. \<open>FAILURE\<close> is the code \<open>-1\<close>.
  Two values are no return codes: \<open>OUT_OF_BOUNDS\<close> stands for a read outside of a buffer and
  \<open>NULL_CALL\<close> for a call through a null pointer.
\<close>

datatype err =
    LTFS_NULL_ARG | LTFS_NO_MEMORY | LTFS_MUTEX_INVALID | LTFS_MUTEX_UNLOCKED | LTFS_BAD_PARTNUM
  | LTFS_BAD_LOCATE | LTFS_LABEL_MISMATCH | LTFS_BAD_ARG | LTFS_SMALL_BLOCK | LTFS_LARGE_BLOCKSIZE
  | LTFS_NO_SPACE | LTFS_LESS_SPACE | LTFS_WRITE_PROTECT | LTFS_WRITE_ERROR | LTFS_DEVICE_FENCED
  | LTFS_REVAL_FAILED | LTFS_BAD_DEVICE_DATA
  | EDEV_EOD_DETECTED | EDEV_EOD_NOT_FOUND | EDEV_RW_PERM | EDEV_CM_PERM | EDEV_NOT_READY
  | EDEV_NEED_INITIALIZE | EDEV_NO_MEDIUM | EDEV_INVALID_ARG | EDEV_ILLEGAL_REQUEST
  | EDEV_BOP_DETECTED | EDEV_INTERNAL_ERROR | EDEV_NO_MEMORY | EDEV_POR_OR_BUS_RESET
  | EDEV_MEDIUM_MAY_BE_CHANGED | EDEV_MEDIUM_REMOVAL_REQ | EDEV_CRYPTO_ERROR | EDEV_KEY_REQUIRED
  | LTFS_INVALID_SRC_PATH | LTFS_UNEXPECTED_VALUE | LTFS_REVAL_RUNNING | LTFS_PLUGIN_INCOMPLETE
  | LTFS_ICU_ERROR | LTFS_INVALID_PATH | LTFS_NAMETOOLONG | LTFS_POLICY_INVALID | LTFS_POLICY_EMPTY_RULE
  | LTFS_KEY_NOT_FOUND | LTFS_INVALID_SEQUENCE | LTFS_NO_DENTRY | LTFS_DENTRY_EXISTS | LTFS_ISDIRECTORY
  | LTFS_ISFILE | LTFS_DIRNOTEMPTY | LTFS_UNLINKROOT | LTFS_RENAMELOOP | LTFS_DEVICE_UNREADY | LTFS_RDONLY_VOLUME
  | LTFS_SMALL_BUFFER | LTFS_NO_XATTR | LTFS_LARGE_XATTR | LTFS_XATTR_EXISTS | LTFS_XATTR_NAMESPACE | LTFS_RDONLY_XATTR
  | LTFS_RESTART_OPERATION | LTFS_CONFIG_INVALID | LTFS_INDEX_INVALID | LTFS_UNSUPPORTED_INDEX_VERSION | LTFS_SYMLINK_CONFLICT
  | LTFS_LIBXML2_FAILURE | LTFS_INCONSISTENT | LTFS_NO_INDEX | ENOENT | FAILURE | OUT_OF_BOUNDS | NULL_CALL

text \<open>The result of a fallible call that also changes a state.\<close>

type_synonym ('a, 's) result = "(err + 'a) \<times> 's"

definition rbind :: "('a, 's) result \<Rightarrow> ('a \<Rightarrow> 's \<Rightarrow> ('b, 's) result) \<Rightarrow> ('b, 's) result" where
  "rbind r f = (case r of (Inl e, s) \<Rightarrow> (Inl e, s) | (Inr a, s) \<Rightarrow> f a s)"

lemma rbind_simps [simp]: "rbind (Inl e, s) f = (Inl e, s)" "rbind (Inr a, s) f = f a s"
  by (simp_all add: rbind_def)

text \<open>The same for a call that may not return: \<open>None\<close>.\<close>

definition obind :: "('a, 's) result option \<Rightarrow> ('a \<Rightarrow> 's \<Rightarrow> ('b, 's) result option) \<Rightarrow> ('b, 's) result option" where
  "obind r f = (case r of None \<Rightarrow> None | Some (Inl e, s) \<Rightarrow> Some (Inl e, s) | Some (Inr a, s) \<Rightarrow> f a s)"

lemma obind_simps [simp]:
  "obind None f = None" "obind (Some (Inl e, s)) f = Some (Inl e, s)" "obind (Some (Inr a, s)) f = f a s"
  by (simp_all add: obind_def)

lemma rbind_Inr:
  "rbind r f = (Inr b, s') \<longleftrightarrow> (\<exists>a s. r = (Inr a, s) \<and> f a s = (Inr b, s'))"
  by (cases r; cases "fst r") (auto simp: rbind_def)

end
