(* ===== verification/Ltfs_Endian.thy ===== *)
theory Ltfs_Endian
  imports Ltfs_Prelude
begin

text \<open>
  The big-endian conversions of \<^verbatim>\<open>libltfs/ltfs_endian.h\<close>. A macro that stores into a buffer is
  the list of bytes it stores; a macro that reads through a pointer is a function of the bytes
  at that pointer. \<^verbatim>\<open>htonl\<close> followed by a 32-bit store puts the most significant byte first
  on every host, which is what the lists say.
\<close>

definition ltfs_u16tobe :: "u16 \<Rightarrow> byte list" where
  "ltfs_u16tobe src = [ucast (drop_bit 8 src), ucast src]"

definition ltfs_u32tobe :: "u32 \<Rightarrow> byte list" where
  "ltfs_u32tobe src =
     [ucast (drop_bit 24 src), ucast (drop_bit 16 src), ucast (drop_bit 8 src), ucast src]"

definition ltfs_u64tobe :: "u64 \<Rightarrow> byte list" where
  "ltfs_u64tobe src =
     ltfs_u32tobe (ucast (drop_bit 32 src AND 0xffffffff)) @ ltfs_u32tobe (ucast (src AND 0xffffffff))"

text \<open>The readers are undefined (here \<open>None\<close>) when fewer bytes than they read are left.\<close>

fun ltfs_betou16 :: "byte list \<Rightarrow> u16 option" where
  "ltfs_betou16 (a # b # _) = Some (push_bit 8 (ucast a) OR ucast b)"
| "ltfs_betou16 _ = None"

fun ltfs_betou32 :: "byte list \<Rightarrow> u32 option" where
  "ltfs_betou32 (a # b # c # d # _) =
     Some (push_bit 24 (ucast a) OR push_bit 16 (ucast b) OR push_bit 8 (ucast c) OR ucast d)"
| "ltfs_betou32 _ = None"

definition ltfs_betou64 :: "byte list \<Rightarrow> u64 option" where
  "ltfs_betou64 buf =
     (case ltfs_betou32 buf of
        None \<Rightarrow> None
      | Some hi \<Rightarrow>
          (case ltfs_betou32 (drop 4 buf) of
             None \<Rightarrow> None
           | Some lo \<Rightarrow> Some (push_bit 32 (ucast hi) + ucast lo)))"

section \<open>Round trips\<close>

lemma length_u16tobe [simp]: "length (ltfs_u16tobe x) = 2"
  by (simp add: ltfs_u16tobe_def)

lemma length_u32tobe [simp]: "length (ltfs_u32tobe x) = 4"
  by (simp add: ltfs_u32tobe_def)

lemma length_u64tobe [simp]: "length (ltfs_u64tobe x) = 8"
  by (simp add: ltfs_u64tobe_def)

lemma betou16_u16tobe [simp]: "ltfs_betou16 (ltfs_u16tobe x @ rest) = Some x"
  by (simp add: ltfs_u16tobe_def) (rule bit_word_eqI, auto simp: bit_simps)

lemma betou32_u32tobe [simp]: "ltfs_betou32 (ltfs_u32tobe x @ rest) = Some x"
proof -
  let ?w = "push_bit 24 (ucast (ucast (drop_bit 24 x) :: byte)) OR push_bit 16 (ucast (ucast (drop_bit 16 x) :: byte))
      OR push_bit 8 (ucast (ucast (drop_bit 8 x) :: byte)) OR ucast (ucast x :: byte) :: u32"
  have "?w = x"
  proof (rule bit_word_eqI)
    fix n assume "n < LENGTH(32)"
    then consider "n < 8" | "8 \<le> n" "n < 16" | "16 \<le> n" "n < 24" | "24 \<le> n" "n < 32"
      by force
    then show "bit ?w n = bit x n"
      by cases (auto simp: bit_simps)
  qed
  then show ?thesis by (simp add: ltfs_u32tobe_def)
qed

lemma betou64_u64tobe_append: "ltfs_betou64 (ltfs_u64tobe x @ rest) = Some x"
proof -
  have m: "(0xffffffff :: u64) = mask 32"
    by (simp add: mask_eq_exp_minus_1)
  let ?hi = "ucast (drop_bit 32 x AND 0xffffffff) :: u32"
  let ?lo = "ucast (x AND 0xffffffff) :: u32"
  have "push_bit 32 (ucast ?hi) AND (ucast ?lo :: u64) = 0"
    by (rule bit_word_eqI) (auto simp: bit_simps)
  then have "push_bit 32 (ucast ?hi) + (ucast ?lo :: u64) = push_bit 32 (ucast ?hi) OR ucast ?lo"
    by (rule disjunctive_add_eq_or)
  also have "\<dots> = x"
    unfolding m by (rule bit_word_eqI) (auto simp: bit_simps)
  finally show ?thesis
    by (simp add: ltfs_betou64_def ltfs_u64tobe_def)
qed

text \<open>A four-byte field read back and written again is the field.\<close>

lemma u32tobe_betou32:
  assumes "length bs = 4" and "ltfs_betou32 bs = Some x"
  shows "ltfs_u32tobe x = bs"
proof -
  from assms(1) obtain a b c d where bs: "bs = [a, b, c, d]"
    by (auto simp: numeral_eq_Suc length_Suc_conv)
  with assms(2) have x: "x = push_bit 24 (ucast a) OR push_bit 16 (ucast b) OR push_bit 8 (ucast c) OR ucast d"
    by simp
  show ?thesis
    unfolding bs x ltfs_u32tobe_def
    by (simp, intro conjI; rule bit_word_eqI; auto simp: bit_simps dest: bit_imp_le_length)
qed

end
