(* ===== verification/Ltfs_Crc_Table.thy ===== *)
theory Ltfs_Crc_Table
  imports Ltfs_Prelude Ltfs_Endian
begin

text \<open>
  The tables of the two logical block protection checksums of the tape drivers, copied from
  \<^verbatim>\<open>tape_drivers/crc32c_crc.c\<close> and \<^verbatim>\<open>tape_drivers/reed_solomon_crc.c\<close>, the register steps that
  use them, reference definitions of what they should hold (eight steps of the reflected CRC with
  polynomial 0x11EDC6F41; products in GF(256) with the coefficients of a generator polynomial),
  and the proof that all 256 entries of each table agree with the reference.
\<close>

section \<open>The tables and the register steps\<close>

definition crc32c_table :: "u32 list" where
  "crc32c_table = [
     0x00000000, 0xf26b8303, 0xe13b70f7, 0x1350f3f4, 0xc79a971f, 0x35f1141c,
     0x26a1e7e8, 0xd4ca64eb, 0x8ad958cf, 0x78b2dbcc, 0x6be22838, 0x9989ab3b,
     0x4d43cfd0, 0xbf284cd3, 0xac78bf27, 0x5e133c24, 0x105ec76f, 0xe235446c,
     0xf165b798, 0x030e349b, 0xd7c45070, 0x25afd373, 0x36ff2087, 0xc494a384,
     0x9a879fa0, 0x68ec1ca3, 0x7bbcef57, 0x89d76c54, 0x5d1d08bf, 0xaf768bbc,
     0xbc267848, 0x4e4dfb4b, 0x20bd8ede, 0xd2d60ddd, 0xc186fe29, 0x33ed7d2a,
     0xe72719c1, 0x154c9ac2, 0x061c6936, 0xf477ea35, 0xaa64d611, 0x580f5512,
     0x4b5fa6e6, 0xb93425e5, 0x6dfe410e, 0x9f95c20d, 0x8cc531f9, 0x7eaeb2fa,
     0x30e349b1, 0xc288cab2, 0xd1d83946, 0x23b3ba45, 0xf779deae, 0x05125dad,
     0x1642ae59, 0xe4292d5a, 0xba3a117e, 0x4851927d, 0x5b016189, 0xa96ae28a,
     0x7da08661, 0x8fcb0562, 0x9c9bf696, 0x6ef07595, 0x417b1dbc, 0xb3109ebf,
     0xa0406d4b, 0x522bee48, 0x86e18aa3, 0x748a09a0, 0x67dafa54, 0x95b17957,
     0xcba24573, 0x39c9c670, 0x2a993584, 0xd8f2b687, 0x0c38d26c, 0xfe53516f,
     0xed03a29b, 0x1f682198, 0x5125dad3, 0xa34e59d0, 0xb01eaa24, 0x42752927,
     0x96bf4dcc, 0x64d4cecf, 0x77843d3b, 0x85efbe38, 0xdbfc821c, 0x2997011f,
     0x3ac7f2eb, 0xc8ac71e8, 0x1c661503, 0xee0d9600, 0xfd5d65f4, 0x0f36e6f7,
     0x61c69362, 0x93ad1061, 0x80fde395, 0x72966096, 0xa65c047d, 0x5437877e,
     0x4767748a, 0xb50cf789, 0xeb1fcbad, 0x197448ae, 0x0a24bb5a, 0xf84f3859,
     0x2c855cb2, 0xdeeedfb1, 0xcdbe2c45, 0x3fd5af46, 0x7198540d, 0x83f3d70e,
     0x90a324fa, 0x62c8a7f9, 0xb602c312, 0x44694011, 0x5739b3e5, 0xa55230e6,
     0xfb410cc2, 0x092a8fc1, 0x1a7a7c35, 0xe811ff36, 0x3cdb9bdd, 0xceb018de,
     0xdde0eb2a, 0x2f8b6829, 0x82f63b78, 0x709db87b, 0x63cd4b8f, 0x91a6c88c,
     0x456cac67, 0xb7072f64, 0xa457dc90, 0x563c5f93, 0x082f63b7, 0xfa44e0b4,
     0xe9141340, 0x1b7f9043, 0xcfb5f4a8, 0x3dde77ab, 0x2e8e845f, 0xdce5075c,
     0x92a8fc17, 0x60c37f14, 0x73938ce0, 0x81f80fe3, 0x55326b08, 0xa759e80b,
     0xb4091bff, 0x466298fc, 0x1871a4d8, 0xea1a27db, 0xf94ad42f, 0x0b21572c,
     0xdfeb33c7, 0x2d80b0c4, 0x3ed04330, 0xccbbc033, 0xa24bb5a6, 0x502036a5,
     0x4370c551, 0xb11b4652, 0x65d122b9, 0x97baa1ba, 0x84ea524e, 0x7681d14d,
     0x2892ed69, 0xdaf96e6a, 0xc9a99d9e, 0x3bc21e9d, 0xef087a76, 0x1d63f975,
     0x0e330a81, 0xfc588982, 0xb21572c9, 0x407ef1ca, 0x532e023e, 0xa145813d,
     0x758fe5d6, 0x87e466d5, 0x94b49521, 0x66df1622, 0x38cc2a06, 0xcaa7a905,
     0xd9f75af1, 0x2b9cd9f2, 0xff56bd19, 0x0d3d3e1a, 0x1e6dcdee, 0xec064eed,
     0xc38d26c4, 0x31e6a5c7, 0x22b65633, 0xd0ddd530, 0x0417b1db, 0xf67c32d8,
     0xe52cc12c, 0x1747422f, 0x49547e0b, 0xbb3ffd08, 0xa86f0efc, 0x5a048dff,
     0x8ecee914, 0x7ca56a17, 0x6ff599e3, 0x9d9e1ae0, 0xd3d3e1ab, 0x21b862a8,
     0x32e8915c, 0xc083125f, 0x144976b4, 0xe622f5b7, 0xf5720643, 0x07198540,
     0x590ab964, 0xab613a67, 0xb831c993, 0x4a5a4a90, 0x9e902e7b, 0x6cfbad78,
     0x7fab5e8c, 0x8dc0dd8f, 0xe330a81a, 0x115b2b19, 0x020bd8ed, 0xf0605bee,
     0x24aa3f05, 0xd6c1bc06, 0xc5914ff2, 0x37faccf1, 0x69e9f0d5, 0x9b8273d6,
     0x88d28022, 0x7ab90321, 0xae7367ca, 0x5c18e4c9, 0x4f48173d, 0xbd23943e,
     0xf36e6f75, 0x0105ec76, 0x12551f82, 0xe03e9c81, 0x34f4f86a, 0xc69f7b69,
     0xd5cf889d, 0x27a40b9e, 0x79b737ba, 0x8bdcb4b9, 0x988c474d, 0x6ae7c44e,
     0xbe2da0a5, 0x4c4623a6, 0x5f16d052, 0xad7d5351]"

definition rs_gf256_table :: "u32 list" where
  "rs_gf256_table = [
     0x00000000, 0x38cf3801, 0x70837002, 0x484c4803, 0xe01be004, 0xd8d4d805,
     0x90989006, 0xa857a807, 0xdd36dd08, 0xe5f9e509, 0xadb5ad0a, 0x957a950b,
     0x3d2d3d0c, 0x05e2050d, 0x4dae4d0e, 0x7561750f, 0xa76ca710, 0x9fa39f11,
     0xd7efd712, 0xef20ef13, 0x47774714, 0x7fb87f15, 0x37f43716, 0x0f3b0f17,
     0x7a5a7a18, 0x42954219, 0x0ad90a1a, 0x3216321b, 0x9a419a1c, 0xa28ea21d,
     0xeac2ea1e, 0xd20dd21f, 0x53d85320, 0x6b176b21, 0x235b2322, 0x1b941b23,
     0xb3c3b324, 0x8b0c8b25, 0xc340c326, 0xfb8ffb27, 0x8eee8e28, 0xb621b629,
     0xfe6dfe2a, 0xc6a2c62b, 0x6ef56e2c, 0x563a562d, 0x1e761e2e, 0x26b9262f,
     0xf4b4f430, 0xcc7bcc31, 0x84378432, 0xbcf8bc33, 0x14af1434, 0x2c602c35,
     0x642c6436, 0x5ce35c37, 0x29822938, 0x114d1139, 0x5901593a, 0x61ce613b,
     0xc999c93c, 0xf156f13d, 0xb91ab93e, 0x81d5813f, 0xa6ada640, 0x9e629e41,
     0xd62ed642, 0xeee1ee43, 0x46b64644, 0x7e797e45, 0x36353646, 0x0efa0e47,
     0x7b9b7b48, 0x43544349, 0x0b180b4a, 0x33d7334b, 0x9b809b4c, 0xa34fa34d,
     0xeb03eb4e, 0xd3ccd34f, 0x01c10150, 0x390e3951, 0x71427152, 0x498d4953,
     0xe1dae154, 0xd915d955, 0x91599156, 0xa996a957, 0xdcf7dc58, 0xe438e459,
     0xac74ac5a, 0x94bb945b, 0x3cec3c5c, 0x0423045d, 0x4c6f4c5e, 0x74a0745f,
     0xf575f560, 0xcdbacd61, 0x85f68562, 0xbd39bd63, 0x156e1564, 0x2da12d65,
     0x65ed6566, 0x5d225d67, 0x28432868, 0x108c1069, 0x58c0586a, 0x600f606b,
     0xc858c86c, 0xf097f06d, 0xb8dbb86e, 0x8014806f, 0x52195270, 0x6ad66a71,
     0x229a2272, 0x1a551a73, 0xb202b274, 0x8acd8a75, 0xc281c276, 0xfa4efa77,
     0x8f2f8f78, 0xb7e0b779, 0xffacff7a, 0xc763c77b, 0x6f346f7c, 0x57fb577d,
     0x1fb71f7e, 0x2778277f, 0x51475180, 0x69886981, 0x21c42182, 0x190b1983,
     0xb15cb184, 0x89938985, 0xc1dfc186, 0xf910f987, 0x8c718c88, 0xb4beb489,
     0xfcf2fc8a, 0xc43dc48b, 0x6c6a6c8c, 0x54a5548d, 0x1ce91c8e, 0x2426248f,
     0xf62bf690, 0xcee4ce91, 0x86a88692, 0xbe67be93, 0x16301694, 0x2eff2e95,
     0x66b36696, 0x5e7c5e97, 0x2b1d2b98, 0x13d21399, 0x5b9e5b9a, 0x6351639b,
     0xcb06cb9c, 0xf3c9f39d, 0xbb85bb9e, 0x834a839f, 0x029f02a0, 0x3a503aa1,
     0x721c72a2, 0x4ad34aa3, 0xe284e2a4, 0xda4bdaa5, 0x920792a6, 0xaac8aaa7,
     0xdfa9dfa8, 0xe766e7a9, 0xaf2aafaa, 0x97e597ab, 0x3fb23fac, 0x077d07ad,
     0x4f314fae, 0x77fe77af, 0xa5f3a5b0, 0x9d3c9db1, 0xd570d5b2, 0xedbfedb3,
     0x45e845b4, 0x7d277db5, 0x356b35b6, 0x0da40db7, 0x78c578b8, 0x400a40b9,
     0x084608ba, 0x308930bb, 0x98de98bc, 0xa011a0bd, 0xe85de8be, 0xd092d0bf,
     0xf7eaf7c0, 0xcf25cfc1, 0x876987c2, 0xbfa6bfc3, 0x17f117c4, 0x2f3e2fc5,
     0x677267c6, 0x5fbd5fc7, 0x2adc2ac8, 0x121312c9, 0x5a5f5aca, 0x629062cb,
     0xcac7cacc, 0xf208f2cd, 0xba44bace, 0x828b82cf, 0x508650d0, 0x684968d1,
     0x200520d2, 0x18ca18d3, 0xb09db0d4, 0x885288d5, 0xc01ec0d6, 0xf8d1f8d7,
     0x8db08dd8, 0xb57fb5d9, 0xfd33fdda, 0xc5fcc5db, 0x6dab6ddc, 0x556455dd,
     0x1d281dde, 0x25e725df, 0xa432a4e0, 0x9cfd9ce1, 0xd4b1d4e2, 0xec7eece3,
     0x442944e4, 0x7ce67ce5, 0x34aa34e6, 0x0c650ce7, 0x790479e8, 0x41cb41e9,
     0x098709ea, 0x314831eb, 0x991f99ec, 0xa1d0a1ed, 0xe99ce9ee, 0xd153d1ef,
     0x035e03f0, 0x3b913bf1, 0x73dd73f2, 0x4b124bf3, 0xe345e3f4, 0xdb8adbf5,
     0x93c693f6, 0xab09abf7, 0xde68def8, 0xe6a7e6f9, 0xaeebaefa, 0x962496fb,
     0x3e733efc, 0x06bc06fd, 0x4ef04efe, 0x763f76ff]"

text \<open>The index is below 256, so the lookup never leaves the table.\<close>

definition crc32c_calc :: "byte \<Rightarrow> u32 \<Rightarrow> u32" where
  "crc32c_calc inb reg = drop_bit 8 reg XOR crc32c_table ! unat (ucast inb XOR (reg AND 0xff))"

definition enc4 :: "byte \<Rightarrow> u32 \<Rightarrow> u32" where
  "enc4 inb reg = push_bit 8 reg XOR rs_gf256_table ! unat (ucast inb XOR drop_bit 24 reg)"

section \<open>Reference definitions\<close>

text \<open>One bit of the reflected CRC: shift right, subtract the reversed polynomial if a one fell out.\<close>

definition crc_bit :: "u32 \<Rightarrow> u32" where
  "crc_bit r = (if bit r 0 then drop_bit 1 r XOR 0x82f63b78 else drop_bit 1 r)"

fun crc_bits :: "nat \<Rightarrow> u32 \<Rightarrow> u32" where
  "crc_bits 0 r = r"
| "crc_bits (Suc n) r = crc_bits n (crc_bit r)"

text \<open>Multiplication by \<open>x\<close> and by a byte in GF(256) with \<open>x^8 + x^4 + x^3 + x^2 + 1\<close>.\<close>

definition gf_xtime :: "byte \<Rightarrow> byte" where
  "gf_xtime a = (if bit a 7 then push_bit 1 a XOR 0x1d else push_bit 1 a)"

fun gf_mul_bits :: "nat \<Rightarrow> byte \<Rightarrow> byte \<Rightarrow> byte" where
  "gf_mul_bits 0 a b = 0"
| "gf_mul_bits (Suc n) a b =
     (if bit b 0 then a else 0) XOR gf_mul_bits n (gf_xtime a) (drop_bit 1 b)"

definition gf_mul :: "byte \<Rightarrow> byte \<Rightarrow> byte" where
  "gf_mul a b = gf_mul_bits 8 a b"

text \<open>A byte times the generator's coefficients 38, CF, 38, 01, packed most significant first.\<close>

definition rs_product :: "byte \<Rightarrow> u32" where
  "rs_product i =
     push_bit 24 (ucast (gf_mul 0x38 i)) OR push_bit 16 (ucast (gf_mul 0xcf i))
       OR push_bit 8 (ucast (gf_mul 0x38 i)) OR ucast i"

section \<open>The tables are the reference steps\<close>

text \<open>
  Both reference functions are linear over XOR, so a table of 256 entries is determined by the
  entries at the powers of two.
\<close>

fun xor_table :: "u32 list \<Rightarrow> u32 list" where
  "xor_table [] = [0]"
| "xor_table (c # cs) = xor_table cs @ map ((XOR) c) (xor_table cs)"

lemma of_nat_exp_add_xor:
  assumes "i < 2 ^ k"
  shows "(of_nat (2 ^ k + i) :: 'a::len word) = 2 ^ k XOR of_nat i"
proof -
  have "\<not> bit i k"
    using assms by (simp add: bit_iff_odd)
  then have "(2 ^ k AND of_nat i :: 'a word) = 0"
    by (intro bit_word_eqI) (auto simp: bit_simps)
  then show ?thesis
    by (simp add: disjunctive_add_eq_xor)
qed

lemma map_linear_xor_table:
  fixes f :: "'a::len word \<Rightarrow> u32"
  assumes "f 0 = 0" and "\<And>a b. f (a XOR b) = f a XOR f b"
  shows "map (\<lambda>i. f (of_nat i)) [0..<2 ^ k] = xor_table (map (\<lambda>j. f (2 ^ j)) (rev [0..<k]))"
proof (induction k)
  case 0
  show ?case using assms(1) by simp
next
  case (Suc k)
  have split: "[0..<2 ^ Suc k] = [0..<2 ^ k] @ map (\<lambda>i. i + 2 ^ k) [0..<2 ^ k]"
    using upt_add_eq_append [of 0 "2 ^ k" "2 ^ k"] by (simp add: map_add_upt mult_2)
  have "f (of_nat (2 ^ k + i)) = f (2 ^ k) XOR f (of_nat i)" if "i < 2 ^ k" for i
    by (simp only: of_nat_exp_add_xor [OF that] assms(2))
  then have "map (\<lambda>i. f (of_nat (2 ^ k + i))) [0..<2 ^ k]
      = map ((XOR) (f (2 ^ k))) (map (\<lambda>i. f (of_nat i)) [0..<2 ^ k])"
    by simp
  then show ?case
    unfolding split by (simp add: Suc comp_def add.commute)
qed

lemma crc_bit_xor: "crc_bit (a XOR b) = crc_bit a XOR crc_bit b"
  by (rule bit_word_eqI) (auto simp: crc_bit_def bit_simps)

lemma crc_bits_xor: "crc_bits n (a XOR b) = crc_bits n a XOR crc_bits n b"
  by (induction n arbitrary: a b) (simp_all add: crc_bit_xor)

lemma crc_bits_0: "crc_bits n 0 = 0"
  by (induction n) (simp_all add: crc_bit_def)

lemma gf_mul_bits_xor: "gf_mul_bits n a (b XOR c) = gf_mul_bits n a b XOR gf_mul_bits n a c"
proof (induction n arbitrary: a b c)
  case (Suc n)
  have "drop_bit 1 (b XOR c) = drop_bit 1 b XOR drop_bit 1 c"
    by (rule bit_word_eqI) (simp add: bit_simps)
  then have "gf_mul_bits (Suc n) a (b XOR c) = (if bit (b XOR c) 0 then a else 0)
      XOR (gf_mul_bits n (gf_xtime a) (drop_bit 1 b) XOR gf_mul_bits n (gf_xtime a) (drop_bit 1 c))"
    by (simp only: gf_mul_bits.simps Suc)
  also have "\<dots> = gf_mul_bits (Suc n) a b XOR gf_mul_bits (Suc n) a c"
    by (rule bit_word_eqI) (auto simp: bit_simps)
  finally show ?case .
qed simp

lemma gf_mul_bits_0: "gf_mul_bits n a 0 = 0"
  by (induction n arbitrary: a) simp_all

lemma rs_product_xor: "rs_product (a XOR b) = rs_product a XOR rs_product b"
  unfolding rs_product_def gf_mul_def gf_mul_bits_xor
  by (rule bit_word_eqI) (auto simp: bit_simps dest: bit_imp_le_length)

lemma rs_product_0: "rs_product 0 = 0"
  by (simp add: rs_product_def gf_mul_def gf_mul_bits_0)

lemma crc32c_table_eq: "crc32c_table = map (\<lambda>i. crc_bits 8 (of_nat i)) [0..<256]"
proof -
  have "map (\<lambda>j. crc_bits 8 (2 ^ j)) (rev [0..<8]) =
      [0x82f63b78, 0x417b1dbc, 0x20bd8ede, 0x105ec76f, 0x8ad958cf, 0xc79a971f, 0xe13b70f7, 0xf26b8303]"
    by code_simp
  then show ?thesis
    using map_linear_xor_table [of "crc_bits 8" 8, OF crc_bits_0 crc_bits_xor]
    by (simp add: crc32c_table_def)
qed

lemma rs_gf256_table_eq: "rs_gf256_table = map (\<lambda>i. rs_product (of_nat i)) [0..<256]"
proof -
  have "map (\<lambda>j. rs_product (2 ^ j)) (rev [0..<8]) =
      [0x51475180, 0xa6ada640, 0x53d85320, 0xa76ca710, 0xdd36dd08, 0xe01be004, 0x70837002, 0x38cf3801]"
    by code_simp
  then show ?thesis
    using map_linear_xor_table [of rs_product 8, OF rs_product_0 rs_product_xor]
    by (simp add: rs_gf256_table_def)
qed

end
