(* ===== verification/Ltfs_Crc.thy ===== *)
theory Ltfs_Crc
  imports Ltfs_Crc_Table
begin

text \<open>
  The checksum functions of \<^verbatim>\<open>tape_drivers/crc32c_crc.c\<close> and
  \<^verbatim>\<open>tape_drivers/reed_solomon_crc.c\<close>. Both register steps are shown equal to their references;
  both encoders and checkers go through one interface, the locale \<open>block_guard\<close>, which gives
  the round trip and that no single damaged byte passes the check.
\<close>

section \<open>The drivers' encode and check functions\<close>

text \<open>
  A buffer is the list of bytes the caller owns; an access behind it is \<open>None\<close>. The hardware
  path of \<^verbatim>\<open>crc32c_crc.c\<close> (64-bit build) uses two processor instructions, which are parameters:
  \<open>mm8\<close> for \<^verbatim>\<open>_mm_crc32_u8\<close>, \<open>mm64\<close> for \<^verbatim>\<open>_mm_crc32_u64\<close>; \<open>addr\<close> is the address of the source.
\<close>

record crc_env =
  sse4_2 :: bool
  mm8 :: "u32 \<Rightarrow> byte \<Rightarrow> u32"
  mm64 :: "u64 \<Rightarrow> u64 \<Rightarrow> u64"

fun le64 :: "byte list \<Rightarrow> u64" where
  "le64 [] = 0"
| "le64 (b # bs) = ucast b OR push_bit 8 (le64 bs)"

text \<open>The three loops of the hardware path: up to an aligned address, by eight bytes, the rest.\<close>

fun sse_head :: "crc_env \<Rightarrow> nat \<Rightarrow> byte list \<Rightarrow> u32 \<Rightarrow> byte list \<times> u32" where
  "sse_head env addr [] reg = ([], reg)"
| "sse_head env addr (b # bs) reg =
     (if addr mod 8 > 0 then sse_head env (addr + 1) bs (mm8 env reg b) else (b # bs, reg))"

function sse_body :: "crc_env \<Rightarrow> byte list \<Rightarrow> u64 \<Rightarrow> byte list \<times> u64" where
  "sse_body env bs reg =
     (if 8 \<le> length bs then sse_body env (drop 8 bs) (mm64 env reg (le64 (take 8 bs))) else (bs, reg))"
  by pat_completeness auto
termination
  by (relation "measure (\<lambda>(env, bs, reg). length bs)") auto

declare sse_body.simps [simp del]

definition crc32c_reg :: "crc_env \<Rightarrow> nat \<Rightarrow> byte list \<Rightarrow> u32" where
  "crc32c_reg env addr bs =
     (if sse4_2 env
      then (let (bs1, reg) = sse_head env addr bs 0xffffffff;
                (bs2, reg_native) = sse_body env bs1 (ucast reg)
            in foldl (mm8 env) (ucast reg_native) bs2)
      else fold crc32c_calc bs 0xffffffff)"

definition crc32c :: "crc_env \<Rightarrow> nat \<Rightarrow> byte list \<Rightarrow> nat \<Rightarrow> u32" where
  "crc32c env addr buf n = NOT (crc32c_reg env addr (take n buf))"

definition crc_bytes :: "u32 \<Rightarrow> byte list" where
  "crc_bytes reg =
     [ucast (reg AND 0xff), ucast (drop_bit 8 reg AND 0xff),
      ucast (drop_bit 16 reg AND 0xff), ucast (drop_bit 24 reg AND 0xff)]"

fun crc_of_bytes :: "byte list \<Rightarrow> u32 option" where
  "crc_of_bytes (a # b # c # d # _) =
     Some (ucast a OR push_bit 8 (ucast b) OR push_bit 16 (ucast c) OR push_bit 24 (ucast d))"
| "crc_of_bytes _ = None"

text \<open>\<^verbatim>\<open>return n\<close> from a function of type \<^verbatim>\<open>int\<close>: the low 32 bits, read as signed.\<close>

definition int_of_size :: "nat \<Rightarrow> int" where
  "int_of_size n = (if n mod U32 < 2147483648 then int (n mod U32) else int (n mod U32) - int U32)"

definition crc32c_enc :: "crc_env \<Rightarrow> nat \<Rightarrow> byte list \<Rightarrow> nat \<Rightarrow> byte list option" where
  "crc32c_enc env addr buf n =
     (if n + 4 \<le> length buf
      then Some (take n buf @ crc_bytes (crc32c env addr buf n) @ drop (n + 4) buf) else None)"

definition memcpy_crc32c_enc ::
    "crc_env \<Rightarrow> nat \<Rightarrow> byte list \<Rightarrow> byte list \<Rightarrow> nat \<Rightarrow> byte list option" where
  "memcpy_crc32c_enc env addr dest src n =
     (if n \<le> length src \<and> n + 4 \<le> length dest
      then Some (take n src @ crc_bytes (crc32c env addr src n) @ drop (n + 4) dest) else None)"

definition crc32c_check :: "crc_env \<Rightarrow> nat \<Rightarrow> byte list \<Rightarrow> nat \<Rightarrow> int option" where
  "crc32c_check env addr buf n =
     (case crc_of_bytes (drop n buf) of
        None \<Rightarrow> None
      | Some crc \<Rightarrow> Some (if crc \<noteq> crc32c env addr buf n then -1 else int_of_size n))"

definition memcpy_crc32c_check ::
    "crc_env \<Rightarrow> nat \<Rightarrow> byte list \<Rightarrow> byte list \<Rightarrow> nat \<Rightarrow> (int \<times> byte list) option" where
  "memcpy_crc32c_check env addr dest src n =
     (if n \<le> length dest
      then (case crc_of_bytes (drop n src) of
              None \<Rightarrow> None
            | Some crc \<Rightarrow>
                Some (if crc \<noteq> crc32c env addr src n then -1 else int_of_size n, take n src @ drop n dest))
      else None)"

definition rs_gf256_enc :: "byte list \<Rightarrow> nat \<Rightarrow> byte list option" where
  "rs_gf256_enc buf n =
     (if n + 4 \<le> length buf
      then Some (take n buf @ ltfs_u32tobe (fold enc4 (take n buf) 0) @ drop (n + 4) buf) else None)"

definition memcpy_rs_gf256_enc :: "byte list \<Rightarrow> byte list \<Rightarrow> nat \<Rightarrow> byte list option" where
  "memcpy_rs_gf256_enc dest src n =
     (if n \<le> length src \<and> n + 4 \<le> length dest
      then Some (take n src @ ltfs_u32tobe (fold enc4 (take n src) 0) @ drop (n + 4) dest) else None)"

definition rs_gf256_check :: "byte list \<Rightarrow> nat \<Rightarrow> int option" where
  "rs_gf256_check buf n =
     (case ltfs_betou32 (drop n buf) of
        None \<Rightarrow> None
      | Some crc \<Rightarrow> Some (if crc \<noteq> fold enc4 (take n buf) 0 then -1 else int_of_size n))"

definition memcpy_rs_gf256_check :: "byte list \<Rightarrow> byte list \<Rightarrow> nat \<Rightarrow> (int \<times> byte list) option" where
  "memcpy_rs_gf256_check dest src n =
     (if n \<le> length dest
      then (case ltfs_betou32 (drop n src) of
              None \<Rightarrow> None
            | Some crc \<Rightarrow>
                Some (if crc \<noteq> fold enc4 (take n src) 0 then -1 else int_of_size n, take n src @ drop n dest))
      else None)"

section \<open>Register steps against the references\<close>

lemma ff_mask: "(0xff :: u32) = mask 8"
  by (simp add: mask_eq_exp_minus_1)

lemma unat_lt_256: "take_bit 8 (w :: u32) = w \<Longrightarrow> unat w < 256"
  using unat_less_exp [of 8 w] by simp

lemma crc_bits_shift:
  assumes "\<And>i. i < n \<Longrightarrow> \<not> bit r i"
  shows "crc_bits n r = drop_bit n r"
  using assms
proof (induction n arbitrary: r)
  case (Suc n)
  then have "crc_bit r = drop_bit 1 r" by (simp add: crc_bit_def)
  moreover have "\<not> bit (drop_bit 1 r) i" if "i < n" for i
    using Suc.prems [of "Suc i"] that by (simp add: bit_simps)
  ultimately show ?case
    using Suc.IH [of "drop_bit 1 r"] by simp
qed simp

lemma crc32c_calc_ref: "crc32c_calc b r = crc_bits 8 (r XOR ucast b)"
proof -
  let ?w = "ucast b XOR (r AND 0xff) :: u32"
  have "take_bit 8 ?w = ?w"
    unfolding ff_mask by (intro bit_word_eqI) (auto simp: bit_simps dest: bit_imp_le_length)
  then have "crc32c_table ! unat ?w = crc_bits 8 ?w"
    using unat_lt_256 [of ?w] by (simp add: crc32c_table_eq)
  moreover have "crc_bits 8 (r AND NOT 0xff) = drop_bit 8 r"
  proof -
    have "drop_bit 8 (r AND NOT 0xff) = drop_bit 8 r"
      unfolding ff_mask by (intro bit_word_eqI) (auto simp: bit_simps dest: bit_imp_le_length)
    then show ?thesis
      by (subst crc_bits_shift) (auto simp: ff_mask bit_simps)
  qed
  moreover have "r XOR ucast b = (r AND NOT 0xff) XOR ?w"
    unfolding ff_mask by (intro bit_word_eqI) (auto simp: bit_simps)
  ultimately show ?thesis
    by (simp only: crc32c_calc_def crc_bits_xor)
qed

lemma crc_bit_0D: "crc_bit c = 0 \<Longrightarrow> c = 0"
proof -
  assume z: "crc_bit c = 0"
  have "bit (crc_bit c) 31 = bit c 0"
    by (auto simp: crc_bit_def bit_simps dest: bit_imp_le_length)
  with z have "\<not> bit c 0" by simp
  with z have "drop_bit 1 c = 0" by (simp add: crc_bit_def)
  then have "\<not> bit c (Suc n)" for n
    using bit_drop_bit_eq [of 1 c] by (simp add: fun_eq_iff)
  with \<open>\<not> bit c 0\<close> have "\<not> bit c n" for n
    by (cases n) auto
  then show "c = 0" by (intro bit_word_eqI) simp
qed

lemma crc_bits_inj: "crc_bits n a = crc_bits n b \<Longrightarrow> a = b"
proof (induction n arbitrary: a b)
  case (Suc n)
  then have "crc_bit a = crc_bit b" by simp
  then have "crc_bit (a XOR b) = 0" by (simp add: crc_bit_xor)
  then have "a XOR b = 0" by (rule crc_bit_0D)
  then have "bit (a XOR b) i = bit (0 :: u32) i" for i by simp
  then show ?case by (intro bit_word_eqI) (simp add: bit_simps)
qed simp

lemma rs_table_at:
  "rs_gf256_table ! unat (ucast b XOR drop_bit 24 r :: u32) = rs_product (b XOR ucast (drop_bit 24 r))"
proof -
  let ?w = "ucast b XOR drop_bit 24 r :: u32"
  have t: "take_bit 8 ?w = ?w"
    by (intro bit_word_eqI) (auto simp: bit_simps dest: bit_imp_le_length)
  then have "unat ?w < 256" by (rule unat_lt_256)
  moreover have "(of_nat (unat ?w) :: byte) = b XOR ucast (drop_bit 24 r)"
    by simp (intro bit_word_eqI, auto simp: bit_simps)
  ultimately show ?thesis
    by (simp add: rs_gf256_table_eq)
qed

lemma enc4_ref: "enc4 b r = push_bit 8 r XOR rs_product (b XOR ucast (drop_bit 24 r))"
  by (simp add: enc4_def rs_table_at)

lemma ucast_rs_product: "ucast (rs_product i) = i"
  unfolding rs_product_def by (intro bit_word_eqI) (auto simp: bit_simps)

lemma enc4_low_byte: "ucast (enc4 b r) = b XOR ucast (drop_bit 24 r)"
proof -
  have "(ucast (push_bit 8 r XOR w) :: byte) = ucast w" for w
    by (intro bit_word_eqI) (auto simp: bit_simps)
  then show ?thesis by (simp add: enc4_ref ucast_rs_product)
qed

lemma enc4_byte_inj: "enc4 b r = enc4 b' r \<Longrightarrow> b = b'"
proof -
  assume "enc4 b r = enc4 b' r"
  then have "b XOR ucast (drop_bit 24 r) = b' XOR ucast (drop_bit 24 r)"
    by (metis enc4_low_byte)
  then have "bit (b XOR ucast (drop_bit 24 r)) i = bit (b' XOR ucast (drop_bit 24 r)) i" for i
    by simp
  then show "b = b'" by (intro bit_word_eqI) (auto simp: bit_simps)
qed

lemma enc4_reg_inj: "enc4 b r = enc4 b r' \<Longrightarrow> r = r'"
proof -
  assume eq: "enc4 b r = enc4 b r'"
  then have idx: "b XOR ucast (drop_bit 24 r) = b XOR ucast (drop_bit 24 r')"
    by (metis enc4_low_byte)
  with eq have "push_bit 8 r XOR rs_product (b XOR ucast (drop_bit 24 r))
      = push_bit 8 r' XOR rs_product (b XOR ucast (drop_bit 24 r))"
    by (simp add: enc4_ref)
  then have low: "bit (push_bit 8 r XOR rs_product (b XOR ucast (drop_bit 24 r))) i
      = bit (push_bit 8 r' XOR rs_product (b XOR ucast (drop_bit 24 r))) i" for i
    by simp
  from idx have top: "bit (b XOR ucast (drop_bit 24 r)) i = bit (b XOR ucast (drop_bit 24 r')) i" for i
    by simp
  show "r = r'"
  proof (rule bit_word_eqI)
    fix n assume "n < LENGTH(32)"
    then consider "n < 24" | "24 \<le> n" "n < 32" by force
    then show "bit r n = bit r' n"
    proof cases
      case 1 with low [of "n + 8"] show ?thesis by (auto simp: bit_simps)
    next
      case 2 with top [of "n - 24"] show ?thesis by (auto simp: bit_simps)
    qed
  qed
qed

lemma crc32c_calc_byte_inj: "crc32c_calc b r = crc32c_calc b' r \<Longrightarrow> b = b'"
proof -
  assume "crc32c_calc b r = crc32c_calc b' r"
  then have "r XOR ucast b = r XOR ucast b'"
    unfolding crc32c_calc_ref by (rule crc_bits_inj)
  then have eq: "bit (r XOR ucast b) i = bit (r XOR ucast b') i" for i by simp
  show "b = b'"
  proof (rule bit_word_eqI)
    fix n assume "n < LENGTH(8)"
    then show "bit b n = bit b' n" using eq [of n] by (auto simp: bit_simps)
  qed
qed

lemma crc32c_calc_reg_inj: "crc32c_calc b r = crc32c_calc b r' \<Longrightarrow> r = r'"
proof -
  assume "crc32c_calc b r = crc32c_calc b r'"
  then have "r XOR ucast b = r' XOR ucast b"
    unfolding crc32c_calc_ref by (rule crc_bits_inj)
  then have "bit (r XOR ucast b) i = bit (r' XOR ucast b) i" for i by simp
  then show "r = r'" by (intro bit_word_eqI) (auto simp: bit_simps)
qed

section \<open>The checksum interface\<close>

text \<open>
  A checksum register is fed byte by byte. When a step loses neither the register nor the byte,
  two inputs that differ in one byte never end in the same register.
\<close>

locale checksum_reg =
  fixes step :: "byte \<Rightarrow> u32 \<Rightarrow> u32"
  assumes step_reg_inj: "step b r = step b r' \<Longrightarrow> r = r'"
    and step_byte_inj: "step b r = step b' r \<Longrightarrow> b = b'"
begin

lemma fold_reg_inj: "fold step bs r = fold step bs r' \<Longrightarrow> r = r'"
  by (induction bs arbitrary: r r') (auto dest: step_reg_inj)

lemma fold_update_neq:
  "i < length bs \<Longrightarrow> b \<noteq> bs ! i \<Longrightarrow> fold step (bs[i := b]) r \<noteq> fold step bs r"
proof (induction bs arbitrary: i r)
  case (Cons a bs)
  show ?case
  proof (cases i)
    case 0
    with Cons.prems show ?thesis by (auto dest!: fold_reg_inj step_byte_inj)
  next
    case (Suc j)
    with Cons show ?thesis by simp
  qed
qed simp

end

text \<open>
  A guarded block is \<open>n\<close> bytes followed by a four-byte field that holds the final register.
\<close>

locale block_guard = checksum_reg +
  fixes ini :: u32 and fin :: "u32 \<Rightarrow> u32"
    and put :: "u32 \<Rightarrow> byte list" and get :: "byte list \<Rightarrow> u32 option"
  assumes fin_inj: "fin r = fin r' \<Longrightarrow> r = r'"
    and length_put: "length (put x) = 4"
    and get_put: "get (put x @ rest) = Some x"
    and get_take: "4 \<le> length bs \<Longrightarrow> get bs = Some x \<Longrightarrow> put x = take 4 bs"
begin

lemma guarded_accepted:
  assumes "prot = take n buf @ put (fin (fold step (take n buf) ini)) @ rest" and "n \<le> length buf"
  shows "get (drop n prot) = Some (fin (fold step (take n prot) ini))"
  using assms by (simp add: get_put)

lemma damaged_rejected:
  assumes "prot = take n buf @ put (fin (fold step (take n buf) ini)) @ rest" and "n \<le> length buf"
    and "i < n + 4" and "x \<noteq> prot ! i"
  shows "get (drop n (prot[i := x])) \<noteq> Some (fin (fold step (take n (prot[i := x])) ini))"
proof (cases "i < n")
  case True
  then have "drop n (prot[i := x]) = drop n prot" and t: "take n (prot[i := x]) = (take n prot)[i := x]"
    by (simp_all add: take_update_swap)
  moreover have "get (drop n prot) = Some (fin (fold step (take n prot) ini))"
    using assms(1,2) by (rule guarded_accepted)
  moreover have "fold step ((take n prot)[i := x]) ini \<noteq> fold step (take n prot) ini"
    using True assms by (intro fold_update_neq) (auto simp: nth_append)
  ultimately show ?thesis
    by (auto dest: fin_inj)
next
  case False
  then have t: "take n (prot[i := x]) = take n prot" by simp
  let ?f = "fin (fold step (take n prot) ini)"
  have len: "n + 4 \<le> length prot" using assms(1,2) by (simp add: length_put)
  show ?thesis
  proof
    assume "get (drop n (prot[i := x])) = Some (fin (fold step (take n (prot[i := x])) ini))"
    then have "put ?f = take 4 (drop n (prot[i := x]))"
      using len by (intro get_take) (simp_all add: t)
    moreover have "put ?f = take 4 (drop n prot)"
      using len guarded_accepted [OF assms(1,2)] by (intro get_take) simp_all
    ultimately have "take 4 (drop n (prot[i := x])) ! (i - n) = take 4 (drop n prot) ! (i - n)"
      by simp
    with False assms(3,4) len show False by simp
  qed
qed

end

lemma four_bytes: "4 \<le> length bs \<Longrightarrow> \<exists>a b c d rest. bs = a # b # c # d # rest"
  by (auto simp: numeral_eq_Suc Suc_le_length_iff)

lemma crc_bytes_of_bytes:
  assumes "4 \<le> length bs" and "crc_of_bytes bs = Some x"
  shows "crc_bytes x = take 4 bs"
proof -
  from assms(1) obtain a b c d rest where bs: "bs = a # b # c # d # rest"
    using four_bytes by blast
  with assms(2) have x: "x = ucast a OR push_bit 8 (ucast b) OR push_bit 16 (ucast c) OR push_bit 24 (ucast d)"
    by simp
  show ?thesis
    unfolding bs x crc_bytes_def ff_mask
    by (simp, intro conjI; rule bit_word_eqI; auto simp: bit_simps dest: bit_imp_le_length)
qed

lemma length_crc_bytes [simp]: "length (crc_bytes x) = 4"
  by (simp add: crc_bytes_def)

lemma crc_of_crc_bytes: "crc_of_bytes (crc_bytes x @ rest) = Some x"
proof -
  let ?w = "ucast (ucast (x AND 0xff) :: byte) OR push_bit 8 (ucast (ucast (drop_bit 8 x AND 0xff) :: byte))
      OR push_bit 16 (ucast (ucast (drop_bit 16 x AND 0xff) :: byte))
      OR push_bit 24 (ucast (ucast (drop_bit 24 x AND 0xff) :: byte)) :: u32"
  have "?w = x"
    unfolding ff_mask
  proof (rule bit_word_eqI)
    fix n assume "n < LENGTH(32)"
    then consider "n < 8" | "8 \<le> n" "n < 16" | "16 \<le> n" "n < 24" | "24 \<le> n" "n < 32"
      by force
    then show "bit (ucast (ucast (x AND mask 8) :: byte) OR push_bit 8 (ucast (ucast (drop_bit 8 x AND mask 8) :: byte))
      OR push_bit 16 (ucast (ucast (drop_bit 16 x AND mask 8) :: byte))
      OR push_bit 24 (ucast (ucast (drop_bit 24 x AND mask 8) :: byte)) :: u32) n = bit x n"
      by cases (auto simp: bit_simps)
  qed
  then show ?thesis by (simp add: crc_bytes_def)
qed

lemma u32tobe_of_betou32:
  assumes "4 \<le> length bs" and "ltfs_betou32 bs = Some x"
  shows "ltfs_u32tobe x = take 4 bs"
proof -
  from assms(1) obtain a b c d rest where "bs = a # b # c # d # rest"
    using four_bytes by blast
  with assms show ?thesis
    by (intro u32tobe_betou32) simp_all
qed

interpretation rs: block_guard enc4 "0" "\<lambda>r. r" ltfs_u32tobe ltfs_betou32
  by unfold_locales
    (auto dest: enc4_reg_inj enc4_byte_inj intro: u32tobe_of_betou32)

interpretation crc: block_guard crc32c_calc "0xffffffff" "\<lambda>r. NOT r" crc_bytes crc_of_bytes
  by unfold_locales
    (auto dest: crc32c_calc_reg_inj crc32c_calc_byte_inj crc_bytes_of_bytes
      simp: crc_of_crc_bytes)

section \<open>The hardware path computes the same register\<close>

text \<open>
  What the processor manual says of the two instructions: the byte form is eight steps of the
  reflected CRC, the quadword form the byte form on its eight bytes from the least significant on.
\<close>

definition crc_hw_ok :: "crc_env \<Rightarrow> bool" where
  "crc_hw_ok env \<longleftrightarrow>
     (\<forall>r b. mm8 env r b = crc_bits 8 (r XOR ucast b)) \<and>
     (\<forall>r bs. length bs = 8 \<longrightarrow>
        mm64 env (ucast r) (le64 bs) = ucast (fold (\<lambda>b r. crc_bits 8 (r XOR ucast b)) bs r))"

lemma crc32c_calc_fold: "fold (\<lambda>b r. crc_bits 8 (r XOR ucast b)) = fold crc32c_calc"
proof -
  have "(\<lambda>b r. crc_bits 8 (r XOR ucast b)) = crc32c_calc"
    by (simp add: fun_eq_iff crc32c_calc_ref)
  then show ?thesis by simp
qed

lemma mm8_calc: "crc_hw_ok env \<Longrightarrow> mm8 env r b = crc32c_calc b r"
  by (simp add: crc_hw_ok_def crc32c_calc_ref)

lemma sse_head_fold:
  "crc_hw_ok env \<Longrightarrow> sse_head env addr bs r = (bs', r') \<Longrightarrow>
     fold crc32c_calc bs r = fold crc32c_calc bs' r'"
  by (induction env addr bs r rule: sse_head.induct) (auto simp: mm8_calc split: if_splits)

lemma sse_body_fold:
  assumes "crc_hw_ok env"
  shows "sse_body env bs (ucast r) = (bs', rn) \<Longrightarrow>
     \<exists>r'. rn = ucast r' \<and> fold crc32c_calc bs r = fold crc32c_calc bs' r'"
proof (induction "length bs" arbitrary: bs r rule: less_induct)
  case less
  show ?case
  proof (cases "8 \<le> length bs")
    case True
    let ?r = "fold crc32c_calc (take 8 bs) r"
    from assms True have "mm64 env (ucast r) (le64 (take 8 bs)) = ucast ?r"
      unfolding crc_hw_ok_def by (simp add: crc32c_calc_fold)
    with less.prems True have "sse_body env (drop 8 bs) (ucast ?r) = (bs', rn)"
      by (simp add: sse_body.simps [of env bs])
    moreover from True have "length (drop 8 bs) < length bs" by simp
    ultimately obtain r' where "rn = ucast r'"
        and "fold crc32c_calc (drop 8 bs) ?r = fold crc32c_calc bs' r'"
      using less.hyps by blast
    moreover have "fold crc32c_calc bs r = fold crc32c_calc (drop 8 bs) ?r"
      by (metis append_take_drop_id fold_append comp_apply)
    ultimately show ?thesis by auto
  next
    case False
    with less.prems show ?thesis by (auto simp: sse_body.simps [of env bs])
  qed
qed

lemma ucast_ucast_u32 [simp]: "(ucast (ucast (r :: u32) :: u64) :: u32) = r"
  by (rule bit_word_eqI) (auto simp: bit_simps)

lemma foldl_mm8: "crc_hw_ok env \<Longrightarrow> foldl (mm8 env) r bs = fold crc32c_calc bs r"
  by (induction bs arbitrary: r) (simp_all add: mm8_calc)

lemma crc32c_reg_fold:
  assumes "crc_hw_ok env"
  shows "crc32c_reg env addr bs = fold crc32c_calc bs 0xffffffff"
proof (cases "sse4_2 env")
  case True
  obtain bs1 r1 where h: "sse_head env addr bs 0xffffffff = (bs1, r1)" by force
  obtain bs2 rn where b: "sse_body env bs1 (ucast r1) = (bs2, rn)" by force
  from sse_body_fold [OF assms b] obtain r2 where "rn = ucast r2"
      and "fold crc32c_calc bs1 r1 = fold crc32c_calc bs2 r2"
    by blast
  with True h b sse_head_fold [OF assms h] show ?thesis
    by (simp add: crc32c_reg_def foldl_mm8 [OF assms])
qed (simp add: crc32c_reg_def)

lemma crc32c_fold:
  "crc_hw_ok env \<Longrightarrow> crc32c env addr buf n = NOT (fold crc32c_calc (take n buf) 0xffffffff)"
  by (simp add: crc32c_def crc32c_reg_fold)

lemma int_of_size_exact: "n < 2147483648 \<Longrightarrow> int_of_size n = int n"
  by (simp add: int_of_size_def U32_def)

text \<open>An environment with the instructions as the manual describes them, for examples.\<close>

definition bytes64 :: "u64 \<Rightarrow> byte list" where
  "bytes64 w = map (\<lambda>i. ucast (drop_bit (8 * i) w)) [0..<8]"

definition x86_env :: crc_env where
  "x86_env = \<lparr>sse4_2 = True, mm8 = (\<lambda>r b. crc_bits 8 (r XOR ucast b)),
     mm64 = (\<lambda>r w. ucast (fold (\<lambda>b r. crc_bits 8 (r XOR ucast b)) (bytes64 w) (ucast r)))\<rparr>"

lemma bytes64_le64: "length bs = 8 \<Longrightarrow> bytes64 (le64 bs) = bs"
proof -
  assume "length bs = 8"
  then obtain a b c d e f g h where bs: "bs = [a, b, c, d, e, f, g, h]"
    by (auto simp: numeral_eq_Suc length_Suc_conv)
  have eight: "[0..<8] = [0, 1, 2, 3, 4, 5, 6, 7 :: nat]" by code_simp
  show "bytes64 (le64 bs) = bs"
    unfolding bs bytes64_def eight
    by (simp, intro conjI; rule bit_word_eqI; auto simp: bit_simps dest: bit_imp_le_length)
qed

lemma x86_env_ok: "crc_hw_ok x86_env"
  by (simp add: crc_hw_ok_def x86_env_def bytes64_le64)

section \<open>Properties\<close>

text \<open>
  C30. The checksum computed by \<^verbatim>\<open>crc32c\<close>, by the table or by the processor's instructions and
  for every alignment of the buffer, is the complement of the register of the bit-serial CRC
  with the reversed polynomial 0x82F63B78, started at all ones.
\<close>

theorem crc32c_computes_polynomial:
  assumes "crc_hw_ok env"
  shows "crc32c env addr buf n =
    NOT (fold (\<lambda>b r. crc_bits 8 (r XOR ucast b)) (take n buf) 0xffffffff)"
  by (simp add: crc32c_fold [OF assms] crc32c_calc_fold)

theorem crc32c_computes_polynomial_witness:
  "crc_hw_ok x86_env \<and> crc32c x86_env 5 [0x61, 0x62, 0x63] 3 = 0x364b3fb7"
proof -
  have "crc32c_calc 0x61 0xffffffff = 0x3e2fbccf" and "crc32c_calc 0x62 0x3e2fbccf = 0x1d5dd6c9"
    and "crc32c_calc 0x63 0x1d5dd6c9 = 0xc9b4c048"
    by (simp_all add: crc32c_calc_def crc32c_table_def)
  then have "NOT (fold (\<lambda>b r. crc_bits 8 (r XOR ucast b)) [0x61, 0x62, 0x63 :: byte] 0xffffffff) = 0x364b3fb7"
    unfolding crc32c_calc_fold by simp
  with crc32c_computes_polynomial [OF x86_env_ok, of 5 "[0x61, 0x62, 0x63]" 3] x86_env_ok
  show ?thesis by simp
qed

text \<open>
  A block protected by \<^verbatim>\<open>crc32c_enc\<close> passes \<^verbatim>\<open>crc32c_check\<close>, which returns the block's length,
  and after any one byte of data or checksum is changed the check returns -1.
\<close>

theorem crc32c_guards_block:
  assumes "crc_hw_ok env" and "crc32c_enc env addr buf n = Some prot" and "n < 2147483648"
  shows "crc32c_check env addr' prot n = Some (int n) \<and>
    (\<forall>i x. i < n + 4 \<and> x \<noteq> prot ! i \<longrightarrow> crc32c_check env addr' (prot[i := x]) n = Some (-1))"
proof -
  from assms(2) have len: "n \<le> length buf" and lp: "n + 4 \<le> length buf"
    and prot: "prot = take n buf @ crc_bytes (NOT (fold crc32c_calc (take n buf) 0xffffffff)) @ drop (n + 4) buf"
    by (auto simp: crc32c_enc_def crc32c_fold [OF assms(1)] split: if_splits)
  have check: "crc32c_check env addr' p n =
      Some (if crc_of_bytes (drop n p) = Some (NOT (fold crc32c_calc (take n p) 0xffffffff)) then int n else -1)"
    if "n + 4 \<le> length p" for p
  proof -
    from that obtain a b c d rest where "drop n p = a # b # c # d # rest"
      using four_bytes [of "drop n p"] by fastforce
    then show ?thesis
      using assms(3) by (simp add: crc32c_check_def crc32c_fold [OF assms(1)] int_of_size_exact)
  qed
  from lp prot have l: "n + 4 \<le> length prot" by simp
  show ?thesis
    using crc.guarded_accepted [OF prot len] crc.damaged_rejected [OF prot len] l
    by (simp add: check)
qed

theorem crc32c_guards_block_witness:
  "\<exists>prot. crc32c_enc x86_env 0 [1, 2, 0, 0, 0, 0] 2 = Some prot
     \<and> crc32c_check x86_env 0 prot 2 = Some 2
     \<and> crc32c_check x86_env 0 (prot[1 := prot ! 1 + 1]) 2 = Some (-1)"
proof -
  obtain prot where p: "crc32c_enc x86_env 0 [1, 2, 0, 0, 0, 0] 2 = Some prot"
    by (simp add: crc32c_enc_def)
  with crc32c_guards_block [OF x86_env_ok p, of 0] show ?thesis by simp
qed

text \<open>
  The same holds of the Reed-Solomon checksum: \<^verbatim>\<open>rs_gf256_check\<close> accepts what
  \<^verbatim>\<open>rs_gf256_enc\<close> produced and returns -1 after any one byte of data or checksum is changed.
\<close>

theorem rs_gf256_guards_block:
  assumes "rs_gf256_enc buf n = Some prot" and "n < 2147483648"
  shows "rs_gf256_check prot n = Some (int n) \<and>
    (\<forall>i x. i < n + 4 \<and> x \<noteq> prot ! i \<longrightarrow> rs_gf256_check (prot[i := x]) n = Some (-1))"
proof -
  from assms(1) have len: "n \<le> length buf" and lp: "n + 4 \<le> length buf"
    and prot: "prot = take n buf @ ltfs_u32tobe (fold enc4 (take n buf) 0) @ drop (n + 4) buf"
    by (auto simp: rs_gf256_enc_def split: if_splits)
  have check: "rs_gf256_check p n =
      Some (if ltfs_betou32 (drop n p) = Some (fold enc4 (take n p) 0) then int n else -1)"
    if "n + 4 \<le> length p" for p
  proof -
    from that obtain a b c d rest where "drop n p = a # b # c # d # rest"
      using four_bytes [of "drop n p"] by fastforce
    then show ?thesis
      using assms(2) by (simp add: rs_gf256_check_def int_of_size_exact)
  qed
  from lp prot have l: "n + 4 \<le> length prot" by simp
  show ?thesis
    using rs.guarded_accepted [OF prot len] rs.damaged_rejected [OF prot len] l
    by (simp add: check)
qed

theorem rs_gf256_guards_block_witness:
  "\<exists>prot. rs_gf256_enc [1, 2, 0, 0, 0, 0] 2 = Some prot
     \<and> rs_gf256_check prot 2 = Some 2 \<and> rs_gf256_check (prot[5 := prot ! 5 + 1]) 2 = Some (-1)"
proof -
  obtain prot where p: "rs_gf256_enc [1, 2, 0, 0, 0, 0] 2 = Some prot"
    by (simp add: rs_gf256_enc_def)
  with rs_gf256_guards_block [OF p] show ?thesis by simp
qed

text \<open>
  The copying variants, which the drivers use on their read and write paths: what was copied and
  protected by the one is copied back unchanged by the other.
\<close>

lemma memcpy_crc32c_roundtrip:
  assumes "crc_hw_ok env" and "memcpy_crc32c_enc env addr dest src n = Some prot"
    and "n < 2147483648" and "n \<le> length dest'"
  shows "memcpy_crc32c_check env addr' dest' prot n = Some (int n, take n src @ drop n dest')"
proof -
  from assms(2) have len: "n \<le> length src"
    and prot: "prot = take n src @ crc_bytes (NOT (fold crc32c_calc (take n src) 0xffffffff)) @ drop (n + 4) dest"
    by (auto simp: memcpy_crc32c_enc_def crc32c_fold [OF assms(1)] split: if_splits)
  with crc.guarded_accepted [OF prot len] assms show ?thesis
    by (simp add: memcpy_crc32c_check_def crc32c_fold int_of_size_exact)
qed

lemma memcpy_rs_gf256_roundtrip:
  assumes "memcpy_rs_gf256_enc dest src n = Some prot" and "n < 2147483648" and "n \<le> length dest'"
  shows "memcpy_rs_gf256_check dest' prot n = Some (int n, take n src @ drop n dest')"
proof -
  from assms(1) have len: "n \<le> length src"
    and prot: "prot = take n src @ ltfs_u32tobe (fold enc4 (take n src) 0) @ drop (n + 4) dest"
    by (auto simp: memcpy_rs_gf256_enc_def split: if_splits)
  with rs.guarded_accepted [OF prot len] assms show ?thesis
    by (simp add: memcpy_rs_gf256_check_def int_of_size_exact)
qed

end
