(* ===== verification/Ltfs_Config.thy ===== *)
theory Ltfs_Config
  imports Ltfs_Prelude "HOL-Library.Monad_Syntax"
begin

text \<open>
  The configuration file of LTFS (\<^verbatim>\<open>libltfs/config_file.c\<close>): the plugins, the default plugin of each type and the
  options. A text is a list of bytes; the host's files and the success of every allocation are arguments.
  \<open>None\<close> is a run that does not return or whose behaviour is undefined.
\<close>

section \<open>Tokens and lines\<close>

text \<open>\<^verbatim>\<open>strtok_r\<close>: the next token and what is left after the delimiter that ends it.\<close>

definition strtok_r :: "(byte \<Rightarrow> bool) \<Rightarrow> byte list \<Rightarrow> (byte list \<times> byte list) option" where
  "strtok_r delim s =
     (let s = dropWhile delim s
      in if s = [] then None else Some (takeWhile (\<lambda>c. \<not> delim c) s, drop 1 (dropWhile (\<lambda>c. \<not> delim c) s)))"

definition eol :: "byte \<Rightarrow> bool" where
  "eol c \<longleftrightarrow> c = 0x0d \<or> c = 0x0a"

definition blank :: "byte \<Rightarrow> bool" where
  "blank c \<longleftrightarrow> c = 0x20 \<or> c = 0x09 \<or> eol c"

definition LINE_MAX :: nat where "LINE_MAX = 65535"

text \<open>\<^verbatim>\<open>fgets\<close> reads to the end of the line, or as many bytes as fit into the buffer.\<close>

definition fgets :: "byte list \<Rightarrow> byte list \<times> byte list" where
  "fgets s = (let n = min LINE_MAX (length (takeWhile (\<lambda>c. c \<noteq> 0x0a) s) + 1) in (take n s, drop n s))"

text \<open>The line as a C string, without its comment and the white space at its end.\<close>

definition config_strip :: "byte list \<Rightarrow> byte list" where
  "config_strip line = rev (dropWhile blank (rev (takeWhile (\<lambda>c. c \<noteq> 0x23) line)))"

definition c_string :: "byte list \<Rightarrow> byte list" where
  "c_string s = takeWhile (\<lambda>c. c \<noteq> 0) s"

section \<open>The configuration\<close>

record plugin_entry =
  pe_type :: "byte list"
  pe_name :: "byte list"
  pe_library :: "byte list option"

record option_entry =
  opt_type :: "byte list"
  opt_option :: "byte list"

record config_file =
  plugins :: "plugin_entry list"
  default_plugins :: "plugin_entry list"
  mount_options :: "option_entry list"

definition config_file_get_default_plugin :: "byte list \<Rightarrow> config_file \<Rightarrow> byte list option" where
  "config_file_get_default_plugin type cfg = map_option pe_name (find (\<lambda>e. pe_type e = type) (default_plugins cfg))"

definition config_file_get_lib :: "byte list \<Rightarrow> byte list \<Rightarrow> config_file \<Rightarrow> byte list option" where
  "config_file_get_lib type name cfg = Option.bind (find (\<lambda>e. pe_type e = type \<and> pe_name e = name) (plugins cfg)) pe_library"

text \<open>\<open>mem 0\<close> allocates the list, \<open>mem (i + 1)\<close> its entry \<open>i\<close>.\<close>

definition copy_names :: "(nat \<Rightarrow> bool) \<Rightarrow> byte list list \<Rightarrow> byte list list option" where
  "copy_names mem l = (if mem 0 \<and> list_all (\<lambda>i. mem (i + 1)) [0..<length l] then Some l else None)"

definition config_file_get_plugins :: "(nat \<Rightarrow> bool) \<Rightarrow> byte list \<Rightarrow> config_file \<Rightarrow> byte list list option" where
  "config_file_get_plugins mem type cfg = copy_names mem (map pe_name (filter (\<lambda>e. pe_type e = type) (plugins cfg)))"

definition config_file_get_options :: "(nat \<Rightarrow> bool) \<Rightarrow> byte list \<Rightarrow> config_file \<Rightarrow> byte list list option" where
  "config_file_get_options mem type cfg = copy_names mem (map opt_option (filter (\<lambda>e. opt_type e = type) (mount_options cfg)))"

definition config_file_validate :: "config_file \<Rightarrow> err + unit" where
  "config_file_validate cfg =
     (if list_all (\<lambda>de. list_ex (\<lambda>pe. pe_type pe = pe_type de \<and> pe_name pe = pe_name de) (plugins cfg) \<or> pe_name de = str ''none'')
           (default_plugins cfg)
      then Inr () else Inl LTFS_CONFIG_INVALID)"

section \<open>Directives\<close>

text \<open>In what follows \<open>s\<close> is the text after the first token of a line.\<close>

definition config_file_parse_name :: "(nat \<Rightarrow> bool) \<Rightarrow> byte list \<Rightarrow> err + byte list" where
  "config_file_parse_name mem s =
     (case strtok_r blank s of
        None \<Rightarrow> Inl LTFS_CONFIG_INVALID
      | Some (tok, s) \<Rightarrow>
          if \<not> mem 0 then Inl LTFS_NO_MEMORY
          else if strtok_r blank s \<noteq> None then Inl LTFS_CONFIG_INVALID
          else Inr tok)"

text \<open>The type and the name of a plugin, and what is left.\<close>

definition type_and_name :: "(nat \<Rightarrow> bool) \<Rightarrow> byte list \<Rightarrow> err + byte list \<times> byte list \<times> byte list" where
  "type_and_name mem s =
     (case strtok_r blank s of
        None \<Rightarrow> Inl LTFS_CONFIG_INVALID
      | Some (type, s) \<Rightarrow>
          if \<not> mem 0 then Inl LTFS_NO_MEMORY
          else (case strtok_r blank s of
                  None \<Rightarrow> Inl LTFS_CONFIG_INVALID
                | Some (name, s) \<Rightarrow> if \<not> mem 1 then Inl LTFS_NO_MEMORY else Inr (type, name, s)))"

definition config_file_parse_default :: "(nat \<Rightarrow> bool) \<Rightarrow> byte list \<Rightarrow> config_file \<Rightarrow> (unit, config_file) result" where
  "config_file_parse_default mem s cfg =
     (case type_and_name mem s of
        Inl e \<Rightarrow> (Inl e, cfg)
      | Inr (type, name, s) \<Rightarrow>
          if strtok_r blank s \<noteq> None then (Inl LTFS_CONFIG_INVALID, cfg)
          else if list_ex (\<lambda>e. pe_type e = type) (default_plugins cfg)
          then (Inr (), cfg\<lparr>default_plugins := map (\<lambda>e. if pe_type e = type then e\<lparr>pe_type := type, pe_name := name\<rparr> else e) (default_plugins cfg)\<rparr>)
          else if \<not> mem 2 then (Inl LTFS_NO_MEMORY, cfg)
          else (Inr (), cfg\<lparr>default_plugins := default_plugins cfg @ [\<lparr>pe_type = type, pe_name = name, pe_library = None\<rparr>]\<rparr>))"

definition config_file_remove_default :: "(nat \<Rightarrow> bool) \<Rightarrow> byte list \<Rightarrow> config_file \<Rightarrow> (unit, config_file) result" where
  "config_file_remove_default mem s cfg =
     (case strtok_r blank s of
        None \<Rightarrow> (Inl LTFS_CONFIG_INVALID, cfg)
      | Some (type, s) \<Rightarrow>
          if \<not> mem 0 then (Inl LTFS_NO_MEMORY, cfg)
          else if strtok_r blank s \<noteq> None then (Inl LTFS_CONFIG_INVALID, cfg)
          else if \<not> list_ex (\<lambda>e. pe_type e = type) (default_plugins cfg) then (Inl LTFS_CONFIG_INVALID, cfg)
          else (Inr (), cfg\<lparr>default_plugins := filter (\<lambda>e. pe_type e \<noteq> type) (default_plugins cfg)\<rparr>))"

text \<open>
  The loop that looks for the plugin. At an entry that matches, type and name are freed and the loop goes
  on; the next comparison reads freed memory.
\<close>

fun replace_library :: "byte list \<Rightarrow> byte list \<Rightarrow> byte list \<Rightarrow> plugin_entry list \<Rightarrow> (bool \<times> plugin_entry list) option" where
  "replace_library type name lib [] = Some (False, [])"
| "replace_library type name lib (e # l) =
     (if pe_type e = type \<and> pe_name e = name
      then if l = [] then Some (True, [e\<lparr>pe_library := Some lib\<rparr>]) else None
      else map_option (\<lambda>(found, l). (found, e # l)) (replace_library type name lib l))"

definition config_file_parse_plugin :: "(nat \<Rightarrow> bool) \<Rightarrow> byte list \<Rightarrow> config_file \<Rightarrow> (unit, config_file) result option" where
  "config_file_parse_plugin mem s cfg =
     (case type_and_name mem s of
        Inl e \<Rightarrow> Some (Inl e, cfg)
      | Inr (type, name, s) \<Rightarrow>
          (case strtok_r eol s of
             None \<Rightarrow> Some (Inl LTFS_CONFIG_INVALID, cfg)
           | Some (lib, _) \<Rightarrow>
               if \<not> mem 2 then Some (Inl LTFS_NO_MEMORY, cfg)
               else (case replace_library type name lib (plugins cfg) of
                       None \<Rightarrow> None
                     | Some (True, l) \<Rightarrow> Some (Inr (), cfg\<lparr>plugins := l\<rparr>)
                     | Some (False, l) \<Rightarrow>
                         if \<not> mem 3 then Some (Inl LTFS_NO_MEMORY, cfg)
                         else Some (Inr (), cfg\<lparr>plugins := l @ [\<lparr>pe_type = type, pe_name = name, pe_library = Some lib\<rparr>]\<rparr>))))"

definition config_file_remove_plugin :: "(nat \<Rightarrow> bool) \<Rightarrow> byte list \<Rightarrow> config_file \<Rightarrow> (unit, config_file) result" where
  "config_file_remove_plugin mem s cfg =
     (case type_and_name mem s of
        Inl e \<Rightarrow> (Inl e, cfg)
      | Inr (type, name, s) \<Rightarrow>
          if strtok_r blank s \<noteq> None then (Inl LTFS_CONFIG_INVALID, cfg)
          else (Inr (), cfg\<lparr>plugins := filter (\<lambda>e. \<not> (pe_type e = type \<and> pe_name e = name)) (plugins cfg)\<rparr>))"

text \<open>
  The option is copied from \<open>line\<close>, the saved text after the first token and one delimiter, at the distance
  from the start of the type to the start of the option.
\<close>

definition raw_option_type :: "byte list \<Rightarrow> bool" where
  "raw_option_type type \<longleftrightarrow> type = str ''adminservice'' \<or> type = str ''dcache'' \<or> type = str ''startup'' \<or> type = str ''snmp''"

definition config_file_parse_option :: "(nat \<Rightarrow> bool) \<Rightarrow> byte list \<Rightarrow> byte list \<Rightarrow> err + option_entry" where
  "config_file_parse_option mem line s =
     (case strtok_r blank s of
        None \<Rightarrow> Inl LTFS_CONFIG_INVALID
      | Some (type, s) \<Rightarrow>
          if \<not> mem 0 then Inl LTFS_NO_MEMORY
          else (case strtok_r blank s of
                  None \<Rightarrow> Inl LTFS_CONFIG_INVALID
                | Some _ \<Rightarrow>
                    let text = drop (length type + 1 + length (takeWhile blank s)) line;
                        opt = (if raw_option_type type \<or> (text \<noteq> [] \<and> hd text = 0x2d) then text else str ''-o'' @ text)
                    in if \<not> mem 1 then Inl LTFS_NO_MEMORY
                       else if \<not> mem 2 then Inl LTFS_NO_MEMORY
                       else Inr \<lparr>opt_type = type, opt_option = opt\<rparr>))"

text \<open>A line other than an include; an unknown directive is ignored with a warning.\<close>

definition config_directive :: "(nat \<Rightarrow> bool) \<Rightarrow> byte list \<Rightarrow> byte list \<Rightarrow> config_file \<Rightarrow> (unit, config_file) result option" where
  "config_directive mem tok s cfg =
     (if tok = str ''plugin'' then config_file_parse_plugin mem s cfg
      else if tok = str ''default'' then Some (config_file_parse_default mem s cfg)
      else if tok = str ''option''
      then Some (case config_file_parse_option mem s s of
                   Inl e \<Rightarrow> (Inl e, cfg)
                 | Inr ol \<Rightarrow> (Inr (), cfg\<lparr>mount_options := mount_options cfg @ [ol]\<rparr>))
      else if tok = str ''-default'' then Some (config_file_remove_default mem s cfg)
      else if tok = str ''-plugin'' then Some (config_file_remove_plugin mem s cfg)
      else Some (Inr (), cfg))"

section \<open>Files\<close>

text \<open>
  \<open>ce_fopen\<close> gives the contents of a file, or the error number. \<open>ce_mem\<close>: an allocation is named by its number
  within the line, the number of the line, and the lines of the includes that lead to the file.
\<close>

record config_env =
  ce_fopen :: "byte list \<Rightarrow> err + byte list"
  ce_mem :: "nat list \<Rightarrow> bool"
  ce_default :: "byte list"

text \<open>
  One line: it is done, or the contents of an included file have to be read first. What is included may be missing
  or wrong with \<^verbatim>\<open>include_noerror\<close>.
\<close>

datatype config_step = Done "(unit, config_file) result option" | Include bool "byte list"

definition config_line :: "(nat \<Rightarrow> bool) \<Rightarrow> (byte list \<Rightarrow> err + byte list) \<Rightarrow> byte list \<Rightarrow> config_file \<Rightarrow> config_step" where
  "config_line mem fopen text cfg =
     (case strtok_r blank text of
        None \<Rightarrow> Done (Some (Inr (), cfg))
      | Some (tok, s) \<Rightarrow>
          if tok = str ''include'' \<or> tok = str ''include_noerror'' then
            (case config_file_parse_name mem s of
               Inl e \<Rightarrow> Done (Some (Inl e, cfg))
             | Inr path \<Rightarrow>
                 (case fopen path of
                    Inl e \<Rightarrow> Done (Some (if tok = str ''include_noerror'' then Inr () else Inl e, cfg))
                  | Inr data \<Rightarrow> Include (tok = str ''include_noerror'') data))
          else Done (config_directive mem tok s cfg))"

text \<open>
  The loop over the lines of a file that is open; \<open>at\<close> are the lines that led to the file, \<open>i\<close> is the number of
  the line. An included file is read in the same way before the next line.
\<close>

partial_function (option) config_lines ::
    "config_env \<Rightarrow> nat list \<Rightarrow> nat \<Rightarrow> byte list \<Rightarrow> config_file \<Rightarrow> (unit, config_file) result option" where
  "config_lines env at i data cfg =
     (if data = [] then Some (Inr (), cfg)
      else if length (c_string (fst (fgets data))) = LINE_MAX then Some (Inl LTFS_CONFIG_INVALID, cfg)
      else if \<not> ce_mem env (0 # i # at) then Some (Inl LTFS_NO_MEMORY, cfg)
      else do {
        (r, cfg) \<leftarrow>
          (case config_line (\<lambda>j. ce_mem env (Suc j # i # at)) (ce_fopen env) (config_strip (c_string (fst (fgets data)))) cfg of
             Done r \<Rightarrow> r
           | Include noerror data \<Rightarrow> do {
               (r, cfg) \<leftarrow> config_lines env (i # at) 0 data cfg;
               Some (if noerror then Inr () else r, cfg)});
        (case r of
           Inl e \<Rightarrow> Some (Inl e, cfg)
         | Inr _ \<Rightarrow> config_lines env at (Suc i) (snd (fgets data)) cfg)})"

definition config_file_parse :: "config_env \<Rightarrow> byte list \<Rightarrow> bool \<Rightarrow> config_file \<Rightarrow> (unit, config_file) result option" where
  "config_file_parse env path ignore_error cfg =
     (case ce_fopen env path of
        Inl e \<Rightarrow> Some (if ignore_error then Inr () else Inl e, cfg)
      | Inr data \<Rightarrow> config_lines env [] 0 data cfg)"

definition empty_config :: config_file where
  "empty_config = \<lparr>plugins = [], default_plugins = [], mount_options = []\<rparr>"

definition config_file_load :: "config_env \<Rightarrow> byte list option \<Rightarrow> (err + config_file) option" where
  "config_file_load env path =
     (if \<not> ce_mem env [] then Some (Inl LTFS_NO_MEMORY)
      else do {
        (r, cfg) \<leftarrow> config_file_parse env (case path of None \<Rightarrow> ce_default env | Some p \<Rightarrow> p) False empty_config;
        Some (case r of
                Inl e \<Rightarrow> Inl e
              | Inr _ \<Rightarrow> (case config_file_validate cfg of Inl e \<Rightarrow> Inl e | Inr _ \<Rightarrow> Inr cfg))})"


section \<open>Well-formed configurations\<close>

text \<open>
  At most one default for each type, at most one plugin for each type and name, and a library for each plugin.
\<close>

abbreviation pe_key :: "plugin_entry \<Rightarrow> byte list \<times> byte list" where
  "pe_key e \<equiv> (pe_type e, pe_name e)"

definition config_wf :: "config_file \<Rightarrow> bool" where
  "config_wf cfg \<longleftrightarrow> distinct (map pe_type (default_plugins cfg)) \<and> distinct (map pe_key (plugins cfg)) \<and>
     list_all (\<lambda>e. pe_library e \<noteq> None) (plugins cfg)"

lemma replace_library_spec:
  assumes "replace_library type name lib l = Some (found, l')"
  shows "map pe_key l' = map pe_key l \<and> (found \<longleftrightarrow> (type, name) \<in> pe_key ` set l) \<and>
    (list_all (\<lambda>e. pe_library e \<noteq> None) l \<longrightarrow> list_all (\<lambda>e. pe_library e \<noteq> None) l')"
  using assms
proof (induction l arbitrary: l')
  case (Cons e l)
  show ?case
  proof (cases "pe_type e = type \<and> pe_name e = name")
    case True
    then show ?thesis using Cons.prems by (auto split: if_splits)
  next
    case False
    then obtain k where k: "replace_library type name lib l = Some (found, k)" "l' = e # k" using Cons.prems by auto
    show ?thesis using Cons.IH [OF k(1)] k(2) False by auto
  qed
qed simp

lemma parse_plugin_wf:
  assumes "config_file_parse_plugin mem s cfg = Some (r, cfg')" and "config_wf cfg"
  shows "config_wf cfg'"
proof -
  have "config_wf (cfg\<lparr>plugins := l\<rparr>)" if "replace_library type name lib (plugins cfg) = Some (True, l)" for type name lib l
    using replace_library_spec [OF that] assms(2) by (simp add: config_wf_def)
  moreover have "config_wf (cfg\<lparr>plugins := l @ [\<lparr>pe_type = type, pe_name = name, pe_library = Some lib\<rparr>]\<rparr>)"
    if "replace_library type name lib (plugins cfg) = Some (False, l)" for type name lib l
  proof -
    have l: "map pe_key l = map pe_key (plugins cfg)" "(type, name) \<notin> pe_key ` set (plugins cfg)" "list_all (\<lambda>e. pe_library e \<noteq> None) l"
      using replace_library_spec [OF that] assms(2) by (auto simp: config_wf_def)
    have "pe_key ` set l = pe_key ` set (plugins cfg)" using arg_cong [OF l(1), of set] by simp
    then show ?thesis using l assms(2) by (simp add: config_wf_def)
  qed
  ultimately show ?thesis
    using assms by (auto simp: config_file_parse_plugin_def split: sum.splits option.splits if_splits bool.splits)
qed

lemma config_directive_wf:
  assumes call: "config_directive mem tok s cfg = Some (r, cfg')" and wf: "config_wf cfg"
  shows "config_wf cfg'"
proof -
  have same: "pe_type \<circ> (\<lambda>e :: plugin_entry. if pe_type e = type then e\<lparr>pe_type := type, pe_name := name\<rparr> else e) = pe_type" for type name
    by (simp add: fun_eq_iff)
  have "config_wf (snd (config_file_parse_default mem s cfg))"
    using wf same by (auto simp: config_wf_def config_file_parse_default_def list_ex_iff split: sum.split)
  moreover have "config_wf (snd (config_file_remove_default mem s cfg))"
    using wf by (auto simp: config_wf_def config_file_remove_default_def distinct_map inj_on_def split: option.split)
  moreover have "config_wf (snd (config_file_remove_plugin mem s cfg))"
    using wf by (auto simp: config_wf_def config_file_remove_plugin_def distinct_map inj_on_def list_all_iff split: sum.split)
  ultimately show ?thesis
    using call wf parse_plugin_wf [of mem s cfg r cfg']
    by (auto simp: config_directive_def config_wf_def split: if_splits sum.splits)
qed

lemma config_line_wf:
  assumes "config_line mem fopen text cfg = Done (Some (r, c))" and "config_wf cfg"
  shows "config_wf c"
  using assms config_directive_wf by (auto simp: config_line_def split: option.splits if_splits sum.splits)

lemma config_lines_wf:
  assumes "config_lines env at i data cfg = Some z" and "config_wf cfg"
  shows "config_wf (snd z)"
proof -
  have "config_wf cfg \<longrightarrow> config_wf (snd z)"
  proof (rule config_lines.raw_induct [OF _ assms(1), where P = "\<lambda>_ _ _ _ cfg z. config_wf cfg \<longrightarrow> config_wf (snd z)"], goal_cases)
    case (1 f env at i data cfg z)
    show ?case
    proof
      assume wf: "config_wf cfg"
      have inc: "config_wf c" if "f env (i # at) 0 d cfg = Some (r, c)" for d r c using 1(1) [OF that] wf by simp
      have nxt: "config_wf (snd z)"
        if "(case r of Inl e \<Rightarrow> Some (Inl e, c) | Inr _ \<Rightarrow> f env at (Suc i) (snd (fgets data)) c) = Some z" "config_wf c" for r :: "err + unit" and c
        using that 1(1) [of env at "Suc i" "snd (fgets data)" c z] by (cases r) auto
      show "config_wf (snd z)"
      proof (cases "config_line (\<lambda>j. ce_mem env (Suc j # i # at)) (ce_fopen env) (config_strip (c_string (fst (fgets data)))) cfg")
        case (Done x)
        then show ?thesis using 1(2) wf by (cases x) (auto split: if_split_asm intro: nxt config_line_wf)
      next
        case (Include noerror d)
        then show ?thesis using 1(2) wf nxt inc [of d] by (cases "f env (i # at) 0 d cfg") (auto split: if_split_asm)
      qed
    qed
  qed
  then show ?thesis using assms(2) by simp
qed


section \<open>Writing a configuration\<close>

text \<open>A word of a directive, and the rest of a line.\<close>

definition config_word :: "byte list \<Rightarrow> bool" where
  "config_word w \<longleftrightarrow> w \<noteq> [] \<and> list_all (\<lambda>c. \<not> blank c \<and> c \<noteq> 0x23 \<and> c \<noteq> 0) w"

definition config_rest :: "byte list \<Rightarrow> bool" where
  "config_rest w \<longleftrightarrow> w \<noteq> [] \<and> list_all (\<lambda>c. \<not> eol c \<and> c \<noteq> 0x23 \<and> c \<noteq> 0) w \<and> \<not> blank (last w)"

definition plugin_line :: "plugin_entry \<Rightarrow> byte list" where
  "plugin_line e = str ''plugin '' @ pe_type e @ [0x20] @ pe_name e @ [0x20] @ (case pe_library e of None \<Rightarrow> [] | Some lib \<Rightarrow> lib)"

definition default_line :: "plugin_entry \<Rightarrow> byte list" where
  "default_line e = str ''default '' @ pe_type e @ [0x20] @ pe_name e"

definition option_line :: "option_entry \<Rightarrow> byte list" where
  "option_line e = str ''option '' @ opt_type e @ [0x20] @ opt_option e"

definition config_text :: "config_file \<Rightarrow> byte list" where
  "config_text cfg = concat (map (\<lambda>l. l @ [0x0a])
     (map plugin_line (plugins cfg) @ map default_line (default_plugins cfg) @ map option_line (mount_options cfg)))"

text \<open>What can be written: the option is given in the form that is stored.\<close>

definition config_printable :: "config_file \<Rightarrow> bool" where
  "config_printable cfg \<longleftrightarrow>
     list_all (\<lambda>e. config_word (pe_type e) \<and> config_word (pe_name e) \<and> (\<exists>lib. pe_library e = Some lib \<and> config_rest lib)) (plugins cfg) \<and>
     list_all (\<lambda>e. config_word (pe_type e) \<and> config_word (pe_name e) \<and> pe_library e = None) (default_plugins cfg) \<and>
     list_all (\<lambda>e. config_word (opt_type e) \<and> config_rest (opt_option e) \<and> \<not> blank (hd (opt_option e)) \<and>
       (raw_option_type (opt_type e) \<or> hd (opt_option e) = 0x2d)) (mount_options cfg) \<and>
     list_all (\<lambda>l. length l + 1 < LINE_MAX)
       (map plugin_line (plugins cfg) @ map default_line (default_plugins cfg) @ map option_line (mount_options cfg))"

lemma blank_space [simp]: "blank 0x20" "blank 0x0a" "\<not> eol 0x20"
  by (simp_all add: blank_def eol_def)

lemma strtok_word:
  assumes "config_word w"
  shows "strtok_r blank (w @ 0x20 # s) = Some (w, s)" "strtok_r blank w = Some (w, [])"
proof -
  have a: "\<forall>c \<in> set w. \<not> blank c" "w \<noteq> []" using assms by (auto simp: config_word_def list_all_iff)
  then have "dropWhile blank (w @ t) = w @ t" for t by (cases w) auto
  from this [of "0x20 # s"] this [of "[]"] a show "strtok_r blank (w @ 0x20 # s) = Some (w, s)" "strtok_r blank w = Some (w, [])"
    by (simp_all add: strtok_r_def Let_def dropWhile_eq_Nil_conv [THEN iffD2])
qed

lemma strtok_rest: "config_rest w \<Longrightarrow> strtok_r eol w = Some (w, [])"
proof -
  assume "config_rest w"
  then have a: "\<forall>c \<in> set w. \<not> eol c" "w \<noteq> []" by (auto simp: config_rest_def list_all_iff)
  then have "dropWhile eol w = w" by (cases w) auto
  with a show ?thesis by (simp add: strtok_r_def Let_def dropWhile_eq_Nil_conv [THEN iffD2])
qed

text \<open>A line of text as the loop reads it.\<close>

definition line_text :: "byte list \<Rightarrow> bool" where
  "line_text l \<longleftrightarrow> config_rest l \<and> length l + 1 < LINE_MAX"

lemma fgets_line:
  assumes "line_text l"
  shows "fst (fgets (l @ 0x0a # rest)) = l @ [0x0a]" "snd (fgets (l @ 0x0a # rest)) = rest"
    "c_string (l @ [0x0a]) = l @ [0x0a]" "config_strip (l @ [0x0a]) = l" "length l + 1 \<noteq> LINE_MAX"
proof -
  have a: "\<forall>c \<in> set l. c \<noteq> 0x0a" "\<forall>c \<in> set l. c \<noteq> 0" "\<forall>c \<in> set l. c \<noteq> 0x23" "\<not> blank (last l)" "l \<noteq> []" "length l + 1 < LINE_MAX"
    using assms by (auto simp: line_text_def config_rest_def list_all_iff eol_def)
  have "takeWhile (\<lambda>c. c \<noteq> 0x0a) (l @ 0x0a # rest) = l" using a(1) by simp
  then show "fst (fgets (l @ 0x0a # rest)) = l @ [0x0a]" "snd (fgets (l @ 0x0a # rest)) = rest"
    using a(6) by (simp_all add: fgets_def Let_def min_def)
  show "c_string (l @ [0x0a]) = l @ [0x0a]" using a(2) by (simp add: c_string_def)
  have "dropWhile blank (rev l) = rev l" using a(4,5) by (cases "rev l") (auto simp: last_rev hd_rev [symmetric])
  moreover have "takeWhile (\<lambda>c. c \<noteq> 0x23) (l @ [0x0a]) = l @ [0x0a]" using a(3) by simp
  ultimately show "config_strip (l @ [0x0a]) = l" by (simp add: config_strip_def)
  show "length l + 1 \<noteq> LINE_MAX" using a(6) by simp
qed

lemma config_lines_step:
  assumes "line_text l" and "\<forall>x. ce_mem env x"
    and "config_line (\<lambda>_. True) (ce_fopen env) l cfg = Done (Some (Inr (), c))"
  shows "config_lines env at i (l @ 0x0a # rest) cfg = config_lines env at (Suc i) rest c"
  by (subst config_lines.simps) (use assms fgets_line [OF assms(1)] in simp)

text \<open>A group of lines, each of which adds an entry.\<close>

lemma config_lines_group:
  assumes mem: "\<forall>x. ce_mem env x"
    and step: "\<And>p x q. xs = p @ x # q \<Longrightarrow> line_text (pr x) \<and> config_line (\<lambda>_. True) (ce_fopen env) (pr x) (add p) = Done (Some (Inr (), add (p @ [x])))"
  shows "config_lines env at i (concat (map (\<lambda>l. l @ [0x0a]) (map pr xs)) @ rest) (add []) = config_lines env at (i + length xs) rest (add xs)"
proof -
  have "xs = p @ q \<Longrightarrow> config_lines env at j (concat (map (\<lambda>l. l @ [0x0a]) (map pr q)) @ rest) (add p) = config_lines env at (j + length q) rest (add xs)" for p q j
  proof (induction q arbitrary: p j)
    case (Cons x q)
    note s = step [OF Cons.prems]
    have "config_lines env at (Suc j) (concat (map (\<lambda>l. l @ [0x0a]) (map pr q)) @ rest) (add (p @ [x])) = config_lines env at (Suc j + length q) rest (add xs)"
      using Cons.IH [of "p @ [x]" "Suc j"] Cons.prems by simp
    then show ?case using config_lines_step [OF _ mem, of "pr x" "add p" "add (p @ [x])" at j] s by simp
  qed simp
  then show ?thesis by simp
qed


lemma config_directives:
  "config_word (str ''plugin'')" "config_word (str ''default'')" "config_word (str ''option'')"
  "str ''plugin '' = str ''plugin'' @ [0x20]" "str ''default '' = str ''default'' @ [0x20]" "str ''option '' = str ''option'' @ [0x20]"
  by (simp_all add: config_word_def str_def blank_def eol_def)

lemma config_text_rest:
  assumes "config_word a" and "config_rest b"
  shows "config_rest (a @ 0x20 # b)"
  using assms by (auto simp: config_rest_def config_word_def list_all_iff blank_def)

lemma config_word_rest: "config_word a \<Longrightarrow> config_rest a"
  by (auto simp: config_rest_def config_word_def list_all_iff blank_def)

lemma config_line_directive:
  assumes "config_word d" and "d \<noteq> str ''include''" "d \<noteq> str ''include_noerror''"
  shows "config_line mem fopen (d @ 0x20 # s) cfg = Done (config_directive mem d s cfg)"
  using assms by (simp add: config_line_def strtok_word)

lemma replace_library_absent: "(type, name) \<notin> pe_key ` set l \<Longrightarrow> replace_library type name lib l = Some (False, l)"
  by (induction l) auto

lemma plugin_line_adds:
  assumes "config_word (pe_type e)" "config_word (pe_name e)" "pe_library e = Some lib" "config_rest lib"
    and "pe_key e \<notin> pe_key ` set (plugins cfg)"
  shows "config_rest (plugin_line e)"
    "config_line (\<lambda>_. True) fopen (plugin_line e) cfg = Done (Some (Inr (), cfg\<lparr>plugins := plugins cfg @ [e]\<rparr>))"
proof -
  have l: "plugin_line e = str ''plugin'' @ 0x20 # pe_type e @ 0x20 # pe_name e @ 0x20 # lib"
    using assms(3) by (simp add: plugin_line_def config_directives(4))
  show "config_rest (plugin_line e)" unfolding l by (intro config_text_rest config_directives assms)
  have e: "e = \<lparr>pe_type = pe_type e, pe_name = pe_name e, pe_library = Some lib\<rparr>" using assms(3) by (cases e) simp
  have "config_file_parse_plugin (\<lambda>_. True) (pe_type e @ 0x20 # pe_name e @ 0x20 # lib) cfg = Some (Inr (), cfg\<lparr>plugins := plugins cfg @ [e]\<rparr>)"
    using assms e by (simp add: config_file_parse_plugin_def type_and_name_def strtok_word strtok_rest replace_library_absent)
  then show "config_line (\<lambda>_. True) fopen (plugin_line e) cfg = Done (Some (Inr (), cfg\<lparr>plugins := plugins cfg @ [e]\<rparr>))"
    unfolding l by (subst config_line_directive) (simp_all add: config_directives config_directive_def, simp_all add: str_def)
qed

lemma strtok_nil [simp]: "strtok_r d [] = None"
  by (simp add: strtok_r_def)

lemma default_line_adds:
  assumes "config_word (pe_type e)" "config_word (pe_name e)" "pe_library e = None" and "pe_type e \<notin> pe_type ` set (default_plugins cfg)"
  shows "config_rest (default_line e)"
    "config_line (\<lambda>_. True) fopen (default_line e) cfg = Done (Some (Inr (), cfg\<lparr>default_plugins := default_plugins cfg @ [e]\<rparr>))"
proof -
  have l: "default_line e = str ''default'' @ 0x20 # pe_type e @ 0x20 # pe_name e" by (simp add: default_line_def config_directives(5))
  show "config_rest (default_line e)" unfolding l by (intro config_text_rest config_word_rest config_directives assms)
  have e: "e = \<lparr>pe_type = pe_type e, pe_name = pe_name e, pe_library = None\<rparr>" using assms(3) by (cases e) simp
  have new: "\<not> list_ex (\<lambda>x. pe_type x = pe_type e) (default_plugins cfg)" using assms(4) by (simp add: list_ex_iff image_iff) metis
  have "config_file_parse_default (\<lambda>_. True) (pe_type e @ 0x20 # pe_name e) cfg = (Inr (), cfg\<lparr>default_plugins := default_plugins cfg @ [e]\<rparr>)"
    using assms(1,2) e new by (simp add: config_file_parse_default_def type_and_name_def strtok_word)
  then show "config_line (\<lambda>_. True) fopen (default_line e) cfg = Done (Some (Inr (), cfg\<lparr>default_plugins := default_plugins cfg @ [e]\<rparr>))"
    unfolding l by (subst config_line_directive) (simp_all add: config_directives config_directive_def, simp_all add: str_def)
qed

text \<open>An option is copied correctly when one blank stands between the directive and the type.\<close>

lemma strtok_start: "w \<noteq> [] \<Longrightarrow> \<not> blank (hd w) \<Longrightarrow> \<exists>t s. strtok_r blank w = Some (t, s) \<and> takeWhile blank w = []"
  by (cases w) (simp_all add: strtok_r_def)

lemma option_line_adds:
  assumes "config_word (opt_type e)" "config_rest (opt_option e)" "\<not> blank (hd (opt_option e))"
    and "raw_option_type (opt_type e) \<or> hd (opt_option e) = 0x2d"
  shows "config_rest (option_line e)"
    "config_line (\<lambda>_. True) fopen (option_line e) cfg = Done (Some (Inr (), cfg\<lparr>mount_options := mount_options cfg @ [e]\<rparr>))"
proof -
  have l: "option_line e = str ''option'' @ 0x20 # opt_type e @ 0x20 # opt_option e" by (simp add: option_line_def config_directives(6))
  show "config_rest (option_line e)" unfolding l by (intro config_text_rest config_word_rest config_directives assms)
  obtain t s where "strtok_r blank (opt_option e) = Some (t, s)" "takeWhile blank (opt_option e) = []" "opt_option e \<noteq> []"
    using strtok_start [of "opt_option e"] assms(2,3) by (auto simp: config_rest_def)
  then have "config_file_parse_option (\<lambda>_. True) (opt_type e @ 0x20 # opt_option e) (opt_type e @ 0x20 # opt_option e) = Inr e"
    using assms by (auto simp: config_file_parse_option_def strtok_word Let_def)
  then show "config_line (\<lambda>_. True) fopen (option_line e) cfg = Done (Some (Inr (), cfg\<lparr>mount_options := mount_options cfg @ [e]\<rparr>))"
    unfolding l by (subst config_line_directive) (simp_all add: config_directives config_directive_def, simp_all add: str_def)
qed


section \<open>Properties\<close>

text \<open>
  C36. A configuration that is loaded, from any files with any includes, is consistent: there is at most one
  default for each type of plugin and one library for each plugin, and every default but \<^verbatim>\<open>none\<close> has a
  library, so that the look-up of the default plugin and of its library cannot fail.
\<close>

theorem config_load_consistent:
  assumes "config_file_load env path = Some (Inr cfg)"
  shows "distinct (map pe_type (default_plugins cfg)) \<and> distinct (map (\<lambda>e. (pe_type e, pe_name e)) (plugins cfg)) \<and>
    (\<forall>type name. config_file_get_default_plugin type cfg = Some name \<longrightarrow>
      name = str ''none'' \<or> (\<exists>lib. config_file_get_lib type name cfg = Some lib))"
proof -
  obtain p where p: "config_file_parse env p False empty_config = Some (Inr (), cfg)" and v: "config_file_validate cfg = Inr ()"
  proof -
    obtain p a c where "config_file_parse env p False empty_config = Some (a, c)"
        "Inr cfg = (case a of Inl e \<Rightarrow> Inl e | Inr _ \<Rightarrow> (case config_file_validate c of Inl e \<Rightarrow> Inl e | Inr _ \<Rightarrow> Inr c))"
      using assms by (auto simp: config_file_load_def bind_eq_Some_conv split: if_splits)
    then show thesis using that by (cases a; cases "config_file_validate c") auto
  qed
  obtain data where "config_lines env [] 0 data empty_config = Some (Inr (), cfg)" using p by (auto simp: config_file_parse_def split: sum.splits)
  then have wf: "config_wf cfg" using config_lines_wf by (force simp: config_wf_def empty_config_def)
  have "name = str ''none'' \<or> (\<exists>lib. config_file_get_lib type name cfg = Some lib)"
    if d: "config_file_get_default_plugin type cfg = Some name" for type name
  proof -
    obtain e where e: "e \<in> set (default_plugins cfg)" "pe_type e = type" "pe_name e = name"
      using d by (auto simp: config_file_get_default_plugin_def find_Some_iff in_set_conv_nth)
    have "name = str ''none'' \<or> (\<exists>x \<in> set (plugins cfg). pe_type x = type \<and> pe_name x = name)"
      using v e by (auto simp: config_file_validate_def list_all_iff list_ex_iff split: if_splits)
    moreover have "\<exists>lib. config_file_get_lib type name cfg = Some lib" if k: "\<exists>x \<in> set (plugins cfg). pe_type x = type \<and> pe_name x = name"
    proof -
      obtain x where x: "find (\<lambda>e. pe_type e = type \<and> pe_name e = name) (plugins cfg) = Some x"
        using k by (cases "find (\<lambda>e. pe_type e = type \<and> pe_name e = name) (plugins cfg)") (auto simp: find_None_iff)
      then have "x \<in> set (plugins cfg)" by (auto simp: find_Some_iff)
      then show ?thesis using x wf by (auto simp: config_file_get_lib_def config_wf_def list_all_iff)
    qed
    ultimately show ?thesis by blast
  qed
  then show ?thesis using wf by (simp add: config_wf_def)
qed

text \<open>
  C37. A configuration can be written and read back: the text of any consistent configuration, one line for each
  plugin, default and option with single blanks between the words, is loaded as that configuration.
\<close>

theorem config_text_roundtrip:
  assumes mem: "\<forall>x. ce_mem env x" and data: "ce_fopen env path = Inr (config_text cfg)"
    and wf: "config_wf cfg" and pr: "config_printable cfg" and valid: "config_file_validate cfg = Inr ()"
  shows "config_file_load env (Some path) = Some (Inr cfg)"
proof -
  have p: "\<And>e. e \<in> set (plugins cfg) \<Longrightarrow> config_word (pe_type e) \<and> config_word (pe_name e) \<and> (\<exists>lib. pe_library e = Some lib \<and> config_rest lib) \<and>
      length (plugin_line e) + 1 < LINE_MAX"
    and d: "\<And>e. e \<in> set (default_plugins cfg) \<Longrightarrow> config_word (pe_type e) \<and> config_word (pe_name e) \<and> pe_library e = None \<and>
      length (default_line e) + 1 < LINE_MAX"
    and o: "\<And>e. e \<in> set (mount_options cfg) \<Longrightarrow> config_word (opt_type e) \<and> config_rest (opt_option e) \<and> \<not> blank (hd (opt_option e)) \<and>
      (raw_option_type (opt_type e) \<or> hd (opt_option e) = 0x2d) \<and> length (option_line e) + 1 < LINE_MAX"
    using pr by (auto simp: config_printable_def list_all_iff)
  let ?a = "empty_config\<lparr>plugins := plugins cfg\<rparr>"
  let ?b = "?a\<lparr>default_plugins := default_plugins cfg\<rparr>"
  let ?t = "\<lambda>l. concat (map (\<lambda>l. l @ [0x0a]) l)"
  have 1: "config_lines env [] 0 (?t (map plugin_line (plugins cfg)) @ rest) empty_config = config_lines env [] (0 + length (plugins cfg)) rest ?a" for rest
  proof -
    have "line_text (plugin_line e) \<and> config_line (\<lambda>_. True) (ce_fopen env) (plugin_line e) (empty_config\<lparr>plugins := q\<rparr>) =
        Done (Some (Inr (), empty_config\<lparr>plugins := q @ [e]\<rparr>))" if "plugins cfg = q @ e # r" for q e r
      using plugin_line_adds [of e _ "empty_config\<lparr>plugins := q\<rparr>"] p [of e] wf that by (auto simp: line_text_def config_wf_def)
    from config_lines_group [OF mem, where add = "\<lambda>q. empty_config\<lparr>plugins := q\<rparr>", OF this] show ?thesis by (simp add: empty_config_def)
  qed
  have 2: "config_lines env [] i (?t (map default_line (default_plugins cfg)) @ rest) ?a = config_lines env [] (i + length (default_plugins cfg)) rest ?b" for i rest
  proof -
    have "line_text (default_line e) \<and> config_line (\<lambda>_. True) (ce_fopen env) (default_line e) (?a\<lparr>default_plugins := q\<rparr>) =
        Done (Some (Inr (), ?a\<lparr>default_plugins := q @ [e]\<rparr>))" if "default_plugins cfg = q @ e # r" for q e r
      using default_line_adds [of e "?a\<lparr>default_plugins := q\<rparr>"] d [of e] wf that by (auto simp: line_text_def config_wf_def)
    from config_lines_group [OF mem, where add = "\<lambda>q. ?a\<lparr>default_plugins := q\<rparr>", OF this] show ?thesis by (simp add: empty_config_def)
  qed
  have 3: "config_lines env [] i (?t (map option_line (mount_options cfg)) @ rest) ?b = config_lines env [] (i + length (mount_options cfg)) rest cfg" for i rest
  proof -
    have "line_text (option_line e) \<and> config_line (\<lambda>_. True) (ce_fopen env) (option_line e) (?b\<lparr>mount_options := q\<rparr>) =
        Done (Some (Inr (), ?b\<lparr>mount_options := q @ [e]\<rparr>))" if "mount_options cfg = q @ e # r" for q e r
      using option_line_adds(1) [of e] option_line_adds(2) [of e _ "?b\<lparr>mount_options := q\<rparr>"] o [of e] that by (auto simp: line_text_def)
    from config_lines_group [OF mem, where add = "\<lambda>q. ?b\<lparr>mount_options := q\<rparr>", OF this] show ?thesis
      by (cases cfg) (simp add: empty_config_def)
  qed
  have "config_lines env [] i [] cfg = Some (Inr (), cfg)" for i by (simp add: config_lines.simps)
  then have "config_lines env [] 0 (config_text cfg) empty_config = Some (Inr (), cfg)" using 1 2 3 [of _ "[]"] by (simp add: config_text_def)
  then show ?thesis using mem data valid by (simp add: config_file_load_def config_file_parse_def)
qed

theorem config_text_roundtrip_witness:
  "config_file_load \<lparr>ce_fopen = (\<lambda>_. Inr (str ''plugin driver file /lib/f.so'' @ [0x0a] @ str ''default driver file'' @ [0x0a] @ str ''option single-drive -ouid=5'' @ [0x0a])),
      ce_mem = (\<lambda>_. True), ce_default = []\<rparr> (Some (str ''c'')) =
    Some (Inr \<lparr>plugins = [\<lparr>pe_type = str ''driver'', pe_name = str ''file'', pe_library = Some (str ''/lib/f.so'')\<rparr>],
      default_plugins = [\<lparr>pe_type = str ''driver'', pe_name = str ''file'', pe_library = None\<rparr>],
      mount_options = [\<lparr>opt_type = str ''single-drive'', opt_option = str ''-ouid=5''\<rparr>]\<rparr>)"
proof -
  let ?cfg = "\<lparr>plugins = [\<lparr>pe_type = str ''driver'', pe_name = str ''file'', pe_library = Some (str ''/lib/f.so'')\<rparr>],
      default_plugins = [\<lparr>pe_type = str ''driver'', pe_name = str ''file'', pe_library = None\<rparr>],
      mount_options = [\<lparr>opt_type = str ''single-drive'', opt_option = str ''-ouid=5''\<rparr>]\<rparr>"
  have t: "config_text ?cfg = str ''plugin driver file /lib/f.so'' @ [0x0a] @ str ''default driver file'' @ [0x0a] @ str ''option single-drive -ouid=5'' @ [0x0a]"
    by (simp add: config_text_def plugin_line_def default_line_def option_line_def str_def)
  have p: "config_printable ?cfg"
    by (simp add: config_printable_def config_word_def config_rest_def str_def blank_def eol_def LINE_MAX_def plugin_line_def default_line_def option_line_def)
  have "config_wf ?cfg" "config_file_validate ?cfg = Inr ()" by (simp_all add: config_wf_def config_file_validate_def)
  then show ?thesis using config_text_roundtrip [OF _ _ _ p, where path = "str ''c''"] t by simp
qed

theorem config_load_consistent_witness:
  "\<exists>cfg. config_file_load \<lparr>ce_fopen = (\<lambda>_. Inr (str ''plugin driver file /lib/f.so'' @ [0x0a] @ str ''default driver file'')),
      ce_mem = (\<lambda>_. True), ce_default = []\<rparr> None = Some (Inr cfg) \<and> config_file_get_default_plugin (str ''driver'') cfg = Some (str ''file'') \<and>
    (\<exists>lib. config_file_get_lib (str ''driver'') (str ''file'') cfg = Some lib)"
proof -
  let ?env = "\<lparr>ce_fopen = (\<lambda>_. Inr (str ''plugin driver file /lib/f.so'' @ [0x0a] @ str ''default driver file'')), ce_mem = (\<lambda>_. True), ce_default = []\<rparr>"
  let ?cfg = "\<lparr>plugins = [\<lparr>pe_type = str ''driver'', pe_name = str ''file'', pe_library = Some (str ''/lib/f.so'')\<rparr>],
      default_plugins = [\<lparr>pe_type = str ''driver'', pe_name = str ''file'', pe_library = None\<rparr>], mount_options = []\<rparr>"
  have l: "config_file_load ?env None = Some (Inr ?cfg)"
    by (simp add: config_file_load_def config_file_parse_def config_lines.simps str_def fgets_def c_string_def LINE_MAX_def config_strip_def blank_def eol_def
        config_line_def strtok_r_def config_directive_def config_file_parse_plugin_def type_and_name_def config_file_parse_default_def config_file_validate_def
        empty_config_def)
  moreover have "config_file_get_default_plugin (str ''driver'') ?cfg = Some (str ''file'')" by (simp add: config_file_get_default_plugin_def)
  moreover have "\<exists>lib. config_file_get_lib (str ''driver'') (str ''file'') ?cfg = Some lib"
  proof -
    have "str ''file'' \<noteq> str ''none''" by (simp add: str_def)
    then show ?thesis using config_load_consistent [OF l] calculation(2) by blast
  qed
  ultimately show ?thesis by blast
qed

text \<open>
  An option is stored as it is written only if a single blank separates it from the directive: with \<open>k\<close> more
  blanks in front of its type, the text that is stored starts \<open>k\<close> bytes too early, inside of the type.
\<close>

theorem config_option_start:
  assumes t: "config_word type" and o: "opt \<noteq> []" "\<not> blank (hd opt)" and k: "k \<le> length type"
  shows "config_file_parse_option (\<lambda>_. True) (replicate k 0x20 @ type @ [0x20] @ opt) (replicate k 0x20 @ type @ [0x20] @ opt) =
    (let text = drop (length type + 1 - k) (type @ [0x20]) @ opt
     in Inr \<lparr>opt_type = type, opt_option = (if raw_option_type type \<or> hd text = 0x2d then text else str ''-o'' @ text)\<rparr>)"
proof -
  have "dropWhile blank (replicate k 0x20 @ s) = dropWhile blank s" for s by (induction k) auto
  then have 1: "strtok_r blank (replicate k 0x20 @ s) = strtok_r blank s" for s by (simp add: strtok_r_def)
  obtain a b where o': "strtok_r blank opt = Some (a, b)" "takeWhile blank opt = []" using strtok_start [OF o] by blast
  have d: "drop (length type + 1) (replicate k 0x20 @ type @ [0x20] @ opt) = drop (length type + 1 - k) (type @ [0x20]) @ opt"
    using k by (cases k) simp_all
  show ?thesis
    using strtok_word(1) [OF t, of opt] o' o(1) d by (simp add: config_file_parse_option_def 1 Let_def)
qed

theorem config_option_start_witness:
  "config_file_parse_option (\<lambda>_. True) (str ''  single-drive uid=5'') (str ''  single-drive uid=5'') =
    Inr \<lparr>opt_type = str ''single-drive'', opt_option = str ''-oe uid=5''\<rparr>"
proof -
  have "config_word (str ''single-drive'')" by (simp add: config_word_def str_def blank_def eol_def)
  then show ?thesis
    using config_option_start [of "str ''single-drive''" "str ''uid=5''" "Suc (Suc 0)"] by (simp add: str_def blank_def eol_def raw_option_type_def Let_def)
qed

text \<open>
  A plugin line whose type and name are known already replaces the library only if the known plugin is the last
  one of the list. Otherwise the loop goes on after it has freed the strings that it compares, and the behaviour is
  undefined.
\<close>

theorem config_plugin_redefined:
  assumes t: "config_word type" "config_word name" "config_rest lib" and e: "pe_type e = type" "pe_name e = name"
    and l: "plugins cfg = p @ e # q" "(type, name) \<notin> (\<lambda>e. (pe_type e, pe_name e)) ` set p"
  shows "config_file_parse_plugin (\<lambda>_. True) (type @ [0x20] @ name @ [0x20] @ lib) cfg =
    (if q = [] then Some (Inr (), cfg\<lparr>plugins := p @ [e\<lparr>pe_library := Some lib\<rparr>]\<rparr>) else None)"
proof -
  have "replace_library type name lib (p @ e # q) = (if q = [] then Some (True, p @ [e\<lparr>pe_library := Some lib\<rparr>]) else None)"
    using l(2) by (induction p) (auto simp: e)
  then show ?thesis using t l(1) by (simp add: config_file_parse_plugin_def type_and_name_def strtok_word strtok_rest)
qed

theorem config_plugin_redefined_witness:
  "config_file_parse_plugin (\<lambda>_. True) (str ''driver a /lib/new.so'')
    \<lparr>plugins = [\<lparr>pe_type = str ''driver'', pe_name = str ''a'', pe_library = Some (str ''/lib/a.so'')\<rparr>,
       \<lparr>pe_type = str ''driver'', pe_name = str ''b'', pe_library = Some (str ''/lib/b.so'')\<rparr>], default_plugins = [], mount_options = []\<rparr> = None"
proof -
  have w: "config_word (str ''driver'')" "config_word (str ''a'')" "config_rest (str ''/lib/new.so'')"
    by (simp_all add: config_word_def config_rest_def str_def blank_def eol_def)
  show ?thesis
    using config_plugin_redefined [OF w, where p = "[]" and e = "\<lparr>pe_type = str ''driver'', pe_name = str ''a'', pe_library = Some (str ''/lib/a.so'')\<rparr>"
        and q = "[\<lparr>pe_type = str ''driver'', pe_name = str ''b'', pe_library = Some (str ''/lib/b.so'')\<rparr>]"
        and cfg = "\<lparr>plugins = [\<lparr>pe_type = str ''driver'', pe_name = str ''a'', pe_library = Some (str ''/lib/a.so'')\<rparr>,
       \<lparr>pe_type = str ''driver'', pe_name = str ''b'', pe_library = Some (str ''/lib/b.so'')\<rparr>], default_plugins = [], mount_options = []\<rparr>"]
    by (simp add: str_def)
qed

end
