(* ===== verification/Ltfs_Base64.thy ===== *)
theory Ltfs_Base64
  imports Ltfs_Prelude
begin

text \<open>
  The base64 decoder of \<^verbatim>\<open>libltfs/base64.c\<close>, used for binary extended attributes in the index.
  The two passes of \<^verbatim>\<open>base64_decode\<close> (validation, then output) are two recursions over the
  encoded bytes. The output buffer starts uninitialised (every cell \<open>None\<close>), and each access
  outside the input or the output buffer is the result \<open>B64_oob\<close>. The lemmas show that the
  passes agree on the buffer size, that the output inverts the RFC 4648 encoding, and for which
  input the code reads outside its buffer.
\<close>

section \<open>The decoder\<close>

definition base64_enc :: "byte list" where
  "base64_enc = map of_char ''ABCDEFGHIJKLMNOPQRSTUVWXYZabcdefghijklmnopqrstuvwxyz0123456789+/''"

text \<open>\<^verbatim>\<open>memset(base64_dec, UCHAR_MAX, 256)\<close> and the loop that fills in the 64 codes.\<close>

definition base64_dec :: "byte list" where
  "base64_dec = foldl (\<lambda>t i. t[unat (base64_enc ! i) := of_nat i]) (replicate 256 0xff) [0..<64]"

abbreviation dec_of :: "byte \<Rightarrow> byte" where
  "dec_of c \<equiv> base64_dec ! unat c"

definition is_ws :: "byte \<Rightarrow> bool" where
  "is_ws c \<longleftrightarrow> c = 0x0d \<or> c = 0x0a \<or> c = 0x20 \<or> c = 0x09"

datatype b64_scan_result = Scan_oob | Scan_invalid | Scanned nat nat

text \<open>
  The validation loop. \<open>prev\<close> is \<^verbatim>\<open>enc[i-1]\<close> (\<open>None\<close> at \<open>i = 0\<close>), the list is \<^verbatim>\<open>enc[i]\<close> up to
  the end, so \<^verbatim>\<open>i == nbytes_in-2\<close> says that one byte follows the current one.
\<close>

fun b64_scan :: "byte option \<Rightarrow> byte list \<Rightarrow> nat \<Rightarrow> nat \<Rightarrow> b64_scan_result" where
  "b64_scan prev [] nequal nreal = Scanned nequal nreal"
| "b64_scan prev (c # cs) nequal nreal =
     (if length cs = 1 \<and> c = 0x3d \<and> hd cs = 0x3d then b64_scan (Some c) cs 2 nreal
      else if cs = [] \<and> c = 0x3d then
        (case prev of
           None \<Rightarrow> Scan_oob
         | Some p \<Rightarrow> b64_scan (Some c) cs (if p \<noteq> 0x3d then 1 else nequal) nreal)
      else if is_ws c then b64_scan (Some c) cs nequal (nreal - 1)
      else if dec_of c = 0xff then Scan_invalid
      else b64_scan (Some c) cs nequal nreal)"

text \<open>A store into the output buffer; \<open>None\<close> when the index is outside of it.\<close>

definition store_at :: "nat \<Rightarrow> byte \<Rightarrow> byte option list \<Rightarrow> byte option list option" where
  "store_at i v out = (if i < length out then Some (out[i := Some v]) else None)"

definition b64_quad_out ::
    "byte \<Rightarrow> byte \<Rightarrow> byte \<Rightarrow> byte \<Rightarrow> nat \<Rightarrow> byte option list \<Rightarrow> byte option list option" where
  "b64_quad_out a b c d pos out =
     (case store_at pos (push_bit 2 a OR drop_bit 4 (b AND 0x30)) out of
        None \<Rightarrow> None
      | Some out1 \<Rightarrow>
          if c \<noteq> 0xff then
            (case store_at (pos + 1) (push_bit 4 (b AND 0xf) OR drop_bit 2 (c AND 0x3c)) out1 of
               None \<Rightarrow> None
             | Some out2 \<Rightarrow>
                 if d \<noteq> 0xff then store_at (pos + 2) (push_bit 6 (c AND 0x3) OR d) out2
                 else Some out2)
          else Some out1)"

text \<open>The output loop; \<open>quad\<close> is \<^verbatim>\<open>cur_quad\<close> up to \<^verbatim>\<open>quad_count\<close>.\<close>

fun b64_gen :: "byte list \<Rightarrow> byte list \<Rightarrow> nat \<Rightarrow> byte option list \<Rightarrow> byte option list option" where
  "b64_gen [] quad pos out = Some out"
| "b64_gen (c # cs) quad pos out =
     (if is_ws c then b64_gen cs quad pos out
      else
        (case quad @ [dec_of c] of
           [w, x, y, z] \<Rightarrow>
             (case b64_quad_out w x y z pos out of
                None \<Rightarrow> None
              | Some out' \<Rightarrow> b64_gen cs [] (pos + 3) out')
         | quad' \<Rightarrow> b64_gen cs quad' pos out))"

datatype b64_result = B64_oob | B64_fail | B64_ok "byte option list"

text \<open>\<open>mem_ok\<close>: the allocation of the output buffer succeeds.\<close>

definition base64_decode :: "bool \<Rightarrow> byte list \<Rightarrow> b64_result" where
  "base64_decode mem_ok enc =
     (if enc = [] then B64_fail
      else
        (case b64_scan None enc 0 (length enc) of
           Scan_oob \<Rightarrow> B64_oob
         | Scan_invalid \<Rightarrow> B64_fail
         | Scanned nequal nreal \<Rightarrow>
             if nreal mod 4 \<noteq> 0 then B64_fail
             else
               let nout = 3 * (nreal div 4) - nequal
               in if \<not> mem_ok then B64_fail
                  else (case b64_gen enc [] 0 (replicate nout None) of
                          None \<Rightarrow> B64_oob
                        | Some out \<Rightarrow> B64_ok out)))"

section \<open>The reference encoding\<close>

definition b64_char :: "byte \<Rightarrow> byte" where
  "b64_char v = base64_enc ! unat v"

fun b64_encode :: "byte list \<Rightarrow> byte list" where
  "b64_encode [] = []"
| "b64_encode [x] = [b64_char (drop_bit 2 x), b64_char (push_bit 4 (x AND 0x3)), 0x3d, 0x3d]"
| "b64_encode [x, y] =
     [b64_char (drop_bit 2 x), b64_char (push_bit 4 (x AND 0x3) OR drop_bit 4 y),
      b64_char (push_bit 2 (y AND 0xf)), 0x3d]"
| "b64_encode (x # y # z # r) =
     [b64_char (drop_bit 2 x), b64_char (push_bit 4 (x AND 0x3) OR drop_bit 4 y),
      b64_char (push_bit 2 (y AND 0xf) OR drop_bit 6 z), b64_char (z AND 0x3f)] @ b64_encode r"

section \<open>The code tables\<close>

lemma base64_enc_list: "base64_enc = [
     65, 66, 67, 68, 69, 70, 71, 72, 73, 74, 75, 76, 77, 78, 79, 80,
     81, 82, 83, 84, 85, 86, 87, 88, 89, 90, 97, 98, 99, 100, 101, 102,
     103, 104, 105, 106, 107, 108, 109, 110, 111, 112, 113, 114, 115, 116, 117, 118,
     119, 120, 121, 122, 48, 49, 50, 51, 52, 53, 54, 55, 56, 57, 43, 47]"
  by code_simp

text \<open>A table filled by stores at distinct indices holds the stored values there, the old ones elsewhere.\<close>

lemma foldl_store_length: "length (foldl (\<lambda>t i. t[ix i := v i]) t0 is) = length t0"
  by (induction "is" arbitrary: t0) simp_all

lemma foldl_store_other:
  "j \<notin> ix ` set is \<Longrightarrow> foldl (\<lambda>t i. t[ix i := v i]) t0 is ! j = t0 ! j"
  by (induction "is" arbitrary: t0) auto

lemma foldl_store_at:
  "distinct (map ix is) \<Longrightarrow> k \<in> set is \<Longrightarrow> ix k < length t0 \<Longrightarrow>
     foldl (\<lambda>t i. t[ix i := v i]) t0 is ! ix k = v k"
proof (induction "is" arbitrary: t0)
  case (Cons a "is")
  then show ?case
    by (cases "k = a") (auto simp: foldl_store_other)
qed simp

lemma length_base64_enc [simp]: "length base64_enc = 64"
  by (simp add: base64_enc_def)

lemma base64_enc_distinct: "distinct (map (\<lambda>i. unat (base64_enc ! i)) [0..<64])"
proof -
  have "map (\<lambda>i. base64_enc ! i) [0..<64] = base64_enc"
    using map_nth [of base64_enc] by simp
  then have "map (\<lambda>i. unat (base64_enc ! i)) [0..<64] = map unat base64_enc"
    by (metis (no_types, lifting) map_map comp_def map_eq_conv)
  moreover have "distinct (map unat base64_enc)"
    unfolding base64_enc_list by code_simp
  ultimately show ?thesis by simp
qed

lemma dec_of_code: "i < 64 \<Longrightarrow> dec_of (base64_enc ! i) = of_nat i"
  unfolding base64_dec_def
  using unsigned_less [of "base64_enc ! i"]
  by (subst foldl_store_at [OF base64_enc_distinct]) simp_all

lemma enc_list_all: "list_all (\<lambda>c. \<not> is_ws c \<and> c \<noteq> 0x3d) base64_enc"
  by (simp add: base64_enc_list is_ws_def)

lemma base64_code_char: "i < 64 \<Longrightarrow> \<not> is_ws (base64_enc ! i) \<and> base64_enc ! i \<noteq> 0x3d"
  using enc_list_all by (simp add: list_all_length)

lemma dec_of_eq_sign: "dec_of 0x3d = 0xff"
proof -
  have "unat (0x3d :: byte) \<notin> (\<lambda>i. unat (base64_enc ! i)) ` set [0..<64]"
    using base64_code_char by (auto dest!: arg_cong [where f = "of_nat :: nat \<Rightarrow> byte"])
  then show ?thesis
    unfolding base64_dec_def by (subst foldl_store_other) simp_all
qed

section \<open>The validation pass\<close>

abbreviation codes :: "byte list \<Rightarrow> byte list" where
  "codes cs \<equiv> map (\<lambda>c. base64_dec ! unat c) (filter (\<lambda>c. \<not> is_ws c) cs)"

lemma eq_sign_not_ws: "\<not> is_ws 0x3d"
  by (simp add: is_ws_def)

text \<open>An accepted input is valid characters and white space, then at most two padding signs.\<close>

lemma b64_scan_shape:
  "b64_scan prev cs ne nr = Scanned ne' nr' \<Longrightarrow> prev \<noteq> Some 0x3d \<Longrightarrow>
     \<exists>body pad. cs = body @ pad \<and> (\<forall>c \<in> set body. is_ws c \<or> dec_of c \<noteq> 0xff)
       \<and> nr' = nr - length (filter is_ws cs)
       \<and> (pad = [] \<and> ne' = ne \<or> pad = [0x3d] \<and> ne' = 1 \<or> pad = [0x3d, 0x3d] \<and> ne' = 2)"
proof (induction prev cs ne nr rule: b64_scan.induct)
  case (1 prev ne nr)
  then show ?case by simp
next
  case (2 prev c cs ne nr)
  consider (two) "c = 0x3d" "cs = [0x3d]" | (one) "c = 0x3d" "cs = []"
    | (ws) "is_ws c" "c \<noteq> 0x3d" | (code) "\<not> is_ws c" "c \<noteq> 0x3d" | (bad) "c = 0x3d" "cs \<noteq> []" "cs \<noteq> [0x3d]"
    using eq_sign_not_ws by blast
  then show ?case
  proof cases
    case two
    with "2.prems" show ?thesis
      by - (rule exI [of _ "[]"], rule exI [of _ "[0x3d, 0x3d]"], auto simp: eq_sign_not_ws)
  next
    case one
    with "2.prems" show ?thesis
      by - (rule exI [of _ "[]"], rule exI [of _ "[0x3d]"],
          auto simp: eq_sign_not_ws split: option.splits if_splits)
  next
    case ws
    with "2.prems" have "b64_scan (Some c) cs ne (nr - 1) = Scanned ne' nr'" by simp
    with ws obtain body pad where "cs = body @ pad \<and> (\<forall>c \<in> set body. is_ws c \<or> dec_of c \<noteq> 0xff)
       \<and> nr' = nr - 1 - length (filter is_ws cs)
       \<and> (pad = [] \<and> ne' = ne \<or> pad = [0x3d] \<and> ne' = 1 \<or> pad = [0x3d, 0x3d] \<and> ne' = 2)"
      using "2.IH"(3) by auto
    with ws show ?thesis by (intro exI [of _ "c # body"] exI [of _ pad]) auto
  next
    case code
    with "2.prems" have ok: "dec_of c \<noteq> 0xff" and "b64_scan (Some c) cs ne nr = Scanned ne' nr'"
      by (auto split: if_splits)
    with code obtain body pad where "cs = body @ pad \<and> (\<forall>c \<in> set body. is_ws c \<or> dec_of c \<noteq> 0xff)
       \<and> nr' = nr - length (filter is_ws cs)
       \<and> (pad = [] \<and> ne' = ne \<or> pad = [0x3d] \<and> ne' = 1 \<or> pad = [0x3d, 0x3d] \<and> ne' = 2)"
      using "2.IH"(4) by auto
    with code ok show ?thesis by (intro exI [of _ "c # body"] exI [of _ pad]) auto
  next
    case bad
    then have "\<not> (length cs = 1 \<and> hd cs = 0x3d)" by (cases cs) auto
    with bad have "b64_scan prev (c # cs) ne nr = Scan_invalid"
      using dec_of_eq_sign by (auto simp: eq_sign_not_ws)
    with "2.prems" show ?thesis by simp
  qed
qed

lemma b64_scan_accepts:
  assumes "\<forall>c \<in> set body. is_ws c \<or> dec_of c \<noteq> 0xff"
    and "pad = [] \<or> pad = [0x3d] \<or> pad = [0x3d, 0x3d]"
    and "prev \<noteq> Some 0x3d" and "prev = None \<longrightarrow> body @ pad \<noteq> [0x3d]"
  shows "b64_scan prev (body @ pad) ne nr =
    Scanned (if pad = [] then ne else length pad) (nr - length (filter is_ws body))"
  using assms
proof (induction body arbitrary: prev nr)
  case Nil
  then show ?case by (auto split: option.splits if_splits)
next
  case (Cons c body)
  then have "c \<noteq> 0x3d" using dec_of_eq_sign eq_sign_not_ws by auto
  with Cons show ?case by auto
qed

lemma b64_scan_oob:
  "b64_scan prev cs ne nr = Scan_oob \<Longrightarrow> prev = None \<and> cs = [0x3d]"
proof (induction prev cs ne nr rule: b64_scan.induct)
  case (2 prev c cs ne nr)
  then show ?case
    by (auto simp del: b64_scan.simps simp: b64_scan.simps(2) [of prev c cs ne nr]
        split: if_splits option.splits)
qed simp

section \<open>The output pass\<close>

fun quads_out :: "byte list \<Rightarrow> nat \<Rightarrow> byte option list \<Rightarrow> byte option list option" where
  "quads_out (a # b # c # d # r) pos out =
     (case b64_quad_out a b c d pos out of None \<Rightarrow> None | Some out' \<Rightarrow> quads_out r (pos + 3) out')"
| "quads_out _ pos out = Some out"

lemma b64_gen_quads:
  "length quad < 4 \<Longrightarrow> b64_gen cs quad pos out = quads_out (quad @ codes cs) pos out"
proof (induction cs quad pos out rule: b64_gen.induct)
  case (1 quad pos out)
  then consider "quad = []" | x where "quad = [x]" | x y where "quad = [x, y]" | x y z where "quad = [x, y, z]"
    by (auto simp: numeral_eq_Suc less_Suc_eq length_Suc_conv)
  then show ?case by cases auto
next
  case (2 c cs quad pos out)
  from "2.prems" consider "quad = []" | x where "quad = [x]" | x y where "quad = [x, y]" | x y z where "quad = [x, y, z]"
    by (auto simp: numeral_eq_Suc less_Suc_eq length_Suc_conv)
  then show ?case
    using "2.IH" by cases (auto split: option.splits)
qed

fun quads_val :: "byte list \<Rightarrow> byte list" where
  "quads_val (a # b # c # d # r) =
     ((push_bit 2 a OR drop_bit 4 (b AND 0x30)) #
      (if c \<noteq> 0xff
       then (push_bit 4 (b AND 0xf) OR drop_bit 2 (c AND 0x3c)) #
            (if d \<noteq> 0xff then [push_bit 6 (c AND 0x3) OR d] else [])
       else [])) @ quads_val r"
| "quads_val _ = []"

fun good_quads :: "byte list \<Rightarrow> bool" where
  "good_quads [] = True"
| "good_quads (a # b # c # d # r) = ((r = [] \<or> c \<noteq> 0xff \<and> d \<noteq> 0xff) \<and> good_quads r)"
| "good_quads _ = False"

lemma quads_out_val:
  "good_quads F \<Longrightarrow>
     quads_out F (length done) (map Some done @ replicate (length (quads_val F)) None)
       = Some (map Some (done @ quads_val F))"
proof (induction F arbitrary: "done" rule: good_quads.induct)
  case (2 a b c d r)
  let ?v = "quads_val [a, b, c, d]"
  have "b64_quad_out a b c d (length done) (map Some done @ replicate (length (quads_val (a # b # c # d # r))) None)
      = Some (map Some (done @ ?v) @ replicate (length (quads_val r)) None)"
    by (auto simp: b64_quad_out_def store_at_def list_update_append nth_append
        split: nat.splits)
  moreover have "quads_out r (length done + 3) (map Some (done @ ?v) @ replicate (length (quads_val r)) None)
      = Some (map Some ((done @ ?v) @ quads_val r))"
  proof (cases "r = []")
    case False
    with "2.prems" have "length (done @ ?v) = length done + 3" by simp
    with "2" show ?thesis by (metis good_quads.simps(2))
  qed simp
  ultimately show ?case by simp
qed simp_all

lemma replicate_2: "replicate 2 x = [x, x]"
  by (simp add: numeral_2_eq_2)

lemma padded_good:
  assumes "\<forall>x \<in> set B. x \<noteq> 0xff" and "ne \<le> 2" and "length (B @ replicate ne 0xff) mod 4 = 0"
  shows "good_quads (B @ replicate ne 0xff)
    \<and> length (quads_val (B @ replicate ne 0xff)) = 3 * (length (B @ replicate ne 0xff) div 4) - ne"
  using assms
proof (induction B rule: good_quads.induct)
  case (2 a b c d r)
  then have IH: "good_quads (r @ replicate ne 0xff)"
      "length (quads_val (r @ replicate ne 0xff)) = 3 * (length (r @ replicate ne 0xff) div 4) - ne"
    by (simp_all del: length_append)
  have "(length r + ne) mod 4 = 0" using "2.prems"(3) by simp
  then obtain k where k: "length r + ne = 4 * k" by blast
  with "2.prems"(2) have "ne \<le> 3 * k" by linarith
  with IH k "2.prems"(1) show ?case by (auto simp: length_append simp del: append_assoc)
next
  case 1
  then consider "ne = 0" | "ne = 1" | "ne = 2" by linarith
  then show ?case using 1 by cases (simp_all add: replicate_2)
next
  case "3_1"
  then consider "ne = 0" | "ne = 1" | "ne = 2" by linarith
  then show ?case using "3_1" by cases simp_all
next
  case "3_2"
  then consider "ne = 0" | "ne = 1" | "ne = 2" by linarith
  then show ?case using "3_2" by cases (simp_all add: replicate_2)
next
  case "3_3"
  then consider "ne = 0" | "ne = 1" | "ne = 2" by linarith
  then show ?case using "3_3" by cases (simp_all add: replicate_2)
qed

section \<open>Decoding inverts encoding\<close>

lemma dec_of_b64_char:
  assumes "unat v < 64"
  shows "dec_of (b64_char v) = v" and "\<not> is_ws (b64_char v)" and "b64_char v \<noteq> 0x3d"
  using assms dec_of_code [of "unat v"] base64_code_char [of "unat v"]
  by (simp_all add: b64_char_def)

lemma unat_lt_64: "take_bit 6 (v :: byte) = v \<Longrightarrow> unat v < 64"
  using unat_less_exp [of 6 v] by simp

lemma byte_masks: "(0x3 :: byte) = mask 2" "(0xf :: byte) = mask 4" "(0x3f :: byte) = mask 6"
    "(0x30 :: byte) = push_bit 4 (mask 2)" "(0x3c :: byte) = push_bit 2 (mask 4)"
  by (simp_all add: mask_eq_exp_minus_1)

text \<open>The four six-bit values of a group of three bytes.\<close>

lemma sextets [simp]:
  fixes x y z :: byte
  shows "unat (drop_bit 2 x) < 64" and "unat (push_bit 4 (x AND 0x3)) < 64"
    and "unat (push_bit 4 (x AND 0x3) OR drop_bit 4 y) < 64"
    and "unat (push_bit 2 (y AND 0xf)) < 64"
    and "unat (push_bit 2 (y AND 0xf) OR drop_bit 6 z) < 64"
    and "unat (z AND 0x3f) < 64"
  unfolding byte_masks
  by (intro unat_lt_64 bit_word_eqI; auto simp: bit_simps dest: bit_imp_le_length)+

lemma sextet_not_ff: "unat (v :: byte) < 64 \<Longrightarrow> v \<noteq> 0xff"
  by auto

lemma byte_eqI:
  fixes a b :: byte
  assumes "bit a 0 = bit b 0" "bit a 1 = bit b 1" "bit a 2 = bit b 2" "bit a 3 = bit b 3"
    "bit a 4 = bit b 4" "bit a 5 = bit b 5" "bit a 6 = bit b 6" "bit a 7 = bit b 7"
  shows "a = b"
proof (rule bit_word_eqI)
  fix n assume "n < LENGTH(8)"
  then consider "n = 0" | "n = 1" | "n = 2" | "n = 3" | "n = 4" | "n = 5" | "n = 6" | "n = 7"
    by force
  then show "bit a n = bit b n" using assms by cases simp_all
qed

lemma regroup:
  fixes x y z :: byte
  shows "push_bit 2 (drop_bit 2 x) OR drop_bit 4 (push_bit 4 (x AND 0x3) AND 0x30) = x"
    and "push_bit 2 (drop_bit 2 x) OR drop_bit 4 ((push_bit 4 (x AND 0x3) OR drop_bit 4 y) AND 0x30) = x"
    and "push_bit 4 ((push_bit 4 (x AND 0x3) OR drop_bit 4 y) AND 0xf) OR
        drop_bit 2 (push_bit 2 (y AND 0xf) AND 0x3c) = y"
    and "push_bit 4 ((push_bit 4 (x AND 0x3) OR drop_bit 4 y) AND 0xf) OR
        drop_bit 2 ((push_bit 2 (y AND 0xf) OR drop_bit 6 z) AND 0x3c) = y"
    and "push_bit 6 ((push_bit 2 (y AND 0xf) OR drop_bit 6 z) AND 0x3) OR (z AND 0x3f) = z"
  unfolding byte_masks
  by (rule byte_eqI; simp add: bit_simps)+

lemmas dec_sextets = sextets [THEN dec_of_b64_char(1)] sextets [THEN sextet_not_ff]

lemma encode_roundtrip: "quads_val (map (\<lambda>c. base64_dec ! unat c) (b64_encode bs)) = bs"
  by (induction bs rule: b64_encode.induct)
    (simp_all only: b64_encode.simps quads_val.simps list.map append.simps dec_sextets dec_of_eq_sign
      regroup simp_thms if_True if_False)

lemma filter_b64_encode: "filter (\<lambda>c. \<not> is_ws c) (b64_encode bs) = b64_encode bs"
  by (induction bs rule: b64_encode.induct)
    (simp_all only: b64_encode.simps filter.simps append.simps filter_append sextets [THEN dec_of_b64_char(2)]
      eq_sign_not_ws simp_thms if_True if_False)

lemma b64_encode_chars: "c \<in> set (b64_encode bs) \<Longrightarrow> c = 0x3d \<or> dec_of c \<noteq> 0xff"
  by (induction bs rule: b64_encode.induct)
    (auto simp only: b64_encode.simps set_append list.set dec_sextets)

lemma b64_encode_padding:
  "filter ((=) 0x3d) (b64_encode bs) \<in> {[], [0x3d], [0x3d, 0x3d]}"
  by (induction bs rule: b64_encode.induct)
    (simp_all only: b64_encode.simps filter.simps append.simps filter_append
      sextets [THEN dec_of_b64_char(3), THEN not_sym] insert_iff simp_thms if_True if_False)

lemma length_b64_encode: "length (b64_encode bs) mod 4 = 0"
  by (induction bs rule: b64_encode.induct) simp_all

section \<open>The whole decoder\<close>

text \<open>The two passes put together: what is accepted, and the output buffer then.\<close>

lemma base64_decode_padded:
  assumes "enc = body @ pad" and "enc \<noteq> []" and "enc \<noteq> [0x3d]"
    and "\<forall>c \<in> set body. is_ws c \<or> dec_of c \<noteq> 0xff"
    and "pad = [] \<or> pad = [0x3d] \<or> pad = [0x3d, 0x3d]"
  shows "base64_decode True enc =
    (if length (codes enc) mod 4 = 0 then B64_ok (map Some (quads_val (codes enc))) else B64_fail)"
proof -
  from assms(5) have pad: "codes pad = replicate (length pad) 0xff" "filter is_ws pad = []" "length pad \<le> 2"
    using dec_of_eq_sign by (auto simp: eq_sign_not_ws numeral_2_eq_2)
  then have codes: "codes enc = codes body @ replicate (length pad) 0xff"
    using assms(1) by simp
  have nreal: "length enc - length (filter is_ws body) = length (codes enc)"
    using assms(1) pad(2) sum_length_filter_compl [of is_ws enc] by simp
  have scan: "b64_scan None enc 0 (length enc) = Scanned (length pad) (length (codes enc))"
    using b64_scan_accepts [of body pad None 0 "length enc"] assms nreal by (simp split: if_splits)
  show ?thesis
  proof (cases "length (codes enc) mod 4 = 0")
    case True
    with codes pad(3) assms(4) have "good_quads (codes enc)
        \<and> length (quads_val (codes enc)) = 3 * (length (codes enc) div 4) - length pad"
      using padded_good [of "codes body" "length pad"] by auto
    then have "b64_gen enc [] 0 (replicate (3 * (length (codes enc) div 4) - length pad) None)
        = Some (map Some (quads_val (codes enc)))"
      using quads_out_val [of "codes enc" "[]"] by (simp add: b64_gen_quads)
    with True scan assms(2) show ?thesis by (simp add: base64_decode_def)
  next
    case False
    with scan assms(2) show ?thesis by (simp add: base64_decode_def)
  qed
qed

lemma base64_decode_shape:
  assumes "base64_decode m enc \<noteq> B64_fail" and "enc \<noteq> [0x3d]"
  obtains body pad where "enc = body @ pad" and "\<forall>c \<in> set body. is_ws c \<or> dec_of c \<noteq> 0xff"
    and "pad = [] \<or> pad = [0x3d] \<or> pad = [0x3d, 0x3d]"
proof -
  from assms(1) have "b64_scan None enc 0 (length enc) \<noteq> Scan_invalid"
    by (auto simp: base64_decode_def split: if_splits)
  moreover have "b64_scan None enc 0 (length enc) \<noteq> Scan_oob"
    using b64_scan_oob assms(2) by blast
  ultimately obtain ne nr where "b64_scan None enc 0 (length enc) = Scanned ne nr"
    by (cases "b64_scan None enc 0 (length enc)") auto
  from b64_scan_shape [OF this] show thesis using that by auto
qed

section \<open>Properties\<close>

lemma decode_encoded:
  assumes "bs \<noteq> []" and "filter (\<lambda>c. \<not> is_ws c) body @ pad = b64_encode bs"
    and "0x3d \<notin> set body" and "set pad \<subseteq> {0x3d}"
  shows "base64_decode True (body @ pad) = B64_ok (map Some bs)"
proof -
  have "filter ((=) 0x3d) (filter (\<lambda>c. \<not> is_ws c) body) = []"
    using assms(3) by (auto simp: filter_empty_conv)
  moreover have "filter ((=) 0x3d) pad = pad"
    using assms(4) by (auto simp: filter_id_conv)
  ultimately have pad: "pad = [] \<or> pad = [0x3d] \<or> pad = [0x3d, 0x3d]"
    using b64_encode_padding [of bs] assms(2) [symmetric] by simp
  then have enc: "filter (\<lambda>c. \<not> is_ws c) (body @ pad) = b64_encode bs"
    using assms(2) by (auto simp: eq_sign_not_ws)
  have body: "\<forall>c \<in> set body. is_ws c \<or> dec_of c \<noteq> 0xff"
  proof (intro ballI disjCI)
    fix c assume c: "c \<in> set body" "\<not> dec_of c \<noteq> 0xff"
    show "is_ws c"
    proof (rule ccontr)
      assume "\<not> is_ws c"
      with c have "c \<in> set (b64_encode bs)" using enc [symmetric] by auto
      with c assms(3) show False using b64_encode_chars by blast
    qed
  qed
  have len: "length (codes (body @ pad)) mod 4 = 0"
    unfolding enc using length_b64_encode [of bs] by simp
  have "b64_encode bs \<noteq> []"
    using assms(1) by (cases bs rule: b64_encode.cases) simp_all
  then have "body @ pad \<noteq> []" using enc by auto
  have "body @ pad \<noteq> [0x3d]"
  proof
    assume "body @ pad = [0x3d]"
    then have "b64_encode bs = [0x3d]" using enc [symmetric] by (simp add: eq_sign_not_ws)
    with length_b64_encode [of bs] show False by simp
  qed
  with len body pad \<open>body @ pad \<noteq> []\<close>
  have "base64_decode True (body @ pad) = B64_ok (map Some (quads_val (codes (body @ pad))))"
    using base64_decode_padded [of "body @ pad" body pad] by simp
  also have "\<dots> = B64_ok (map Some bs)"
    unfolding enc encode_roundtrip ..
  finally show ?thesis .
qed

text \<open>
  C33. The decoder inverts RFC 4648: an encoding of any non-empty data, with white space put
  anywhere before its padding signs, decodes to that data.
\<close>

theorem base64_decode_encode:
  assumes "bs \<noteq> []" and "filter (\<lambda>c. \<not> is_ws c) body @ pad = b64_encode bs"
    and "0x3d \<notin> set body" and "set pad \<subseteq> {0x3d}"
  shows "base64_decode True (body @ pad) = B64_ok (map Some bs)"
  using assms by (rule decode_encoded)

text \<open>The data \<^verbatim>\<open>Hi\<close>, encoded as \<^verbatim>\<open>SGk=\<close> with a line end inside.\<close>

theorem base64_decode_encode_witness:
  "base64_decode True [0x53, 0x47, 0x0a, 0x6b, 0x3d] = B64_ok [Some 0x48, Some 0x69]"
proof -
  have "filter (\<lambda>c. \<not> is_ws c) [0x53, 0x47, 0x0a, 0x6b] @ [0x3d] = b64_encode [0x48, 0x69]"
    by (simp add: is_ws_def b64_char_def base64_enc_list)
  then show ?thesis
    using base64_decode_encode [of "[0x48, 0x69]" "[0x53, 0x47, 0x0a, 0x6b]" "[0x3d]"] by simp
qed

text \<open>
  C40. For every input but the single byte \<^verbatim>\<open>=\<close> the decoder stays inside the input and output
  buffers, and every byte of a returned buffer has been written.
\<close>

theorem base64_decode_in_bounds:
  assumes "enc \<noteq> [0x3d]"
  shows "base64_decode m enc \<noteq> B64_oob \<and> (\<forall>out. base64_decode m enc = B64_ok out \<longrightarrow> None \<notin> set out)"
proof (cases "base64_decode m enc = B64_fail")
  case False
  then have ne: "enc \<noteq> []" by (auto simp: base64_decode_def)
  obtain body pad where "enc = body @ pad" "\<forall>c \<in> set body. is_ws c \<or> dec_of c \<noteq> 0xff"
      "pad = [] \<or> pad = [0x3d] \<or> pad = [0x3d, 0x3d]"
    using base64_decode_shape [OF False assms] by blast
  from base64_decode_padded [OF this(1) ne assms this(2,3)] False
  show ?thesis
    by (cases m) (auto simp: base64_decode_def split: if_splits b64_scan_result.splits)
qed simp

theorem base64_decode_in_bounds_witness: "base64_decode True [0x41, 0x3d, 0x0a, 0x3d] \<noteq> B64_oob"
  using base64_decode_in_bounds [of "[0x41, 0x3d, 0x0a, 0x3d]" True] by simp

text \<open>
  On the one-byte input \<^verbatim>\<open>=\<close> the validation loop reads \<^verbatim>\<open>enc[-1]\<close>, the byte before the buffer.
\<close>

theorem base64_lone_padding_out_of_bounds: "base64_decode m [0x3d] = B64_oob"
  by (simp add: base64_decode_def)

text \<open>
  White space is not ignored behind the padding: an input whose padding sign is followed by
  white space, such as a line end, is rejected.
\<close>

theorem base64_space_after_padding_rejected:
  assumes "ws \<noteq> []" and "\<forall>c \<in> set ws. is_ws c"
  shows "base64_decode m (enc @ 0x3d # ws) = B64_fail"
proof (rule ccontr)
  assume "base64_decode m (enc @ 0x3d # ws) \<noteq> B64_fail"
  moreover have "enc @ 0x3d # ws \<noteq> [0x3d]" using assms(1) by (cases enc) simp_all
  ultimately obtain body pad where eq: "enc @ 0x3d # ws = body @ pad"
      and body: "\<forall>c \<in> set body. is_ws c \<or> dec_of c \<noteq> 0xff"
      and pad: "pad = [] \<or> pad = [0x3d] \<or> pad = [0x3d, 0x3d]"
    by (rule base64_decode_shape)
  have "last ws \<noteq> 0x3d" using assms eq_sign_not_ws last_in_set by metis
  moreover have "last (body @ pad) = last ws" using assms(1) eq [symmetric] by simp
  ultimately have "pad = []" using pad by auto
  with eq body dec_of_eq_sign eq_sign_not_ws show False
    by (metis append_Nil2 in_set_conv_decomp)
qed

theorem base64_space_after_padding_rejected_witness:
  "base64_decode True [0x51, 0x51, 0x3d, 0x3d, 0x0a] = B64_fail"
  using base64_space_after_padding_rejected [of "[0x0a]" True "[0x51, 0x51, 0x3d]"]
  by (simp add: is_ws_def)

end
