(* ===== verification/Ltfs_Kmi.thy ===== *)
theory Ltfs_Kmi
  imports Ltfs_Base64
begin

text \<open>
  Encryption keys: the list of keys in the LTFS format (\<^verbatim>\<open>kmi/key_format_ltfs.c\<close>) and the key manager that
  takes the list from its options (\<^verbatim>\<open>kmi/simple.c\<close>). The list is a string of pairs of a key (base64) and its
  identifier (three characters and nine bytes in hexadecimal). Strings are lists of bytes without the
  terminating null. Counters and offsets, which the code keeps as \<^verbatim>\<open>int\<close> and \<^verbatim>\<open>unsigned int\<close>, are natural numbers:
  they agree for lists shorter than 2 GiB.
\<close>

section \<open>The format\<close>

definition DK_LENGTH :: nat where "DK_LENGTH = 32"
definition DKI_LENGTH :: nat where "DKI_LENGTH = 12"
definition DKI_ASCII_LENGTH :: nat where "DKI_ASCII_LENGTH = 3"
definition SEPARATOR_LENGTH :: nat where "SEPARATOR_LENGTH = 1"

definition key_length :: nat where
  "key_length = ((DK_LENGTH * 8 + 5) div 6 + 3) div 4 * 4"

definition keyalias_length :: nat where
  "keyalias_length = DKI_ASCII_LENGTH + (DKI_LENGTH - DKI_ASCII_LENGTH) * 2"

lemmas kmi_lengths = DK_LENGTH_def DKI_LENGTH_def DKI_ASCII_LENGTH_def SEPARATOR_LENGTH_def key_length_def keyalias_length_def

definition isalnum :: "byte \<Rightarrow> bool" where
  "isalnum c \<longleftrightarrow> 0x30 \<le> c \<and> c \<le> 0x39 \<or> 0x41 \<le> c \<and> c \<le> 0x5a \<or> 0x61 \<le> c \<and> c \<le> 0x7a"

definition isprint :: "byte \<Rightarrow> bool" where
  "isprint c \<longleftrightarrow> 0x20 \<le> c \<and> c \<le> 0x7e"

definition isxdigit :: "byte \<Rightarrow> bool" where
  "isxdigit c \<longleftrightarrow> 0x30 \<le> c \<and> c \<le> 0x39 \<or> 0x41 \<le> c \<and> c \<le> 0x46 \<or> 0x61 \<le> c \<and> c \<le> 0x66"

text \<open>
  Both checks stop at the first character that is wrong; the terminating null is wrong for both, so that
  they never read beyond it.
\<close>

definition is_key :: "byte list \<Rightarrow> bool" where
  "is_key key \<longleftrightarrow>
     (let n = (DK_LENGTH * 8 + 5) div 6 in
      n \<le> length key \<and> list_all (\<lambda>c. isalnum c \<or> c = 0x2b \<or> c = 0x2f) (take n key) \<and>
      key_length \<le> length key \<and> list_all (\<lambda>c. c = 0x3d) (drop n (take key_length key)))"

definition is_keyalias :: "byte list \<Rightarrow> bool" where
  "is_keyalias keyalias \<longleftrightarrow>
     DKI_ASCII_LENGTH \<le> length keyalias \<and> list_all isprint (take DKI_ASCII_LENGTH keyalias) \<and>
     keyalias_length \<le> length keyalias \<and> list_all isxdigit (drop DKI_ASCII_LENGTH (take keyalias_length keyalias))"

text \<open>The loop over the pairs; \<open>s\<close> is the rest of the list.\<close>

function num_of_keys_loop :: "nat \<Rightarrow> byte list \<Rightarrow> err + nat" where
  "num_of_keys_loop n s =
     (let s = (if n > 0 then drop SEPARATOR_LENGTH s else s) in
      if \<not> is_key s then Inl LTFS_BAD_ARG
      else
        let s = drop key_length s in
        if s = [] \<or> hd s \<noteq> 0x3a then Inl LTFS_BAD_ARG
        else
          let s = drop SEPARATOR_LENGTH s in
          if \<not> is_keyalias s then Inl LTFS_BAD_ARG
          else
            let s = drop keyalias_length s in
            if SEPARATOR_LENGTH + key_length + SEPARATOR_LENGTH + keyalias_length \<le> length s \<and> hd s = 0x2f
            then num_of_keys_loop (Suc n) s
            else if s \<noteq> [] then Inl LTFS_BAD_ARG else Inr (Suc n))"
  by pat_completeness auto

termination
  by (relation "measure (\<lambda>(_, s). length s)") (auto simp: kmi_lengths split: if_splits)

declare num_of_keys_loop.simps [simp del]

definition get_num_of_keys :: "byte list \<Rightarrow> err + nat" where
  "get_num_of_keys dk_list =
     (if key_length + SEPARATOR_LENGTH + keyalias_length \<le> length dk_list then num_of_keys_loop 0 dk_list else Inr 0)"

text \<open>A key that does not decode to its length leaves the zeros of the new array. \<open>mem\<close>: the decoder gets its buffer.\<close>

definition convert_key :: "bool \<Rightarrow> byte list \<Rightarrow> byte list" where
  "convert_key mem enc =
     (case base64_decode mem (take key_length enc) of
        B64_ok out \<Rightarrow> if length out = DK_LENGTH then map the out else replicate DK_LENGTH 0
      | _ \<Rightarrow> replicate DK_LENGTH 0)"

definition hex_value :: "byte \<Rightarrow> byte" where
  "hex_value c = (if c \<le> 0x39 then c - 0x30 else if c \<le> 0x46 then c - 0x37 else c - 0x57)"

text \<open>\<^verbatim>\<open>strtoul\<close> with base 16 on a string of two characters, as a byte: white space or a sign may come first.\<close>

definition isspace :: "byte \<Rightarrow> bool" where
  "isspace c \<longleftrightarrow> c = 0x20 \<or> 0x09 \<le> c \<and> c \<le> 0x0d"

definition strtoul16 :: "byte \<Rightarrow> byte \<Rightarrow> byte" where
  "strtoul16 a b =
     (if isxdigit a then (if isxdigit b then 16 * hex_value a + hex_value b else hex_value a)
      else if (isspace a \<or> a = 0x2b) \<and> isxdigit b then hex_value b
      else if a = 0x2d \<and> isxdigit b then - hex_value b
      else 0)"

definition convert_keyalias :: "byte list \<Rightarrow> byte list" where
  "convert_keyalias s = take DKI_ASCII_LENGTH s @
     map (\<lambda>i. strtoul16 (s ! (DKI_ASCII_LENGTH + i * 2)) (s ! (DKI_ASCII_LENGTH + i * 2 + 1))) [0..<DKI_LENGTH - DKI_ASCII_LENGTH]"

section \<open>The key list\<close>

datatype kfl_state = KFL_UNINITIALIZED | KFL_INITIALIZED | KFL_SET | KFL_CLEARED | KFL_DESTROYED

record key_format_ltfs =
  kfl_state :: kfl_state
  dk_list :: "(byte list \<times> byte list) list"

definition key_format_ltfs_init :: "bool \<Rightarrow> key_format_ltfs \<Rightarrow> bool \<times> key_format_ltfs" where
  "key_format_ltfs_init mem kfl =
     (if kfl_state kfl \<noteq> KFL_UNINITIALIZED then (False, kfl)
      else if \<not> mem then (False, kfl)
      else (True, kfl\<lparr>kfl_state := KFL_INITIALIZED, dk_list := []\<rparr>))"

definition key_format_ltfs_destroy :: "key_format_ltfs \<Rightarrow> key_format_ltfs" where
  "key_format_ltfs_destroy kfl = kfl\<lparr>kfl_state := KFL_DESTROYED, dk_list := []\<rparr>"

text \<open>The pair at offset \<open>n\<close> of the list, key and identifier converted.\<close>

definition key_at :: "bool \<Rightarrow> byte list \<Rightarrow> nat \<Rightarrow> byte list \<times> byte list" where
  "key_at mem s i =
     (let offset = i * (key_length + 1 + keyalias_length + 1)
      in (convert_key mem (drop offset s), convert_keyalias (drop (offset + key_length + 1) s)))"

definition set_dk_list :: "bool \<Rightarrow> bool \<Rightarrow> byte list option \<Rightarrow> key_format_ltfs \<Rightarrow> (unit, key_format_ltfs) result" where
  "set_dk_list mem mem_dec list kfl =
     (if kfl_state kfl \<noteq> KFL_INITIALIZED \<and> kfl_state kfl \<noteq> KFL_CLEARED then (Inl LTFS_INVALID_SEQUENCE, kfl)
      else case (case list of None \<Rightarrow> Inr 0 | Some s \<Rightarrow> get_num_of_keys s) of
        Inl e \<Rightarrow> (Inl e, kfl)
      | Inr n \<Rightarrow>
          if n > 0 \<and> \<not> mem then (Inl LTFS_NO_MEMORY, kfl)
          else (Inr (), kfl\<lparr>kfl_state := KFL_SET,
            dk_list := (if n > 0 then map (key_at mem_dec (case list of None \<Rightarrow> [] | Some s \<Rightarrow> s)) [0..<n] else dk_list kfl)\<rparr>))"

text \<open>
  The key of an identifier, and the identifier that was used. Without an identifier the one for formatting
  is used, which is not checked: a string shorter than the format is read beyond its end.
\<close>

definition get_key ::
    "bool \<Rightarrow> bool \<Rightarrow> byte list option \<Rightarrow> byte list option \<Rightarrow> key_format_ltfs \<Rightarrow> err + byte list option \<times> byte list option" where
  "get_key mem_alias mem_key keyalias dki_for_format kfl =
     (case (case keyalias of
              Some a \<Rightarrow> Inr (Some a)
            | None \<Rightarrow>
                (case dki_for_format of
                   None \<Rightarrow> Inr None
                 | Some d \<Rightarrow>
                     if \<not> mem_alias then Inl LTFS_NO_MEMORY
                     else if length d + 1 < keyalias_length then Inl OUT_OF_BOUNDS
                     else Inr (Some (convert_keyalias (d @ [0]))))) of
        Inl e \<Rightarrow> Inl e
      | Inr None \<Rightarrow> Inr (None, None)
      | Inr (Some a) \<Rightarrow>
          (case find (\<lambda>k. snd k = take DKI_LENGTH a) (dk_list kfl) of
             None \<Rightarrow> Inl LTFS_KEY_NOT_FOUND
           | Some k \<Rightarrow> if mem_key then Inr (Some (fst k), Some a) else Inl LTFS_NO_MEMORY))"

definition clear :: "key_format_ltfs \<Rightarrow> key_format_ltfs" where
  "clear kfl = (let kfl = kfl\<lparr>dk_list := []\<rparr> in if kfl_state kfl = KFL_SET then kfl\<lparr>kfl_state := KFL_CLEARED\<rparr> else kfl)"

text \<open>\<open>mem\<close>: the allocations of the list, the decoder, the identifier and the key.\<close>

definition key_format_ltfs_get_key ::
    "(nat \<Rightarrow> bool) \<Rightarrow> byte list option \<Rightarrow> byte list option \<Rightarrow> byte list option \<Rightarrow> key_format_ltfs \<Rightarrow>
     (byte list option \<times> byte list option, key_format_ltfs) result" where
  "key_format_ltfs_get_key mem keyalias list dki_for_format kfl =
     (case set_dk_list (mem 0) (mem 1) list kfl of
        (Inl e, kfl) \<Rightarrow> (Inl e, kfl)
      | (Inr _, kfl) \<Rightarrow> (get_key (mem 2) (mem 3) keyalias dki_for_format kfl, clear kfl))"

section \<open>The simple key manager\<close>

record kmi_simple_options_data =
  opt_dk :: "byte list option"
  opt_dki :: "byte list option"
  opt_dk_for_format :: "byte list option"
  opt_dki_for_format :: "byte list option"
  opt_dk_list :: "byte list option"

text \<open>One turn of the loop that appends a pair to the list; \<open>\<^verbatim>\<open>strcat\<close>\<close> appends.\<close>

definition append_key :: "byte list option \<Rightarrow> byte list option \<Rightarrow> byte list option \<Rightarrow> byte list option" where
  "append_key dk dki list =
     (case dk of
        None \<Rightarrow> list
      | Some k \<Rightarrow>
          let old = (case list of None \<Rightarrow> [] | Some l \<Rightarrow> l)
          in Some (old @ (if old \<noteq> [] then [0x2f] else []) @ k @ [0x3a] @ (case dki of None \<Rightarrow> [] | Some d \<Rightarrow> d)))"

text \<open>\<^verbatim>\<open>simple_parse_opts\<close> behind the call of \<^verbatim>\<open>fuse_opt_parse\<close>, whose result are the options.\<close>

definition simple_parse_opts :: "(nat \<Rightarrow> bool) \<Rightarrow> kmi_simple_options_data \<Rightarrow> (unit, kmi_simple_options_data) result" where
  "simple_parse_opts mem opts =
     (if (opt_dk opts \<noteq> None) \<noteq> (opt_dki opts \<noteq> None) \<or> (opt_dk_for_format opts \<noteq> None \<and> opt_dki_for_format opts = None)
      then (Inl FAILURE, opts)
      else if opt_dk opts \<noteq> None \<and> opt_dki opts \<noteq> None \<and> opt_dk_for_format opts \<noteq> None \<and> opt_dki_for_format opts \<noteq> None \<and>
              (opt_dk opts = opt_dk_for_format opts) \<noteq> (opt_dki opts = opt_dki_for_format opts)
      then (Inl FAILURE, opts)
      else if opt_dk opts \<noteq> None \<and> \<not> mem 0 then (Inl LTFS_NO_MEMORY, opts\<lparr>opt_dk_list := None\<rparr>)
      else
        let opts = opts\<lparr>opt_dk_list := append_key (opt_dk opts) (opt_dki opts) (opt_dk_list opts)\<rparr> in
        if opt_dk_for_format opts \<noteq> None \<and> \<not> mem 1 then (Inl LTFS_NO_MEMORY, opts\<lparr>opt_dk_list := None\<rparr>)
        else (Inr (), opts\<lparr>opt_dk_list := append_key (opt_dk_for_format opts) (opt_dki_for_format opts) (opt_dk_list opts)\<rparr>))"

definition simple_get_key ::
    "(nat \<Rightarrow> bool) \<Rightarrow> byte list option \<Rightarrow> kmi_simple_options_data \<Rightarrow> key_format_ltfs \<Rightarrow>
     (byte list option \<times> byte list option, key_format_ltfs) result" where
  "simple_get_key mem keyalias opts kfl = key_format_ltfs_get_key mem keyalias (opt_dk_list opts) (opt_dki_for_format opts) kfl"

text \<open>The plug-in's own operations pass the calls on.\<close>

definition simple_init :: "bool \<Rightarrow> key_format_ltfs \<Rightarrow> bool \<times> key_format_ltfs" where
  "simple_init mem kfl = key_format_ltfs_init mem kfl"

definition simple_destroy :: "key_format_ltfs \<Rightarrow> key_format_ltfs" where
  "simple_destroy kfl = key_format_ltfs_destroy kfl"

section \<open>The text of a key list\<close>

definition hex_digit :: "byte \<Rightarrow> byte" where
  "hex_digit n = (if n < 10 then 0x30 + n else 0x57 + n)"

definition hex_text :: "byte list \<Rightarrow> byte list" where
  "hex_text bs = concat (map (\<lambda>b. [hex_digit (drop_bit 4 b), hex_digit (b AND 0xf)]) bs)"

definition alias_text :: "byte list \<Rightarrow> byte list" where
  "alias_text a = take 3 a @ hex_text (drop 3 a)"

definition key_text :: "byte list \<times> byte list \<Rightarrow> byte list" where
  "key_text k = b64_encode (fst k) @ [0x3a] @ alias_text (snd k)"

fun list_text :: "(byte list \<times> byte list) list \<Rightarrow> byte list" where
  "list_text [] = []"
| "list_text (k # ks) = key_text k @ (if ks = [] then [] else 0x2f # list_text ks)"

definition pair_ok :: "byte list \<times> byte list \<Rightarrow> bool" where
  "pair_ok k \<longleftrightarrow> length (fst k) = 32 \<and> length (snd k) = 12 \<and> list_all isprint (take 3 (snd k))"

text \<open>Base64 of a key: 43 characters of the alphabet and one padding sign.\<close>

lemma b64_char_in: "unat v < 64 \<Longrightarrow> b64_char v \<in> set base64_enc"
  by (simp add: b64_char_def)

lemmas sextets_in = sextets [THEN b64_char_in]

lemma b64_encode_rest2:
  "length bs mod 3 = 2 \<Longrightarrow> \<exists>body. b64_encode bs = body @ [0x3d] \<and> set body \<subseteq> set base64_enc \<and> Suc (length body) = (length bs + 1) div 3 * 4"
proof (induction bs rule: b64_encode.induct)
  case (3 x y)
  let ?q = "[b64_char (drop_bit 2 x), b64_char (push_bit 4 (x AND 0x3) OR drop_bit 4 y), b64_char (push_bit 2 (y AND 0xf))]"
  have "b64_encode [x, y] = ?q @ [0x3d]" by (simp only: b64_encode.simps append.simps)
  moreover have "set ?q \<subseteq> set base64_enc" by (simp only: list.set insert_subset empty_subsetI sextets_in simp_thms)
  moreover have "Suc (length ?q) = (length [x, y] + 1) div 3 * 4" by simp
  ultimately show ?case by blast
next
  case (4 x y z r)
  then obtain body where b: "b64_encode r = body @ [0x3d]" "set body \<subseteq> set base64_enc" "Suc (length body) = (length r + 1) div 3 * 4" by auto
  let ?q = "[b64_char (drop_bit 2 x), b64_char (push_bit 4 (x AND 0x3) OR drop_bit 4 y),
      b64_char (push_bit 2 (y AND 0xf) OR drop_bit 6 z), b64_char (z AND 0x3f)]"
  have "b64_encode (x # y # z # r) = (?q @ body) @ [0x3d]" by (simp only: b64_encode.simps append.simps append_assoc b(1))
  moreover have "set ?q \<subseteq> set base64_enc" by (simp only: list.set insert_subset empty_subsetI sextets_in simp_thms)
  then have "set (?q @ body) \<subseteq> set base64_enc" using b(2) by (simp only: set_append Un_subset_iff simp_thms)
  moreover have "Suc (length (?q @ body)) = (length (x # y # z # r) + 1) div 3 * 4"
  proof -
    have "(length (x # y # z # r) + 1) div 3 = (length r + 1) div 3 + 1" using div_add_self2 [of 3 "length r + 1"] by simp
    then show ?thesis using b(3) by simp
  qed
  ultimately show ?case by blast
qed simp_all

lemma enc_alnum: "list_all (\<lambda>c. isalnum c \<or> c = 0x2b \<or> c = 0x2f) base64_enc"
  by (simp add: base64_enc_list isalnum_def)

lemma key_encoded:
  assumes "length k = 32"
  obtains body where "b64_encode k = body @ [0x3d]" "set body \<subseteq> set base64_enc" "length body = 43"
  using b64_encode_rest2 [of k] assms by auto

lemma is_key_encoded: "length k = 32 \<Longrightarrow> is_key (b64_encode k @ r)"
  using enc_alnum
  by (elim key_encoded) (auto simp: is_key_def kmi_lengths list_all_iff)

lemma length_key [simp]: "length k = 32 \<Longrightarrow> length (b64_encode k) = 44"
  by (elim key_encoded) simp

lemma convert_key_encoded:
  assumes "length k = 32"
  shows "convert_key True (b64_encode k @ r) = k"
proof -
  obtain body where b: "b64_encode k = body @ [0x3d]" "set body \<subseteq> set base64_enc" "length body = 43"
    using assms by (rule key_encoded)
  have "\<forall>c \<in> set body. \<not> is_ws c \<and> c \<noteq> 0x3d" using enc_list_all b(2) by (auto simp: list_all_iff)
  then have "filter (\<lambda>c. \<not> is_ws c) body = body" "0x3d \<notin> set body" by auto
  then have "base64_decode True (body @ [0x3d]) = B64_ok (map Some k)"
    using assms b(1) by (intro decode_encoded) auto
  then show ?thesis using assms b(1,3) by (simp add: convert_key_def kmi_lengths comp_def)
qed

text \<open>Hexadecimal text of bytes.\<close>

lemma nibble_cases: "(n :: byte) < 16 \<Longrightarrow> n \<in> {0, 1, 2, 3, 4, 5, 6, 7, 8, 9, 10, 11, 12, 13, 14, 15}"
proof -
  assume "n < 16"
  then have "unat n < 16" by (simp add: word_less_nat_alt)
  then have "unat n \<in> {0, 1, 2, 3, 4, 5, 6, 7, 8, 9, 10, 11, 12, 13, 14, 15}" unfolding insert_iff empty_iff by presburger
  then have "of_nat (unat n) \<in> (of_nat ` {0, 1, 2, 3, 4, 5, 6, 7, 8, 9, 10, 11, 12, 13, 14, 15} :: byte set)" by (rule imageI)
  then show ?thesis by simp
qed

lemma hex_digit_value: "n < 16 \<Longrightarrow> isxdigit (hex_digit n) \<and> hex_value (hex_digit n) = n"
  by (drule nibble_cases) (auto simp: hex_digit_def hex_value_def isxdigit_def)

lemma nibbles: "drop_bit 4 (b :: byte) < 16" "b AND 0xf < 16" "16 * drop_bit 4 b + (b AND 0xf) = b"
proof -
  have "unat b < 256" using unsigned_less [of b] by simp
  then have "unat (drop_bit 4 b) < 16" by (simp add: drop_bit_eq_div unat_div)
  then show "drop_bit 4 b < 16" by (simp add: word_less_nat_alt)
  have m: "b AND 0xf = b mod 16" using byte_masks(2) take_bit_eq_mask [of 4 b] by (simp add: take_bit_eq_mod)
  have "unat (b mod 16) < 16" by (simp add: unat_mod)
  then show "b AND 0xf < 16" by (simp add: m word_less_nat_alt)
  have "drop_bit 4 b = b div 16" by (simp add: drop_bit_eq_div)
  then show "16 * drop_bit 4 b + (b AND 0xf) = b" using div_mult_mod_eq [of b 16] by (simp only: m mult.commute)
qed

lemma strtoul16_text: "strtoul16 (hex_digit (drop_bit 4 b)) (hex_digit (b AND 0xf)) = b"
  using hex_digit_value [OF nibbles(1) [of b]] hex_digit_value [OF nibbles(2) [of b]] nibbles(3) [of b]
  by (simp add: strtoul16_def)

lemma length_hex_text [simp]: "length (hex_text bs) = 2 * length bs"
  by (induction bs) (simp_all add: hex_text_def)

lemma hex_text_xdigit: "list_all isxdigit (hex_text bs)"
  by (induction bs) (simp_all add: hex_text_def hex_digit_value nibbles)

lemma hex_text_nth: "i < length bs \<Longrightarrow> strtoul16 (hex_text bs ! (i * 2)) (hex_text bs ! (i * 2 + 1)) = bs ! i"
proof (induction bs arbitrary: i)
  case (Cons b bs)
  then show ?case
  proof (cases i)
    case 0
    then show ?thesis using strtoul16_text [of b] by (simp add: hex_text_def)
  next
    case (Suc j)
    then show ?thesis using Cons by (simp add: hex_text_def)
  qed
qed simp

lemma length_alias_text [simp]: "length a = 12 \<Longrightarrow> length (alias_text a) = 21"
  by (simp add: alias_text_def)

lemma is_keyalias_text: "length a = 12 \<Longrightarrow> list_all isprint (take 3 a) \<Longrightarrow> is_keyalias (alias_text a @ r)"
  by (simp add: is_keyalias_def kmi_lengths alias_text_def hex_text_xdigit)

lemma convert_keyalias_text:
  assumes "length a = 12"
  shows "convert_keyalias (alias_text a @ r) = a"
proof -
  let ?s = "alias_text a @ r" and ?t = "hex_text (drop 3 a)"
  have at: "?s ! (3 + j) = ?t ! j" if "j < 18" for j
    using assms that by (simp add: alias_text_def nth_append)
  have "strtoul16 (?s ! (3 + i * 2)) (?s ! (3 + i * 2 + 1)) = drop 3 a ! i" if "i < 9" for i
    using at [of "i * 2"] at [of "i * 2 + 1"] hex_text_nth [of i "drop 3 a"] assms that by (simp add: add.assoc)
  then have "map (\<lambda>i. strtoul16 (?s ! (3 + i * 2)) (?s ! (3 + i * 2 + 1))) [0..<9] = drop 3 a"
    using assms by (intro nth_equalityI) simp_all
  then show ?thesis
    using assms by (simp add: convert_keyalias_def kmi_lengths) (simp add: alias_text_def)
qed


text \<open>A pair takes 66 characters, with the separator 67.\<close>

lemma length_key_text [simp]: "pair_ok k \<Longrightarrow> length (key_text k) = 66"
  by (simp add: key_text_def pair_ok_def)

lemma length_list_text: "list_all pair_ok ks \<Longrightarrow> ks \<noteq> [] \<Longrightarrow> length (list_text ks) = length ks * 67 - 1"
  by (induction ks) auto

lemma list_text_cons: "list_text (k # ks) = key_text k @ (if ks = [] then [] else 0x2f # list_text ks)"
  by simp

lemma drop_list_text:
  "list_all pair_ok ks \<Longrightarrow> i < length ks \<Longrightarrow> drop (i * 67) (list_text ks) = list_text (drop i ks)"
proof (induction ks arbitrary: i)
  case (Cons k ks)
  then show ?case
  proof (cases i)
    case (Suc j)
    moreover from Suc Cons.prems have "ks \<noteq> []" by auto
    ultimately show ?thesis using Cons by (simp add: numeral_eq_Suc)
  qed simp
qed simp

lemma num_of_keys_text:
  "list_all pair_ok ks \<Longrightarrow> ks \<noteq> [] \<Longrightarrow>
     num_of_keys_loop n ((if n > 0 then [0x2f] else []) @ list_text ks) = Inr (n + length ks)"
proof (induction ks arbitrary: n)
  case (Cons k ks)
  let ?r = "if ks = [] then [] else 0x2f # list_text ks"
  from Cons.prems have k: "length (fst k) = 32" "length (snd k) = 12" "list_all isprint (take 3 (snd k))"
    by (simp_all add: pair_ok_def)
  have s: "(if n > 0 then drop SEPARATOR_LENGTH ((if n > 0 then [0x2f] else []) @ list_text (k # ks))
      else (if n > 0 then [0x2f] else []) @ list_text (k # ks)) = b64_encode (fst k) @ 0x3a # alias_text (snd k) @ ?r"
    by (simp add: kmi_lengths key_text_def)
  have d: "drop key_length (b64_encode (fst k) @ 0x3a # alias_text (snd k) @ ?r) = 0x3a # alias_text (snd k) @ ?r"
    "drop SEPARATOR_LENGTH (0x3a # alias_text (snd k) @ ?r) = alias_text (snd k) @ ?r"
    "drop keyalias_length (alias_text (snd k) @ ?r) = ?r"
    using k by (simp_all add: kmi_lengths)
  have "num_of_keys_loop n ((if n > 0 then [0x2f] else []) @ list_text (k # ks)) =
      (if SEPARATOR_LENGTH + key_length + SEPARATOR_LENGTH + keyalias_length \<le> length ?r \<and> hd ?r = 0x2f
       then num_of_keys_loop (Suc n) ?r else if ?r \<noteq> [] then Inl LTFS_BAD_ARG else Inr (Suc n))"
    unfolding num_of_keys_loop.simps [of n] s Let_def d
    using k by (simp add: is_key_encoded is_keyalias_text)
  also have "\<dots> = Inr (n + length (k # ks))"
  proof (cases "ks = []")
    case False
    then have "num_of_keys_loop (Suc n) (0x2f # list_text ks) = Inr (Suc n + length ks)"
      using Cons.IH [of "Suc n"] Cons.prems by simp
    moreover have "length (list_text ks) = length ks * 67 - 1" "length ks \<ge> 1"
      using length_list_text [of ks] False Cons.prems by (simp_all add: Suc_le_eq)
    then have "66 \<le> length (list_text ks)" by linarith
    ultimately show ?thesis using False by (simp add: kmi_lengths)
  qed (simp add: kmi_lengths)
  finally show ?case .
qed simp

lemma key_at_text:
  assumes "list_all pair_ok ks" and "i < length ks"
  shows "key_at True (list_text ks) i = ks ! i"
proof -
  obtain r where "drop (i * 67) (list_text ks) = key_text (ks ! i) @ r"
    using drop_list_text [OF assms] assms(2) by (metis Cons_nth_drop_Suc list_text_cons)
  then have r: "drop (i * 67) (list_text ks) = b64_encode (fst (ks ! i)) @ 0x3a # alias_text (snd (ks ! i)) @ r"
    by (simp add: key_text_def)
  have k: "length (fst (ks ! i)) = 32" "length (snd (ks ! i)) = 12"
    using assms by (simp_all add: list_all_length pair_ok_def)
  have "drop (i * 67 + 45) (list_text ks) = drop 45 (drop (i * 67) (list_text ks))" by (simp add: add.commute)
  then have "drop (i * 67 + 45) (list_text ks) = alias_text (snd (ks ! i)) @ r"
    using k by (simp add: r)
  moreover have "key_at True (list_text ks) i =
      (convert_key True (drop (i * 67) (list_text ks)), convert_keyalias (drop (i * 67 + 45) (list_text ks)))"
    by (simp add: key_at_def kmi_lengths Let_def ac_simps)
  ultimately show ?thesis
    using k by (simp add: r convert_key_encoded convert_keyalias_text)
qed

lemma get_num_of_keys_text:
  assumes "list_all pair_ok ks" and "ks \<noteq> []"
  shows "get_num_of_keys (list_text ks) = Inr (length ks)"
proof -
  have "length (list_text ks) = length ks * 67 - 1" "length ks \<ge> 1" using length_list_text assms by (auto simp: Suc_le_eq)
  then have "key_length + SEPARATOR_LENGTH + keyalias_length \<le> length (list_text ks)" by (simp add: kmi_lengths)
  then show ?thesis using num_of_keys_text [OF assms, of 0] by (simp add: get_num_of_keys_def)
qed

lemma set_dk_list_text:
  assumes "list_all pair_ok ks" and "ks \<noteq> []" and "kfl_state kfl = KFL_INITIALIZED \<or> kfl_state kfl = KFL_CLEARED"
  shows "set_dk_list True True (Some (list_text ks)) kfl = (Inr (), kfl\<lparr>kfl_state := KFL_SET, dk_list := ks\<rparr>)"
proof -
  have "map (key_at True (list_text ks)) [0..<length ks] = ks"
    using key_at_text [OF assms(1)] by (intro nth_equalityI) simp_all
  then show ?thesis using assms by (auto simp: set_dk_list_def get_num_of_keys_text)
qed

section \<open>Properties\<close>

text \<open>
  C32. The key list is a store of keys: for a list of keys and identifiers written in the format (base64,
  colon, three printable characters and hexadecimal digits, slash), \<^verbatim>\<open>key_format_ltfs_get_key\<close> returns the
  key of the first pair with the asked identifier, byte for byte, or that there is none; without an
  identifier it asks for the one of the format options and returns it too. The list in memory is empty
  again afterwards and the plug-in can be asked again.
\<close>

theorem kmi_get_key:
  assumes "list_all pair_ok ks" and "ks \<noteq> []" and "length a = 12"
    and "kfl_state kfl = KFL_INITIALIZED \<or> kfl_state kfl = KFL_CLEARED"
    and "keyalias = Some a \<or> keyalias = None \<and> fmt = Some (alias_text a)"
  shows "key_format_ltfs_get_key (\<lambda>_. True) keyalias (Some (list_text ks)) fmt kfl =
    (case find (\<lambda>k. snd k = a) ks of
       None \<Rightarrow> Inl LTFS_KEY_NOT_FOUND
     | Some k \<Rightarrow> Inr (Some (fst k), Some a),
     kfl\<lparr>kfl_state := KFL_CLEARED, dk_list := []\<rparr>)"
proof -
  let ?kfl = "kfl\<lparr>kfl_state := KFL_SET, dk_list := ks\<rparr>"
  have "get_key True True keyalias fmt ?kfl =
      (case find (\<lambda>k. snd k = a) ks of None \<Rightarrow> Inl LTFS_KEY_NOT_FOUND | Some k \<Rightarrow> Inr (Some (fst k), Some a))"
    using assms(3,5) convert_keyalias_text [OF assms(3)]
    by (auto simp: get_key_def kmi_lengths split: option.split)
  moreover have "clear ?kfl = kfl\<lparr>kfl_state := KFL_CLEARED, dk_list := []\<rparr>"
    by (simp add: clear_def Let_def)
  ultimately show ?thesis
    using set_dk_list_text [OF assms(1,2,4)] by (simp add: key_format_ltfs_get_key_def)
qed


text \<open>One key of 32 bytes, asked for by its identifier.\<close>

theorem kmi_get_key_witness:
  "let k = (map of_nat [0..<32], [0x41, 0x42, 0x43, 1, 2, 3, 4, 5, 6, 7, 8, 0xff]) in
   key_format_ltfs_get_key (\<lambda>_. True) (Some (snd k)) (Some (list_text [k])) None
     \<lparr>kfl_state = KFL_INITIALIZED, dk_list = []\<rparr> =
   (Inr (Some (map of_nat [0..<32]), Some (snd k)), \<lparr>kfl_state = KFL_CLEARED, dk_list = []\<rparr>)"
  unfolding Let_def
  by (subst kmi_get_key [where a = "[0x41, 0x42, 0x43, 1, 2, 3, 4, 5, 6, 7, 8, 0xff]"])
    (simp_all add: pair_ok_def isprint_def)

text \<open>
  The two pairs of the options of the simple key manager, given apart, make one key list: the key for the
  cartridge and the key for formatting are both found.
\<close>

lemma append_key_text:
  "append_key (Some (b64_encode k)) (Some (alias_text d)) None = Some (list_text [(k, d)])"
  by (simp add: append_key_def key_text_def)

lemma append_key_second:
  "length k = 32 \<Longrightarrow> append_key (Some (b64_encode k')) (Some (alias_text d')) (Some (list_text [(k, d)])) = Some (list_text [(k, d), (k', d')])"
  by (simp add: append_key_def key_text_def)

text \<open>
  The options of the simple key manager make a key list of both pairs: with a key and a different one for
  formatting, a mount is given the key of its identifier, and a format (which asks without an identifier)
  the key for formatting and its identifier.
\<close>

theorem simple_get_key_of_options:
  assumes "pair_ok (k, d)" and "pair_ok (k', d')" and "d \<noteq> d'" and "k \<noteq> k'"
    and "opts = \<lparr>opt_dk = Some (b64_encode k), opt_dki = Some (alias_text d),
      opt_dk_for_format = Some (b64_encode k'), opt_dki_for_format = Some (alias_text d'), opt_dk_list = None\<rparr>"
    and "simple_parse_opts (\<lambda>_. True) opts = (r, opts')"
    and "kfl_state kfl = KFL_INITIALIZED \<or> kfl_state kfl = KFL_CLEARED"
  shows "r = Inr () \<and> fst (simple_get_key (\<lambda>_. True) (Some d) opts' kfl) = Inr (Some k, Some d) \<and>
    fst (simple_get_key (\<lambda>_. True) None opts' kfl) = Inr (Some k', Some d')"
proof -
  have n: "b64_encode k \<noteq> b64_encode k'" "alias_text d \<noteq> alias_text d'"
    using assms(1-4) convert_key_encoded [of k "[]"] convert_key_encoded [of k' "[]"]
      convert_keyalias_text [of d "[]"] convert_keyalias_text [of d' "[]"] by (auto simp: pair_ok_def)
  have o: "r = Inr ()" "opt_dk_list opts' = Some (list_text [(k, d), (k', d')])" "opt_dki_for_format opts' = Some (alias_text d')"
    using assms(1-6) n by (auto simp: simple_parse_opts_def Let_def append_key_text append_key_second pair_ok_def simp del: list_text.simps)
  have f: "get_key True True (Some d) (Some (alias_text d')) (kfl\<lparr>kfl_state := KFL_SET, dk_list := [(k, d), (k', d')]\<rparr>) = Inr (Some k, Some d)"
    "get_key True True None (Some (alias_text d')) (kfl\<lparr>kfl_state := KFL_SET, dk_list := [(k, d), (k', d')]\<rparr>) = Inr (Some k', Some d')"
    using assms(1-3) convert_keyalias_text [of d'] by (auto simp: get_key_def kmi_lengths pair_ok_def)
  have "set_dk_list True True (Some (list_text [(k, d), (k', d')])) kfl =
      (Inr (), kfl\<lparr>kfl_state := KFL_SET, dk_list := [(k, d), (k', d')]\<rparr>)"
    using assms(1,2,7) by (intro set_dk_list_text) simp_all
  then show ?thesis
    using f by (simp add: o simple_get_key_def key_format_ltfs_get_key_def del: list_text.simps)
qed

text \<open>Two keys of 32 bytes, each with its identifier.\<close>

theorem simple_get_key_of_options_witness:
  "let k = replicate 32 0; d = replicate 12 0x41; k' = replicate 32 1; d' = replicate 12 0x42;
       opts = \<lparr>opt_dk = Some (b64_encode k), opt_dki = Some (alias_text d),
         opt_dk_for_format = Some (b64_encode k'), opt_dki_for_format = Some (alias_text d'), opt_dk_list = None\<rparr>;
       kfl = \<lparr>kfl_state = KFL_INITIALIZED, dk_list = []\<rparr> in
   fst (simple_get_key (\<lambda>_. True) None (snd (simple_parse_opts (\<lambda>_. True) opts)) kfl) = Inr (Some k', Some d')"
  unfolding Let_def
  by (rule simple_get_key_of_options [THEN conjunct2, THEN conjunct2, OF _ _ _ _ refl prod.collapse [symmetric]])
    (simp_all add: pair_ok_def isprint_def list_all_iff)


end
