(* ===== verification/Ltfs_Locking.thy ===== *)
theory Ltfs_Locking
  imports Ltfs_Prelude
begin

text \<open>
  The multi-reader single-writer lock of \<^verbatim>\<open>libltfs/ltfs_locking.h\<close>. Each of its functions is cut
  into its atomic actions (one mutex operation or one access to a shared field); a thread is a
  program point between two actions, and the system interleaves the actions of any number of
  threads. A mutex is its locked bit: \<open>reading_mutex\<close> is locked by the first reader and unlocked by
  the last one, which may be another thread. A blocking \<^verbatim>\<open>ltfs_mutex_lock\<close> is an action that
  is not enabled while the mutex is locked.

  The theorems: writers exclude each other and every reader in each reachable state (also while
  a write lock is downgraded), \<^verbatim>\<open>release_mrsw\<close> and \<^verbatim>\<open>releaseread_mrsw\<close> always find the counters
  they rely on, and no set of threads can block each other for ever.
\<close>

section \<open>The lock and its functions\<close>

record mrsw =
  write_exclusive_mutex :: bool
  reading_mutex :: bool
  read_count_mutex :: bool
  read_count :: nat
  writer :: nat
  long_lock :: nat

definition init_mrsw :: mrsw where
  "init_mrsw = \<lparr>write_exclusive_mutex = False, reading_mutex = False, read_count_mutex = False,
     read_count = 0, writer = 0, long_lock = 0\<rparr>"

text \<open>
  Program points. \<open>Idle\<close>, \<open>Reading\<close> and \<open>Writing\<close> are outside of the lock's functions; every other
  point names the action that comes next. The prefixes: \<open>AR\<close> \<^verbatim>\<open>acquireread_mrsw\<close>,
  \<open>SR\<close> \<^verbatim>\<open>acquireread_mrsw_short\<close>, \<open>AW\<close> \<^verbatim>\<open>acquirewrite_mrsw\<close> and \<^verbatim>\<open>acquirewrite_mrsw_long\<close> (the
  argument says which), \<open>TW\<close> \<^verbatim>\<open>try_acquirewrite_mrsw\<close>, \<open>RW\<close> \<^verbatim>\<open>releasewrite_mrsw\<close>,
  \<open>RR\<close> \<^verbatim>\<open>releaseread_mrsw\<close>, \<open>WR\<close> \<^verbatim>\<open>writetoread_mrsw\<close>, \<open>REL\<close> \<^verbatim>\<open>release_mrsw\<close> called by a reader
  or by a writer.
\<close>

datatype pc =
    Idle | Reading | Writing
  | AR_lock_wx | AR_long | AR_unlock_wx | AR_lock_rc | AR_inc | AR_first | AR_unlock_rc
  | SR_check | SR_try | SR_recheck | SR_unlock_wx
  | AW_lock_wx bool | AW_lock_rd bool | AW_set bool | AW_long bool
  | TW_try_wx | TW_try_rd | TW_undo | TW_set
  | RW_clear | RW_long | RW_unlock_rd | RW_unlock_wx
  | RR_lock_rc | RR_dec | RR_last | RR_unlock_rc
  | WR_clear | WR_long | WR_unlock_rd | WR_lock_rc | WR_inc | WR_first | WR_unlock_rc | WR_unlock_wx
  | REL_R | REL_W

text \<open>The calls a thread may make: it releases only what it holds.\<close>

datatype call =
    Call_acquireread | Call_acquireread_short | Call_acquirewrite | Call_acquirewrite_long
  | Call_try_acquirewrite | Call_releaseread | Call_releasewrite | Call_release | Call_writetoread

fun mrsw_call :: "pc \<Rightarrow> call \<Rightarrow> pc option" where
  "mrsw_call p Call_acquireread = (if p = Idle then Some AR_lock_wx else None)"
| "mrsw_call p Call_acquireread_short = (if p = Idle then Some SR_check else None)"
| "mrsw_call p Call_acquirewrite = (if p = Idle then Some (AW_lock_wx False) else None)"
| "mrsw_call p Call_acquirewrite_long = (if p = Idle then Some (AW_lock_wx True) else None)"
| "mrsw_call p Call_try_acquirewrite = (if p = Idle then Some TW_try_wx else None)"
| "mrsw_call p Call_releaseread = (if p = Reading then Some RR_lock_rc else None)"
| "mrsw_call p Call_releasewrite = (if p = Writing then Some RW_clear else None)"
| "mrsw_call p Call_release =
     (if p = Reading then Some REL_R else if p = Writing then Some REL_W else None)"
| "mrsw_call p Call_writetoread = (if p = Writing then Some WR_clear else None)"

text \<open>One action of a thread inside a function; \<open>None\<close> when it blocks (or is outside of them).\<close>

fun mrsw_act :: "mrsw \<Rightarrow> pc \<Rightarrow> (mrsw \<times> pc) option" where
  "mrsw_act m AR_lock_wx =
     (if write_exclusive_mutex m then None else Some (m\<lparr>write_exclusive_mutex := True\<rparr>, AR_long))"
| "mrsw_act m AR_long = Some (m\<lparr>long_lock := 0\<rparr>, AR_unlock_wx)"
| "mrsw_act m AR_unlock_wx = Some (m\<lparr>write_exclusive_mutex := False\<rparr>, AR_lock_rc)"
| "mrsw_act m AR_lock_rc =
     (if read_count_mutex m then None else Some (m\<lparr>read_count_mutex := True\<rparr>, AR_inc))"
| "mrsw_act m AR_inc = Some (m\<lparr>read_count := to32 (read_count m + 1)\<rparr>, AR_first)"
| "mrsw_act m AR_first =
     (if read_count m = 1
      then (if reading_mutex m then None else Some (m\<lparr>reading_mutex := True\<rparr>, AR_unlock_rc))
      else Some (m, AR_unlock_rc))"
| "mrsw_act m AR_unlock_rc = Some (m\<lparr>read_count_mutex := False\<rparr>, Reading)"
| "mrsw_act m SR_check = Some (m, if long_lock m \<noteq> 0 then Idle else SR_try)"
| "mrsw_act m SR_try =
     (if write_exclusive_mutex m then Some (m, SR_recheck)
      else Some (m\<lparr>write_exclusive_mutex := True\<rparr>, SR_unlock_wx))"
| "mrsw_act m SR_recheck = Some (m, if long_lock m \<noteq> 0 then Idle else SR_try)"
| "mrsw_act m SR_unlock_wx = Some (m\<lparr>write_exclusive_mutex := False\<rparr>, AR_lock_rc)"
| "mrsw_act m (AW_lock_wx l) =
     (if write_exclusive_mutex m then None else Some (m\<lparr>write_exclusive_mutex := True\<rparr>, AW_lock_rd l))"
| "mrsw_act m (AW_lock_rd l) =
     (if reading_mutex m then None else Some (m\<lparr>reading_mutex := True\<rparr>, AW_set l))"
| "mrsw_act m (AW_set l) = Some (m\<lparr>writer := 1\<rparr>, AW_long l)"
| "mrsw_act m (AW_long l) = Some (m\<lparr>long_lock := (if l then 1 else 0)\<rparr>, Writing)"
| "mrsw_act m TW_try_wx =
     (if write_exclusive_mutex m then Some (m, Idle)
      else Some (m\<lparr>write_exclusive_mutex := True\<rparr>, TW_try_rd))"
| "mrsw_act m TW_try_rd =
     (if reading_mutex m then Some (m, TW_undo) else Some (m\<lparr>reading_mutex := True\<rparr>, TW_set))"
| "mrsw_act m TW_undo = Some (m\<lparr>write_exclusive_mutex := False\<rparr>, Idle)"
| "mrsw_act m TW_set = Some (m\<lparr>writer := 1\<rparr>, Writing)"
| "mrsw_act m RW_clear = Some (m\<lparr>writer := 0\<rparr>, RW_long)"
| "mrsw_act m RW_long = Some (m\<lparr>long_lock := 0\<rparr>, RW_unlock_rd)"
| "mrsw_act m RW_unlock_rd = Some (m\<lparr>reading_mutex := False\<rparr>, RW_unlock_wx)"
| "mrsw_act m RW_unlock_wx = Some (m\<lparr>write_exclusive_mutex := False\<rparr>, Idle)"
| "mrsw_act m RR_lock_rc =
     (if read_count_mutex m then None else Some (m\<lparr>read_count_mutex := True\<rparr>, RR_dec))"
| "mrsw_act m RR_dec =
     (if read_count m \<le> 0 then Some (m\<lparr>read_count := 0\<rparr>, RR_unlock_rc)
      else Some (m\<lparr>read_count := read_count m - 1\<rparr>, RR_last))"
| "mrsw_act m RR_last =
     Some (if read_count m = 0 then m\<lparr>reading_mutex := False\<rparr> else m, RR_unlock_rc)"
| "mrsw_act m RR_unlock_rc = Some (m\<lparr>read_count_mutex := False\<rparr>, Idle)"
| "mrsw_act m WR_clear = Some (m\<lparr>writer := 0\<rparr>, WR_long)"
| "mrsw_act m WR_long = Some (m\<lparr>long_lock := 0\<rparr>, WR_unlock_rd)"
| "mrsw_act m WR_unlock_rd = Some (m\<lparr>reading_mutex := False\<rparr>, WR_lock_rc)"
| "mrsw_act m WR_lock_rc =
     (if read_count_mutex m then None else Some (m\<lparr>read_count_mutex := True\<rparr>, WR_inc))"
| "mrsw_act m WR_inc = Some (m\<lparr>read_count := to32 (read_count m + 1)\<rparr>, WR_first)"
| "mrsw_act m WR_first =
     (if read_count m = 1
      then (if reading_mutex m then None else Some (m\<lparr>reading_mutex := True\<rparr>, WR_unlock_rc))
      else Some (m, WR_unlock_rc))"
| "mrsw_act m WR_unlock_rc = Some (m\<lparr>read_count_mutex := False\<rparr>, WR_unlock_wx)"
| "mrsw_act m WR_unlock_wx = Some (m\<lparr>write_exclusive_mutex := False\<rparr>, Reading)"
| "mrsw_act m REL_R = Some (m, if writer m \<noteq> 0 then RW_clear else RR_lock_rc)"
| "mrsw_act m REL_W = Some (m, if writer m \<noteq> 0 then RW_clear else RR_lock_rc)"
| "mrsw_act m Idle = None"
| "mrsw_act m Reading = None"
| "mrsw_act m Writing = None"

section \<open>Threads interleaved\<close>

record lock_sys =
  lock :: mrsw
  pcs :: "nat \<Rightarrow> pc"

definition init_sys :: lock_sys where
  "init_sys = \<lparr>lock = init_mrsw, pcs = (\<lambda>_. Idle)\<rparr>"

inductive lock_step :: "nat \<Rightarrow> lock_sys \<Rightarrow> lock_sys \<Rightarrow> bool" for n where
  call: "t < n \<Longrightarrow> mrsw_call (pcs s t) c = Some p \<Longrightarrow> lock_step n s (s\<lparr>pcs := (pcs s)(t := p)\<rparr>)"
| act: "t < n \<Longrightarrow> mrsw_act (lock s) (pcs s t) = Some (m, p) \<Longrightarrow>
     lock_step n s (s\<lparr>lock := m, pcs := (pcs s)(t := p)\<rparr>)"

inductive reachable :: "nat \<Rightarrow> lock_sys \<Rightarrow> bool" for n where
  start: "reachable n init_sys"
| step: "reachable n s \<Longrightarrow> lock_step n s s' \<Longrightarrow> reachable n s'"

inductive_cases lock_stepE: "lock_step n s s'"

text \<open>A schedule: which thread moves next, into which call or by one action.\<close>

fun run_schedule :: "(nat \<times> call option) list \<Rightarrow> lock_sys \<Rightarrow> lock_sys option" where
  "run_schedule [] s = Some s"
| "run_schedule ((t, Some c) # evs) s = (case mrsw_call (pcs s t) c of None \<Rightarrow> None
     | Some p \<Rightarrow> run_schedule evs (s\<lparr>pcs := (pcs s)(t := p)\<rparr>))"
| "run_schedule ((t, None) # evs) s = (case mrsw_act (lock s) (pcs s t) of None \<Rightarrow> None
     | Some (m, p) \<Rightarrow> run_schedule evs (s\<lparr>lock := m, pcs := (pcs s)(t := p)\<rparr>))"

lemma run_schedule_reachable:
  assumes "reachable n s" and "run_schedule evs s = Some s'" and "\<forall>e\<in>set evs. fst e < n"
  shows "reachable n s'"
  using assms
proof (induction evs s rule: run_schedule.induct)
  case (2 t c evs s)
  then show ?case by (fastforce intro: reachable.step lock_step.call split: option.splits)
next
  case (3 t evs s)
  then show ?case by (fastforce intro: reachable.step lock_step.act split: option.splits)
qed simp

section \<open>Who holds what\<close>

definition wcrit :: "pc \<Rightarrow> bool" where
  "wcrit p = (case p of
    AW_set _ \<Rightarrow> True | AW_long _ \<Rightarrow> True | Writing \<Rightarrow> True
     | REL_W \<Rightarrow> True | RW_clear \<Rightarrow> True | RW_long \<Rightarrow> True
     | RW_unlock_rd \<Rightarrow> True | WR_clear \<Rightarrow> True | WR_long \<Rightarrow> True
     | WR_unlock_rd \<Rightarrow> True | TW_set \<Rightarrow> True | _ \<Rightarrow> False)"

definition holds_wx :: "pc \<Rightarrow> bool" where
  "holds_wx p = (case p of
    AR_long \<Rightarrow> True | AR_unlock_wx \<Rightarrow> True | SR_unlock_wx \<Rightarrow> True
     | AW_lock_rd _ \<Rightarrow> True | TW_try_rd \<Rightarrow> True | TW_undo \<Rightarrow> True
     | RW_unlock_wx \<Rightarrow> True | WR_lock_rc \<Rightarrow> True | WR_inc \<Rightarrow> True
     | WR_first \<Rightarrow> True | WR_unlock_rc \<Rightarrow> True
     | WR_unlock_wx \<Rightarrow> True | _ \<Rightarrow> wcrit p)"

definition holds_rc :: "pc \<Rightarrow> bool" where
  "holds_rc p = (case p of
    AR_inc \<Rightarrow> True | AR_first \<Rightarrow> True | AR_unlock_rc \<Rightarrow> True
     | RR_dec \<Rightarrow> True | RR_last \<Rightarrow> True | RR_unlock_rc \<Rightarrow> True
     | WR_inc \<Rightarrow> True | WR_first \<Rightarrow> True | WR_unlock_rc \<Rightarrow> True | _ \<Rightarrow> False)"

definition counted :: "pc \<Rightarrow> bool" where
  "counted p = (case p of
    AR_first \<Rightarrow> True | AR_unlock_rc \<Rightarrow> True | Reading \<Rightarrow> True
     | REL_R \<Rightarrow> True | RR_lock_rc \<Rightarrow> True | RR_dec \<Rightarrow> True
     | WR_first \<Rightarrow> True | WR_unlock_rc \<Rightarrow> True
     | WR_unlock_wx \<Rightarrow> True | _ \<Rightarrow> False)"

definition wflag :: "pc \<Rightarrow> bool" where
  "wflag p = (case p of
    AW_long _ \<Rightarrow> True | Writing \<Rightarrow> True | REL_W \<Rightarrow> True
     | RW_clear \<Rightarrow> True | WR_clear \<Rightarrow> True | _ \<Rightarrow> False)"

definition is_first :: "pc \<Rightarrow> bool" where
  "is_first p = (case p of
    AR_first \<Rightarrow> True | WR_first \<Rightarrow> True | _ \<Rightarrow> False)"

definition is_last :: "pc \<Rightarrow> bool" where
  "is_last p = (case p of
    RR_last \<Rightarrow> True | _ \<Rightarrow> False)"

lemmas who_defs = wcrit_def holds_wx_def holds_rc_def counted_def wflag_def is_first_def is_last_def

definition cnt :: "nat \<Rightarrow> (pc \<Rightarrow> bool) \<Rightarrow> (nat \<Rightarrow> pc) \<Rightarrow> nat" where
  "cnt n P f = card {t \<in> {..<n}. P (f t)}"


lemma cnt_upd:
  assumes "t < n"
  shows "cnt n P (f(t := p)) + of_bool (P (f t)) = cnt n P f + of_bool (P p)"
proof -
  let ?R = "{u \<in> {..<n} - {t}. P (f u)}"
  have split: "cnt n P g = card ?R + of_bool (P (g t))" if "\<And>u. u \<noteq> t \<Longrightarrow> g u = f u" for g
  proof -
    have "{u \<in> {..<n}. P (g u)} = (if P (g t) then insert t ?R else ?R)"
      using assms that by (auto, metis)
    then show ?thesis by (simp add: cnt_def)
  qed
  have "cnt n P f = card ?R + of_bool (P (f t))"
    by (rule split) simp
  moreover have "cnt n P (f(t := p)) = card ?R + of_bool (P p)"
    using split [of "f(t := p)"] by simp
  ultimately show ?thesis by simp
qed

lemma cnt_mono: "(\<And>p. P p \<Longrightarrow> Q p) \<Longrightarrow> cnt n P f \<le> cnt n Q f"
  by (auto simp: cnt_def intro!: card_mono)

lemma cnt_le: "cnt n P f \<le> n"
  unfolding cnt_def by (rule order_trans [OF card_mono [of "{..<n}"]]) auto

lemma cnt_pos: "t < n \<Longrightarrow> P (f t) \<Longrightarrow> 0 < cnt n P f"
  by (auto simp: cnt_def card_gt_0_iff)

lemma cnt_posE:
  assumes "0 < cnt n P f"
  obtains t where "t < n" and "P (f t)"
  using assms by (auto simp: cnt_def card_gt_0_iff)

lemma cnt_two:
  assumes "t < n" and "u < n" and "t \<noteq> u" and "P (f t)" and "P (f u)"
  shows "2 \<le> cnt n P f"
proof -
  have "card {t, u} \<le> cnt n P f"
    unfolding cnt_def using assms by (intro card_mono) auto
  with assms show ?thesis by simp
qed

text \<open>
  Readers own \<open>reading_mutex\<close> when one is counted, except while the only counted one has not taken it
  yet, and when the last one has not given it back yet.
\<close>

definition readers_own :: "nat \<Rightarrow> nat \<Rightarrow> nat \<Rightarrow> bool" where
  "readers_own rc firsts lasts \<longleftrightarrow> (0 < rc \<and> \<not> (firsts = 1 \<and> rc = 1)) \<or> (rc = 0 \<and> lasts = 1)"

text \<open>
  The invariant on the number of threads that hold \<open>write_exclusive_mutex\<close> (\<open>wx\<close>), hold
  \<open>read_count_mutex\<close> (\<open>rx\<close>), are counted as readers (\<open>ct\<close>), have set \<open>writer\<close> (\<open>wn\<close>), own
  \<open>reading_mutex\<close> as a writer (\<open>wc\<close>), are about to test for the first (\<open>fi\<close>) and for the last (\<open>la\<close>)
  reader.
\<close>

definition counts_inv :: "mrsw \<Rightarrow> nat \<Rightarrow> nat \<Rightarrow> nat \<Rightarrow> nat \<Rightarrow> nat \<Rightarrow> nat \<Rightarrow> nat \<Rightarrow> bool" where
  "counts_inv m wx rx ct wn wc fi la \<longleftrightarrow>
     wx = (if write_exclusive_mutex m then 1 else 0) \<and> rx = (if read_count_mutex m then 1 else 0) \<and>
     read_count m = ct \<and> writer m = wn \<and> wc \<le> 1 \<and>
     (wc = 0 \<or> \<not> readers_own ct fi la) \<and> (reading_mutex m \<longleftrightarrow> wc = 1 \<or> readers_own ct fi la)"

definition lock_inv :: "nat \<Rightarrow> lock_sys \<Rightarrow> bool" where
  "lock_inv n s \<longleftrightarrow> counts_inv (lock s) (cnt n holds_wx (pcs s)) (cnt n holds_rc (pcs s))
     (cnt n counted (pcs s)) (cnt n wflag (pcs s)) (cnt n wcrit (pcs s)) (cnt n is_first (pcs s))
     (cnt n is_last (pcs s))"

lemmas lock_inv_defs = lock_inv_def counts_inv_def readers_own_def

lemma who_subset:
  "is_first p \<Longrightarrow> \<not> is_last p" "is_first p \<Longrightarrow> holds_rc p" "is_last p \<Longrightarrow> holds_rc p"
  "is_first p \<Longrightarrow> counted p" "wcrit p \<Longrightarrow> holds_wx p" "wflag p \<Longrightarrow> wcrit p"
  by (cases p; simp add: who_defs)+

lemma cnt_first_last: "cnt n is_first f + cnt n is_last f \<le> cnt n holds_rc f"
proof -
  have "cnt n is_first f + cnt n is_last f = card ({t \<in> {..<n}. is_first (f t)} \<union> {t \<in> {..<n}. is_last (f t)})"
    unfolding cnt_def by (subst card_Un_disjoint) (auto dest: who_subset)
  also have "\<dots> \<le> cnt n holds_rc f"
    unfolding cnt_def by (intro card_mono) (auto dest: who_subset)
  finally show ?thesis .
qed

lemma cnt_subsets:
  "cnt n is_first f \<le> cnt n counted f" "cnt n wcrit f \<le> cnt n holds_wx f"
  "cnt n wflag f \<le> cnt n wcrit f"
  by (simp_all add: cnt_mono who_subset)

lemmas cnt_bounds = cnt_first_last cnt_subsets

lemma init_inv: "lock_inv n init_sys"
proof -
  have "cnt n P (\<lambda>_. Idle) = 0" if "\<not> P Idle" for P
    using that by (simp add: cnt_def)
  then show ?thesis
    by (simp add: lock_inv_defs init_sys_def init_mrsw_def who_defs)
qed

lemma call_inv:
  assumes "lock_inv n s" and "t < n" and "mrsw_call (pcs s t) c = Some p"
  shows "lock_inv n (s\<lparr>pcs := (pcs s)(t := p)\<rparr>)"
proof -
  have "cnt n P ((pcs s)(t := p)) = cnt n P (pcs s)"
    if "P \<in> {holds_wx, holds_rc, counted, wflag, wcrit, is_first, is_last}" for P
    using cnt_upd [OF \<open>t < n\<close>, of P "pcs s" p] assms(3) that
    by (cases c) (auto simp: who_defs split: if_splits)
  then show ?thesis
    using assms(1) by (simp add: lock_inv_def)
qed

text \<open>
  One action, seen by each field: a thread that moves from \<open>q\<close> to \<open>p\<close> changes the field as it starts
  or stops being one of its holders.
\<close>

definition finds_owner :: "mrsw \<Rightarrow> pc \<Rightarrow> bool" where
  "finds_owner m q \<longleftrightarrow> (q = REL_R \<longrightarrow> writer m = 0) \<and> (q = REL_W \<longrightarrow> writer m \<noteq> 0) \<and>
     (q = RR_dec \<longrightarrow> 0 < read_count m)"

lemma act_wx:
  assumes "mrsw_act m q = Some (m', p)" and "finds_owner m q"
  shows "if holds_wx p = holds_wx q then write_exclusive_mutex m' = write_exclusive_mutex m
    else write_exclusive_mutex m' = holds_wx p \<and> (holds_wx p \<longrightarrow> \<not> write_exclusive_mutex m)"
  using assms by (cases q) (auto simp: who_defs finds_owner_def split: if_split_asm)

lemma act_rx:
  assumes "mrsw_act m q = Some (m', p)" and "finds_owner m q"
  shows "if holds_rc p = holds_rc q then read_count_mutex m' = read_count_mutex m
    else read_count_mutex m' = holds_rc p \<and> (holds_rc p \<longrightarrow> \<not> read_count_mutex m)"
  using assms by (cases q) (auto simp: who_defs finds_owner_def split: if_split_asm)

lemma act_ct:
  assumes "mrsw_act m q = Some (m', p)" and "finds_owner m q"
  shows "read_count m' = (if counted p = counted q then read_count m
    else if counted p then to32 (Suc (read_count m)) else read_count m - 1)"
  using assms by (cases q) (auto simp: who_defs finds_owner_def split: if_split_asm)

lemma act_wn:
  assumes "mrsw_act m q = Some (m', p)" and "finds_owner m q"
  shows "writer m' = (if wflag p = wflag q then writer m else if wflag p then 1 else 0)"
  using assms by (cases q) (auto simp: who_defs finds_owner_def split: if_split_asm)

lemma act_rd:
  assumes "mrsw_act m q = Some (m', p)" and "finds_owner m q"
  obtains
    (writer) "wcrit p \<noteq> wcrit q" "\<not> wcrit p \<or> \<not> reading_mutex m" "reading_mutex m' = wcrit p"
      "counted p = counted q" "is_first p = is_first q" "is_last p = is_last q"
  | (count) "\<not> counted q" "counted p" "\<not> is_first q" "is_first p" "is_last p = is_last q" "wcrit p = wcrit q"
      "reading_mutex m' = reading_mutex m"
  | (first) "counted p = counted q" "is_first q" "\<not> is_first p" "is_last p = is_last q" "wcrit p = wcrit q"
      "read_count m = 1 \<Longrightarrow> \<not> reading_mutex m" "reading_mutex m' = (reading_mutex m \<or> read_count m = 1)"
  | (discount) "counted q" "\<not> counted p" "is_first p = is_first q" "\<not> is_last q" "is_last p" "wcrit p = wcrit q"
      "reading_mutex m' = reading_mutex m"
  | (last) "counted p = counted q" "is_first p = is_first q" "is_last q" "\<not> is_last p" "wcrit p = wcrit q"
      "reading_mutex m' = (reading_mutex m \<and> read_count m \<noteq> 0)"
  | (other) "counted p = counted q" "is_first p = is_first q" "is_last p = is_last q" "wcrit p = wcrit q"
      "reading_mutex m' = reading_mutex m"
  using assms by (cases q) (auto simp: who_defs finds_owner_def split: if_split_asm)

lemma act_reading:
  fixes wc wc' :: nat
  assumes act: "mrsw_act m q = Some (m', p)" and own: "finds_owner m q"
    and upd: "ct' + of_bool (counted q) = ct + of_bool (counted p)"
      "fi' + of_bool (is_first q) = fi + of_bool (is_first p)"
      "la' + of_bool (is_last q) = la + of_bool (is_last p)"
      "wc' + of_bool (wcrit q) = wc + of_bool (wcrit p)"
    and ct: "read_count m = ct" and sub: "fi + la \<le> 1" "fi' + la' \<le> 1" "fi \<le> ct"
    and inv: "wc \<le> 1" "wc = 0 \<or> \<not> readers_own ct fi la" "reading_mutex m \<longleftrightarrow> wc = 1 \<or> readers_own ct fi la"
  shows "wc' \<le> 1 \<and> (wc' = 0 \<or> \<not> readers_own ct' fi' la') \<and>
     (reading_mutex m' \<longleftrightarrow> wc' = 1 \<or> readers_own ct' fi' la')"
  using act own
proof (cases rule: act_rd)
  case writer
  then show ?thesis using upd inv by (cases "wcrit q") auto
next
  case count
  with upd sub have "ct' = ct + 1" "fi = 0" "la = 0" "fi' = 1" "la' = 0" "wc' = wc" by auto
  with count show ?thesis using inv by (auto simp: readers_own_def)
next
  case first
  with upd sub have "ct' = ct" "fi = 1" "la = 0" "fi' = 0" "la' = 0" "wc' = wc" "0 < ct" by auto
  with first show ?thesis using inv ct by (auto simp: readers_own_def)
next
  case discount
  with upd sub have "ct = ct' + 1" "fi = 0" "la = 0" "fi' = 0" "la' = 1" "wc' = wc" by auto
  with discount show ?thesis using inv by (auto simp: readers_own_def)
next
  case last
  with upd sub have "ct' = ct" "la = 1" "fi = 0" "la' = 0" "fi' = 0" "wc' = wc" by auto
  with last show ?thesis using inv ct by (auto simp: readers_own_def)
next
  case other
  then show ?thesis using upd inv by auto
qed

lemma counted_readers_own:
  assumes "t < n" and "counted (pcs s t)" and "\<not> is_first (pcs s t)"
  shows "readers_own (cnt n counted (pcs s)) (cnt n is_first (pcs s)) l"
proof -
  have "0 < cnt n counted (pcs s)"
    using cnt_pos [OF assms(1), of counted "pcs s"] assms(2) .
  moreover have "2 \<le> cnt n counted (pcs s)" if "cnt n is_first (pcs s) = 1"
  proof -
    from that obtain u where "u < n" "is_first (pcs s u)" by (metis cnt_posE zero_less_one)
    with assms show ?thesis by (intro cnt_two [of u n t]) (auto simp: who_subset)
  qed
  ultimately show ?thesis by (auto simp: readers_own_def)
qed

lemma inv_no_writer:
  assumes "lock_inv n s" and "t < n" and "counted (pcs s t)" and "\<not> is_first (pcs s t)"
  shows "cnt n wcrit (pcs s) = 0" and "writer (lock s) = 0"
  using counted_readers_own [OF assms(2,3,4)] assms(1) cnt_subsets(3) [of n "pcs s"]
  by (simp_all add: lock_inv_def counts_inv_def)

lemma inv_finds_owner:
  assumes inv: "lock_inv n s" and t: "t < n"
  shows "finds_owner (lock s) (pcs s t)"
  using inv_no_writer [OF assms] cnt_pos [OF t, of wflag "pcs s"] cnt_pos [OF t, of counted "pcs s"] inv
  by (auto simp: finds_owner_def who_defs lock_inv_def counts_inv_def)

lemma act_inv:
  assumes inv: "lock_inv n s" and t: "t < n" and n: "n < U32"
    and act: "mrsw_act (lock s) (pcs s t) = Some (m, p)"
  shows "lock_inv n (s\<lparr>lock := m, pcs := (pcs s)(t := p)\<rparr>)"
proof -
  let ?q = "pcs s t" let ?f' = "(pcs s)(t := p)"
  note upd = cnt_upd [OF t, of _ "pcs s" p]
  note own = inv_finds_owner [OF inv t]
  have inv': "counts_inv (lock s) (cnt n holds_wx (pcs s)) (cnt n holds_rc (pcs s))
     (cnt n counted (pcs s)) (cnt n wflag (pcs s)) (cnt n wcrit (pcs s)) (cnt n is_first (pcs s))
     (cnt n is_last (pcs s))"
    using inv by (simp add: lock_inv_def)
  have has: "P ?q \<Longrightarrow> 0 < cnt n P (pcs s)" for P
    using cnt_pos [OF t, of P "pcs s"] .
  have wx: "cnt n holds_wx ?f' = (if write_exclusive_mutex m then 1 else 0)"
    using upd [of holds_wx] act_wx [OF act own] inv' has [of holds_wx]
    by (auto simp: counts_inv_def split: if_splits)
  have rx: "cnt n holds_rc ?f' = (if read_count_mutex m then 1 else 0)"
    using upd [of holds_rc] act_rx [OF act own] inv' has [of holds_rc]
    by (auto simp: counts_inv_def split: if_splits)
  have "read_count m = cnt n counted ?f'"
  proof -
    have "cnt n counted ?f' < U32" using cnt_le [of n counted ?f'] n by simp
    then show ?thesis
      using upd [of counted] act_ct [OF act own] inv' has [of counted]
      by (auto simp: counts_inv_def to32_exact split: if_splits)
  qed
  moreover have "writer m = cnt n wflag ?f'"
  proof -
    have "cnt n wflag (pcs s) \<le> 1" "cnt n wflag ?f' \<le> 1"
      using inv' wx cnt_subsets [of n "pcs s"] cnt_subsets [of n ?f']
      by (auto simp: counts_inv_def split: if_splits)
    then show ?thesis
      using upd [of wflag] act_wn [OF act own] inv' has [of wflag]
      by (auto simp: counts_inv_def split: if_splits)
  qed
  moreover have "cnt n wcrit ?f' \<le> 1 \<and>
      (cnt n wcrit ?f' = 0 \<or> \<not> readers_own (cnt n counted ?f') (cnt n is_first ?f') (cnt n is_last ?f')) \<and>
      (reading_mutex m \<longleftrightarrow> cnt n wcrit ?f' = 1 \<or>
         readers_own (cnt n counted ?f') (cnt n is_first ?f') (cnt n is_last ?f'))"
  proof (rule act_reading [OF act own upd upd upd upd])
    show "cnt n is_first (pcs s) + cnt n is_last (pcs s) \<le> 1"
      using cnt_first_last [of n "pcs s"] inv' by (simp add: counts_inv_def split: if_splits)
    show "cnt n is_first ?f' + cnt n is_last ?f' \<le> 1"
      using cnt_first_last [of n ?f'] rx by (simp split: if_splits)
  qed (use inv' cnt_subsets in \<open>simp_all add: counts_inv_def\<close>)
  ultimately show ?thesis
    using wx rx by (simp add: lock_inv_def counts_inv_def)
qed

lemma reachable_inv:
  assumes "reachable n s" and "n < U32"
  shows "lock_inv n s"
  using assms(1)
proof (induction rule: reachable.induct)
  case start
  show ?case by (rule init_inv)
next
  case (step s s')
  from step.hyps(2) show ?case
    by (rule lock_stepE) (use step.IH assms(2) call_inv act_inv in blast)+
qed

section \<open>Mutual exclusion\<close>

text \<open>The points at which a thread may use what the lock protects.\<close>

definition may_write :: "pc \<Rightarrow> bool" where
  "may_write p \<longleftrightarrow> p = Writing"

definition may_read :: "pc \<Rightarrow> bool" where
  "may_read p \<longleftrightarrow> p = Reading \<or> p = Writing"

text \<open>
  C24. In every state that any number of threads below \<open>2 ^ 32\<close> can reach with the lock's functions, a
  thread that holds the write lock is alone: no other thread holds the lock for reading or writing.
\<close>

theorem mrsw_mutual_exclusion:
  assumes "reachable n s" and "n < U32" and "t < n" and "u < n" and "t \<noteq> u"
    and "may_write (pcs s t)"
  shows "\<not> may_read (pcs s u)"
proof
  assume r: "may_read (pcs s u)"
  let ?c = "\<lambda>P. cnt n P (pcs s)"
  have inv: "counts_inv (lock s) (?c holds_wx) (?c holds_rc) (?c counted) (?c wflag) (?c wcrit)
      (?c is_first) (?c is_last)"
    using reachable_inv [OF assms(1,2)] by (simp add: lock_inv_def)
  have t: "pcs s t = Writing" using assms(6) by (simp add: may_write_def)
  then have wc: "0 < ?c wcrit"
    using cnt_pos [OF assms(3), of wcrit "pcs s"] by (simp add: who_defs)
  from r consider "pcs s u = Writing" | "pcs s u = Reading" by (auto simp: may_read_def)
  then show False
  proof cases
    case 1
    then have "2 \<le> ?c wcrit"
      using assms t by (intro cnt_two [of t n u]) (simp_all add: who_defs)
    with inv show False by (simp add: counts_inv_def)
  next
    case 2
    with wc show False
      using inv_no_writer(1) [OF reachable_inv [OF assms(1,2)] assms(4)] by (simp add: who_defs)
  qed
qed

lemma writer_run:
  "\<exists>s. reachable 2 s \<and> pcs s 0 = Writing \<and> pcs s 1 = SR_recheck"
proof -
  let ?evs = "[(0, Some Call_acquirewrite), (0, None), (0, None), (0, None), (0, None),
    (1, Some Call_acquireread_short), (1, None), (1, None)]"
  obtain s where s: "run_schedule ?evs init_sys = Some s" "pcs s 0 = Writing" "pcs s 1 = SR_recheck"
    by (simp add: init_sys_def init_mrsw_def)
  have "reachable 2 s"
    by (rule run_schedule_reachable [OF reachable.start s(1)]) simp
  with s show ?thesis by blast
qed

theorem mrsw_mutual_exclusion_witness:
  "\<exists>s. reachable 2 s \<and> may_write (pcs s 0) \<and> \<not> may_read (pcs s 1)"
proof -
  obtain s where s: "reachable 2 s" "pcs s 0 = Writing" using writer_run by blast
  then have "\<not> may_read (pcs s 1)"
    using mrsw_mutual_exclusion [of 2 s 0 1] by (simp add: U32_def may_write_def)
  with s show ?thesis by (auto simp: may_write_def)
qed

section \<open>Releasing\<close>

text \<open>
  In every reachable state \<^verbatim>\<open>release_mrsw\<close> sees the \<open>writer\<close> flag of its caller (a reader finds it
  clear, a writer finds it set), so it takes the branch of the lock its caller holds, and
  \<^verbatim>\<open>releaseread_mrsw\<close> finds a positive \<open>read_count\<close>: its error branch is never taken.
\<close>

theorem mrsw_release_finds_owner:
  assumes "reachable n s" and "n < U32" and "t < n"
  shows "(pcs s t = REL_R \<longrightarrow> mrsw_act (lock s) REL_R = Some (lock s, RR_lock_rc)) \<and>
    (pcs s t = REL_W \<longrightarrow> mrsw_act (lock s) REL_W = Some (lock s, RW_clear)) \<and>
    (pcs s t = RR_dec \<longrightarrow> 0 < read_count (lock s) \<and>
       mrsw_act (lock s) RR_dec = Some ((lock s)\<lparr>read_count := read_count (lock s) - 1\<rparr>, RR_last))"
  using inv_finds_owner [OF reachable_inv [OF assms(1,2)] assms(3)] by (auto simp: finds_owner_def)

theorem mrsw_release_finds_owner_witness:
  "\<exists>s. reachable 1 s \<and> pcs s 0 = REL_R \<and> mrsw_act (lock s) REL_R = Some (lock s, RR_lock_rc)"
proof -
  let ?evs = "[(0, Some Call_acquireread), (0, None), (0, None), (0, None), (0, None), (0, None), (0, None),
    (0, None), (0, Some Call_release)]"
  obtain s where s: "run_schedule ?evs init_sys = Some s" "pcs s 0 = REL_R"
    by (simp add: init_sys_def init_mrsw_def to32_def U32_def)
  have "reachable 1 s"
    by (rule run_schedule_reachable [OF reachable.start s(1)]) simp
  moreover from this have "mrsw_act (lock s) REL_R = Some (lock s, RR_lock_rc)"
    using mrsw_release_finds_owner [of 1 s 0] s(2) by (simp add: U32_def)
  ultimately show ?thesis using s(2) by blast
qed

section \<open>Progress\<close>

text \<open>
  An action that brings its thread forward: it is enabled, and it is not a turn of the retry loop of
  \<^verbatim>\<open>acquireread_mrsw_short\<close>, which only waits for \<open>write_exclusive_mutex\<close>.
\<close>

definition advances :: "mrsw \<Rightarrow> pc \<Rightarrow> bool" where
  "advances m q \<longleftrightarrow> mrsw_act m q \<noteq> None \<and>
     \<not> (q \<in> {SR_check, SR_try, SR_recheck} \<and> write_exclusive_mutex m \<and> long_lock m = 0)"

lemma not_advancing:
  assumes "\<not> advances m q"
  obtains (outside) "q \<in> {Idle, Reading, Writing}"
  | (wx) "write_exclusive_mutex m" "\<not> holds_wx q" "\<not> holds_rc q" "\<not> counted q"
  | (rx) "read_count_mutex m" "\<not> holds_rc q" "\<not> wcrit q" "\<not> is_first q" "\<not> is_last q"
  | (rd) "reading_mutex m" "\<not> holds_rc q" "\<not> counted q" "\<not> wcrit q"
  | (first) "reading_mutex m" "is_first q" "read_count m = 1"
  using assms by (cases q) (auto simp: advances_def who_defs split: if_splits)

definition quiet :: "nat \<Rightarrow> lock_sys \<Rightarrow> bool" where
  "quiet n s \<longleftrightarrow> (\<forall>t<n. pcs s t \<noteq> Reading \<and> pcs s t \<noteq> Writing)"

definition some_advances :: "nat \<Rightarrow> lock_sys \<Rightarrow> bool" where
  "some_advances n s \<longleftrightarrow> (\<exists>t<n. advances (lock s) (pcs s t))"

lemma writer_advances:
  assumes "quiet n s" and "0 < cnt n wcrit (pcs s)"
  shows "some_advances n s"
proof -
  obtain t where t: "t < n" "wcrit (pcs s t)" using assms(2) by (rule cnt_posE)
  moreover have "pcs s t \<noteq> Writing" using t assms(1) by (simp add: quiet_def)
  ultimately have "advances (lock s) (pcs s t)"
    by (cases "pcs s t") (simp_all add: advances_def who_defs)
  with t show ?thesis by (auto simp: some_advances_def)
qed

lemma first_blocked_advances:
  assumes inv: "lock_inv n s" and "quiet n s" and t: "t < n" "is_first (pcs s t)"
    and rd: "reading_mutex (lock s)" "read_count (lock s) = 1"
  shows "some_advances n s"
proof -
  have "0 < cnt n is_first (pcs s)" using cnt_pos [OF t(1), of is_first "pcs s"] t(2) .
  with inv rd have "\<not> readers_own (cnt n counted (pcs s)) (cnt n is_first (pcs s)) (cnt n is_last (pcs s))"
    using cnt_subsets(1) [of n "pcs s"] by (auto simp: lock_inv_def counts_inv_def readers_own_def)
  with inv rd have "0 < cnt n wcrit (pcs s)" by (auto simp: lock_inv_def counts_inv_def)
  with assms(2) show ?thesis by (rule writer_advances)
qed

lemma rc_locked_advances:
  assumes inv: "lock_inv n s" and q: "quiet n s" and "read_count_mutex (lock s)"
  shows "some_advances n s"
proof -
  from inv assms(3) have "0 < cnt n holds_rc (pcs s)" by (simp add: lock_inv_def counts_inv_def)
  then obtain t where t: "t < n" "holds_rc (pcs s t)" by (rule cnt_posE)
  show ?thesis
  proof (cases "advances (lock s) (pcs s t)")
    case True
    with t show ?thesis by (auto simp: some_advances_def)
  next
    case False
    then show ?thesis
      by (cases rule: not_advancing)
        (use t in \<open>auto simp: who_defs intro: first_blocked_advances [OF inv q t(1)]\<close>)
  qed
qed

lemma rd_locked_advances:
  assumes inv: "lock_inv n s" and q: "quiet n s" and rd: "reading_mutex (lock s)"
  shows "some_advances n s"
proof -
  let ?c = "\<lambda>P. cnt n P (pcs s)"
  from inv rd consider "0 < ?c wcrit" | "0 < ?c counted" | "0 < ?c is_last"
    by (auto simp: lock_inv_def counts_inv_def readers_own_def)
  then show ?thesis
  proof cases
    case 1
    with q show ?thesis by (rule writer_advances)
  next
    case 2
    then obtain t where t: "t < n" "counted (pcs s t)" by (rule cnt_posE)
    show ?thesis
    proof (cases "advances (lock s) (pcs s t)")
      case True
      with t show ?thesis by (auto simp: some_advances_def)
    next
      case False
      then show ?thesis
        by (cases rule: not_advancing) (use t q in \<open>auto simp: quiet_def who_defs
          intro: rc_locked_advances [OF inv q] first_blocked_advances [OF inv q t(1)]\<close>)
    qed
  next
    case 3
    then have "0 < ?c holds_rc" using cnt_first_last [of n "pcs s"] by simp
    with inv have "read_count_mutex (lock s)"
      by (simp add: lock_inv_def counts_inv_def split: if_splits)
    with inv q show ?thesis by (rule rc_locked_advances)
  qed
qed

lemma wx_locked_advances:
  assumes inv: "lock_inv n s" and q: "quiet n s" and "write_exclusive_mutex (lock s)"
  shows "some_advances n s"
proof -
  from inv assms(3) have "0 < cnt n holds_wx (pcs s)" by (simp add: lock_inv_def counts_inv_def)
  then obtain t where t: "t < n" "holds_wx (pcs s t)" by (rule cnt_posE)
  show ?thesis
  proof (cases "advances (lock s) (pcs s t)")
    case True
    with t show ?thesis by (auto simp: some_advances_def)
  next
    case False
    then show ?thesis
      by (cases rule: not_advancing) (use t q in \<open>auto simp: quiet_def who_defs
        intro: rc_locked_advances [OF inv q] rd_locked_advances [OF inv q]\<close>)
  qed
qed

text \<open>
  C25. The lock's functions cannot block each other for ever: in every reachable state in which no thread
  is inside a critical section but some thread is inside a function of the lock, some thread has
  an action that brings it forward (the retry loop of \<^verbatim>\<open>acquireread_mrsw_short\<close> does not count).
\<close>

theorem mrsw_no_deadlock:
  assumes "reachable n s" and "n < U32"
    and "\<forall>t<n. pcs s t \<noteq> Reading \<and> pcs s t \<noteq> Writing"
    and "u < n" and "pcs s u \<noteq> Idle"
  shows "\<exists>t<n. advances (lock s) (pcs s t)"
proof -
  have inv: "lock_inv n s" using assms(1,2) by (rule reachable_inv)
  have q: "quiet n s" using assms(3) by (simp add: quiet_def)
  have "some_advances n s"
  proof (cases "advances (lock s) (pcs s u)")
    case True
    with assms(4) show ?thesis by (auto simp: some_advances_def)
  next
    case False
    then show ?thesis
      by (cases rule: not_advancing)
        (use assms in \<open>auto intro: wx_locked_advances [OF inv q] rc_locked_advances [OF inv q]
          rd_locked_advances [OF inv q]\<close>)
  qed
  then show ?thesis by (simp add: some_advances_def)
qed

theorem mrsw_no_deadlock_witness:
  "\<exists>s. reachable 1 s \<and> pcs s 0 = AW_lock_rd True \<and> (\<exists>t<1. advances (lock s) (pcs s t))"
proof -
  let ?evs = "[(0, Some Call_acquirewrite_long), (0, None)]"
  obtain s where s: "run_schedule ?evs init_sys = Some s" "pcs s 0 = AW_lock_rd True"
    by (simp add: init_sys_def init_mrsw_def)
  have "reachable 1 s"
    by (rule run_schedule_reachable [OF reachable.start s(1)]) simp
  moreover from this have "\<exists>t<1. advances (lock s) (pcs s t)"
    using mrsw_no_deadlock [of 1 s 0] s(2) by (simp add: U32_def)
  ultimately show ?thesis using s(2) by blast
qed

end
