(* ===== verification/Ltfs_Tape_Ops.thy ===== *)
theory Ltfs_Tape_Ops
  imports Ltfs_Prelude
begin

text \<open>
  The interface between libltfs and a tape driver (\<^verbatim>\<open>libltfs/tape_ops.h\<close>): positions, space types, and
  the contract that a driver's read, write, write-filemark and locate functions have towards their
  caller, as a locale over an abstract tape. A tape partition is the list of its records; a write
  at block \<open>b\<close> makes its record the last one.
\<close>

record tc_position =
  pos_partition :: nat
  pos_block :: nat
  pos_filemarks :: nat
  early_warning :: bool
  programmable_early_warning :: bool

datatype TC_SPACE_TYPE = TC_SPACE_EOD | TC_SPACE_FM_F | TC_SPACE_FM_B | TC_SPACE_F | TC_SPACE_B

datatype TC_FORMAT_TYPE = TC_FORMAT_DEFAULT | TC_FORMAT_PARTITION | TC_FORMAT_DEST_PART | TC_FORMAT_MAX

record tc_remaining_cap =
  remaining_p0 :: nat
  remaining_p1 :: nat
  max_p0 :: nat
  max_p1 :: nat

record tc_drive_param =
  max_blksize :: nat
  logical_write_protect :: bool
  write_protect :: bool

definition TAPE_BLOCK_MAX :: nat where
  "TAPE_BLOCK_MAX = U64 - 1"

section \<open>The functions of a driver\<close>

text \<open>
  \<^verbatim>\<open>struct tape_ops\<close>: the functions that libltfs calls, over the driver's own state \<open>'s\<close>. A function
  that reports a position takes and returns it beside the state; \<open>None\<close> is a call that never returns. The last function
  is missing (a null pointer) in some of the drivers; its argument is the identifier of the attribute.
\<close>

record 's tape_ops =
  op_test_unit_ready :: "'s \<Rightarrow> err + unit"
  op_read :: "nat \<Rightarrow> bool \<Rightarrow> 's \<times> tc_position \<Rightarrow> (byte list, 's \<times> tc_position) result"
  op_write :: "byte list \<Rightarrow> 's \<times> tc_position \<Rightarrow> (nat, 's \<times> tc_position) result"
  op_writefm :: "nat \<Rightarrow> 's \<times> tc_position \<Rightarrow> (unit, 's \<times> tc_position) result"
  op_rewind :: "'s \<times> tc_position \<Rightarrow> (unit, 's \<times> tc_position) result"
  op_locate :: "nat \<Rightarrow> nat \<Rightarrow> 's \<times> tc_position \<Rightarrow> (unit, 's \<times> tc_position) result"
  op_space :: "nat \<Rightarrow> TC_SPACE_TYPE \<Rightarrow> 's \<times> tc_position \<Rightarrow> (unit, 's \<times> tc_position) result option"
  op_readpos :: "'s \<times> tc_position \<Rightarrow> (unit, 's \<times> tc_position) result"
  op_reserve_unit :: "'s \<Rightarrow> (unit, 's) result"
  op_release_unit :: "'s \<Rightarrow> (unit, 's) result"
  op_prevent_medium_removal :: "'s \<Rightarrow> (unit, 's) result"
  op_allow_medium_removal :: "'s \<Rightarrow> (unit, 's) result"
  op_read_attribute :: "nat \<Rightarrow> nat \<Rightarrow> nat \<Rightarrow> 's \<Rightarrow> err + byte list"
  op_write_attribute :: "nat \<Rightarrow> byte list \<Rightarrow> 's \<Rightarrow> (unit, 's) result"
  op_allow_overwrite :: "tc_position \<Rightarrow> 's \<Rightarrow> (unit, 's) result"
  op_get_parameters :: "'s \<Rightarrow> err + tc_drive_param"
  op_update_mam_attr :: "(nat \<Rightarrow> 's \<Rightarrow> (unit, 's) result) option"

section \<open>Abstract tapes\<close>

datatype trec = Data "byte list" | Filemark

type_synonym tape = "nat \<Rightarrow> trec list"

definition filemarks_before :: "trec list \<Rightarrow> nat \<Rightarrow> nat" where
  "filemarks_before rs b = length (filter (\<lambda>r. r = Filemark) (take b rs))"

lemma filemarks_before_0 [simp]: "filemarks_before rs 0 = 0"
  by (simp add: filemarks_before_def)

lemma filemarks_before_Suc:
  "b < length rs \<Longrightarrow> filemarks_before rs (Suc b) = filemarks_before rs b + of_bool (rs ! b = Filemark)"
  by (simp add: filemarks_before_def take_Suc_conv_app_nth)

lemma filemarks_before_append: "b \<le> length rs \<Longrightarrow> filemarks_before (take b rs @ rs') b = filemarks_before rs b"
  by (simp add: filemarks_before_def)

text \<open>Blocks written one after another, and read one after another.\<close>

fun write_all :: "(byte list \<Rightarrow> 's \<Rightarrow> (nat, 's) result) \<Rightarrow> byte list list \<Rightarrow> 's \<Rightarrow> (unit, 's) result" where
  "write_all wr [] s = (Inr (), s)"
| "write_all wr (b # bs) s = rbind (wr b s) (\<lambda>_. write_all wr bs)"

fun read_all :: "(nat \<Rightarrow> 's \<Rightarrow> (byte list, 's) result) \<Rightarrow> nat \<Rightarrow> nat \<Rightarrow> 's \<Rightarrow> (byte list list, 's) result" where
  "read_all rd 0 c s = (Inr [], s)"
| "read_all rd (Suc k) c s = rbind (rd c s) (\<lambda>d s. rbind (read_all rd k c s) (\<lambda>ds s. (Inr (d # ds), s)))"

section \<open>The contract of a driver\<close>

text \<open>
  The state \<open>'s\<close> of a driver holds a tape (\<open>tape_of\<close>) and the head position; \<open>ok\<close> is its invariant and
  \<open>room\<close> bounds the blocks it can hold. \<open>wr\<close>, \<open>wfm\<close>, \<open>rd\<close> and \<open>loc\<close> are its functions; the position that a
  function reports through its \<open>pos\<close> argument is the position of the head.
\<close>

locale tape_driver =
  fixes ok :: "'s \<Rightarrow> bool" and tape_of :: "'s \<Rightarrow> tape" and head :: "'s \<Rightarrow> nat \<times> nat" and max_block :: "'s \<Rightarrow> nat"
    and wr :: "byte list \<Rightarrow> 's \<times> tc_position \<Rightarrow> (nat, 's \<times> tc_position) result"
    and wfm :: "nat \<Rightarrow> 's \<times> tc_position \<Rightarrow> (unit, 's \<times> tc_position) result"
    and rd :: "nat \<Rightarrow> 's \<times> tc_position \<Rightarrow> (byte list, 's \<times> tc_position) result"
    and loc :: "nat \<Rightarrow> nat \<Rightarrow> 's \<times> tc_position \<Rightarrow> (unit, 's \<times> tc_position) result"
  assumes head_ok: "ok s \<Longrightarrow> fst (head s) < 2 \<and> snd (head s) \<le> length (tape_of s (fst (head s)))"
    and write_law: "\<lbrakk>ok s; head s = (p, b); b + 2 < TAPE_BLOCK_MAX; 0 < length buf; length buf \<le> max_block s\<rbrakk> \<Longrightarrow>
      \<exists>s' pos'. wr buf (s, pos) = (Inr (length buf), s', pos') \<and> ok s' \<and> max_block s' = max_block s \<and>
        head s' = (p, b + 1) \<and> pos_block pos' = b + 1 \<and> pos_partition pos' = pos_partition pos \<and>
        tape_of s' = (tape_of s)(p := take b (tape_of s p) @ [Data buf])"
    and writefm_law: "\<lbrakk>ok s; head s = (p, b); b + n + 1 < TAPE_BLOCK_MAX; 0 < n\<rbrakk> \<Longrightarrow>
      \<exists>s' pos'. wfm n (s, pos) = (Inr (), s', pos') \<and> ok s' \<and> max_block s' = max_block s \<and>
        head s' = (p, b + n) \<and> pos_block pos' = b + n \<and> pos_partition pos' = pos_partition pos \<and>
        tape_of s' = (tape_of s)(p := take b (tape_of s p) @ replicate n Filemark)"
    and writefm0_law: "ok s \<Longrightarrow> wfm 0 (s, pos) = (Inr (), s, pos)"
    and read_law: "\<lbrakk>ok s; head s = (p, b)\<rbrakk> \<Longrightarrow>
      if b < length (tape_of s p)
      then \<exists>s' pos'. rd n (s, pos) = (Inr (case tape_of s p ! b of Data d \<Rightarrow> take n d | Filemark \<Rightarrow> []), s', pos') \<and>
        ok s' \<and> max_block s' = max_block s \<and> head s' = (p, b + 1) \<and> tape_of s' = tape_of s \<and>
        pos_block pos' = b + 1 \<and> pos_partition pos' = pos_partition pos
      else rd n (s, pos) = (Inl EDEV_EOD_DETECTED, s, pos)"
    and locate_law: "\<lbrakk>ok s; p < 2\<rbrakk> \<Longrightarrow>
      \<exists>s' pos'. loc p b (s, pos) = (Inr (), s', pos') \<and> ok s' \<and> max_block s' = max_block s \<and>
        tape_of s' = tape_of s \<and> head s' = (p, min b (length (tape_of s p))) \<and>
        pos_block pos' = min b (length (tape_of s p)) \<and> pos_partition pos' = p"
begin

lemma write_all_appends:
  assumes "ok s" and "head s = (p, b)" and "b + length bufs + 1 < TAPE_BLOCK_MAX"
    and "\<forall>d\<in>set bufs. 0 < length d \<and> length d \<le> max_block s" and "bufs \<noteq> []"
  shows "\<exists>s' pos'. write_all wr bufs (s, pos) = (Inr (), s', pos') \<and> ok s' \<and> max_block s' = max_block s \<and>
    head s' = (p, b + length bufs) \<and> tape_of s' = (tape_of s)(p := take b (tape_of s p) @ map Data bufs)"
  using assms
proof (induction bufs arbitrary: s pos b)
  case (Cons d bufs)
  obtain s1 pos1 where 1: "wr d (s, pos) = (Inr (length d), s1, pos1)" "ok s1" "max_block s1 = max_block s"
      "head s1 = (p, b + 1)" "tape_of s1 = (tape_of s)(p := take b (tape_of s p) @ [Data d])"
    using write_law [of s p b d pos] Cons.prems by auto
  have "b \<le> length (tape_of s p)" using head_ok [OF Cons.prems(1)] Cons.prems(2) by simp
  then have t: "take (b + 1) (tape_of s1 p) = take b (tape_of s p) @ [Data d]"
    using 1(5) by simp
  show ?case
  proof (cases "bufs = []")
    case True
    with 1 show ?thesis by auto
  next
    case False
    have "\<exists>s2 pos2. write_all wr bufs (s1, pos1) = (Inr (), s2, pos2) \<and> ok s2 \<and>
        max_block s2 = max_block s1 \<and> head s2 = (p, b + 1 + length bufs) \<and>
        tape_of s2 = (tape_of s1)(p := take (b + 1) (tape_of s1 p) @ map Data bufs)"
      by (rule Cons.IH) (use 1 Cons.prems False in auto)
    then show ?thesis using 1(1,3,5) t by (auto simp del: fun_upd_apply)
  qed
qed simp

lemma read_all_reads:
  assumes "ok s" and "head s = (p, b)" and "drop b (tape_of s p) = map Data bufs @ rest"
    and "\<forall>d\<in>set bufs. length d \<le> c"
  shows "\<exists>s' pos'. read_all rd (length bufs) c (s, pos) = (Inr bufs, s', pos') \<and> ok s'"
  using assms
proof (induction bufs arbitrary: s pos b)
  case (Cons d bufs)
  have b: "b < length (tape_of s p)" "tape_of s p ! b = Data d"
    using Cons.prems(3) by (auto simp: not_less nth_via_drop intro: ccontr)
  obtain s1 pos1 where 1: "rd c (s, pos) = (Inr d, s1, pos1)" "ok s1" "head s1 = (p, b + 1)" "tape_of s1 = tape_of s"
    using read_law [OF Cons.prems(1,2), of c pos] b Cons.prems(4) by auto
  have "drop (b + 1) (tape_of s1 p) = map Data bufs @ rest"
    using Cons.prems(3) 1(4) by (metis Suc_eq_plus1 append_Cons drop_Suc list.sel(3) list.simps(9) tl_drop)
  then obtain s2 pos2 where "read_all rd (length bufs) c (s1, pos1) = (Inr bufs, s2, pos2)" "ok s2"
    using Cons.IH [of s1 "b + 1" pos1] 1 Cons.prems(4) by auto
  with 1 show ?case by auto
qed auto

text \<open>What is written can be read back: the round trip of a driver.\<close>

lemma write_locate_read:
  assumes "ok s" and "head s = (p, b)" and "b + length bufs + 1 < TAPE_BLOCK_MAX"
    and "\<forall>d\<in>set bufs. 0 < length d \<and> length d \<le> max_block s" and "bufs \<noteq> []" and "max_block s \<le> c"
  shows "\<exists>s' pos'. rbind (write_all wr bufs (s, pos)) (\<lambda>_ s. rbind (loc p b s) (\<lambda>_. read_all rd (length bufs) c))
    = (Inr bufs, s', pos')"
proof -
  obtain s1 pos1 where 1: "write_all wr bufs (s, pos) = (Inr (), s1, pos1)" "ok s1"
      "tape_of s1 p = take b (tape_of s p) @ map Data bufs"
    using write_all_appends [OF assms(1-5)] by fastforce
  have hd: "p < 2" "b \<le> length (tape_of s p)" using head_ok [OF assms(1)] assms(2) by simp_all
  obtain s2 pos2 where 2: "loc p b (s1, pos1) = (Inr (), s2, pos2)" "ok s2" "tape_of s2 = tape_of s1"
      "head s2 = (p, b)"
    using locate_law [OF 1(2) hd(1), of b pos1] 1(3) hd(2) by auto
  have "drop b (tape_of s2 p) = map Data bufs @ []" using 2(3) 1(3) hd(2) by simp
  with read_all_reads [OF 2(2,4) this, of c pos2] assms(4,6) 1(1) 2(1) show ?thesis by force
qed

end

end
