(* ===== verification/Ltfs_Tape.thy ===== *)
theory Ltfs_Tape
  imports Ltfs_Tape_Ops Ltfs_Endian
begin

text \<open>
  The tape layer of libltfs, \<^verbatim>\<open>libltfs/tape.c\<close>: the state it keeps of a device beside the driver (head
  position, append positions, space and write-protect flags, the fence) and the functions that
  read, write, seek and access the cartridge memory through the driver's \<^verbatim>\<open>struct tape_ops\<close>.

  The driver is a parameter of every function; the locale \<open>tape_device\<close> states what the layer adds to a
  driver that satisfies the contract \<open>tape_driver\<close>, and \<open>Ltfs_Tape_File\<close> instantiates it with the file
  backend. The mutexes of the layer guard single assignments and are left out; the checks for null
  pointers are left out where the model's arguments cannot be null.
\<close>

section \<open>Device state\<close>

datatype part_space = PART_WRITABLE | PART_LESS_SPACE | PART_NO_SPACE

record 's device_data =
  position :: tc_position
  append_pos :: "nat \<Rightarrow> nat"
  max_block_size :: nat
  partition_space :: "nat \<Rightarrow> part_space"
  dev_write_protect :: bool
  write_error :: bool
  device_reserved :: bool
  medium_locked :: bool
  fence :: bool
  append_only_mode :: bool
  previous_exist :: "int \<times> int"
  backend_data :: 's

definition NEED_REVAL :: "err \<Rightarrow> bool" where
  "NEED_REVAL e \<longleftrightarrow> e = EDEV_POR_OR_BUS_RESET \<or> e = EDEV_MEDIUM_MAY_BE_CHANGED"

definition IS_UNEXPECTED_MOVE :: "err \<Rightarrow> bool" where
  "IS_UNEXPECTED_MOVE e \<longleftrightarrow> e = EDEV_MEDIUM_REMOVAL_REQ"

text \<open>A call of the driver with \<open>dev->backend_data\<close> and \<open>&dev->position\<close>, or with the data only.\<close>

definition on_pos :: "('s \<times> tc_position \<Rightarrow> ('a, 's \<times> tc_position) result) \<Rightarrow> 's device_data \<Rightarrow> ('a, 's device_data) result" where
  "on_pos f dev = (case f (backend_data dev, position dev) of
     (r, s, pos) \<Rightarrow> (r, dev\<lparr>backend_data := s, position := pos\<rparr>))"

definition on_data :: "('s \<Rightarrow> ('a, 's) result) \<Rightarrow> 's device_data \<Rightarrow> ('a, 's device_data) result" where
  "on_data f dev = (case f (backend_data dev) of (r, s) \<Rightarrow> (r, dev\<lparr>backend_data := s\<rparr>))"

section \<open>The device lock and its fence\<close>

text \<open>\<open>mutex_ok\<close> says whether the mutex could be locked.\<close>

definition tape_device_lock :: "bool \<Rightarrow> 's device_data \<Rightarrow> err + unit" where
  "tape_device_lock mutex_ok dev =
     (if \<not> mutex_ok then Inl LTFS_MUTEX_INVALID else if fence dev then Inl LTFS_DEVICE_FENCED else Inr ())"

definition tape_start_fence :: "'s device_data \<Rightarrow> 's device_data" where
  "tape_start_fence dev = dev\<lparr>fence := True\<rparr>"

definition tape_release_fence :: "'s device_data \<Rightarrow> 's device_data" where
  "tape_release_fence dev = dev\<lparr>fence := False\<rparr>"

section \<open>Reservation and medium lock\<close>

text \<open>A call repeated while the driver asks for a revalidation; \<open>None\<close> when that never stops.\<close>

partial_function (option) until_no_reval ::
    "('s device_data \<Rightarrow> (unit, 's device_data) result) \<Rightarrow> 's device_data \<Rightarrow> (unit, 's device_data) result option" where
  "until_no_reval f dev = (case f dev of
     (Inl e, dev) \<Rightarrow> if NEED_REVAL e then until_no_reval f dev else Some (Inl e, dev)
   | (Inr u, dev) \<Rightarrow> Some (Inr u, dev))"

definition tape_reserve_device :: "'s tape_ops \<Rightarrow> 's device_data \<Rightarrow> (unit, 's device_data) result option" where
  "tape_reserve_device ops dev =
     (if device_reserved dev then Some (Inr (), dev)
      else case until_no_reval (on_data (op_reserve_unit ops)) dev of
        None \<Rightarrow> None
      | Some (Inl e, dev) \<Rightarrow> Some (Inl e, dev)
      | Some (Inr _, dev) \<Rightarrow> Some (Inr (), dev\<lparr>device_reserved := True\<rparr>))"

definition tape_release_device :: "'s tape_ops \<Rightarrow> 's device_data \<Rightarrow> 's device_data option" where
  "tape_release_device ops dev =
     (if device_reserved dev
      then case until_no_reval (on_data (op_release_unit ops)) dev of
        None \<Rightarrow> None
      | Some (Inl _, dev) \<Rightarrow> Some (dev\<lparr>device_reserved := True\<rparr>)
      | Some (Inr _, dev) \<Rightarrow> Some (dev\<lparr>device_reserved := False\<rparr>)
      else Some dev)"

definition tape_prevent_medium_removal :: "'s tape_ops \<Rightarrow> 's device_data \<Rightarrow> (unit, 's device_data) result option" where
  "tape_prevent_medium_removal ops dev =
     (if medium_locked dev then Some (Inr (), dev)
      else case until_no_reval (on_data (op_prevent_medium_removal ops)) dev of
        None \<Rightarrow> None
      | Some (Inl e, dev) \<Rightarrow> Some (Inl e, dev)
      | Some (Inr _, dev) \<Rightarrow> Some (Inr (), dev\<lparr>medium_locked := True\<rparr>))"

definition tape_allow_medium_removal :: "'s tape_ops \<Rightarrow> bool \<Rightarrow> 's device_data \<Rightarrow> 's device_data option" where
  "tape_allow_medium_removal ops force_release dev =
     (if medium_locked dev \<or> force_release
      then case until_no_reval (on_data (op_allow_medium_removal ops)) dev of
        None \<Rightarrow> None
      | Some (Inl _, dev) \<Rightarrow> Some (dev\<lparr>medium_locked := True\<rparr>)
      | Some (Inr _, dev) \<Rightarrow> Some (dev\<lparr>medium_locked := False\<rparr>)
      else Some dev)"

text \<open>\<open>diff_sec\<close> are the seconds since the last test.\<close>

definition tape_test_unit_ready :: "'s tape_ops \<Rightarrow> int \<times> int \<Rightarrow> int \<Rightarrow> 's device_data \<Rightarrow> (unit, 's device_data) result" where
  "tape_test_unit_ready ops now diff_sec dev =
     (if diff_sec = 0 then (Inr (), dev)
      else (op_test_unit_ready ops (backend_data dev), dev\<lparr>previous_exist := now\<rparr>))"

section \<open>Position\<close>

definition tape_get_append_position :: "nat \<Rightarrow> 's device_data \<Rightarrow> err + nat" where
  "tape_get_append_position prt dev = (if prt > 1 then Inl LTFS_BAD_PARTNUM else Inr (append_pos dev prt))"

definition tape_set_append_position :: "nat \<Rightarrow> nat \<Rightarrow> 's device_data \<Rightarrow> (unit, 's device_data) result" where
  "tape_set_append_position prt blk dev =
     (if prt > 1 then (Inl LTFS_BAD_PARTNUM, dev) else (Inr (), dev\<lparr>append_pos := (append_pos dev)(prt := blk)\<rparr>))"

text \<open>The space flags that follow from the warnings of the position.\<close>

definition note_warning :: "'s device_data \<Rightarrow> 's device_data" where
  "note_warning dev =
     (let p = pos_partition (position dev);
          dev = (if early_warning (position dev)
                 then dev\<lparr>partition_space := (partition_space dev)(p := PART_NO_SPACE)\<rparr> else dev)
      in if partition_space dev p \<noteq> PART_NO_SPACE \<and> programmable_early_warning (position dev)
         then dev\<lparr>partition_space := (partition_space dev)(p := PART_LESS_SPACE)\<rparr> else dev)"

definition tape_seek :: "'s tape_ops \<Rightarrow> nat \<Rightarrow> nat \<Rightarrow> 's device_data \<Rightarrow> (unit, 's device_data) result" where
  "tape_seek ops prt blk dev =
     rbind (if prt = pos_partition (position dev) \<and> blk = pos_block (position dev) then (Inr (), dev)
            else rbind (on_pos (op_locate ops prt blk) dev) (\<lambda>_ dev. (Inr (), note_warning dev)))
       (\<lambda>_ dev. if pos_partition (position dev) \<noteq> prt \<or> (blk \<noteq> TAPE_BLOCK_MAX \<and> blk \<noteq> pos_block (position dev))
               then (Inl LTFS_BAD_LOCATE, dev) else (Inr (), dev))"

definition tape_seek_append_position :: "'s tape_ops \<Rightarrow> nat \<Rightarrow> bool \<Rightarrow> 's device_data \<Rightarrow> (unit, 's device_data) result" where
  "tape_seek_append_position ops prt unlock_write dev =
     (let blk = (if append_pos dev prt = 0 then TAPE_BLOCK_MAX else append_pos dev prt) in
      rbind (tape_seek ops prt blk dev) (\<lambda>_ dev.
      let (ret, dev) = (if unlock_write \<and> append_only_mode dev \<and> blk \<noteq> TAPE_BLOCK_MAX
                        then on_data (op_allow_overwrite ops (position dev)) dev else (Inr (), dev))
      in (ret, if append_pos dev prt = 0
               then dev\<lparr>append_pos := (append_pos dev)(prt := pos_block (position dev))\<rparr> else dev)))"

definition tape_seek_eod :: "'s tape_ops \<Rightarrow> nat \<Rightarrow> 's device_data \<Rightarrow> (unit, 's device_data) result" where
  "tape_seek_eod ops prt dev =
     (if prt > 1 then (Inl LTFS_BAD_PARTNUM, dev)
      else rbind (on_pos (op_locate ops prt TAPE_BLOCK_MAX) dev) (\<lambda>_ dev.
        if prt \<noteq> pos_partition (position dev) then (Inl LTFS_BAD_LOCATE, dev)
        else let dev = note_warning dev in
          (Inr (), dev\<lparr>append_pos := (append_pos dev)(prt := pos_block (position dev))\<rparr>)))"

definition tape_rewind :: "'s tape_ops \<Rightarrow> 's device_data \<Rightarrow> (unit, 's device_data) result" where
  "tape_rewind ops dev = on_pos (op_rewind ops) dev"

definition tape_get_position :: "'s device_data \<Rightarrow> tc_position" where
  "tape_get_position dev = position dev"

definition tape_update_position :: "'s tape_ops \<Rightarrow> 's device_data \<Rightarrow> (tc_position, 's device_data) result" where
  "tape_update_position ops dev = rbind (on_pos (op_readpos ops) dev) (\<lambda>_ dev. (Inr (position dev), dev))"

definition tape_spacefm :: "'s tape_ops \<Rightarrow> int \<Rightarrow> 's device_data \<Rightarrow> (unit, 's device_data) result option" where
  "tape_spacefm ops count dev =
     (case (if count > 0 then op_space ops (nat count) TC_SPACE_FM_F (backend_data dev, position dev)
            else op_space ops (nat (- count)) TC_SPACE_FM_B (backend_data dev, position dev)) of
        None \<Rightarrow> None
      | Some (r, s, pos) \<Rightarrow> Some (r, dev\<lparr>backend_data := s, position := pos\<rparr>))"

section \<open>Read-only state\<close>

definition tape_get_max_blocksize :: "'s tape_ops \<Rightarrow> 's device_data \<Rightarrow> err + nat" where
  "tape_get_max_blocksize ops dev =
     (case op_get_parameters ops (backend_data dev) of Inl e \<Rightarrow> Inl e | Inr p \<Rightarrow> Inr (max_blksize p))"

definition tape_logically_read_only :: "'s tape_ops \<Rightarrow> 's device_data \<Rightarrow> err + bool" where
  "tape_logically_read_only ops dev =
     (case op_get_parameters ops (backend_data dev) of Inl e \<Rightarrow> Inl e | Inr p \<Rightarrow> Inr (logical_write_protect p))"

definition tape_read_only :: "nat \<Rightarrow> 's device_data \<Rightarrow> err + unit" where
  "tape_read_only prt dev =
     (if dev_write_protect dev then Inl LTFS_WRITE_PROTECT
      else if write_error dev then Inl LTFS_WRITE_ERROR
      else case partition_space dev prt of
        PART_WRITABLE \<Rightarrow> Inr () | PART_LESS_SPACE \<Rightarrow> Inl LTFS_LESS_SPACE | PART_NO_SPACE \<Rightarrow> Inl LTFS_NO_SPACE)"

definition tape_force_read_only :: "'s device_data \<Rightarrow> 's device_data" where
  "tape_force_read_only dev = dev\<lparr>dev_write_protect := True\<rparr>"

section \<open>Cartridge memory\<close>

definition EWSTATE_SET :: byte where "EWSTATE_SET = 1"
definition EWSTATE_CLEAR :: byte where "EWSTATE_CLEAR = 0"

text \<open>The buffer of attribute \<open>0x1500\<close>, signed \<open>HPE\<close>.\<close>

definition ewstate_buf :: "byte \<Rightarrow> byte list" where
  "ewstate_buf ewstate = [0x15, 0, 0, 0, 4, 0x48, 0x50, 0x45, ewstate]"

definition tape_set_ewstate :: "'s tape_ops \<Rightarrow> byte \<Rightarrow> 's device_data \<Rightarrow> (unit, 's device_data) result" where
  "tape_set_ewstate ops ewstate dev = on_data (op_write_attribute ops 0 (ewstate_buf ewstate)) dev"

definition tape_remove_ewstate :: "'s tape_ops \<Rightarrow> 's device_data \<Rightarrow> (unit, 's device_data) result" where
  "tape_remove_ewstate ops dev = on_data (op_write_attribute ops 0 [0x15, 0, 0, 0, 0]) dev"

definition tape_get_ewstate :: "'s tape_ops \<Rightarrow> 's device_data \<Rightarrow> err + byte" where
  "tape_get_ewstate ops dev =
     (case op_read_attribute ops 0 0x1500 9 (backend_data dev) of
        Inl _ \<Rightarrow> Inr 0
      | Inr buf \<Rightarrow>
          if length buf < 9 then Inl OUT_OF_BOUNDS
          else if buf ! 0 = 0x15 \<and> buf ! 1 = 0 \<and> buf ! 5 = 0x48 \<and> buf ! 6 = 0x50 \<and> buf ! 7 = 0x45
          then Inr (buf ! 8) else Inr EWSTATE_CLEAR)"

text \<open>The volume change reference; \<open>2 ^ 64 - 1\<close> stands for one that cannot be used.\<close>

definition tape_get_volume_change_reference :: "'s tape_ops \<Rightarrow> 's device_data \<Rightarrow> (err + unit) \<times> nat" where
  "tape_get_volume_change_reference ops dev =
     (case op_read_attribute ops 0 9 9 (backend_data dev) of
        Inl e \<Rightarrow> (Inl e, U64 - 1)
      | Inr buf \<Rightarrow> (case ltfs_betou32 (drop 5 buf) of
            None \<Rightarrow> (Inl OUT_OF_BOUNDS, 0)
          | Some v \<Rightarrow> (Inr (), if unat v = U32 - 1 then U64 - 1 else unat v)))"

record tc_coherency =
  volume_change_ref :: u64
  count :: u64
  set_id :: u64
  uuid :: "byte list"
  version :: byte

definition LTFS_tag :: "byte list" where
  "LTFS_tag = [0x4C, 0x54, 0x46, 0x53, 0]"

definition coherency_buf :: "tc_coherency \<Rightarrow> byte list" where
  "coherency_buf coh =
     ltfs_u16tobe 0x080C @ [0] @ ltfs_u16tobe 0x46 @ [8] @ ltfs_u64tobe (volume_change_ref coh) @
     ltfs_u64tobe (count coh) @ ltfs_u64tobe (set_id coh) @ [0, 43] @ LTFS_tag @ take 37 (uuid coh) @ [version coh]"

definition tape_set_cart_coherency :: "'s tape_ops \<Rightarrow> nat \<Rightarrow> tc_coherency \<Rightarrow> 's device_data \<Rightarrow> (unit, 's device_data) result" where
  "tape_set_cart_coherency ops part coh dev = on_data (op_write_attribute ops part (coherency_buf coh)) dev"

text \<open>The parts of the attribute as the source reads them; \<open>None\<close> is a read behind the buffer.\<close>

definition parse_coherency :: "byte list \<Rightarrow> (err + tc_coherency) option" where
  "parse_coherency buf =
     (case (ltfs_betou16 buf, ltfs_betou16 (drop 3 buf), ltfs_betou64 (drop 6 buf), ltfs_betou64 (drop 14 buf),
            ltfs_betou64 (drop 22 buf), ltfs_betou16 (drop 30 buf)) of
        (Some i, Some len, Some vcr, Some cnt, Some sid, Some ap_len) \<Rightarrow>
          if length buf < 75 then None
          else if i \<noteq> 0x080C then Some (Inl LTFS_UNEXPECTED_VALUE)
          else if len \<noteq> 0x46 then Some (Inl LTFS_UNEXPECTED_VALUE)
          else if buf ! 5 \<noteq> 8 then Some (Inl LTFS_UNEXPECTED_VALUE)
          else if ap_len \<noteq> 42 \<and> ap_len \<noteq> 43 then Some (Inl LTFS_UNEXPECTED_VALUE)
          else if take 5 (drop 32 buf) \<noteq> LTFS_tag then Some (Inl LTFS_UNEXPECTED_VALUE)
          else Some (Inr \<lparr>volume_change_ref = vcr, count = cnt, set_id = sid,
                          uuid = take 37 (drop 37 buf), version = buf ! 74\<rparr>)
      | _ \<Rightarrow> None)"

definition tape_get_cart_coherency :: "'s tape_ops \<Rightarrow> nat \<Rightarrow> 's device_data \<Rightarrow> err + tc_coherency" where
  "tape_get_cart_coherency ops part dev =
     (case op_read_attribute ops part 0x080C 75 (backend_data dev) of
        Inl e \<Rightarrow> Inl e
      | Inr buf \<Rightarrow> (case parse_coherency buf of None \<Rightarrow> Inl OUT_OF_BOUNDS | Some r \<Rightarrow> r))"

section \<open>Reading and writing\<close>

definition tape_write :: "'s tape_ops \<Rightarrow> byte list \<Rightarrow> bool \<Rightarrow> bool \<Rightarrow> 's device_data \<Rightarrow> (nat, 's device_data) result" where
  "tape_write ops buf ignore_less ignore_nospc dev =
     (let space = partition_space dev (pos_partition (position dev)) in
      if dev_write_protect dev then (Inl LTFS_WRITE_PROTECT, dev)
      else if write_error dev then (Inl LTFS_WRITE_ERROR, dev)
      else if space = PART_NO_SPACE \<and> \<not> ignore_nospc then (Inl LTFS_NO_SPACE, dev)
      else if space = PART_LESS_SPACE \<and> \<not> ignore_less then (Inl LTFS_LESS_SPACE, dev)
      else if length buf > max_block_size dev then (Inl LTFS_LARGE_BLOCKSIZE, dev)
      else case on_pos (op_write ops buf) dev of
        (Inl e, dev) \<Rightarrow> (Inl e, if NEED_REVAL e then dev else dev\<lparr>write_error := True\<rparr>)
      | (Inr _, dev) \<Rightarrow>
          let p = pos_partition (position dev);
              (ret, dev) =
                (if early_warning (position dev)
                 then (if ignore_nospc then Inr (length buf) else Inl LTFS_NO_SPACE,
                       snd (tape_set_ewstate ops EWSTATE_SET
                         (dev\<lparr>partition_space := (partition_space dev)(p := PART_NO_SPACE)\<rparr>)))
                 else if programmable_early_warning (position dev)
                 then (if ignore_less then Inr (length buf) else Inl LTFS_LESS_SPACE,
                       dev\<lparr>partition_space := (partition_space dev)(p := PART_LESS_SPACE)\<rparr>)
                 else (Inr (length buf), dev))
          in (ret, dev\<lparr>append_pos := (append_pos dev)(p := pos_block (position dev))\<rparr>))"

definition tape_write_filemark :: "'s tape_ops \<Rightarrow> nat \<Rightarrow> bool \<Rightarrow> bool \<Rightarrow> 's device_data \<Rightarrow> (unit, 's device_data) result" where
  "tape_write_filemark ops n ignore_less ignore_nospc dev =
     (let space = partition_space dev (pos_partition (position dev)) in
      if dev_write_protect dev then (Inl LTFS_WRITE_PROTECT, dev)
      else if write_error dev then (Inl LTFS_WRITE_ERROR, dev)
      else if space = PART_NO_SPACE \<and> \<not> ignore_nospc then (Inl LTFS_NO_SPACE, dev)
      else if space = PART_LESS_SPACE \<and> \<not> ignore_less then (Inl LTFS_LESS_SPACE, dev)
      else case on_pos (op_writefm ops n) dev of
        (Inl e, dev) \<Rightarrow> (Inl e, if NEED_REVAL e then dev else dev\<lparr>write_error := True\<rparr>)
      | (Inr _, dev) \<Rightarrow>
          let p = pos_partition (position dev);
              (ret, dev) =
                (if early_warning (position dev)
                 then (if ignore_nospc then Inr () else Inl LTFS_NO_SPACE,
                       dev\<lparr>partition_space := (partition_space dev)(p := PART_NO_SPACE)\<rparr>)
                 else if programmable_early_warning (position dev)
                 then (if ignore_less then Inr () else Inl LTFS_LESS_SPACE,
                       dev\<lparr>partition_space := (partition_space dev)(p := PART_LESS_SPACE)\<rparr>)
                 else (Inr (), dev))
          in (ret, dev\<lparr>append_pos := (append_pos dev)(p := pos_block (position dev))\<rparr>))"

text \<open>
  \<open>rekey\<close> is what the key manager does with the device when a block is encrypted: whether it set a key,
  and the device after it; \<open>None\<close> when there is no key manager.
\<close>

definition tape_read ::
    "'s tape_ops \<Rightarrow> ('s device_data \<Rightarrow> bool \<times> 's device_data) option \<Rightarrow> nat \<Rightarrow> bool \<Rightarrow> 's device_data \<Rightarrow>
     (byte list, 's device_data) result" where
  "tape_read ops rekey n unusual_size dev =
     (case on_pos (op_read ops n unusual_size) dev of
        (Inr d, dev) \<Rightarrow> (Inr d, dev)
      | (Inl e, dev) \<Rightarrow>
          (case rekey of
             None \<Rightarrow> (Inl e, dev)
           | Some f \<Rightarrow>
               if e = EDEV_CRYPTO_ERROR \<or> e = EDEV_KEY_REQUIRED
               then case f dev of (True, dev) \<Rightarrow> on_pos (op_read ops n unusual_size) dev | (False, dev) \<Rightarrow> (Inl e, dev)
               else (Inl e, dev)))"

section \<open>Attributes of the application\<close>

text \<open>A call through a null pointer is \<open>NULL_CALL\<close>.\<close>

definition tape_update_mam_attributes :: "'s tape_ops \<Rightarrow> nat \<Rightarrow> 's device_data \<Rightarrow> (unit, 's device_data) result" where
  "tape_update_mam_attributes ops attribute_id dev =
     (case op_update_mam_attr ops of None \<Rightarrow> (Inl NULL_CALL, dev) | Some f \<Rightarrow> on_data (f attribute_id) dev)"

definition TC_MAM_APP_FORMAT_VERSION :: nat where "TC_MAM_APP_FORMAT_VERSION = 0x080B"

text \<open>The case \<open>TC_MAM_APP_FORMAT_VERSION\<close> of \<^verbatim>\<open>tape_get_MAMattributes\<close>: 16 bytes behind the header, from a buffer of zeros.\<close>

definition tape_get_app_format_version :: "'s tape_ops \<Rightarrow> nat \<Rightarrow> 's device_data \<Rightarrow> err + byte list" where
  "tape_get_app_format_version ops part dev =
     (case op_read_attribute ops part TC_MAM_APP_FORMAT_VERSION 30 (backend_data dev) of
        Inl e \<Rightarrow> Inl e | Inr buf \<Rightarrow> Inr (take 16 (drop 5 (buf @ replicate 40 0))))"

text \<open>The first test of \<^verbatim>\<open>tape_device_open\<close>: no function of the driver may be missing.\<close>

definition tape_ops_complete :: "'s tape_ops \<Rightarrow> err + unit" where
  "tape_ops_complete ops = (if op_update_mam_attr ops = None then Inl LTFS_PLUGIN_INCOMPLETE else Inr ())"

section \<open>What the layer adds to a driver\<close>

text \<open>The driver's invariant holds and the position that the layer keeps is the one of the head.\<close>

definition in_step :: "('s \<Rightarrow> bool) \<Rightarrow> ('s \<Rightarrow> nat \<times> nat) \<Rightarrow> 's device_data \<Rightarrow> bool" where
  "in_step ok head dev \<longleftrightarrow> ok (backend_data dev) \<and>
     head (backend_data dev) = (pos_partition (position dev), pos_block (position dev))"

lemma note_warning_sel [simp]:
  "position (note_warning dev) = position dev" "backend_data (note_warning dev) = backend_data dev"
  "append_pos (note_warning dev) = append_pos dev" "write_error (note_warning dev) = write_error dev"
  "dev_write_protect (note_warning dev) = dev_write_protect dev" "max_block_size (note_warning dev) = max_block_size dev"
  "append_only_mode (note_warning dev) = append_only_mode dev" "fence (note_warning dev) = fence dev"
  by (simp_all add: note_warning_def Let_def)

lemma on_data_sel:
  "position (snd (on_data f dev)) = position dev" "backend_data (snd (on_data f dev)) = snd (f (backend_data dev))"
  "append_pos (snd (on_data f dev)) = append_pos dev" "write_error (snd (on_data f dev)) = write_error dev"
  "dev_write_protect (snd (on_data f dev)) = dev_write_protect dev" "max_block_size (snd (on_data f dev)) = max_block_size dev"
  "fence (snd (on_data f dev)) = fence dev" "append_only_mode (snd (on_data f dev)) = append_only_mode dev"
  by (simp_all add: on_data_def split: prod.splits)

lemma tape_set_ewstate_sel:
  "position (snd (tape_set_ewstate ops e dev)) = position dev"
  "append_pos (snd (tape_set_ewstate ops e dev)) = append_pos dev"
  "write_error (snd (tape_set_ewstate ops e dev)) = write_error dev"
  "dev_write_protect (snd (tape_set_ewstate ops e dev)) = dev_write_protect dev"
  "max_block_size (snd (tape_set_ewstate ops e dev)) = max_block_size dev"
  "fence (snd (tape_set_ewstate ops e dev)) = fence dev"
  "append_only_mode (snd (tape_set_ewstate ops e dev)) = append_only_mode dev"
  "backend_data (snd (tape_set_ewstate ops e dev)) = snd (op_write_attribute ops 0 (ewstate_buf e) (backend_data dev))"
  by (simp_all add: tape_set_ewstate_def on_data_sel)

locale tape_device =
  tape_driver ok tape_of head max_block "op_write ops" "op_writefm ops" "\<lambda>n. op_read ops n False" "op_locate ops"
  for ok :: "'s \<Rightarrow> bool" and tape_of head max_block and ops :: "'s tape_ops" +
  assumes read_any_size: "op_read ops n True = op_read ops n False"
    and attr_keeps: "snd (op_write_attribute ops part buf s) = s' \<Longrightarrow>
      ok s' = ok s \<and> tape_of s' = tape_of s \<and> head s' = head s \<and> max_block s' = max_block s"
    and attr_law: "\<lbrakk>ltfs_betou16 buf = Some i; ltfs_betou16 (drop 3 buf) = Some sz; length buf = unat sz + 5\<rbrakk> \<Longrightarrow>
      \<exists>s'. op_write_attribute ops part buf s = (Inr (), s') \<and> op_read_attribute ops part (unat i) (length buf) s' = Inr buf"
begin

lemma seek_ok:
  assumes ok: "in_step ok head dev" and p: "prt < 2" and len: "length (tape_of (backend_data dev) prt) < TAPE_BLOCK_MAX"
    and blk: "blk \<le> length (tape_of (backend_data dev) prt) \<or> blk = TAPE_BLOCK_MAX"
  shows "\<exists>dev'. tape_seek ops prt blk dev = (Inr (), dev') \<and> in_step ok head dev' \<and>
    tape_of (backend_data dev') = tape_of (backend_data dev) \<and> max_block (backend_data dev') = max_block (backend_data dev) \<and>
    pos_partition (position dev') = prt \<and> pos_block (position dev') = min blk (length (tape_of (backend_data dev) prt)) \<and>
    append_pos dev' = append_pos dev \<and> write_error dev' = write_error dev \<and>
    dev_write_protect dev' = dev_write_protect dev \<and> max_block_size dev' = max_block_size dev \<and>
    append_only_mode dev' = append_only_mode dev \<and> fence dev' = fence dev"
proof (cases "prt = pos_partition (position dev) \<and> blk = pos_block (position dev)")
  case True
  have "pos_block (position dev) \<le> length (tape_of (backend_data dev) prt)"
    using head_ok [of "backend_data dev"] ok True by (auto simp: in_step_def)
  with True ok len show ?thesis by (auto simp: tape_seek_def)
next
  case False
  obtain s' pos' where l: "op_locate ops prt blk (backend_data dev, position dev) = (Inr (), s', pos')"
      "ok s'" "max_block s' = max_block (backend_data dev)" "tape_of s' = tape_of (backend_data dev)"
      "head s' = (prt, min blk (length (tape_of (backend_data dev) prt)))"
      "pos_block pos' = min blk (length (tape_of (backend_data dev) prt))" "pos_partition pos' = prt"
    using locate_law [of "backend_data dev" prt blk "position dev"] ok p by (auto simp: in_step_def)
  then have "pos_partition pos' = prt \<and> (blk = TAPE_BLOCK_MAX \<or> blk = pos_block pos')" using blk by auto
  with l False show ?thesis
    by (auto simp: tape_seek_def on_pos_def in_step_def)
qed

lemma seek_append_ok:
  assumes ok: "in_step ok head dev" and p: "prt < 2" and len: "length (tape_of (backend_data dev) prt) < TAPE_BLOCK_MAX"
    and ap: "append_pos dev prt \<le> length (tape_of (backend_data dev) prt)" and aom: "\<not> append_only_mode dev \<or> \<not> u"
  defines "b \<equiv> if append_pos dev prt = 0 then length (tape_of (backend_data dev) prt) else append_pos dev prt"
  shows "\<exists>dev'. tape_seek_append_position ops prt u dev = (Inr (), dev') \<and> in_step ok head dev' \<and>
    tape_of (backend_data dev') = tape_of (backend_data dev) \<and> max_block (backend_data dev') = max_block (backend_data dev) \<and>
    pos_partition (position dev') = prt \<and> pos_block (position dev') = b \<and> append_pos dev' = (append_pos dev)(prt := b) \<and>
    write_error dev' = write_error dev \<and> dev_write_protect dev' = dev_write_protect dev \<and>
    max_block_size dev' = max_block_size dev \<and> append_only_mode dev' = append_only_mode dev \<and> fence dev' = fence dev"
proof -
  let ?blk = "if append_pos dev prt = 0 then TAPE_BLOCK_MAX else append_pos dev prt"
  have "?blk \<le> length (tape_of (backend_data dev) prt) \<or> ?blk = TAPE_BLOCK_MAX" using ap by simp
  from seek_ok [OF ok p len this] obtain dev' where
    s: "tape_seek ops prt ?blk dev = (Inr (), dev')" "in_step ok head dev'"
      "tape_of (backend_data dev') = tape_of (backend_data dev)" "max_block (backend_data dev') = max_block (backend_data dev)"
      "pos_partition (position dev') = prt" "pos_block (position dev') = min ?blk (length (tape_of (backend_data dev) prt))"
      "append_pos dev' = append_pos dev" "write_error dev' = write_error dev"
      "dev_write_protect dev' = dev_write_protect dev" "max_block_size dev' = max_block_size dev"
      and aom': "append_only_mode dev' = append_only_mode dev" "fence dev' = fence dev"
    by blast
  have b: "pos_block (position dev') = b" using s(6) len ap by (simp add: b_def)
  have "tape_seek_append_position ops prt u dev = (Inr (), if append_pos dev' prt = 0
      then dev'\<lparr>append_pos := (append_pos dev')(prt := pos_block (position dev'))\<rparr> else dev')"
    using s(1) aom aom' by (auto simp: tape_seek_append_position_def Let_def)
  with s b aom' show ?thesis by (auto simp: in_step_def b_def fun_upd_idem)
qed

text \<open>
  A write that the layer lets through puts the block on the tape and moves the append position behind
  it, also when the result is an out-of-space condition.
\<close>

lemma write_ok:
  assumes ok: "in_step ok head dev" and b: "pos_block (position dev) + 2 < TAPE_BLOCK_MAX"
    and flags: "\<not> dev_write_protect dev" "\<not> write_error dev"
    and space: "partition_space dev (pos_partition (position dev)) = PART_NO_SPACE \<Longrightarrow> ignore_nospc"
      "partition_space dev (pos_partition (position dev)) = PART_LESS_SPACE \<Longrightarrow> ignore_less"
    and buf: "0 < length buf" "length buf \<le> max_block_size dev" "length buf \<le> max_block (backend_data dev)"
  defines "p \<equiv> pos_partition (position dev)" and "n \<equiv> pos_block (position dev)"
  shows "\<exists>r dev'. tape_write ops buf ignore_less ignore_nospc dev = (r, dev') \<and> in_step ok head dev' \<and>
    tape_of (backend_data dev') = (tape_of (backend_data dev))(p := take n (tape_of (backend_data dev) p) @ [Data buf]) \<and>
    max_block (backend_data dev') = max_block (backend_data dev) \<and> max_block_size dev' = max_block_size dev \<and>
    pos_partition (position dev') = p \<and> pos_block (position dev') = n + 1 \<and> append_pos dev' = (append_pos dev)(p := n + 1) \<and>
    \<not> write_error dev' \<and> \<not> dev_write_protect dev' \<and>
    append_only_mode dev' = append_only_mode dev \<and> fence dev' = fence dev \<and>
    (r = Inr (length buf) \<or>
     r = Inl LTFS_NO_SPACE \<and> \<not> ignore_nospc \<and> partition_space dev' p = PART_NO_SPACE \<or>
     r = Inl LTFS_LESS_SPACE \<and> \<not> ignore_less \<and> partition_space dev' p = PART_LESS_SPACE)"
proof -
  obtain s' pos' where w: "op_write ops buf (backend_data dev, position dev) = (Inr (length buf), s', pos')"
      "ok s'" "max_block s' = max_block (backend_data dev)" "head s' = (p, n + 1)" "pos_block pos' = n + 1"
      "pos_partition pos' = p" "tape_of s' = (tape_of (backend_data dev))(p := take n (tape_of (backend_data dev) p) @ [Data buf])"
    using write_law [of "backend_data dev" p n buf "position dev"] ok b buf
    by (auto simp: in_step_def p_def n_def)
  let ?d = "dev\<lparr>backend_data := s', position := pos'\<rparr>"
  have pass: "tape_write ops buf ignore_less ignore_nospc dev =
      (let (ret, dev) =
         (if early_warning pos'
          then (if ignore_nospc then Inr (length buf) else Inl LTFS_NO_SPACE,
                snd (tape_set_ewstate ops EWSTATE_SET (?d\<lparr>partition_space := (partition_space dev)(p := PART_NO_SPACE)\<rparr>)))
          else if programmable_early_warning pos'
          then (if ignore_less then Inr (length buf) else Inl LTFS_LESS_SPACE,
                ?d\<lparr>partition_space := (partition_space dev)(p := PART_LESS_SPACE)\<rparr>)
          else (Inr (length buf), ?d))
       in (ret, dev\<lparr>append_pos := (append_pos dev)(p := pos_block (position dev))\<rparr>))"
  proof -
    have "\<not> (partition_space dev p = PART_NO_SPACE \<and> \<not> ignore_nospc)"
        "\<not> (partition_space dev p = PART_LESS_SPACE \<and> \<not> ignore_less)" "\<not> length buf > max_block_size dev"
      using space buf by (auto simp: p_def)
    then show ?thesis
      unfolding tape_write_def Let_def on_pos_def p_def [symmetric] using flags w by (simp only: if_False) simp
  qed
  have ew: "partition_space (snd (tape_set_ewstate ops e d)) = partition_space d" for e d
    by (simp add: tape_set_ewstate_def on_data_def split: prod.splits)
  show ?thesis
    unfolding pass using w flags attr_keeps [of 0 "ewstate_buf EWSTATE_SET" s', OF refl]
    by (auto simp: tape_set_ewstate_sel ew in_step_def)
qed

text \<open>Filemarks that the index writer writes (both space warnings ignored); none of them flushes only.\<close>

lemma writefm_ok:
  assumes ok: "in_step ok head dev" and b: "pos_block (position dev) + k + 1 < TAPE_BLOCK_MAX"
    and flags: "\<not> dev_write_protect dev" "\<not> write_error dev"
  defines "p \<equiv> pos_partition (position dev)" and "n \<equiv> pos_block (position dev)"
  shows "\<exists>dev'. tape_write_filemark ops k True True dev = (Inr (), dev') \<and> in_step ok head dev' \<and>
    tape_of (backend_data dev') = (if k = 0 then tape_of (backend_data dev)
      else (tape_of (backend_data dev))(p := take n (tape_of (backend_data dev) p) @ replicate k Filemark)) \<and>
    max_block (backend_data dev') = max_block (backend_data dev) \<and> max_block_size dev' = max_block_size dev \<and>
    pos_partition (position dev') = p \<and> pos_block (position dev') = n + k \<and> append_pos dev' = (append_pos dev)(p := n + k) \<and>
    \<not> write_error dev' \<and> \<not> dev_write_protect dev' \<and>
    append_only_mode dev' = append_only_mode dev \<and> fence dev' = fence dev"
proof -
  have "\<exists>s' pos'. op_writefm ops k (backend_data dev, position dev) = (Inr (), s', pos') \<and>
      ok s' \<and> max_block s' = max_block (backend_data dev) \<and> head s' = (p, n + k) \<and> pos_block pos' = n + k \<and>
      pos_partition pos' = p \<and> tape_of s' = (if k = 0 then tape_of (backend_data dev)
        else (tape_of (backend_data dev))(p := take n (tape_of (backend_data dev) p) @ replicate k Filemark))"
    using writefm_law [of "backend_data dev" p n k "position dev"] writefm0_law [of "backend_data dev" "position dev"] ok b
    by (cases "k = 0") (auto simp: in_step_def p_def n_def)
  then obtain s' pos' where w: "op_writefm ops k (backend_data dev, position dev) = (Inr (), s', pos')"
      "ok s'" "max_block s' = max_block (backend_data dev)" "head s' = (p, n + k)" "pos_block pos' = n + k"
      "pos_partition pos' = p" "tape_of s' = (if k = 0 then tape_of (backend_data dev)
        else (tape_of (backend_data dev))(p := take n (tape_of (backend_data dev) p) @ replicate k Filemark))"
    by blast
  have pass: "tape_write_filemark ops k True True dev = (Inr (), let d = dev\<lparr>backend_data := s', position := pos'\<rparr>;
      d = (if early_warning pos' then d\<lparr>partition_space := (partition_space d)(p := PART_NO_SPACE)\<rparr>
           else if programmable_early_warning pos' then d\<lparr>partition_space := (partition_space d)(p := PART_LESS_SPACE)\<rparr> else d)
      in d\<lparr>append_pos := (append_pos dev)(p := n + k)\<rparr>)"
    using flags w by (simp add: tape_write_filemark_def on_pos_def Let_def)
  show ?thesis
    unfolding pass using w flags by (simp add: Let_def in_step_def)
qed

text \<open>Reading the block under the head returns it and moves the head behind it.\<close>

lemma read_ok:
  assumes ok: "in_step ok head dev" and d: "pos_block (position dev) < length (tape_of (backend_data dev) (pos_partition (position dev)))"
    and r: "tape_of (backend_data dev) (pos_partition (position dev)) ! pos_block (position dev) = Data d"
  shows "\<exists>dev'. tape_read ops rekey n u dev = (Inr (take n d), dev') \<and> in_step ok head dev' \<and>
    tape_of (backend_data dev') = tape_of (backend_data dev) \<and> max_block (backend_data dev') = max_block (backend_data dev) \<and>
    pos_partition (position dev') = pos_partition (position dev) \<and> pos_block (position dev') = pos_block (position dev) + 1 \<and>
    append_pos dev' = append_pos dev \<and> write_error dev' = write_error dev \<and> dev_write_protect dev' = dev_write_protect dev \<and>
    max_block_size dev' = max_block_size dev \<and> append_only_mode dev' = append_only_mode dev \<and> fence dev' = fence dev"
proof -
  have "op_read ops n u = op_read ops n False" using read_any_size by (cases u) auto
  then show ?thesis
    using read_law [of "backend_data dev" "pos_partition (position dev)" "pos_block (position dev)" n "position dev"] ok d r
    by (auto simp: tape_read_def on_pos_def in_step_def)
qed

text \<open>The coherency attribute that is set is the one that is read back.\<close>

lemma coherency_ok:
  assumes "length (uuid coh) = 37"
  shows "\<exists>dev'. tape_set_cart_coherency ops part coh dev = (Inr (), dev') \<and>
    tape_get_cart_coherency ops part dev' = Inr coh"
proof -
  let ?buf = "coherency_buf coh"
  have len: "length ?buf = 75" using assms by (simp add: coherency_buf_def LTFS_tag_def)
  have d3: "drop 3 ?buf = ltfs_u16tobe 0x46 @ drop 5 ?buf" by (simp add: coherency_buf_def)
  have h: "ltfs_betou16 ?buf = Some 0x080C" by (simp add: coherency_buf_def)
  have "length ?buf = unat (0x46 :: u16) + 5" using len by simp
  from attr_law [OF h _ this, of part "backend_data dev"] obtain s' where
    s: "op_write_attribute ops part ?buf (backend_data dev) = (Inr (), s')"
      "op_read_attribute ops part (unat (0x080C :: u16)) 75 s' = Inr ?buf"
    unfolding d3 len by auto
  have p: "parse_coherency ?buf = Some (Inr coh)"
  proof -
    have "ltfs_betou64 (drop 6 ?buf) = Some (volume_change_ref coh)" "ltfs_betou64 (drop 14 ?buf) = Some (count coh)"
      "ltfs_betou64 (drop 22 ?buf) = Some (set_id coh)" "ltfs_betou16 (drop 30 ?buf) = Some 43"
      "?buf ! 5 = 8" "take 5 (drop 32 ?buf) = LTFS_tag" "take 37 (drop 37 ?buf) = uuid coh" "?buf ! 74 = version coh"
      using assms by (simp_all add: coherency_buf_def LTFS_tag_def nth_append betou64_u64tobe_append)
    then show ?thesis
      using len h by (simp add: parse_coherency_def d3)
  qed
  show ?thesis
    using s p by (simp add: tape_set_cart_coherency_def tape_get_cart_coherency_def on_data_def)
qed

end

end
