(* ===== verification/Ltfs_Extent.thy ===== *)
theory Ltfs_Extent
  imports Ltfs_Prelude
begin

text \<open>
  The extent list of a file, which maps file offsets to bytes of tape blocks, and the two functions that
  change it: \<^verbatim>\<open>_ltfs_fsraw_add_extent_unlocked\<close> and \<^verbatim>\<open>ltfs_fsraw_truncate\<close> of
  \<^verbatim>\<open>libltfs/ltfs_fsops_raw.c\<close>, with the update flags of the index they set
  (\<^verbatim>\<open>ltfs_set_index_dirty\<close> of \<^verbatim>\<open>libltfs/ltfs.c\<close>).

  The C loops walk the list backwards and edit it in place; the model takes the entries still to be
  visited (last one first) and the part of the list after them. All offsets are 64-bit numbers
  with their wrap-around; \<open>malloc\<close> is an oracle that says which calls succeed. The meaning of a list is
  \<open>file_map\<close>, the tape byte of each file offset, and the theorems say how each function changes it.
\<close>

section \<open>Extents, dentries, index flags\<close>

record extent_info =
  partition :: char
  block :: nat
  byteoffset :: nat
  bytecount :: nat
  fileoffset :: nat

type_synonym ltfs_timespec = "int \<times> int"

record dentry =
  extentlist :: "extent_info list"
  size :: nat
  realsize :: nat
  extents_dirty :: bool
  modify_time :: ltfs_timespec
  change_time :: ltfs_timespec
  access_time :: ltfs_timespec

record ltfs_index =
  idx_creator :: "string option"
  generation :: nat
  mod_time :: ltfs_timespec
  selfptr :: "char \<times> nat"
  backptr :: "char \<times> nat"
  dirty :: bool
  atime_dirty :: bool
  use_atime :: bool
  version :: nat

definition LTFS_INDEX_VERSION :: nat where
  "LTFS_INDEX_VERSION = 10000 * 2 + 100 * 2 + 0"

definition ltfs_set_index_dirty :: "bool \<Rightarrow> ltfs_index \<Rightarrow> ltfs_index" where
  "ltfs_set_index_dirty atime idx =
     (let idx = (if atime then idx\<lparr>atime_dirty := True\<rparr> else idx\<lparr>dirty := True\<rparr>) in
      if \<not> atime \<or> atime \<and> use_atime idx then idx\<lparr>version := LTFS_INDEX_VERSION\<rparr> else idx)"

definition ltfs_unset_index_dirty :: "bool \<Rightarrow> ltfs_index \<Rightarrow> ltfs_index" where
  "ltfs_unset_index_dirty update_version idx =
     (let idx = idx\<lparr>dirty := False, atime_dirty := False\<rparr> in
      if update_version then idx\<lparr>version := LTFS_INDEX_VERSION\<rparr> else idx)"

section \<open>Adding an extent\<close>

text \<open>
  What one turn of the loop knows of the current entry after its first part: the entry (\<open>None\<close> when it
  was deleted), the split entry inserted after it, the new real size and the three local variables
  that describe the end of the entry.
\<close>

record entry_state =
  entry :: "extent_info option"
  splitentry :: "extent_info list"
  realsize_new :: nat
  entry_fileoffset_end :: nat
  entry_byteoffset_end :: nat
  entry_blockcount :: nat

definition entry_update ::
    "nat \<Rightarrow> extent_info \<Rightarrow> (nat \<Rightarrow> bool) \<Rightarrow> nat \<Rightarrow> extent_info \<Rightarrow> nat \<Rightarrow> err + entry_state \<times> nat" where
  "entry_update blocksize ext malloc k e rs =
     (let ext_fileoffset_end = add64 (fileoffset ext) (bytecount ext);
          fo_end = add64 (fileoffset e) (bytecount e);
          bo_end = add64 (byteoffset e) (bytecount e);
          st = (\<lambda>e' split rs. \<lparr>entry = Some e', splitentry = split, realsize_new = rs,
                  entry_fileoffset_end = add64 (fileoffset e') (bytecount e'),
                  entry_byteoffset_end = add64 (byteoffset e') (bytecount e'),
                  entry_blockcount = add64 (byteoffset e') (bytecount e') div blocksize\<rparr>)
      in
      if fileoffset ext \<le> fileoffset e \<and> ext_fileoffset_end > fileoffset e then
        if fo_end \<le> ext_fileoffset_end then
          Inr (\<lparr>entry = None, splitentry = [], realsize_new = sub64 rs (bytecount e),
                entry_fileoffset_end = fo_end, entry_byteoffset_end = bo_end,
                entry_blockcount = bo_end div blocksize\<rparr>, k)
        else
          (let diff = sub64 ext_fileoffset_end (fileoffset e);
               bmod = add64 diff (byteoffset e);
               e' = e\<lparr>block := add64 (block e) (bmod div blocksize),
                      byteoffset := to32 (bmod mod blocksize),
                      bytecount := sub64 (bytecount e) diff,
                      fileoffset := add64 (fileoffset e) diff\<rparr>
           in Inr ((st e' [] (sub64 rs diff))\<lparr>entry_fileoffset_end := fo_end\<rparr>, k))
      else if fileoffset ext > fileoffset e \<and> fileoffset ext < fo_end then
        if ext_fileoffset_end \<ge> fo_end then
          (let e' = e\<lparr>bytecount := sub64 (fileoffset ext) (fileoffset e)\<rparr>
           in Inr (st e' [] (sub64 rs (sub64 fo_end (fileoffset ext))), k))
        else if \<not> malloc k then Inl LTFS_NO_MEMORY
        else
          (let diff = sub64 ext_fileoffset_end (fileoffset e);
               bmod = add64 diff (byteoffset e);
               split = \<lparr>partition = partition e, block = add64 (block e) (bmod div blocksize),
                        byteoffset = to32 (bmod mod blocksize), bytecount = sub64 (bytecount e) diff,
                        fileoffset = ext_fileoffset_end\<rparr>;
               e' = e\<lparr>bytecount := sub64 (fileoffset ext) (fileoffset e)\<rparr>
           in Inr (st e' [split] (sub64 rs (bytecount ext)), Suc k))
      else Inr (st e [] rs, k))"

text \<open>
  The loop: \<open>pre\<close> are the entries still to visit, last one first, \<open>suf\<close> is the list after them. The result
  is the list, whether the new extent was placed, and the new real size; an error leaves the list as
  edited so far.
\<close>

fun add_extent_loop ::
    "nat \<Rightarrow> extent_info \<Rightarrow> (nat \<Rightarrow> bool) \<Rightarrow> nat \<Rightarrow> extent_info list \<Rightarrow> extent_info list \<Rightarrow> nat \<Rightarrow>
     (bool \<times> nat, extent_info list) result" where
  "add_extent_loop blocksize ext malloc k [] suf rs = (Inr (False, rs), suf)"
| "add_extent_loop blocksize ext malloc k (e # pre) suf rs =
     (case entry_update blocksize ext malloc k e rs of
        Inl er \<Rightarrow> (Inl er, rev pre @ e # suf)
      | Inr (s, k') \<Rightarrow>
          (case entry s of
             None \<Rightarrow> add_extent_loop blocksize ext malloc k' pre (splitentry s @ suf) (realsize_new s)
           | Some e' \<Rightarrow>
               if fileoffset ext = entry_fileoffset_end s \<and> partition e' = partition ext \<and>
                  entry_byteoffset_end s mod blocksize = 0 \<and>
                  add64 (block e') (entry_blockcount s) = block ext \<and> byteoffset ext = 0
               then (Inr (True, add64 (realsize_new s) (bytecount ext)),
                     rev pre @ e'\<lparr>bytecount := add64 (bytecount e') (bytecount ext)\<rparr> # splitentry s @ suf)
               else if fileoffset ext \<ge> entry_fileoffset_end s
               then (Inr (True, add64 (realsize_new s) (bytecount ext)),
                     rev pre @ e' # ext # splitentry s @ suf)
               else add_extent_loop blocksize ext malloc k' pre (e' # splitentry s @ suf) (realsize_new s)))"

definition ltfs_fsraw_add_extent_unlocked ::
    "nat \<Rightarrow> (nat \<Rightarrow> bool) \<Rightarrow> ltfs_timespec \<Rightarrow> extent_info \<Rightarrow> bool \<Rightarrow> dentry \<Rightarrow> ltfs_index \<Rightarrow>
     (unit, dentry \<times> ltfs_index) result" where
  "ltfs_fsraw_add_extent_unlocked blocksize malloc now ext update_time d idx =
     (let ext_fileoffset_end = add64 (fileoffset ext) (bytecount ext) in
      if \<not> malloc 0 then (Inl LTFS_NO_MEMORY, d, idx)
      else case add_extent_loop blocksize ext malloc 1 (rev (extentlist d)) [] (realsize d) of
        (Inl er, es) \<Rightarrow> (Inl er, d\<lparr>extentlist := es\<rparr>, idx)
      | (Inr (used, rs), es) \<Rightarrow>
          (let (es, rs) = (if used then (es, rs) else (ext # es, add64 rs (bytecount ext)));
               d = d\<lparr>extentlist := es,
                     size := (if ext_fileoffset_end > size d then ext_fileoffset_end else size d),
                     realsize := rs\<rparr>;
               d = (if update_time then d\<lparr>modify_time := now, change_time := now\<rparr> else d)
           in (Inr (), d\<lparr>extents_dirty := True\<rparr>, ltfs_set_index_dirty False idx)))"

section \<open>Truncating a file\<close>

fun truncate_loop :: "nat \<Rightarrow> extent_info list \<Rightarrow> extent_info list \<Rightarrow> nat \<Rightarrow> extent_info list \<times> nat" where
  "truncate_loop ulength [] suf rs = (suf, rs)"
| "truncate_loop ulength (e # pre) suf rs =
     (let last = add64 (fileoffset e) (bytecount e) in
      if fileoffset e \<ge> ulength \<or> ulength = 0 then truncate_loop ulength pre suf (sub64 rs (bytecount e))
      else if last > ulength then
        truncate_loop ulength pre (e\<lparr>bytecount := sub64 ulength (fileoffset e)\<rparr> # suf)
          (sub64 rs (sub64 last ulength))
      else (rev pre @ e # suf, rs))"

definition ltfs_fsraw_truncate :: "ltfs_timespec \<Rightarrow> nat \<Rightarrow> dentry \<Rightarrow> ltfs_index \<Rightarrow> dentry \<times> ltfs_index" where
  "ltfs_fsraw_truncate now ulength d idx =
     (let (es, rs) = (if ulength < size d \<and> extentlist d \<noteq> []
                      then truncate_loop ulength (rev (extentlist d)) [] (realsize d)
                      else (extentlist d, realsize d))
      in (d\<lparr>extentlist := es, size := ulength, realsize := rs, modify_time := now, change_time := now\<rparr>,
          ltfs_set_index_dirty False idx))"

section \<open>What an extent list means\<close>

definition ext_end :: "extent_info \<Rightarrow> nat" where
  "ext_end e = fileoffset e + bytecount e"

definition covers :: "extent_info \<Rightarrow> nat \<Rightarrow> bool" where
  "covers e x \<longleftrightarrow> fileoffset e \<le> x \<and> x < ext_end e"

text \<open>The tape byte of file offset \<open>x\<close> in an extent: partition, block, offset in the block.\<close>

definition tape_byte :: "nat \<Rightarrow> extent_info \<Rightarrow> nat \<Rightarrow> char \<times> nat \<times> nat" where
  "tape_byte bs e x = (partition e, block e + (byteoffset e + (x - fileoffset e)) div bs,
     (byteoffset e + (x - fileoffset e)) mod bs)"

fun file_map :: "nat \<Rightarrow> extent_info list \<Rightarrow> nat \<Rightarrow> (char \<times> nat \<times> nat) option" where
  "file_map bs [] x = None"
| "file_map bs (e # es) x = (if covers e x then Some (tape_byte bs e x) else file_map bs es x)"

definition total :: "extent_info list \<Rightarrow> nat" where
  "total es = sum_list (map bytecount es)"

definition ext_ok :: "nat \<Rightarrow> extent_info \<Rightarrow> bool" where
  "ext_ok bs e \<longleftrightarrow> byteoffset e < bs \<and> ext_end e + bs \<le> U64 \<and>
     block e + (byteoffset e + bytecount e) div bs < U64"

definition exts_ok :: "nat \<Rightarrow> extent_info list \<Rightarrow> bool" where
  "exts_ok bs es \<longleftrightarrow> (\<forall>e\<in>set es. ext_ok bs e) \<and> sorted_wrt (\<lambda>a b. ext_end a \<le> fileoffset b) es"

section \<open>Lists of extents\<close>

lemma file_map_append:
  "file_map bs (es @ fs) x = (case file_map bs es x of None \<Rightarrow> file_map bs fs x | Some b \<Rightarrow> Some b)"
  by (induction es) simp_all

lemma file_map_None: "file_map bs es x = None \<longleftrightarrow> (\<forall>e\<in>set es. \<not> covers e x)"
  by (induction es) auto

lemma exts_ok_append:
  "exts_ok bs (es @ fs) \<longleftrightarrow> exts_ok bs es \<and> exts_ok bs fs \<and>
     (\<forall>e\<in>set es. \<forall>f\<in>set fs. ext_end e \<le> fileoffset f)"
  by (auto simp: exts_ok_def sorted_wrt_append)

lemma exts_ok_Cons:
  "exts_ok bs (e # es) \<longleftrightarrow> ext_ok bs e \<and> exts_ok bs es \<and> (\<forall>f\<in>set es. ext_end e \<le> fileoffset f)"
  by (auto simp: exts_ok_def)

lemma exts_ok_Nil [simp]: "exts_ok bs []"
  by (simp add: exts_ok_def)

lemmas exts_ok_simps = exts_ok_append exts_ok_Cons

lemma total_simps [simp]:
  "total [] = 0" "total (e # es) = bytecount e + total es" "total (es @ fs) = total es + total fs"
  "total (rev es) = total es"
  by (simp_all add: total_def sum_list_rev rev_map [symmetric])

text \<open>Disjoint extents below \<open>2 ^ 64\<close> have a total below \<open>2 ^ 64\<close>.\<close>

lemma total_bound:
  assumes "exts_ok bs es" and "\<forall>e\<in>set es. ext_end e \<le> b" and "\<forall>e\<in>set es. a \<le> fileoffset e" and "a \<le> b"
  shows "a + total es \<le> b"
  using assms
proof (induction es arbitrary: a)
  case (Cons e es)
  have "ext_end e + total es \<le> b"
    using Cons.prems by (intro Cons.IH) (auto simp: exts_ok_Cons)
  moreover have "a + bytecount e \<le> ext_end e"
    using Cons.prems by (simp add: ext_end_def)
  ultimately show ?case by simp
qed simp

lemma total_less:
  assumes "exts_ok bs es" and "0 < bs" and "bs \<le> U64"
  shows "total es < U64"
proof -
  have "0 + total es \<le> U64 - bs"
    using assms(1) by (rule total_bound) (use assms in \<open>fastforce simp: exts_ok_def ext_ok_def\<close>)+
  then show ?thesis using assms by simp
qed

section \<open>Cutting an extent\<close>

definition cut_front :: "nat \<Rightarrow> extent_info \<Rightarrow> nat \<Rightarrow> extent_info" where
  "cut_front bs e x = e\<lparr>block := block e + (byteoffset e + (x - fileoffset e)) div bs,
     byteoffset := (byteoffset e + (x - fileoffset e)) mod bs,
     bytecount := ext_end e - x, fileoffset := x\<rparr>"

definition cut_end :: "extent_info \<Rightarrow> nat \<Rightarrow> extent_info" where
  "cut_end e x = e\<lparr>bytecount := x - fileoffset e\<rparr>"

lemma cut_end_sel [simp]:
  "fileoffset (cut_end e x) = fileoffset e" "bytecount (cut_end e x) = x - fileoffset e"
  "partition (cut_end e x) = partition e" "block (cut_end e x) = block e"
  "byteoffset (cut_end e x) = byteoffset e"
  "fileoffset e \<le> x \<Longrightarrow> ext_end (cut_end e x) = x"
  "tape_byte bs (cut_end e x) = tape_byte bs e"
  by (simp_all add: cut_end_def ext_end_def tape_byte_def fun_eq_iff)

lemma cut_front_sel [simp]:
  "fileoffset (cut_front bs e x) = x" "bytecount (cut_front bs e x) = ext_end e - x"
  "x \<le> ext_end e \<Longrightarrow> ext_end (cut_front bs e x) = ext_end e"
  by (simp_all add: cut_front_def ext_end_def)

lemma cut_end_ok:
  assumes "ext_ok bs e" and "fileoffset e \<le> x" and "x \<le> ext_end e"
  shows "ext_ok bs (cut_end e x)"
proof -
  have "(byteoffset e + (x - fileoffset e)) div bs \<le> (byteoffset e + bytecount e) div bs"
    using assms by (intro div_le_mono) (simp add: ext_end_def)
  then show ?thesis using assms by (simp add: ext_ok_def)
qed

lemma div_mod_shift: "(a div b :: nat) + (a mod b + c) div b = (a + c) div b"
proof (cases "b = 0")
  case False
  have "a + c = a div b * b + (a mod b + c)" by simp
  then have "(a + c) div b = (a div b * b + (a mod b + c)) div b" by (rule arg_cong)
  also have "\<dots> = a div b + (a mod b + c) div b" using False by (rule div_mult_self3)
  finally show ?thesis by simp
qed simp

lemma cut_front_byte:
  assumes "fileoffset e \<le> x" and "x \<le> y"
  shows "tape_byte bs (cut_front bs e x) y = tape_byte bs e y"
proof -
  let ?a = "byteoffset e + (x - fileoffset e)"
  have "?a + (y - x) = byteoffset e + (y - fileoffset e)" using assms by simp
  then show ?thesis
    using div_mod_shift [of ?a bs "y - x"] mod_add_left_eq [of ?a bs "y - x"]
    by (simp add: tape_byte_def cut_front_def add.assoc)
qed

lemma cut_front_ok:
  assumes "ext_ok bs e" and "fileoffset e \<le> x" and "x \<le> ext_end e"
  shows "ext_ok bs (cut_front bs e x)"
proof -
  let ?a = "byteoffset e + (x - fileoffset e)"
  have "?a + (ext_end e - x) = byteoffset e + bytecount e"
    using assms by (simp add: ext_end_def)
  then have "block (cut_front bs e x) + (byteoffset (cut_front bs e x) + bytecount (cut_front bs e x)) div bs
      = block e + (byteoffset e + bytecount e) div bs"
    using div_mod_shift [of ?a bs "ext_end e - x"] by (simp add: cut_front_def add.assoc)
  then show ?thesis
    using assms by (simp add: ext_ok_def) (simp add: cut_front_def)
qed

lemmas cut_ok = cut_end_ok cut_front_ok

section \<open>One turn of the loop\<close>

text \<open>Without a wrap-around, the first part of a turn deletes, cuts or splits the entry.\<close>

definition entry_state_of :: "nat \<Rightarrow> extent_info \<Rightarrow> extent_info list \<Rightarrow> nat \<Rightarrow> entry_state" where
  "entry_state_of bs e split rs = \<lparr>entry = Some e, splitentry = split, realsize_new = rs,
     entry_fileoffset_end = ext_end e, entry_byteoffset_end = byteoffset e + bytecount e,
     entry_blockcount = (byteoffset e + bytecount e) div bs\<rparr>"

lemma ext_ok_add64:
  assumes "ext_ok bs e"
  shows "add64 (fileoffset e) (bytecount e) = ext_end e" "add64 (byteoffset e) (bytecount e) = byteoffset e + bytecount e"
    "ext_end e < U64"
  using assms by (auto simp: ext_ok_def ext_end_def intro!: add64_exact)

lemma entry_cut_front:
  assumes e: "ext_ok bs e" and x: "fileoffset e \<le> x" "x \<le> ext_end e" and bs: "bs \<le> U32"
  defines "diff \<equiv> sub64 x (fileoffset e)"
  shows "e\<lparr>block := add64 (block e) (add64 diff (byteoffset e) div bs),
      byteoffset := to32 (add64 diff (byteoffset e) mod bs),
      bytecount := sub64 (bytecount e) diff, fileoffset := add64 (fileoffset e) diff\<rparr> = cut_front bs e x"
    "\<lparr>partition = partition e, block = add64 (block e) (add64 diff (byteoffset e) div bs),
      byteoffset = to32 (add64 diff (byteoffset e) mod bs),
      bytecount = sub64 (bytecount e) diff, fileoffset = x\<rparr> = cut_front bs e x"
proof -
  let ?b = "byteoffset e + (x - fileoffset e)"
  have lt: "x < U64" using ext_ok_add64(3) [OF e] x by simp
  then have d: "diff = x - fileoffset e" using x by (simp add: sub64_exact diff_def)
  have "?b div bs \<le> (byteoffset e + bytecount e) div bs"
    using x by (intro div_le_mono) (simp add: ext_end_def)
  then have 1: "add64 (block e) (?b div bs) = block e + ?b div bs"
    using e unfolding ext_ok_def by (intro add64_exact) linarith
  have 2: "add64 diff (byteoffset e) = ?b"
    unfolding d using e x by (subst add64_exact) (auto simp: ext_ok_def)
  have "?b mod bs < U32"
    using e bs by (auto simp: ext_ok_def intro: less_le_trans [OF mod_less_divisor])
  then have 3: "to32 (?b mod bs) = ?b mod bs" by (rule to32_exact)
  have 4: "sub64 (bytecount e) diff = ext_end e - x"
    unfolding d using e x by (subst sub64_exact) (auto simp: ext_ok_def ext_end_def)
  have 5: "add64 (fileoffset e) diff = x"
    unfolding d using x lt by (subst add64_exact) auto
  show "e\<lparr>block := add64 (block e) (add64 diff (byteoffset e) div bs),
      byteoffset := to32 (add64 diff (byteoffset e) mod bs),
      bytecount := sub64 (bytecount e) diff, fileoffset := add64 (fileoffset e) diff\<rparr> = cut_front bs e x"
    by (simp only: 2 1 3 4 5 cut_front_def)
  then show "\<lparr>partition = partition e, block = add64 (block e) (add64 diff (byteoffset e) div bs),
      byteoffset = to32 (add64 diff (byteoffset e) mod bs),
      bytecount = sub64 (bytecount e) diff, fileoffset = x\<rparr> = cut_front bs e x"
    unfolding 5 by (cases e) simp
qed

lemma entry_update_ok:
  assumes e: "ext_ok bs e" and ext: "ext_ok bs ext" and bs: "bs \<le> U32"
    and rs: "bytecount e \<le> rs" "rs < U64"
  shows "entry_update bs ext malloc k e rs =
    (if fileoffset ext \<le> fileoffset e \<and> fileoffset e < ext_end ext then
       if ext_end e \<le> ext_end ext
       then Inr (\<lparr>entry = None, splitentry = [], realsize_new = rs - bytecount e,
              entry_fileoffset_end = ext_end e, entry_byteoffset_end = byteoffset e + bytecount e,
              entry_blockcount = (byteoffset e + bytecount e) div bs\<rparr>, k)
       else Inr (entry_state_of bs (cut_front bs e (ext_end ext)) [] (rs - (ext_end ext - fileoffset e)), k)
     else if fileoffset e < fileoffset ext \<and> fileoffset ext < ext_end e then
       if ext_end e \<le> ext_end ext
       then Inr (entry_state_of bs (cut_end e (fileoffset ext)) [] (rs - (ext_end e - fileoffset ext)), k)
       else if \<not> malloc k then Inl LTFS_NO_MEMORY
       else Inr (entry_state_of bs (cut_end e (fileoffset ext)) [cut_front bs e (ext_end ext)]
              (rs - bytecount ext), Suc k)
     else Inr (entry_state_of bs e [] rs, k))"
proof -
  note w = ext_ok_add64 [OF e] ext_ok_add64 [OF ext]
  have front: "entry_update bs ext malloc k e rs =
      Inr (entry_state_of bs (cut_front bs e (ext_end ext)) [] (rs - (ext_end ext - fileoffset e)), k)"
    if c: "fileoffset ext \<le> fileoffset e" "fileoffset e < ext_end ext" "ext_end ext < ext_end e"
  proof -
    note f = entry_cut_front(1) [OF e less_imp_le [OF c(2)] less_imp_le [OF c(3)] bs]
    have ok: "ext_ok bs (cut_front bs e (ext_end ext))" using c e by (intro cut_front_ok) auto
    have "ext_end ext - fileoffset e \<le> rs" using c rs by (simp add: ext_end_def)
    with c rs w have "sub64 rs (sub64 (ext_end ext) (fileoffset e)) = rs - (ext_end ext - fileoffset e)"
      by (simp add: sub64_exact)
    with c show ?thesis
      using ext_ok_add64 [OF ok]
      by (simp only: entry_update_def Let_def w f) (simp add: entry_state_of_def)
  qed
  have dist: "sub64 (fileoffset ext) (fileoffset e) = fileoffset ext - fileoffset e"
    if "fileoffset e \<le> fileoffset ext"
    using that w by (intro sub64_exact) (auto simp: ext_end_def)
  have endc: "entry_update bs ext malloc k e rs =
      Inr (entry_state_of bs (cut_end e (fileoffset ext)) [] (rs - (ext_end e - fileoffset ext)), k)"
    if c: "fileoffset e < fileoffset ext" "fileoffset ext < ext_end e" "ext_end e \<le> ext_end ext"
  proof -
    have ok: "ext_ok bs (cut_end e (fileoffset ext))" using c e by (intro cut_end_ok) auto
    have "ext_end e - fileoffset ext \<le> rs" using c rs by (simp add: ext_end_def)
    with c rs w have "sub64 rs (sub64 (ext_end e) (fileoffset ext)) = rs - (ext_end e - fileoffset ext)"
      by (simp add: sub64_exact)
    with c show ?thesis
      using ext_ok_add64 [OF ok]
      by (simp add: entry_update_def Let_def w dist entry_state_of_def cut_end_def)
  qed
  have split: "entry_update bs ext malloc k e rs =
      Inr (entry_state_of bs (cut_end e (fileoffset ext)) [cut_front bs e (ext_end ext)]
             (rs - bytecount ext), Suc k)"
    if c: "fileoffset e < fileoffset ext" "ext_end ext < ext_end e" "malloc k"
  proof -
    have l: "fileoffset ext \<le> ext_end ext" by (simp add: ext_end_def)
    note f = entry_cut_front [OF e _ _ bs, of "ext_end ext"]
    have ok: "ext_ok bs (cut_end e (fileoffset ext))" using c l e by (intro cut_end_ok) auto
    have "bytecount ext \<le> rs" using c rs by (simp add: ext_end_def)
    with c rs w have "sub64 rs (bytecount ext) = rs - bytecount ext"
      by (simp add: sub64_exact)
    with c l show ?thesis
      using ext_ok_add64 [OF ok]
      by (simp add: entry_update_def Let_def w dist f(2) entry_state_of_def cut_end_def)
  qed
  have del: "entry_update bs ext malloc k e rs = Inr (\<lparr>entry = None, splitentry = [],
      realsize_new = rs - bytecount e, entry_fileoffset_end = ext_end e,
      entry_byteoffset_end = byteoffset e + bytecount e,
      entry_blockcount = (byteoffset e + bytecount e) div bs\<rparr>, k)"
    if c: "fileoffset ext \<le> fileoffset e" "fileoffset e < ext_end ext" "ext_end e \<le> ext_end ext"
    using c rs by (simp add: entry_update_def Let_def w sub64_exact)
  have nomem: "entry_update bs ext malloc k e rs = Inl LTFS_NO_MEMORY"
    if c: "fileoffset e < fileoffset ext" "fileoffset ext < ext_end e" "ext_end ext < ext_end e" "\<not> malloc k"
    using c by (simp add: entry_update_def Let_def w)
  have other: "entry_update bs ext malloc k e rs = Inr (entry_state_of bs e [] rs, k)"
    if c: "\<not> (fileoffset ext \<le> fileoffset e \<and> fileoffset e < ext_end ext)"
      "\<not> (fileoffset e < fileoffset ext \<and> fileoffset ext < ext_end e)"
    using c by (simp only: entry_update_def Let_def w if_False) (simp add: entry_state_of_def)
  consider "fileoffset ext \<le> fileoffset e \<and> fileoffset e < ext_end ext"
    | "\<not> (fileoffset ext \<le> fileoffset e \<and> fileoffset e < ext_end ext)"
      "fileoffset e < fileoffset ext \<and> fileoffset ext < ext_end e"
    | "\<not> (fileoffset ext \<le> fileoffset e \<and> fileoffset e < ext_end ext)"
      "\<not> (fileoffset e < fileoffset ext \<and> fileoffset ext < ext_end e)"
    by blast
  then show ?thesis
  proof cases
    case 1
    then show ?thesis using front del by (simp add: not_le)
  next
    case 2
    then show ?thesis using endc nomem split by (simp add: not_le)
  next
    case 3
    then show ?thesis using other by auto
  qed
qed

section \<open>Placing the extent\<close>

definition overlay :: "nat \<Rightarrow> extent_info \<Rightarrow> (nat \<Rightarrow> (char \<times> nat \<times> nat) option) \<Rightarrow> nat \<Rightarrow>
    (char \<times> nat \<times> nat) option" where
  "overlay bs ext m x = (if covers ext x then Some (tape_byte bs ext x) else m x)"

lemma overlay_cong: "(\<And>x. \<not> covers ext x \<Longrightarrow> m x = m' x) \<Longrightarrow> overlay bs ext m = overlay bs ext m'"
  by (simp add: overlay_def fun_eq_iff)

lemma place_ok:
  assumes "exts_ok bs (es @ fs)" and "ext_ok bs ext"
    and "\<forall>e\<in>set es. ext_end e \<le> fileoffset ext" and "\<forall>f\<in>set fs. ext_end ext \<le> fileoffset f"
  shows "exts_ok bs (es @ ext # fs)"
    and "file_map bs (es @ ext # fs) = overlay bs ext (file_map bs (es @ fs))"
proof -
  show "exts_ok bs (es @ ext # fs)"
    using assms by (auto simp: exts_ok_simps)
  have "file_map bs es x = None" if "covers ext x" for x
    using assms(3) that by (fastforce simp: file_map_None covers_def)
  then show "file_map bs (es @ ext # fs) = overlay bs ext (file_map bs (es @ fs))"
    by (auto simp: fun_eq_iff overlay_def file_map_append split: option.splits)
qed

definition extended :: "extent_info \<Rightarrow> extent_info \<Rightarrow> extent_info" where
  "extended e ext = e\<lparr>bytecount := add64 (bytecount e) (bytecount ext)\<rparr>"

lemma merge_ok:
  assumes e: "ext_ok bs e" and ext: "ext_ok bs ext"
    and "fileoffset ext = ext_end e" and "partition e = partition ext"
    and m: "(byteoffset e + bytecount e) mod bs = 0" and b: "block e + (byteoffset e + bytecount e) div bs = block ext"
    and "byteoffset ext = 0"
  shows "ext_end (extended e ext) = ext_end ext" and "bytecount (extended e ext) = bytecount e + bytecount ext"
    and "ext_ok bs (extended e ext)"
    and "covers (extended e ext) x \<longleftrightarrow> covers e x \<or> covers ext x"
    and "covers e x \<Longrightarrow> tape_byte bs (extended e ext) x = tape_byte bs e x"
    and "covers ext x \<Longrightarrow> tape_byte bs (extended e ext) x = tape_byte bs ext x"
proof -
  have bc: "add64 (bytecount e) (bytecount ext) = bytecount e + bytecount ext"
    using ext assms(3) by (intro add64_exact) (auto simp: ext_ok_def ext_end_def)
  then show "bytecount (extended e ext) = bytecount e + bytecount ext"
    by (simp add: extended_def)
  show end_eq: "ext_end (extended e ext) = ext_end ext"
    using bc assms(3) by (simp add: extended_def ext_end_def)
  show "covers (extended e ext) x \<longleftrightarrow> covers e x \<or> covers ext x"
    using end_eq assms(3) by (auto simp: covers_def extended_def ext_end_def)
  obtain q where q: "byteoffset e + bytecount e = q * bs"
    using m by (auto simp: mod_eq_0_iff_dvd dvd_def mult.commute)
  have bs: "0 < bs" using e by (auto simp: ext_ok_def)
  have blk: "block ext = block e + q" using b q bs by simp
  have sh: "(q * bs + c) div bs = q + c div bs" "(q * bs + c) mod bs = c mod bs" for c
    using bs by simp_all
  show "ext_ok bs (extended e ext)"
  proof -
    have eq: "byteoffset e + (bytecount e + bytecount ext) = q * bs + bytecount ext" using q by simp
    have "block e + (byteoffset e + (bytecount e + bytecount ext)) div bs
        = block ext + (byteoffset ext + bytecount ext) div bs"
      unfolding eq sh(1) by (simp add: blk assms(7))
    then show ?thesis
      using e ext end_eq by (simp add: ext_ok_def) (simp add: extended_def bc)
  qed
  show "tape_byte bs (extended e ext) x = tape_byte bs e x" if "covers e x"
    by (simp add: tape_byte_def extended_def)
  show "tape_byte bs (extended e ext) x = tape_byte bs ext x" if "covers ext x"
  proof -
    have "byteoffset e + (x - fileoffset e) = q * bs + (x - fileoffset ext)"
      using that assms(3) q by (auto simp: covers_def ext_end_def)
    then show ?thesis
      using sh [of "x - fileoffset ext"] blk assms(4,7) by (simp add: tape_byte_def extended_def)
  qed
qed

lemma merge_list_ok:
  assumes "exts_ok bs (es @ e # ext # fs)"
    and "fileoffset ext = ext_end e" "partition e = partition ext"
    and "(byteoffset e + bytecount e) mod bs = 0" "block e + (byteoffset e + bytecount e) div bs = block ext"
    and "byteoffset ext = 0"
  shows "exts_ok bs (es @ extended e ext # fs)"
    and "file_map bs (es @ extended e ext # fs) = file_map bs (es @ e # ext # fs)"
    and "total (es @ extended e ext # fs) = total (es @ e # ext # fs)"
proof -
  have "ext_ok bs e" "ext_ok bs ext" using assms(1) by (auto simp: exts_ok_simps)
  note m = merge_ok [OF this assms(2-6)]
  have "fileoffset (extended e ext) = fileoffset e" by (simp add: extended_def)
  with assms(1) m show "exts_ok bs (es @ extended e ext # fs)"
    by (auto simp: exts_ok_simps)
  show "file_map bs (es @ extended e ext # fs) = file_map bs (es @ e # ext # fs)"
    using m by (auto simp: fun_eq_iff file_map_append split: option.splits)
  show "total (es @ extended e ext # fs) = total (es @ e # ext # fs)"
    using m by simp
qed

section \<open>The loop places the extent\<close>

definition placed :: "nat \<Rightarrow> extent_info \<Rightarrow> extent_info list \<Rightarrow> bool \<times> nat \<Rightarrow> extent_info list \<Rightarrow> bool" where
  "placed bs ext old ur es \<longleftrightarrow>
     (let es' = (if fst ur then es else ext # es);
          rs' = (if fst ur then snd ur else add64 (snd ur) (bytecount ext))
      in exts_ok bs es' \<and> rs' = total es' \<and> file_map bs es' = overlay bs ext (file_map bs old))"

lemma placed_cong:
  assumes "placed bs ext old ur es" and "\<And>x. \<not> covers ext x \<Longrightarrow> file_map bs old x = file_map bs old' x"
  shows "placed bs ext old' ur es"
  using assms overlay_cong [of ext "file_map bs old" "file_map bs old'"] by (simp add: placed_def Let_def)

lemma loop_placed_cong:
  assumes "\<exists>ur es. r = (Inr ur, es) \<and> placed bs ext old ur es"
    and "\<And>x. \<not> covers ext x \<Longrightarrow> file_map bs old x = file_map bs old' x"
  shows "\<exists>ur es. r = (Inr ur, es) \<and> placed bs ext old' ur es"
  using assms by (blast intro: placed_cong)

text \<open>The second part of a turn, for an entry that ends before the extent.\<close>

lemma place_after:
  assumes ok: "exts_ok bs (rev pre @ e # fs)" and ext: "ext_ok bs ext" and bs: "bs \<le> U64"
    and e: "ext_end e \<le> fileoffset ext" and fs: "\<forall>f\<in>set fs. ext_end ext \<le> fileoffset f"
    and rs: "rs = total pre + bytecount e + total fs"
  shows "placed bs ext (rev pre @ e # fs) (True, add64 rs (bytecount ext)) (rev pre @ e # ext # fs)"
    and "\<lbrakk>fileoffset ext = ext_end e; partition e = partition ext; (byteoffset e + bytecount e) mod bs = 0;
        block e + (byteoffset e + bytecount e) div bs = block ext; byteoffset ext = 0\<rbrakk> \<Longrightarrow>
      placed bs ext (rev pre @ e # fs) (True, add64 rs (bytecount ext)) (rev pre @ extended e ext # fs)"
proof -
  have "\<forall>a\<in>set (rev pre @ [e]). ext_end a \<le> fileoffset ext"
    using ok e by (auto simp: exts_ok_simps ext_end_def)
  with ok ext fs have p: "exts_ok bs (rev pre @ e # ext # fs)"
      "file_map bs (rev pre @ e # ext # fs) = overlay bs ext (file_map bs (rev pre @ e # fs))"
    using place_ok [of bs "rev pre @ [e]" fs ext] by auto
  have "0 < bs" using ext by (auto simp: ext_ok_def)
  then have t: "add64 rs (bytecount ext) = total (rev pre @ e # ext # fs)"
    using total_less [OF p(1)] bs rs by (simp add: add64_exact)
  with p show "placed bs ext (rev pre @ e # fs) (True, add64 rs (bytecount ext)) (rev pre @ e # ext # fs)"
    by (simp add: placed_def)
  assume "fileoffset ext = ext_end e" "partition e = partition ext" "(byteoffset e + bytecount e) mod bs = 0"
    "block e + (byteoffset e + bytecount e) div bs = block ext" "byteoffset ext = 0"
  from merge_list_ok [OF p(1) this] p t
  show "placed bs ext (rev pre @ e # fs) (True, add64 rs (bytecount ext)) (rev pre @ extended e ext # fs)"
    by (simp add: placed_def)
qed

text \<open>A turn that places the extent after the entry \<open>e'\<close> that the first part left.\<close>

lemma loop_places:
  assumes upd: "entry_update bs ext malloc k e rs = Inr (entry_state_of bs e' split rs', k')"
    and ok: "exts_ok bs (rev pre @ e' # split @ suf)" and ext: "ext_ok bs ext" and bs: "bs \<le> U64"
    and e': "ext_end e' \<le> fileoffset ext" and fs: "\<forall>f\<in>set (split @ suf). ext_end ext \<le> fileoffset f"
    and rs: "rs' = total pre + bytecount e' + total (split @ suf)"
  shows "\<exists>ur es. add_extent_loop bs ext malloc k (e # pre) suf rs = (Inr ur, es) \<and>
    placed bs ext (rev pre @ e' # split @ suf) ur es"
proof -
  have "ext_ok bs e'" using ok by (auto simp: exts_ok_simps)
  then have b: "add64 (block e') ((byteoffset e' + bytecount e') div bs) = block e' + (byteoffset e' + bytecount e') div bs"
    by (simp add: ext_ok_def add64_exact)
  let ?merge = "fileoffset ext = ext_end e' \<and> partition e' = partition ext \<and>
    (byteoffset e' + bytecount e') mod bs = 0 \<and>
    block e' + (byteoffset e' + bytecount e') div bs = block ext \<and> byteoffset ext = 0"
  have "add_extent_loop bs ext malloc k (e # pre) suf rs =
      (Inr (True, add64 rs' (bytecount ext)),
       if ?merge then rev pre @ extended e' ext # split @ suf else rev pre @ e' # ext # split @ suf)"
    using e' by (simp add: upd entry_state_of_def b extended_def)
  with place_after [OF ok ext bs e' fs rs] show ?thesis
    by (cases ?merge) simp_all
qed

text \<open>A turn that leaves the entry \<open>e'\<close> behind the extent and goes on.\<close>

lemma loop_goes_on:
  assumes "entry_update bs ext malloc k e rs = Inr (entry_state_of bs e' [] rs', k')"
    and "fileoffset ext < ext_end e'"
  shows "add_extent_loop bs ext malloc k (e # pre) suf rs = add_extent_loop bs ext malloc k' pre (e' # suf) rs'"
  using assms by (simp add: entry_state_of_def)

lemma add_extent_loop_correct:
  assumes "exts_ok bs (rev pre @ suf)" and ext: "ext_ok bs ext" and bs: "bs \<le> U32"
    and "\<forall>f\<in>set suf. ext_end ext \<le> fileoffset f" and "rs = total pre + total suf" and mem: "\<And>i. malloc i"
  shows "\<exists>ur es. add_extent_loop bs ext malloc k pre suf rs = (Inr ur, es) \<and>
    placed bs ext (rev pre @ suf) ur es"
  using assms(1,4,5)
proof (induction pre arbitrary: suf rs k)
  case Nil
  have bs': "bs \<le> U64" "0 < bs" using bs U32_less_U64 ext by (auto simp: ext_ok_def)
  have p: "exts_ok bs (ext # suf)" "file_map bs (ext # suf) = overlay bs ext (file_map bs suf)"
    using place_ok [of bs "[]" suf ext] Nil ext by auto
  then have "add64 rs (bytecount ext) = total (ext # suf)"
    using total_less [OF p(1)] bs' Nil by (simp add: add64_exact)
  with p show ?case by (simp add: placed_def)
next
  case (Cons e pre)
  have bs': "bs \<le> U64" "0 < bs" using bs U32_less_U64 ext by (auto simp: ext_ok_def)
  have ok: "exts_ok bs (rev pre @ e # suf)" and e: "ext_ok bs e"
    using Cons.prems(1) by (auto simp: exts_ok_simps)
  have "bytecount e \<le> rs" "rs < U64"
    using Cons.prems(3) total_less [OF ok] bs' by auto
  note upd = entry_update_ok [OF e ext bs this, of malloc k]
  have le: "fileoffset ext \<le> ext_end ext" "fileoffset e \<le> ext_end e" by (simp_all add: ext_end_def)
  consider (delete) "fileoffset ext \<le> fileoffset e" "fileoffset e < ext_end ext" "ext_end e \<le> ext_end ext"
    | (front) "fileoffset ext \<le> fileoffset e" "fileoffset e < ext_end ext" "ext_end ext < ext_end e"
    | (tail) "fileoffset e < fileoffset ext" "fileoffset ext < ext_end e" "ext_end e \<le> ext_end ext"
    | (split) "fileoffset e < fileoffset ext" "fileoffset ext < ext_end e" "ext_end ext < ext_end e"
    | (before) "ext_end e \<le> fileoffset ext" "fileoffset ext \<le> fileoffset e \<Longrightarrow> ext_end ext \<le> fileoffset e"
    | (behind) "fileoffset ext < ext_end e" "ext_end ext \<le> fileoffset e"
    using le by linarith
  then show ?case
  proof cases
    case delete
    have "exts_ok bs (rev pre @ suf)" using ok by (auto simp: exts_ok_simps)
    moreover have "rs - bytecount e = total pre + total suf" using Cons.prems(3) by simp
    ultimately obtain ur es where r: "add_extent_loop bs ext malloc k pre suf (rs - bytecount e) = (Inr ur, es)"
        "placed bs ext (rev pre @ suf) ur es"
      using Cons.IH [of suf "rs - bytecount e" k] Cons.prems(2) by blast
    have "placed bs ext (rev (e # pre) @ suf) ur es"
      using r(2) by (rule placed_cong) (use delete in \<open>auto simp: file_map_append covers_def split: option.splits\<close>)
    moreover have "add_extent_loop bs ext malloc k (e # pre) suf rs = (Inr ur, es)"
      using r(1) upd delete by simp
    ultimately show ?thesis by blast
  next
    case front
    let ?e = "cut_front bs e (ext_end ext)" and ?rs = "rs - (ext_end ext - fileoffset e)"
    have "exts_ok bs (rev pre @ ?e # suf)"
      using ok front cut_front_ok [OF e, of "ext_end ext"] by (auto simp: exts_ok_simps)
    moreover have "?rs = total pre + total (?e # suf)"
      using Cons.prems(3) front by (simp add: ext_end_def)
    moreover have "\<forall>f\<in>set (?e # suf). ext_end ext \<le> fileoffset f" using Cons.prems(2) by simp
    ultimately obtain ur es where r: "add_extent_loop bs ext malloc k pre (?e # suf) ?rs = (Inr ur, es)"
        "placed bs ext (rev pre @ ?e # suf) ur es"
      using Cons.IH [of "?e # suf" ?rs k] by blast
    have "placed bs ext (rev (e # pre) @ suf) ur es"
      using r(2) by (rule placed_cong)
        (use front cut_front_byte [of e "ext_end ext"] in \<open>auto simp: file_map_append covers_def split: option.splits\<close>)
    moreover have "add_extent_loop bs ext malloc k (e # pre) suf rs = (Inr ur, es)"
      unfolding r(1) [symmetric] using upd front by (intro loop_goes_on) auto
    ultimately show ?thesis by blast
  next
    case tail
    let ?e = "cut_end e (fileoffset ext)"
    have "\<exists>ur es. add_extent_loop bs ext malloc k (e # pre) suf rs = (Inr ur, es) \<and>
        placed bs ext (rev pre @ ?e # [] @ suf) ur es"
    proof (rule loop_places [OF _ _ ext bs'(1)])
      show "exts_ok bs (rev pre @ ?e # [] @ suf)"
        using ok tail cut_end_ok [OF e, of "fileoffset ext"] by (auto simp: exts_ok_simps)
      show "entry_update bs ext malloc k e rs =
          Inr (entry_state_of bs ?e [] (rs - (ext_end e - fileoffset ext)), k)"
        using upd tail by simp
      show "rs - (ext_end e - fileoffset ext) = total pre + bytecount ?e + total ([] @ suf)"
        using tail Cons.prems(3) by (simp add: ext_end_def)
    qed (use tail Cons.prems(2) in auto)
    then show ?thesis
      by (rule loop_placed_cong)
        (use tail in \<open>auto simp: file_map_append covers_def split: option.splits\<close>)
  next
    case split
    let ?e = "cut_end e (fileoffset ext)" and ?f = "cut_front bs e (ext_end ext)"
    have "\<exists>ur es. add_extent_loop bs ext malloc k (e # pre) suf rs = (Inr ur, es) \<and>
        placed bs ext (rev pre @ ?e # [?f] @ suf) ur es"
    proof (rule loop_places [OF _ _ ext bs'(1)])
      show "exts_ok bs (rev pre @ ?e # [?f] @ suf)"
        using ok split le cut_ok [OF e] by (auto simp: exts_ok_simps)
      show "entry_update bs ext malloc k e rs = Inr (entry_state_of bs ?e [?f] (rs - bytecount ext), Suc k)"
        using upd split mem by simp
      show "rs - bytecount ext = total pre + bytecount ?e + total ([?f] @ suf)"
        using split Cons.prems(3) by (simp add: ext_end_def)
    qed (use split Cons.prems(2) in auto)
    then show ?thesis
      by (rule loop_placed_cong)
        (use split cut_front_byte [of e "ext_end ext"] le in \<open>auto simp: file_map_append covers_def split: option.splits\<close>)
  next
    case before
    have "\<exists>ur es. add_extent_loop bs ext malloc k (e # pre) suf rs = (Inr ur, es) \<and>
        placed bs ext (rev pre @ e # [] @ suf) ur es"
    proof (rule loop_places [OF _ _ ext bs'(1)])
      show "entry_update bs ext malloc k e rs = Inr (entry_state_of bs e [] rs, k)"
        using upd before by auto
    qed (use ok before Cons.prems in auto)
    then show ?thesis by simp
  next
    case behind
    have "exts_ok bs (rev pre @ e # suf)" "\<forall>f\<in>set (e # suf). ext_end ext \<le> fileoffset f"
        "rs = total pre + total (e # suf)"
      using ok behind Cons.prems by auto
    then obtain ur es where r: "add_extent_loop bs ext malloc k pre (e # suf) rs = (Inr ur, es)"
        "placed bs ext (rev pre @ e # suf) ur es"
      using Cons.IH [of "e # suf" rs k] by blast
    have "add_extent_loop bs ext malloc k (e # pre) suf rs = (Inr ur, es)"
      unfolding r(1) [symmetric] using upd behind le by (intro loop_goes_on) auto
    with r show ?thesis by auto
  qed
qed

section \<open>Adding an extent to a file\<close>

text \<open>What a dentry promises of its extents: ordered, disjoint, and counted by \<open>realsize\<close>.\<close>

definition file_ok :: "nat \<Rightarrow> dentry \<Rightarrow> bool" where
  "file_ok bs d \<longleftrightarrow> exts_ok bs (extentlist d) \<and> realsize d = total (extentlist d) \<and>
     (\<forall>e\<in>set (extentlist d). 0 < bytecount e \<longrightarrow> ext_end e \<le> size d)"

lemma file_map_bound:
  "(\<forall>e\<in>set es. 0 < bytecount e \<longrightarrow> ext_end e \<le> b) \<longleftrightarrow> (\<forall>x. file_map bs es x \<noteq> None \<longrightarrow> x < b)"
proof (intro iffI ballI allI impI)
  fix x assume l: "\<forall>e\<in>set es. 0 < bytecount e \<longrightarrow> ext_end e \<le> b" and "file_map bs es x \<noteq> None"
  then obtain e where e: "e \<in> set es" "covers e x" unfolding file_map_None by auto
  then have "0 < bytecount e" by (auto simp: covers_def ext_end_def)
  with l e show "x < b" by (auto simp: covers_def)
next
  fix e assume r: "\<forall>x. file_map bs es x \<noteq> None \<longrightarrow> x < b" and e: "e \<in> set es" "0 < bytecount e"
  then have "covers e (ext_end e - 1)" by (auto simp: covers_def ext_end_def)
  with r e show "ext_end e \<le> b" unfolding file_map_None by fastforce
qed

lemma add_extent_ok:
  assumes "file_ok bs d" and "ext_ok bs ext" and "bs \<le> U32" and "\<forall>i. malloc i"
  shows "\<exists>d' idx'. ltfs_fsraw_add_extent_unlocked bs malloc now ext ut d idx = (Inr (), d', idx') \<and>
    file_ok bs d' \<and> size d' = max (size d) (ext_end ext) \<and> dirty idx' \<and>
    (\<forall>x. file_map bs (extentlist d') x =
       (if fileoffset ext \<le> x \<and> x < fileoffset ext + bytecount ext then Some (tape_byte bs ext x)
        else file_map bs (extentlist d) x))"
proof -
  let ?es = "extentlist d"
  have "\<exists>ur es. add_extent_loop bs ext malloc 1 (rev ?es) [] (realsize d) = (Inr ur, es) \<and>
      placed bs ext (rev (rev ?es) @ []) ur es"
    by (rule add_extent_loop_correct) (use assms in \<open>auto simp: file_ok_def\<close>)
  then obtain used rs es where r: "add_extent_loop bs ext malloc 1 (rev ?es) [] (realsize d) = (Inr (used, rs), es)"
      and p: "placed bs ext ?es (used, rs) es"
    by auto
  define es' where "es' = (if used then es else ext # es)"
  define rs' where "rs' = (if used then rs else add64 rs (bytecount ext))"
  define d' where "d' = (let d = d\<lparr>extentlist := es', size := max (size d) (ext_end ext), realsize := rs'\<rparr>;
      d = (if ut then d\<lparr>modify_time := now, change_time := now\<rparr> else d) in d\<lparr>extents_dirty := True\<rparr>)"
  have d': "extentlist d' = es'" "size d' = max (size d) (ext_end ext)" "realsize d' = rs'"
    by (simp_all add: d'_def Let_def)
  have "ltfs_fsraw_add_extent_unlocked bs malloc now ext ut d idx = (Inr (), d', ltfs_set_index_dirty False idx)"
    using assms(4) unfolding ltfs_fsraw_add_extent_unlocked_def Let_def r
    by (simp add: ext_ok_add64(1) [OF assms(2)] es'_def rs'_def d'_def max_def Let_def)
  moreover have ok: "exts_ok bs es'" "rs' = total es'" "file_map bs es' = overlay bs ext (file_map bs ?es)"
    using p by (cases used; simp add: placed_def es'_def rs'_def Let_def)+
  moreover have "file_ok bs d'"
  proof -
    have "x < max (size d) (ext_end ext)" if "file_map bs es' x \<noteq> None" for x
      using assms(1) that ok(3) file_map_bound [of ?es "size d" bs]
      by (auto simp: file_ok_def overlay_def covers_def less_max_iff_disj split: if_splits)
    then show ?thesis
      using ok d' file_map_bound [of es' "size d'" bs] by (simp add: file_ok_def)
  qed
  moreover have "dirty (ltfs_set_index_dirty False idx)" by (simp add: ltfs_set_index_dirty_def)
  ultimately show ?thesis
    using d' by (auto simp: overlay_def covers_def ext_end_def)
qed

text \<open>
  C22. Adding an extent to a file whose extents are ordered, disjoint and counted, with enough memory,
  succeeds and overlays exactly the new extent's range: every offset in the range maps to the new
  extent's tape byte, every other offset keeps its tape byte. The resulting list is ordered, disjoint
  and again counted by \<open>realsize\<close>, and \<open>size\<close> grows to the end of the new extent if that is larger.
\<close>

theorem add_extent_overlays:
  assumes "file_ok bs d" and "ext_ok bs ext" and "bs \<le> U32" and "\<forall>i. malloc i"
  shows "\<exists>d' idx'. ltfs_fsraw_add_extent_unlocked bs malloc now ext ut d idx = (Inr (), d', idx') \<and>
    file_ok bs d' \<and> size d' = max (size d) (ext_end ext) \<and> dirty idx' \<and>
    (\<forall>x. file_map bs (extentlist d') x =
       (if fileoffset ext \<le> x \<and> x < fileoffset ext + bytecount ext then Some (tape_byte bs ext x)
        else file_map bs (extentlist d) x))"
  using assms by (rule add_extent_ok)

definition ext1 :: extent_info where
  "ext1 = \<lparr>partition = CHR ''b'', block = 5, byteoffset = 0, bytecount = 1000, fileoffset = 0\<rparr>"

definition ext2 :: extent_info where
  "ext2 = \<lparr>partition = CHR ''b'', block = 9, byteoffset = 0, bytecount = 100, fileoffset = 300\<rparr>"

definition file1 :: dentry where
  "file1 = \<lparr>extentlist = [ext1], size = 1000, realsize = 1000, extents_dirty = False,
     modify_time = (0, 0), change_time = (0, 0), access_time = (0, 0)\<rparr>"

definition index1 :: ltfs_index where
  "index1 = \<lparr>idx_creator = None, generation = 1, mod_time = (0, 0), selfptr = (CHR ''a'', 5), backptr = (CHR ''b'', 5), dirty = False, atime_dirty = False, use_atime = False, version = 0\<rparr>"

lemma file1_ok: "file_ok 512 file1" and ext2_ok: "ext_ok 512 ext2"
  by (simp_all add: file1_def ext1_def ext2_def file_ok_def exts_ok_def ext_ok_def ext_end_def U64_def)

theorem add_extent_overlays_witness:
  "file_map 512 (extentlist (fst (snd (ltfs_fsraw_add_extent_unlocked 512 (\<lambda>_. True) (7, 0) ext2 True file1 index1)))) 350
     = Some (CHR ''b'', 9, 50)"
proof -
  have "350 < fileoffset ext2 + bytecount ext2" "fileoffset ext2 \<le> 350" "tape_byte 512 ext2 350 = (CHR ''b'', 9, 50)"
    by (simp_all add: ext2_def tape_byte_def)
  then show ?thesis
    using add_extent_overlays [OF file1_ok ext2_ok, of "\<lambda>_. True" "(7, 0)" True index1]
    by (auto simp: U32_def)
qed

text \<open>Only a split can fail, and it happens before any other entry has been touched.\<close>

lemma entry_update_Inl:
  assumes "entry_update bs ext malloc k e rs = Inl er" and "ext_ok bs e" and "ext_ok bs ext"
  shows "er = LTFS_NO_MEMORY" "ext_end ext < ext_end e" "fileoffset e < fileoffset ext"
  using assms(1) ext_ok_add64(1) [OF assms(2)] ext_ok_add64(1) [OF assms(3)]
  by (auto simp: entry_update_def Let_def not_le split: if_splits)

lemma add_extent_loop_no_split:
  assumes "\<forall>e\<in>set pre. ext_ok bs e \<and> ext_end e \<le> ext_end ext" and "ext_ok bs ext"
  shows "\<exists>ur es. add_extent_loop bs ext malloc k pre suf rs = (Inr ur, es)"
  using assms(1)
proof (induction pre arbitrary: suf rs k)
  case (Cons e pre)
  then have "entry_update bs ext malloc k e rs \<noteq> Inl er" for er
    using entry_update_Inl(2) [of bs ext malloc k e rs er] assms(2) by auto
  then obtain s k' where "entry_update bs ext malloc k e rs = Inr (s, k')"
    by (metis old.sum.exhaust surj_pair)
  with Cons show ?case by (auto split: option.splits)
qed auto

lemma entry_update_behind:
  assumes "ext_ok bs e" and "ext_ok bs ext" and "ext_end ext \<le> fileoffset e"
  shows "entry_update bs ext malloc k e rs = Inr (entry_state_of bs e [] rs, k)"
proof -
  have "fileoffset ext \<le> ext_end ext" by (simp add: ext_end_def)
  with assms show ?thesis
    using ext_ok_add64 [OF assms(1)] ext_ok_add64(1) [OF assms(2)]
    by (simp add: entry_update_def Let_def entry_state_of_def)
qed

lemma add_extent_loop_Inl:
  assumes "add_extent_loop bs ext malloc k pre suf rs = (Inl er, es)"
    and "exts_ok bs (rev pre @ suf)" and ext: "ext_ok bs ext"
  shows "er = LTFS_NO_MEMORY \<and> es = rev pre @ suf"
  using assms(1,2)
proof (induction pre arbitrary: suf rs k)
  case (Cons e pre)
  have ok: "ext_ok bs e" "\<forall>f\<in>set pre. ext_ok bs f \<and> ext_end f \<le> fileoffset e"
    using Cons.prems(2) by (auto simp: exts_ok_simps) (auto simp: exts_ok_def)
  show ?case
  proof (cases "entry_update bs ext malloc k e rs")
    case (Inl er')
    then show ?thesis using Cons.prems entry_update_Inl(1) [OF Inl ok(1) ext] by simp
  next
    case (Inr sk)
    have "ext_end ext \<le> fileoffset e"
    proof (rule ccontr)
      assume "\<not> ext_end ext \<le> fileoffset e"
      then have "\<forall>f\<in>set pre. ext_ok bs f \<and> ext_end f \<le> ext_end ext" using ok by auto
      with add_extent_loop_no_split [OF this ext]
      have "\<exists>ur es. add_extent_loop bs ext malloc k'' pre s'' r'' = (Inr ur, es)" for k'' s'' r'' by blast
      then show False using Cons.prems(1) Inr
        by (auto split: prod.splits option.splits if_splits) (metis Inl_Inr_False Pair_inject)+
    qed
    then have upd: "entry_update bs ext malloc k e rs = Inr (entry_state_of bs e [] rs, k)"
      using ok(1) ext by (rule entry_update_behind [rotated 2])
    show ?thesis
    proof (cases "fileoffset ext < ext_end e")
      case True
      then show ?thesis
        using Cons.IH [of k "e # suf" rs] Cons.prems loop_goes_on [OF upd] by simp
    next
      case False
      then show ?thesis using Cons.prems(1) upd by (simp add: entry_state_of_def split: if_splits)
    qed
  qed
qed simp

text \<open>
  When memory runs out, adding an extent reports \<open>LTFS_NO_MEMORY\<close> and leaves the file and the index
  flags as they were: no entry is lost or half updated.
\<close>

theorem add_extent_failure_keeps_file:
  assumes "file_ok bs d" and "ext_ok bs ext"
    and "ltfs_fsraw_add_extent_unlocked bs malloc now ext ut d idx = (Inl er, d', idx')"
  shows "er = LTFS_NO_MEMORY \<and> d' = d \<and> idx' = idx"
proof (cases "malloc 0")
  case True
  obtain r es where r: "add_extent_loop bs ext malloc 1 (rev (extentlist d)) [] (realsize d) = (r, es)"
    by fastforce
  with True assms(3) have "r = Inl er" "d' = d\<lparr>extentlist := es\<rparr>" "idx' = idx"
    unfolding ltfs_fsraw_add_extent_unlocked_def Let_def r
    by (auto split: sum.splits prod.splits)
  moreover from this r have "er = LTFS_NO_MEMORY \<and> es = extentlist d"
    using add_extent_loop_Inl [of bs ext malloc 1 "rev (extentlist d)" "[]" "realsize d" er es] assms(1,2)
    by (simp add: file_ok_def)
  ultimately show ?thesis by simp
next
  case False
  then show ?thesis using assms(3) by (simp add: ltfs_fsraw_add_extent_unlocked_def)
qed

theorem add_extent_failure_keeps_file_witness:
  "ltfs_fsraw_add_extent_unlocked 512 (\<lambda>i. i = 0) (7, 0) ext2 True file1 index1 = (Inl LTFS_NO_MEMORY, file1, index1)"
proof -
  obtain er d' idx' where
    r: "ltfs_fsraw_add_extent_unlocked 512 (\<lambda>i. i = 0) (7, 0) ext2 True file1 index1 = (Inl er, d', idx')"
    by (simp add: ltfs_fsraw_add_extent_unlocked_def entry_update_def file1_def ext1_def ext2_def add64_def U64_def)
  then show ?thesis using add_extent_failure_keeps_file [OF file1_ok ext2_ok r] by simp
qed

section \<open>Truncating\<close>

lemma truncate_loop_correct:
  assumes "exts_ok bs (rev pre @ suf)" and "\<forall>f\<in>set suf. ext_end f \<le> u" and "rs = total pre + total suf"
    and bs: "0 < bs" "bs \<le> U64"
  shows "\<exists>es. truncate_loop u pre suf rs = (es, total es) \<and> exts_ok bs es \<and>
    (\<forall>x. file_map bs es x = (if x < u then file_map bs (rev pre @ suf) x else None))"
  using assms(1-3)
proof (induction pre arbitrary: suf rs)
  case Nil
  then have "file_map bs suf x = None" if "\<not> x < u" for x
    using that by (fastforce simp: file_map_None covers_def)
  with Nil show ?case by auto
next
  case (Cons e pre)
  have ok: "exts_ok bs (rev pre @ e # suf)" and e: "ext_ok bs e"
    and pre: "\<forall>f\<in>set pre. ext_end f \<le> fileoffset e"
    using Cons.prems(1) by (auto simp: exts_ok_simps)
  have rs: "bytecount e \<le> rs" "rs < U64" using Cons.prems(3) total_less [OF ok] bs by auto
  have last: "add64 (fileoffset e) (bytecount e) = ext_end e" "ext_end e < U64"
    using ext_ok_add64 [OF e] by auto
  consider (delete) "fileoffset e \<ge> u \<or> u = 0" | (cut) "fileoffset e < u" "u < ext_end e"
    | (stop) "fileoffset e < u" "ext_end e \<le> u"
    by linarith
  then show ?case
  proof cases
    case delete
    have "truncate_loop u (e # pre) suf rs = truncate_loop u pre suf (rs - bytecount e)"
      using delete rs by (simp add: Let_def sub64_exact)
    moreover have "exts_ok bs (rev pre @ suf)" using ok by (auto simp: exts_ok_simps)
    moreover have "file_map bs (rev pre @ suf) x = file_map bs (rev (e # pre) @ suf) x" if "x < u" for x
      using that delete by (auto simp: file_map_append covers_def split: option.splits)
    ultimately show ?thesis
      using Cons.IH [of suf "rs - bytecount e"] Cons.prems(2,3) by auto
  next
    case cut
    let ?e = "cut_end e u" and ?rs = "rs - (ext_end e - u)"
    have "sub64 rs (sub64 (ext_end e) u) = ?rs" "sub64 u (fileoffset e) = u - fileoffset e"
      using cut rs last(2) by (simp_all add: sub64_exact ext_end_def)
    then have "truncate_loop u (e # pre) suf rs = truncate_loop u pre (?e # suf) ?rs"
      using cut last(1) by (simp add: Let_def cut_end_def)
    moreover have "exts_ok bs (rev pre @ ?e # suf)"
      using ok cut cut_end_ok [OF e, of u] by (auto simp: exts_ok_simps)
    moreover have "?rs = total pre + total (?e # suf)"
      using Cons.prems(3) cut by (simp add: ext_end_def)
    moreover have "file_map bs (rev pre @ ?e # suf) x = file_map bs (rev (e # pre) @ suf) x" if "x < u" for x
      using that cut by (auto simp: file_map_append covers_def split: option.splits)
    ultimately show ?thesis
      using Cons.IH [of "?e # suf" ?rs] Cons.prems(2) cut by auto
  next
    case stop
    have "\<forall>f\<in>set (rev pre @ e # suf). ext_end f \<le> u"
      using stop pre Cons.prems(2) by auto
    then have "file_map bs (rev pre @ e # suf) x = None" if "\<not> x < u" for x
      unfolding file_map_None using that by (fastforce simp: covers_def)
    with stop ok show ?thesis
      using last(1) Cons.prems(3) by (auto simp: Let_def)
  qed
qed

text \<open>
  C23. Truncating a file to \<open>u\<close> bytes (shorter or longer) cuts its map at \<open>u\<close>: offsets below \<open>u\<close> keep their
  tape byte, no offset from \<open>u\<close> on is mapped, the size is \<open>u\<close>, and the extents stay ordered, disjoint and
  counted by \<open>realsize\<close>.
\<close>

theorem truncate_cuts_map:
  assumes "file_ok bs d" and "0 < bs" and "bs \<le> U64"
  shows "let (d', idx') = ltfs_fsraw_truncate now u d idx in
    file_ok bs d' \<and> size d' = u \<and> dirty idx' \<and>
    (\<forall>x. file_map bs (extentlist d') x = (if x < u then file_map bs (extentlist d) x else None))"
proof -
  let ?es = "extentlist d"
  have bound: "x < size d" if "file_map bs ?es x \<noteq> None" for x
    using that assms(1) file_map_bound [of ?es "size d" bs] by (auto simp: file_ok_def)
  have "\<exists>es. (if u < size d \<and> ?es \<noteq> [] then truncate_loop u (rev ?es) [] (realsize d) else (?es, realsize d))
      = (es, total es) \<and> exts_ok bs es \<and> (\<forall>x. file_map bs es x = (if x < u then file_map bs ?es x else None))"
  proof (cases "u < size d \<and> ?es \<noteq> []")
    case True
    then show ?thesis
      using truncate_loop_correct [of bs "rev ?es" "[]" u "realsize d", unfolded rev_rev_ident append_Nil2] assms
      by (simp add: file_ok_def split del: if_split)
  next
    case False
    then have "file_map bs ?es x = None" if "\<not> x < u" for x
      using bound [of x] that by (cases "?es = []"; cases "file_map bs ?es x") (auto simp: not_less)
    with False assms(1) show ?thesis by (auto simp: file_ok_def)
  qed
  then obtain es where r: "(if u < size d \<and> ?es \<noteq> [] then truncate_loop u (rev ?es) [] (realsize d) else (?es, realsize d))
      = (es, total es)" and ok: "exts_ok bs es"
      and m: "\<forall>x. file_map bs es x = (if x < u then file_map bs ?es x else None)"
    by blast
  have "\<forall>e\<in>set es. 0 < bytecount e \<longrightarrow> ext_end e \<le> u"
    unfolding file_map_bound [of es u bs] using m by auto
  with ok m show ?thesis
    unfolding ltfs_fsraw_truncate_def r by (simp add: file_ok_def ltfs_set_index_dirty_def Let_def)
qed

theorem truncate_cuts_map_witness:
  "file_map 512 (extentlist (fst (ltfs_fsraw_truncate (1, 0) 600 file1 index1))) 599 = Some (CHR ''b'', 6, 87) \<and>
   file_map 512 (extentlist (fst (ltfs_fsraw_truncate (1, 0) 600 file1 index1))) 600 = None"
proof -
  have "file_map 512 (extentlist file1) 599 = Some (CHR ''b'', 6, 87)"
    by (simp add: file1_def ext1_def covers_def ext_end_def tape_byte_def)
  then show ?thesis
    using truncate_cuts_map [OF file1_ok, of "(1, 0)" 600 index1] by (simp add: U64_def split: prod.splits)
qed

end
