(* ===== verification/Ltfs_Label.thy ===== *)
theory Ltfs_Label
  imports Ltfs_Prelude
begin

text \<open>
  Volume labels: \<^verbatim>\<open>libltfs/label.c\<close>, the part of \<^verbatim>\<open>ltfs_read_labels\<close> (\<^verbatim>\<open>libltfs/ltfs_internal.c\<close>) that
  combines the labels of the two partitions, and the mapping between partition letters and partition
  numbers (\<^verbatim>\<open>ltfs_part_id2num\<close> of \<^verbatim>\<open>libltfs/ltfs.c\<close>). A C string in a fixed array is the list of its
  characters in front of the terminating null.
\<close>

section \<open>Labels\<close>

record ltfs_label =
  creator :: string
  label_version :: nat
  barcode :: string
  vol_uuid :: string
  format_time :: "int \<times> int"
  blocksize :: nat
  enable_compression :: bool
  this_partition :: char
  partid_dp :: char
  partid_ip :: char
  part_num2id :: "nat \<Rightarrow> char"

definition LTFS_LABEL_VERSION :: nat where
  "LTFS_LABEL_VERSION = 10000 * 2 + 100 * 2 + 0"

text \<open>A fresh label is all zero but for the version.\<close>

definition label_alloc :: ltfs_label where
  "label_alloc = \<lparr>creator = [], label_version = LTFS_LABEL_VERSION, barcode = [], vol_uuid = [], format_time = (0, 0),
     blocksize = 0, enable_compression = False, this_partition = CHR 0x00, partid_dp = CHR 0x00,
     partid_ip = CHR 0x00, part_num2id = (\<lambda>_. CHR 0x00)\<rparr>"

definition ltfs_is_valid_partid :: "char \<Rightarrow> bool" where
  "ltfs_is_valid_partid c \<longleftrightarrow> of_char c \<ge> (of_char CHR ''a'' :: nat) \<and> of_char c \<le> (of_char CHR ''z'' :: nat)"

text \<open>\<open>strncmp\<close> on strings without a null character is \<open>0\<close> when the first \<open>n\<close> characters agree.\<close>

definition strncmp_eq :: "nat \<Rightarrow> string \<Rightarrow> string \<Rightarrow> bool" where
  "strncmp_eq n a b \<longleftrightarrow> take n a = take n b"

fun barcode_chars_ok :: "string \<Rightarrow> bool" where
  "barcode_chars_ok [] = True"
| "barcode_chars_ok (c # cs) =
     (let k = (of_char c :: nat) in
      if (k < of_char CHR ''0'' \<or> k > of_char CHR ''9'') \<and> (k < of_char CHR ''A'' \<or> k > of_char CHR ''Z'')
      then False else barcode_chars_ok cs)"

definition label_compare :: "ltfs_label \<Rightarrow> ltfs_label \<Rightarrow> err + unit" where
  "label_compare label1 label2 =
     (if \<not> strncmp_eq 6 (barcode label1) (barcode label2) then Inl LTFS_LABEL_MISMATCH
      else if \<not> strncmp_eq 36 (vol_uuid label1) (vol_uuid label2) then Inl LTFS_LABEL_MISMATCH
      else if fst (format_time label1) \<noteq> fst (format_time label2) \<or> snd (format_time label1) \<noteq> snd (format_time label2)
      then Inl LTFS_LABEL_MISMATCH
      else if blocksize label1 \<noteq> blocksize label2 then Inl LTFS_LABEL_MISMATCH
      else if enable_compression label1 \<noteq> enable_compression label2 then Inl LTFS_LABEL_MISMATCH
      else if \<not> ltfs_is_valid_partid (partid_dp label1) \<or> \<not> ltfs_is_valid_partid (partid_ip label1)
      then Inl LTFS_LABEL_MISMATCH
      else if partid_dp label1 = partid_ip label1 then Inl LTFS_LABEL_MISMATCH
      else if partid_dp label2 \<noteq> partid_dp label1 \<or> partid_ip label2 \<noteq> partid_ip label1 then Inl LTFS_LABEL_MISMATCH
      else if (this_partition label1 \<noteq> partid_dp label1 \<and> this_partition label1 \<noteq> partid_ip label1) \<or>
              (this_partition label2 \<noteq> partid_dp label1 \<and> this_partition label2 \<noteq> partid_ip label1)
      then Inl LTFS_LABEL_MISMATCH
      else if this_partition label1 = this_partition label2 then Inl LTFS_LABEL_MISMATCH
      else if label_version label1 \<noteq> label_version label2 then Inl LTFS_LABEL_MISMATCH
      else if barcode label1 \<noteq> [] \<and> hd (barcode label1) = CHR '' '' then Inr ()
      else if barcode_chars_ok (barcode label1) then Inr () else Inl LTFS_LABEL_MISMATCH)"

text \<open>The ANSI label: \<open>memcpy\<close> into a buffer of \<open>n\<close> blanks.\<close>

definition store :: "nat \<Rightarrow> string \<Rightarrow> string \<Rightarrow> string" where
  "store i src buf = take i buf @ src @ drop (i + length src) buf"

definition label_make_ansi_label :: "ltfs_label \<Rightarrow> nat \<Rightarrow> string" where
  "label_make_ansi_label label n =
     (let buf = replicate n CHR '' '';
          buf = store 0 ''VOL1'' buf;
          buf = (if length (barcode label) > 0 then store 4 (take 6 (barcode label)) buf else buf);
          buf = buf[10 := CHR ''L''];
          buf = store 24 ''LTFS'' buf
      in buf[n - 1 := CHR ''4''])"

section \<open>The two labels of a volume\<close>

text \<open>
  \<open>r0\<close> and \<open>r1\<close> are what \<^verbatim>\<open>ltfs_read_one_label\<close> returned for the two partitions. A failed allocation of either of the two
  labels ends the function before it reads them: it is \<open>r0 = Inl LTFS_NO_MEMORY\<close>.
\<close>

definition ltfs_read_labels :: "err + ltfs_label \<Rightarrow> err + ltfs_label \<Rightarrow> ltfs_label \<Rightarrow> (unit, ltfs_label) result" where
  "ltfs_read_labels r0 r1 vol_label =
     (case r0 of Inl e \<Rightarrow> (Inl e, vol_label)
      | Inr label0 \<Rightarrow> (case r1 of Inl e \<Rightarrow> (Inl e, vol_label)
      | Inr label1 \<Rightarrow> (case label_compare label0 label1 of Inl e \<Rightarrow> (Inl e, vol_label)
      | Inr _ \<Rightarrow> (Inr (), vol_label\<lparr>creator := creator label0, barcode := take 6 (barcode label0),
          vol_uuid := take 36 (vol_uuid label0), format_time := format_time label0, blocksize := blocksize label0,
          enable_compression := enable_compression label0, partid_dp := partid_dp label0, partid_ip := partid_ip label0,
          part_num2id := (part_num2id vol_label)(0 := this_partition label0, 1 := this_partition label1),
          label_version := label_version label0\<rparr>))))"

text \<open>\<open>(tape_partition_t)-1\<close> for an unknown letter.\<close>

definition ltfs_part_id2num :: "char \<Rightarrow> ltfs_label \<Rightarrow> nat" where
  "ltfs_part_id2num c label =
     (if part_num2id label 0 = c then 0 else if part_num2id label 1 = c then 1 else U32 - 1)"

section \<open>Matching labels\<close>

text \<open>What makes two labels the labels of one volume.\<close>

definition same_volume :: "ltfs_label \<Rightarrow> ltfs_label \<Rightarrow> bool" where
  "same_volume l1 l2 \<longleftrightarrow>
     take 6 (barcode l1) = take 6 (barcode l2) \<and> take 36 (vol_uuid l1) = take 36 (vol_uuid l2) \<and>
     format_time l1 = format_time l2 \<and> blocksize l1 = blocksize l2 \<and> enable_compression l1 = enable_compression l2 \<and>
     label_version l1 = label_version l2 \<and> partid_dp l1 = partid_dp l2 \<and> partid_ip l1 = partid_ip l2 \<and>
     ltfs_is_valid_partid (partid_dp l1) \<and> ltfs_is_valid_partid (partid_ip l1) \<and>
     {this_partition l1, this_partition l2} = {partid_dp l1, partid_ip l1} \<and> partid_dp l1 \<noteq> partid_ip l1 \<and>
     (barcode l1 \<noteq> [] \<and> hd (barcode l1) = CHR '' '' \<or> barcode_chars_ok (barcode l1))"

lemma if_Inl: "((if c then Inl e else r) = Inr x) = (\<not> c \<and> r = Inr x)"
  by simp

lemma if_mem: "x \<in> S \<Longrightarrow> y \<in> S \<Longrightarrow> (if c then x else y) \<in> S"
  by simp

lemma label_compare_iff: "label_compare l1 l2 = Inr () \<longleftrightarrow> same_volume l1 l2"
proof -
  have last: "(if c then Inr () else if d then Inr () else Inl LTFS_LABEL_MISMATCH) = Inr () \<longleftrightarrow> c \<or> d" for c d
    by simp
  show ?thesis
    unfolding label_compare_def same_volume_def strncmp_eq_def if_Inl last prod_eq_iff doubleton_eq_iff by metis
qed

text \<open>
  \<^verbatim>\<open>label_compare\<close> accepts two labels exactly when they belong to the two partitions of one volume: the
  shared fields agree, the partition letters are valid and different, one label is the data
  partition's and the other the index partition's, and the bar code is valid or blank. For bar codes
  that fit their array the answer does not depend on the order of the labels.
\<close>

theorem label_compare_same_volume:
  assumes "length (barcode l1) \<le> 6" and "length (barcode l2) \<le> 6"
  shows "(label_compare l1 l2 = Inr () \<longleftrightarrow> same_volume l1 l2) \<and> label_compare l1 l2 = label_compare l2 l1"
proof -
  have b: "take 6 (barcode l1) = barcode l1" "take 6 (barcode l2) = barcode l2" using assms by simp_all
  have "same_volume l1 l2 \<Longrightarrow> same_volume l2 l1" "same_volume l2 l1 \<Longrightarrow> same_volume l1 l2"
    unfolding same_volume_def b by (metis insert_commute)+
  then have "same_volume l1 l2 = same_volume l2 l1" by blast
  moreover have "label_compare a b \<in> {Inr (), Inl LTFS_LABEL_MISMATCH}" for a b
    unfolding label_compare_def by (intro if_mem) simp_all
  then have "label_compare a b = (if same_volume a b then Inr () else Inl LTFS_LABEL_MISMATCH)" for a b
    using label_compare_iff [of a b] by (metis insertE singletonD)
  ultimately show ?thesis by simp
qed

definition labelA :: ltfs_label where
  "labelA = label_alloc\<lparr>barcode := ''ABC123'', blocksize := 524288, partid_dp := CHR ''b'', partid_ip := CHR ''a'',
     this_partition := CHR ''a''\<rparr>"

definition labelB :: ltfs_label where
  "labelB = labelA\<lparr>this_partition := CHR ''b''\<rparr>"

lemma labelA_labelB: "label_compare labelA labelB = Inr ()"
  by (simp add: label_compare_def labelA_def labelB_def label_alloc_def strncmp_eq_def ltfs_is_valid_partid_def)

theorem label_compare_same_volume_witness:
  "(label_compare labelA labelB = Inr () \<longleftrightarrow> same_volume labelA labelB) \<and> label_compare labelA labelB = Inr ()"
proof -
  have "length (barcode labelA) \<le> 6" "length (barcode labelB) \<le> 6" by (simp_all add: labelA_def labelB_def)
  then show ?thesis using label_compare_same_volume labelA_labelB by blast
qed

text \<open>
  C34. After the two labels were read and accepted, the letters of the index and the data partition are
  mapped to the two partition numbers, to different ones, and back.
\<close>

theorem read_labels_partition_map:
  assumes "ltfs_read_labels r0 r1 l = (Inr (), l')"
  shows "{ltfs_part_id2num (partid_ip l') l', ltfs_part_id2num (partid_dp l') l'} = {0, 1} \<and>
    ltfs_part_id2num (partid_ip l') l' \<noteq> ltfs_part_id2num (partid_dp l') l' \<and>
    (\<forall>i<2. ltfs_part_id2num (part_num2id l' i) l' = i) \<and>
    part_num2id l' (ltfs_part_id2num (partid_ip l') l') = partid_ip l' \<and>
    part_num2id l' (ltfs_part_id2num (partid_dp l') l') = partid_dp l'"
proof -
  obtain l0 l1 where r: "r0 = Inr l0" "r1 = Inr l1" "label_compare l0 l1 = Inr ()"
    using assms unfolding ltfs_read_labels_def by (cases r0; cases r1) (force split: sum.splits)+
  then have s: "same_volume l0 l1" by (simp add: label_compare_iff)
  have l': "part_num2id l' 0 = this_partition l0" "part_num2id l' 1 = this_partition l1"
      "partid_ip l' = partid_ip l0" "partid_dp l' = partid_dp l0"
    using assms by (simp_all add: ltfs_read_labels_def r) (drule sym, simp)+
  have lt: "(i::nat) < 2 \<longleftrightarrow> i = 0 \<or> i = 1" for i by auto
  from s consider "this_partition l0 = partid_dp l0" "this_partition l1 = partid_ip l0" "partid_dp l0 \<noteq> partid_ip l0"
    | "this_partition l0 = partid_ip l0" "this_partition l1 = partid_dp l0" "partid_dp l0 \<noteq> partid_ip l0"
    by (auto simp: same_volume_def doubleton_eq_iff)
  then show ?thesis
    by cases (simp_all add: ltfs_part_id2num_def l' l' [unfolded One_nat_def] lt insert_commute)
qed

theorem read_labels_partition_map_witness:
  "\<exists>l'. ltfs_read_labels (Inr labelA) (Inr labelB) label_alloc = (Inr (), l') \<and>
     ltfs_part_id2num (partid_ip l') l' \<noteq> ltfs_part_id2num (partid_dp l') l'"
proof -
  have "fst (ltfs_read_labels (Inr labelA) (Inr labelB) label_alloc) = Inr ()"
    unfolding ltfs_read_labels_def labelA_labelB sum.case fst_conv ..
  then obtain l' where l': "ltfs_read_labels (Inr labelA) (Inr labelB) label_alloc = (Inr (), l')"
    by (cases "ltfs_read_labels (Inr labelA) (Inr labelB) label_alloc") simp
  from read_labels_partition_map [OF l'] have "ltfs_part_id2num (partid_ip l') l' \<noteq> ltfs_part_id2num (partid_dp l') l'"
    by (elim conjE)
  with l' show ?thesis by (intro exI [of _ l'] conjI)
qed

lemma store_at: "store (length a) s (a @ b) = a @ s @ drop (length s) b"
  by (simp add: store_def)

text \<open>
  The ANSI label of \<open>80\<close> characters has \<open>VOL1\<close>, the bar code padded with blanks to six characters, the
  \<open>L\<close>, \<open>LTFS\<close> and the final \<open>4\<close> at the offsets that the label format asks for, and blanks elsewhere
  in front of \<open>LTFS\<close>.
\<close>

theorem ansi_label_layout:
  assumes "length (barcode l) \<le> 6"
  shows "label_make_ansi_label l 80 =
    ''VOL1'' @ barcode l @ replicate (6 - length (barcode l)) CHR '' '' @ ''L'' @ replicate 13 CHR '' '' @
    ''LTFS'' @ replicate 51 CHR '' '' @ ''4''"
proof -
  let ?w = "replicate (6 - length (barcode l)) CHR '' ''"
  have vol1: "store 0 ''VOL1'' (replicate 80 CHR '' '') = ''VOL1'' @ replicate 76 CHR '' ''"
    by (simp add: store_def)
  have at4: "store 4 x (''VOL1'' @ R) = ''VOL1'' @ x @ drop (length x) R" for x R
    using store_at [of "''VOL1''" x R] by (simp add: numeral_eq_Suc)
  have "(if length (barcode l) > 0 then store 4 (take 6 (barcode l)) (store 0 ''VOL1'' (replicate 80 CHR '' ''))
       else store 0 ''VOL1'' (replicate 80 CHR '' '')) = ''VOL1'' @ barcode l @ replicate (76 - length (barcode l)) CHR '' ''"
    unfolding vol1 at4 using assms by simp
  also have "\<dots> = (''VOL1'' @ barcode l @ ?w) @ replicate 70 CHR '' ''"
    using assms by (simp add: replicate_add [symmetric])
  finally have b: "(if length (barcode l) > 0 then store 4 (take 6 (barcode l)) (store 0 ''VOL1'' (replicate 80 CHR '' ''))
       else store 0 ''VOL1'' (replicate 80 CHR '' '')) = (''VOL1'' @ barcode l @ ?w) @ replicate 70 CHR '' ''" .
  define p where "p = ''VOL1'' @ barcode l @ ?w"
  have len: "length p = 10" using assms by (simp add: p_def)
  have "(p @ replicate 70 CHR '' '')[10 := CHR ''L''] = p @ ''L'' @ replicate 69 CHR '' ''"
    using len by (simp add: list_update_append) (simp add: numeral_eq_Suc)
  moreover have "store 24 ''LTFS'' (p @ ''L'' @ replicate 69 CHR '' '') =
      p @ ''L'' @ replicate 13 CHR '' '' @ ''LTFS'' @ replicate 52 CHR '' ''"
    using len by (simp add: store_def)
  moreover have "replicate 52 CHR '' '' = replicate 51 CHR '' '' @ [CHR '' '']"
    by (simp add: replicate_append_same numeral_eq_Suc)
  moreover have "(p @ ''L'' @ replicate 13 CHR '' '' @ ''LTFS'' @ replicate 51 CHR '' '' @ [CHR '' ''])[79 := CHR ''4''] =
      p @ ''L'' @ replicate 13 CHR '' '' @ ''LTFS'' @ replicate 51 CHR '' '' @ [CHR ''4'']"
    using len by (simp add: list_update_append)
  ultimately show ?thesis
    unfolding label_make_ansi_label_def Let_def b p_def [symmetric] by (simp add: p_def)
qed

theorem ansi_label_layout_witness:
  "label_make_ansi_label labelA 80 = ''VOL1ABC123L'' @ replicate 13 CHR '' '' @ ''LTFS'' @ replicate 51 CHR '' '' @ ''4''"
  using ansi_label_layout [of labelA] by (simp add: labelA_def)

end
