(* ===== verification/Ltfs_Volume.thy ===== *)
theory Ltfs_Volume
  imports Ltfs_Tape Ltfs_Extent Ltfs_Label
begin

text \<open>
  The volume and its index on tape: \<^verbatim>\<open>struct ltfs_volume\<close> (\<^verbatim>\<open>libltfs/ltfs.h\<close>), the callbacks that cut the
  XML text of the index into tape blocks (\<^verbatim>\<open>libltfs/xml_writer.c\<close>, \<^verbatim>\<open>xml_writer_libltfs.c\<close>),
  \<^verbatim>\<open>ltfs_write_index\<close> (\<^verbatim>\<open>libltfs/ltfs.c\<close>), \<^verbatim>\<open>ltfs_write_index_conditional\<close> and
  \<^verbatim>\<open>ltfs_update_cart_coherency\<close> (\<^verbatim>\<open>libltfs/ltfs_internal.c\<close>).

  The text itself comes from libxml2, which is not part of the repository: \<open>xml_doc\<close> of the record
  \<open>xml_env\<close> says which pieces of text the library hands to the write callback. The dentry cache is never
  active in this code (\<^verbatim>\<open>dcache_initialized(NULL)\<close> is false), so that its branches are left out.
\<close>

section \<open>Volumes\<close>

record 's ltfs_volume =
  device :: "'s device_data"
  vol_label :: ltfs_label
  vol_index :: ltfs_index
  ip_coh :: tc_coherency
  dp_coh :: tc_coherency
  app_format_ver :: "byte list option"
  ip_index_file_end :: bool
  dp_index_file_end :: bool
  last_pos :: "char \<times> nat"
  last_size :: nat
  last_block :: "byte list option"
  vol_creator :: string
  reval :: "err option"

definition ltfs_dp_id :: "'s ltfs_volume \<Rightarrow> char" where
  "ltfs_dp_id vol = partid_dp (vol_label vol)"

definition ltfs_ip_id :: "'s ltfs_volume \<Rightarrow> char" where
  "ltfs_ip_id vol = partid_ip (vol_label vol)"

definition ltfs_is_dirty :: "'s ltfs_volume \<Rightarrow> bool" where
  "ltfs_is_dirty vol \<longleftrightarrow> dirty (vol_index vol) \<or> use_atime (vol_index vol) \<and> atime_dirty (vol_index vol)"

definition ltfs_get_partition_readonly :: "char \<Rightarrow> 's ltfs_volume \<Rightarrow> err + unit" where
  "ltfs_get_partition_readonly part vol =
     (if part \<noteq> ltfs_dp_id vol \<and> part \<noteq> ltfs_ip_id vol then Inl LTFS_BAD_PARTNUM
      else tape_read_only (ltfs_part_id2num part (vol_label vol)) (device vol))"

section \<open>The text of the index in blocks\<close>

text \<open>
  The output context: \<open>used\<close> is the filled part of the one-block buffer. The loop of the write callback
  fills the buffer, writes it and goes on while more than one block is left; a failed write leaves the
  filled part as it was.
\<close>

partial_function (option) xml_block_loop ::
    "'s tape_ops \<Rightarrow> nat \<Rightarrow> byte list \<Rightarrow> byte list \<Rightarrow> 's device_data \<Rightarrow> (unit, byte list \<times> 's device_data) result option" where
  "xml_block_loop ops bs used buffer dev =
     (case tape_write ops (used @ take (bs - length used) buffer) True True dev of
        (Inl e, dev) \<Rightarrow> Some (Inl FAILURE, used, dev)
      | (Inr _, dev) \<Rightarrow>
          (if length (drop (bs - length used) buffer) > bs
           then xml_block_loop ops bs [] (drop (bs - length used) buffer) dev
           else Some (Inr (), drop (bs - length used) buffer, dev)))"

definition xml_output_tape_write_callback ::
    "'s tape_ops \<Rightarrow> nat \<Rightarrow> byte list \<Rightarrow> byte list \<times> 's device_data \<Rightarrow> (unit, byte list \<times> 's device_data) result option" where
  "xml_output_tape_write_callback ops bs buffer = (\<lambda>(used, dev).
     if length buffer = 0 then Some (Inr (), used, dev)
     else if to32 (length used + length buffer) < bs then Some (Inr (), used @ buffer, dev)
     else xml_block_loop ops bs used buffer dev)"

definition xml_output_tape_close_callback ::
    "'s tape_ops \<Rightarrow> byte list \<times> 's device_data \<Rightarrow> (unit, 's device_data) result" where
  "xml_output_tape_close_callback ops = (\<lambda>(used, dev).
     if length used > 0
     then case tape_write ops used True True dev of (Inl e, dev) \<Rightarrow> (Inl FAILURE, dev) | (Inr _, dev) \<Rightarrow> (Inr (), dev)
     else (Inr (), dev))"

text \<open>
  What the library does: \<open>xml_alloc\<close> says whether the allocations of \<^verbatim>\<open>xml_schema_to_tape\<close> succeed, in
  their order; \<open>xml_doc\<close> gives the pieces of text that reach the write callback while the document is
  generated, the error that the generation returns (or none), and the pieces that reach it when the
  writer is freed. After an error of the callback the library does not call it again.
\<close>

record xml_env =
  xml_alloc :: "nat \<Rightarrow> bool"
  xml_doc :: "string \<Rightarrow> ltfs_index \<Rightarrow> byte list list \<times> err option \<times> byte list list"

fun xml_feed ::
    "'s tape_ops \<Rightarrow> nat \<Rightarrow> byte list list \<Rightarrow> byte list \<times> 's device_data \<Rightarrow> (unit, byte list \<times> 's device_data) result option" where
  "xml_feed ops bs [] st = Some (Inr (), st)"
| "xml_feed ops bs (c # cs) st = obind (xml_output_tape_write_callback ops bs c st) (\<lambda>_. xml_feed ops bs cs)"

definition xml_set_creator :: "xml_env \<Rightarrow> err + unit \<Rightarrow> 's ltfs_volume \<Rightarrow> (unit, 's ltfs_volume) result" where
  "xml_set_creator xe ret vol =
     (if idx_creator (vol_index vol) = Some (vol_creator vol) then (ret, vol)
      else if xml_alloc xe 5
      then (ret, vol\<lparr>vol_index := (vol_index vol)\<lparr>idx_creator := Some (vol_creator vol)\<rparr>\<rparr>)
      else (Inl FAILURE, vol\<lparr>vol_index := (vol_index vol)\<lparr>idx_creator := None\<rparr>\<rparr>))"

definition xml_schema_to_tape ::
    "'s tape_ops \<Rightarrow> xml_env \<Rightarrow> string \<Rightarrow> 's ltfs_volume \<Rightarrow> (unit, 's ltfs_volume) result option" where
  "xml_schema_to_tape ops xe reason vol =
     (if \<not> xml_alloc xe 0 then Some (Inl LTFS_NO_MEMORY, vol)
      else if \<not> xml_alloc xe 1 then Some (Inl LTFS_NO_MEMORY, vol)
      else if \<not> xml_alloc xe 2 then Some (Inl FAILURE, vol)
      else if \<not> xml_alloc xe 3
      then Some (Inl FAILURE, vol\<lparr>device := snd (xml_output_tape_close_callback ops ([], device vol))\<rparr>)
      else if \<not> xml_alloc xe 4 then Some (Inl FAILURE, vol)
      else
        let bs = to32 (blocksize (vol_label vol));
            (chunks, err, rest) = xml_doc xe (vol_creator vol @ '' - '' @ reason) (vol_index vol)
        in case xml_feed ops bs chunks ([], device vol) of
             None \<Rightarrow> None
           | Some (Inl e, st) \<Rightarrow>
               Some (xml_set_creator xe (Inl e) (vol\<lparr>device := snd (xml_output_tape_close_callback ops st)\<rparr>))
           | Some (Inr _, st) \<Rightarrow>
               (case xml_feed ops bs rest st of
                  None \<Rightarrow> None
                | Some (_, st) \<Rightarrow>
                    Some (xml_set_creator xe (case err of None \<Rightarrow> Inr () | Some e \<Rightarrow> Inl e)
                      (vol\<lparr>device := snd (xml_output_tape_close_callback ops st)\<rparr>))))"

section \<open>Coherency data of the cartridge\<close>

text \<open>The fields that are set for one partition; \<open>strcpy\<close> copies the terminating null too.\<close>

definition set_coh :: "'s ltfs_volume \<Rightarrow> nat \<Rightarrow> char \<Rightarrow> tc_coherency \<Rightarrow> tc_coherency" where
  "set_coh vol vcr part coh =
     (let idx = vol_index vol;
          coh = (if fst (selfptr idx) = part
                 then coh\<lparr>count := of_nat (generation idx), set_id := of_nat (snd (selfptr idx))\<rparr> else coh);
          coh = coh\<lparr>tc_coherency.version := 1, volume_change_ref := of_nat vcr\<rparr>;
          u = map of_char (vol_uuid (vol_label vol)) @ [0]
      in if take 1 (uuid coh) = [0] then coh\<lparr>uuid := u @ drop (length u) (uuid coh)\<rparr> else coh)"

definition ltfs_update_cart_coherency :: "'s tape_ops \<Rightarrow> 's ltfs_volume \<Rightarrow> 's ltfs_volume" where
  "ltfs_update_cart_coherency ops vol =
     (let vcr = snd (tape_get_volume_change_reference ops (device vol)) in
      if vcr = 0 \<or> vcr = U64 - 1 then vol
      else
        let vol = (if ip_index_file_end vol
                   then let coh = set_coh vol vcr (ltfs_ip_id vol) (ip_coh vol)
                        in vol\<lparr>ip_coh := coh, device := snd (tape_set_cart_coherency ops
                             (ltfs_part_id2num (ltfs_ip_id vol) (vol_label vol)) coh (device vol))\<rparr>
                   else vol)
        in if dp_index_file_end vol
           then let coh = set_coh vol vcr (ltfs_dp_id vol) (dp_coh vol)
                in vol\<lparr>dp_coh := coh, device := snd (tape_set_cart_coherency ops
                     (ltfs_part_id2num (ltfs_dp_id vol) (vol_label vol)) coh (device vol))\<rparr>
           else vol)"

section \<open>Writing the index\<close>

text \<open>The new generation of a dirty index, and the way back when the index could not be written.\<close>

definition next_generation :: "ltfs_timespec \<Rightarrow> ltfs_index \<Rightarrow> ltfs_index" where
  "next_generation now idx = idx\<lparr>mod_time := now, generation := to32 (generation idx + 1)\<rparr>"

definition prev_generation :: "bool \<Rightarrow> ltfs_timespec \<Rightarrow> ltfs_index \<Rightarrow> ltfs_index" where
  "prev_generation generation_inc modtime_old idx =
     (if generation_inc
      then idx\<lparr>mod_time := modtime_old, generation := to32 (generation idx + (U32 - 1))\<rparr> else idx)"

text \<open>The last part: the attributes, the append position of the index partition, the update flags.\<close>

definition note_index_end :: "char \<Rightarrow> 's ltfs_volume \<Rightarrow> 's ltfs_volume" where
  "note_index_end part vol =
     (if part = ltfs_ip_id vol then vol\<lparr>ip_index_file_end := True\<rparr> else vol\<lparr>dp_index_file_end := True\<rparr>)"

definition index_done :: "char \<Rightarrow> 's ltfs_volume \<Rightarrow> 's ltfs_volume" where
  "index_done part vol =
     (let vol = (if part = ltfs_ip_id vol
                 then vol\<lparr>device := snd (tape_set_append_position (ltfs_part_id2num part (vol_label vol))
                        (sub64 (snd (selfptr (vol_index vol))) 1) (device vol))\<rparr>
                 else vol)
      in vol\<lparr>vol_index := ltfs_unset_index_dirty True (vol_index vol)\<rparr>)"

definition index_written :: "'s tape_ops \<Rightarrow> char \<Rightarrow> 's ltfs_volume \<Rightarrow> (unit, 's ltfs_volume) result" where
  "index_written ops part vol =
     (let vol = ltfs_update_cart_coherency ops (note_index_end part vol) in
      case tape_update_mam_attributes ops TC_MAM_APP_FORMAT_VERSION (device vol) of
        (Inl e, dev) \<Rightarrow>
          if e = NULL_CALL then (Inl NULL_CALL, vol\<lparr>device := dev\<rparr>) else (Inr (), index_done part (vol\<lparr>device := dev\<rparr>))
      | (Inr _, dev) \<Rightarrow>
          (Inr (), index_done part (case tape_get_app_format_version ops (ltfs_part_id2num (ltfs_ip_id vol) (vol_label vol)) dev of
             Inl _ \<Rightarrow> vol\<lparr>device := dev\<rparr> | Inr v \<Rightarrow> vol\<lparr>device := dev, app_format_ver := Some v\<rparr>)))"

definition SYNC_FORMAT :: string where "SYNC_FORMAT = ''Format''"
definition SYNC_CASCHE_PRESSURE :: string where "SYNC_CASCHE_PRESSURE = ''Cache Pressure''"

text \<open>A call of the tape layer on the device of the volume.\<close>

definition on_dev :: "('s device_data \<Rightarrow> ('a, 's device_data) result) \<Rightarrow> 's ltfs_volume \<Rightarrow> ('a, 's ltfs_volume) result" where
  "on_dev f vol = (case f (device vol) of (r, dev) \<Rightarrow> (r, vol\<lparr>device := dev\<rparr>))"

text \<open>
  Everything from the locate to the last filemark: a flush when data precedes the index of the index
  partition, a filemark, the text, a filemark and a flush. The back pointer and the self pointer are
  set in front of the text, which contains them.
\<close>

definition set_index_pointers :: "'s ltfs_volume \<Rightarrow> ltfs_index" where
  "set_index_pointers vol =
     (let idx = vol_index vol;
          idx = (if fst (selfptr idx) = ltfs_dp_id vol then idx\<lparr>backptr := selfptr idx\<rparr> else idx);
          pos = tape_get_position (device vol)
      in idx\<lparr>selfptr := (part_num2id (vol_label vol) (pos_partition pos), add64 (pos_block pos) 1)\<rparr>)"

definition write_index_file ::
    "'s tape_ops \<Rightarrow> xml_env \<Rightarrow> char \<Rightarrow> string \<Rightarrow> 's ltfs_volume \<Rightarrow> (unit, 's ltfs_volume) result option" where
  "write_index_file ops xe part reason vol =
     (let vol = vol\<lparr>vol_index := set_index_pointers vol\<rparr>
      in obind (Some (if part = ltfs_ip_id vol \<and> \<not> ip_index_file_end vol
                      then on_dev (tape_write_filemark ops 0 True True) vol else (Inr (), vol))) (\<lambda>_ vol.
         obind (Some (on_dev (tape_write_filemark ops 1 True True) vol)) (\<lambda>_ vol.
         obind (xml_schema_to_tape ops xe reason vol) (\<lambda>_ vol.
         obind (Some (on_dev (tape_write_filemark ops 1 True True) vol)) (\<lambda>_ vol.
         Some (on_dev (tape_write_filemark ops 0 True True) vol))))))"

definition write_index_body ::
    "'s tape_ops \<Rightarrow> xml_env \<Rightarrow> (char \<Rightarrow> ltfs_timespec) \<Rightarrow> char \<Rightarrow> string \<Rightarrow> 's ltfs_volume \<Rightarrow> (unit, 's ltfs_volume) result option" where
  "write_index_body ops xe now part reason vol =
     (let generation_inc = ltfs_is_dirty vol;
          modtime_old = mod_time (vol_index vol);
          vol = (if generation_inc then vol\<lparr>vol_index := next_generation (now part) (vol_index vol)\<rparr> else vol)
      in case on_dev (tape_seek_append_position ops (ltfs_part_id2num part (vol_label vol)) (part = partid_ip (vol_label vol))) vol of
           (Inl e, vol) \<Rightarrow> Some (Inl e, vol\<lparr>vol_index := prev_generation generation_inc modtime_old (vol_index vol)\<rparr>)
         | (Inr _, vol) \<Rightarrow>
             (let old_backptr = backptr (vol_index vol); old_selfptr = selfptr (vol_index vol) in
              case write_index_file ops xe part reason vol of
                None \<Rightarrow> None
              | Some (Inl e, vol) \<Rightarrow>
                  Some (Inl e, vol\<lparr>vol_index := (prev_generation generation_inc modtime_old (vol_index vol))
                    \<lparr>backptr := old_backptr, selfptr := old_selfptr\<rparr>\<rparr>)
              | Some (Inr _, vol) \<Rightarrow> Some (index_written ops part vol)))"

text \<open>
  \<open>now\<close> is the time at which the index of each partition is written. The index of the data partition is
  written first when that partition does not end in an index, or when the newest index is on the index
  partition only; its errors are ignored unless the tape may have changed.
\<close>

definition ignorable :: "err + unit \<Rightarrow> bool" where
  "ignorable r \<longleftrightarrow> r = Inr () \<or> r = Inl LTFS_NO_SPACE \<or> r = Inl LTFS_LESS_SPACE"

partial_function (option) ltfs_write_index ::
    "'s tape_ops \<Rightarrow> xml_env \<Rightarrow> (char \<Rightarrow> ltfs_timespec) \<Rightarrow> char \<Rightarrow> string \<Rightarrow> 's ltfs_volume \<Rightarrow> (unit, 's ltfs_volume) result option" where
  "ltfs_write_index ops xe now part reason vol =
     (let r0 = ltfs_get_partition_readonly (ltfs_ip_id vol) vol;
          r = (if ignorable r0 then ltfs_get_partition_readonly (ltfs_dp_id vol) vol else r0)
      in if \<not> ignorable r then Some (r, vol)
         else if part = ltfs_ip_id vol \<and>
                 (\<not> dp_index_file_end vol \<or> (ip_index_file_end vol \<and> fst (selfptr (vol_index vol)) = ltfs_ip_id vol))
         then Option.bind (ltfs_write_index ops xe now (ltfs_dp_id vol) reason vol) (\<lambda>(ret, vol).
           case ret of
             Inl e \<Rightarrow>
               if NEED_REVAL e then Some (Inl e, vol)
               else if IS_UNEXPECTED_MOVE e then Some (Inl e, vol\<lparr>reval := Some LTFS_REVAL_FAILED\<rparr>)
               else write_index_body ops xe now part reason vol
           | Inr _ \<Rightarrow> write_index_body ops xe now part reason vol)
         else write_index_body ops xe now part reason vol)"

definition ltfs_write_index_conditional ::
    "'s tape_ops \<Rightarrow> xml_env \<Rightarrow> (char \<Rightarrow> ltfs_timespec) \<Rightarrow> char \<Rightarrow> 's ltfs_volume \<Rightarrow> (unit, 's ltfs_volume) result option" where
  "ltfs_write_index_conditional ops xe now part vol =
     (if part = ltfs_ip_id vol \<and> \<not> ip_index_file_end vol
      then ltfs_write_index ops xe now part SYNC_CASCHE_PRESSURE vol
      else if part = ltfs_dp_id vol \<and>
              (\<not> dp_index_file_end vol \<or> (ip_index_file_end vol \<and> fst (selfptr (vol_index vol)) = ltfs_ip_id vol))
      then ltfs_write_index ops xe now part SYNC_CASCHE_PRESSURE vol
      else Some (Inr (), vol))"

section \<open>Records appended at the head\<close>

text \<open>
  \<open>wrote\<close> relates a device to the one after some records were written at the position of the head: the
  records follow what precedes the head, the position and the append position are behind them, and the
  other settings are the same. Without records only the append position is set.
\<close>

definition dev_frame :: "('s \<Rightarrow> nat) \<Rightarrow> 's device_data \<Rightarrow> 's device_data \<Rightarrow> bool" where
  "dev_frame mb dev dev' \<longleftrightarrow> mb (backend_data dev') = mb (backend_data dev) \<and> max_block_size dev' = max_block_size dev \<and>
     append_only_mode dev' = append_only_mode dev \<and> fence dev' = fence dev \<and>
     write_error dev' = write_error dev \<and> dev_write_protect dev' = dev_write_protect dev"

definition put_at :: "nat \<Rightarrow> trec list \<Rightarrow> trec list \<Rightarrow> trec list" where
  "put_at n recs t = (if recs = [] then t else take n t @ recs)"

definition wrote :: "('s \<Rightarrow> bool) \<Rightarrow> ('s \<Rightarrow> nat \<times> nat) \<Rightarrow> ('s \<Rightarrow> tape) \<Rightarrow> ('s \<Rightarrow> nat) \<Rightarrow>
    's device_data \<Rightarrow> trec list \<Rightarrow> 's device_data \<Rightarrow> bool" where
  "wrote ok head tape_of mb dev recs dev' \<longleftrightarrow>
     (let p = pos_partition (position dev); n = pos_block (position dev) in
      in_step ok head dev' \<and> dev_frame mb dev dev' \<and> pos_partition (position dev') = p \<and>
      pos_block (position dev') = n + length recs \<and> append_pos dev' = (append_pos dev)(p := n + length recs) \<and>
      tape_of (backend_data dev') = (tape_of (backend_data dev))(p := put_at n recs (tape_of (backend_data dev) p)))"

lemma put_at_put_at:
  "n \<le> length t \<Longrightarrow> put_at (n + length rs) rs' (put_at n rs t) = put_at n (rs @ rs') t"
  by (simp add: put_at_def)

lemma dev_frame_trans: "dev_frame mb a b \<Longrightarrow> dev_frame mb b c \<Longrightarrow> dev_frame mb a c"
  by (simp add: dev_frame_def)

definition writable :: "'s device_data \<Rightarrow> bool" where
  "writable dev \<longleftrightarrow> \<not> dev_write_protect dev \<and> \<not> write_error dev"

lemma wrote_writable: "wrote ok head tape_of mb dev rs dev' \<Longrightarrow> writable dev' = writable dev"
  by (simp add: wrote_def dev_frame_def writable_def Let_def)

text \<open>The blocks of a text: all full but for the last one.\<close>

definition block_text :: "nat \<Rightarrow> byte list list \<Rightarrow> byte list \<Rightarrow> bool" where
  "block_text bs blocks text \<longleftrightarrow> concat blocks = text \<and> (\<forall>b\<in>set blocks. 0 < length b \<and> length b \<le> bs) \<and>
     (\<forall>b\<in>set (butlast blocks). length b = bs)"

lemma blocks_length:
  assumes "\<forall>b\<in>set blocks. 0 < length b"
  shows "length blocks \<le> length (concat blocks)"
  using assms
proof (induction blocks)
  case (Cons b blocks)
  then have "1 \<le> length b" by (simp add: Suc_le_eq)
  with Cons show ?case by simp
qed simp

lemma full_blocks_length:
  assumes "\<forall>b\<in>set blocks. length b = bs" and "0 < bs"
  shows "length blocks \<le> length (concat blocks)"
  using assms by (intro blocks_length) simp

text \<open>What libxml2 has to deliver: no failure, and pieces whose lengths do not overflow the buffer arithmetic.\<close>

definition doc_ok :: "xml_env \<Rightarrow> nat \<Rightarrow> string \<Rightarrow> ltfs_index \<Rightarrow> byte list \<Rightarrow> bool" where
  "doc_ok xe bs cr idx text \<longleftrightarrow> (\<forall>i. xml_alloc xe i) \<and>
     (\<exists>chunks rest. xml_doc xe cr idx = (chunks, None, rest) \<and> text = concat chunks @ concat rest \<and>
        (\<forall>c\<in>set (chunks @ rest). bs + length c < U32))"

lemma readonly_ignorable:
  assumes "writable (device vol)" and "part = ltfs_dp_id vol \<or> part = ltfs_ip_id vol"
  shows "ignorable (ltfs_get_partition_readonly part vol)"
  using assms by (auto simp: ltfs_get_partition_readonly_def tape_read_only_def writable_def ignorable_def split: part_space.splits)

lemma ltfs_write_index_dp:
  assumes "writable (device vol)" and "ltfs_dp_id vol \<noteq> ltfs_ip_id vol"
  shows "ltfs_write_index ops xe now (ltfs_dp_id vol) reason vol = write_index_body ops xe now (ltfs_dp_id vol) reason vol"
  using assms by (subst ltfs_write_index.simps) (simp add: readonly_ignorable Let_def)

context tape_device
begin

lemma wrote_trans:
  assumes ok: "in_step ok head dev" and 1: "wrote ok head tape_of max_block dev rs dev1"
    and 2: "wrote ok head tape_of max_block dev1 rs' dev2"
  shows "wrote ok head tape_of max_block dev (rs @ rs') dev2"
proof -
  have "pos_block (position dev) \<le> length (tape_of (backend_data dev) (pos_partition (position dev)))"
    using head_ok [of "backend_data dev"] ok by (auto simp: in_step_def)
  with 1 2 show ?thesis
    unfolding wrote_def Let_def using dev_frame_trans by (auto simp: put_at_put_at add.assoc)
qed

lemma write_wrote:
  assumes "in_step ok head dev" and "writable dev" and "pos_block (position dev) + 2 < TAPE_BLOCK_MAX"
    and "0 < length buf" and "length buf \<le> max_block_size dev" and "length buf \<le> max_block (backend_data dev)"
  shows "\<exists>dev'. tape_write ops buf True True dev = (Inr (length buf), dev') \<and> wrote ok head tape_of max_block dev [Data buf] dev'"
  using write_ok [OF assms(1,3), of True True buf] assms(2,4-6)
  by (auto simp: writable_def wrote_def dev_frame_def put_at_def Let_def)

lemma writefm_wrote:
  assumes "in_step ok head dev" and "writable dev" and "pos_block (position dev) + k + 1 < TAPE_BLOCK_MAX"
  shows "\<exists>dev'. tape_write_filemark ops k True True dev = (Inr (), dev') \<and>
    wrote ok head tape_of max_block dev (replicate k Filemark) dev'"
  using writefm_ok [OF assms(1,3)] assms(2)
  by (cases "k = 0") (auto simp: writable_def wrote_def dev_frame_def put_at_def Let_def)

text \<open>What the text writer needs of the device: a head in step, space to write, blocks that fit.\<close>

definition text_dev :: "nat \<Rightarrow> 's device_data \<Rightarrow> bool" where
  "text_dev bs dev \<longleftrightarrow> in_step ok head dev \<and> writable dev \<and> bs \<le> max_block_size dev \<and> bs \<le> max_block (backend_data dev)"

definition text_out :: "'s device_data \<Rightarrow> byte list list \<Rightarrow> 's device_data \<Rightarrow> bool" where
  "text_out dev blocks dev' \<longleftrightarrow> (if blocks = [] then dev' = dev else wrote ok head tape_of max_block dev (map Data blocks) dev')"

lemma text_dev_wrote:
  assumes "text_dev bs dev" and "wrote ok head tape_of max_block dev rs dev'"
  shows "text_dev bs dev'"
  using assms wrote_writable [OF assms(2)] by (auto simp: text_dev_def wrote_def dev_frame_def Let_def)

lemma wrote_pos: "wrote ok head tape_of max_block dev rs dev' \<Longrightarrow> pos_block (position dev') = pos_block (position dev) + length rs"
  by (simp add: wrote_def Let_def)

lemma text_out_pos: "text_out dev blocks dev' \<Longrightarrow> pos_block (position dev') = pos_block (position dev) + length blocks"
  using wrote_pos by (auto simp: text_out_def split: if_splits)

lemma text_out_trans:
  assumes "text_dev bs dev" and "text_out dev bl1 dev1" and "text_out dev1 bl2 dev2"
  shows "text_out dev (bl1 @ bl2) dev2"
  using assms wrote_trans [of dev "map Data bl1" dev1 "map Data bl2" dev2]
  by (auto simp: text_out_def text_dev_def split: if_splits)

lemma write_text:
  assumes "text_dev bs dev" and "pos_block (position dev) + 2 < TAPE_BLOCK_MAX" and "0 < length buf" and "length buf \<le> bs"
  shows "\<exists>dev'. tape_write ops buf True True dev = (Inr (length buf), dev') \<and>
    wrote ok head tape_of max_block dev [Data buf] dev' \<and> text_dev bs dev'"
  using write_wrote [of dev buf] text_dev_wrote [OF assms(1)] assms by (auto simp: text_dev_def)

lemma xml_block_loop_ok:
  assumes "text_dev bs dev" and "0 < bs" and "length used \<le> bs" and "bs \<le> length used + length buffer"
    and "pos_block (position dev) + length used + length buffer + 2 < TAPE_BLOCK_MAX"
  shows "\<exists>blocks used' dev'. xml_block_loop ops bs used buffer dev = Some (Inr (), used', dev') \<and> blocks \<noteq> [] \<and>
    (\<forall>b\<in>set blocks. length b = bs) \<and> concat blocks @ used' = used @ buffer \<and> length used' \<le> bs \<and>
    wrote ok head tape_of max_block dev (map Data blocks) dev' \<and> text_dev bs dev'"
  using assms
proof (induction "length used + length buffer" arbitrary: used buffer dev rule: less_induct)
  case less
  let ?k = "bs - length used"
  let ?b = "used @ take ?k buffer"
  have lb: "length ?b = bs" using less.prems by simp
  obtain dev1 where w: "tape_write ops ?b True True dev = (Inr (length ?b), dev1)"
      "wrote ok head tape_of max_block dev [Data ?b] dev1" "text_dev bs dev1"
    using write_text [OF less.prems(1), of ?b] less.prems lb by auto
  show ?case
  proof (cases "length (drop ?k buffer) > bs")
    case False
    then have "xml_block_loop ops bs used buffer dev = Some (Inr (), drop ?k buffer, dev1)"
      by (subst xml_block_loop.simps) (use w(1) in simp)
    with w lb False show ?thesis by (intro exI [of _ "[?b]"]) auto
  next
    case True
    have "xml_block_loop ops bs used buffer dev = xml_block_loop ops bs [] (drop ?k buffer) dev1"
      by (subst xml_block_loop.simps) (use w(1) True in simp)
    moreover have "\<exists>blocks used' dev'. xml_block_loop ops bs [] (drop ?k buffer) dev1 = Some (Inr (), used', dev') \<and> blocks \<noteq> [] \<and>
        (\<forall>b\<in>set blocks. length b = bs) \<and> concat blocks @ used' = [] @ drop ?k buffer \<and> length used' \<le> bs \<and>
        wrote ok head tape_of max_block dev1 (map Data blocks) dev' \<and> text_dev bs dev'"
      by (rule less.hyps) (use less.prems w True wrote_pos [OF w(2)] in auto)
    ultimately obtain blocks used' dev' where r: "xml_block_loop ops bs used buffer dev = Some (Inr (), used', dev')"
        "\<forall>b\<in>set blocks. length b = bs" "concat blocks @ used' = drop ?k buffer" "length used' \<le> bs"
        "wrote ok head tape_of max_block dev1 (map Data blocks) dev'" "text_dev bs dev'"
      by auto
    have "wrote ok head tape_of max_block dev (map Data (?b # blocks)) dev'"
      using wrote_trans [OF _ w(2) r(5)] less.prems(1) by (simp add: text_dev_def)
    with r lb show ?thesis by (intro exI [of _ "?b # blocks"]) auto
  qed
qed

lemma xml_write_callback_ok:
  assumes "text_dev bs dev" and "0 < bs" and "length used \<le> bs"
    and "length used + length buffer < U32" and "pos_block (position dev) + length used + length buffer + 2 < TAPE_BLOCK_MAX"
  shows "\<exists>blocks used' dev'. xml_output_tape_write_callback ops bs buffer (used, dev) = Some (Inr (), used', dev') \<and>
    (\<forall>b\<in>set blocks. length b = bs) \<and> concat blocks @ used' = used @ buffer \<and> length used' \<le> bs \<and>
    text_out dev blocks dev' \<and> text_dev bs dev'"
proof (cases "buffer = [] \<or> length used + length buffer < bs")
  case True
  then show ?thesis
    using assms by (intro exI [of _ "[]"] exI [of _ "used @ buffer"])
      (auto simp: xml_output_tape_write_callback_def to32_exact text_out_def)
next
  case False
  with xml_block_loop_ok [OF assms(1-3), of buffer] assms(5) obtain blocks used' dev' where
    "xml_block_loop ops bs used buffer dev = Some (Inr (), used', dev')" "blocks \<noteq> []"
      "\<forall>b\<in>set blocks. length b = bs" "concat blocks @ used' = used @ buffer" "length used' \<le> bs"
      "wrote ok head tape_of max_block dev (map Data blocks) dev'" "text_dev bs dev'"
    by auto
  with False assms(4) show ?thesis
    by (intro exI [of _ blocks]) (auto simp: xml_output_tape_write_callback_def to32_exact text_out_def)
qed

lemma xml_feed_ok:
  assumes "text_dev bs dev" and "0 < bs" and "length used \<le> bs"
    and "\<forall>c\<in>set chunks. bs + length c < U32"
    and "pos_block (position dev) + length used + length (concat chunks) + 2 < TAPE_BLOCK_MAX"
  shows "\<exists>blocks used' dev'. xml_feed ops bs chunks (used, dev) = Some (Inr (), used', dev') \<and>
    (\<forall>b\<in>set blocks. length b = bs) \<and> concat blocks @ used' = used @ concat chunks \<and> length used' \<le> bs \<and>
    text_out dev blocks dev' \<and> text_dev bs dev'"
  using assms
proof (induction chunks arbitrary: used dev)
  case Nil
  then show ?case by (intro exI [of _ "[] :: byte list list"] exI [of _ used]) (simp add: text_out_def)
next
  case (Cons c cs)
  obtain bl1 used1 dev1 where 1: "xml_output_tape_write_callback ops bs c (used, dev) = Some (Inr (), used1, dev1)"
      "\<forall>b\<in>set bl1. length b = bs" "concat bl1 @ used1 = used @ c" "length used1 \<le> bs"
      "text_out dev bl1 dev1" "text_dev bs dev1"
    using xml_write_callback_ok [OF Cons.prems(1-3), of c] Cons.prems by auto
  have "length bl1 + length used1 \<le> length used + length c"
  proof -
    have "length bl1 \<le> length (concat bl1)"
      using 1(2) Cons.prems(2) by (induction bl1) auto
    then show ?thesis using arg_cong [OF 1(3), of length] by simp
  qed
  then have "\<exists>blocks used' dev'. xml_feed ops bs cs (used1, dev1) = Some (Inr (), used', dev') \<and>
      (\<forall>b\<in>set blocks. length b = bs) \<and> concat blocks @ used' = used1 @ concat cs \<and> length used' \<le> bs \<and>
      text_out dev1 blocks dev' \<and> text_dev bs dev'"
    using 1 Cons.prems text_out_pos [OF 1(5)] by (intro Cons.IH) auto
  then obtain bl2 used2 dev2 where 2: "xml_feed ops bs cs (used1, dev1) = Some (Inr (), used2, dev2)"
      "\<forall>b\<in>set bl2. length b = bs" "concat bl2 @ used2 = used1 @ concat cs" "length used2 \<le> bs"
      "text_out dev1 bl2 dev2" "text_dev bs dev2"
    by auto
  have "concat (bl1 @ bl2) @ used2 = used @ concat (c # cs)"
    using 1(3) 2(3) by simp
  then show ?case
    using 1 2 text_out_trans [OF Cons.prems(1) 1(5) 2(5)] by (intro exI [of _ "bl1 @ bl2"]) auto
qed

text \<open>The text that went through both callbacks is on tape, in full blocks but for the last.\<close>

lemma xml_close_ok:
  assumes "text_dev bs dev" and "length used \<le> bs" and "pos_block (position dev) + 2 < TAPE_BLOCK_MAX"
  shows "\<exists>dev'. xml_output_tape_close_callback ops (used, dev) = (Inr (), dev') \<and>
    text_out dev (if used = [] then [] else [used]) dev' \<and> text_dev bs dev'"
  using write_text [OF assms(1,3), of used] assms
  by (auto simp: xml_output_tape_close_callback_def text_out_def)

lemma xml_schema_to_tape_ok:
  assumes dev: "text_dev bs (device vol)" and bs: "blocksize (vol_label vol) = bs" "0 < bs" "bs < U32"
    and doc: "doc_ok xe bs (vol_creator vol @ '' - '' @ reason) (vol_index vol) text"
    and room: "pos_block (position (device vol)) + length text + 2 < TAPE_BLOCK_MAX"
  shows "\<exists>blocks dev'. xml_schema_to_tape ops xe reason vol = Some (Inr (), vol\<lparr>device := dev',
      vol_index := (vol_index vol)\<lparr>idx_creator := Some (vol_creator vol)\<rparr>\<rparr>) \<and>
    block_text bs blocks text \<and> text_out (device vol) blocks dev' \<and> text_dev bs dev'"
proof -
  obtain chunks rest where d: "xml_doc xe (vol_creator vol @ '' - '' @ reason) (vol_index vol) = (chunks, None, rest)"
      "text = concat chunks @ concat rest" "\<forall>c\<in>set chunks. bs + length c < U32" "\<forall>c\<in>set rest. bs + length c < U32"
      and al: "\<forall>i. xml_alloc xe i"
    using doc by (auto simp: doc_ok_def)
  obtain bl1 used1 dev1 where 1: "xml_feed ops bs chunks ([], device vol) = Some (Inr (), used1, dev1)"
      "\<forall>b\<in>set bl1. length b = bs" "concat bl1 @ used1 = concat chunks" "length used1 \<le> bs"
      "text_out (device vol) bl1 dev1" "text_dev bs dev1"
    using xml_feed_ok [OF dev bs(2), of "[]" chunks] d room by auto
  have l1: "length bl1 + length used1 \<le> length (concat chunks)"
    using full_blocks_length [OF 1(2) bs(2)] arg_cong [OF 1(3), of length] by simp
  obtain bl2 used2 dev2 where 2: "xml_feed ops bs rest (used1, dev1) = Some (Inr (), used2, dev2)"
      "\<forall>b\<in>set bl2. length b = bs" "concat bl2 @ used2 = used1 @ concat rest" "length used2 \<le> bs"
      "text_out dev1 bl2 dev2" "text_dev bs dev2"
    using xml_feed_ok [OF 1(6) bs(2) 1(4), of rest] d room text_out_pos [OF 1(5)] l1 by auto
  have l2: "length bl2 \<le> length used1 + length (concat rest)"
    using full_blocks_length [OF 2(2) bs(2)] arg_cong [OF 2(3), of length] by simp
  let ?bl3 = "if used2 = [] then [] else [used2]"
  obtain dev3 where 3: "xml_output_tape_close_callback ops (used2, dev2) = (Inr (), dev3)" "text_out dev2 ?bl3 dev3" "text_dev bs dev3"
    using xml_close_ok [OF 2(6,4)] text_out_pos [OF 1(5)] text_out_pos [OF 2(5)] l1 l2 d(2) room by auto
  have "xml_schema_to_tape ops xe reason vol = Some (xml_set_creator xe (Inr ()) (vol\<lparr>device := dev3\<rparr>))"
    using al d(1) 1(1) 2(1) 3(1) bs by (simp add: xml_schema_to_tape_def to32_exact Let_def)
  moreover have "xml_set_creator xe (Inr ()) (vol\<lparr>device := dev3\<rparr>) = (Inr (), vol\<lparr>device := dev3,
      vol_index := (vol_index vol)\<lparr>idx_creator := Some (vol_creator vol)\<rparr>\<rparr>)"
    using al by (cases "idx_creator (vol_index vol) = Some (vol_creator vol)") (simp_all add: xml_set_creator_def)
  moreover have "block_text bs (bl1 @ bl2 @ ?bl3) text"
  proof -
    have "concat (bl1 @ bl2 @ ?bl3) = concat bl1 @ concat bl2 @ used2" by simp
    also have "\<dots> = text" using 1(3) 2(3) d(2) by simp
    finally show ?thesis
      using 1(2) 2(2,4) bs(2) by (auto simp: block_text_def butlast_append dest: in_set_butlastD split: if_splits)
  qed
  moreover have "text_out (device vol) (bl1 @ bl2 @ ?bl3) dev3"
    using text_out_trans [OF dev 1(5) text_out_trans [OF 1(6) 2(5) 3(2)]] by simp
  ultimately show ?thesis using 3(3) by (intro exI [of _ "bl1 @ bl2 @ ?bl3"] exI [of _ dev3]) simp
qed

lemma wrote_text_out:
  assumes "in_step ok head dev" and "wrote ok head tape_of max_block dev rs dev1" and "text_out dev1 blocks dev2"
  shows "wrote ok head tape_of max_block dev (rs @ map Data blocks) dev2"
  using assms wrote_trans [of dev rs dev1 "map Data blocks" dev2] by (auto simp: text_out_def split: if_splits)

lemma writefm_text:
  assumes "text_dev bs dev" and "pos_block (position dev) + k + 1 < TAPE_BLOCK_MAX"
  shows "\<exists>dev'. tape_write_filemark ops k True True dev = (Inr (), dev') \<and>
    wrote ok head tape_of max_block dev (replicate k Filemark) dev' \<and> text_dev bs dev'"
  using writefm_wrote [of dev k] text_dev_wrote [OF assms(1)] assms by (auto simp: text_dev_def)

lemma flush_ok:
  assumes "text_dev bs (device vol)" and "pos_block (position (device vol)) + 1 < TAPE_BLOCK_MAX"
  shows "\<exists>dev'. (if c then on_dev (tape_write_filemark ops 0 True True) vol else (Inr (), vol)) = (Inr (), vol\<lparr>device := dev'\<rparr>) \<and>
    (dev' = device vol \<or> wrote ok head tape_of max_block (device vol) [] dev') \<and> text_dev bs dev'"
proof (cases c)
  case True
  then show ?thesis using writefm_text [OF assms(1), of 0] assms by (auto simp: on_dev_def)
next
  case False
  then show ?thesis using assms by (intro exI [of _ "device vol"]) simp
qed

lemma write_index_file_ok:
  assumes dev: "text_dev bs (device vol)" and bs: "blocksize (vol_label vol) = bs" "0 < bs" "bs < U32"
    and doc: "doc_ok xe bs (vol_creator vol @ '' - '' @ reason) (set_index_pointers vol) text"
    and room: "pos_block (position (device vol)) + length text + 4 < TAPE_BLOCK_MAX"
  shows "\<exists>blocks dev'. write_index_file ops xe part reason vol = Some (Inr (), vol\<lparr>device := dev',
      vol_index := (set_index_pointers vol)\<lparr>idx_creator := Some (vol_creator vol)\<rparr>\<rparr>) \<and> block_text bs blocks text \<and>
    wrote ok head tape_of max_block (device vol) ([Filemark] @ map Data blocks @ [Filemark]) dev' \<and> text_dev bs dev'"
proof -
  let ?v = "vol\<lparr>vol_index := set_index_pointers vol\<rparr>"
  let ?c = "part = ltfs_ip_id ?v \<and> \<not> ip_index_file_end ?v"
  let ?w = "wrote ok head tape_of max_block"
  have in0: "in_step ok head (device vol)" using dev by (simp add: text_dev_def)
  obtain dev1 where 1: "(if ?c then on_dev (tape_write_filemark ops 0 True True) ?v else (Inr (), ?v)) = (Inr (), ?v\<lparr>device := dev1\<rparr>)"
      "dev1 = device vol \<or> ?w (device vol) [] dev1" "text_dev bs dev1"
    using flush_ok [of bs ?v ?c] dev room by auto
  have pos1: "pos_block (position dev1) = pos_block (position (device vol))" using 1(2) wrote_pos by fastforce
  obtain dev2 where 2: "tape_write_filemark ops 1 True True dev1 = (Inr (), dev2)" "?w dev1 [Filemark] dev2" "text_dev bs dev2"
    using writefm_text [OF 1(3), of 1] room pos1 by auto
  obtain blocks dev3 where 3: "xml_schema_to_tape ops xe reason (?v\<lparr>device := dev2\<rparr>) = Some (Inr (), ?v\<lparr>device := dev3,
        vol_index := (set_index_pointers vol)\<lparr>idx_creator := Some (vol_creator vol)\<rparr>\<rparr>)"
      "block_text bs blocks text" "text_out dev2 blocks dev3" "text_dev bs dev3"
    using xml_schema_to_tape_ok [of bs "?v\<lparr>device := dev2\<rparr>" xe reason "text"] 2 bs doc room wrote_pos [OF 2(2)] pos1 by auto
  have "length blocks \<le> length text"
    using 3(2) blocks_length [of blocks] by (simp add: block_text_def)
  then have pos3: "pos_block (position dev3) + 3 < TAPE_BLOCK_MAX"
    using room text_out_pos [OF 3(3)] wrote_pos [OF 2(2)] pos1 by simp
  obtain dev4 where 4: "tape_write_filemark ops 1 True True dev3 = (Inr (), dev4)" "?w dev3 [Filemark] dev4" "text_dev bs dev4"
    using writefm_text [OF 3(4), of 1] pos3 by auto
  obtain dev5 where 5: "tape_write_filemark ops 0 True True dev4 = (Inr (), dev5)" "?w dev4 [] dev5" "text_dev bs dev5"
    using writefm_text [OF 4(3), of 0] pos3 wrote_pos [OF 4(2)] by auto
  have "?w (device vol) [Filemark] dev2"
    using 1(2) 2(2) wrote_trans [OF in0, of "[]" dev1 "[Filemark]" dev2] by auto
  then have "?w (device vol) ([Filemark] @ map Data blocks) dev3" by (rule wrote_text_out [OF in0 _ 3(3)])
  from wrote_trans [OF in0 wrote_trans [OF in0 this 4(2)] 5(2)]
  have "?w (device vol) ([Filemark] @ map Data blocks @ [Filemark]) dev5" by simp
  then show ?thesis
    using 1(1) 2(1) 3(1,2) 4(1) 5(1,3) unfolding write_index_file_def Let_def
    by (intro exI [of _ blocks] exI [of _ dev5]) (simp only: obind_simps, simp add: on_dev_def)
qed

end

section \<open>A driver with attributes of the application\<close>

text \<open>
  What the end of an index write needs beside the tape: the function that stores the attributes of the
  application exists and touches neither the tape nor the head.
\<close>

locale index_device = tape_device ok tape_of head max_block ops
  for ok :: "'s \<Rightarrow> bool" and tape_of head max_block and ops :: "'s tape_ops" +
  assumes mam_law: "\<exists>f. op_update_mam_attr ops = Some f \<and> (\<forall>i s. fst (f i s) \<noteq> Inl NULL_CALL \<and> ok (snd (f i s)) = ok s \<and>
    tape_of (snd (f i s)) = tape_of s \<and> head (snd (f i s)) = head s \<and> max_block (snd (f i s)) = max_block s)"

text \<open>
  The index that is written to a partition from block \<open>b\<close> on: a new generation when it is dirty, the back
  pointer to the index before it if that is on the data partition, the self pointer to the first block
  of text. \<open>index_file\<close> is the file on tape.
\<close>

definition new_index :: "(char \<Rightarrow> ltfs_timespec) \<Rightarrow> char \<Rightarrow> nat \<Rightarrow> 's ltfs_volume \<Rightarrow> ltfs_index" where
  "new_index now part b vol =
     (let idx = (if ltfs_is_dirty vol then next_generation (now part) (vol_index vol) else vol_index vol)
      in idx\<lparr>backptr := (if fst (selfptr idx) = ltfs_dp_id vol then selfptr idx else backptr idx), selfptr := (part, b + 1)\<rparr>)"

definition append_block :: "nat \<Rightarrow> nat \<Rightarrow> nat" where
  "append_block ap len = (if ap = 0 then len else ap)"

definition index_file :: "nat \<Rightarrow> byte list \<Rightarrow> trec list \<Rightarrow> bool" where
  "index_file bs render rs \<longleftrightarrow> (\<exists>blocks. block_text bs blocks render \<and> rs = [Filemark] @ map Data blocks @ [Filemark])"

text \<open>Only the cartridge memory changed; and of the volume only what is stored there.\<close>

definition dev_same :: "('s \<Rightarrow> bool) \<Rightarrow> ('s \<Rightarrow> nat \<times> nat) \<Rightarrow> ('s \<Rightarrow> tape) \<Rightarrow> ('s \<Rightarrow> nat) \<Rightarrow>
    's device_data \<Rightarrow> 's device_data \<Rightarrow> bool" where
  "dev_same ok head tape_of mb dev dev' \<longleftrightarrow> in_step ok head dev' = in_step ok head dev \<and>
     tape_of (backend_data dev') = tape_of (backend_data dev) \<and> position dev' = position dev \<and>
     append_pos dev' = append_pos dev \<and> dev_frame mb dev dev'"

definition vol_frame :: "'s ltfs_volume \<Rightarrow> 's ltfs_volume \<Rightarrow> bool" where
  "vol_frame vol vol' \<longleftrightarrow> vol_label vol' = vol_label vol \<and> vol_creator vol' = vol_creator vol \<and> last_pos vol' = last_pos vol \<and>
     last_size vol' = last_size vol \<and> last_block vol' = last_block vol \<and> reval vol' = reval vol"

lemma in_step_append_pos [simp]: "in_step ok head (dev\<lparr>append_pos := a\<rparr>) = in_step ok head dev"
  by (simp add: in_step_def)

lemma dev_same_trans: "dev_same ok head t mb a b \<Longrightarrow> dev_same ok head t mb b c \<Longrightarrow> dev_same ok head t mb a c"
  by (simp add: dev_same_def dev_frame_def)

context tape_device
begin

lemma set_cart_coherency_same:
  "dev_same ok head tape_of max_block dev (snd (tape_set_cart_coherency ops part coh dev))"
  using attr_keeps [of part "coherency_buf coh" "backend_data dev", OF refl]
  by (simp add: tape_set_cart_coherency_def dev_same_def dev_frame_def in_step_def on_data_sel)

lemma update_cart_coherency_same:
  fixes vol defines "vol' \<equiv> ltfs_update_cart_coherency ops vol"
  shows "dev_same ok head tape_of max_block (device vol) (device vol')" "vol_frame vol vol'" "vol_index vol' = vol_index vol"
    "ip_index_file_end vol' = ip_index_file_end vol" "dp_index_file_end vol' = dp_index_file_end vol"
proof -
  have "dev_same ok head tape_of max_block dev dev" for dev by (simp add: dev_same_def dev_frame_def)
  then show "dev_same ok head tape_of max_block (device vol) (device vol')"
    unfolding vol'_def ltfs_update_cart_coherency_def Let_def
    using set_cart_coherency_same dev_same_trans [OF set_cart_coherency_same set_cart_coherency_same] by auto
qed (auto simp: vol'_def ltfs_update_cart_coherency_def Let_def vol_frame_def)

end

context index_device
begin

lemma update_mam_same:
  "\<exists>r dev'. tape_update_mam_attributes ops i dev = (r, dev') \<and> r \<noteq> Inl NULL_CALL \<and> dev_same ok head tape_of max_block dev dev'"
proof -
  obtain f where f: "op_update_mam_attr ops = Some f" "fst (f i s) \<noteq> Inl NULL_CALL" "ok (snd (f i s)) = ok s"
      "tape_of (snd (f i s)) = tape_of s" "head (snd (f i s)) = head s" "max_block (snd (f i s)) = max_block s" for i s
    using mam_law by auto
  then show ?thesis
    using f(2-6) [of i "backend_data dev"]
    by (cases "f i (backend_data dev)") (auto simp: tape_update_mam_attributes_def on_data_def dev_same_def dev_frame_def in_step_def)
qed

lemma index_written_ok:
  assumes "ltfs_part_id2num part (vol_label vol) < 2"
  shows "\<exists>vol'. index_written ops part vol = (Inr (), vol') \<and> vol_frame vol vol' \<and>
    in_step ok head (device vol') = in_step ok head (device vol) \<and>
    tape_of (backend_data (device vol')) = tape_of (backend_data (device vol)) \<and> position (device vol') = position (device vol) \<and>
    dev_frame max_block (device vol) (device vol') \<and>
    append_pos (device vol') = (if part = ltfs_ip_id vol
      then (append_pos (device vol))(ltfs_part_id2num part (vol_label vol) := sub64 (snd (selfptr (vol_index vol))) 1)
      else append_pos (device vol)) \<and>
    vol_index vol' = ltfs_unset_index_dirty True (vol_index vol) \<and>
    ip_index_file_end vol' = (part = ltfs_ip_id vol \<or> ip_index_file_end vol) \<and>
    dp_index_file_end vol' = (part \<noteq> ltfs_ip_id vol \<or> dp_index_file_end vol)"
proof -
  define v where "v = ltfs_update_cart_coherency ops (note_index_end part vol)"
  have v: "dev_same ok head tape_of max_block (device vol) (device v)" "vol_frame vol v" "vol_index v = vol_index vol"
      "ip_index_file_end v = (part = ltfs_ip_id vol \<or> ip_index_file_end vol)"
      "dp_index_file_end v = (part \<noteq> ltfs_ip_id vol \<or> dp_index_file_end vol)"
    using update_cart_coherency_same [of "note_index_end part vol"]
    by (auto simp: v_def note_index_end_def vol_frame_def)
  obtain r dev' where m: "tape_update_mam_attributes ops TC_MAM_APP_FORMAT_VERSION (device v) = (r, dev')" "r \<noteq> Inl NULL_CALL"
      "dev_same ok head tape_of max_block (device v) dev'"
    using update_mam_same by blast
  have same: "dev_same ok head tape_of max_block (device vol) dev'" by (rule dev_same_trans [OF v(1) m(3)])
  have "\<exists>a. index_written ops part vol = (Inr (), index_done part (v\<lparr>device := dev', app_format_ver := a\<rparr>))"
    unfolding index_written_def v_def [symmetric] Let_def m(1) using m(2)
    by (cases r; cases "tape_get_app_format_version ops (ltfs_part_id2num (ltfs_ip_id v) (vol_label v)) dev'")
      (auto intro: exI [of _ "app_format_ver v"])
  then obtain a where "index_written ops part vol = (Inr (), index_done part (v\<lparr>device := dev', app_format_ver := a\<rparr>))" ..
  moreover have "ltfs_ip_id v = ltfs_ip_id vol" "vol_label v = vol_label vol" using v(2) by (simp_all add: vol_frame_def ltfs_ip_id_def)
  ultimately show ?thesis
    using v same assms
    by (intro exI [of _ "index_done part (v\<lparr>device := dev', app_format_ver := a\<rparr>)"])
      (cases "part = ltfs_ip_id vol"; simp add: index_done_def tape_set_append_position_def vol_frame_def dev_same_def
        dev_frame_def ltfs_ip_id_def)
qed

text \<open>
  A volume on which an index can be written to a partition: the letter of the partition is mapped to its
  number and back, the device can be written, and the text fits.
\<close>

definition index_ready :: "nat \<Rightarrow> nat \<Rightarrow> char \<Rightarrow> 's ltfs_volume \<Rightarrow> bool" where
  "index_ready bs L part vol \<longleftrightarrow>
     (let num = ltfs_part_id2num part (vol_label vol); t = tape_of (backend_data (device vol)) num in
      text_dev bs (device vol) \<and> \<not> append_only_mode (device vol) \<and> blocksize (vol_label vol) = bs \<and> 0 < bs \<and> bs < U32 \<and>
      num < 2 \<and> part_num2id (vol_label vol) num = part \<and> append_pos (device vol) num \<le> length t \<and>
      length t + L + 4 < TAPE_BLOCK_MAX)"

lemma write_index_body_ok:
  assumes rdy: "index_ready bs L part vol"
    and doc: "\<And>idx. doc_ok xe bs (vol_creator vol @ '' - '' @ reason) idx (render idx) \<and> length (render idx) \<le> L"
  defines "num \<equiv> ltfs_part_id2num part (vol_label vol)"
  defines "t \<equiv> tape_of (backend_data (device vol))"
  defines "b \<equiv> append_block (append_pos (device vol) num) (length (t num))"
  shows "\<exists>rs vol'. write_index_body ops xe now part reason vol = Some (Inr (), vol') \<and> vol_frame vol vol' \<and>
    index_file bs (render (new_index now part b vol)) rs \<and> length rs \<le> L + 2 \<and>
    tape_of (backend_data (device vol')) = t(num := take b (t num) @ rs) \<and> text_dev bs (device vol') \<and>
    dev_frame max_block (device vol) (device vol') \<and>
    append_pos (device vol') = (append_pos (device vol))(num := (if part = ltfs_ip_id vol then b else b + length rs)) \<and>
    vol_index vol' = ltfs_unset_index_dirty True ((new_index now part b vol)\<lparr>idx_creator := Some (vol_creator vol)\<rparr>) \<and>
    ip_index_file_end vol' = (part = ltfs_ip_id vol \<or> ip_index_file_end vol) \<and>
    dp_index_file_end vol' = (part \<noteq> ltfs_ip_id vol \<or> dp_index_file_end vol)"
proof -
  let ?w = "wrote ok head tape_of max_block"
  have r: "text_dev bs (device vol)" "\<not> append_only_mode (device vol)" "blocksize (vol_label vol) = bs" "0 < bs" "bs < U32" "num < 2"
      "part_num2id (vol_label vol) num = part" "append_pos (device vol) num \<le> length (t num)" "length (t num) + L + 4 < TAPE_BLOCK_MAX"
    using rdy by (simp_all add: index_ready_def num_def t_def Let_def)
  have b: "b \<le> length (t num)" "b + 1 < U64" using r(8,9) by (auto simp: b_def append_block_def TAPE_BLOCK_MAX_def)
  obtain dev1 where 1: "tape_seek_append_position ops num (part = partid_ip (vol_label vol)) (device vol) = (Inr (), dev1)"
      "in_step ok head dev1" "tape_of (backend_data dev1) = t" "pos_partition (position dev1) = num" "pos_block (position dev1) = b"
      "append_pos dev1 = (append_pos (device vol))(num := b)" "dev_frame max_block (device vol) dev1"
    using seek_append_ok [of "device vol" num "part = partid_ip (vol_label vol)"] r
    by (auto simp: text_dev_def t_def b_def append_block_def dev_frame_def)
  have td1: "text_dev bs dev1" using 1 r(1) by (auto simp: text_dev_def dev_frame_def writable_def)
  define idx0 where "idx0 = (if ltfs_is_dirty vol then next_generation (now part) (vol_index vol) else vol_index vol)"
  define v1 where "v1 = vol\<lparr>vol_index := idx0, device := dev1\<rparr>"
  have new: "set_index_pointers v1 = new_index now part b vol"
    using 1(4,5) b(2) r(7) by (simp add: set_index_pointers_def new_index_def v1_def idx0_def [symmetric] tape_get_position_def
        ltfs_dp_id_def add64_exact Let_def)
  have v1: "device v1 = dev1" "vol_label v1 = vol_label vol" "vol_creator v1 = vol_creator vol" by (simp_all add: v1_def)
  obtain blocks dev2 where 2: "write_index_file ops xe part reason v1 = Some (Inr (), v1\<lparr>device := dev2,
        vol_index := (new_index now part b vol)\<lparr>idx_creator := Some (vol_creator vol)\<rparr>\<rparr>)"
      "block_text bs blocks (render (new_index now part b vol))"
      "?w dev1 ([Filemark] @ map Data blocks @ [Filemark]) dev2" "text_dev bs dev2"
    using write_index_file_ok [of bs v1 xe reason "render (new_index now part b vol)" part] td1 r doc [of "new_index now part b vol"] b(1)
    by (auto simp: new v1 1(5))
  define v2 where "v2 = v1\<lparr>device := dev2, vol_index := (new_index now part b vol)\<lparr>idx_creator := Some (vol_creator vol)\<rparr>\<rparr>"
  let ?rs = "[Filemark] @ map Data blocks @ [Filemark]"
  have w: "tape_of (backend_data dev2) = t(num := take b (t num) @ ?rs)" "append_pos dev2 = (append_pos (device vol))(num := b + length ?rs)"
      "dev_frame max_block dev1 dev2"
    using 2(3) 1 by (simp_all add: wrote_def put_at_def Let_def)
  have v2: "device v2 = dev2" "vol_label v2 = vol_label vol" "ltfs_ip_id v2 = ltfs_ip_id vol" "vol_frame vol v2"
      "vol_index v2 = (new_index now part b vol)\<lparr>idx_creator := Some (vol_creator vol)\<rparr>"
      "ip_index_file_end v2 = ip_index_file_end vol" "dp_index_file_end v2 = dp_index_file_end vol"
    by (simp_all add: v2_def v1_def ltfs_ip_id_def vol_frame_def)
  have nself: "selfptr ((new_index now part b vol)\<lparr>idx_creator := Some (vol_creator vol)\<rparr>) = (part, b + 1)"
    by (simp add: new_index_def Let_def)
  obtain v3 where 3: "index_written ops part v2 = (Inr (), v3)" "vol_frame v2 v3" "in_step ok head (device v3) = in_step ok head dev2"
      "tape_of (backend_data (device v3)) = tape_of (backend_data dev2)" "dev_frame max_block dev2 (device v3)"
      "append_pos (device v3) = (if part = ltfs_ip_id vol then (append_pos dev2)(num := sub64 (b + 1) 1) else append_pos dev2)"
      "vol_index v3 = ltfs_unset_index_dirty True ((new_index now part b vol)\<lparr>idx_creator := Some (vol_creator vol)\<rparr>)"
      "ip_index_file_end v3 = (part = ltfs_ip_id vol \<or> ip_index_file_end vol)"
      "dp_index_file_end v3 = (part \<noteq> ltfs_ip_id vol \<or> dp_index_file_end vol)"
    using index_written_ok [of part v2] r(6) unfolding v2 nself num_def [symmetric] snd_conv by blast
  have "write_index_body ops xe now part reason vol = Some (Inr (), v3)"
    using 1(1) 2(1) 3(1) by (simp add: write_index_body_def on_dev_def v1_def v2_def idx0_def num_def Let_def split: if_splits)
  moreover have "length ?rs \<le> L + 2"
    using 2(2) blocks_length [of blocks] doc [of "new_index now part b vol"] by (simp add: block_text_def)
  moreover have "append_pos (device v3) = (append_pos (device vol))(num := (if part = ltfs_ip_id vol then b else b + length ?rs))"
    using 3(6) w(2) b(2) by (simp add: sub64_exact)
  moreover have fr: "dev_frame max_block (device vol) (device v3)"
    by (rule dev_frame_trans [OF dev_frame_trans [OF 1(7) w(3)] 3(5)])
  moreover have "text_dev bs (device v3)" using 2(4) 3(3,5) by (auto simp: text_dev_def dev_frame_def writable_def)
  moreover have "vol_frame vol v3" using v2(4) 3(2) by (simp add: vol_frame_def)
  moreover have "index_file bs (render (new_index now part b vol)) ?rs" using 2(2) by (auto simp: index_file_def)
  ultimately show ?thesis using 3 w(1) by (intro exI [of _ ?rs] exI [of _ v3]) simp
qed

text \<open>
  A write of the index to the index partition that has to write it to the data partition first leaves both
  partitions with an index at their end; the one on the index partition points back to the other.
\<close>

lemma write_index_both:
  fixes vol bs L now t
  defines "dp \<equiv> ltfs_dp_id vol" and "ip \<equiv> ltfs_ip_id vol"
  defines "nd \<equiv> ltfs_part_id2num dp (vol_label vol)" and "ni \<equiv> ltfs_part_id2num ip (vol_label vol)"
  defines "t \<equiv> tape_of (backend_data (device vol))"
  defines "bd \<equiv> append_block (append_pos (device vol) nd) (length (t nd))" and "bi \<equiv> append_block (append_pos (device vol) ni) (length (t ni))"
  assumes rd: "index_ready bs L dp vol" and ri: "index_ready bs L ip vol" and ne: "dp \<noteq> ip"
    and need: "\<not> dp_index_file_end vol \<or> ip_index_file_end vol \<and> fst (selfptr (vol_index vol)) = ip"
    and doc: "\<And>idx. doc_ok xe bs (vol_creator vol @ '' - '' @ reason) idx (render idx) \<and> length (render idx) \<le> L"
  shows "\<exists>rsd rsi idxd idxi vol'. ltfs_write_index ops xe now ip reason vol = Some (Inr (), vol') \<and>
    tape_of (backend_data (device vol')) = t(nd := take bd (t nd) @ rsd, ni := take bi (t ni) @ rsi) \<and>
    index_file bs (render idxd) rsd \<and> index_file bs (render idxi) rsi \<and>
    selfptr idxd = (dp, bd + 1) \<and> selfptr idxi = (ip, bi + 1) \<and> backptr idxi = (dp, bd + 1) \<and>
    generation idxd = (if ltfs_is_dirty vol then to32 (generation (vol_index vol) + 1) else generation (vol_index vol)) \<and>
    generation idxi = generation idxd \<and> vol_index vol' = ltfs_unset_index_dirty True (idxi\<lparr>idx_creator := Some (vol_creator vol)\<rparr>) \<and>
    ip_index_file_end vol' \<and> dp_index_file_end vol' \<and> text_dev bs (device vol') \<and> vol_frame vol vol' \<and>
    idxd = new_index now dp bd vol \<and>
    idxi = (ltfs_unset_index_dirty True (idxd\<lparr>idx_creator := Some (vol_creator vol)\<rparr>))\<lparr>backptr := (dp, bd + 1), selfptr := (ip, bi + 1)\<rparr>"
proof -
  have w: "writable (device vol)" using rd by (simp add: index_ready_def text_dev_def Let_def)
  have nn: "nd \<noteq> ni" using rd ri ne by (auto simp: index_ready_def nd_def ni_def Let_def)
  obtain rsd v1 where 1: "write_index_body ops xe now dp reason vol = Some (Inr (), v1)" "vol_frame vol v1"
      "index_file bs (render (new_index now dp bd vol)) rsd" "tape_of (backend_data (device v1)) = t(nd := take bd (t nd) @ rsd)"
      "text_dev bs (device v1)" "dev_frame max_block (device vol) (device v1)"
      "append_pos (device v1) = (append_pos (device vol))(nd := bd + length rsd)"
      "vol_index v1 = ltfs_unset_index_dirty True ((new_index now dp bd vol)\<lparr>idx_creator := Some (vol_creator vol)\<rparr>)"
      "dp_index_file_end v1"
    using write_index_body_ok [OF rd doc, where now = now] ne unfolding nd_def [symmetric] t_def [symmetric] bd_def [symmetric] ip_def [symmetric]
    by auto
  have f: "vol_label v1 = vol_label vol" "vol_creator v1 = vol_creator vol" "ltfs_ip_id v1 = ip" "ltfs_dp_id v1 = dp"
    using 1(2) by (simp_all add: vol_frame_def ltfs_ip_id_def ltfs_dp_id_def ip_def dp_def)
  have ri1: "index_ready bs L ip v1"
    using ri 1(4-7) f nn by (auto simp: index_ready_def ni_def [symmetric] t_def [symmetric] dev_frame_def Let_def)
  have bi: "append_block (append_pos (device v1) ni) (length (t ni)) = bi"
    using 1(7) nn by (simp add: bi_def)
  have idx1: "selfptr (vol_index v1) = (dp, bd + 1)" "\<not> ltfs_is_dirty v1"
      "generation (vol_index v1) = (if ltfs_is_dirty vol then to32 (generation (vol_index vol) + 1) else generation (vol_index vol))"
    by (simp_all add: 1(8) ltfs_is_dirty_def ltfs_unset_index_dirty_def new_index_def next_generation_def Let_def)
  obtain rsi v2 where 2: "write_index_body ops xe now ip reason v1 = Some (Inr (), v2)" "vol_frame v1 v2"
      "index_file bs (render (new_index now ip bi v1)) rsi"
      "tape_of (backend_data (device v2)) = (t(nd := take bd (t nd) @ rsd))(ni := take bi (t ni) @ rsi)"
      "text_dev bs (device v2)"
      "vol_index v2 = ltfs_unset_index_dirty True ((new_index now ip bi v1)\<lparr>idx_creator := Some (vol_creator vol)\<rparr>)"
      "ip_index_file_end v2" "dp_index_file_end v2"
    using write_index_body_ok [OF ri1, of xe reason "render" now] doc 1(9) nn unfolding f ni_def [symmetric] 1(4) by (auto simp: bi)
  have "ltfs_write_index ops xe now ip reason vol = Some (Inr (), v2)"
    using need 1(1) 2(1) w ltfs_write_index_dp [OF w, of ops xe now reason] ne
    by (subst ltfs_write_index.simps) (auto simp: readonly_ignorable ip_def [symmetric] dp_def [symmetric] Let_def)
  moreover have "selfptr (new_index now ip bi v1) = (ip, bi + 1)" "backptr (new_index now ip bi v1) = (dp, bd + 1)"
      "generation (new_index now ip bi v1) = generation (new_index now dp bd vol)"
    using idx1 f(4) by (simp_all add: new_index_def next_generation_def Let_def)
  moreover have "new_index now ip bi v1 = (ltfs_unset_index_dirty True ((new_index now dp bd vol)\<lparr>idx_creator := Some (vol_creator vol)\<rparr>))
      \<lparr>backptr := (dp, bd + 1), selfptr := (ip, bi + 1)\<rparr>"
    using idx1(1,2) f(4) by (simp add: new_index_def [of now ip] 1(8) Let_def)
  moreover have "selfptr (new_index now dp bd vol) = (dp, bd + 1)"
      "generation (new_index now dp bd vol) = (if ltfs_is_dirty vol then to32 (generation (vol_index vol) + 1) else generation (vol_index vol))"
    by (simp_all add: new_index_def next_generation_def Let_def)
  moreover have "vol_frame vol v2" using 1(2) 2(2) by (simp add: vol_frame_def)
  ultimately show ?thesis
    using 1(3) 2(3-8) by (intro exI [of _ rsd] exI [of _ rsi] exI [of _ "new_index now dp bd vol"]
        exI [of _ "new_index now ip bi v1"] exI [of _ v2]) simp
qed

end

section \<open>A failed index write\<close>

text \<open>Two indexes that agree but for the name of the program that wrote them.\<close>

definition same_index :: "ltfs_index \<Rightarrow> ltfs_index \<Rightarrow> bool" where
  "same_index a b \<longleftrightarrow> a\<lparr>idx_creator := None\<rparr> = b\<lparr>idx_creator := None\<rparr>"

lemma same_index_simps [simp]: "same_index a a" "same_index (a\<lparr>idx_creator := c\<rparr>) b = same_index a b"
  by (simp_all add: same_index_def)

lemma same_index_iff:
  "same_index a b \<longleftrightarrow> generation a = generation b \<and> mod_time a = mod_time b \<and> selfptr a = selfptr b \<and> backptr a = backptr b \<and>
     dirty a = dirty b \<and> atime_dirty a = atime_dirty b \<and> use_atime a = use_atime b \<and> ltfs_index.version a = ltfs_index.version b"
  by (cases a; cases b) (simp add: same_index_def)

lemma same_index_trans: "same_index a b \<Longrightarrow> same_index b c \<Longrightarrow> same_index a c"
  by (simp add: same_index_def)

lemma xml_set_creator_index: "xml_set_creator xe ret vol = (r, vol') \<Longrightarrow> same_index (vol_index vol') (vol_index vol)"
  by (auto simp: xml_set_creator_def split: if_splits)

lemma xml_schema_to_tape_index:
  assumes "xml_schema_to_tape ops xe reason vol = Some (r, vol')"
  shows "same_index (vol_index vol') (vol_index vol)"
proof -
  obtain chunks e rest where d: "xml_doc xe (vol_creator vol @ '' - '' @ reason) (vol_index vol) = (chunks, e, rest)"
    by (metis prod_cases3)
  have "same_index (vol_index v) (vol_index vol)" if "Some (xml_set_creator xe ret (vol\<lparr>device := dev\<rparr>)) = Some (r, v)" for ret dev v
    using xml_set_creator_index [of xe ret "vol\<lparr>device := dev\<rparr>" r v] that by simp
  then show ?thesis
    using assms unfolding xml_schema_to_tape_def d Let_def prod.case
    by (auto split: if_splits option.splits sum.splits)
qed

lemma on_dev_index: "on_dev f vol = (r, vol') \<Longrightarrow> vol_index vol' = vol_index vol"
  by (auto simp: on_dev_def split: prod.splits)

lemma obind_SomeD:
  assumes "obind r f = Some (a, s')"
  obtains e s where "r = Some (Inl e, s)" "a = Inl e" "s' = s" | b s where "r = Some (Inr b, s)" "f b s = Some (a, s')"
  using assms by (auto simp: obind_def split: option.splits sum.splits)

lemma write_index_file_index:
  assumes "write_index_file ops xe part reason vol = Some (r, vol')"
  shows "same_index (vol_index vol') (set_index_pointers vol)"
proof -
  have step: "same_index (vol_index vol') i"
    if "obind (Some (on_dev f v)) g = Some (r, vol')" "same_index (vol_index v) i"
      "\<And>v. same_index (vol_index v) i \<Longrightarrow> g () v = Some (r, vol') \<Longrightarrow> same_index (vol_index vol') i"
    for f :: "'a device_data \<Rightarrow> (unit, 'a device_data) result" and v g i
    using that(1)
  proof (cases rule: obind_SomeD)
    case (1 e s)
    then show ?thesis using on_dev_index [of f v] that(2) by auto
  next
    case (2 b s)
    then show ?thesis using on_dev_index [of f v] that(2) that(3) [of s] by auto
  qed
  let ?v = "vol\<lparr>vol_index := set_index_pointers vol\<rparr>"
  have fin: "same_index (vol_index vol') (set_index_pointers vol)"
    if "same_index (vol_index v) (set_index_pointers vol)"
      "obind (Some (on_dev (tape_write_filemark ops 1 True True) v)) (\<lambda>_ vol.
         obind (xml_schema_to_tape ops xe reason vol) (\<lambda>_ vol.
         obind (Some (on_dev (tape_write_filemark ops 1 True True) vol)) (\<lambda>_ vol.
         Some (on_dev (tape_write_filemark ops 0 True True) vol)))) = Some (r, vol')" for v
    using that(2,1)
  proof (rule step)
    fix v assume v: "same_index (vol_index v) (set_index_pointers vol)"
      and x: "obind (xml_schema_to_tape ops xe reason v) (\<lambda>_ vol.
         obind (Some (on_dev (tape_write_filemark ops 1 True True) vol)) (\<lambda>_ vol.
         Some (on_dev (tape_write_filemark ops 0 True True) vol))) = Some (r, vol')"
    from x show "same_index (vol_index vol') (set_index_pointers vol)"
    proof (cases rule: obind_SomeD)
      case (1 e s)
      then show ?thesis using xml_schema_to_tape_index v same_index_trans by blast
    next
      case (2 b s)
      have "same_index (vol_index s) (set_index_pointers vol)"
        using 2(1) xml_schema_to_tape_index v same_index_trans by blast
      with 2(2) show ?thesis by (rule step) (auto dest: on_dev_index)
    qed
  qed
  show ?thesis
  proof (cases "part = ltfs_ip_id ?v \<and> \<not> ip_index_file_end ?v")
    case True
    then have "obind (Some (on_dev (tape_write_filemark ops 0 True True) ?v)) (\<lambda>_ vol.
         obind (Some (on_dev (tape_write_filemark ops 1 True True) vol)) (\<lambda>_ vol.
         obind (xml_schema_to_tape ops xe reason vol) (\<lambda>_ vol.
         obind (Some (on_dev (tape_write_filemark ops 1 True True) vol)) (\<lambda>_ vol.
         Some (on_dev (tape_write_filemark ops 0 True True) vol))))) = Some (r, vol')"
      using assms by (simp add: write_index_file_def Let_def)
    then show ?thesis by (rule step) (simp, rule fin)
  next
    case False
    then show ?thesis
      using assms fin [of ?v] unfolding write_index_file_def Let_def by (simp only: if_False obind_simps) simp
  qed
qed

lemma generation_back: "g < U32 \<Longrightarrow> to32 (to32 (g + 1) + (U32 - 1)) = g"
  unfolding to32_def by (simp add: mod_simps U32_def)

lemma write_index_body_failure:
  assumes "write_index_body ops xe now part reason vol = Some (Inl e, vol')" and "e \<noteq> NULL_CALL"
    and "generation (vol_index vol) < U32"
  shows "same_index (vol_index vol') (vol_index vol)"
proof -
  define v0 where "v0 = (if ltfs_is_dirty vol then vol\<lparr>vol_index := next_generation (now part) (vol_index vol)\<rparr> else vol)"
  let ?prev = "prev_generation (ltfs_is_dirty vol) (mod_time (vol_index vol))"
  have prev: "?prev (vol_index v0) = vol_index vol"
    using generation_back [OF assms(3)] by (simp add: v0_def prev_generation_def next_generation_def)
  have ptr: "same_index ((?prev i)\<lparr>backptr := backptr (vol_index w), selfptr := selfptr (vol_index w)\<rparr>) (vol_index vol)"
    if "same_index i (set_index_pointers w)" "vol_index w = vol_index v0" for i w
  proof -
    have "same_index ((?prev i)\<lparr>backptr := backptr (vol_index w), selfptr := selfptr (vol_index w)\<rparr>) (?prev (vol_index v0))"
      using that by (cases "fst (selfptr (vol_index v0)) = ltfs_dp_id w")
        (simp_all add: same_index_iff set_index_pointers_def prev_generation_def Let_def)
    then show ?thesis unfolding prev .
  qed
  let ?seek = "on_dev (tape_seek_append_position ops (ltfs_part_id2num part (vol_label v0)) (part = partid_ip (vol_label v0))) v0"
  obtain r w where w: "?seek = (r, w)" by fastforce
  then have wi: "vol_index w = vol_index v0" by (rule on_dev_index)
  show ?thesis
  proof (cases r)
    case (Inl e')
    then have "vol_index vol' = ?prev (vol_index w)"
      using assms(1) w unfolding write_index_body_def Let_def v0_def [symmetric] by auto
    then show ?thesis using wi prev by simp
  next
    case (Inr u)
    have "(case write_index_file ops xe part reason w of None \<Rightarrow> None
        | Some (Inl e, vol) \<Rightarrow> Some (Inl e, vol\<lparr>vol_index := (?prev (vol_index vol))
             \<lparr>backptr := backptr (vol_index w), selfptr := selfptr (vol_index w)\<rparr>\<rparr>)
        | Some (Inr _, vol) \<Rightarrow> Some (index_written ops part vol)) = Some (Inl e, vol')"
      using assms(1) w Inr unfolding write_index_body_def Let_def v0_def [symmetric] by simp
    moreover have "index_written ops part v \<noteq> (Inl e, vol')" for v
      using assms(2) by (auto simp: index_written_def Let_def split: prod.splits sum.splits if_splits)
    ultimately obtain v where "write_index_file ops xe part reason w = Some (Inl e, v)"
        "vol' = v\<lparr>vol_index := (?prev (vol_index v))\<lparr>backptr := backptr (vol_index w), selfptr := selfptr (vol_index w)\<rparr>\<rparr>"
      by (auto split: option.splits sum.splits prod.splits)
    then show ?thesis using write_index_file_index ptr [OF _ wi] by force
  qed
qed

end
