(* ===== verification/Ltfs_Raw.thy ===== *)
theory Ltfs_Raw
  imports Ltfs_Volume
begin

text \<open>
  Reading and writing the contents of a file: \<^verbatim>\<open>_ltfs_fsraw_write_data_unlocked\<close>, \<^verbatim>\<open>ltfs_fsraw_write_data\<close>,
  \<^verbatim>\<open>ltfs_fsraw_add_extent\<close>, \<^verbatim>\<open>ltfs_fsraw_write\<close> and \<^verbatim>\<open>ltfs_fsraw_read\<close> of \<^verbatim>\<open>libltfs/ltfs_fsops_raw.c\<close>.

  Here the functions are seen as functions of the contents of the file and of the volume, without the
  reader-writer locks: \<open>Ltfs_Fsops\<close> has them with every lock operation, and \<open>Ltfs_Contents\<close> shows that the two
  agree. Taking the volume lock succeeds unless a revalidation failed; waiting for a revalidation that is still
  running does not return (\<open>None\<close>). What \<^verbatim>\<open>ltfs_revalidate\<close> does with the volume is a parameter. A copy outside of
  the block buffer or of the caller's buffer is \<open>OUT_OF_BOUNDS\<close>.
\<close>

section \<open>Environment and locks\<close>

text \<open>
  \<open>fs_mutex\<close>: the device mutex can be locked; \<open>fs_malloc\<close>: which allocations succeed; \<open>fs_rekey\<close>: the key
  manager; \<open>fs_junk\<close>: what a failed read leaves in the block buffer.
\<close>

record 's fs_env =
  fs_mutex :: bool
  fs_xml :: xml_env
  fs_index_time :: "char \<Rightarrow> ltfs_timespec"
  fs_now :: ltfs_timespec
  fs_malloc :: "nat \<Rightarrow> bool"
  fs_rekey :: "('s device_data \<Rightarrow> bool \<times> 's device_data) option"
  fs_junk :: "byte list \<Rightarrow> byte list"
  fs_revalidate :: "'s ltfs_volume \<Rightarrow> (unit, 's ltfs_volume) result"

definition ltfs_get_volume_lock :: "'s ltfs_volume \<Rightarrow> (err + unit) option" where
  "ltfs_get_volume_lock vol =
     (case reval vol of None \<Rightarrow> Some (Inr ()) | Some e \<Rightarrow> if e = LTFS_REVAL_RUNNING then None else Some (Inl e))"

definition ltfs_wait_revalidation :: "'s ltfs_volume \<Rightarrow> (err + unit) option" where
  "ltfs_wait_revalidation vol =
     (case reval vol of None \<Rightarrow> Some (Inr ()) | Some e \<Rightarrow> if e = LTFS_REVAL_RUNNING then None else Some (Inl e))"

section \<open>Writing\<close>

partial_function (option) write_blocks ::
    "'s tape_ops \<Rightarrow> nat \<Rightarrow> byte list \<Rightarrow> 's device_data \<Rightarrow> (unit, 's device_data) result option" where
  "write_blocks ops bs buf dev =
     (if length buf = 0 then Some (Inr (), dev)
      else case tape_write ops (take bs buf) False True dev of
        (Inl e, dev) \<Rightarrow> Some (Inl e, dev)
      | (Inr _, dev) \<Rightarrow> write_blocks ops bs (drop bs buf) dev)"

fun write_repeat ::
    "'s tape_ops \<Rightarrow> nat \<Rightarrow> byte list \<Rightarrow> nat \<Rightarrow> 's device_data \<Rightarrow> (unit, 's device_data) result option" where
  "write_repeat ops bs buf 0 dev = Some (Inr (), dev)"
| "write_repeat ops bs buf (Suc n) dev = obind (write_blocks ops bs buf dev) (\<lambda>_. write_repeat ops bs buf n)"

text \<open>The label \<^verbatim>\<open>out_unlock\<close>: fence the device, or give the volume up.\<close>

definition write_unlock :: "('a, 's ltfs_volume) result \<Rightarrow> ('a, 's ltfs_volume) result" where
  "write_unlock = (\<lambda>(r, vol). (r, case r of
       Inl e \<Rightarrow> if NEED_REVAL e then vol\<lparr>device := tape_start_fence (device vol)\<rparr>
                else if IS_UNEXPECTED_MOVE e then vol\<lparr>reval := Some LTFS_REVAL_FAILED\<rparr> else vol
     | Inr _ \<Rightarrow> vol))"

text \<open>The first part, for which the volume is locked exclusively: the other partition ends in an index first.\<close>

definition write_data_index ::
    "'s tape_ops \<Rightarrow> 's fs_env \<Rightarrow> char \<Rightarrow> 's ltfs_volume \<Rightarrow> (unit, 's ltfs_volume) result option" where
  "write_data_index ops env part vol =
     (let ro = ltfs_get_partition_readonly part vol in
      if ro \<noteq> Inr () \<and> ro \<noteq> Inl LTFS_NO_SPACE then Some (ro, vol)
      else
        (case ltfs_write_index_conditional ops (fs_xml env) (fs_index_time env)
                (if part = ltfs_ip_id vol then ltfs_dp_id vol else ltfs_ip_id vol) vol of
           None \<Rightarrow> None
         | Some (Inl e, vol) \<Rightarrow> Some (Inl e, vol)
         | Some (Inr _, vol) \<Rightarrow>
             Some (Inr (), if part = ltfs_ip_id vol then vol\<lparr>ip_index_file_end := False\<rparr> else vol\<lparr>dp_index_file_end := False\<rparr>)))"

text \<open>
  The second part, the blocks at the append position. The result is the first block written; that of the
  whole is \<open>None\<close> when there was nothing to write.
\<close>

definition write_data_blocks ::
    "'s tape_ops \<Rightarrow> char \<Rightarrow> byte list \<Rightarrow> nat \<Rightarrow> 's ltfs_volume \<Rightarrow> (nat option, 's ltfs_volume) result option" where
  "write_data_blocks ops part buf repetitions vol =
     (case on_dev (tape_seek_append_position ops (ltfs_part_id2num part (vol_label vol)) (part = partid_ip (vol_label vol))) vol of
        (Inl e, vol) \<Rightarrow> Some (Inl e, vol)
      | (Inr _, vol) \<Rightarrow>
          (case write_repeat ops (blocksize (vol_label vol)) buf repetitions (device vol) of
             None \<Rightarrow> None
           | Some (Inl e, dev) \<Rightarrow> Some (Inl e, vol\<lparr>device := dev\<rparr>)
           | Some (Inr _, dev) \<Rightarrow>
               Some (Inr (Some (pos_block (tape_get_position (device vol)))), vol\<lparr>device := dev\<rparr>)))"

definition write_data_locked ::
    "'s tape_ops \<Rightarrow> 's fs_env \<Rightarrow> char \<Rightarrow> byte list \<Rightarrow> nat \<Rightarrow> 's ltfs_volume \<Rightarrow> (nat option, 's ltfs_volume) result option" where
  "write_data_locked ops env part buf repetitions vol =
     obind (write_data_index ops env part vol) (\<lambda>_. write_data_blocks ops part buf repetitions)"

definition ltfs_fsraw_write_data_unlocked ::
    "'s tape_ops \<Rightarrow> 's fs_env \<Rightarrow> char \<Rightarrow> byte list \<Rightarrow> nat \<Rightarrow> 's ltfs_volume \<Rightarrow> (nat option, 's ltfs_volume) result option" where
  "ltfs_fsraw_write_data_unlocked ops env part buf repetitions vol =
     (if part \<noteq> ltfs_dp_id vol \<and> part \<noteq> ltfs_ip_id vol then Some (Inl LTFS_BAD_PARTNUM, vol)
      else if length buf = 0 \<or> repetitions = 0 then Some (Inr None, vol)
      else if repetitions > 1 \<and> length buf mod blocksize (vol_label vol) \<noteq> 0 then Some (Inl LTFS_BAD_ARG, vol)
      else case tape_device_lock (fs_mutex env) (device vol) of
        Inl e \<Rightarrow> Some (Inl e, vol)
      | Inr _ \<Rightarrow> map_option write_unlock (write_data_locked ops env part buf repetitions vol))"

partial_function (option) ltfs_fsraw_write_data ::
    "'s tape_ops \<Rightarrow> 's fs_env \<Rightarrow> char \<Rightarrow> byte list \<Rightarrow> nat \<Rightarrow> 's ltfs_volume \<Rightarrow> (nat option, 's ltfs_volume) result option" where
  "ltfs_fsraw_write_data ops env part buf repetitions vol =
     (case ltfs_get_volume_lock vol of
        None \<Rightarrow> None
      | Some (Inl e) \<Rightarrow> Some (Inl e, vol)
      | Some (Inr _) \<Rightarrow>
          (case ltfs_fsraw_write_data_unlocked ops env part buf repetitions vol of
             None \<Rightarrow> None
           | Some (Inr b, vol) \<Rightarrow> Some (Inr b, vol)
           | Some (Inl e, vol) \<Rightarrow>
               if e = LTFS_DEVICE_FENCED then
                 (case ltfs_wait_revalidation vol of
                    None \<Rightarrow> None
                  | Some (Inl e) \<Rightarrow> Some (Inl e, vol)
                  | Some (Inr _) \<Rightarrow> ltfs_fsraw_write_data ops env part buf repetitions vol)
               else if NEED_REVAL e then
                 (case fs_revalidate env vol of
                    (Inl e, vol) \<Rightarrow> Some (Inl e, vol)
                  | (Inr _, vol) \<Rightarrow> ltfs_fsraw_write_data ops env part buf repetitions vol)
               else if IS_UNEXPECTED_MOVE e then Some (Inl e, vol\<lparr>reval := Some LTFS_REVAL_FAILED\<rparr>)
               else Some (Inl e, vol)))"

definition add_extent_vol ::
    "'s fs_env \<Rightarrow> extent_info \<Rightarrow> bool \<Rightarrow> dentry \<times> 's ltfs_volume \<Rightarrow> (unit, dentry \<times> 's ltfs_volume) result" where
  "add_extent_vol env ext update_time = (\<lambda>(d, vol).
     case ltfs_fsraw_add_extent_unlocked (blocksize (vol_label vol)) (fs_malloc env) (fs_now env) ext update_time d (vol_index vol) of
       (r, d, idx) \<Rightarrow> (r, d, vol\<lparr>vol_index := idx\<rparr>))"

text \<open>The blocks are on tape already when an extent is added, so that a partition without space is no obstacle.\<close>

definition ltfs_fsraw_add_extent ::
    "'s fs_env \<Rightarrow> extent_info \<Rightarrow> bool \<Rightarrow> dentry \<times> 's ltfs_volume \<Rightarrow> (unit, dentry \<times> 's ltfs_volume) result option" where
  "ltfs_fsraw_add_extent env ext update_time = (\<lambda>(d, vol).
     let r = ltfs_get_partition_readonly (ltfs_ip_id vol) vol in
     if \<not> ignorable r then Some (r, d, vol)
     else let r = ltfs_get_partition_readonly (ltfs_dp_id vol) vol in
       if \<not> ignorable r then Some (r, d, vol)
       else case ltfs_get_volume_lock vol of
         None \<Rightarrow> None
       | Some (Inl e) \<Rightarrow> Some (Inl e, d, vol)
       | Some (Inr _) \<Rightarrow> Some (add_extent_vol env ext update_time (d, vol)))"

text \<open>
  The loop of \<^verbatim>\<open>ltfs_fsraw_write\<close> over the locks and the revalidation is the one of
  \<^verbatim>\<open>ltfs_fsraw_write_data\<close>; the first block of the extent is \<open>0\<close> when nothing was written.
\<close>

definition ltfs_fsraw_write ::
    "'s tape_ops \<Rightarrow> 's fs_env \<Rightarrow> byte list \<Rightarrow> nat \<Rightarrow> char \<Rightarrow> bool \<Rightarrow> dentry \<times> 's ltfs_volume \<Rightarrow>
     (unit, dentry \<times> 's ltfs_volume) result option" where
  "ltfs_fsraw_write ops env buf offset part update_time = (\<lambda>(d, vol).
     case ltfs_fsraw_write_data ops env part buf 1 vol of
       None \<Rightarrow> None
     | Some (Inl e, vol) \<Rightarrow> Some (Inl e, d, vol)
     | Some (Inr b, vol) \<Rightarrow>
         Some (add_extent_vol env \<lparr>partition = part, block = (case b of None \<Rightarrow> 0 | Some b \<Rightarrow> b), byteoffset = 0,
             bytecount = length buf, fileoffset = offset\<rparr> update_time (d, vol)))"

section \<open>Reading\<close>

text \<open>
  One block: from the one-block cache when the head is right behind the cached block, else from the tape.
  \<open>curb\<close> is the block of the local variable \<^verbatim>\<open>curpos\<close>, which is the result.
\<close>

definition fetch_block ::
    "'s tape_ops \<Rightarrow> 's fs_env \<Rightarrow> nat \<Rightarrow> char \<Rightarrow> nat \<Rightarrow> nat \<times> nat \<Rightarrow> nat \<times> nat \<Rightarrow> 's ltfs_volume \<Rightarrow> (nat, 's ltfs_volume) result" where
  "fetch_block ops env bs part blockbytes = (\<lambda>(seekp, seekb) (curp, curb) vol.
     if part = fst (last_pos vol) \<and> seekb = snd (last_pos vol) \<and> seekp = curp \<and> add64 seekb 1 = curb
     then if last_size vol < blockbytes then (Inl LTFS_SMALL_BLOCK, vol) else (Inr curb, vol)
     else
       let old = (case last_block vol of None \<Rightarrow> [] | Some b \<Rightarrow> b) in
       case tape_read ops (fs_rekey env) bs (bs \<noteq> blockbytes) (device vol) of
         (Inl e, dev) \<Rightarrow> (Inl e, vol\<lparr>device := dev, last_block := Some (fs_junk env old)\<rparr>)
       | (Inr d, dev) \<Rightarrow>
           let vol = vol\<lparr>device := dev, last_block := Some (d @ drop (length d) old)\<rparr> in
           if length d < blockbytes then (Inl LTFS_SMALL_BLOCK, vol)
           else (Inr (add64 curb 1), vol\<lparr>last_pos := (part, seekb), last_size := length d\<rparr>))"

partial_function (option) read_blocks ::
    "'s tape_ops \<Rightarrow> 's fs_env \<Rightarrow> nat \<Rightarrow> nat \<Rightarrow> nat \<Rightarrow> extent_info \<Rightarrow> nat \<Rightarrow> byte list \<Rightarrow> nat \<Rightarrow> nat \<Rightarrow>
     nat \<times> nat \<Rightarrow> nat \<times> nat \<Rightarrow> 's ltfs_volume \<Rightarrow> (nat \<times> byte list, 's ltfs_volume) result option" where
  "read_blocks ops env bs cnt last_off e next_off out firstbyte lastbyte seekpos curpos vol =
     (let e_end = add64 (fileoffset e) (bytecount e) in
      if \<not> (e_end > next_off \<and> length out < cnt) then Some (Inr (next_off, out), vol)
      else
        let lastbyte = add64 lastbyte bs;
            lastbyte = (if e_end < lastbyte then e_end else lastbyte)
        in case fetch_block ops env bs (partition e) (sub64 lastbyte firstbyte) seekpos curpos vol of
             (Inl er, vol) \<Rightarrow> Some (Inl er, vol)
           | (Inr curb, vol) \<Rightarrow>
               let buf = (case last_block vol of None \<Rightarrow> [] | Some b \<Rightarrow> b);
                   ncopy = sub64 (if lastbyte > last_off then last_off else lastbyte) next_off;
                   off = sub64 next_off firstbyte
               in if off + ncopy > length buf \<or> length out + ncopy > cnt then Some (Inl OUT_OF_BOUNDS, vol)
                  else read_blocks ops env bs cnt last_off e (add64 next_off ncopy) (out @ take ncopy (drop off buf))
                         (add64 firstbyte bs) lastbyte (fst seekpos, add64 (snd seekpos) 1) (fst curpos, curb) vol)"

text \<open>The loop over the extents, with the zeros in front of each of them.\<close>

definition seek_needed :: "char \<Rightarrow> nat \<times> nat \<Rightarrow> nat \<times> nat \<Rightarrow> 's ltfs_volume \<Rightarrow> bool" where
  "seek_needed part = (\<lambda>(seekp, seekb) (curp, curb) vol.
     (curp \<noteq> seekp \<or> curb \<noteq> seekb) \<and>
     \<not> (curp = seekp \<and> curb = add64 seekb 1 \<and> part = fst (last_pos vol) \<and> seekb = snd (last_pos vol)))"

fun read_extents ::
    "'s tape_ops \<Rightarrow> 's fs_env \<Rightarrow> nat \<Rightarrow> nat \<Rightarrow> nat \<Rightarrow> extent_info list \<Rightarrow> nat \<times> byte list \<Rightarrow> 's ltfs_volume \<Rightarrow>
     (nat \<times> byte list, 's ltfs_volume) result option" where
  "read_extents ops env bs cnt last_off [] st vol = Some (Inr st, vol)"
| "read_extents ops env bs cnt last_off (e # es) (next_off, out) vol =
     (if length out = cnt then Some (Inr (next_off, out), vol)
      else if next_off < fileoffset e \<and> fileoffset e > last_off
      then Some (Inr (next_off, out @ replicate (sub64 last_off next_off) 0), vol)
      else
        let out = (if next_off < fileoffset e then out @ replicate (sub64 (fileoffset e) next_off) 0 else out);
            next_off = (if next_off < fileoffset e then fileoffset e else next_off)
        in if add64 (fileoffset e) (bytecount e) > next_off
           then
             let pos = tape_get_position (device vol);
                 curpos = (pos_partition pos, pos_block pos);
                 seekpos = (ltfs_part_id2num (partition e) (vol_label vol),
                   add64 (block e) (add64 (sub64 next_off (fileoffset e)) (byteoffset e) div bs));
                 firstbyte = add64 (sub64 (fileoffset e) (byteoffset e)) ((sub64 (snd seekpos) (block e) * bs) mod U64)
             in (case (if seek_needed (partition e) seekpos curpos vol
                       then on_dev (tape_seek ops (fst seekpos) (snd seekpos)) vol else (Inr (), vol)) of
                   (Inl er, vol) \<Rightarrow> Some (Inl er, vol)
                 | (Inr _, vol) \<Rightarrow>
                     obind (read_blocks ops env bs cnt last_off e next_off out firstbyte firstbyte seekpos curpos vol)
                       (\<lambda>st vol. read_extents ops env bs cnt last_off es st vol))
           else read_extents ops env bs cnt last_off es (next_off, out) vol)"

text \<open>With all locks taken: the block buffer, the extents, the zeros up to the end of the file; then the access time.\<close>

definition read_data ::
    "'s tape_ops \<Rightarrow> 's fs_env \<Rightarrow> nat \<Rightarrow> nat \<Rightarrow> dentry \<Rightarrow> 's ltfs_volume \<Rightarrow> (byte list, 's ltfs_volume) result option" where
  "read_data ops env cnt offset d vol =
     (let bs = blocksize (vol_label vol) in
      if last_block vol = None \<and> \<not> fs_malloc env 0 then Some (Inl LTFS_NO_MEMORY, vol)
      else
        let vol = (if last_block vol = None then vol\<lparr>last_block := Some (replicate bs 0)\<rparr> else vol);
            last_off = add64 offset cnt
        in case read_extents ops env bs cnt last_off (extentlist d) (offset, []) vol of
             None \<Rightarrow> None
           | Some (Inl e, vol) \<Rightarrow> Some (Inl e, vol)
           | Some (Inr (next_off, out), vol) \<Rightarrow>
               Some (Inr (if cnt > length out \<and> next_off < size d
                          then out @ replicate (if last_off < size d then sub64 last_off next_off else sub64 (size d) next_off) 0
                          else out), vol))"

definition read_locked ::
    "'s tape_ops \<Rightarrow> 's fs_env \<Rightarrow> nat \<Rightarrow> nat \<Rightarrow> dentry \<times> 's ltfs_volume \<Rightarrow> (byte list, dentry \<times> 's ltfs_volume) result option" where
  "read_locked ops env cnt offset = (\<lambda>(d, vol).
     case read_data ops env cnt offset d vol of
       None \<Rightarrow> None
     | Some (Inl e, vol) \<Rightarrow> Some (Inl e, d, vol)
     | Some (Inr out, vol) \<Rightarrow> Some (Inr out, d\<lparr>access_time := fs_now env\<rparr>, vol\<lparr>vol_index := ltfs_set_index_dirty True (vol_index vol)\<rparr>))"

partial_function (option) ltfs_fsraw_read ::
    "'s tape_ops \<Rightarrow> 's fs_env \<Rightarrow> nat \<Rightarrow> nat \<Rightarrow> dentry \<times> 's ltfs_volume \<Rightarrow> (byte list, dentry \<times> 's ltfs_volume) result option" where
  "ltfs_fsraw_read ops env cnt offset st =
     (if cnt = 0 then Some (Inr [], st)
      else case ltfs_get_volume_lock (snd st) of
        None \<Rightarrow> None
      | Some (Inl e) \<Rightarrow> Some (Inl e, st)
      | Some (Inr _) \<Rightarrow>
          (case tape_device_lock (fs_mutex env) (device (snd st)) of
             Inl e \<Rightarrow>
               if e = LTFS_DEVICE_FENCED then
                 (case ltfs_wait_revalidation (snd st) of
                    None \<Rightarrow> None
                  | Some (Inl e) \<Rightarrow> Some (Inl e, st)
                  | Some (Inr _) \<Rightarrow> ltfs_fsraw_read ops env cnt offset st)
               else Some (Inl e, st)
           | Inr _ \<Rightarrow>
               (case read_locked ops env cnt offset st of
                  None \<Rightarrow> None
                | Some (Inr out, st) \<Rightarrow> Some (Inr out, st)
                | Some (Inl e, d, vol) \<Rightarrow>
                    if NEED_REVAL e then
                      (case fs_revalidate env (vol\<lparr>device := tape_start_fence (device vol)\<rparr>) of
                         (Inl e, vol) \<Rightarrow> Some (Inl e, d, vol)
                       | (Inr _, vol) \<Rightarrow> ltfs_fsraw_read ops env cnt offset (d, vol))
                    else if IS_UNEXPECTED_MOVE e then Some (Inl e, d, vol\<lparr>reval := Some LTFS_REVAL_FAILED\<rparr>)
                    else Some (Inl e, d, vol))))"

section \<open>Offsets inside an extent\<close>

lemma int_add64: "int (add64 a b) = (int a + int b) mod int U64"
  by (simp add: add64_def zmod_int)

lemma int_sub64: "int (sub64 a b) = (int a - int b) mod int U64"
proof -
  have "int (U64 - b mod U64) = int U64 - int b mod int U64"
    by (simp add: of_nat_diff zmod_int less_imp_le)
  then have "int (sub64 a b) = (int a + (int U64 - int b mod int U64)) mod int U64"
    unfolding sub64_def zmod_int of_nat_add by simp
  also have "\<dots> = (int a - int b mod int U64 + int U64) mod int U64"
    by (simp only: add_diff_eq diff_add_eq)
  also have "\<dots> = (int a - int b) mod int U64"
    by (simp only: mod_add_self2 mod_diff_right_eq)
  finally show ?thesis .
qed

text \<open>The distance to a point that may lie in front of the file, and back.\<close>

lemma add64_sub64: "k \<le> x + b \<Longrightarrow> x + b - k < U64 \<Longrightarrow> add64 (sub64 x k) b = x + b - k"
proof -
  assume a: "k \<le> x + b" "x + b - k < U64"
  have "int (add64 (sub64 x k) b) = (int x - int k + int b) mod int U64"
    by (simp add: int_add64 int_sub64 mod_simps)
  also have "int x - int k + int b = int (x + b - k)" using a by (simp add: of_nat_diff)
  also have "int (x + b - k) mod int U64 = int (x + b - k)" using a by (simp add: zmod_int [symmetric])
  finally show ?thesis by (simp only: of_nat_eq_iff)
qed

lemma sub64_sub64: "x \<le> y + k \<Longrightarrow> y + k - x < U64 \<Longrightarrow> sub64 y (sub64 x k) = y + k - x"
proof -
  assume a: "x \<le> y + k" "y + k - x < U64"
  have "int (sub64 y (sub64 x k)) = (int y - (int x - int k)) mod int U64"
    by (simp add: int_sub64 mod_simps)
  also have "int y - (int x - int k) = int (y + k - x)" using a by (simp add: of_nat_diff)
  also have "int (y + k - x) mod int U64 = int (y + k - x)" using a by (simp add: zmod_int [symmetric])
  finally show ?thesis by (simp only: of_nat_eq_iff)
qed

lemma firstbyte_eq:
  assumes "F \<le> x"
  shows "add64 (sub64 F B) (((x - F + B) div bs * bs) mod U64) = sub64 x ((x - F + B) mod bs)"
proof -
  have "int (x - F + B) = int ((x - F + B) div bs * bs) + int ((x - F + B) mod bs)"
    by (metis div_mult_mod_eq of_nat_add)
  then have e: "int F - int B + int ((x - F + B) div bs * bs) = int x - int ((x - F + B) mod bs)"
    using assms by (simp add: of_nat_diff)
  have "int (add64 (sub64 F B) (((x - F + B) div bs * bs) mod U64)) = (int F - int B + int ((x - F + B) div bs * bs)) mod int U64"
    unfolding int_add64 int_sub64 zmod_int by (simp only: mod_simps)
  also have "\<dots> = int (sub64 x ((x - F + B) mod bs))" unfolding e int_sub64 ..
  finally show ?thesis by (simp only: of_nat_eq_iff)
qed

section \<open>The contents of a file\<close>

text \<open>The byte at a place of the tape, and the byte at an offset of a file: \<open>0\<close> where no extent is.\<close>

definition tape_at :: "tape \<Rightarrow> ltfs_label \<Rightarrow> char \<times> nat \<times> nat \<Rightarrow> byte option" where
  "tape_at tp lab = (\<lambda>(p, b, i). let num = ltfs_part_id2num p lab in
     if num < 2 \<and> b < length (tp num)
     then case tp num ! b of Data d \<Rightarrow> if i < length d then Some (d ! i) else None | Filemark \<Rightarrow> None
     else None)"

definition file_byte :: "tape \<Rightarrow> ltfs_label \<Rightarrow> nat \<Rightarrow> extent_info list \<Rightarrow> nat \<Rightarrow> byte" where
  "file_byte tp lab bs es x =
     (case file_map bs es x of None \<Rightarrow> 0 | Some a \<Rightarrow> (case tape_at tp lab a of None \<Rightarrow> 0 | Some v \<Rightarrow> v))"

definition file_content :: "tape \<Rightarrow> ltfs_label \<Rightarrow> nat \<Rightarrow> dentry \<Rightarrow> byte list" where
  "file_content tp lab bs d = map (file_byte tp lab bs (extentlist d)) [0..<size d]"

text \<open>Every byte of every extent is on the tape.\<close>

definition readable :: "tape \<Rightarrow> ltfs_label \<Rightarrow> nat \<Rightarrow> extent_info list \<Rightarrow> bool" where
  "readable tp lab bs es \<longleftrightarrow> (\<forall>e\<in>set es. \<forall>x. covers e x \<longrightarrow> tape_at tp lab (tape_byte bs e x) \<noteq> None)"

text \<open>The one-block cache holds the block of the tape that it names, if it names one.\<close>

definition cache_ok :: "tape \<Rightarrow> nat \<Rightarrow> 's ltfs_volume \<Rightarrow> bool" where
  "cache_ok tp bs vol \<longleftrightarrow>
     (case last_block vol of None \<Rightarrow> True | Some buf \<Rightarrow> length buf = bs) \<and>
     (let num = ltfs_part_id2num (fst (last_pos vol)) (vol_label vol); b = snd (last_pos vol) in
      num < 2 \<longrightarrow> (\<exists>buf d. last_block vol = Some buf \<and> b < length (tp num) \<and> tp num ! b = Data d \<and>
        last_size vol = length (take bs d) \<and> take (last_size vol) buf = take bs d))"

definition read_frame :: "('s \<Rightarrow> nat) \<Rightarrow> 's ltfs_volume \<Rightarrow> 's ltfs_volume \<Rightarrow> bool" where
  "read_frame mb vol vol' \<longleftrightarrow> vol_label vol' = vol_label vol \<and> vol_index vol' = vol_index vol \<and> vol_creator vol' = vol_creator vol \<and>
     reval vol' = reval vol \<and> ip_index_file_end vol' = ip_index_file_end vol \<and> dp_index_file_end vol' = dp_index_file_end vol \<and>
     dev_frame mb (device vol) (device vol') \<and> append_pos (device vol') = append_pos (device vol)"

lemma read_frame_trans: "read_frame mb a b \<Longrightarrow> read_frame mb b c \<Longrightarrow> read_frame mb a c"
  by (simp add: read_frame_def dev_frame_def)

lemma read_frame_refl [simp]: "read_frame mb a a"
  by (simp add: read_frame_def dev_frame_def)

context tape_device
begin

text \<open>What the read loop keeps: the head in step, the tape, the cache, the allocated buffer.\<close>

definition rd_ok :: "tape \<Rightarrow> nat \<Rightarrow> 's ltfs_volume \<Rightarrow> bool" where
  "rd_ok tp bs vol \<longleftrightarrow> in_step ok head (device vol) \<and> tape_of (backend_data (device vol)) = tp \<and> cache_ok tp bs vol \<and>
     last_block vol \<noteq> None"

definition at :: "nat \<Rightarrow> nat \<Rightarrow> 's ltfs_volume \<Rightarrow> bool" where
  "at p b vol \<longleftrightarrow> pos_partition (position (device vol)) = p \<and> pos_block (position (device vol)) = b"

lemma fetch_block_ok:
  assumes v: "rd_ok tp bs vol" and sp: "sp = ltfs_part_id2num part (vol_label vol)" "sp < 2"
    and d: "sb < length (tp sp)" "tp sp ! sb = Data d" "n \<le> length (take bs d)" and sb: "sb + 1 < U64"
    and pos: "at sp (if part = fst (last_pos vol) \<and> sb = snd (last_pos vol) \<and> sp = curp \<and> sb + 1 = curb then sb + 1 else sb) vol"
  shows "\<exists>vol' curb' buf. fetch_block ops env bs part n (sp, sb) (curp, curb) vol = (Inr curb', vol') \<and> rd_ok tp bs vol' \<and>
    last_block vol' = Some buf \<and> length buf = bs \<and> take (length (take bs d)) buf = take bs d \<and> last_pos vol' = (part, sb) \<and>
    at sp (sb + 1) vol' \<and> read_frame max_block vol vol'"
proof -
  obtain old where old: "last_block vol = Some old" "length old = bs"
    using v by (auto simp: rd_ok_def cache_ok_def split: option.splits)
  show ?thesis
  proof (cases "part = fst (last_pos vol) \<and> sb = snd (last_pos vol) \<and> sp = curp \<and> sb + 1 = curb")
    case True
    have "last_size vol = length (take bs d)" "take (last_size vol) old = take bs d"
      using v True sp d(2) old by (auto simp: rd_ok_def cache_ok_def Let_def)
    moreover from this have "fetch_block ops env bs part n (sp, sb) (curp, curb) vol = (Inr curb, vol)"
      using True d(3) sb by (simp add: fetch_block_def add64_exact not_less)
    ultimately show ?thesis
      using v True old pos by (intro exI [of _ vol] exI [of _ curb] exI [of _ old]) (auto simp: prod_eq_iff)
  next
    case False
    have "pos_block (position (device vol)) < length (tape_of (backend_data (device vol)) (pos_partition (position (device vol))))"
      "tape_of (backend_data (device vol)) (pos_partition (position (device vol))) ! pos_block (position (device vol)) = Data d"
      using v d pos False by (auto simp: rd_ok_def at_def)
    from read_ok [OF _ this, of "fs_rekey env" bs "bs \<noteq> n"] v obtain dev' where
      r: "tape_read ops (fs_rekey env) bs (bs \<noteq> n) (device vol) = (Inr (take bs d), dev')" "in_step ok head dev'"
        "tape_of (backend_data dev') = tp" "pos_partition (position dev') = sp" "pos_block (position dev') = sb + 1"
        "dev_frame max_block (device vol) dev'" "append_pos dev' = append_pos (device vol)"
      using pos False by (auto simp: rd_ok_def at_def dev_frame_def)
    let ?buf = "take bs d @ drop (length (take bs d)) old"
    let ?vol = "vol\<lparr>device := dev', last_block := Some ?buf, last_pos := (part, sb), last_size := length (take bs d)\<rparr>"
    have "\<exists>curb'. fetch_block ops env bs part n (sp, sb) (curp, curb) vol = (Inr curb', ?vol)"
      using False r(1) d(3) old sb by (auto simp: fetch_block_def add64_exact Let_def)
    moreover have len: "length ?buf = bs" using old by simp
    moreover have "rd_ok tp bs ?vol"
      using r d sp len by (simp add: rd_ok_def cache_ok_def Let_def) (simp add: min_def)
    ultimately show ?thesis
      using r by (intro exI [of _ ?vol]) (auto simp: at_def read_frame_def min_def)
  qed
qed

end

text \<open>One block of an extent: the bytes from \<open>x\<close> up to the end of its block or of the extent.\<close>

lemma div_mod_within:
  assumes "(a::nat) mod bs + j < bs"
  shows "(a + j) div bs = a div bs" "(a + j) mod bs = a mod bs + j"
proof -
  have e: "a + j = bs * (a div bs) + (a mod bs + j)" by (metis add.assoc mult_div_mod_eq)
  show "(a + j) div bs = a div bs" "(a + j) mod bs = a mod bs + j"
    by (subst e, use assms in \<open>simp only: div_mult_self4 mod_mult_self4\<close>, use assms in simp)+
qed

lemma tape_byte_in_block:
  assumes "fileoffset e \<le> x" and "(x - fileoffset e + byteoffset e) mod bs + j < bs"
  shows "tape_byte bs e (x + j) = (partition e, block e + (x - fileoffset e + byteoffset e) div bs,
    (x - fileoffset e + byteoffset e) mod bs + j)"
proof -
  have "byteoffset e + (x + j - fileoffset e) = x - fileoffset e + byteoffset e + j" using assms(1) by simp
  then show ?thesis using div_mod_within [OF assms(2)] by (simp only: tape_byte_def)
qed

lemma extent_block:
  assumes x: "fileoffset e \<le> x" "x < lb" "lb \<le> ext_end e" and o: "k = (x - fileoffset e + byteoffset e) mod bs" "k + (lb - x) \<le> bs"
    and rd: "\<forall>y. covers e y \<longrightarrow> tape_at tp lab (tape_byte bs e y) \<noteq> None"
  defines "sp \<equiv> ltfs_part_id2num (partition e) lab" and "sb \<equiv> block e + (x - fileoffset e + byteoffset e) div bs"
  shows "\<exists>d. sp < 2 \<and> sb < length (tp sp) \<and> tp sp ! sb = Data d \<and> k + (lb - x) \<le> length d \<and>
    (\<forall>j<lb - x. tape_at tp lab (tape_byte bs e (x + j)) = Some (d ! (k + j)))"
proof -
  have tb: "tape_byte bs e (x + j) = (partition e, sb, k + j)" if "j < lb - x" for j
    using tape_byte_in_block [OF x(1), of bs j] that o by (simp add: sb_def)
  have rd': "tape_at tp lab (partition e, sb, k + j) \<noteq> None" if "j < lb - x" for j
  proof -
    have "covers e (x + j)" using x that by (simp add: covers_def)
    with rd tb [OF that] show ?thesis by metis
  qed
  have "lb - x - 1 < lb - x" using x by simp
  from rd' [OF this] obtain d where d: "sp < 2" "sb < length (tp sp)" "tp sp ! sb = Data d" "k + (lb - x - 1) < length d"
    by (auto simp: tape_at_def sp_def Let_def split: if_splits trec.splits)
  moreover have "tape_at tp lab (tape_byte bs e (x + j)) = Some (d ! (k + j))" if "j < lb - x" for j
    using d that unfolding tb [OF that] by (simp add: tape_at_def sp_def [symmetric])
  ultimately show ?thesis using x(2) by (intro exI [of _ d]) auto
qed

lemma copied_bytes:
  assumes "\<forall>j<h. k + j < length d \<and> k + j < bs \<and> f (x + j) = Some (d ! (k + j))" and "take (length (take bs d)) buf = take bs d"
  shows "take h (drop k buf) = map (\<lambda>y. the (f y)) [x..<x + h]"
proof (intro nth_equalityI)
  have lb: "length (take bs d) \<le> length buf" using assms(2) by (metis length_take min.cobounded2 nat_le_linear take_all)
  show len: "length (take h (drop k buf)) = length (map (\<lambda>y. the (f y)) [x..<x + h])"
  proof (cases h)
    case (Suc j)
    then have "k + j < length d" "k + j < bs" using assms(1) by auto
    then show ?thesis using lb Suc by simp
  qed simp
  fix j assume "j < length (take h (drop k buf))"
  then have j: "j < h" by simp
  have "buf ! (k + j) = take (length (take bs d)) buf ! (k + j)" using assms(1) j by simp
  also have "\<dots> = d ! (k + j)" unfolding assms(2) using assms(1) j by simp
  finally show "take h (drop k buf) ! j = map (\<lambda>y. the (f y)) [x..<x + h] ! j"
    using assms(1) j len by simp
qed

text \<open>The offset of \<open>x\<close> in its block, and the block.\<close>

abbreviation in_block :: "nat \<Rightarrow> extent_info \<Rightarrow> nat \<Rightarrow> nat" where
  "in_block bs e x \<equiv> (x - fileoffset e + byteoffset e) mod bs"

abbreviation the_block :: "nat \<Rightarrow> extent_info \<Rightarrow> nat \<Rightarrow> nat" where
  "the_block bs e x \<equiv> block e + (x - fileoffset e + byteoffset e) div bs"

definition ext_bytes :: "tape \<Rightarrow> ltfs_label \<Rightarrow> nat \<Rightarrow> extent_info \<Rightarrow> nat \<Rightarrow> nat \<Rightarrow> byte list" where
  "ext_bytes tp lab bs e a b = map (\<lambda>y. the (tape_at tp lab (tape_byte bs e y))) [a..<b]"

lemma ext_bytes_append: "a \<le> b \<Longrightarrow> b \<le> c \<Longrightarrow> ext_bytes tp lab bs e a b @ ext_bytes tp lab bs e b c = ext_bytes tp lab bs e a c"
  unfolding ext_bytes_def map_append [symmetric] by (metis le_iff_add upt_add_eq_append)

context tape_device
begin

definition tapes_short :: "tape \<Rightarrow> bool" where
  "tapes_short tp \<longleftrightarrow> (\<forall>p<2. length (tp p) < TAPE_BLOCK_MAX)"

text \<open>One turn of the loop: the bytes of one block are appended and the head is behind it.\<close>

lemma read_blocks_step:
  assumes e: "ext_ok bs e" and rd: "\<forall>y. covers e y \<longrightarrow> tape_at tp (vol_label vol) (tape_byte bs e y) \<noteq> None" and short: "tapes_short tp"
    and x: "fileoffset e \<le> x" "x < ext_end e" "x < last_off" "last_off < U64" "length out + (last_off - x) = cnt"
    and v: "rd_ok tp bs vol"
  defines "k \<equiv> in_block bs e x" and "sb \<equiv> the_block bs e x" and "sp \<equiv> ltfs_part_id2num (partition e) (vol_label vol)"
  defines "lb \<equiv> min (ext_end e) (x + bs - k)"
  defines "h \<equiv> min lb last_off"
  assumes pos: "at sp (if partition e = fst (last_pos vol) \<and> sb = snd (last_pos vol) \<and> sp = curp \<and> sb + 1 = curb then sb + 1 else sb) vol"
  shows "\<exists>vol1 curb1. read_blocks ops env bs cnt last_off e x out (sub64 x k) (sub64 x k) (sp, sb) (curp, curb) vol =
      read_blocks ops env bs cnt last_off e h (out @ ext_bytes tp (vol_label vol) bs e x h) (x + bs - k) lb (sp, sb + 1) (curp, curb1) vol1 \<and>
    rd_ok tp bs vol1 \<and> last_pos vol1 = (partition e, sb) \<and> at sp (sb + 1) vol1 \<and> read_frame max_block vol vol1"
proof -
  have bs: "k < bs" "ext_end e + bs \<le> U64" using e x by (auto simp: ext_ok_def k_def intro: mod_less_divisor)
  have E: "add64 (fileoffset e) (bytecount e) = ext_end e" using e by (simp add: ext_ok_add64(1))
  have lb: "x < lb" "lb \<le> ext_end e" "k + (lb - x) \<le> bs" using bs x by (auto simp: lb_def)
  have lbE: "(if ext_end e < x + bs - k then ext_end e else x + bs - k) = lb" by (simp add: lb_def)
  have h: "x < h" "h \<le> lb" "h \<le> last_off" "(if lb > last_off then last_off else lb) = h" using lb x by (auto simp: h_def)
  have a1: "add64 (sub64 x k) bs = x + bs - k" "sub64 lb (sub64 x k) = k + (lb - x)" "sub64 x (sub64 x k) = k"
      "sub64 h x = h - x" "add64 x (h - x) = h"
    using bs lb h x by (simp_all add: add64_sub64 sub64_sub64 sub64_exact add64_exact)
  obtain d where d: "sp < 2" "sb < length (tp sp)" "tp sp ! sb = Data d" "k + (lb - x) \<le> length d"
      "\<forall>j<lb - x. tape_at tp (vol_label vol) (tape_byte bs e (x + j)) = Some (d ! (k + j))"
    using extent_block [OF x(1) lb(1,2) k_def [THEN meta_eq_to_obj_eq] lb(3) rd] unfolding sp_def sb_def by blast
  have sb1: "sb + 1 < U64" using short d(1,2) by (force simp: tapes_short_def TAPE_BLOCK_MAX_def)
  have n: "k + (lb - x) \<le> length (take bs d)" using d(4) lb(3) by simp
  obtain vol1 curb1 buf where f: "fetch_block ops env bs (partition e) (k + (lb - x)) (sp, sb) (curp, curb) vol = (Inr curb1, vol1)"
      "rd_ok tp bs vol1" "last_block vol1 = Some buf" "length buf = bs" "take (length (take bs d)) buf = take bs d"
      "last_pos vol1 = (partition e, sb)" "at sp (sb + 1) vol1" "read_frame max_block vol vol1"
    using fetch_block_ok [OF v sp_def [THEN meta_eq_to_obj_eq] d(1-3) n sb1 pos] by blast
  have "take (h - x) (drop k buf) = map (\<lambda>y. the (tape_at tp (vol_label vol) (tape_byte bs e y))) [x..<x + (h - x)]"
    using d(4,5) lb h by (intro copied_bytes [OF _ f(5)]) auto
  then have copy: "take (h - x) (drop k buf) = ext_bytes tp (vol_label vol) bs e x h" using h by (simp add: ext_bytes_def)
  have "k + (h - x) \<le> length buf" "length out + (h - x) \<le> cnt" "length out < cnt"
    using f(4) lb h x by auto
  then have "read_blocks ops env bs cnt last_off e x out (sub64 x k) (sub64 x k) (sp, sb) (curp, curb) vol =
      read_blocks ops env bs cnt last_off e h (out @ ext_bytes tp (vol_label vol) bs e x h) (x + bs - k) lb (sp, sb + 1) (curp, curb1) vol1"
    using x(2) sb1 f(1,3) by (subst read_blocks.simps, simp only: Let_def E a1 lbE h(4)) (simp add: a1 copy add64_exact)
  with f show ?thesis by blast
qed

lemma read_blocks_ok:
  assumes e: "ext_ok bs e" and rd: "\<forall>y. covers e y \<longrightarrow> tape_at tp (vol_label vol) (tape_byte bs e y) \<noteq> None" and short: "tapes_short tp"
    and x: "fileoffset e \<le> x" "x < ext_end e" "x \<le> last_off" "last_off < U64" "length out + (last_off - x) = cnt"
    and v: "rd_ok tp bs vol"
    and pos: "at (ltfs_part_id2num (partition e) (vol_label vol))
      (if partition e = fst (last_pos vol) \<and> the_block bs e x = snd (last_pos vol) \<and>
          ltfs_part_id2num (partition e) (vol_label vol) = curp \<and> the_block bs e x + 1 = curb
       then the_block bs e x + 1 else the_block bs e x) vol"
  shows "\<exists>vol'. read_blocks ops env bs cnt last_off e x out (sub64 x (in_block bs e x)) (sub64 x (in_block bs e x))
      (ltfs_part_id2num (partition e) (vol_label vol), the_block bs e x) (curp, curb) vol =
      Some (Inr (min (ext_end e) last_off, out @ ext_bytes tp (vol_label vol) bs e x (min (ext_end e) last_off)), vol') \<and>
    rd_ok tp bs vol' \<and> read_frame max_block vol vol'"
  using rd x v pos
proof (induction "ext_end e - x" arbitrary: x out vol curb rule: less_induct)
  case less
  let ?sp = "ltfs_part_id2num (partition e) (vol_label vol)"
  have E: "add64 (fileoffset e) (bytecount e) = ext_end e" using e by (simp add: ext_ok_add64(1))
  have stop: "read_blocks ops env bs cnt last_off e y o' fb lb sp cp w = Some (Inr (y, o'), w)"
    if "\<not> (ext_end e > y \<and> length o' < cnt)" for y o' fb lb sp cp w
    using that by (subst read_blocks.simps) (simp add: E Let_def)
  show ?case
  proof (cases "x = last_off")
    case True
    then show ?thesis using less.prems stop by (intro exI [of _ vol]) (simp add: ext_bytes_def)
  next
    case False
    define k where "k = in_block bs e x"
    define lb where "lb = min (ext_end e) (x + bs - k)"
    define h where "h = min lb last_off"
    have k: "k < bs" using e by (auto simp: ext_ok_def k_def intro: mod_less_divisor)
    have xl: "x < last_off" using False less.prems(4) by simp
    have h: "x < h" "h \<le> ext_end e" "h \<le> last_off" using less.prems False k by (auto simp: h_def lb_def)
    obtain vol1 curb1 where s: "read_blocks ops env bs cnt last_off e x out (sub64 x k) (sub64 x k) (?sp, the_block bs e x) (curp, curb) vol =
        read_blocks ops env bs cnt last_off e h (out @ ext_bytes tp (vol_label vol) bs e x h) (x + bs - k) lb (?sp, the_block bs e x + 1) (curp, curb1) vol1"
        "rd_ok tp bs vol1" "last_pos vol1 = (partition e, the_block bs e x)" "at ?sp (the_block bs e x + 1) vol1" "read_frame max_block vol vol1"
      using read_blocks_step [OF e less.prems(1) short less.prems(2,3) xl less.prems(5-8), of env]
      unfolding k_def [symmetric] lb_def [symmetric] h_def [symmetric] by blast
    have lab: "vol_label vol1 = vol_label vol" using s(5) by (simp add: read_frame_def)
    have len: "length (out @ ext_bytes tp (vol_label vol) bs e x h) + (last_off - h) = cnt"
      using less.prems(6) h by (simp add: ext_bytes_def)
    show ?thesis
    proof (cases "h = ext_end e \<or> h = last_off")
      case True
      then have m: "min (ext_end e) last_off = h" using h by auto
      have "\<not> (ext_end e > h \<and> length (out @ ext_bytes tp (vol_label vol) bs e x h) < cnt)" using True len by auto
      then show ?thesis unfolding k_def [symmetric] s(1) m using stop s(2,5) by blast
    next
      case False
      then have h': "h = x + bs - k" "lb = h" "h < ext_end e" "h < last_off" using h by (auto simp: h_def lb_def)
      have "k \<le> x - fileoffset e + byteoffset e" unfolding k_def by (rule mod_less_eq_dividend)
      then have "h - fileoffset e + byteoffset e = x - fileoffset e + byteoffset e - k + bs"
        using h'(1) k less.prems(2) by simp
      also have "\<dots> = ((x - fileoffset e + byteoffset e) div bs + 1) * bs"
        by (simp add: k_def minus_mod_eq_div_mult)
      finally have nb: "in_block bs e h = 0" "the_block bs e h = the_block bs e x + 1" using k by simp_all
      let ?o = "out @ ext_bytes tp (vol_label vol) bs e x h" and ?m = "min (ext_end e) last_off"
      have rd1: "\<forall>y. covers e y \<longrightarrow> tape_at tp (vol_label vol1) (tape_byte bs e y) \<noteq> None" using less.prems(1) lab by simp
      have h0: "fileoffset e \<le> h" "h \<le> last_off" "ext_end e - h < ext_end e - x" using less.prems(2) h h' by simp_all
      have pos1: "at (ltfs_part_id2num (partition e) (vol_label vol1))
          (if partition e = fst (last_pos vol1) \<and> the_block bs e h = snd (last_pos vol1) \<and>
              ltfs_part_id2num (partition e) (vol_label vol1) = curp \<and> the_block bs e h + 1 = curb1
           then the_block bs e h + 1 else the_block bs e h) vol1"
        unfolding nb(2) lab using s(3,4) by simp
      have s0: "sub64 h (in_block bs e h) = h" using less.prems(5) h unfolding nb(1) by (simp add: sub64_exact)
      obtain vol' where i: "read_blocks ops env bs cnt last_off e h ?o h h (?sp, the_block bs e x + 1) (curp, curb1) vol1 =
          Some (Inr (?m, ?o @ ext_bytes tp (vol_label vol) bs e h ?m), vol')" "rd_ok tp bs vol'" "read_frame max_block vol1 vol'"
        using less.hyps [OF h0(3) rd1 h0(1) h'(3) h0(2) less.prems(5) len s(2) pos1] unfolding s0 nb(2) lab by blast
      have j: "?o @ ext_bytes tp (vol_label vol) bs e h ?m = out @ ext_bytes tp (vol_label vol) bs e x ?m"
        using h by (simp add: ext_bytes_append)
      have "read_blocks ops env bs cnt last_off e x out (sub64 x k) (sub64 x k) (?sp, the_block bs e x) (curp, curb) vol =
          Some (Inr (?m, out @ ext_bytes tp (vol_label vol) bs e x ?m), vol')"
        using s(1) i(1) unfolding j h'(1) [symmetric] h'(2) by (rule trans)
      then show ?thesis unfolding k_def using i(2) read_frame_trans [OF s(5) i(3)] by blast
    qed
  qed
qed

end

context tape_device
begin

text \<open>One extent: the head is moved where it has to be, then its blocks are read.\<close>

lemma extent_seek_ok:
  assumes e: "ext_ok bs e" and rd: "\<forall>y. covers e y \<longrightarrow> tape_at tp (vol_label vol) (tape_byte bs e y) \<noteq> None" and short: "tapes_short tp"
    and x: "fileoffset e \<le> x" "x < ext_end e" and v: "rd_ok tp bs vol"
  defines "sp \<equiv> ltfs_part_id2num (partition e) (vol_label vol)" and "sb \<equiv> the_block bs e x"
    and "cp \<equiv> pos_partition (position (device vol))" and "cb \<equiv> pos_block (position (device vol))"
  shows "\<exists>vol1. (if seek_needed (partition e) (sp, sb) (cp, cb) vol then on_dev (tape_seek ops sp sb) vol else (Inr (), vol)) = (Inr (), vol1) \<and>
    rd_ok tp bs vol1 \<and> read_frame max_block vol vol1 \<and>
    at sp (if partition e = fst (last_pos vol1) \<and> sb = snd (last_pos vol1) \<and> sp = cp \<and> sb + 1 = cb then sb + 1 else sb) vol1"
proof -
  have "tape_at tp (vol_label vol) (tape_byte bs e x) \<noteq> None" using rd x by (simp add: covers_def)
  moreover have "fst (snd (tape_byte bs e x)) = sb" "fst (tape_byte bs e x) = partition e"
    by (simp_all add: tape_byte_def sb_def add.commute)
  ultimately have s: "sp < 2" "sb < length (tp sp)"
    by (auto simp: tape_at_def sp_def Let_def split: if_splits prod.splits)
  have len: "length (tp sp) < TAPE_BLOCK_MAX" using short s(1) by (simp add: tapes_short_def)
  then have sb1: "add64 sb 1 = sb + 1" using s(2) by (intro add64_exact) (simp add: TAPE_BLOCK_MAX_def)
  show ?thesis
  proof (cases "seek_needed (partition e) (sp, sb) (cp, cb) vol")
    case False
    then show ?thesis using v sb1 by (intro exI [of _ vol]) (auto simp: seek_needed_def at_def cp_def cb_def)
  next
    case True
    have t: "tape_of (backend_data (device vol)) = tp" using v by (simp add: rd_ok_def)
    obtain dev where d: "tape_seek ops sp sb (device vol) = (Inr (), dev)" "in_step ok head dev"
        "tape_of (backend_data dev) = tp" "max_block (backend_data dev) = max_block (backend_data (device vol))"
        "pos_partition (position dev) = sp" "pos_block (position dev) = sb"
        "append_pos dev = append_pos (device vol)" "write_error dev = write_error (device vol)"
        "dev_write_protect dev = dev_write_protect (device vol)" "max_block_size dev = max_block_size (device vol)"
        "append_only_mode dev = append_only_mode (device vol)" "fence dev = fence (device vol)"
      using seek_ok [of "device vol" sp sb] v s len unfolding t rd_ok_def by auto
    have "\<not> (partition e = fst (last_pos vol) \<and> sb = snd (last_pos vol) \<and> sp = cp \<and> sb + 1 = cb)"
      using True sb1 by (auto simp: seek_needed_def)
    moreover have "rd_ok tp bs (vol\<lparr>device := dev\<rparr>)" using v d(2,3) by (simp add: rd_ok_def cache_ok_def)
    moreover have "read_frame max_block vol (vol\<lparr>device := dev\<rparr>)" using d by (simp add: read_frame_def dev_frame_def)
    ultimately show ?thesis
      using True d(1,5,6) by (intro exI [of _ "vol\<lparr>device := dev\<rparr>"]) (auto simp: on_dev_def at_def)
  qed
qed

lemma extent_position:
  assumes "ext_ok bs e" and "fileoffset e \<le> x" and "x < ext_end e"
  shows "add64 (block e) (add64 (sub64 x (fileoffset e)) (byteoffset e) div bs) = the_block bs e x"
    "add64 (sub64 (fileoffset e) (byteoffset e)) ((sub64 (the_block bs e x) (block e) * bs) mod U64) = sub64 x (in_block bs e x)"
proof -
  have b: "byteoffset e < bs" "ext_end e + bs \<le> U64" "block e + (byteoffset e + bytecount e) div bs < U64"
    using assms(1) by (simp_all add: ext_ok_def)
  have "(x - fileoffset e + byteoffset e) div bs \<le> (byteoffset e + bytecount e) div bs"
    by (rule div_le_mono) (use assms(2,3) in \<open>simp add: ext_end_def\<close>)
  then have s: "the_block bs e x < U64" using b(3) by simp
  show "add64 (block e) (add64 (sub64 x (fileoffset e)) (byteoffset e) div bs) = the_block bs e x"
    using assms(2,3) b s by (simp add: sub64_exact add64_exact)
  show "add64 (sub64 (fileoffset e) (byteoffset e)) ((sub64 (the_block bs e x) (block e) * bs) mod U64) = sub64 x (in_block bs e x)"
    using s firstbyte_eq [OF assms(2)] by (simp add: sub64_exact)
qed

lemma read_extent_ok:
  assumes e: "ext_ok bs e" and rd: "\<forall>y. covers e y \<longrightarrow> tape_at tp (vol_label vol) (tape_byte bs e y) \<noteq> None" and short: "tapes_short tp"
    and x: "fileoffset e \<le> x" "x \<le> last_off" "last_off < U64" "length out + (last_off - x) = cnt"
    and v: "rd_ok tp bs vol" and n: "\<not> next < fileoffset e \<Longrightarrow> next = x" "next < fileoffset e \<Longrightarrow> x = fileoffset e"
    and full: "length out0 \<noteq> cnt"
    and out: "out = (if next < fileoffset e then out0 @ replicate (sub64 (fileoffset e) next) 0 else out0)"
  shows "\<exists>vol'. read_extents ops env bs cnt last_off (e # es) (next, out0) vol =
      read_extents ops env bs cnt last_off es (max x (min (ext_end e) last_off),
        out @ ext_bytes tp (vol_label vol) bs e x (min (ext_end e) last_off)) vol' \<and>
    rd_ok tp bs vol' \<and> read_frame max_block vol vol'"
proof -
  have E: "add64 (fileoffset e) (bytecount e) = ext_end e" using e by (simp add: ext_ok_add64(1))
  have go: "\<not> (next < fileoffset e \<and> fileoffset e > last_off)" using n(2) x(2) by auto
  have nx: "(if next < fileoffset e then fileoffset e else next) = x" using n by auto
  show ?thesis
  proof (cases "x < ext_end e")
    case False
    then have "read_extents ops env bs cnt last_off (e # es) (next, out0) vol = read_extents ops env bs cnt last_off es (x, out) vol"
      using full go unfolding read_extents.simps Let_def E nx out [symmetric] by auto
    moreover have "max x (min (ext_end e) last_off) = x" "ext_bytes tp (vol_label vol) bs e x (min (ext_end e) last_off) = []"
      using False by (auto simp: ext_bytes_def)
    ultimately show ?thesis using v by auto
  next
    case True
    let ?sp = "ltfs_part_id2num (partition e) (vol_label vol)" and ?sb = "the_block bs e x"
      and ?cp = "pos_partition (position (device vol))" and ?cb = "pos_block (position (device vol))"
    obtain vol1 where s: "(if seek_needed (partition e) (?sp, ?sb) (?cp, ?cb) vol then on_dev (tape_seek ops ?sp ?sb) vol else (Inr (), vol)) = (Inr (), vol1)"
        "rd_ok tp bs vol1" "read_frame max_block vol vol1"
        "at ?sp (if partition e = fst (last_pos vol1) \<and> ?sb = snd (last_pos vol1) \<and> ?sp = ?cp \<and> ?sb + 1 = ?cb then ?sb + 1 else ?sb) vol1"
      using extent_seek_ok [OF e rd short x(1) True v] by blast
    have lab: "vol_label vol1 = vol_label vol" using s(3) by (simp add: read_frame_def)
    obtain vol' where r: "read_blocks ops env bs cnt last_off e x out (sub64 x (in_block bs e x)) (sub64 x (in_block bs e x)) (?sp, ?sb) (?cp, ?cb) vol1 =
        Some (Inr (min (ext_end e) last_off, out @ ext_bytes tp (vol_label vol) bs e x (min (ext_end e) last_off)), vol')"
        "rd_ok tp bs vol'" "read_frame max_block vol1 vol'"
      using read_blocks_ok [OF e _ short x(1) True x(2,3,4) s(2), of ?cp ?cb env] rd s(4) unfolding lab by blast
    have "read_extents ops env bs cnt last_off (e # es) (next, out0) vol =
        read_extents ops env bs cnt last_off es (min (ext_end e) last_off, out @ ext_bytes tp (vol_label vol) bs e x (min (ext_end e) last_off)) vol'"
      using full go True unfolding read_extents.simps Let_def E nx out [symmetric] tape_get_position_def fst_conv snd_conv
        extent_position [OF e x(1) True] s(1)
      by (auto simp: r(1) obind_def)
    moreover have "max x (min (ext_end e) last_off) = min (ext_end e) last_off" using True x(2) by simp
    ultimately show ?thesis using r(2) read_frame_trans [OF s(3) r(3)] by auto
  qed
qed

end

text \<open>The bytes of a list of extents in front of, inside and behind its first extent.\<close>

lemma file_bytes_Cons:
  assumes ok: "exts_ok bs (e # es)" and rd: "readable tp lab bs (e # es)"
    and z: "x \<le> x1" "x1 \<le> x2" "x2 \<le> y" "x < fileoffset e \<Longrightarrow> x1 = fileoffset e" "\<not> x < fileoffset e \<Longrightarrow> x1 = x"
    and c: "x1 < x2 \<Longrightarrow> x2 \<le> ext_end e" "x2 < y \<Longrightarrow> ext_end e \<le> x2"
  shows "map (file_byte tp lab bs (e # es)) [x..<y] =
    replicate (x1 - x) 0 @ ext_bytes tp lab bs e x1 x2 @ map (file_byte tp lab bs es) [x2..<y]"
proof -
  have "[x..<y] = [x..<x1] @ [x1..<x2] @ [x2..<y]"
    using z(1-3) by (metis (no_types) le_Suc_ex le_trans upt_add_eq_append)
  moreover have "map (file_byte tp lab bs (e # es)) [x..<x1] = replicate (x1 - x) 0"
  proof -
    have "file_byte tp lab bs (e # es) w = 0" if "w < fileoffset e" for w
    proof -
      have "\<not> covers f w" if "f \<in> set (e # es)" for f
        using that ok \<open>w < fileoffset e\<close> by (auto simp: exts_ok_Cons covers_def ext_end_def)
      then show ?thesis using file_map_None [of bs "e # es" w] by (simp add: file_byte_def)
    qed
    then show ?thesis using z(4,5) by (cases "x < fileoffset e") (auto intro: replicate_eqI)
  qed
  moreover have "map (file_byte tp lab bs (e # es)) [x1..<x2] = ext_bytes tp lab bs e x1 x2"
    unfolding ext_bytes_def
  proof (intro map_cong refl)
    fix w assume "w \<in> set [x1..<x2]"
    then have "covers e w" using c(1) z by (cases "x < fileoffset e") (auto simp: covers_def)
    moreover have "tape_at tp lab (tape_byte bs e w) \<noteq> None" using rd \<open>covers e w\<close> by (simp add: readable_def)
    ultimately show "file_byte tp lab bs (e # es) w = the (tape_at tp lab (tape_byte bs e w))" by (auto simp: file_byte_def)
  qed
  moreover have "map (file_byte tp lab bs (e # es)) [x2..<y] = map (file_byte tp lab bs es) [x2..<y]"
    using c(2) by (intro map_cong refl) (auto simp: file_byte_def covers_def)
  ultimately show ?thesis by simp
qed

context tape_device
begin

lemma read_extents_ok:
  assumes "exts_ok bs es" and "readable tp (vol_label vol) bs es" and short: "tapes_short tp"
    and "x \<le> last_off" and "last_off < U64" and "length out + (last_off - x) = cnt" and "rd_ok tp bs vol" and "\<forall>e\<in>set es. ext_end e \<le> S"
  shows "\<exists>x' y vol'. read_extents ops env bs cnt last_off es (x, out) vol =
      Some (Inr (x', out @ map (file_byte tp (vol_label vol) bs es) [x..<y]), vol') \<and>
    rd_ok tp bs vol' \<and> read_frame max_block vol vol' \<and> x \<le> y \<and> y \<le> last_off \<and> y \<le> max x S \<and>
    (y = last_off \<or> x' = y \<and> (\<forall>z\<ge>y. file_map bs es z = None))"
  using assms(1,2,4-)
proof (induction es arbitrary: x out vol)
  case Nil
  then show ?case by (intro exI [of _ x] exI [of _ vol]) simp
next
  case (Cons e es)
  note p = Cons.prems
  let ?fb = "file_byte tp (vol_label vol) bs"
  consider "length out = cnt" | "length out \<noteq> cnt" "x < fileoffset e" "fileoffset e > last_off"
    | "length out \<noteq> cnt" "x < fileoffset e \<Longrightarrow> fileoffset e \<le> last_off" by force
  then show ?case
  proof cases
    case 1
    then have "x = last_off" using p(3,5) by simp
    with 1 p(6) show ?thesis by (intro exI [of _ x] exI [of _ vol]) simp
  next
    case 2
    then have "map (?fb (e # es)) [x..<last_off] = replicate (last_off - x) 0"
    proof -
      have "map (?fb (e # es)) [x..<fileoffset e] = replicate (fileoffset e - x) 0"
        using file_bytes_Cons [OF p(1,2), of x "fileoffset e" "fileoffset e" "fileoffset e"] 2 by (simp add: ext_bytes_def)
      then have "take (last_off - x) (map (?fb (e # es)) [x..<fileoffset e]) = replicate (last_off - x) 0" using 2 by simp
      then show ?thesis using 2 p(3) by (simp add: take_map)
    qed
    moreover have "sub64 last_off x = last_off - x" using p(3,4) by (simp add: sub64_exact)
    ultimately have "read_extents ops env bs cnt last_off (e # es) (x, out) vol =
        Some (Inr (x, out @ map (?fb (e # es)) [x..<last_off]), vol)" using 2 by simp
    moreover have "last_off \<le> S" using 2 p(7) by (simp add: ext_end_def)
    ultimately show ?thesis using p(3,6) by (intro exI [of _ x] exI [of _ last_off] exI [of _ vol]) simp
  next
    case 3
    have e: "ext_ok bs e" "exts_ok bs es" using p(1) by (simp_all add: exts_ok_Cons)
    have rd: "\<forall>y. covers e y \<longrightarrow> tape_at tp (vol_label vol) (tape_byte bs e y) \<noteq> None" "readable tp (vol_label vol) bs es"
      using p(2) by (simp_all add: readable_def)
    define x1 where "x1 = max x (fileoffset e)"
    define x2 where "x2 = max x1 (min (ext_end e) last_off)"
    have F: "fileoffset e < U64" using e(1) by (simp add: ext_ok_def ext_end_def)
    have x1: "fileoffset e \<le> x1" "x \<le> x1" "x1 \<le> last_off" "x1 \<le> x2" "x2 \<le> last_off"
      using 3(2) p(3) by (cases "x < fileoffset e"; auto simp: x1_def x2_def)+
    define o1 where "o1 = out @ replicate (x1 - x) 0"
    have o1: "o1 = (if x < fileoffset e then out @ replicate (sub64 (fileoffset e) x) 0 else out)"
      using F by (auto simp: o1_def x1_def sub64_exact max_def)
    have l1: "length o1 + (last_off - x1) = cnt" using p(5) x1 by (simp add: o1_def)
    define o2 where "o2 = o1 @ ext_bytes tp (vol_label vol) bs e x1 x2"
    have eb: "ext_bytes tp (vol_label vol) bs e x1 (min (ext_end e) last_off) = ext_bytes tp (vol_label vol) bs e x1 x2"
      by (cases "x1 \<le> min (ext_end e) last_off") (simp_all only: x2_def ext_bytes_def max_absorb1 max_absorb2 nat_le_linear, auto)
    obtain vol1 where r: "read_extents ops env bs cnt last_off (e # es) (x, out) vol = read_extents ops env bs cnt last_off es (x2, o2) vol1"
        "rd_ok tp bs vol1" "read_frame max_block vol vol1"
      using read_extent_ok [OF e(1) rd(1) short x1(1,3) p(4) l1 p(6) _ _ 3(1) o1, of env es]
      unfolding o2_def x2_def [symmetric] eb by (auto simp: x1_def)
    have lab: "vol_label vol1 = vol_label vol" using r(3) by (simp add: read_frame_def)
    have l2: "length o2 + (last_off - x2) = cnt" using l1 x1 by (simp add: o2_def ext_bytes_def)
    obtain x' y vol' where i: "read_extents ops env bs cnt last_off es (x2, o2) vol1 =
        Some (Inr (x', o2 @ map (?fb es) [x2..<y]), vol')" "rd_ok tp bs vol'" "read_frame max_block vol1 vol'" "x2 \<le> y" "y \<le> last_off" "y \<le> max x2 S"
        "y = last_off \<or> x' = y \<and> (\<forall>z\<ge>y. file_map bs es z = None)"
      using Cons.IH [of vol1 x2 o2] e(2) rd(2) x1(5) p(4) l2 r(2) p(7) unfolding lab by auto
    have c: "x2 \<le> ext_end e" if "x1 < x2" using that by (auto simp: x2_def)
    have c': "ext_end e \<le> x2" if "x2 < last_off" using that by (auto simp: x2_def)
    have "map (?fb (e # es)) [x..<y] = replicate (x1 - x) 0 @ ext_bytes tp (vol_label vol) bs e x1 x2 @ map (?fb es) [x2..<y]"
      using i(5) by (intro file_bytes_Cons [OF p(1,2) x1(2,4) i(4)] c c') (auto simp: x1_def)
    then have "o2 @ map (?fb es) [x2..<y] = out @ map (?fb (e # es)) [x..<y]" by (simp add: o2_def o1_def)
    moreover have "y \<le> max x S" using i(6) p(7) by (auto simp: x1_def x2_def ext_end_def)
    moreover have "y = last_off \<or> x' = y \<and> (\<forall>z\<ge>y. file_map bs (e # es) z = None)"
    proof (cases "y = last_off")
      case False
      then have "ext_end e \<le> y" using c' i(4,5) by simp
      with False i(7) show ?thesis by (auto simp: covers_def)
    qed simp
    ultimately show ?thesis
      using r(1) i(1,2,4,5) x1(2,4) read_frame_trans [OF r(3) i(3)]
      by (intro exI [of _ x'] exI [of _ y] exI [of _ vol']) simp
  qed
qed

end

context tape_device
begin

lemma read_locked_ok:
  assumes ex: "exts_ok bs (extentlist d)" "(\<forall>e\<in>set (extentlist d). ext_end e \<le> size d) \<or> offset + cnt \<le> size d" "size d < U64"
    and rd: "readable tp (vol_label vol) bs (extentlist d)" and short: "tapes_short tp"
    and bs: "bs = blocksize (vol_label vol)" and n: "0 < cnt" "offset + cnt < U64"
    and v: "in_step ok head (device vol)" "tape_of (backend_data (device vol)) = tp" "cache_ok tp bs vol"
    and env: "fs_malloc env 0"
  shows "\<exists>vol'. read_locked ops env cnt offset (d, vol) =
      Some (Inr (take cnt (drop offset (file_content tp (vol_label vol) bs d))), d\<lparr>access_time := fs_now env\<rparr>,
        vol'\<lparr>vol_index := ltfs_set_index_dirty True (vol_index vol)\<rparr>) \<and> rd_ok tp bs vol' \<and> read_frame max_block vol vol'"
proof -
  let ?fb = "file_byte tp (vol_label vol) bs (extentlist d)" and ?l = "offset + cnt"
  define vol0 where "vol0 = (if last_block vol = None then vol\<lparr>last_block := Some (replicate bs 0)\<rparr> else vol)"
  have v0: "rd_ok tp bs vol0" "read_frame max_block vol vol0" "vol_label vol0 = vol_label vol"
    using v by (auto simp: rd_ok_def vol0_def cache_ok_def read_frame_def dev_frame_def Let_def)
  have l: "add64 offset cnt = ?l" using n by (simp add: add64_exact)
  define S where "S = (if ?l \<le> size d then U64 else size d)"
  have S: "\<forall>e\<in>set (extentlist d). ext_end e \<le> S" using ex(1,2) by (auto simp: S_def exts_ok_def ext_ok_def)
  obtain x' y vol' where r: "read_extents ops env bs cnt ?l (extentlist d) (offset, []) vol0 = Some (Inr (x', map ?fb [offset..<y]), vol')"
      "rd_ok tp bs vol'" "read_frame max_block vol0 vol'" "offset \<le> y" "y \<le> ?l" "y \<le> max offset S"
      "y = ?l \<or> x' = y \<and> (\<forall>z\<ge>y. file_map bs (extentlist d) z = None)"
    using read_extents_ok [OF ex(1) _ short _ n(2), of vol0 offset "[]" cnt S env] rd v0 S by auto
  define z where "z = (if cnt > y - offset \<and> x' < size d then if ?l < size d then sub64 ?l x' else sub64 (size d) x' else 0)"
  have "read_locked ops env cnt offset (d, vol) = Some (Inr (map ?fb [offset..<y] @ replicate z 0), d\<lparr>access_time := fs_now env\<rparr>,
      vol'\<lparr>vol_index := ltfs_set_index_dirty True (vol_index vol')\<rparr>)"
    using env unfolding read_locked_def read_data_def Let_def bs [symmetric] prod.case vol0_def [symmetric] l r(1)
    by (simp add: z_def)
  moreover have "map ?fb [offset..<y] @ replicate z 0 = take cnt (drop offset (file_content tp (vol_label vol) bs d))"
  proof -
    have c: "take cnt (drop offset (file_content tp (vol_label vol) bs d)) = map ?fb [offset..<min ?l (size d)]"
      by (simp add: file_content_def drop_map take_map take_upt min_def)
    show ?thesis
    proof (cases "y = ?l")
      case True
      moreover from this have "?l \<le> size d" using r(6) n(1) by (auto simp: S_def split: if_splits)
      ultimately show ?thesis unfolding c by (simp add: z_def)
    next
      case False
      then have y: "x' = y" "\<And>w. y \<le> w \<Longrightarrow> ?fb w = 0" "y < ?l" using r(5,7) by (auto simp: file_byte_def)
      show ?thesis
      proof (cases "y < size d")
        case True
        then have "z = min ?l (size d) - y" using y r(4) n(2) ex(3) by (auto simp: z_def sub64_exact min_def)
        moreover have "map ?fb [y..<min ?l (size d)] = replicate (min ?l (size d) - y) 0" using y(2) by (auto intro: replicate_eqI)
        moreover have "[offset..<min ?l (size d)] = [offset..<y] @ [y..<min ?l (size d)]"
          using r(4) y(3) True by (metis le_Suc_ex min_less_iff_conj less_imp_le upt_add_eq_append)
        ultimately show ?thesis unfolding c by simp
      next
        case False
        then have "z = 0" "[offset..<y] = [offset..<min ?l (size d)]" using y(1,3) r(4,6) by (auto simp: z_def S_def min_def max_def split: if_splits)
        then show ?thesis unfolding c by simp
      qed
    qed
  qed
  moreover have "vol_index vol' = vol_index vol" using r(3) v0(2) by (simp add: read_frame_def)
  ultimately show ?thesis using r(2) read_frame_trans [OF v0(2) r(3)] by auto
qed

lemma fsraw_read_ok:
  assumes ex: "exts_ok bs (extentlist d)" "(\<forall>e\<in>set (extentlist d). ext_end e \<le> size d) \<or> offset + cnt \<le> size d" "size d < U64"
    and rd: "readable tp (vol_label vol) bs (extentlist d)" and short: "tapes_short tp"
    and bs: "bs = blocksize (vol_label vol)" and n: "0 < cnt" "offset + cnt < U64"
    and v: "in_step ok head (device vol)" "tape_of (backend_data (device vol)) = tp" "cache_ok tp bs vol"
    and env: "fs_malloc env 0" "fs_mutex env" "reval vol = None" "\<not> fence (device vol)"
  shows "\<exists>vol'. ltfs_fsraw_read ops env cnt offset (d, vol) =
      Some (Inr (take cnt (drop offset (file_content tp (vol_label vol) bs d))), d\<lparr>access_time := fs_now env\<rparr>,
        vol'\<lparr>vol_index := ltfs_set_index_dirty True (vol_index vol)\<rparr>) \<and> rd_ok tp bs vol' \<and> read_frame max_block vol vol'"
  using read_locked_ok [where d = d, OF ex rd short bs n v env(1)] n(1) env(2-)
  by (subst ltfs_fsraw_read.simps) (auto simp: ltfs_get_volume_lock_def tape_device_lock_def)

end


section \<open>What a write leaves on the tape\<close>

lemma block_text_nth:
  assumes "block_text bs blocks buf" and "i < length buf"
  shows "i div bs < length blocks \<and> i mod bs < length (blocks ! (i div bs)) \<and> blocks ! (i div bs) ! (i mod bs) = buf ! i"
  using assms
proof (induction blocks arbitrary: buf i)
  case (Cons b blocks)
  have b: "0 < length b" "length b \<le> bs" "buf = b @ concat blocks" using Cons.prems(1) by (auto simp: block_text_def)
  show ?case
  proof (cases "i < length b")
    case True
    then show ?thesis using b by (simp add: nth_append)
  next
    case False
    then have ne: "blocks \<noteq> []" using b Cons.prems(2) by auto
    then have full: "length b = bs" and bt: "block_text bs blocks (concat blocks)"
      using Cons.prems(1) by (auto simp: block_text_def)
    have "(i - bs) div bs < length blocks \<and> (i - bs) mod bs < length (blocks ! ((i - bs) div bs)) \<and>
        blocks ! ((i - bs) div bs) ! ((i - bs) mod bs) = concat blocks ! (i - bs)"
      using False full b Cons.prems(2) by (intro Cons.IH [OF bt]) simp
    moreover have "i div bs = Suc ((i - bs) div bs)" "i mod bs = (i - bs) mod bs"
      using False full b(1) by (simp_all add: le_div_geq le_mod_geq)
    moreover have "buf ! i = concat blocks ! (i - bs)" using False full b(3) by (simp add: nth_append)
    ultimately show ?thesis by simp
  qed
qed (simp add: block_text_def)

context tape_device
begin

text \<open>
  A write that lets the early warning pass and stops at the programmable early warning puts the block
  on the tape, or reports the lack of space with or without the block on the tape.
\<close>

lemma write_less:
  assumes "in_step ok head dev" and "writable dev" and "pos_block (position dev) + 2 < TAPE_BLOCK_MAX"
    and "0 < length buf" and "length buf \<le> max_block_size dev" and "length buf \<le> max_block (backend_data dev)"
  shows "\<exists>dev'. wrote ok head tape_of max_block dev [Data buf] dev' \<and>
      (tape_write ops buf False True dev = (Inr (length buf), dev') \<or> tape_write ops buf False True dev = (Inl LTFS_LESS_SPACE, dev')) \<or>
    tape_write ops buf False True dev = (Inl LTFS_LESS_SPACE, dev)"
proof (cases "partition_space dev (pos_partition (position dev)) = PART_LESS_SPACE")
  case True
  then show ?thesis using assms(2) by (simp add: tape_write_def writable_def)
next
  case False
  then show ?thesis
    using write_ok [OF assms(1,3), of True False buf] assms(2,4-6)
    by (auto simp: writable_def wrote_def dev_frame_def put_at_def Let_def)
qed

text \<open>The device the loop works on: the head at the append position, and blocks of size \<open>bs\<close> allowed.\<close>

definition data_dev :: "nat \<Rightarrow> 's device_data \<Rightarrow> bool" where
  "data_dev bs dev \<longleftrightarrow> in_step ok head dev \<and> writable dev \<and> bs \<le> max_block_size dev \<and> bs \<le> max_block (backend_data dev) \<and>
     append_pos dev (pos_partition (position dev)) = pos_block (position dev)"

lemma data_dev_wrote: "data_dev bs dev \<Longrightarrow> wrote ok head tape_of max_block dev rs dev' \<Longrightarrow> data_dev bs dev'"
  using wrote_writable [of ok head tape_of max_block dev rs dev']
  by (auto simp: data_dev_def wrote_def dev_frame_def Let_def)

lemma wrote_none: "data_dev bs dev \<Longrightarrow> wrote ok head tape_of max_block dev [] dev"
  by (auto simp: data_dev_def wrote_def dev_frame_def put_at_def Let_def fun_upd_idem)

lemma write_blocks_ok:
  assumes "data_dev bs dev" and "0 < bs" and "pos_block (position dev) + length buf + 2 < TAPE_BLOCK_MAX"
  shows "\<exists>r blocks dev'. write_blocks ops bs buf dev = Some (r, dev') \<and> wrote ok head tape_of max_block dev (map Data blocks) dev' \<and>
    (r = Inr () \<and> block_text bs blocks buf \<or> r = Inl LTFS_LESS_SPACE \<and> length blocks \<le> length buf)"
  using assms(1,3)
proof (induction "length buf" arbitrary: buf dev rule: less_induct)
  case less
  note dev = less.prems(1)
  show ?case
  proof (cases "buf = []")
    case True
    then have "write_blocks ops bs buf dev = Some (Inr (), dev)" by (subst write_blocks.simps) simp
    then show ?thesis using wrote_none [OF dev] True by (intro exI [of _ "Inr ()"] exI [of _ "[]"]) (simp add: block_text_def)
  next
    case False
    let ?b = "take bs buf"
    have len: "0 < length ?b" "length ?b \<le> bs" using False assms(2) by simp_all
    have "\<exists>dev1. wrote ok head tape_of max_block dev [Data ?b] dev1 \<and>
        (tape_write ops ?b False True dev = (Inr (length ?b), dev1) \<or> tape_write ops ?b False True dev = (Inl LTFS_LESS_SPACE, dev1)) \<or>
      tape_write ops ?b False True dev = (Inl LTFS_LESS_SPACE, dev)"
      using dev len less.prems(2) by (intro write_less) (auto simp: data_dev_def min_def)
    then consider dev1 where "wrote ok head tape_of max_block dev [Data ?b] dev1" "tape_write ops ?b False True dev = (Inr (length ?b), dev1)"
      | dev1 bl where "wrote ok head tape_of max_block dev (map Data bl) dev1" "length bl \<le> 1" "tape_write ops ?b False True dev = (Inl LTFS_LESS_SPACE, dev1)"
      using wrote_none [OF dev] by (metis (no_types, opaque_lifting) list.map(1,2) list.size(3,4) One_nat_def add_0 le_refl zero_le)
    then show ?thesis
    proof cases
      case (2 dev1 bl)
      then have "write_blocks ops bs buf dev = Some (Inl LTFS_LESS_SPACE, dev1)"
        using False by (subst write_blocks.simps) simp
      moreover have "length bl \<le> length buf" using 2(2) False by (cases buf) auto
      ultimately show ?thesis using 2(1) by blast
    next
      case (1 dev1)
      have w: "write_blocks ops bs buf dev = write_blocks ops bs (drop bs buf) dev1"
        using False 1(2) by (subst write_blocks.simps) simp
      have p1: "pos_block (position dev1) = pos_block (position dev) + 1" using wrote_pos [OF 1(1)] by simp
      have "pos_block (position dev1) + length (drop bs buf) + 2 < TAPE_BLOCK_MAX"
        using less.prems(2) False assms(2) p1 by (cases buf) auto
      moreover have "length (drop bs buf) < length buf" using False assms(2) by simp
      ultimately obtain r blocks dev' where i: "write_blocks ops bs (drop bs buf) dev1 = Some (r, dev')"
          "wrote ok head tape_of max_block dev1 (map Data blocks) dev'"
          "r = Inr () \<and> block_text bs blocks (drop bs buf) \<or> r = Inl LTFS_LESS_SPACE \<and> length blocks \<le> length (drop bs buf)"
        using less.hyps data_dev_wrote [OF dev 1(1)] by blast
      have "wrote ok head tape_of max_block dev (map Data (?b # blocks)) dev'"
        using wrote_trans [OF _ 1(1) i(2)] dev by (simp add: data_dev_def)
      moreover have "block_text bs (?b # blocks) buf" if "block_text bs blocks (drop bs buf)"
      proof -
        have "drop bs buf \<noteq> []" if "blocks \<noteq> []"
          using \<open>block_text bs blocks (drop bs buf)\<close> that by (cases blocks) (auto simp: block_text_def)
        then have "length ?b = bs" if "blocks \<noteq> []" using that by simp
        then show ?thesis using that len by (auto simp: block_text_def simp del: length_take)
      qed
      moreover have "length (?b # blocks) \<le> length buf" if "length blocks \<le> length (drop bs buf)"
        using that False assms(2) by (cases buf) auto
      ultimately show ?thesis using w i(1,3) by (metis (no_types, opaque_lifting))
    qed
  qed
qed

end

text \<open>Where the next record of a partition goes.\<close>

definition append_at :: "('s \<Rightarrow> tape) \<Rightarrow> nat \<Rightarrow> 's device_data \<Rightarrow> nat" where
  "append_at tape_of p dev = (if append_pos dev p = 0 then length (tape_of (backend_data dev) p) else append_pos dev p)"

abbreviation data_part :: "'s ltfs_volume \<Rightarrow> nat" where
  "data_part vol \<equiv> ltfs_part_id2num (ltfs_dp_id vol) (vol_label vol)"

definition data_frame :: "'s ltfs_volume \<Rightarrow> 's ltfs_volume \<Rightarrow> bool" where
  "data_frame vol vol' \<longleftrightarrow> vol_label vol' = vol_label vol \<and> vol_index vol' = vol_index vol \<and> last_pos vol' = last_pos vol \<and>
     last_size vol' = last_size vol \<and> last_block vol' = last_block vol"

context tape_device
begin

text \<open>
  A mounted volume that is ready for data on the data partition: no fence, no revalidation, a device
  that can be written, an index at the end of the index partition.
\<close>

definition data_ready :: "nat \<Rightarrow> 's ltfs_volume \<Rightarrow> bool" where
  "data_ready bs vol \<longleftrightarrow> in_step ok head (device vol) \<and> writable (device vol) \<and> bs \<le> max_block_size (device vol) \<and>
     bs \<le> max_block (backend_data (device vol)) \<and> 0 < bs \<and> bs = blocksize (vol_label vol) \<and> ltfs_dp_id vol \<noteq> ltfs_ip_id vol \<and>
     data_part vol < 2 \<and> append_pos (device vol) (data_part vol) \<le> length (tape_of (backend_data (device vol)) (data_part vol)) \<and>
     tapes_short (tape_of (backend_data (device vol))) \<and> ip_index_file_end vol \<and> \<not> fence (device vol) \<and> reval vol = None"

lemma data_dev_start:
  assumes v: "data_ready bs vol"
  shows "\<exists>dev. tape_seek_append_position ops (data_part vol) False (device vol) = (Inr (), dev) \<and> data_dev bs dev \<and>
    pos_partition (position dev) = data_part vol \<and> pos_block (position dev) = append_at tape_of (data_part vol) (device vol) \<and>
    tape_of (backend_data dev) = tape_of (backend_data (device vol)) \<and> \<not> fence dev"
  using seek_append_ok [of "device vol" "data_part vol" False] v
  by (auto simp: data_ready_def data_dev_def append_at_def writable_def tapes_short_def)

lemma write_locked_ok:
  assumes v: "data_ready bs vol" and n: "append_at tape_of (data_part vol) (device vol) + length buf + 2 < TAPE_BLOCK_MAX" and buf: "buf \<noteq> []"
  defines "p \<equiv> data_part vol" and "n \<equiv> append_at tape_of (data_part vol) (device vol)" and "tp \<equiv> tape_of (backend_data (device vol))"
  shows "\<exists>r blocks vol'. write_data_locked ops env (ltfs_dp_id vol) buf 1 vol = Some (r, vol') \<and>
    (r = Inr (Some n) \<and> block_text bs blocks buf \<or> r = Inl LTFS_LESS_SPACE) \<and> data_ready bs vol' \<and> data_frame vol vol' \<and>
    tape_of (backend_data (device vol')) = tp(p := put_at n (map Data blocks) (tp p))"
proof (cases "ltfs_get_partition_readonly (ltfs_dp_id vol) vol = Inl LTFS_LESS_SPACE")
  case True
  then have "write_data_locked ops env (ltfs_dp_id vol) buf 1 vol = Some (Inl LTFS_LESS_SPACE, vol)"
    by (simp add: write_data_locked_def write_data_index_def Let_def)
  then show ?thesis
    using v by (intro exI [of _ "Inl LTFS_LESS_SPACE"] exI [of _ "[]"] exI [of _ vol]) (simp add: data_frame_def put_at_def tp_def fun_upd_idem)
next
  case False
  let ?dp = "ltfs_dp_id vol"
  have w: "writable (device vol)" "?dp \<noteq> ltfs_ip_id vol" "blocksize (vol_label vol) = bs" "ip_index_file_end vol" "0 < bs" "p < 2"
    using v by (simp_all add: data_ready_def p_def)
  have ro: "ltfs_get_partition_readonly ?dp vol = Inr () \<or> ltfs_get_partition_readonly ?dp vol = Inl LTFS_NO_SPACE"
    using readonly_ignorable [OF w(1), of ?dp] False by (auto simp: ignorable_def)
  obtain dev where s: "tape_seek_append_position ops p False (device vol) = (Inr (), dev)" "data_dev bs dev"
      "pos_partition (position dev) = p" "pos_block (position dev) = n" "tape_of (backend_data dev) = tp" "\<not> fence dev"
    using data_dev_start [OF v] unfolding p_def n_def tp_def by blast
  obtain r blocks dev' where b: "write_blocks ops bs buf dev = Some (r, dev')" "wrote ok head tape_of max_block dev (map Data blocks) dev'"
      "r = Inr () \<and> block_text bs blocks buf \<or> r = Inl LTFS_LESS_SPACE \<and> length blocks \<le> length buf"
    using write_blocks_ok [OF s(2) w(5), of buf] n unfolding s(4) n_def by blast
  let ?vol = "vol\<lparr>dp_index_file_end := False, device := dev'\<rparr>"
  define r' where "r' = (case r of Inl e \<Rightarrow> Inl e | Inr _ \<Rightarrow> Inr (Some n))"
  have cond: "ltfs_write_index_conditional ops (fs_xml env) (fs_index_time env) (ltfs_ip_id vol) vol = Some (Inr (), vol)"
    using w(2,4) by (simp add: ltfs_write_index_conditional_def)
  have u: "(ltfs_dp_id vol = partid_ip (vol_label vol)) = False" using w(2) by (simp add: ltfs_ip_id_def)
  have run: "write_data_locked ops env ?dp buf 1 vol = Some (r', ?vol)"
    using ro w(2,3) s(1,4) b(1) cond u
    by (auto simp: write_data_locked_def write_data_index_def write_data_blocks_def Let_def on_dev_def p_def r'_def obind_def tape_get_position_def ltfs_dp_id_def
        split: sum.splits option.splits)
  have len: "length blocks \<le> length buf"
    using b(3) blocks_length [of blocks] by (auto simp: block_text_def)
  have t: "tape_of (backend_data dev') = tp(p := put_at n (map Data blocks) (tp p))"
    using b(2) s(3-5) by (simp add: wrote_def Let_def)
  have "n \<le> length (tp p)" using v by (simp add: data_ready_def append_at_def n_def tp_def p_def)
  then have pl: "length (put_at n (map Data blocks) (tp p)) < TAPE_BLOCK_MAX" "n + length blocks \<le> length (put_at n (map Data blocks) (tp p))"
    using n len v w(6) by (auto simp: put_at_def n_def [symmetric] data_ready_def tapes_short_def tp_def [symmetric])
  have dd: "data_dev bs dev'" by (rule data_dev_wrote [OF s(2) b(2)])
  have "append_pos dev' p = n + length blocks" "fence dev' = fence dev" using b(2) s(3,4) by (simp_all add: wrote_def Let_def dev_frame_def)
  then have "data_ready bs ?vol"
    using v dd pl s(6) t unfolding data_ready_def data_dev_def ltfs_dp_id_def ltfs_ip_id_def
    by (auto simp: tapes_short_def p_def ltfs_dp_id_def tp_def)
  then show ?thesis
    using run b(3) t by (intro exI [of _ r'] exI [of _ blocks] exI [of _ ?vol]) (auto simp: data_frame_def r'_def)
qed

lemma fsraw_write_data_ok:
  assumes v: "data_ready bs vol" and n: "append_at tape_of (data_part vol) (device vol) + length buf + 2 < TAPE_BLOCK_MAX" and buf: "buf \<noteq> []"
    and env: "fs_mutex env"
  defines "p \<equiv> data_part vol" and "n \<equiv> append_at tape_of (data_part vol) (device vol)" and "tp \<equiv> tape_of (backend_data (device vol))"
  shows "\<exists>r blocks vol'. ltfs_fsraw_write_data ops env (ltfs_dp_id vol) buf 1 vol = Some (r, vol') \<and>
    (r = Inr (Some n) \<and> block_text bs blocks buf \<or> r = Inl LTFS_LESS_SPACE) \<and> data_ready bs vol' \<and> data_frame vol vol' \<and>
    tape_of (backend_data (device vol')) = tp(p := put_at n (map Data blocks) (tp p))"
proof -
  obtain r blocks vol' where w: "write_data_locked ops env (ltfs_dp_id vol) buf 1 vol = Some (r, vol')"
      "r = Inr (Some n) \<and> block_text bs blocks buf \<or> r = Inl LTFS_LESS_SPACE" "data_ready bs vol'" "data_frame vol vol'"
      "tape_of (backend_data (device vol')) = tp(p := put_at n (map Data blocks) (tp p))"
    using write_locked_ok [OF v n buf, of env] unfolding p_def n_def tp_def by blast
  have f: "\<not> fence (device vol)" "reval vol = None" using v by (simp_all add: data_ready_def)
  have "write_unlock (r, vol') = (r, vol')" using w(2) by (auto simp: write_unlock_def NEED_REVAL_def IS_UNEXPECTED_MOVE_def)
  then have "ltfs_fsraw_write_data_unlocked ops env (ltfs_dp_id vol) buf 1 vol = Some (r, vol')"
    using buf env f(1) w(1) by (simp add: ltfs_fsraw_write_data_unlocked_def tape_device_lock_def)
  then have "ltfs_fsraw_write_data ops env (ltfs_dp_id vol) buf 1 vol = Some (r, vol')"
    using f(2) w(2) by (subst ltfs_fsraw_write_data.simps) (auto simp: ltfs_get_volume_lock_def NEED_REVAL_def IS_UNEXPECTED_MOVE_def)
  with w(2-) show ?thesis by blast
qed

end


section \<open>What a write does to a file\<close>

text \<open>The tape in front of the append position, which a write keeps.\<close>

definition kept :: "nat \<Rightarrow> nat \<Rightarrow> tape \<Rightarrow> tape" where
  "kept p n tp = tp(p := take n (tp p))"

text \<open>Writing into a byte sequence: zeros up to the offset where it is shorter, then the new bytes, then the old rest.\<close>

definition write_content :: "nat \<Rightarrow> byte list \<Rightarrow> byte list \<Rightarrow> byte list" where
  "write_content offset buf c = take offset c @ replicate (offset - length c) 0 @ buf @ drop (offset + length buf) c"

lemma length_write_content [simp]: "length (write_content offset buf c) = max (length c) (offset + length buf)"
  by (auto simp: write_content_def max_def)

lemma write_content_nth:
  assumes "i < max (length c) (offset + length buf)"
  shows "write_content offset buf c ! i =
    (if offset \<le> i \<and> i < offset + length buf then buf ! (i - offset) else if i < length c then c ! i else 0)"
  using assms by (auto simp: write_content_def nth_append min_def)

lemma file_map_SomeD: "file_map bs es x = Some a \<Longrightarrow> \<exists>e\<in>set es. covers e x \<and> a = tape_byte bs e x"
  by (induction es) (auto split: if_splits)

lemma file_map_SomeI: "exts_ok bs es \<Longrightarrow> e \<in> set es \<Longrightarrow> covers e x \<Longrightarrow> file_map bs es x = Some (tape_byte bs e x)"
  by (induction es) (fastforce simp: exts_ok_Cons covers_def)+

lemma kept_tape_at:
  assumes "tape_at (kept p n tp) lab a = Some v" and "n \<le> length (tp p)"
  shows "tape_at (tp(p := put_at n rs (tp p))) lab a = Some v" "tape_at tp lab a = Some v"
  using assms by (auto simp: tape_at_def kept_def put_at_def nth_append Let_def min_def split: prod.splits if_splits trec.splits)

lemma kept_cache_ok:
  assumes "cache_ok (kept p n tp) bs vol" and "n \<le> length (tp p)" and "data_frame vol vol'"
  shows "cache_ok (tp(p := put_at n rs (tp p))) bs vol'"
proof -
  have k: "b < length (kept p n tp q) \<Longrightarrow> b < length ((tp(p := put_at n rs (tp p))) q) \<and>
      (tp(p := put_at n rs (tp p))) q ! b = kept p n tp q ! b" for b q
    using assms(2) by (auto simp: kept_def put_at_def nth_append)
  show ?thesis
    using assms(1,3) k unfolding cache_ok_def data_frame_def Let_def by (simp only:) metis
qed

lemma kept_file_byte:
  assumes "readable (kept p n tp) lab bs es" and "n \<le> length (tp p)"
  shows "readable (tp(p := put_at n rs (tp p))) lab bs es"
    "file_byte (tp(p := put_at n rs (tp p))) lab bs es x = file_byte tp lab bs es x"
proof -
  let ?tp = "tp(p := put_at n rs (tp p))"
  have k: "\<exists>v. tape_at ?tp lab (tape_byte bs e x) = Some v \<and> tape_at tp lab (tape_byte bs e x) = Some v"
    if "e \<in> set es" "covers e x" for e x
    using assms(1) that kept_tape_at [where p = p and tp = tp, OF _ assms(2)] unfolding readable_def by (metis not_Some_eq)
  then show "readable ?tp lab bs es" unfolding readable_def by fastforce
  show "file_byte ?tp lab bs es x = file_byte tp lab bs es x"
  proof (cases "file_map bs es x")
    case (Some a)
    then obtain e where "e \<in> set es" "covers e x" "a = tape_byte bs e x" by (blast dest: file_map_SomeD)
    with k [of e x] Some show ?thesis by (auto simp: file_byte_def)
  qed (simp add: file_byte_def)
qed

lemma written_byte:
  assumes "block_text bs blocks buf" and "i < length buf" and "ltfs_part_id2num c lab = p" and "p < 2" and "n \<le> length (tp p)"
  shows "tape_at (tp(p := put_at n (map Data blocks) (tp p))) lab (c, n + i div bs, i mod bs) = Some (buf ! i)"
proof -
  have b: "i div bs < length blocks" "i mod bs < length (blocks ! (i div bs))" "blocks ! (i div bs) ! (i mod bs) = buf ! i"
    using block_text_nth [OF assms(1,2)] by auto
  then have "put_at n (map Data blocks) (tp p) = take n (tp p) @ map Data blocks" by (auto simp: put_at_def)
  then show ?thesis using b assms(3-5) by (simp add: tape_at_def nth_append)
qed

text \<open>The overlay of the extent map is the overlay of the bytes.\<close>

lemma overlay_content:
  assumes rd: "readable (kept p n tp) lab bs (extentlist d)" and n: "n \<le> length (tp p)" and bt: "block_text bs blocks buf"
    and ext: "ext = \<lparr>partition = c, block = n, byteoffset = 0, bytecount = length buf, fileoffset = offset\<rparr>"
    and c: "ltfs_part_id2num c lab = p" "p < 2"
    and m: "\<forall>x. file_map bs (extentlist d') x = (if fileoffset ext \<le> x \<and> x < fileoffset ext + bytecount ext then Some (tape_byte bs ext x)
      else file_map bs (extentlist d) x)" and sz: "size d' = max (size d) (ext_end ext)"
    and beyond: "\<forall>x\<ge>size d. file_map bs (extentlist d) x = None"
  defines "tp' \<equiv> tp(p := put_at n (map Data blocks) (tp p))"
  shows "file_content tp' lab bs d' = write_content offset buf (file_content tp lab bs d)"
proof (rule nth_equalityI)
  have l: "size d' = max (size d) (offset + length buf)" using sz ext by (simp add: ext_end_def)
  then show "length (file_content tp' lab bs d') = length (write_content offset buf (file_content tp lab bs d))"
    by (simp add: file_content_def)
  fix x assume "x < length (file_content tp' lab bs d')"
  then have x: "x < size d'" by (simp add: file_content_def)
  have "file_byte tp' lab bs (extentlist d') x = (if offset \<le> x \<and> x < offset + length buf then buf ! (x - offset)
      else if x < size d then file_byte tp lab bs (extentlist d) x else 0)"
  proof (cases "offset \<le> x \<and> x < offset + length buf")
    case True
    then have "tape_byte bs ext x = (c, n + (x - offset) div bs, (x - offset) mod bs)" using ext by (simp add: tape_byte_def)
    then show ?thesis
      using written_byte [OF bt _ c, of "x - offset"] n True m ext by (auto simp: file_byte_def tp'_def)
  next
    case False
    then have "file_byte tp' lab bs (extentlist d') x = file_byte tp' lab bs (extentlist d) x"
      using m ext by (auto simp: file_byte_def)
    also have "\<dots> = file_byte tp lab bs (extentlist d) x" unfolding tp'_def by (rule kept_file_byte [OF rd n])
    finally show ?thesis using False beyond by (auto simp: file_byte_def)
  qed
  then show "file_content tp' lab bs d' ! x = write_content offset buf (file_content tp lab bs d) ! x"
    using x l write_content_nth [of x "file_content tp lab bs d" offset buf] by (simp add: file_content_def)
qed

lemma readable_file_map:
  assumes "exts_ok bs es"
  shows "readable tp lab bs es \<longleftrightarrow> (\<forall>x a. file_map bs es x = Some a \<longrightarrow> tape_at tp lab a \<noteq> None)"
  using file_map_SomeD [of bs es] file_map_SomeI [OF assms] unfolding readable_def by metis


text \<open>A file whose bytes are all on the tape.\<close>

definition stored :: "tape \<Rightarrow> ltfs_label \<Rightarrow> nat \<Rightarrow> dentry \<Rightarrow> bool" where
  "stored tp lab bs d \<longleftrightarrow> file_ok bs d \<and> size d < U64 \<and> readable tp lab bs (extentlist d)"

lemma file_ok_beyond: "file_ok bs d \<Longrightarrow> \<forall>x\<ge>size d. file_map bs (extentlist d) x = None"
  using file_map_bound [of "extentlist d" "size d" bs] unfolding file_ok_def by (metis not_less)

lemma kept_content:
  assumes "stored (kept p n tp) lab bs d" and "n \<le> length (tp p)"
  shows "stored (tp(p := put_at n rs (tp p))) lab bs d" "file_content (tp(p := put_at n rs (tp p))) lab bs d = file_content tp lab bs d"
  using assms kept_file_byte [of p n tp lab bs "extentlist d" rs] by (simp_all add: stored_def file_content_def)

text \<open>The extent of the blocks that were just written, added to the file.\<close>

lemma add_written_extent:
  assumes f: "stored (kept p n tp) lab bs d" and bt: "block_text bs blocks buf" and n: "n \<le> length (tp p)" "n + length buf < U64"
    and bs: "0 < bs" "bs \<le> U32" and o: "offset + length buf + bs \<le> U64" and m: "\<forall>i. malloc i"
    and c: "ltfs_part_id2num c lab = p" "p < 2"
  defines "ext \<equiv> \<lparr>partition = c, block = n, byteoffset = 0, bytecount = length buf, fileoffset = offset\<rparr>"
    and "tp' \<equiv> tp(p := put_at n (map Data blocks) (tp p))"
  shows "\<exists>d' idx'. ltfs_fsraw_add_extent_unlocked bs malloc now ext ut d idx = (Inr (), d', idx') \<and> stored tp' lab bs d' \<and> dirty idx' \<and>
    file_content tp' lab bs d' = write_content offset buf (file_content tp lab bs d)"
proof -
  have "n + length buf div bs < U64" using n(2) by (meson add_left_mono div_le_dividend le_less_trans)
  then have "ext_ok bs ext" using bs(1) o by (simp add: ext_def ext_ok_def ext_end_def)
  then obtain d' idx' where a: "ltfs_fsraw_add_extent_unlocked bs malloc now ext ut d idx = (Inr (), d', idx')" "file_ok bs d'"
      "size d' = max (size d) (ext_end ext)" "dirty idx'"
      and fm: "\<forall>x. file_map bs (extentlist d') x = (if fileoffset ext \<le> x \<and> x < fileoffset ext + bytecount ext then Some (tape_byte bs ext x)
        else file_map bs (extentlist d) x)"
    using add_extent_ok [OF _ _ bs(2) m] f unfolding stored_def by blast
  have rd: "readable (kept p n tp) lab bs (extentlist d)" "exts_ok bs (extentlist d)" "exts_ok bs (extentlist d')"
    using f a(2) by (simp_all add: stored_def file_ok_def)
  have "tape_at tp' lab b \<noteq> None" if "file_map bs (extentlist d') x = Some b" for x b
  proof (cases "offset \<le> x \<and> x < offset + length buf")
    case True
    then have "b = (c, n + (x - offset) div bs, (x - offset) mod bs)" using that fm by (auto simp: ext_def tape_byte_def)
    then show ?thesis using written_byte [OF bt _ c, of "x - offset" n tp] n(1) True by (auto simp: tp'_def)
  next
    case False
    then have "file_map bs (extentlist d) x = Some b" using that fm by (auto simp: ext_def split: if_splits)
    then show ?thesis
      using kept_file_byte(1) [OF rd(1) n(1), of "map Data blocks"] unfolding readable_file_map [OF rd(2)] tp'_def by blast
  qed
  then have "readable tp' lab bs (extentlist d')" unfolding readable_file_map [OF rd(3)] by blast
  moreover have "size d' < U64" using a(3) f o bs(1) by (simp add: ext_def ext_end_def stored_def)
  moreover have "file_content tp' lab bs d' = write_content offset buf (file_content tp lab bs d)"
    unfolding tp'_def by (rule overlay_content [OF rd(1) n(1) bt ext_def [THEN meta_eq_to_obj_eq] c fm a(3) file_ok_beyond])
      (use f in \<open>simp add: stored_def\<close>)
  ultimately show ?thesis using a by (auto simp: stored_def)
qed

context tape_device
begin

lemma fsraw_write_ok:
  assumes v: "data_ready bs vol" and room: "append_at tape_of (data_part vol) (device vol) + length buf + 2 < TAPE_BLOCK_MAX" and buf: "buf \<noteq> []"
    and env: "fs_mutex env" "\<forall>i. fs_malloc env i" and bs: "bs \<le> U32" and o: "offset + length buf + bs \<le> U64"
  defines "p \<equiv> data_part vol" and "n \<equiv> append_at tape_of (data_part vol) (device vol)" and "tp \<equiv> tape_of (backend_data (device vol))"
    and "lab \<equiv> vol_label vol"
  assumes f: "stored (kept p n tp) lab bs d" and cache: "cache_ok (kept p n tp) bs vol"
  shows "\<exists>r d' vol' tp'. ltfs_fsraw_write ops env buf offset (ltfs_dp_id vol) ut (d, vol) = Some (r, d', vol') \<and>
    data_ready bs vol' \<and> vol_label vol' = lab \<and> tape_of (backend_data (device vol')) = tp' \<and> cache_ok tp' bs vol' \<and> stored tp' lab bs d' \<and>
    (r = Inr () \<and> file_content tp' lab bs d' = write_content offset buf (file_content tp lab bs d) \<or>
     r = Inl LTFS_LESS_SPACE \<and> d' = d \<and> file_content tp' lab bs d = file_content tp lab bs d) \<and>
    (\<forall>d2. stored (kept p n tp) lab bs d2 \<longrightarrow> stored tp' lab bs d2 \<and> file_content tp' lab bs d2 = file_content tp lab bs d2)"
proof -
  obtain r blocks vol1 where w: "ltfs_fsraw_write_data ops env (ltfs_dp_id vol) buf 1 vol = Some (r, vol1)"
      "r = Inr (Some n) \<and> block_text bs blocks buf \<or> r = Inl LTFS_LESS_SPACE" "data_ready bs vol1" "data_frame vol vol1"
      "tape_of (backend_data (device vol1)) = tp(p := put_at n (map Data blocks) (tp p))"
    using fsraw_write_data_ok [OF v room buf env(1)] unfolding p_def n_def tp_def by blast
  let ?tp = "tp(p := put_at n (map Data blocks) (tp p))"
  have n: "n \<le> length (tp p)" using v by (simp add: data_ready_def append_at_def n_def tp_def p_def)
  have p: "p < 2" "ltfs_part_id2num (ltfs_dp_id vol) lab = p" "0 < bs" "blocksize lab = bs"
    using v by (simp_all add: data_ready_def p_def lab_def)
  have lab1: "vol_label vol1 = lab" using w(4) by (simp add: data_frame_def lab_def)
  have cache1: "cache_ok ?tp bs vol1" by (rule kept_cache_ok [OF cache n w(4)])
  have others: "\<forall>d2. stored (kept p n tp) lab bs d2 \<longrightarrow> stored ?tp lab bs d2 \<and> file_content ?tp lab bs d2 = file_content tp lab bs d2"
    using kept_content [where p = p and tp = tp, OF _ n] by blast
  show ?thesis
  proof (cases "r = Inl LTFS_LESS_SPACE")
    case True
    then have "ltfs_fsraw_write ops env buf offset (ltfs_dp_id vol) ut (d, vol) = Some (Inl LTFS_LESS_SPACE, d, vol1)"
      using w(1) by (simp add: ltfs_fsraw_write_def)
    then show ?thesis using w(3,5) lab1 cache1 others f by blast
  next
    case False
    then have r: "r = Inr (Some n)" "block_text bs blocks buf" using w(2) by auto
    have "n + length buf < U64" using room by (simp add: n_def TAPE_BLOCK_MAX_def)
    then obtain d' idx' where a: "ltfs_fsraw_add_extent_unlocked bs (fs_malloc env) (fs_now env)
        \<lparr>partition = ltfs_dp_id vol, block = n, byteoffset = 0, bytecount = length buf, fileoffset = offset\<rparr> ut d (vol_index vol1) = (Inr (), d', idx')"
        "stored ?tp lab bs d'" "file_content ?tp lab bs d' = write_content offset buf (file_content tp lab bs d)"
      using add_written_extent [OF f r(2) n _ p(3) bs o env(2) p(2,1)] by blast
    let ?vol = "vol1\<lparr>vol_index := idx'\<rparr>"
    have "ltfs_fsraw_write ops env buf offset (ltfs_dp_id vol) ut (d, vol) = Some (Inr (), d', ?vol)"
      using w(1) r(1) a(1) lab1 p(4) by (simp add: ltfs_fsraw_write_def add_extent_vol_def)
    moreover have "data_ready bs ?vol" using w(3) by (simp add: data_ready_def ltfs_dp_id_def ltfs_ip_id_def)
    moreover have "cache_ok ?tp bs ?vol" using cache1 by (simp add: cache_ok_def)
    ultimately show ?thesis
      using a(2,3) others w(5) lab1 by (intro exI [of _ "Inr ()"] exI [of _ d'] exI [of _ ?vol] exI [of _ ?tp]) simp
  qed
qed

end


end
