(* ===== verification/Ltfs_Pathname.thy ===== *)
theory Ltfs_Pathname
  imports Ltfs_Prelude
begin

text \<open>
  Names of files and extended attributes: \<^verbatim>\<open>libltfs/pathname.c\<close>. A C string is the list of its bytes in
  front of the terminating null, a \<^verbatim>\<open>UChar\<close> string the list of its code units.

  The conversions, the normal forms and the case folding come from ICU, which is not part of the
  repository: the record \<open>icu_env\<close> holds what its functions return (\<open>None\<close> is a failure). The code calls
  each function twice, for the length and for the text; both calls see the same input.
\<close>

type_synonym uchar = u16

section \<open>The functions of ICU\<close>

text \<open>
  \<open>u8_next\<close> is the macro \<^verbatim>\<open>U8_NEXT\<close>: the next code point (negative for malformed input) and the rest.
  \<open>conv_open\<close> and \<open>conv_stop\<close>: the converter of the system locale can be opened and set up;
  \<open>locale_utf8\<close>: the default converter is the one for UTF-8.
\<close>

record icu_env =
  u8_next :: "byte list \<Rightarrow> int \<times> byte list"
  u_strFromUTF8 :: "byte list \<Rightarrow> uchar list option"
  u_strToUTF8 :: "uchar list \<Rightarrow> byte list option"
  u_strFoldCase :: "uchar list \<Rightarrow> uchar list option"
  quick_nfc :: "uchar list \<Rightarrow> bool"
  quick_nfd :: "uchar list \<Rightarrow> bool"
  unorm_nfc :: "uchar list \<Rightarrow> uchar list option"
  unorm_nfd :: "uchar list \<Rightarrow> uchar list option"
  u_strcmp :: "uchar list \<Rightarrow> uchar list \<Rightarrow> int"
  conv_open :: bool
  conv_stop :: bool
  ucnv_toUChars :: "byte list \<Rightarrow> uchar list option"
  locale_utf8 :: bool
  ucnv_convert :: "byte list \<Rightarrow> byte list option"

text \<open>\<open>mem\<close>: the allocation of the output buffer succeeds.\<close>

definition icu_out :: "'a option \<Rightarrow> bool \<Rightarrow> err + 'a" where
  "icu_out r mem = (case r of None \<Rightarrow> Inl LTFS_ICU_ERROR | Some d \<Rightarrow> if mem then Inr d else Inl LTFS_NO_MEMORY)"

definition pathname_foldcase_icu :: "icu_env \<Rightarrow> bool \<Rightarrow> uchar list \<Rightarrow> err + uchar list" where
  "pathname_foldcase_icu icu mem src = icu_out (u_strFoldCase icu src) mem"

definition pathname_normalize_nfc_icu :: "icu_env \<Rightarrow> bool \<Rightarrow> uchar list \<Rightarrow> err + uchar list" where
  "pathname_normalize_nfc_icu icu mem src = (if quick_nfc icu src then Inr src else icu_out (unorm_nfc icu src) mem)"

definition pathname_normalize_nfd_icu :: "icu_env \<Rightarrow> bool \<Rightarrow> uchar list \<Rightarrow> err + uchar list" where
  "pathname_normalize_nfd_icu icu mem src = (if quick_nfd icu src then Inr src else icu_out (unorm_nfd icu src) mem)"

definition pathname_utf8_to_utf16_icu :: "icu_env \<Rightarrow> bool \<Rightarrow> byte list \<Rightarrow> err + uchar list" where
  "pathname_utf8_to_utf16_icu icu mem src = icu_out (u_strFromUTF8 icu src) mem"

definition pathname_utf16_to_utf8_icu :: "icu_env \<Rightarrow> bool \<Rightarrow> uchar list \<Rightarrow> err + byte list" where
  "pathname_utf16_to_utf8_icu icu mem src = icu_out (u_strToUTF8 icu src) mem"

definition pathname_system_to_utf16_icu :: "icu_env \<Rightarrow> bool \<Rightarrow> byte list \<Rightarrow> err + uchar list" where
  "pathname_system_to_utf16_icu icu mem src =
     (if \<not> conv_open icu then Inl LTFS_ICU_ERROR else if \<not> conv_stop icu then Inl LTFS_ICU_ERROR
      else icu_out (ucnv_toUChars icu src) mem)"

definition pathname_utf8_to_system_icu :: "icu_env \<Rightarrow> bool \<Rightarrow> byte list \<Rightarrow> err + byte list" where
  "pathname_utf8_to_system_icu icu mem src =
     (if locale_utf8 icu then (if mem then Inr src else Inl LTFS_NO_MEMORY) else icu_out (ucnv_convert icu src) mem)"

definition pathname_check_utf8_icu :: "icu_env \<Rightarrow> byte list \<Rightarrow> bool" where
  "pathname_check_utf8_icu icu src \<longleftrightarrow> u_strFromUTF8 icu src \<noteq> None"

section \<open>Steps that may fail\<close>

definition sbind :: "err + 'a \<Rightarrow> ('a \<Rightarrow> err + 'b) \<Rightarrow> err + 'b" where
  "sbind r f = (case r of Inl e \<Rightarrow> Inl e | Inr a \<Rightarrow> f a)"

lemma sbind_simps [simp]: "sbind (Inl e) f = Inl e" "sbind (Inr a) f = f a"
  by (simp_all add: sbind_def)

lemma sbind_Inr: "sbind r f = Inr b \<longleftrightarrow> (\<exists>a. r = Inr a \<and> f a = Inr b)"
  by (cases r) simp_all

text \<open>\<open>mem i\<close>: the \<open>i\<close>-th allocation of the function succeeds.\<close>

definition pathname_normalize_utf8_icu :: "icu_env \<Rightarrow> (nat \<Rightarrow> bool) \<Rightarrow> byte list \<Rightarrow> err + byte list" where
  "pathname_normalize_utf8_icu icu mem src =
     sbind (pathname_utf8_to_utf16_icu icu (mem 0) src) (\<lambda>s.
     sbind (pathname_normalize_nfc_icu icu (mem 1) s) (pathname_utf16_to_utf8_icu icu (mem 2)))"

definition pathname_normalize :: "icu_env \<Rightarrow> (nat \<Rightarrow> bool) \<Rightarrow> byte list \<Rightarrow> err + byte list" where
  "pathname_normalize icu mem name = pathname_normalize_utf8_icu icu mem name"

definition pathname_normalize_utf8_nfd_icu :: "icu_env \<Rightarrow> (nat \<Rightarrow> bool) \<Rightarrow> byte list \<Rightarrow> err + byte list" where
  "pathname_normalize_utf8_nfd_icu icu mem src =
     sbind (pathname_utf8_to_utf16_icu icu (mem 0) src) (\<lambda>s.
     sbind (pathname_normalize_nfd_icu icu (mem 1) s) (pathname_utf16_to_utf8_icu icu (mem 2)))"

definition pathname_foldcase_utf8_icu :: "icu_env \<Rightarrow> (nat \<Rightarrow> bool) \<Rightarrow> byte list \<Rightarrow> err + byte list" where
  "pathname_foldcase_utf8_icu icu mem src =
     sbind (pathname_utf8_to_utf16_icu icu (mem 0) src) (\<lambda>s.
     sbind (pathname_foldcase_icu icu (mem 1) s) (pathname_utf16_to_utf8_icu icu (mem 2)))"

definition pathname_unformat :: "icu_env \<Rightarrow> bool \<Rightarrow> byte list \<Rightarrow> err + byte list" where
  "pathname_unformat icu mem name = pathname_utf8_to_system_icu icu mem name"

section \<open>Caseless comparison\<close>

definition needs_nfd :: "uchar list \<Rightarrow> bool" where
  "needs_nfd s = list_ex (\<lambda>c. c = 0x0345 \<or> (0x1f80 \<le> c \<and> c \<le> 0x1fff)) s"

definition pathname_prepare_caseless :: "icu_env \<Rightarrow> (nat \<Rightarrow> bool) \<Rightarrow> byte list \<Rightarrow> bool \<Rightarrow> err + uchar list" where
  "pathname_prepare_caseless icu mem name use_nfc =
     sbind (pathname_utf8_to_utf16_icu icu (mem 0) name) (\<lambda>s.
     sbind (if needs_nfd s then pathname_normalize_nfd_icu icu (mem 1) s else Inr s) (\<lambda>d.
     sbind (pathname_foldcase_icu icu (mem 2) d) (\<lambda>f.
     if use_nfc then pathname_normalize_nfc_icu icu (mem 3) f else pathname_normalize_nfd_icu icu (mem 3) f)))"

definition pathname_caseless_match :: "icu_env \<Rightarrow> (nat \<Rightarrow> bool) \<Rightarrow> byte list \<Rightarrow> byte list \<Rightarrow> err + int" where
  "pathname_caseless_match icu mem name1 name2 =
     sbind (pathname_prepare_caseless icu mem name1 True) (\<lambda>d1.
     sbind (pathname_prepare_caseless icu (\<lambda>i. mem (i + 4)) name2 True) (\<lambda>d2. Inr (u_strcmp icu d1 d2)))"

section \<open>Lengths in code points\<close>

text \<open>A byte that starts a code point: no bit 7, or bits 7 and 6.\<close>

definition lead :: "byte \<Rightarrow> bool" where
  "lead c \<longleftrightarrow> c AND 0x80 = 0 \<or> c AND 0xC0 = 0xC0"

fun pathname_strlen :: "byte list \<Rightarrow> nat" where
  "pathname_strlen [] = 0"
| "pathname_strlen (c # cs) = (if lead c then Suc (pathname_strlen cs) else pathname_strlen cs)"

fun pathname_truncate_loop :: "nat \<Rightarrow> nat \<Rightarrow> byte list \<Rightarrow> byte list" where
  "pathname_truncate_loop sz len [] = []"
| "pathname_truncate_loop sz len (c # cs) =
     (if lead c
      then if len = sz then [] else c # pathname_truncate_loop sz (Suc len) cs
      else c # pathname_truncate_loop sz len cs)"

definition pathname_truncate :: "byte list \<Rightarrow> nat \<Rightarrow> byte list" where
  "pathname_truncate name sz = pathname_truncate_loop sz 0 name"

section \<open>Validation\<close>

definition pathname_valid_in_xml :: "int \<Rightarrow> bool" where
  "pathname_valid_in_xml c \<longleftrightarrow>
     \<not> (0 \<le> c \<and> c \<le> 0x1f \<and> c \<noteq> 0x09 \<and> c \<noteq> 0x0a \<and> c \<noteq> 0x0d \<or> 0xd800 \<le> c \<and> c \<le> 0xdfff \<or> c = 0xfffe \<or> c = 0xffff)"

partial_function (option) pathname_validate :: "icu_env \<Rightarrow> bool \<Rightarrow> byte list \<Rightarrow> (err + unit) option" where
  "pathname_validate icu allow_slash name =
     (if name = [] then Some (Inr ())
      else case u8_next icu name of (c, rest) \<Rightarrow>
        if c < 0 then Some (Inl LTFS_ICU_ERROR)
        else if \<not> pathname_valid_in_xml c \<or> c = 0x3a \<or> (\<not> allow_slash \<and> c = 0x2f) then Some (Inl LTFS_INVALID_PATH)
        else pathname_validate icu allow_slash rest)"

definition LTFS_FILENAME_MAX :: nat where "LTFS_FILENAME_MAX = 255"

definition pathname_validate_file :: "icu_env \<Rightarrow> byte list \<Rightarrow> (err + unit) option" where
  "pathname_validate_file icu name =
     (if pathname_strlen name > LTFS_FILENAME_MAX then Some (Inl LTFS_NAMETOOLONG) else pathname_validate icu False name)"

definition pathname_validate_xattr_name :: "icu_env \<Rightarrow> byte list \<Rightarrow> (err + unit) option" where
  "pathname_validate_xattr_name icu name = pathname_validate_file icu name"

text \<open>The value of an attribute: \<open>True\<close> when it has to be encoded for the index.\<close>

partial_function (option) xattr_value_loop :: "icu_env \<Rightarrow> byte list \<Rightarrow> (err + bool) option" where
  "xattr_value_loop icu name =
     (if name = [] then Some (Inr False)
      else case u8_next icu name of (c, rest) \<Rightarrow>
        if c < 0 then Some (Inl LTFS_ICU_ERROR)
        else if \<not> pathname_valid_in_xml c then Some (Inr True)
        else xattr_value_loop icu rest)"

definition pathname_validate_xattr_value :: "icu_env \<Rightarrow> byte list \<Rightarrow> (err + bool) option" where
  "pathname_validate_xattr_value icu name =
     (if \<not> pathname_check_utf8_icu icu name then Some (Inr True) else xattr_value_loop icu name)"

section \<open>The canonical form\<close>

definition pathname_format_icu :: "icu_env \<Rightarrow> (nat \<Rightarrow> bool) \<Rightarrow> byte list \<Rightarrow> bool \<Rightarrow> bool \<Rightarrow> (err + byte list) option" where
  "pathname_format_icu icu mem src validate allow_slash =
     (case sbind (pathname_system_to_utf16_icu icu (mem 0) src) (\<lambda>s.
           sbind (pathname_normalize_nfc_icu icu (mem 1) s) (pathname_utf16_to_utf8_icu icu (mem 2))) of
        Inl e \<Rightarrow> Some (Inl e)
      | Inr dest \<Rightarrow>
          if \<not> validate then Some (Inr dest)
          else if \<not> allow_slash \<and> pathname_strlen dest > LTFS_FILENAME_MAX then Some (Inl LTFS_NAMETOOLONG)
          else (case pathname_validate icu allow_slash dest of
                  None \<Rightarrow> None | Some (Inl e) \<Rightarrow> Some (Inl e) | Some (Inr _) \<Rightarrow> Some (Inr dest)))"

definition pathname_format :: "icu_env \<Rightarrow> (nat \<Rightarrow> bool) \<Rightarrow> byte list \<Rightarrow> bool \<Rightarrow> bool \<Rightarrow> (err + byte list) option" where
  "pathname_format icu mem name validate allow_slash = pathname_format_icu icu mem name validate allow_slash"

section \<open>What the validation accepts\<close>

text \<open>
  \<^verbatim>\<open>U8_NEXT\<close> goes forward by at least one byte and not beyond the end; \<open>code_points\<close> are the code points
  that it delivers. The number of bytes bounds the number of code points.
\<close>

definition u8_next_ok :: "icu_env \<Rightarrow> bool" where
  "u8_next_ok icu \<longleftrightarrow> (\<forall>s. s \<noteq> [] \<longrightarrow> (\<exists>n>0. snd (u8_next icu s) = drop n s))"

fun code_points :: "(byte list \<Rightarrow> int \<times> byte list) \<Rightarrow> nat \<Rightarrow> byte list \<Rightarrow> int list" where
  "code_points next 0 s = []"
| "code_points next (Suc n) s = (if s = [] then [] else fst (next s) # code_points next n (snd (next s)))"

definition name_char :: "bool \<Rightarrow> int \<Rightarrow> bool" where
  "name_char allow_slash c \<longleftrightarrow> 0 \<le> c \<and> pathname_valid_in_xml c \<and> c \<noteq> 0x3a \<and> (allow_slash \<or> c \<noteq> 0x2f)"

lemma icu_out_Inr: "icu_out r mem = Inr d \<longleftrightarrow> r = Some d \<and> mem"
  by (cases r) (auto simp: icu_out_def)

lemma u8_next_shorter: "u8_next_ok icu \<Longrightarrow> s \<noteq> [] \<Longrightarrow> length (snd (u8_next icu s)) < length s"
proof -
  assume "u8_next_ok icu" "s \<noteq> []"
  then obtain n where n: "0 < n" "snd (u8_next icu s) = drop n s" unfolding u8_next_ok_def by blast
  have "length (drop n s) < length s" using n(1) \<open>s \<noteq> []\<close> by simp
  then show ?thesis unfolding n(2) .
qed

lemma code_points_Nil [simp]: "code_points next n [] = []"
  by (cases n) simp_all

lemma code_points_fuel:
  assumes "u8_next_ok icu"
  shows "length s \<le> n \<Longrightarrow> length s \<le> m \<Longrightarrow> code_points (u8_next icu) n s = code_points (u8_next icu) m s"
proof (induction n arbitrary: m s)
  case (Suc n)
  show ?case
  proof (cases "s = []")
    case False
    then obtain m' where m: "m = Suc m'" using Suc.prems by (cases m) auto
    have "length (snd (u8_next icu s)) \<le> n" "length (snd (u8_next icu s)) \<le> m'"
      using u8_next_shorter [OF assms False] Suc.prems m by auto
    then have "code_points (u8_next icu) n (snd (u8_next icu s)) = code_points (u8_next icu) m' (snd (u8_next icu s))"
      by (rule Suc.IH)
    then show ?thesis using m by simp
  qed simp
qed simp

lemma pathname_validate_ok:
  assumes "u8_next_ok icu"
  shows "\<exists>r. pathname_validate icu allow_slash s = Some r \<and>
    (r = Inr () \<longleftrightarrow> list_all (name_char allow_slash) (code_points (u8_next icu) (length s) s)) \<and>
    (r = Inl LTFS_INVALID_PATH \<longrightarrow> (\<exists>c\<in>set (code_points (u8_next icu) (length s) s). \<not> name_char allow_slash c))"
proof (induction s rule: length_induct)
  case (1 s)
  show ?case
  proof (cases "s = []")
    case True
    then show ?thesis by (subst pathname_validate.simps) simp
  next
    case False
    obtain c rest where n: "u8_next icu s = (c, rest)" by (cases "u8_next icu s")
    have len: "length rest < length s" using u8_next_shorter [OF assms False] n by simp
    then obtain k where k: "length s = Suc k" "length rest \<le> k" by (cases "length s") auto
    have cp: "code_points (u8_next icu) (length s) s = c # code_points (u8_next icu) (length rest) rest"
      using False n k code_points_fuel [OF assms, of rest k "length rest"] by simp
    show ?thesis
    proof (cases "name_char allow_slash c")
      case True
      then have "pathname_validate icu allow_slash s = pathname_validate icu allow_slash rest"
        using False n by (subst pathname_validate.simps) (auto simp: name_char_def)
      with 1 len True show ?thesis unfolding cp by simp
    next
      case f: False
      then have "pathname_validate icu allow_slash s = Some (Inl (if c < 0 then LTFS_ICU_ERROR else LTFS_INVALID_PATH))"
        using False n by (subst pathname_validate.simps) (auto simp: name_char_def)
      with f show ?thesis unfolding cp by simp
    qed
  qed
qed

text \<open>
  C39. Formatting a name of a file always returns, and what it accepts is a valid name in canonical form:
  it is the NFC of the given name in UTF-8, it has at most 255 code points, and none of them is a colon, a
  slash, a character that XML forbids, or malformed.
\<close>

theorem pathname_format_valid:
  assumes "u8_next_ok icu"
  shows "\<exists>r. pathname_format icu mem name True False = Some r \<and>
    (\<forall>d. r = Inr d \<longrightarrow> pathname_strlen d \<le> LTFS_FILENAME_MAX \<and>
       list_all (name_char False) (code_points (u8_next icu) (length d) d) \<and>
       (\<exists>s s'. ucnv_toUChars icu name = Some s \<and> (if quick_nfc icu s then s' = s else unorm_nfc icu s = Some s') \<and> u_strToUTF8 icu s' = Some d))"
proof (cases "sbind (pathname_system_to_utf16_icu icu (mem 0) name) (\<lambda>s.
           sbind (pathname_normalize_nfc_icu icu (mem 1) s) (pathname_utf16_to_utf8_icu icu (mem 2)))")
  case (Inl e)
  then show ?thesis by (simp add: pathname_format_def pathname_format_icu_def)
next
  case (Inr d)
  have c: "\<exists>s s'. ucnv_toUChars icu name = Some s \<and> (if quick_nfc icu s then s' = s else unorm_nfc icu s = Some s') \<and> u_strToUTF8 icu s' = Some d"
    using Inr unfolding sbind_Inr pathname_system_to_utf16_icu_def pathname_normalize_nfc_icu_def pathname_utf16_to_utf8_icu_def
    by (auto simp: icu_out_Inr split: if_splits)
  obtain r where r: "pathname_validate icu False d = Some r"
      "r = Inr () \<longleftrightarrow> list_all (name_char False) (code_points (u8_next icu) (length d) d)"
    using pathname_validate_ok [OF assms] by blast
  show ?thesis
  proof (cases "pathname_strlen d > LTFS_FILENAME_MAX")
    case True
    then show ?thesis using Inr by (simp add: pathname_format_def pathname_format_icu_def)
  next
    case False
    then show ?thesis using Inr r c by (cases r) (simp_all add: pathname_format_def pathname_format_icu_def)
  qed
qed

definition ascii_icu :: icu_env where
  "ascii_icu = \<lparr>u8_next = (\<lambda>s. (if hd s < 0x80 then uint (hd s) else - 1, tl s)),
     u_strFromUTF8 = (\<lambda>s. if list_all (\<lambda>c. c < 0x80) s then Some (map ucast s) else None),
     u_strToUTF8 = (\<lambda>s. if list_all (\<lambda>c. c < 0x80) s then Some (map ucast s) else None),
     u_strFoldCase = (\<lambda>s. Some (map (\<lambda>c. if 0x41 \<le> c \<and> c \<le> 0x5a then c + 0x20 else c) s)),
     quick_nfc = (\<lambda>_. True), quick_nfd = (\<lambda>_. True), unorm_nfc = Some, unorm_nfd = Some,
     u_strcmp = (\<lambda>a b. if a = b then 0 else 1), conv_open = True, conv_stop = True,
     ucnv_toUChars = (\<lambda>s. if list_all (\<lambda>c. c < 0x80) s then Some (map ucast s) else None),
     locale_utf8 = True, ucnv_convert = Some\<rparr>"

lemma ascii_icu_sel [simp]:
  "u8_next ascii_icu s = (if hd s < 0x80 then uint (hd s) else - 1, tl s)" "quick_nfc ascii_icu t" "quick_nfd ascii_icu t" "conv_open ascii_icu" "conv_stop ascii_icu"
  "ucnv_toUChars ascii_icu s = (if list_all (\<lambda>c. c < 0x80) s then Some (map ucast s) else None)"
  "u_strFromUTF8 ascii_icu s = (if list_all (\<lambda>c. c < 0x80) s then Some (map ucast s) else None)"
  "u_strFoldCase ascii_icu t = Some (map (\<lambda>c. if 0x41 \<le> c \<and> c \<le> 0x5a then c + 0x20 else c) t)"
  "u_strToUTF8 ascii_icu t = (if list_all (\<lambda>c. c < 0x80) t then Some (map ucast t) else None)"
  by (simp_all add: ascii_icu_def)

lemma ascii_icu_ok: "u8_next_ok ascii_icu"
  unfolding u8_next_ok_def by (intro allI impI exI [of _ 1]) (simp add: drop_Suc)

theorem pathname_format_valid_witness:
  "pathname_format ascii_icu (\<lambda>_. True) [0x61, 0x2e, 0x62] True False = Some (Inr [0x61, 0x2e, 0x62]) \<and>
   pathname_format ascii_icu (\<lambda>_. True) [0x61, 0x3a, 0x62] True False = Some (Inl LTFS_INVALID_PATH) \<and>
   list_all (name_char False) (code_points (u8_next ascii_icu) 3 [0x61, 0x2e, 0x62])"
proof -
  have v: "pathname_validate ascii_icu False [0x61, 0x2e, 0x62] = Some (Inr ())" "pathname_validate ascii_icu False [0x61, 0x3a, 0x62] = Some (Inl LTFS_INVALID_PATH)"
    by (simp_all add: pathname_validate.simps pathname_valid_in_xml_def)
  have "pathname_format ascii_icu (\<lambda>_. True) [0x61, 0x2e, 0x62] True False = Some (Inr [0x61, 0x2e, 0x62])"
    "pathname_format ascii_icu (\<lambda>_. True) [0x61, 0x3a, 0x62] True False = Some (Inl LTFS_INVALID_PATH)"
    using v by (simp_all add: pathname_format_def pathname_format_icu_def pathname_system_to_utf16_icu_def pathname_normalize_nfc_icu_def
        pathname_utf16_to_utf8_icu_def icu_out_def LTFS_FILENAME_MAX_def lead_def)
  then show ?thesis using pathname_format_valid [OF ascii_icu_ok, of "\<lambda>_. True" "[0x61, 0x2e, 0x62]"] by (auto simp: numeral_3_eq_3)
qed

section \<open>Truncation\<close>

lemma truncate_loop_ok:
  "len \<le> sz \<Longrightarrow> \<exists>rest. s = pathname_truncate_loop sz len s @ rest \<and>
     len + pathname_strlen (pathname_truncate_loop sz len s) = min sz (len + pathname_strlen s) \<and>
     (rest = [] \<or> lead (hd rest))"
proof (induction s arbitrary: len)
  case (Cons c cs)
  show ?case
  proof (cases "lead c \<and> len = sz")
    case True
    then show ?thesis by simp
  next
    case False
    define l where "l = (if lead c then Suc len else len)"
    have "l \<le> sz" using False Cons.prems by (auto simp: l_def)
    from Cons.IH [OF this] show ?thesis using False by (auto simp: l_def split: if_splits)
  qed
qed simp

text \<open>
  Truncating a name to a number of code points keeps a prefix of it with exactly that many code points,
  or the whole name if it has no more, and cuts only in front of a byte that starts a code point, so that
  no code point is split.
\<close>

theorem pathname_truncate_prefix:
  "\<exists>rest. name = pathname_truncate name n @ rest \<and> pathname_strlen (pathname_truncate name n) = min n (pathname_strlen name) \<and>
     (rest = [] \<or> lead (hd rest))"
  using truncate_loop_ok [of 0 n name] by (simp add: pathname_truncate_def)

end
