(* ===== verification/Ltfs_Criteria.thy ===== *)
theory Ltfs_Criteria
  imports Ltfs_Pathname
begin

text \<open>
  The rules that say which files go to the index partition: \<^verbatim>\<open>libltfs/index_criteria.c\<close>. The options are
  parsed from a string such as \<^verbatim>\<open>name=*.xml:*.txt/size=100K\<close>; a file name is matched against the
  patterns by character (grapheme cluster) with the break iterator of ICU, a parameter \<open>ubrk\<close> that returns
  the characters of a text or fails.
\<close>

section \<open>State\<close>

record index_criteria =
  have_criteria :: bool
  max_filesize_criteria :: nat
  glob_patterns :: "byte list list option"
  glob_cache :: "uchar list list option"

definition index_criteria_free :: "index_criteria \<Rightarrow> index_criteria" where
  "index_criteria_free ic =
     (if \<not> have_criteria ic then ic
      else ic\<lparr>glob_patterns := None, glob_cache := None, max_filesize_criteria := 0, have_criteria := False\<rparr>)"

definition index_criteria_get_max_filesize :: "index_criteria \<Rightarrow> nat" where
  "index_criteria_get_max_filesize ic = (if have_criteria ic then max_filesize_criteria ic else 0)"

definition index_criteria_get_glob_patterns :: "index_criteria \<Rightarrow> byte list list option" where
  "index_criteria_get_glob_patterns ic = (if have_criteria ic then glob_patterns ic else None)"

section \<open>Options\<close>

definition tolower :: "byte \<Rightarrow> byte" where
  "tolower c = (if 0x41 \<le> c \<and> c \<le> 0x5a then c + 0x20 else c)"

definition isalpha :: "byte \<Rightarrow> bool" where
  "isalpha c \<longleftrightarrow> 0x41 \<le> c \<and> c \<le> 0x5a \<or> 0x61 \<le> c \<and> c \<le> 0x7a"

definition isdigit :: "byte \<Rightarrow> bool" where
  "isdigit c \<longleftrightarrow> 0x30 \<le> c \<and> c \<le> 0x39"

text \<open>\<^verbatim>\<open>! strncasecmp(sub, s, strlen(sub))\<close>\<close>

definition starts_nocase :: "byte list \<Rightarrow> byte list \<Rightarrow> bool" where
  "starts_nocase sub s \<longleftrightarrow> length sub \<le> length s \<and> map tolower (take (length sub) s) = map tolower sub"

datatype criteria_option = NAME_OPTION | SIZE_OPTION

definition option_text :: "criteria_option \<Rightarrow> byte list" where
  "option_text opt = (case opt of NAME_OPTION \<Rightarrow> [0x6e, 0x61, 0x6d, 0x65, 0x3d] | SIZE_OPTION \<Rightarrow> [0x73, 0x69, 0x7a, 0x65, 0x3d])"

abbreviation slash :: byte where "slash \<equiv> 0x2f"
abbreviation colon :: byte where "colon \<equiv> 0x3a"

definition valid_option :: "byte list \<Rightarrow> bool" where
  "valid_option s \<longleftrightarrow> starts_nocase (option_text NAME_OPTION) s \<or> starts_nocase (option_text SIZE_OPTION) s"

fun check_separators :: "byte list \<Rightarrow> bool" where
  "check_separators [] = False"
| "check_separators (c # cs) = (if c = slash then (if valid_option cs then check_separators cs else True) else check_separators cs)"

definition index_criteria_contains_invalid_options :: "byte list option \<Rightarrow> bool" where
  "index_criteria_contains_invalid_options s =
     (case s of None \<Rightarrow> False
      | Some s \<Rightarrow> if length s < 5 then True else if \<not> valid_option s then True else check_separators (tl s))"

text \<open>The walk over the string: the first match behind a slash; \<open>prev\<close> is the character in front.\<close>

fun find_walk :: "byte list \<Rightarrow> byte \<Rightarrow> byte list \<Rightarrow> byte list option" where
  "find_walk sub prev [] = None"
| "find_walk sub prev (c # cs) = (if starts_nocase sub (c # cs) \<and> prev = slash then Some (c # cs) else find_walk sub c cs)"

definition find_start :: "byte list \<Rightarrow> byte list \<Rightarrow> byte list option" where
  "find_start sub s = (if starts_nocase sub s then Some s else find_walk sub (hd s) (tl s))"

lemma starts_nocase_Cons: "starts_nocase (option_text opt) s \<Longrightarrow> \<exists>c cs. s = c # cs \<and> c \<noteq> slash"
  by (cases s; cases opt) (auto simp: starts_nocase_def option_text_def tolower_def)

lemma find_walk_shorter: "find_walk sub p s = Some t \<Longrightarrow> length t \<le> length s \<and> starts_nocase sub t"
  by (induction sub p s rule: find_walk.induct) (auto split: if_splits)

lemma find_start_shorter:
  assumes "find_start (option_text opt) s = Some t"
  shows "length (dropWhile (\<lambda>c. c \<noteq> slash) t) < length s"
proof -
  have t: "length t \<le> length s" "starts_nocase (option_text opt) t"
    using assms find_walk_shorter [of "option_text opt" "hd s" "tl s" t] by (auto simp: find_start_def split: if_splits)
  then obtain c cs where "t = c # cs" "c \<noteq> slash" using starts_nocase_Cons by blast
  then show ?thesis using t(1) length_dropWhile_le [of "\<lambda>c. c \<noteq> slash" cs] by simp
qed

text \<open>\<open>Found\<close>: the text of the option up to the next slash. \<open>Duplicate\<close>: not found, with the error flag set.\<close>

datatype find_result = Found "byte list" | Not_found | Duplicate

function index_criteria_find_option :: "criteria_option \<Rightarrow> byte list \<Rightarrow> find_result" where
  "index_criteria_find_option opt s =
     (if length s < 5 then Not_found
      else case find_start (option_text opt) s of
        None \<Rightarrow> Not_found
      | Some t \<Rightarrow>
          (case index_criteria_find_option opt (dropWhile (\<lambda>c. c \<noteq> slash) t) of
             Found _ \<Rightarrow> Duplicate
           | _ \<Rightarrow> Found (takeWhile (\<lambda>c. c \<noteq> slash) t)))"
  by pat_completeness auto

termination
  by (relation "measure (\<lambda>(_, s). length s)") (auto simp: find_start_shorter)

declare index_criteria_find_option.simps [simp del]

section \<open>The size\<close>

fun two_letters :: "byte list \<Rightarrow> bool" where
  "two_letters (c # d # cs) \<longleftrightarrow> isalpha c \<and> isalpha d \<or> two_letters (d # cs)"
| "two_letters _ \<longleftrightarrow> False"

definition digits_value :: "byte list \<Rightarrow> nat" where
  "digits_value ds = foldl (\<lambda>n d. 10 * n + unat (d - 0x30)) 0 ds"

definition strtoull :: "byte list \<Rightarrow> nat" where
  "strtoull s = min (U64 - 1) (digits_value (takeWhile isdigit s))"

definition size_multiplier :: "byte \<Rightarrow> nat option" where
  "size_multiplier c =
     (if c = 0x6b \<or> c = 0x4b then Some 1024 else if c = 0x6d \<or> c = 0x4d then Some (1024 * 1024)
      else if c = 0x67 \<or> c = 0x47 then Some (1024 * 1024 * 1024) else None)"

definition parse_number :: "byte list \<Rightarrow> nat \<Rightarrow> err + nat" where
  "parse_number rule multiplier =
     (if rule = [] then Inl LTFS_POLICY_INVALID
      else if \<not> isdigit (hd rule) then Inl LTFS_POLICY_INVALID
      else Inr (strtoull rule * multiplier mod U64))"

text \<open>An empty size has no last character: the code reads the byte in front of its buffer.\<close>

definition index_criteria_parse_size :: "byte list \<Rightarrow> index_criteria \<Rightarrow> (unit, index_criteria) result" where
  "index_criteria_parse_size criteria ic =
     (let rule = drop 5 criteria;
          r = (if two_letters rule then Inl LTFS_POLICY_INVALID
               else if rule = [] then Inl OUT_OF_BOUNDS
               else if isalpha (last rule)
               then (case size_multiplier (last rule) of None \<Rightarrow> Inl LTFS_POLICY_INVALID | Some m \<Rightarrow> parse_number (butlast rule) m)
               else parse_number rule 1)
      in case r of Inl e \<Rightarrow> (Inl e, ic) | Inr n \<Rightarrow> (Inr (), ic\<lparr>max_filesize_criteria := n\<rparr>))"

section \<open>The names\<close>

text \<open>
  The rules are separated by colons. The first loop rejects empty rules; for an option without any rule
  it starts behind the terminating null of the buffer. The second loop cuts the rules out. \<open>mem 0\<close>: the
  array can be allocated; \<open>mem (Suc i)\<close>: so can the copy of rule \<open>i\<close>, else the list ends there.
\<close>

definition empty_rule :: "byte list \<Rightarrow> bool" where
  "empty_rule rule \<longleftrightarrow> rule ! 5 = colon \<or>
     list_ex (\<lambda>i. rule ! i = colon \<and> (rule ! (i - 1) = colon \<or> Suc i = length rule)) [6..<length rule]"

fun assign_rules :: "byte list \<Rightarrow> byte list \<Rightarrow> byte list list" where
  "assign_rules rule [] = []"
| "assign_rules rule (c # cs) =
     (if c = colon then rule # assign_rules [] cs
      else if cs = [] then [rule @ [c]] else assign_rules (rule @ [c]) cs)"

fun dup_rules :: "(nat \<Rightarrow> bool) \<Rightarrow> nat \<Rightarrow> byte list list \<Rightarrow> byte list list" where
  "dup_rules mem i [] = []"
| "dup_rules mem i (p # ps) = (if mem i then p # dup_rules mem (Suc i) ps else [])"

fun validate_rules :: "icu_env \<Rightarrow> byte list list \<Rightarrow> (err + unit) option" where
  "validate_rules icu [] = Some (Inr ())"
| "validate_rules icu (p # ps) =
     (case pathname_validate_file icu p of
        None \<Rightarrow> None | Some (Inl e) \<Rightarrow> Some (Inl e) | Some (Inr _) \<Rightarrow> validate_rules icu ps)"

definition index_criteria_parse_name ::
    "icu_env \<Rightarrow> (nat \<Rightarrow> bool) \<Rightarrow> byte list \<Rightarrow> index_criteria \<Rightarrow> (unit, index_criteria) result option" where
  "index_criteria_parse_name icu mem criteria ic =
     (if length criteria \<le> 5 then Some (Inl OUT_OF_BOUNDS, ic)
      else if empty_rule criteria then Some (Inl LTFS_POLICY_EMPTY_RULE, ic)
      else if \<not> mem 0 then Some (Inl LTFS_NO_MEMORY, ic\<lparr>glob_patterns := None\<rparr>)
      else
        let ps = dup_rules mem 1 (assign_rules [] (drop 5 criteria)) in
        map_option (\<lambda>r. (r, ic\<lparr>glob_patterns := Some ps\<rparr>)) (validate_rules icu ps))"

definition index_criteria_parse ::
    "icu_env \<Rightarrow> (nat \<Rightarrow> bool) \<Rightarrow> byte list option \<Rightarrow> index_criteria \<Rightarrow> (unit, index_criteria) result option" where
  "index_criteria_parse icu mem filterrules ic =
     (case filterrules of
        None \<Rightarrow> Some (Inr (), ic\<lparr>have_criteria := False\<rparr>)
      | Some rules \<Rightarrow>
          let ic = (index_criteria_free ic)\<lparr>have_criteria := True\<rparr> in
          if index_criteria_contains_invalid_options filterrules then Some (Inl LTFS_POLICY_INVALID, ic)
          else
            (case index_criteria_find_option NAME_OPTION rules of
               Duplicate \<Rightarrow> Some (Inl LTFS_POLICY_INVALID, ic)
             | name \<Rightarrow>
                 obind (case name of Found t \<Rightarrow> index_criteria_parse_name icu mem t ic | _ \<Rightarrow> Some (Inr (), ic)) (\<lambda>_ ic.
                   let ic = ic\<lparr>max_filesize_criteria := 0\<rparr> in
                   case index_criteria_find_option SIZE_OPTION rules of
                     Found t \<Rightarrow> Some (index_criteria_parse_size t ic)
                   | Duplicate \<Rightarrow> Some (Inl LTFS_POLICY_INVALID, ic)
                   | Not_found \<Rightarrow> Some (if name \<noteq> Not_found then Inl LTFS_POLICY_INVALID else Inr (), ic))))"

text \<open>A failed copy of the rules leaves the array with the copies made so far, which were freed.\<close>

definition index_criteria_dup_rules ::
    "(nat \<Rightarrow> bool) \<Rightarrow> index_criteria \<Rightarrow> (unit, index_criteria) result" where
  "index_criteria_dup_rules mem src =
     (let dest = src\<lparr>glob_cache := None\<rparr> in
      case glob_patterns src of
        None \<Rightarrow> (Inr (), dest)
      | Some ps \<Rightarrow>
          if \<not> have_criteria src then (Inr (), dest)
          else if \<not> mem 0 then (Inl LTFS_NO_MEMORY, dest\<lparr>glob_patterns := None\<rparr>)
          else if dup_rules mem 1 ps = ps then (Inr (), dest)
          else (Inl LTFS_NO_MEMORY, dest\<lparr>glob_patterns := Some (dup_rules mem 1 ps)\<rparr>))"

section \<open>Matching a name\<close>

text \<open>
  The state of the matching loop: the rest of the pattern and of the file name as lists of characters,
  whether an asterisk was just read, and the stack of earlier positions with its base in front. A push
  keeps only the base and the new element.
\<close>

type_synonym glob_state = "nat \<times> uchar list list \<times> uchar list list \<times> bool \<times> (uchar list list \<times> uchar list list) list"

definition push_ustack :: "'a list \<Rightarrow> 'a \<Rightarrow> 'a list" where
  "push_ustack stack e = (if stack = [] then [e] else [hd stack, e])"

definition match_back :: "nat \<Rightarrow> (uchar list list \<times> uchar list list) list \<Rightarrow> bool + glob_state" where
  "match_back k stack =
     (if stack = [] then Inl False else Inr (k, fst (last stack), tl (snd (last stack)), True, butlast stack))"

definition match_step :: "(nat \<Rightarrow> bool) \<Rightarrow> glob_state \<Rightarrow> bool + glob_state" where
  "match_step mem = (\<lambda>(k, cr, fi, have_asterisk, stack).
     if cr = [] then (if fi = [] then Inl True else match_back k stack)
     else if hd cr = [0x2a] then (if tl cr = [] then Inl True else Inr (k, tl cr, fi, True, stack))
     else if fi = [] then match_back k stack
     else
       let accept = (hd cr = [0x3f] \<or> hd cr = hd fi) in
       if have_asterisk
       then if accept
            then (if mem k then Inr (Suc k, tl cr, tl fi, False, push_ustack stack (cr, fi)) else Inl False)
            else Inr (k, cr, tl fi, True, stack)
       else if accept then Inr (k, tl cr, tl fi, False, stack)
       else match_back k stack)"

definition glob_weight :: "glob_state \<Rightarrow> nat" where
  "glob_weight = (\<lambda>(k, cr, fi, have_asterisk, stack).
     3 ^ (length cr + length fi) + sum_list (map (\<lambda>(c, f). 3 ^ (length c + length (tl f))) stack))"

lemma push_weight: "sum_list (map (g :: 'a \<Rightarrow> nat) (push_ustack stack e)) \<le> sum_list (map g stack) + g e"
  by (cases stack) (simp_all add: push_ustack_def)

lemma match_back_weight:
  assumes "match_back k stack = Inr s" and "0 < w"
  shows "glob_weight s < w + sum_list (map (\<lambda>(c, f). 3 ^ (length c + length (tl f))) stack)"
proof -
  have ne: "stack \<noteq> []" using assms(1) by (auto simp: match_back_def)
  obtain c f where l: "last stack = (c, f)" by (cases "last stack")
  have "sum_list (map (\<lambda>(c, f). 3 ^ (length c + length (tl f)) :: nat) stack) =
      sum_list (map (\<lambda>(c, f). 3 ^ (length c + length (tl f))) (butlast stack @ [last stack]))" using ne by simp
  then show ?thesis using assms ne l by (auto simp: match_back_def glob_weight_def)
qed

lemma match_step_weight:
  assumes step: "match_step mem st = Inr s"
  shows "glob_weight s < glob_weight st"
proof -
  obtain k cr fi h stack where st: "st = (k, cr, fi, h, stack)" by (cases st)
  let ?W = "sum_list (map (\<lambda>(c, f). 3 ^ (length c + length (tl f)) :: nat) stack)"
  have pops: "glob_weight s < glob_weight st" if "match_back k stack = Inr s"
    using match_back_weight [OF that, of "3 ^ (length cr + length fi)"] by (simp add: st glob_weight_def)
  have push: "sum_list (map (\<lambda>(c, f). 3 ^ (length c + length (tl f)) :: nat) (push_ustack stack (cr, fi))) \<le> ?W + 3 ^ (length cr + length (tl fi))"
    using push_weight [of "\<lambda>(c, f). 3 ^ (length c + length (tl f)) :: nat" stack "(cr, fi)"] by simp
  show ?thesis
  proof (cases cr)
    case Nil
    then show ?thesis using step pops by (auto simp: match_step_def st split: if_splits)
  next
    case c: (Cons c cr')
    show ?thesis
    proof (cases fi)
      case Nil
      then show ?thesis using step pops c by (auto simp: match_step_def st glob_weight_def split: if_splits)
    next
      case (Cons f fi')
      have nine: "a + x < b + 9 * x" if "0 < x" "a \<le> b + 3 * x" for a b x :: nat using that by simp
      have push': "sum_list (map (\<lambda>(c, f). 3 ^ (length c + length (tl f)) :: nat) (push_ustack stack (cr, fi))) + 3 ^ (length cr' + length fi') <
          ?W + 9 * 3 ^ (length cr' + length fi')"
        by (rule nine) (use push c Cons in simp_all)
      have "glob_weight (Suc k, cr', fi', False, push_ustack stack (cr, fi)) < glob_weight st"
        using push' c Cons by (simp add: st glob_weight_def)
      then show ?thesis using step pops c Cons
        by (auto simp: match_step_def st glob_weight_def Let_def split: if_splits)
    qed
  qed
qed

function match_loop :: "(nat \<Rightarrow> bool) \<Rightarrow> glob_state \<Rightarrow> bool" where
  "match_loop mem st = (case match_step mem st of Inl r \<Rightarrow> r | Inr s \<Rightarrow> match_loop mem s)"
  by pat_completeness auto

termination
  by (relation "measure (\<lambda>(_, st). glob_weight st)") (auto simp: match_step_weight)

declare match_loop.simps [simp del]

definition matches_name_criteria_caseless ::
    "(uchar list \<Rightarrow> uchar list list option) \<Rightarrow> (nat \<Rightarrow> bool) \<Rightarrow> uchar list \<Rightarrow> uchar list \<Rightarrow> err + bool" where
  "matches_name_criteria_caseless ubrk mem criteria filename =
     (if criteria = [] \<and> filename = [] then Inr True
      else if criteria = [] then Inr False
      else case ubrk criteria of
        None \<Rightarrow> Inl LTFS_ICU_ERROR
      | Some cr \<Rightarrow> (case ubrk filename of None \<Rightarrow> Inl LTFS_ICU_ERROR | Some fi \<Rightarrow> Inr (match_loop mem (0, cr, fi, False, []))))"

text \<open>
  The cache of the prepared patterns. A failure leaves the patterns prepared so far. \<open>mem i\<close> are the
  allocations for pattern \<open>i\<close>.
\<close>

fun prepare_patterns :: "icu_env \<Rightarrow> (nat \<Rightarrow> nat \<Rightarrow> bool) \<Rightarrow> nat \<Rightarrow> byte list list \<Rightarrow> (unit, uchar list list) result" where
  "prepare_patterns icu mem i [] = (Inr (), [])"
| "prepare_patterns icu mem i (p # ps) =
     (case pathname_prepare_caseless icu (mem i) p False of
        Inl e \<Rightarrow> (Inl e, [])
      | Inr u \<Rightarrow> (case prepare_patterns icu mem (Suc i) ps of (r, us) \<Rightarrow> (r, u # us)))"

definition prepare_glob_cache :: "icu_env \<Rightarrow> bool \<Rightarrow> (nat \<Rightarrow> nat \<Rightarrow> bool) \<Rightarrow> byte list list \<Rightarrow> index_criteria \<Rightarrow> (unit, index_criteria) result" where
  "prepare_glob_cache icu mem0 mem ps ic =
     (if \<not> mem0 then (Inl LTFS_NO_MEMORY, ic\<lparr>glob_cache := None\<rparr>)
      else case prepare_patterns icu mem 0 ps of (r, us) \<Rightarrow> (r, ic\<lparr>glob_cache := Some us\<rparr>))"

text \<open>An error of a single comparison is reported and the next pattern is tried.\<close>

fun match_any ::
    "(uchar list \<Rightarrow> uchar list list option) \<Rightarrow> (nat \<Rightarrow> nat \<Rightarrow> bool) \<Rightarrow> nat \<Rightarrow> uchar list list \<Rightarrow> uchar list \<Rightarrow> bool" where
  "match_any ubrk mem i [] dname = False"
| "match_any ubrk mem i (g # gs) dname =
     (matches_name_criteria_caseless ubrk (mem i) g dname = Inr True \<or> match_any ubrk mem (Suc i) gs dname)"

text \<open>
  The function returns a \<^verbatim>\<open>bool\<close>: a negative error code that it returns is \<open>True\<close>. The allocations are those
  of the cache (\<open>ma\<close>, \<open>mp\<close>), of the name (\<open>mn\<close>) and of the stacks (\<open>ms\<close>).
\<close>

definition index_criteria_match ::
    "icu_env \<Rightarrow> (uchar list \<Rightarrow> uchar list list option) \<Rightarrow> bool \<Rightarrow> (nat \<Rightarrow> nat \<Rightarrow> bool) \<Rightarrow> (nat \<Rightarrow> bool) \<Rightarrow> (nat \<Rightarrow> nat \<Rightarrow> bool) \<Rightarrow>
     byte list \<Rightarrow> index_criteria \<Rightarrow> bool \<times> index_criteria" where
  "index_criteria_match icu ubrk ma mp mn ms name ic =
     (if \<not> have_criteria ic \<or> max_filesize_criteria ic = 0 then (False, ic)
      else case glob_patterns ic of
        None \<Rightarrow> (True, ic)
      | Some ps \<Rightarrow>
          (case (if glob_cache ic = None then prepare_glob_cache icu ma mp ps ic else (Inr (), ic)) of
             (Inl e, ic) \<Rightarrow> (True, ic)
           | (Inr _, ic) \<Rightarrow>
               (case pathname_prepare_caseless icu mn name False of
                  Inl e \<Rightarrow> (True, ic)
                | Inr dname \<Rightarrow> (match_any ubrk ms 0 (case glob_cache ic of None \<Rightarrow> [] | Some gs \<Rightarrow> gs) dname, ic))))"

section \<open>The matching loop is globbing\<close>

fun glob :: "uchar list list \<Rightarrow> uchar list list \<Rightarrow> bool" where
  "glob [] f \<longleftrightarrow> f = []"
| "glob (c # p) [] \<longleftrightarrow> c = [0x2a] \<and> glob p []"
| "glob (c # p) (x # f) \<longleftrightarrow> (if c = [0x2a] then glob p (x # f) \<or> glob (c # p) f else (c = [0x3f] \<or> c = x) \<and> glob p f)"

definition glob_any :: "uchar list list \<Rightarrow> uchar list list \<Rightarrow> bool" where
  "glob_any p f \<longleftrightarrow> (\<exists>k. glob p (drop k f))"

lemma glob_any_Nil [simp]: "glob_any p [] \<longleftrightarrow> glob p []"
  by (simp add: glob_any_def)

lemma glob_any_Cons: "glob_any p (x # f) \<longleftrightarrow> glob p (x # f) \<or> glob_any p f"
proof
  assume "glob_any p (x # f)"
  then obtain k where "glob p (drop k (x # f))" by (auto simp: glob_any_def)
  then show "glob p (x # f) \<or> glob_any p f" by (cases k) (auto simp: glob_any_def)
next
  assume "glob p (x # f) \<or> glob_any p f"
  then show "glob_any p (x # f)" unfolding glob_any_def by (metis drop0 drop_Suc_Cons)
qed

lemma glob_asterisk: "glob ([0x2a] # p) f \<longleftrightarrow> glob_any p f"
  by (induction f) (simp_all add: glob_any_Cons)

lemma glob_any_drop: "glob_any p (drop n f) \<Longrightarrow> glob_any p f"
  by (auto simp: glob_any_def)

lemma glob_any_asterisk: "glob_any ([0x2a] # p) f \<longleftrightarrow> glob_any p f"
proof
  assume "glob_any ([0x2a] # p) f"
  then show "glob_any p f" by (auto simp: glob_any_def [of "[42] # p"] glob_asterisk dest: glob_any_drop)
next
  assume "glob_any p f"
  then show "glob_any ([0x2a] # p) f" unfolding glob_any_def [of "[42] # p"] by (intro exI [of _ 0]) (simp add: glob_asterisk)
qed

lemma glob_any_end: "glob_any [] f"
  unfolding glob_any_def by (intro exI [of _ "length f"]) simp

lemma glob_prefix: "[0x2a] \<notin> set seg \<Longrightarrow> glob (seg @ p) f \<Longrightarrow> glob p (drop (length seg) f)"
proof (induction seg arbitrary: f)
  case (Cons c seg)
  then show ?case by (cases f) auto
qed simp

text \<open>
  What the loop still has to decide. Only the newest element of the stack matters: whatever an older one
  would match, the newest one or the current state matches too, because the part of the pattern between
  two asterisks was matched at the earliest place.
\<close>

definition alternative :: "uchar list list \<times> uchar list list \<Rightarrow> bool" where
  "alternative e \<longleftrightarrow> glob_any (fst e) (tl (snd e))"

definition glob_value :: "glob_state \<Rightarrow> bool" where
  "glob_value = (\<lambda>(k, cr, fi, h, stack).
     if h then glob_any cr fi else glob cr fi \<or> (stack \<noteq> [] \<and> alternative (last stack)))"

definition glob_inv :: "glob_state \<Rightarrow> bool" where
  "glob_inv = (\<lambda>(k, cr, fi, h, stack).
     (\<forall>e\<in>set stack. fst e \<noteq> []) \<and> (h \<longrightarrow> cr \<noteq> []) \<and>
     (if h then \<forall>e\<in>set stack. alternative e \<longrightarrow> glob_any cr fi
      else stack \<noteq> [] \<longrightarrow>
        (\<forall>e\<in>set (butlast stack). alternative e \<longrightarrow> glob cr fi \<or> alternative (last stack)) \<and>
        (\<exists>seg. fst (last stack) = seg @ cr \<and> [0x2a] \<notin> set seg \<and> fi = drop (length seg) (snd (last stack)))))"

lemma match_back_ok:
  assumes "\<forall>e\<in>set stack. fst e \<noteq> []" and "\<forall>e\<in>set (butlast stack). alternative e \<longrightarrow> alternative (last stack)"
  shows "case match_back k stack of Inl r \<Rightarrow> r = (stack \<noteq> [] \<and> alternative (last stack))
    | Inr s \<Rightarrow> glob_inv s \<and> glob_value s = (stack \<noteq> [] \<and> alternative (last stack))"
  using assms by (auto simp: match_back_def glob_inv_def glob_value_def alternative_def dest: in_set_butlastD)

lemma alternative_asterisk:
  assumes "fst e = seg @ [0x2a] # p" and "[0x2a] \<notin> set seg" and "fi = drop (length seg) (snd e)" and "alternative e"
  shows "glob_any p fi"
proof -
  obtain j where "glob (seg @ [0x2a] # p) (drop j (tl (snd e)))" using assms(1,4) by (auto simp: alternative_def glob_any_def)
  from glob_prefix [OF assms(2) this] have "glob_any p (drop (length seg) (drop j (tl (snd e))))" by (simp add: glob_asterisk)
  moreover have "drop (length seg) (drop j (tl (snd e))) = drop (Suc j) fi"
    by (simp add: assms(3) drop_Suc [symmetric] drop_drop add.commute)
  ultimately show ?thesis using glob_any_drop by metis
qed

lemma match_step_ok:
  assumes inv: "glob_inv (k, cr, fi, h, stack)" and mem: "\<forall>k. mem k"
  shows "case match_step mem (k, cr, fi, h, stack) of Inl r \<Rightarrow> r = glob_value (k, cr, fi, h, stack)
    | Inr s \<Rightarrow> glob_inv s \<and> glob_value s = glob_value (k, cr, fi, h, stack)"
proof (cases cr)
  case Nil
  then have h: "\<not> h" using inv by (auto simp: glob_inv_def)
  show ?thesis
  proof (cases "fi = []")
    case True
    then show ?thesis using Nil h by (simp add: match_step_def glob_value_def)
  next
    case False
    have "case match_back k stack of Inl r \<Rightarrow> r = (stack \<noteq> [] \<and> alternative (last stack))
        | Inr s \<Rightarrow> glob_inv s \<and> glob_value s = (stack \<noteq> [] \<and> alternative (last stack))"
      using inv Nil h False by (intro match_back_ok) (auto simp: glob_inv_def dest: in_set_butlastD)
    moreover have "glob_value (k, cr, fi, h, stack) = (stack \<noteq> [] \<and> alternative (last stack))"
      "match_step mem (k, cr, fi, h, stack) = match_back k stack"
      using Nil h False by (simp_all add: glob_value_def match_step_def)
    ultimately show ?thesis by (simp only:)
  qed
next
  case c: (Cons c p)
  show ?thesis
  proof (cases "c = [0x2a]")
    case star: True
    have alt: "glob_any p fi" if "e \<in> set stack" "alternative e" for e
    proof (cases h)
      case True
      then show ?thesis using inv that c star by (auto simp: glob_inv_def glob_any_asterisk)
    next
      case False
      then have ne: "stack \<noteq> []" using that by auto
      then obtain seg where seg: "fst (last stack) = seg @ [0x2a] # p" "[0x2a] \<notin> set seg" "fi = drop (length seg) (snd (last stack))"
          "\<forall>e\<in>set (butlast stack). alternative e \<longrightarrow> glob_any p fi \<or> alternative (last stack)"
        using inv False c star by (auto simp: glob_inv_def glob_asterisk)
      have "e \<in> set (butlast stack) \<or> e = last stack" using that(1) ne by (metis append_butlast_last_id in_set_conv_decomp_first rotate1.simps(2) set_ConsD set_rotate1)
      then show ?thesis using seg(4) that(2) alternative_asterisk [OF seg(1-3)] by blast
    qed
    have v: "glob_value (k, cr, fi, h, stack) = glob_any p fi"
      using alt [OF last_in_set] c star by (auto simp: glob_value_def glob_any_asterisk glob_asterisk)
    show ?thesis
    proof (cases "p = []")
      case True
      then show ?thesis using c star v by (simp add: match_step_def glob_any_end)
    next
      case False
      have "\<forall>e\<in>set stack. alternative e \<longrightarrow> glob_any p fi" using alt by blast
      with False show ?thesis using c star v inv by (simp add: match_step_def glob_inv_def glob_value_def)
    qed
  next
    case ns: False
    have pops: "case match_back k stack of Inl r \<Rightarrow> r = glob_value (k, cr, fi, h, stack)
        | Inr s \<Rightarrow> glob_inv s \<and> glob_value s = glob_value (k, cr, fi, h, stack)" if no: "\<not> glob cr fi" "h \<longrightarrow> \<not> glob_any cr fi"
    proof -
      have "glob_value (k, cr, fi, h, stack) = (stack \<noteq> [] \<and> alternative (last stack))"
        using no inv by (auto simp: glob_value_def glob_inv_def)
      moreover have "\<forall>e\<in>set stack. fst e \<noteq> []" using inv by (simp add: glob_inv_def)
      moreover have "\<forall>e\<in>set (butlast stack). alternative e \<longrightarrow> alternative (last stack)"
        using inv no by (cases h) (auto simp: glob_inv_def dest: in_set_butlastD)
      ultimately show ?thesis using match_back_ok [of stack k] by (simp only:)
    qed
    show ?thesis
    proof (cases fi)
      case Nil
      then show ?thesis using pops c ns by (simp add: match_step_def)
    next
      case f: (Cons x f)
      show ?thesis
      proof (cases "c = [0x3f] \<or> c = x")
        case True
        then have g: "glob cr fi = glob p f" using c f ns by simp
        show ?thesis
        proof (cases h)
          case True
          have "last (push_ustack stack (cr, fi)) = (cr, fi)" "set (butlast (push_ustack stack (cr, fi))) \<subseteq> set stack"
            "set (push_ustack stack (cr, fi)) \<subseteq> insert (cr, fi) (set stack)" "push_ustack stack (cr, fi) \<noteq> []"
            by (cases stack; simp add: push_ustack_def)+
          moreover have "alternative (cr, fi) = glob_any cr f" "glob_any cr fi \<longleftrightarrow> glob p f \<or> glob_any cr f"
            using f g by (auto simp: alternative_def glob_any_Cons)
          moreover have "\<exists>seg. cr = seg @ p \<and> [0x2a] \<notin> set seg \<and> f = drop (length seg) fi"
            using c f ns by (intro exI [of _ "[c]"]) auto
          ultimately show ?thesis
            using True \<open>c = [0x3f] \<or> c = x\<close> c f ns mem inv
            by (auto simp: match_step_def glob_inv_def glob_value_def Let_def)
        next
          case False
          have "\<exists>seg. fst (last stack) = seg @ p \<and> [0x2a] \<notin> set seg \<and> f = drop (length seg) (snd (last stack))" if ne: "stack \<noteq> []"
          proof -
            obtain seg where "fst (last stack) = seg @ cr" "[0x2a] \<notin> set seg" "fi = drop (length seg) (snd (last stack))"
              using inv False ne by (auto simp: glob_inv_def)
            then show ?thesis using c f ns by (intro exI [of _ "seg @ [c]"]) (simp, metis drop_Suc list.sel(3) tl_drop)
          qed
          then show ?thesis
            using False \<open>c = [0x3f] \<or> c = x\<close> c f ns inv g by (auto simp: match_step_def glob_inv_def glob_value_def Let_def)
        qed
      next
        case False
        then have no: "\<not> glob cr fi" "glob_any cr fi = glob_any cr f" using c f ns by (auto simp: glob_any_Cons)
        show ?thesis
        proof (cases h)
          case True
          then show ?thesis using False no c f ns inv by (auto simp: match_step_def glob_inv_def glob_value_def Let_def)
        next
          case h: False
          then show ?thesis using pops no(1) False c f ns by (simp add: match_step_def Let_def)
        qed
      qed
    qed
  qed
qed

lemma match_loop_value:
  assumes "\<forall>k. mem k"
  shows "glob_inv st \<Longrightarrow> match_loop mem st = glob_value st"
proof (induction "glob_weight st" arbitrary: st rule: less_induct)
  case less
  obtain k cr fi h stack where st: "st = (k, cr, fi, h, stack)" by (cases st)
  note ok = match_step_ok [OF less.prems [unfolded st] assms]
  show ?case
  proof (cases "match_step mem st")
    case (Inl r)
    then show ?thesis using ok by (subst match_loop.simps) (simp add: st)
  next
    case (Inr s)
    then have "glob_inv s" "glob_value s = glob_value st" using ok by (simp_all add: st)
    moreover have "match_loop mem st = match_loop mem s" using Inr by (subst match_loop.simps) simp
    ultimately show ?thesis using less.hyps [of s] match_step_weight [OF Inr] by simp
  qed
qed

section \<open>Files for the index partition\<close>

text \<open>The break iterator returns the characters of a text: none of them is empty.\<close>

definition ubrk_ok :: "(uchar list \<Rightarrow> uchar list list option) \<Rightarrow> bool" where
  "ubrk_ok ubrk \<longleftrightarrow> (\<forall>s. \<exists>cs. ubrk s = Some cs \<and> concat cs = s \<and> [] \<notin> set cs)"

lemma matches_name_is_glob:
  assumes "ubrk_ok ubrk" and "\<forall>k. mem k"
  shows "matches_name_criteria_caseless ubrk mem criteria filename = Inr (glob (the (ubrk criteria)) (the (ubrk filename)))"
proof -
  obtain cr fi where b: "ubrk criteria = Some cr" "concat cr = criteria" "[] \<notin> set cr" "ubrk filename = Some fi" "concat fi = filename" "[] \<notin> set fi"
    using assms(1) unfolding ubrk_ok_def by metis
  then have e: "criteria = [] \<longleftrightarrow> cr = []" "filename = [] \<longleftrightarrow> fi = []" by (metis concat.simps(1) concat_eq_Nil_conv last_in_set)+
  have "match_loop mem (0, cr, fi, False, []) = glob cr fi"
    using match_loop_value [OF assms(2), of "(0, cr, fi, False, [])"] by (simp add: glob_inv_def glob_value_def)
  then show ?thesis using b e by (auto simp: matches_name_criteria_caseless_def)
qed

lemma prepare_patterns_ok:
  assumes "\<forall>i. \<forall>p\<in>set ps. pathname_prepare_caseless icu (mem i) p False = Inr (caseless p)"
  shows "prepare_patterns icu mem i ps = (Inr (), map caseless ps)"
  using assms by (induction ps arbitrary: i) simp_all

lemma match_any_ok:
  assumes "ubrk_ok ubrk" and "\<forall>i k. mem i k"
  shows "match_any ubrk mem i gs dname \<longleftrightarrow> (\<exists>g\<in>set gs. glob (the (ubrk g)) (the (ubrk dname)))"
proof (induction gs arbitrary: i)
  case (Cons g gs)
  have "matches_name_criteria_caseless ubrk (mem i) g dname = Inr (glob (the (ubrk g)) (the (ubrk dname)))"
    by (rule matches_name_is_glob) (use assms in auto)
  with Cons show ?case by simp
qed simp

text \<open>
  C31. With a limit for the size and a list of patterns, and no failure of memory or of ICU, a file is
  chosen for the index partition exactly when its name matches one of the patterns: compared in the
  caseless form and by character, a question mark stands for any one character and an asterisk for any
  sequence of them. The backtracking of the code always ends, and although its stack forgets all but the
  oldest and the newest position it finds every match.
\<close>

theorem criteria_match_is_glob:
  assumes "have_criteria ic" and "max_filesize_criteria ic \<noteq> 0" and "glob_patterns ic = Some ps" and "glob_cache ic = None"
    and "ubrk_ok ubrk" and "\<forall>i k. ms i k" and "\<forall>i. \<forall>p\<in>set ps. pathname_prepare_caseless icu (mp i) p False = Inr (caseless p)"
    and "pathname_prepare_caseless icu mn name False = Inr (caseless name)"
  shows "fst (index_criteria_match icu ubrk True mp mn ms name ic) \<longleftrightarrow>
    (\<exists>p\<in>set ps. glob (the (ubrk (caseless p))) (the (ubrk (caseless name))))"
proof -
  have "index_criteria_match icu ubrk True mp mn ms name ic =
      (match_any ubrk ms 0 (map caseless ps) (caseless name), ic\<lparr>glob_cache := Some (map caseless ps)\<rparr>)"
    using assms(1-4,8) prepare_patterns_ok [OF assms(7)] by (simp add: index_criteria_match_def prepare_glob_cache_def)
  then show ?thesis using match_any_ok [OF assms(5,6), of 0 "map caseless ps" "caseless name"] by simp
qed

definition one_each :: "uchar list \<Rightarrow> uchar list list option" where
  "one_each s = Some (map (\<lambda>c. [c]) s)"

theorem criteria_match_is_glob_witness:
  "fst (index_criteria_match ascii_icu one_each True (\<lambda>_ _. True) (\<lambda>_. True) (\<lambda>_ _. True) (str ''aXbcb.TXT'')
     \<lparr>have_criteria = True, max_filesize_criteria = 5, glob_patterns = Some [str ''?*b.t*t''], glob_cache = None\<rparr>)"
proof -
  have one: "ubrk_ok one_each" unfolding ubrk_ok_def one_each_def by (auto simp: image_iff) 
  let ?f = "\<lambda>p. map (\<lambda>c. if 0x41 \<le> c \<and> c \<le> 0x5a then c + 0x20 else c) (map ucast p)"
  have prep: "pathname_prepare_caseless ascii_icu mem p False = Inr (?f p)" if "list_all (\<lambda>c. c < 0x80) p" "\<forall>i. mem i" for p mem
    using that by (simp add: pathname_prepare_caseless_def pathname_utf8_to_utf16_icu_def pathname_foldcase_icu_def pathname_normalize_nfd_icu_def icu_out_def comp_def)
  show ?thesis
    by (subst criteria_match_is_glob [where caseless = ?f and ps = "[str ''?*b.t*t'']"])
      (simp_all add: one prep str_def, simp add: one_each_def)
qed


section \<open>Parsing what was printed\<close>

text \<open>The text of a list of rules and a size: the form in which the options are documented.\<close>

fun join_rules :: "byte list list \<Rightarrow> byte list" where
  "join_rules [] = []"
| "join_rules [p] = p"
| "join_rules (p # ps) = p @ colon # join_rules ps"

definition criteria_text :: "byte list list \<Rightarrow> byte list \<Rightarrow> byte list" where
  "criteria_text ps sz = option_text NAME_OPTION @ join_rules ps @ slash # option_text SIZE_OPTION @ sz"

definition rule_ok :: "icu_env \<Rightarrow> byte list \<Rightarrow> bool" where
  "rule_ok icu p \<longleftrightarrow> p \<noteq> [] \<and> colon \<notin> set p \<and> slash \<notin> set p \<and> pathname_validate_file icu p = Some (Inr ())"

definition size_text :: "byte list \<Rightarrow> nat \<Rightarrow> byte list \<Rightarrow> bool" where
  "size_text ds m sz \<longleftrightarrow> ds \<noteq> [] \<and> list_all isdigit ds \<and> (sz = ds \<and> m = 1 \<or> (\<exists>c. sz = ds @ [c] \<and> isalpha c \<and> size_multiplier c = Some m))"

lemma option_text_simps: "length (option_text opt) = 5" "slash \<notin> set (option_text opt)" "option_text opt \<noteq> []"
  by (cases opt; simp add: option_text_def)+

lemma starts_option [simp]:
  "starts_nocase (option_text opt) (option_text opt @ s)"
  "\<not> starts_nocase (option_text SIZE_OPTION) (option_text NAME_OPTION @ s)"
  "\<not> starts_nocase (option_text NAME_OPTION) (option_text SIZE_OPTION @ s)"
  "\<not> starts_nocase (option_text opt) (slash # s)"
  by (cases opt; simp add: starts_nocase_def option_text_def tolower_def)+

lemma find_walk_none: "p \<noteq> slash \<Longrightarrow> slash \<notin> set s \<Longrightarrow> find_walk sub p s = None"
  by (induction s arbitrary: p) auto

lemma find_walk_skip: "p \<noteq> slash \<Longrightarrow> slash \<notin> set a \<Longrightarrow> find_walk sub p (a @ slash # b) = find_walk sub slash b"
  by (induction a arbitrary: p) auto

lemma find_walk_start: "s \<noteq> [] \<Longrightarrow> find_walk sub slash s = (if starts_nocase sub s then Some s else find_walk sub (hd s) (tl s))"
  by (cases s) auto

lemma find_option_step:
  assumes "\<not> length s < 5" and "find_start (option_text opt) s = Some t"
  shows "index_criteria_find_option opt s = (case index_criteria_find_option opt (dropWhile (\<lambda>c. c \<noteq> slash) t) of
    Found _ \<Rightarrow> Duplicate | _ \<Rightarrow> Found (takeWhile (\<lambda>c. c \<noteq> slash) t))"
  using assms by (subst index_criteria_find_option.simps) (simp del: dropWhile.simps)

lemma find_single:
  assumes "slash \<notin> set b"
  shows "index_criteria_find_option opt (slash # option_text opt' @ b) =
    (if opt = opt' then Found (option_text opt' @ b) else Not_found)"
proof -
  let ?t = "option_text opt' @ b"
  have t: "?t \<noteq> []" "slash \<notin> set ?t" "hd ?t \<noteq> slash" "slash \<notin> set (tl ?t)"
    using assms option_text_simps [of opt'] by (cases opt'; simp add: option_text_def)+
  have "find_start (option_text opt) (slash # ?t) = (if opt = opt' then Some ?t else None)"
    using t by (cases opt; cases opt') (simp_all add: find_start_def find_walk_start find_walk_none)
  moreover have dt: "dropWhile (\<lambda>c. c \<noteq> slash) ?t = []" "takeWhile (\<lambda>c. c \<noteq> slash) ?t = ?t" using t(2) by auto
  moreover have e: "index_criteria_find_option opt [] = Not_found" by (subst index_criteria_find_option.simps) simp
  moreover have l: "\<not> length (slash # ?t) < 5" by (simp add: option_text_simps)
  ultimately show ?thesis
  proof (cases "opt = opt'")
    case True
    then have "find_start (option_text opt) (slash # ?t) = Some ?t" using \<open>find_start _ _ = _\<close> by simp
    from find_option_step [OF l this] show ?thesis unfolding dt e using True by simp
  qed (subst index_criteria_find_option.simps, simp)
qed

lemma find_only:
  assumes "slash \<notin> set b"
  shows "index_criteria_find_option opt (option_text opt' @ b) = (if opt = opt' then Found (option_text opt' @ b) else Not_found)"
proof -
  let ?t = "option_text opt' @ b"
  have t: "?t \<noteq> []" "slash \<notin> set ?t" "hd ?t \<noteq> slash" "slash \<notin> set (tl ?t)"
    using assms option_text_simps [of opt'] by (cases opt'; simp add: option_text_def)+
  have st: "find_start (option_text opt) ?t = (if opt = opt' then Some ?t else None)"
    using t by (cases opt; cases opt') (simp_all add: find_start_def find_walk_none)
  have dt: "dropWhile (\<lambda>c. c \<noteq> slash) ?t = []" "takeWhile (\<lambda>c. c \<noteq> slash) ?t = ?t" using t(2) by auto
  have e: "index_criteria_find_option opt [] = Not_found" by (subst index_criteria_find_option.simps) simp
  have l: "\<not> length ?t < 5" by (simp add: option_text_simps)
  show ?thesis
  proof (cases "opt = opt'")
    case True
    then have "find_start (option_text opt) ?t = Some ?t" using st by simp
    from find_option_step [OF l this] show ?thesis unfolding dt e using True by simp
  qed (subst index_criteria_find_option.simps, simp add: st)
qed

lemma find_first:
  assumes "slash \<notin> set a"
  shows "index_criteria_find_option opt (option_text opt @ a @ slash # s) =
    (case index_criteria_find_option opt (slash # s) of Found _ \<Rightarrow> Duplicate | _ \<Rightarrow> Found (option_text opt @ a))"
proof -
  have dt: "dropWhile (\<lambda>c. c \<noteq> slash) (option_text opt @ a @ slash # s) = slash # s"
    "takeWhile (\<lambda>c. c \<noteq> slash) (option_text opt @ a @ slash # s) = option_text opt @ a"
    using assms option_text_simps(2) [of opt] by (auto simp: dropWhile_append takeWhile_append)
  have "\<not> length (option_text opt @ a @ slash # s) < 5"
    "find_start (option_text opt) (option_text opt @ a @ slash # s) = Some (option_text opt @ a @ slash # s)"
    by (simp_all add: find_start_def option_text_simps)
  from find_option_step [OF this] show ?thesis unfolding dt .
qed

lemma find_second:
  assumes "slash \<notin> set a" and "opt \<noteq> opt'" and "4 \<le> length s"
  shows "index_criteria_find_option opt (option_text opt' @ a @ slash # s) = index_criteria_find_option opt (slash # s)"
proof -
  obtain c cs where c: "option_text opt' = c # cs" "c \<noteq> slash" "slash \<notin> set cs"
    by (cases opt') (simp_all add: option_text_def)
  have "\<not> starts_nocase (option_text opt) (option_text opt' @ a @ slash # s)" using assms(2) by (cases opt; cases opt') simp_all
  then have "find_start (option_text opt) (option_text opt' @ a @ slash # s) = find_start (option_text opt) (slash # s)"
    using c assms(1) find_walk_skip [of c "cs @ a" "option_text opt" s] by (simp add: find_start_def)
  then show ?thesis
    using assms(3) by (subst (1 2) index_criteria_find_option.simps) (simp add: option_text_simps)
qed

lemma join_rules_colon:
  assumes "\<forall>p\<in>set ps. p \<noteq> [] \<and> colon \<notin> set p" and "j < length (join_rules ps)" and "join_rules ps ! j = colon"
  shows "0 < j \<and> Suc j < length (join_rules ps) \<and> join_rules ps ! (j - 1) \<noteq> colon"
  using assms
proof (induction ps arbitrary: j rule: join_rules.induct)
  case (2 p)
  then show ?case by (auto simp: in_set_conv_nth)
next
  case (3 p q qs)
  let ?J = "join_rules (q # qs)"
  have ne: "?J \<noteq> []" using 3(2) by (cases qs) auto
  consider "j < length p" | "j = length p" | "length p < j" by linarith
  then show ?case
  proof cases
    case 1
    then show ?thesis using 3(2,4) by (auto simp: nth_append in_set_conv_nth)
  next
    case 2
    then show ?thesis using 3(2) ne by (auto simp: nth_append in_set_conv_nth neq_Nil_conv)
  next
    case more: 3
    let ?i = "j - length p - 1"
    have i: "?i < length ?J" "?J ! ?i = colon" using more 3(3,4) by (auto simp: nth_append nth_Cons')
    then have "0 < ?i \<and> Suc ?i < length ?J \<and> ?J ! (?i - 1) \<noteq> colon" by (intro 3(1)) (use 3(2) i in simp_all)
    then show ?thesis using more by (auto simp: nth_append nth_Cons')
  qed
qed simp

lemma join_rules_no_slash: "\<forall>p\<in>set ps. slash \<notin> set p \<Longrightarrow> slash \<notin> set (join_rules ps)"
  by (induction ps rule: join_rules.induct) auto

lemma join_rules_ne: "ps \<noteq> [] \<Longrightarrow> \<forall>p\<in>set ps. p \<noteq> [] \<Longrightarrow> join_rules ps \<noteq> []"
  by (induction ps rule: join_rules.induct) auto

lemma assign_rules_colon: "colon \<notin> set p \<Longrightarrow> assign_rules r (p @ colon # cs) = (r @ p) # assign_rules [] cs"
  by (induction p arbitrary: r) auto

lemma assign_rules_last: "colon \<notin> set p \<Longrightarrow> p \<noteq> [] \<Longrightarrow> assign_rules r p = [r @ p]"
  by (induction p arbitrary: r) auto

lemma assign_join: "\<forall>p\<in>set ps. p \<noteq> [] \<and> colon \<notin> set p \<Longrightarrow> ps \<noteq> [] \<Longrightarrow> assign_rules [] (join_rules ps) = ps"
  by (induction ps rule: join_rules.induct) (auto simp: assign_rules_colon assign_rules_last)

lemma parse_name_ok:
  assumes "ps \<noteq> []" and "\<forall>p\<in>set ps. rule_ok icu p" and "\<forall>i. mem i"
  shows "index_criteria_parse_name icu mem (option_text NAME_OPTION @ join_rules ps) ic = Some (Inr (), ic\<lparr>glob_patterns := Some ps\<rparr>)"
proof -
  let ?t = "option_text NAME_OPTION @ join_rules ps"
  have p: "\<forall>p\<in>set ps. p \<noteq> [] \<and> colon \<notin> set p" using assms(2) by (simp add: rule_ok_def)
  then have ne: "join_rules ps \<noteq> []" using assms(1) join_rules_ne by blast
  have nth: "?t ! (j + 5) = join_rules ps ! j" for j by (simp add: nth_append option_text_simps)
  have col: "0 < j \<and> Suc j < length (join_rules ps) \<and> join_rules ps ! (j - 1) \<noteq> colon" if "j < length (join_rules ps)" "join_rules ps ! j = colon" for j
    using join_rules_colon [OF p that] .
  have "\<not> empty_rule ?t"
  proof
    assume "empty_rule ?t"
    then consider "?t ! 5 = colon" | i where "6 \<le> i" "i < length ?t" "?t ! i = colon" "?t ! (i - 1) = colon \<or> Suc i = length ?t" "5 \<le> i"
      unfolding empty_rule_def list_ex_iff by auto
    moreover have "5 < length ?t" using ne by (simp add: option_text_simps)
    ultimately obtain i where i: "5 \<le> i" "i < length ?t" "?t ! i = colon" "i = 5 \<or> ?t ! (i - 1) = colon \<or> Suc i = length ?t"
      by cases (blast intro: order_refl)+
    define j where "j = i - 5"
    have j: "j < length (join_rules ps)" "join_rules ps ! j = colon" using i(1-3) nth [of j] by (auto simp: j_def option_text_simps)
    have "?t ! (i - 1) = join_rules ps ! (j - 1)" if "0 < j" using nth [of "j - 1"] that i(1) by (simp add: j_def)
    then show False using col [OF j] i(4) by (auto simp: j_def option_text_simps)
  qed
  moreover have "dup_rules mem k qs = qs" for k qs using assms(3) by (induction qs arbitrary: k) simp_all
  moreover have "validate_rules icu ps = Some (Inr ())" using assms(2) by (induction ps) (simp_all add: rule_ok_def)
  ultimately show ?thesis
    using assms(3) ne assign_join [OF p assms(1)] by (simp add: index_criteria_parse_name_def option_text_simps)
qed

lemma digit_not_alpha: "isdigit c \<Longrightarrow> \<not> isalpha c"
  unfolding isdigit_def isalpha_def by (auto simp: word_le_nat_alt)

lemma two_letters_digits: "list_all isdigit ds \<Longrightarrow> two_letters (ds @ s) \<Longrightarrow> length s \<le> 1 \<Longrightarrow> False"
proof (induction ds)
  case Nil
  then show ?case by (cases s rule: two_letters.cases) auto
next
  case (Cons d ds)
  then show ?case by (cases "ds @ s") (auto simp: digit_not_alpha)
qed

lemma parse_size_ok:
  assumes "size_text ds m sz" and "digits_value ds * m < U64"
  shows "index_criteria_parse_size (option_text SIZE_OPTION @ sz) ic = (Inr (), ic\<lparr>max_filesize_criteria := digits_value ds * m\<rparr>)"
proof -
  have ds: "ds \<noteq> []" "list_all isdigit ds" using assms(1) by (simp_all add: size_text_def)
  have m: "0 < m" using assms(1) by (auto simp: size_text_def size_multiplier_def split: if_splits)
  have dg: "isdigit (hd ds)" "isdigit (last ds)" using ds by (auto simp: list_all_iff)
  have tw: "takeWhile isdigit ds = ds" using ds(2) by (simp add: list_all_iff takeWhile_eq_all_conv)
  have "digits_value ds * 1 \<le> digits_value ds * m" by (rule mult_le_mono2) (use m in simp)
  then have "digits_value ds \<le> U64 - 1" using assms(2) by linarith
  then have "strtoull ds = digits_value ds" unfolding strtoull_def tw by (rule min_absorb2)
  then have num: "parse_number ds m = Inr (digits_value ds * m)" using ds(1) dg(1) assms(2) by (simp add: parse_number_def)
  have two: "\<not> two_letters sz" using assms(1) two_letters_digits [of ds "drop (length ds) sz"] ds(2) by (auto simp: size_text_def)
  have sz: "sz \<noteq> []" "isalpha (last sz) \<longrightarrow> size_multiplier (last sz) = Some m \<and> butlast sz = ds" "\<not> isalpha (last sz) \<longrightarrow> sz = ds \<and> m = 1"
    using assms(1) dg(2) digit_not_alpha ds(1) by (auto simp: size_text_def)
  have d: "drop 5 (option_text SIZE_OPTION @ sz) = sz" by (simp add: option_text_simps)
  show ?thesis
    unfolding index_criteria_parse_size_def Let_def d using two sz num by (cases "isalpha (last sz)") auto
qed

text \<open>
  C38. Index criteria that are written in the documented form, a list of file name patterns separated by
  colons and a size in digits with an optional unit, are parsed to exactly these patterns and this size,
  as long as the patterns are valid names and the size fits in 64 bits.
\<close>

theorem criteria_parse_text:
  assumes "ps \<noteq> []" and "\<forall>p\<in>set ps. rule_ok icu p" and "\<forall>i. mem i" and "size_text ds m sz" and "digits_value ds * m < U64"
  shows "index_criteria_parse icu mem (Some (criteria_text ps sz)) ic =
    Some (Inr (), \<lparr>have_criteria = True, max_filesize_criteria = digits_value ds * m, glob_patterns = Some ps,
      glob_cache = (if have_criteria ic then None else glob_cache ic)\<rparr>)"
proof -
  let ?a = "join_rules ps" and ?s = "option_text SIZE_OPTION @ sz"
  have a: "slash \<notin> set ?a" using assms(2) join_rules_no_slash by (auto simp: rule_ok_def)
  have dg: "slash \<notin> set ds" using assms(4) by (auto simp: size_text_def list_all_iff isdigit_def)
  then have z: "slash \<notin> set sz" using assms(4) by (auto simp: size_text_def isalpha_def)
  have t: "criteria_text ps sz = option_text NAME_OPTION @ ?a @ slash # ?s" by (simp add: criteria_text_def)
  have sep: "check_separators (u @ slash # v) = (if valid_option v then check_separators v else True)" if "slash \<notin> set u" for u v
    using that by (induction u) auto
  have nosep: "\<not> check_separators u" if "slash \<notin> set u" for u using that by (induction u) auto
  obtain c cs where nm: "option_text NAME_OPTION = c # cs" "slash \<notin> set cs" by (simp add: option_text_def)
  have nos: "slash \<notin> set ?s" using z option_text_simps(2) by simp
  have "valid_option ?s" "valid_option (criteria_text ps sz)" by (simp_all add: valid_option_def t)
  then have valid: "\<not> index_criteria_contains_invalid_options (Some (criteria_text ps sz))"
    using sep [of "cs @ ?a" ?s] nosep [OF nos] a nm
    by (simp add: index_criteria_contains_invalid_options_def t) (simp add: option_text_def)
  have "index_criteria_find_option NAME_OPTION (criteria_text ps sz) = Found (option_text NAME_OPTION @ ?a)"
    unfolding t find_first [OF a] find_single [OF z] by simp
  moreover have "index_criteria_find_option SIZE_OPTION (criteria_text ps sz) = Found ?s"
    unfolding t using find_second [OF a, of SIZE_OPTION NAME_OPTION ?s] find_single [OF z, of SIZE_OPTION SIZE_OPTION] by (simp add: option_text_simps)
  ultimately show ?thesis
    using valid parse_name_ok [OF assms(1-3)] parse_size_ok [OF assms(4,5)]
    by (simp add: index_criteria_parse_def index_criteria_free_def Let_def)
qed


theorem criteria_parse_text_witness:
  "index_criteria_parse ascii_icu (\<lambda>_. True) (Some (criteria_text [str ''*.xml'', str ''a?''] (str ''12k'')))
     \<lparr>have_criteria = False, max_filesize_criteria = 0, glob_patterns = None, glob_cache = None\<rparr> =
   Some (Inr (), \<lparr>have_criteria = True, max_filesize_criteria = 12288, glob_patterns = Some [str ''*.xml'', str ''a?''], glob_cache = None\<rparr>)"
proof -
  have v: "rule_ok ascii_icu (str ''*.xml'')" "rule_ok ascii_icu (str ''a?'')"
    by (simp_all add: rule_ok_def str_def pathname_validate_file_def lead_def LTFS_FILENAME_MAX_def pathname_validate.simps pathname_valid_in_xml_def)
  have sz: "size_text (str ''12'') 1024 (str ''12k'')"
    unfolding size_text_def by (intro conjI disjI2 exI [of _ "0x6b"]) (simp_all add: str_def isdigit_def isalpha_def size_multiplier_def)
  have n: "digits_value (str ''12'') = 12" by (simp add: digits_value_def str_def)
  show ?thesis
    using criteria_parse_text [of "[str ''*.xml'', str ''a?'']" ascii_icu "\<lambda>_. True" "str ''12''" 1024 "str ''12k''"] v sz n
    by (simp add: U64_def)
qed

text \<open>
  Two options of the same kind are rejected, three are not: the search for a further option reports
  a double one by not finding it, and the caller takes that for the absence of one.
\<close>

theorem criteria_three_sizes_accepted:
  assumes "slash \<notin> set a" and "slash \<notin> set b" and "slash \<notin> set c"
  shows "index_criteria_find_option opt (option_text opt @ a @ slash # option_text opt @ b) = Duplicate \<and>
    index_criteria_find_option opt (option_text opt @ a @ slash # option_text opt @ b @ slash # option_text opt @ c) = Found (option_text opt @ a)"
proof -
  let ?s = "option_text opt @ b @ slash # option_text opt @ c"
  have 1: "index_criteria_find_option opt (slash # ?s) = Duplicate"
  proof -
    have st: "find_start (option_text opt) (slash # ?s) = Some ?s" by (simp add: find_start_def find_walk_start option_text_simps)
    have l: "\<not> length (slash # ?s) < 5" by (simp add: option_text_simps)
    have dt: "dropWhile (\<lambda>c. c \<noteq> slash) ?s = slash # option_text opt @ c"
      using assms(2) option_text_simps(2) [of opt] by (auto simp: dropWhile_append)
    show ?thesis using find_option_step [OF l st] unfolding dt find_single [OF assms(3)] by simp
  qed
  show ?thesis unfolding find_first [OF assms(1)] find_single [OF assms(2)] 1 by simp
qed

theorem criteria_three_sizes_accepted_witness:
  "index_criteria_find_option SIZE_OPTION (str ''size=1/size=2'') = Duplicate \<and>
   index_criteria_find_option SIZE_OPTION (str ''size=1/size=2/size=3'') = Found (str ''size=1'')"
  using criteria_three_sizes_accepted [of "str ''1''" "str ''2''" "str ''3''" SIZE_OPTION] by (simp add: str_def option_text_def)

text \<open>
  A size option without a value makes the parser read the byte in front of its buffer, and a name
  option without a value makes it read behind the end of the text.
\<close>

theorem criteria_empty_value_out_of_bounds:
  "index_criteria_parse icu mem (Some (str ''size='')) ic =
     Some (Inl OUT_OF_BOUNDS, (index_criteria_free ic)\<lparr>have_criteria := True, max_filesize_criteria := 0\<rparr>) \<and>
   index_criteria_parse icu mem (Some (str ''name=/size=1'')) ic =
     Some (Inl OUT_OF_BOUNDS, (index_criteria_free ic)\<lparr>have_criteria := True\<rparr>)"
proof
  have t: "str ''size='' = option_text SIZE_OPTION @ []" by (simp add: str_def option_text_def)
  have "index_criteria_find_option NAME_OPTION (str ''size='') = Not_found" "index_criteria_find_option SIZE_OPTION (str ''size='') = Found (str ''size='')"
    unfolding t by (simp_all only: find_only [of "[]"] list.set empty_iff not_False_eq_True criteria_option.distinct if_True if_False simp_thms)
  moreover have "\<not> index_criteria_contains_invalid_options (Some (str ''size=''))"
    by (simp add: index_criteria_contains_invalid_options_def valid_option_def starts_nocase_def option_text_def str_def tolower_def)
  moreover have "index_criteria_parse_size (str ''size='') ic' = (Inl OUT_OF_BOUNDS, ic')" for ic'
    by (simp add: index_criteria_parse_size_def str_def)
  ultimately show "index_criteria_parse icu mem (Some (str ''size='')) ic =
      Some (Inl OUT_OF_BOUNDS, (index_criteria_free ic)\<lparr>have_criteria := True, max_filesize_criteria := 0\<rparr>)"
    by (simp add: index_criteria_parse_def Let_def)
  have t2: "str ''name=/size=1'' = option_text NAME_OPTION @ [] @ slash # option_text SIZE_OPTION @ str ''1''"
    by (simp add: str_def option_text_def)
  have "index_criteria_find_option NAME_OPTION (str ''name=/size=1'') = Found (option_text NAME_OPTION)"
    unfolding t2 by (subst find_first) (simp_all add: find_single str_def)
  moreover have "\<not> index_criteria_contains_invalid_options (Some (str ''name=/size=1''))"
    by (simp add: index_criteria_contains_invalid_options_def valid_option_def starts_nocase_def option_text_def str_def tolower_def)
  ultimately show "index_criteria_parse icu mem (Some (str ''name=/size=1'')) ic =
      Some (Inl OUT_OF_BOUNDS, (index_criteria_free ic)\<lparr>have_criteria := True\<rparr>)"
    by (simp add: index_criteria_parse_def Let_def index_criteria_parse_name_def option_text_simps)
qed

text \<open>
  A name that cannot be prepared for the comparison is reported as a match: the function returns the
  negative error code, which is true as a \<^verbatim>\<open>bool\<close>, so that the file is chosen for the index partition.
\<close>

theorem criteria_match_error_is_true:
  assumes "have_criteria ic" and "max_filesize_criteria ic \<noteq> 0" and "glob_patterns ic = Some ps" and "glob_cache ic = Some gs"
    and "pathname_prepare_caseless icu mn name False = Inl e"
  shows "index_criteria_match icu ubrk ma mp mn ms name ic = (True, ic)"
  using assms by (simp add: index_criteria_match_def)

theorem criteria_match_error_is_true_witness:
  "fst (index_criteria_match ascii_icu one_each True (\<lambda>_ _. True) (\<lambda>_. True) (\<lambda>_ _. True) [0xff]
     \<lparr>have_criteria = True, max_filesize_criteria = 5, glob_patterns = Some [str ''a''], glob_cache = Some [[0x61]]\<rparr>)"
proof -
  have "pathname_prepare_caseless ascii_icu (\<lambda>_. True) [0xff] False = Inl LTFS_ICU_ERROR"
    by (simp add: pathname_prepare_caseless_def pathname_utf8_to_utf16_icu_def icu_out_def)
  then show ?thesis
    by (subst criteria_match_error_is_true [where e = LTFS_ICU_ERROR and ps = "[str ''a'']" and gs = "[[0x61]]"]) simp_all
qed


end
