(* ===== verification/Ltfs_Fs.thy ===== *)
theory Ltfs_Fs
  imports Ltfs_Extent Ltfs_Criteria "HOL-Library.Monad_Syntax" "HOL-Library.Multiset"
begin

text \<open>
  The tree of files and directories: \<^verbatim>\<open>libltfs/fs.c\<close>. The dentries are a store from addresses to
  structures; a freed dentry is \<open>None\<close>. The reader-writer locks are those that the calling thread holds. A
  function returns \<open>None\<close> when its behaviour is undefined or it never returns: an access to a freed
  dentry, the release of a lock that is not held or the destruction of one that is, and the acquisition of
  a lock that the same thread holds already. The uthash tables of the children are association lists in
  the order of insertion, as the iteration macros deliver them.
\<close>

section \<open>Dentries, the index and the locks\<close>

type_synonym dptr = nat

record node = dentry +
  d_name :: "byte list option"
  platform_safe_name :: "byte list option"
  isdir :: bool
  isslink :: bool
  target :: "byte list option"
  d_readonly :: bool
  deleted :: bool
  out_of_sync :: bool
  matches_name_criteria :: bool
  need_update_time :: bool
  numhandles :: nat
  link_count :: nat
  uid :: nat
  ino :: nat
  used_blocks :: nat
  creation_time :: ltfs_timespec
  backup_time :: ltfs_timespec
  parent :: "dptr option"
  child_list :: "(byte list \<times> dptr) list"
  xattrlist :: "(byte list \<times> byte list) list"

datatype lock = Volume | Rename | Contents dptr | Meta dptr

datatype held = Free | Rd nat | Wr

text \<open>
  \<open>fresh_dentry\<close>: the next address that the allocator hands out. \<open>inode_number\<close> is the counter of the
  process; \<open>root\<close>, \<open>uid_number\<close>, \<open>file_count\<close>, \<open>valid_blocks\<close> and \<open>criteria\<close> are fields of \<^verbatim>\<open>struct ltfs_index\<close>.
\<close>

record fs =
  dentries :: "dptr \<Rightarrow> node option"
  fresh_dentry :: dptr
  inode_number :: nat
  root :: dptr
  uid_number :: nat
  file_count :: nat
  valid_blocks :: nat
  criteria :: index_criteria
  locks :: "lock \<Rightarrow> held"

definition hold :: "lock \<Rightarrow> held \<Rightarrow> fs \<Rightarrow> fs" where
  "hold l m s = s\<lparr>locks := (locks s)(l := m)\<rparr>"

definition acquireread_mrsw :: "lock \<Rightarrow> fs \<Rightarrow> fs option" where
  "acquireread_mrsw l s = (case locks s l of Free \<Rightarrow> Some (hold l (Rd 1) s) | Rd n \<Rightarrow> Some (hold l (Rd (Suc n)) s) | Wr \<Rightarrow> None)"

definition acquirewrite_mrsw :: "lock \<Rightarrow> fs \<Rightarrow> fs option" where
  "acquirewrite_mrsw l s = (if locks s l = Free then Some (hold l Wr s) else None)"

definition releaseread_mrsw :: "lock \<Rightarrow> fs \<Rightarrow> fs option" where
  "releaseread_mrsw l s =
     (case locks s l of Rd n \<Rightarrow> if n = 1 then Some (hold l Free s) else Some (hold l (Rd (n - 1)) s) | _ \<Rightarrow> None)"

definition releasewrite_mrsw :: "lock \<Rightarrow> fs \<Rightarrow> fs option" where
  "releasewrite_mrsw l s = (if locks s l = Wr then Some (hold l Free s) else None)"

text \<open>\<^verbatim>\<open>release_mrsw\<close> releases whichever mode is held, \<^verbatim>\<open>writetoread_mrsw\<close> turns the write mode into the read mode.\<close>

definition release_mrsw :: "lock \<Rightarrow> fs \<Rightarrow> fs option" where
  "release_mrsw l s = (if locks s l = Wr then releasewrite_mrsw l s else releaseread_mrsw l s)"

definition writetoread_mrsw :: "lock \<Rightarrow> fs \<Rightarrow> fs option" where
  "writetoread_mrsw l s = (if locks s l = Wr then Some (hold l (Rd 1) s) else None)"

text \<open>An assignment to a dentry: \<open>change\<close> fails for a dangling pointer, \<open>alter\<close> is its effect.\<close>

definition alter :: "dptr \<Rightarrow> (node \<Rightarrow> node) \<Rightarrow> fs \<Rightarrow> fs" where
  "alter p f s = s\<lparr>dentries := (dentries s)(p := map_option f (dentries s p))\<rparr>"

definition change :: "dptr \<Rightarrow> (node \<Rightarrow> node) \<Rightarrow> fs \<Rightarrow> fs option" where
  "change p f s = (if dentries s p = None then None else Some (alter p f s))"

definition free_dentry :: "dptr \<Rightarrow> fs \<Rightarrow> fs" where
  "free_dentry p s = s\<lparr>dentries := (dentries s)(p := None)\<rparr>"

text \<open>The reference and link counters are unsigned with 32 bits.\<close>

definition inc32 :: "nat \<Rightarrow> nat" where "inc32 n = to32 (n + 1)"
definition dec32 :: "nat \<Rightarrow> nat" where "dec32 n = to32 (n + (U32 - 1))"

abbreviation inc_handles :: "node \<Rightarrow> node" where "inc_handles \<equiv> numhandles_update inc32"
abbreviation dec_handles :: "node \<Rightarrow> node" where "dec_handles \<equiv> numhandles_update dec32"

section \<open>The hash tables of names\<close>

definition hash_find :: "byte list \<Rightarrow> (byte list \<times> dptr) list \<Rightarrow> dptr option" where
  "hash_find k l = map_of (rev l) k"

definition hash_del :: "byte list \<Rightarrow> dptr \<Rightarrow> (byte list \<times> dptr) list \<Rightarrow> (byte list \<times> dptr) list" where
  "hash_del k p l = remove1 (k, p) l"

text \<open>
  Adding a name: \<open>mem\<close> are the allocations of the entry, the key and the table. An empty table that cannot
  be made stays empty; one that cannot be extended has the new entry, and the error is reported all the
  same. When the key cannot be copied nothing is added, and no error is reported.
\<close>

definition fs_add_key_to_hash_table ::
    "(nat \<Rightarrow> bool) \<Rightarrow> (byte list \<times> dptr) list \<Rightarrow> byte list \<Rightarrow> dptr \<Rightarrow> (unit, (byte list \<times> dptr) list) result" where
  "fs_add_key_to_hash_table mem l name p =
     (if \<not> mem 0 then (Inl LTFS_NO_MEMORY, l)
      else if \<not> mem 1 then (Inr (), l)
      else if mem 2 then (Inr (), l @ [(name, p)])
      else (Inl LTFS_NO_MEMORY, if l = [] then [] else l @ [(name, p)]))"

text \<open>\<open>mem\<close>: the key can be copied; without it nothing is found.\<close>

definition fs_find_key_from_hash_table :: "bool \<Rightarrow> (byte list \<times> dptr) list \<Rightarrow> byte list \<Rightarrow> dptr option" where
  "fs_find_key_from_hash_table mem l name = (if mem then hash_find name l else None)"

definition fs_increment_file_count :: "fs \<Rightarrow> fs" where
  "fs_increment_file_count s = s\<lparr>file_count := add64 (file_count s) 1\<rparr>"

definition fs_decrement_file_count :: "fs \<Rightarrow> fs" where
  "fs_decrement_file_count s = s\<lparr>file_count := sub64 (file_count s) 1\<rparr>"

definition fs_allocate_uid :: "fs \<Rightarrow> nat \<times> fs" where
  "fs_allocate_uid s =
     (if uid_number s = 0 then (0, s) else let u = add64 (uid_number s) 1 in (u, s\<lparr>uid_number := u\<rparr>))"

section \<open>Allocation\<close>

text \<open>
  The two names of a new dentry from the two arguments; \<open>mem1\<close> and \<open>mem2\<close> are the copies. The result is
  \<open>None\<close> when a copy fails.
\<close>

definition new_names ::
    "bool \<Rightarrow> bool \<Rightarrow> byte list option \<Rightarrow> byte list option \<Rightarrow> (byte list option \<times> byte list option) option" where
  "new_names mem1 mem2 name psn =
     (if name = None \<and> psn = None then Some (None, None)
      else if mem1 \<and> mem2
      then Some (if name \<noteq> None then name else psn, if psn \<noteq> None then psn else name)
      else None)"

definition blank_node :: node where
  "blank_node = \<lparr>extentlist = [], size = 0, realsize = 0, extents_dirty = False,
     modify_time = (0, 0), change_time = (0, 0), access_time = (0, 0),
     d_name = None, platform_safe_name = None, isdir = False, isslink = False, target = None, d_readonly = False,
     deleted = False, out_of_sync = False, matches_name_criteria = False, need_update_time = False,
     numhandles = 0, link_count = 0, uid = 0, ino = 0, used_blocks = 0,
     creation_time = (0, 0), backup_time = (0, 0), parent = None, child_list = [], xattrlist = []\<rparr>"

text \<open>
  \<open>mem\<close>: the allocation of the dentry, of the two names, the initialisation of the two locks and of the
  mutex, and (from 6 on) those of the hash table.
\<close>

definition fs_allocate_dentry ::
    "(nat \<Rightarrow> bool) \<Rightarrow> dptr option \<Rightarrow> byte list option \<Rightarrow> byte list option \<Rightarrow> bool \<Rightarrow> bool \<Rightarrow> bool \<Rightarrow> fs \<Rightarrow>
     (dptr option \<times> fs) option" where
  "fs_allocate_dentry mem par name psn dir readonly allocate_uid s =
     (if \<not> mem 0 then Some (None, s)
      else case new_names (mem 1) (mem 2) name psn of
        None \<Rightarrow> Some (None, s)
      | Some (nm, ps) \<Rightarrow>
          (let s = s\<lparr>inode_number := add64 (inode_number s) 1\<rparr>;
               (u, s) = (if allocate_uid then fs_allocate_uid s else (1, s));
               d = blank_node\<lparr>parent := par, d_name := nm, platform_safe_name := ps, isdir := dir, d_readonly := readonly,
                     numhandles := 1, link_count := (if dir then 1 else 0), ino := inode_number s, uid := u\<rparr>;
               p = fresh_dentry s
           in if u = 0 then Some (None, s)
              else if \<not> mem 3 \<or> \<not> mem 4 \<or> \<not> mem 5 then Some (None, s)
              else let s = s\<lparr>dentries := (dentries s)(p := Some d), fresh_dentry := p + 1\<rparr> in
                case par of
                  None \<Rightarrow> Some (Some p, s)
                | Some q \<Rightarrow> do {
                    s \<leftarrow> acquirewrite_mrsw (Contents q) s;
                    s \<leftarrow> acquirewrite_mrsw (Meta q) s;
                    qn \<leftarrow> dentries s q;
                    let (r, cl) = (case ps of None \<Rightarrow> (Inr (), child_list qn)
                                   | Some k \<Rightarrow> fs_add_key_to_hash_table (\<lambda>i. mem (6 + i)) (child_list qn) k p);
                    s \<leftarrow> change q (child_list_update (\<lambda>_. cl)) s;
                    case r of
                      Inl e \<Rightarrow> do {
                        s \<leftarrow> releasewrite_mrsw (Meta q) s;
                        s \<leftarrow> releasewrite_mrsw (Contents q) s;
                        Some (None, free_dentry p s)}
                    | Inr _ \<Rightarrow> do {
                        s \<leftarrow> change p (link_count_update inc32) s;
                        s \<leftarrow> (if dir then change q (link_count_update inc32) s else Some s);
                        s \<leftarrow> releasewrite_mrsw (Meta q) s;
                        s \<leftarrow> releasewrite_mrsw (Contents q) s;
                        Some (Some p, if dir then s else fs_increment_file_count s)}}))"

section \<open>Release\<close>

text \<open>
  What is done for one dentry when it is disposed of: it leaves the table of its parent, the lock is
  released if the caller held it, and the locks and the memory are given back.
\<close>

definition dispose_self :: "dptr \<Rightarrow> bool \<Rightarrow> bool \<Rightarrow> fs \<Rightarrow> fs option" where
  "dispose_self p unlock mem s = do {
     n \<leftarrow> dentries s p;
     s \<leftarrow> (case parent n of
            None \<Rightarrow> Some s
          | Some q \<Rightarrow> do {
              qn \<leftarrow> dentries s q;
              k \<leftarrow> platform_safe_name n;
              case fs_find_key_from_hash_table mem (child_list qn) k of
                None \<Rightarrow> Some s
              | Some c \<Rightarrow> change q (child_list_update (hash_del k c)) s});
     s \<leftarrow> (if unlock then releasewrite_mrsw (Meta p) s else Some s);
     if locks s (Contents p) = Free \<and> locks s (Meta p) = Free then Some (free_dentry p s) else None}"

text \<open>The children: one with other references is only cut off. \<open>mem\<close>: the copies of keys succeed.\<close>

partial_function (option) dispose_children :: "bool \<Rightarrow> bool \<Rightarrow> (byte list \<times> dptr) list \<Rightarrow> fs \<Rightarrow> fs option" where
  "dispose_children mem gc cs s =
     (case cs of
        [] \<Rightarrow> Some s
      | (k, c) # cs \<Rightarrow> do {
          n \<leftarrow> dentries s c;
          s \<leftarrow> (if numhandles n \<noteq> (if gc then 0 else 1)
               then change c (parent_update (\<lambda>_. None)) s
               else do {
                 s \<leftarrow> (if gc then Some s else change c dec_handles s);
                 s \<leftarrow> dispose_children mem gc (child_list n) s;
                 dispose_self c False mem s});
          dispose_children mem gc cs s})"

definition fs_dispose_dentry_contents :: "bool \<Rightarrow> dptr \<Rightarrow> bool \<Rightarrow> bool \<Rightarrow> fs \<Rightarrow> fs option" where
  "fs_dispose_dentry_contents mem p unlock gc s = do {
     n \<leftarrow> dentries s p;
     s \<leftarrow> dispose_children mem gc (child_list n) s;
     dispose_self p unlock mem s}"

definition fs_release_dentry_unlocked :: "bool \<Rightarrow> dptr \<Rightarrow> fs \<Rightarrow> fs option" where
  "fs_release_dentry_unlocked mem p s = do {
     s \<leftarrow> change p dec_handles s;
     n \<leftarrow> dentries s p;
     if numhandles n \<noteq> 0 \<or> out_of_sync n then releasewrite_mrsw (Meta p) s
     else fs_dispose_dentry_contents mem p True False s}"

definition fs_release_dentry :: "bool \<Rightarrow> dptr \<Rightarrow> fs \<Rightarrow> fs option" where
  "fs_release_dentry mem p s = do { _ \<leftarrow> dentries s p; s \<leftarrow> acquirewrite_mrsw (Meta p) s; fs_release_dentry_unlocked mem p s }"

section \<open>Lookup\<close>

definition fs_directory_lookup :: "bool \<Rightarrow> dptr \<Rightarrow> byte list \<Rightarrow> fs \<Rightarrow> (dptr option, fs) result option" where
  "fs_directory_lookup mem basedir name s =
     (if pathname_strlen name > LTFS_FILENAME_MAX then Some (Inl LTFS_NAMETOOLONG, s)
      else do {
        b \<leftarrow> dentries s basedir;
        if child_list b = [] then Some (Inr None, s)
        else case fs_find_key_from_hash_table mem (child_list b) name of
          None \<Rightarrow> Some (Inr None, s)
        | Some c \<Rightarrow> do {
            _ \<leftarrow> dentries s c;
            s \<leftarrow> acquirewrite_mrsw (Meta c) s;
            s \<leftarrow> change c inc_handles s;
            s \<leftarrow> releasewrite_mrsw (Meta c) s;
            Some (Inr (Some c), s)}})"

datatype lock_flag =
    LOCK_PARENT_CONTENTS_R | LOCK_PARENT_CONTENTS_W | LOCK_PARENT_META_R | LOCK_PARENT_META_W
  | LOCK_DENTRY_CONTENTS_R | LOCK_DENTRY_CONTENTS_W | LOCK_DENTRY_META_R | LOCK_DENTRY_META_W

text \<open>The components of a path, cut at each slash.\<close>

fun split_slash :: "byte list \<Rightarrow> byte list list" where
  "split_slash [] = [[]]"
| "split_slash (c # cs) = (if c = slash then [] # split_slash cs
     else case split_slash cs of [] \<Rightarrow> [[c]] | w # ws \<Rightarrow> (c # w) # ws)"

definition keep_parent :: "lock_flag set \<Rightarrow> bool" where
  "keep_parent flags \<longleftrightarrow> LOCK_PARENT_CONTENTS_W \<in> flags \<or> LOCK_PARENT_CONTENTS_R \<in> flags \<or>
     LOCK_PARENT_META_W \<in> flags \<or> LOCK_PARENT_META_R \<in> flags"

text \<open>
  The loop over the components: \<open>par\<close> is the directory above \<open>d\<close>, in which \<open>d\<close> was found, and \<open>start\<close> the
  component to find in \<open>d\<close>. The result is the last directory and the dentry found in it.
\<close>

fun lookup_loop ::
    "bool \<Rightarrow> lock_flag set \<Rightarrow> byte list list \<Rightarrow> dptr option \<Rightarrow> dptr \<Rightarrow> fs \<Rightarrow> (dptr \<times> dptr, fs) result option" where
  "lookup_loop mem flags [] par d s = None"
| "lookup_loop mem flags (start # rest) par d s = do {
     let w = (rest = [] \<and> LOCK_PARENT_CONTENTS_W \<in> flags);
     s \<leftarrow> (if w then acquirewrite_mrsw (Contents d) s else acquireread_mrsw (Contents d) s);
     s \<leftarrow> (case par of None \<Rightarrow> Some s | Some p \<Rightarrow> releaseread_mrsw (Contents p) s);
     (r, s) \<leftarrow> fs_directory_lookup mem d start s;
     case r of
       Inr (Some c) \<Rightarrow> do {
         s \<leftarrow> (if rest \<noteq> [] \<or> \<not> keep_parent flags
              then do { s \<leftarrow> acquirewrite_mrsw (Meta d) s; s \<leftarrow> change d dec_handles s; releasewrite_mrsw (Meta d) s }
              else Some s);
         if rest = [] then Some (Inr (d, c), s) else lookup_loop mem flags rest (Some d) c s}
     | _ \<Rightarrow> do {
         s \<leftarrow> (if w then releasewrite_mrsw (Contents d) s else releaseread_mrsw (Contents d) s);
         s \<leftarrow> fs_release_dentry mem d s;
         Some (Inl (case r of Inl e \<Rightarrow> e | Inr _ \<Rightarrow> LTFS_NO_DENTRY), s)}}"

definition lookup_locks :: "lock_flag set \<Rightarrow> dptr option \<Rightarrow> dptr \<Rightarrow> fs \<Rightarrow> fs option" where
  "lookup_locks flags par d s = do {
     s \<leftarrow> (case par of
            None \<Rightarrow> Some s
          | Some p \<Rightarrow> if LOCK_PARENT_META_W \<in> flags then acquirewrite_mrsw (Meta p) s
                     else if LOCK_PARENT_META_R \<in> flags then acquireread_mrsw (Meta p) s else Some s);
     s \<leftarrow> (if LOCK_DENTRY_CONTENTS_W \<in> flags then acquirewrite_mrsw (Contents d) s
          else if LOCK_DENTRY_CONTENTS_R \<in> flags then acquireread_mrsw (Contents d) s else Some s);
     if LOCK_DENTRY_META_W \<in> flags then acquirewrite_mrsw (Meta d) s
     else if LOCK_DENTRY_META_R \<in> flags then acquireread_mrsw (Meta d) s else Some s}"

text \<open>
  \<open>mem0\<close>: the path can be copied. The first character of the path is skipped without a look at it. No
  lock of a parent is taken when the root is asked for.
\<close>

definition fs_path_lookup :: "bool \<Rightarrow> bool \<Rightarrow> byte list \<Rightarrow> lock_flag set \<Rightarrow> fs \<Rightarrow> (dptr, fs) result option" where
  "fs_path_lookup mem0 mem path flags s =
     (if \<not> mem0 then Some (Inl LTFS_NO_MEMORY, s)
      else do {
        s \<leftarrow> acquirewrite_mrsw (Meta (root s)) s;
        s \<leftarrow> change (root s) inc_handles s;
        s \<leftarrow> releasewrite_mrsw (Meta (root s)) s;
        if path = [] \<or> path = [slash] then do { s' \<leftarrow> lookup_locks flags None (root s) s; Some (Inr (root s), s') }
        else do {
          (r, s) \<leftarrow> lookup_loop mem flags (split_slash (tl path)) None (root s) s;
          case r of
            Inl e \<Rightarrow> Some (Inl e, s)
          | Inr (p, d) \<Rightarrow> do {
              s \<leftarrow> (if LOCK_PARENT_CONTENTS_W \<in> flags \<or> LOCK_PARENT_CONTENTS_R \<in> flags then Some s
                   else releaseread_mrsw (Contents p) s);
              s \<leftarrow> lookup_locks flags (Some p) d s;
              Some (Inr d, s)}}})"

text \<open>The last slash cuts a path into directory and file name; without one nothing is set.\<close>

definition fs_split_path :: "byte list \<Rightarrow> (byte list \<times> byte list) option" where
  "fs_split_path path = (if slash \<in> set path
     then Some (butlast (rev (dropWhile (\<lambda>c. c \<noteq> slash) (rev path))), rev (takeWhile (\<lambda>c. c \<noteq> slash) (rev path)))
     else None)"

section \<open>Upward\<close>

partial_function (option) dentry_depth :: "dptr option \<Rightarrow> fs \<Rightarrow> nat option" where
  "dentry_depth d s =
     (case d of None \<Rightarrow> Some 0 | Some p \<Rightarrow> do { n \<leftarrow> dentries s p; k \<leftarrow> dentry_depth (parent n) s; Some (Suc k) })"

text \<open>
  The names from a dentry up to its root, in front of \<open>acc\<close>. Both early exits leave the lock of the parent
  held: \<open>Inl (Some e)\<close> for a missing name, \<open>Inl None\<close> for a name that cannot be copied (\<open>mem\<close>), after which
  the function returns 0 without a result.
\<close>

partial_function (option) dentry_names ::
    "(dptr \<Rightarrow> bool) \<Rightarrow> dptr \<Rightarrow> byte list list \<Rightarrow> fs \<Rightarrow> ((err option + byte list list) \<times> fs) option" where
  "dentry_names mem d acc s = do {
     n \<leftarrow> dentries s d;
     s \<leftarrow> (case parent n of None \<Rightarrow> Some s | Some p \<Rightarrow> acquireread_mrsw (Contents p) s);
     if platform_safe_name n = None \<and> (deleted n \<or> parent n \<noteq> None) then Some (Inl (Some LTFS_NO_DENTRY), s)
     else
       let nm = (case platform_safe_name n of None \<Rightarrow> [slash] | Some nm \<Rightarrow> nm) in
       if \<not> mem d then Some (Inl None, s)
       else case parent n of
         None \<Rightarrow> Some (Inr (nm # acc), s)
       | Some p \<Rightarrow> do { s \<leftarrow> releaseread_mrsw (Contents p) s; dentry_names mem p (nm # acc) s }}"

fun join_names :: "byte list list \<Rightarrow> byte list" where
  "join_names [] = []"
| "join_names [w] = w"
| "join_names (w # ws) = w @ [slash] @ join_names ws"

text \<open>\<open>strcat\<close> of the names, with a slash behind each but the first and the last.\<close>

definition concat_names :: "byte list list \<Rightarrow> byte list" where
  "concat_names ns = (case ns of [] \<Rightarrow> [] | n # ns \<Rightarrow> n @ join_names ns)"

text \<open>\<open>mem0\<close>, \<open>mem1\<close>: the arrays of names and of the path. The result 0 without a path is \<open>Inr None\<close>.\<close>

definition fs_dentry_lookup ::
    "bool \<Rightarrow> (dptr \<Rightarrow> bool) \<Rightarrow> bool \<Rightarrow> dptr \<Rightarrow> fs \<Rightarrow> (byte list option, fs) result option" where
  "fs_dentry_lookup mem0 mem mem1 d s = do {
     _ \<leftarrow> dentry_depth (Some d) s;
     if \<not> mem0 then Some (Inl LTFS_NO_MEMORY, s)
     else do {
       (r, s) \<leftarrow> dentry_names mem d [] s;
       case r of
         Inl (Some e) \<Rightarrow> Some (Inl e, s)
       | Inl None \<Rightarrow> Some (Inr None, s)
       | Inr ns \<Rightarrow> if mem1 then Some (Inr (Some (concat_names ns)), s) else Some (Inl LTFS_NO_MEMORY, s)}}"

partial_function (option) predecessor_loop :: "dptr \<Rightarrow> dptr option \<Rightarrow> fs \<Rightarrow> bool option" where
  "predecessor_loop d1 d s =
     (case d of None \<Rightarrow> Some False
      | Some p \<Rightarrow> if p = d1 then Some True else do { n \<leftarrow> dentries s p; predecessor_loop d1 (parent n) s })"

definition fs_is_predecessor :: "dptr \<Rightarrow> dptr \<Rightarrow> fs \<Rightarrow> bool option" where
  "fs_is_predecessor d1 d2 s = predecessor_loop d1 (Some d2) s"

section \<open>Blocks of a file\<close>

definition fs_get_used_blocks :: "nat \<Rightarrow> node \<Rightarrow> nat" where
  "fs_get_used_blocks bs n =
     foldl (\<lambda>used e. let b = add64 (byteoffset e) (bytecount e)
       in add64 (add64 used (b div bs)) (if b mod bs = 0 then 0 else 1)) 0 (extentlist n)"

text \<open>Garbage collection of dentries without references.\<close>

partial_function (option) gc_list :: "bool \<Rightarrow> dptr list \<Rightarrow> fs \<Rightarrow> fs option" where
  "gc_list mem ds s =
     (case ds of
        [] \<Rightarrow> Some s
      | d # ds \<Rightarrow> do {
          n \<leftarrow> dentries s d;
          s \<leftarrow> acquirewrite_mrsw (Meta d) s;
          s \<leftarrow> (if numhandles n = 0 \<and> \<not> out_of_sync n then fs_dispose_dentry_contents mem d True True s
               else do { s \<leftarrow> releasewrite_mrsw (Meta d) s; gc_list mem (map snd (child_list n)) s });
          gc_list mem ds s})"

definition fs_gc_dentry :: "bool \<Rightarrow> dptr \<Rightarrow> fs \<Rightarrow> fs option" where
  "fs_gc_dentry mem d s = gc_list mem [d] s"

section \<open>The algebra of states\<close>

named_theorems fs_state \<open>fields of a state after a lock operation or an assignment\<close>

lemma locks_hold [fs_state, simp]: "locks (hold l m s) = (locks s)(l := m)"
  and dentries_hold [fs_state, simp]: "dentries (hold l m s) = dentries s"
  and root_hold [fs_state, simp]: "root (hold l m s) = root s"
  and fresh_hold [fs_state, simp]: "fresh_dentry (hold l m s) = fresh_dentry s"
  by (simp_all add: hold_def)

lemma locks_alter [fs_state, simp]: "locks (alter p f s) = locks s"
  and dentries_alter [fs_state, simp]: "dentries (alter p f s) = (dentries s)(p := map_option f (dentries s p))"
  and root_alter [fs_state, simp]: "root (alter p f s) = root s"
  and fresh_alter [fs_state, simp]: "fresh_dentry (alter p f s) = fresh_dentry s"
  by (simp_all add: alter_def)

lemma locks_free [fs_state, simp]: "locks (free_dentry p s) = locks s"
  and dentries_free [fs_state, simp]: "dentries (free_dentry p s) = (dentries s)(p := None)"
  and root_free [fs_state, simp]: "root (free_dentry p s) = root s"
  and fresh_free [fs_state, simp]: "fresh_dentry (free_dentry p s) = fresh_dentry s"
  by (simp_all add: free_dentry_def)

text \<open>Assignments move inwards, locks are ordered; what is taken and released again disappears.\<close>

lemma alter_hold [simp]: "alter p f (hold l m s) = hold l m (alter p f s)"
  by (simp add: alter_def hold_def)

lemma free_hold [simp]: "free_dentry p (hold l m s) = hold l m (free_dentry p s)"
  by (simp add: free_dentry_def hold_def)

lemma hold_hold [simp]: "hold l m (hold l m' s) = hold l m s"
  by (simp add: hold_def)

lemma hold_swap: "l \<noteq> l' \<Longrightarrow> hold l m (hold l' m' s) = hold l' m' (hold l m s)"
  by (simp add: hold_def fun_upd_twist)

lemma hold_same: "locks s l = m \<Longrightarrow> hold l m s = s"
  by (auto simp: hold_def)

lemma alter_alter: "alter p f (alter p g s) = alter p (f \<circ> g) s"
  by (simp add: alter_def option.map_comp)

lemma alter_swap: "p \<noteq> q \<Longrightarrow> alter p f (alter q g s) = alter q g (alter p f s)"
  by (simp add: alter_def fun_upd_twist)

lemma alter_same: "dentries s p = Some n \<Longrightarrow> f n = n \<Longrightarrow> alter p f s = s"
  by (simp add: alter_def fun_upd_idem)

lemma free_alter [simp]: "free_dentry p (alter p f s) = free_dentry p s"
  by (simp add: free_dentry_def alter_def)

lemma change_Some: "dentries s p \<noteq> None \<Longrightarrow> change p f s = Some (alter p f s)"
  by (simp add: change_def)

lemma acquirewrite_Some: "locks s l = Free \<Longrightarrow> acquirewrite_mrsw l s = Some (hold l Wr s)"
  by (simp add: acquirewrite_mrsw_def)

lemma acquireread_Some: "locks s l = Free \<Longrightarrow> acquireread_mrsw l s = Some (hold l (Rd 1) s)"
  by (simp add: acquireread_mrsw_def)

lemma releasewrite_Some: "locks s l = Wr \<Longrightarrow> releasewrite_mrsw l s = Some (hold l Free s)"
  by (simp add: releasewrite_mrsw_def)

lemma releaseread_Some: "locks s l = Rd 1 \<Longrightarrow> releaseread_mrsw l s = Some (hold l Free s)"
  by (simp add: releaseread_mrsw_def)

lemma release_Some: "locks s l = Rd 1 \<or> locks s l = Wr \<Longrightarrow> release_mrsw l s = Some (hold l Free s)"
  by (auto simp: release_mrsw_def releaseread_mrsw_def releasewrite_mrsw_def)

lemma writetoread_Some: "locks s l = Wr \<Longrightarrow> writetoread_mrsw l s = Some (hold l (Rd 1) s)"
  by (simp add: writetoread_mrsw_def)

lemmas lock_ops = acquirewrite_Some acquireread_Some releasewrite_Some releaseread_Some change_Some

text \<open>The counters.\<close>

lemma dec32_inc32 [simp]: "n < U32 \<Longrightarrow> dec32 (inc32 n) = n"
  by (simp add: dec32_def inc32_def to32_def U32_def mod_simps)

lemma inc32_dec32 [simp]: "n < U32 \<Longrightarrow> inc32 (dec32 n) = n"
  by (simp add: dec32_def inc32_def to32_def U32_def mod_simps)

lemma inc32_exact: "n + 1 < U32 \<Longrightarrow> inc32 n = n + 1"
  by (simp add: inc32_def to32_def)

lemma dec32_exact: "0 < n \<Longrightarrow> n < U32 \<Longrightarrow> dec32 n = n - 1"
  by (cases n) (simp_all add: dec32_def to32_def U32_def mod_simps)

lemma counted_less [simp]: "inc32 n < U32" "dec32 n < U32"
  by (simp_all add: inc32_def dec32_def to32_def)

lemma alter_dec_inc:
  assumes "dentries s p = Some n" and "numhandles n < U32"
  shows "alter p dec_handles (alter p inc_handles s) = s"
  unfolding alter_alter using assms by (auto intro!: alter_same)

section \<open>The invariant of the tree\<close>

text \<open>The child of a directory with a name, in the store.\<close>

definition child :: "fs \<Rightarrow> dptr \<Rightarrow> byte list \<Rightarrow> dptr option" where
  "child s d k = (case dentries s d of None \<Rightarrow> None | Some n \<Rightarrow> map_of (child_list n) k)"

definition linked :: "fs \<Rightarrow> dptr \<Rightarrow> node \<Rightarrow> bool" where
  "linked s p n \<longleftrightarrow> p = root s \<or> parent n \<noteq> None"

text \<open>
  A dentry agrees with its neighbours: its children name it as their parent and carry the names under which
  they are listed, each name once; its parent lists it; a dentry outside of the tree has no children.
\<close>

definition node_ok :: "fs \<Rightarrow> dptr \<Rightarrow> node \<Rightarrow> bool" where
  "node_ok s p n \<longleftrightarrow>
     distinct (map fst (child_list n)) \<and> (child_list n \<noteq> [] \<longrightarrow> isdir n \<and> linked s p n) \<and>
     (\<forall>k c. (k, c) \<in> set (child_list n) \<longrightarrow>
        (\<exists>m. dentries s c = Some m \<and> parent m = Some p \<and> platform_safe_name m = Some k)) \<and>
     (\<forall>q. parent n = Some q \<longrightarrow> (\<exists>m k. dentries s q = Some m \<and> platform_safe_name n = Some k \<and> (k, p) \<in> set (child_list m))) \<and>
     (deleted n \<longleftrightarrow> \<not> linked s p n) \<and> \<not> out_of_sync n"

definition fs_wf :: "fs \<Rightarrow> bool" where
  "fs_wf s \<longleftrightarrow>
     (\<exists>n. dentries s (root s) = Some n \<and> isdir n \<and> parent n = None \<and> platform_safe_name n = Some [slash]) \<and>
     (\<forall>p n. dentries s p = Some n \<longrightarrow> node_ok s p n \<and> p < fresh_dentry s) \<and>
     (\<exists>rank :: dptr \<Rightarrow> nat. \<forall>p n q. dentries s p = Some n \<longrightarrow> parent n = Some q \<longrightarrow> rank q < rank p)"

text \<open>
  The references: \<open>H\<close> are the references that were handed out and not released. A dentry is kept exactly as
  long as it is in the tree or referenced, and its counter counts just that.
\<close>

definition refs_ok :: "dptr multiset \<Rightarrow> fs \<Rightarrow> bool" where
  "refs_ok H s \<longleftrightarrow>
     (\<forall>p n. dentries s p = Some n \<longrightarrow> numhandles n = count H p + (if linked s p n then 1 else 0) \<and> 0 < numhandles n) \<and>
     (\<forall>p. p \<in># H \<longrightarrow> dentries s p \<noteq> None) \<and> size_class.size H + 2 < U32"

definition unlocked :: "fs \<Rightarrow> bool" where
  "unlocked s \<longleftrightarrow> (\<forall>p. locks s (Contents p) = Free \<and> locks s (Meta p) = Free)"

definition fs_inv :: "dptr multiset \<Rightarrow> fs \<Rightarrow> bool" where
  "fs_inv H s \<longleftrightarrow> fs_wf s \<and> refs_ok H s"

lemma unlockedD [simp]: "unlocked s \<Longrightarrow> locks s (Contents p) = Free" "unlocked s \<Longrightarrow> locks s (Meta p) = Free"
  by (simp_all add: unlocked_def)

lemma fs_wf_root: "fs_wf s \<Longrightarrow> \<exists>n. dentries s (root s) = Some n \<and> isdir n \<and> parent n = None \<and> platform_safe_name n = Some [slash]"
  by (simp add: fs_wf_def)

lemma fs_wf_node: "fs_wf s \<Longrightarrow> dentries s p = Some n \<Longrightarrow> node_ok s p n"
  by (simp add: fs_wf_def)

lemma node_child:
  "node_ok s p n \<Longrightarrow> (k, c) \<in> set (child_list n) \<Longrightarrow>
     \<exists>m. dentries s c = Some m \<and> parent m = Some p \<and> platform_safe_name m = Some k"
  by (auto simp: node_ok_def)

lemma node_parent:
  "node_ok s p n \<Longrightarrow> parent n = Some q \<Longrightarrow>
     \<exists>m k. dentries s q = Some m \<and> platform_safe_name n = Some k \<and> (k, p) \<in> set (child_list m)"
  by (simp add: node_ok_def)

lemma hash_find_map_of: "distinct (map fst l) \<Longrightarrow> hash_find k l = map_of l k"
  unfolding hash_find_def
proof (cases "map_of l k")
  case None
  then have "map_of (rev l) k = None" by (simp add: map_of_eq_None_iff)
  with None show "map_of (rev l) k = map_of l k" by simp
qed (simp add: rev_map [symmetric])

lemma child_iff:
  assumes "fs_wf s" and "dentries s d = Some n"
  shows "child s d k = Some c \<longleftrightarrow> (k, c) \<in> set (child_list n)"
  using assms fs_wf_node [OF assms] by (simp add: child_def node_ok_def)

lemma child_entry:
  assumes "fs_wf s" and "child s d k = Some c"
  shows "\<exists>n m. dentries s d = Some n \<and> (k, c) \<in> set (child_list n) \<and>
    dentries s c = Some m \<and> parent m = Some d \<and> platform_safe_name m = Some k"
proof -
  obtain n where n: "dentries s d = Some n" using assms(2) by (auto simp: child_def split: option.splits)
  then show ?thesis
    using child_iff [OF assms(1) n] assms(2) node_child [OF fs_wf_node [OF assms(1) n]] by auto
qed

lemma parent_neq: "fs_wf s \<Longrightarrow> dentries s c = Some m \<Longrightarrow> parent m = Some d \<Longrightarrow> c \<noteq> d"
  unfolding fs_wf_def by (metis less_irrefl)

lemma refs_bounds:
  "refs_ok H s \<Longrightarrow> dentries s p = Some n \<Longrightarrow> 0 < numhandles n \<and> numhandles n < U32"
  unfolding refs_ok_def using count_le_size [of H p] by (auto split: if_splits)


section \<open>Release and lookup of one dentry\<close>

lemma release_unlocked_keeps:
  assumes "dentries s p = Some n" and "dec32 (numhandles n) \<noteq> 0" and "locks s (Meta p) = Wr"
  shows "fs_release_dentry_unlocked mem p s = Some (hold (Meta p) Free (alter p dec_handles s))"
  using assms by (simp add: fs_release_dentry_unlocked_def lock_ops)

lemma release_keeps:
  assumes "dentries s p = Some n" and "dec32 (numhandles n) \<noteq> 0" and "locks s (Meta p) = Free"
  shows "fs_release_dentry mem p s = Some (alter p dec_handles s)"
  using assms by (simp add: fs_release_dentry_def lock_ops release_unlocked_keeps hold_same)

text \<open>The last reference to a dentry without children outside of the tree frees it.\<close>

lemma dispose_children_Nil [simp]: "dispose_children mem gc [] s = Some s"
  by (subst dispose_children.simps) simp

lemma release_unlocked_frees:
  assumes "dentries s p = Some n" and "numhandles n = 1" and "\<not> out_of_sync n" and "child_list n = []" and "parent n = None"
    and "locks s (Meta p) = Wr" and "locks s (Contents p) = Free"
  shows "fs_release_dentry_unlocked mem p s = Some (hold (Meta p) Free (free_dentry p s))"
proof -
  have "dec32 1 = 0" by (simp add: dec32_exact U32_def)
  then show ?thesis
    using assms by (simp add: fs_release_dentry_unlocked_def lock_ops fs_dispose_dentry_contents_def dispose_self_def)
qed

lemma release_frees:
  assumes "dentries s p = Some n" and "numhandles n = 1" and "\<not> out_of_sync n" and "child_list n = []" and "parent n = None"
    and "locks s (Meta p) = Free" and "locks s (Contents p) = Free"
  shows "fs_release_dentry mem p s = Some (free_dentry p s)"
proof -
  have "locks (free_dentry p s) (Meta p) = Free" using assms(6) by simp
  then show ?thesis
    using assms by (simp add: fs_release_dentry_def lock_ops release_unlocked_frees hold_same)
qed

lemma directory_lookup_spec:
  assumes "fs_wf s" and "dentries s d = Some n" and "\<forall>k c. child s d k = Some c \<longrightarrow> locks s (Meta c) = Free"
  shows "fs_directory_lookup True d k s =
    Some (if pathname_strlen k > LTFS_FILENAME_MAX then (Inl LTFS_NAMETOOLONG, s)
          else case child s d k of None \<Rightarrow> (Inr None, s) | Some c \<Rightarrow> (Inr (Some c), alter c inc_handles s))"
proof -
  have "hash_find k (child_list n) = child s d k"
    using fs_wf_node [OF assms(1,2)] assms(2) by (simp add: child_def node_ok_def hash_find_map_of)
  moreover have "dentries s c \<noteq> None" if "child s d k = Some c" for c
    using child_entry [OF assms(1) that] by auto
  moreover have "child_list n = [] \<Longrightarrow> child s d k = None" using assms(2) by (simp add: child_def)
  ultimately show ?thesis
    using assms(2,3) unfolding fs_directory_lookup_def fs_find_key_from_hash_table_def
    by (cases "child s d k") (auto simp: lock_ops hold_same)
qed

section \<open>Lookup of a path\<close>

text \<open>What a walk finds: the last directory and the dentry in it.\<close>

fun walk :: "fs \<Rightarrow> dptr \<Rightarrow> byte list list \<Rightarrow> err + dptr \<times> dptr" where
  "walk s d [] = Inl LTFS_NO_DENTRY"
| "walk s d (k # ks) =
     (if pathname_strlen k > LTFS_FILENAME_MAX then Inl LTFS_NAMETOOLONG
      else case child s d k of None \<Rightarrow> Inl LTFS_NO_DENTRY | Some c \<Rightarrow> if ks = [] then Inr (d, c) else walk s c ks)"

definition walk_entry :: "dptr option \<Rightarrow> dptr \<Rightarrow> fs \<Rightarrow> fs" where
  "walk_entry par d s = (case par of None \<Rightarrow> alter d inc_handles s | Some p \<Rightarrow> hold (Contents p) (Rd 1) (alter d inc_handles s))"

definition walk_exit :: "lock_flag set \<Rightarrow> dptr \<Rightarrow> dptr \<Rightarrow> fs \<Rightarrow> fs" where
  "walk_exit flags p c s =
     hold (Contents p) (if LOCK_PARENT_CONTENTS_W \<in> flags then Wr else Rd 1)
       (alter c inc_handles (if keep_parent flags then alter p inc_handles s else s))"

text \<open>The invariant of the tree only reads the links, the names and the flags of a dentry.\<close>

definition shape :: "node \<Rightarrow> (byte list \<times> dptr) list \<times> dptr option \<times> byte list option \<times> bool \<times> bool \<times> bool" where
  "shape n = (child_list n, parent n, platform_safe_name n, isdir n, deleted n, out_of_sync n)"

definition same_shape :: "fs \<Rightarrow> fs \<Rightarrow> bool" where
  "same_shape s s' \<longleftrightarrow> root s' = root s \<and> fresh_dentry s' = fresh_dentry s \<and>
     (\<forall>p. map_option shape (dentries s' p) = map_option shape (dentries s p))"

lemma same_shapeD:
  "same_shape s s' \<Longrightarrow> dentries s' p = Some n' \<Longrightarrow> \<exists>n. dentries s p = Some n \<and> shape n = shape n'"
  by (cases "dentries s p") (auto simp: same_shape_def dest!: spec [of _ p])

lemma same_shape_sym: "same_shape s s' \<Longrightarrow> same_shape s' s"
  by (simp add: same_shape_def)

lemma shape_eq:
  "shape n = shape n' \<longleftrightarrow> child_list n = child_list n' \<and> parent n = parent n' \<and> platform_safe_name n = platform_safe_name n' \<and>
     isdir n = isdir n' \<and> deleted n = deleted n' \<and> out_of_sync n = out_of_sync n'"
  by (auto simp: shape_def)

lemma node_ok_same_shape:
  assumes "same_shape s s'" and "node_ok s p n" and "shape n = shape n'"
  shows "node_ok s' p n'"
proof -
  have D: "\<exists>m'. dentries s' q = Some m' \<and> shape m' = shape m" if "dentries s q = Some m" for q m
    using same_shapeD [OF same_shape_sym [OF assms(1)] that] by auto
  have root: "root s' = root s" using assms(1) by (simp add: same_shape_def)
  have e: "child_list n' = child_list n" "parent n' = parent n" "platform_safe_name n' = platform_safe_name n"
      "isdir n' = isdir n" "deleted n' = deleted n" "out_of_sync n' = out_of_sync n"
    using assms(3) by (simp_all add: shape_eq)
  have "\<exists>m. dentries s' c = Some m \<and> parent m = Some p \<and> platform_safe_name m = Some k"
    if kc: "(k, c) \<in> set (child_list n)" for k c
    using node_child [OF assms(2) kc] D [of c] by (auto simp: shape_eq)
  moreover have "\<exists>m k. dentries s' q = Some m \<and> platform_safe_name n = Some k \<and> (k, p) \<in> set (child_list m)"
    if q: "parent n = Some q" for q
    using node_parent [OF assms(2) q] D [of q] by (fastforce simp: shape_eq)
  ultimately show ?thesis
    using assms(2) by (simp add: node_ok_def linked_def root e)
qed

lemma fs_wf_same_shape:
  assumes "same_shape s s'" and "fs_wf s"
  shows "fs_wf s'"
proof -
  note S = same_shapeD [OF assms(1)]
  have root: "root s' = root s" "fresh_dentry s' = fresh_dentry s" using assms(1) by (simp_all add: same_shape_def)
  have "\<exists>n. dentries s' (root s') = Some n \<and> isdir n \<and> parent n = None \<and> platform_safe_name n = Some [slash]"
    using fs_wf_root [OF assms(2)] same_shapeD [OF same_shape_sym [OF assms(1)], of "root s"] by (auto simp: root shape_eq)
  moreover have "node_ok s' p n \<and> p < fresh_dentry s'" if pn: "dentries s' p = Some n" for p n
  proof -
    obtain m where m: "dentries s p = Some m" "shape m = shape n" using S [OF pn] by blast
    then show ?thesis using assms(2) node_ok_same_shape [OF assms(1) fs_wf_node m(2)] by (auto simp: fs_wf_def root)
  qed
  moreover obtain rank :: "dptr \<Rightarrow> nat" where "\<forall>p n q. dentries s p = Some n \<longrightarrow> parent n = Some q \<longrightarrow> rank q < rank p"
    using assms(2) by (auto simp: fs_wf_def)
  then have "\<forall>p n q. dentries s' p = Some n \<longrightarrow> parent n = Some q \<longrightarrow> rank q < rank p"
    using S by (metis shape_eq)
  ultimately show ?thesis by (auto simp: fs_wf_def)
qed

lemma child_same_shape: "same_shape s s' \<Longrightarrow> child s' = child s"
proof (intro ext)
  fix d k assume S: "same_shape s s'"
  show "child s' d k = child s d k"
    using same_shapeD [OF S, of d] same_shapeD [OF same_shape_sym [OF S], of d]
    by (cases "dentries s d"; cases "dentries s' d") (auto simp: child_def shape_eq)
qed

lemma same_shape_alter: "(\<And>n. shape (f n) = shape n) \<Longrightarrow> same_shape s (alter p f s)"
  by (simp add: same_shape_def option.map_comp comp_def)

lemma shape_updates [simp]:
  "shape (numhandles_update f n) = shape n" "shape (link_count_update f n) = shape n"
  "shape (modify_time_update t n) = shape n" "shape (change_time_update t n) = shape n"
  "shape (access_time_update t n) = shape n" "shape (creation_time_update t n) = shape n"
  "shape (backup_time_update t n) = shape n" "shape (matches_name_criteria_update b n) = shape n"
  by (simp_all add: shape_def)

lemma fs_wf_alter_handles [simp]: "fs_wf s \<Longrightarrow> fs_wf (alter p (numhandles_update f) s)"
  by (rule fs_wf_same_shape [OF same_shape_alter]) simp_all

lemma fs_wf_hold [simp]: "fs_wf (hold l m s) = fs_wf s"
  by (simp add: fs_wf_def node_ok_def linked_def)

lemma child_hold [simp]: "child (hold l m s) = child s"
  by (simp add: child_def fun_eq_iff)

lemma child_alter_handles [simp]: "child (alter p (numhandles_update f) s) = child s"
  by (auto simp: child_def fun_eq_iff split: option.split)

lemma lookup_loop_spec:
  assumes "fs_wf s" and "refs_ok H s" and "unlocked s" and "ks \<noteq> []" and "dentries s d = Some n"
    and "par = None \<or> par = parent n"
  shows "lookup_loop True flags ks par d (walk_entry par d s) =
    Some (case walk s d ks of Inl e \<Rightarrow> (Inl e, s) | Inr (p, c) \<Rightarrow> (Inr (p, c), walk_exit flags p c s))"
  using assms(4-)
proof (induction ks arbitrary: par d n)
  case (Cons k ks)
  let ?X = "if ks = [] \<and> LOCK_PARENT_CONTENTS_W \<in> flags then Wr else Rd 1"
  let ?s = "hold (Contents d) ?X (alter d inc_handles s)"
  have free: "locks s (Contents p) = Free" "locks s (Meta p) = Free" for p using assms(3) by simp_all
  have h: "numhandles n < U32" "0 < numhandles n" using refs_bounds [OF assms(2) Cons.prems(2)] by simp_all
  have pd: "p \<noteq> d" if "par = Some p" for p using parent_neq [OF assms(1) Cons.prems(2), of p] Cons.prems(3) that by auto
  have acq: "(if ks = [] \<and> LOCK_PARENT_CONTENTS_W \<in> flags then acquirewrite_mrsw (Contents d) (walk_entry par d s)
      else acquireread_mrsw (Contents d) (walk_entry par d s)) = Some (hold (Contents d) ?X (walk_entry par d s))"
    using pd by (cases par) (auto simp: walk_entry_def lock_ops free)
  have rel: "(case par of None \<Rightarrow> Some (hold (Contents d) ?X (walk_entry par d s))
      | Some p \<Rightarrow> releaseread_mrsw (Contents p) (hold (Contents d) ?X (walk_entry par d s))) = Some ?s"
    using pd by (cases par) (auto simp: walk_entry_def lock_ops free hold_swap hold_same)
  have look: "fs_directory_lookup True d k ?s =
      Some (if pathname_strlen k > LTFS_FILENAME_MAX then (Inl LTFS_NAMETOOLONG, ?s)
            else case child s d k of None \<Rightarrow> (Inr None, ?s) | Some c \<Rightarrow> (Inr (Some c), alter c inc_handles ?s))"
    using directory_lookup_spec [of ?s d "inc_handles n" k] assms(1) Cons.prems(2) by (simp add: free)
  have unlock: "(if ks = [] \<and> LOCK_PARENT_CONTENTS_W \<in> flags then releasewrite_mrsw (Contents d) ?s else releaseread_mrsw (Contents d) ?s) =
      Some (alter d inc_handles s)"
    by (simp add: lock_ops free hold_same)
  have put: "fs_release_dentry True d (alter d inc_handles s) = Some s"
    using Cons.prems(2) h release_keeps [of "alter d inc_handles s" d "inc_handles n" True]
    by (simp add: free alter_dec_inc)
  show ?case
  proof (cases "child s d k")
    case None
    then show ?thesis
      unfolding lookup_loop.simps Let_def acq bind.simps rel look by (simp add: unlock put del: if_split)
  next
    case (Some c)
    then obtain m where m: "dentries s c = Some m" "parent m = Some d" using child_entry [OF assms(1)] by blast
    then have cd: "c \<noteq> d" using parent_neq [OF assms(1)] by blast
    have dec: "(do { s \<leftarrow> acquirewrite_mrsw (Meta d) (alter c inc_handles ?s); s \<leftarrow> change d dec_handles s; releasewrite_mrsw (Meta d) s }) =
        Some (hold (Contents d) ?X (alter c inc_handles s))"
      using Cons.prems(2) cd h by (simp add: lock_ops free hold_same alter_swap [of c d] alter_dec_inc hold_swap [of "Meta d" "Contents d"])
    show ?thesis
    proof (cases "pathname_strlen k > LTFS_FILENAME_MAX")
      case True
      then show ?thesis
        unfolding lookup_loop.simps Let_def acq bind.simps rel look by (simp add: unlock put del: if_split)
    next
      case False
      have step: "lookup_loop True flags (k # ks) par d (walk_entry par d s) =
          (if ks \<noteq> [] \<or> \<not> keep_parent flags
           then do { s \<leftarrow> acquirewrite_mrsw (Meta d) (alter c inc_handles ?s); s \<leftarrow> change d dec_handles s; releasewrite_mrsw (Meta d) s }
           else Some (alter c inc_handles ?s)) \<bind>
          (\<lambda>s. if ks = [] then Some (Inr (d, c), s) else lookup_loop True flags ks (Some d) c s)"
        unfolding lookup_loop.simps Let_def acq bind.simps rel look using Some False by simp
      show ?thesis
      proof (cases "ks = []")
        case True
        then show ?thesis
          unfolding step dec using False Some cd by (simp add: walk_exit_def alter_swap [of c d])
      next
        case ks: False
        then have "lookup_loop True flags ks (Some d) c (walk_entry (Some d) c s) =
            Some (case walk s c ks of Inl e \<Rightarrow> (Inl e, s) | Inr (p, c) \<Rightarrow> (Inr (p, c), walk_exit flags p c s))"
          using Cons.IH [of c m "Some d"] m by simp
        then show ?thesis
          unfolding step dec using False Some ks by (simp add: walk_entry_def)
      qed
    qed
  qed
qed simp

text \<open>
  The whole lookup: an error leaves the state as it was; otherwise the dentry has one more reference, the
  parent too if it stays locked, and exactly the locks that were asked for are held.
\<close>

definition lookup_result :: "fs \<Rightarrow> byte list \<Rightarrow> err + dptr option \<times> dptr" where
  "lookup_result s path =
     (if path = [] \<or> path = [slash] then Inr (None, root s)
      else case walk s (root s) (split_slash (tl path)) of Inl e \<Rightarrow> Inl e | Inr (p, c) \<Rightarrow> Inr (Some p, c))"

lemma split_slash_ne [simp]: "split_slash cs \<noteq> []"
  by (induction cs) (auto split: list.split)

lemma path_lookup_spec:
  assumes "fs_wf s" and "refs_ok H s" and "unlocked s"
  shows "fs_path_lookup True True path flags s =
    (case lookup_result s path of
       Inl e \<Rightarrow> Some (Inl e, s)
     | Inr (None, c) \<Rightarrow> do { s' \<leftarrow> lookup_locks flags None c (alter c inc_handles s); Some (Inr c, s') }
     | Inr (Some p, c) \<Rightarrow> do {
         s' \<leftarrow> (if LOCK_PARENT_CONTENTS_W \<in> flags \<or> LOCK_PARENT_CONTENTS_R \<in> flags then Some (walk_exit flags p c s)
              else releaseread_mrsw (Contents p) (walk_exit flags p c s));
         s' \<leftarrow> lookup_locks flags (Some p) c s';
         Some (Inr c, s')})"
proof -
  obtain n where n: "dentries s (root s) = Some n" using fs_wf_root [OF assms(1)] by blast
  note loop = lookup_loop_spec [OF assms split_slash_ne n, of None, simplified walk_entry_def option.case simp_thms]
  show ?thesis
    using n assms(3) loop
    by (simp add: fs_path_lookup_def lock_ops hold_same lookup_result_def split: sum.split)
qed

text \<open>The three ways in which the operations look a path up.\<close>

lemma path_lookup_plain:
  assumes "fs_wf s" and "refs_ok H s" and "unlocked s"
  shows "fs_path_lookup True True path {} s =
    Some (case lookup_result s path of Inl e \<Rightarrow> (Inl e, s) | Inr (_, c) \<Rightarrow> (Inr c, alter c inc_handles s))"
  using assms(3) unfolding path_lookup_spec [OF assms]
  by (auto simp: lookup_locks_def walk_exit_def keep_parent_def lock_ops hold_same split: sum.split option.split)

lemma path_lookup_locked:
  assumes "fs_wf s" and "refs_ok H s" and "unlocked s"
  shows "fs_path_lookup True True path {LOCK_DENTRY_CONTENTS_W} s =
    Some (case lookup_result s path of Inl e \<Rightarrow> (Inl e, s) | Inr (_, c) \<Rightarrow> (Inr c, hold (Contents c) Wr (alter c inc_handles s)))"
  using assms(3) unfolding path_lookup_spec [OF assms]
  by (auto simp: lookup_locks_def walk_exit_def keep_parent_def lock_ops hold_same split: sum.split option.split)

lemma path_lookup_parent:
  assumes "fs_wf s" and "refs_ok H s" and "unlocked s"
  shows "fs_path_lookup True True path {LOCK_PARENT_CONTENTS_W} s =
    Some (case lookup_result s path of
       Inl e \<Rightarrow> (Inl e, s)
     | Inr (None, c) \<Rightarrow> (Inr c, alter c inc_handles s)
     | Inr (Some p, c) \<Rightarrow> (Inr c, hold (Contents p) Wr (alter c inc_handles (alter p inc_handles s))))"
  using assms(3) unfolding path_lookup_spec [OF assms]
  by (auto simp: lookup_locks_def walk_exit_def keep_parent_def split: sum.split option.split)


end
