(* ===== verification/Ltfs_Tree.thy ===== *)
theory Ltfs_Tree
  imports Ltfs_Fs "HOL-Library.Sublist"
begin

text \<open>
  The tree as a graph: the edges that the tables of the directories list and the links that the dentries
  keep to their parents. The invariant says that the two agree; on this view it is shown for the changes
  that the operations make. The names of a path lead from the root to a dentry by exactly one path.
\<close>

section \<open>Edges and links\<close>

definition edge :: "fs \<Rightarrow> dptr \<Rightarrow> byte list \<Rightarrow> dptr \<Rightarrow> bool" where
  "edge s q k p \<longleftrightarrow> (\<exists>n. dentries s q = Some n \<and> (k, p) \<in> set (child_list n))"

definition up :: "fs \<Rightarrow> dptr \<Rightarrow> byte list \<Rightarrow> dptr \<Rightarrow> bool" where
  "up s p k q \<longleftrightarrow> (\<exists>n. dentries s p = Some n \<and> parent n = Some q \<and> platform_safe_name n = Some k)"

definition local_ok :: "fs \<Rightarrow> dptr \<Rightarrow> node \<Rightarrow> bool" where
  "local_ok s p n \<longleftrightarrow> distinct (map fst (child_list n)) \<and> (child_list n \<noteq> [] \<longrightarrow> isdir n \<and> linked s p n) \<and>
     (parent n \<noteq> None \<longrightarrow> platform_safe_name n \<noteq> None) \<and> (deleted n \<longleftrightarrow> \<not> linked s p n) \<and> \<not> out_of_sync n \<and>
     p < fresh_dentry s"

definition root_ok :: "fs \<Rightarrow> bool" where
  "root_ok s \<longleftrightarrow> (\<exists>n. dentries s (root s) = Some n \<and> isdir n \<and> parent n = None \<and> platform_safe_name n = Some [slash])"

lemma fs_wf_edge_up:
  assumes "fs_wf s"
  shows "edge s q k p \<longleftrightarrow> up s p k q"
proof
  assume "edge s q k p"
  then show "up s p k q" using node_child [OF fs_wf_node [OF assms]] by (auto simp: edge_def up_def)
next
  assume "up s p k q"
  then obtain n where n: "dentries s p = Some n" "parent n = Some q" "platform_safe_name n = Some k" by (auto simp: up_def)
  then show "edge s q k p" using node_parent [OF fs_wf_node [OF assms n(1)] n(2)] by (auto simp: edge_def)
qed

lemma fs_wf_local: "fs_wf s \<Longrightarrow> dentries s p = Some n \<Longrightarrow> local_ok s p n"
  using fs_wf_node [of s p n] unfolding fs_wf_def node_ok_def local_ok_def by fastforce

lemma fs_wf_rank:
  assumes "fs_wf s"
  obtains rank :: "dptr \<Rightarrow> nat" where "\<And>p k q. up s p k q \<Longrightarrow> rank q < rank p"
  using assms unfolding fs_wf_def up_def by blast

lemma fs_wfI:
  assumes "root_ok s" and eu: "\<And>p k q. edge s q k p \<longleftrightarrow> up s p k q"
    and loc: "\<And>p n. dentries s p = Some n \<Longrightarrow> local_ok s p n"
    and rank: "\<And>p k q. up s p k q \<Longrightarrow> (rank :: dptr \<Rightarrow> nat) q < rank p"
  shows "fs_wf s"
proof -
  have "node_ok s p n" if pn: "dentries s p = Some n" for p n
  proof -
    have "\<exists>m. dentries s c = Some m \<and> parent m = Some p \<and> platform_safe_name m = Some k" if "(k, c) \<in> set (child_list n)" for k c
      using eu [of p k c] pn that by (auto simp: edge_def up_def)
    moreover have "\<exists>m k. dentries s q = Some m \<and> platform_safe_name n = Some k \<and> (k, p) \<in> set (child_list m)" if qn: "parent n = Some q" for q
    proof -
      obtain k where k: "platform_safe_name n = Some k" using loc [OF pn] qn by (auto simp: local_ok_def)
      then have "up s p k q" using pn qn by (simp add: up_def)
      then show ?thesis using eu [of q k p] k by (auto simp: edge_def)
    qed
    ultimately show ?thesis using loc [OF pn] by (auto simp: node_ok_def local_ok_def)
  qed
  moreover have "\<forall>p n q. dentries s p = Some n \<longrightarrow> parent n = Some q \<longrightarrow> rank q < rank p"
  proof (intro allI impI)
    fix p n q assume n: "dentries s p = Some n" "parent n = Some q"
    then obtain k where "platform_safe_name n = Some k" using loc [OF n(1)] by (auto simp: local_ok_def)
    then show "rank q < rank p" using n rank [of p k q] by (simp add: up_def)
  qed
  ultimately show ?thesis using assms(1) loc by (auto simp: fs_wf_def root_ok_def local_ok_def)
qed

lemma child_edge: "fs_wf s \<Longrightarrow> child s q k = Some p \<longleftrightarrow> edge s q k p"
  using child_iff [of s q _ k p] by (cases "dentries s q") (auto simp: edge_def child_def)

lemma up_unique: "up s p k q \<Longrightarrow> up s p k' q' \<Longrightarrow> k' = k \<and> q' = q"
  by (auto simp: up_def)

section \<open>Paths\<close>

fun path_of :: "(dptr \<Rightarrow> byte list \<Rightarrow> dptr option) \<Rightarrow> dptr \<Rightarrow> byte list list \<Rightarrow> dptr option" where
  "path_of C d [] = Some d"
| "path_of C d (k # ks) = (case C d k of None \<Rightarrow> None | Some c \<Rightarrow> path_of C c ks)"

text \<open>The tree as a map from lists of names to dentries.\<close>

definition resolve :: "fs \<Rightarrow> byte list list \<Rightarrow> dptr option" where
  "resolve s ks = path_of (child s) (root s) ks"

lemma path_of_append: "path_of C d (ks @ ls) = (case path_of C d ks of None \<Rightarrow> None | Some c \<Rightarrow> path_of C c ls)"
  by (induction ks arbitrary: d) (auto split: option.split)

lemma path_of_snoc: "path_of C d (ks @ [k]) = Some p \<longleftrightarrow> (\<exists>c. path_of C d ks = Some c \<and> C c k = Some p)"
  by (auto simp: path_of_append split: option.splits)

lemma walk_path:
  assumes "\<forall>k \<in> set ks. pathname_strlen k \<le> LTFS_FILENAME_MAX" and "ks \<noteq> []"
  shows "walk s d ks = (case path_of (child s) d ks of
    None \<Rightarrow> Inl LTFS_NO_DENTRY | Some c \<Rightarrow> Inr (the (path_of (child s) d (butlast ks)), c))"
  using assms by (induction ks arbitrary: d) (auto split: option.split)

lemma walk_InrD: "walk s d ks = Inr (p, c) \<Longrightarrow> path_of (child s) d ks = Some c \<and> path_of (child s) d (butlast ks) = Some p \<and>
    child s p (last ks) = Some c \<and> ks \<noteq> []"
  by (induction ks arbitrary: d) (auto split: if_splits option.splits)

text \<open>A dentry below another one: the walk up from it comes to the other one.\<close>

inductive below :: "fs \<Rightarrow> dptr \<Rightarrow> dptr \<Rightarrow> bool" for s where
  below_refl: "below s p p"
| below_up: "up s p k q \<Longrightarrow> below s q r \<Longrightarrow> below s p r"

lemma below_trans: "below s p q \<Longrightarrow> below s q r \<Longrightarrow> below s p r"
  by (induction rule: below.induct) (auto intro: below.intros)

lemma below_rank:
  assumes "\<And>p k q. up s p k q \<Longrightarrow> (rank :: dptr \<Rightarrow> nat) q < rank p" and "below s p r"
  shows "p = r \<or> rank r < rank p"
  using assms(2) by (induction rule: below.induct) (auto dest: assms(1))

lemma below_antisym: "fs_wf s \<Longrightarrow> below s p q \<Longrightarrow> below s q p \<Longrightarrow> p = q"
  by (erule fs_wf_rank) (metis below_rank less_asym)

lemma below_child: "fs_wf s \<Longrightarrow> up s p k q \<Longrightarrow> \<not> below s q p"
  by (erule fs_wf_rank) (metis below_rank less_asym less_irrefl)

lemma path_below:
  assumes "fs_wf s" and "path_of (child s) d ks = Some p"
  shows "below s p d"
  using assms(2)
proof (induction ks arbitrary: d)
  case (Cons k ks)
  then obtain c where c: "child s d k = Some c" "path_of (child s) c ks = Some p" by (auto split: option.splits)
  then have "up s c k d" using child_edge [OF assms(1)] fs_wf_edge_up [OF assms(1)] by blast
  then show ?case using Cons.IH [OF c(2)] below_trans below.intros by metis
qed (simp add: below_refl)

text \<open>A dentry has only one path.\<close>

lemma path_unique:
  assumes "fs_wf s" and "path_of (child s) (root s) ks = Some p" and "path_of (child s) (root s) ls = Some p"
  shows "ks = ls"
  using assms(2,3)
proof (induction ks arbitrary: p ls rule: rev_induct)
  case Nil
  show ?case
  proof (cases ls rule: rev_cases)
    case (snoc ls' l)
    then obtain c where "child s c l = Some (root s)" using Nil by (auto simp: path_of_snoc)
    then show ?thesis using child_entry [OF assms(1)] fs_wf_root [OF assms(1)] by fastforce
  qed simp
next
  case (snoc k ks)
  then obtain c where c: "path_of (child s) (root s) ks = Some c" "child s c k = Some p" by (auto simp: path_of_snoc)
  show ?case
  proof (cases ls rule: rev_cases)
    case Nil
    then have "child s c k = Some (root s)" using c(2) snoc.prems(2) by simp
    then show ?thesis using child_entry [OF assms(1)] fs_wf_root [OF assms(1)] by fastforce
  next
    case (snoc ls' l)
    then obtain c' where c': "path_of (child s) (root s) ls' = Some c'" "child s c' l = Some p"
      using snoc.prems(2) by (auto simp: path_of_snoc)
    then have "c' = c \<and> l = k" using c(2) child_edge [OF assms(1)] fs_wf_edge_up [OF assms(1)] up_unique by metis
    then show ?thesis using snoc.IH [OF c(1)] c'(1) snoc by auto
  qed
qed

section \<open>Paths after a change\<close>

text \<open>
  \<open>one_path C r\<close>: from \<open>r\<close> every dentry is reached by one path at most. The three changes of a table: an
  entry is removed with everything below it, a dentry that cannot be reached is entered with everything
  below it, and a new dentry is entered.
\<close>

definition one_path :: "(dptr \<Rightarrow> byte list \<Rightarrow> dptr option) \<Rightarrow> dptr \<Rightarrow> bool" where
  "one_path C r \<longleftrightarrow> (\<forall>ks ls p. path_of C r ks = Some p \<longrightarrow> path_of C r ls = Some p \<longrightarrow> ks = ls)"

lemma one_path_child: "fs_wf s \<Longrightarrow> one_path (child s) (root s)"
  unfolding one_path_def using path_unique by blast

lemma path_remove:
  assumes "one_path C r" and "path_of C r ds = Some d"
    and C': "\<And>q j p. C' q j = Some p \<longleftrightarrow> C q j = Some p \<and> \<not> (q = d \<and> j = k)"
  shows "path_of C' r ns = Some x \<longleftrightarrow> path_of C r ns = Some x \<and> \<not> prefix (ds @ [k]) ns"
proof (induction ns arbitrary: x rule: rev_induct)
  case Nil
  show ?case by simp
next
  case (snoc j ms)
  have "path_of C' r (ms @ [j]) = Some x \<longleftrightarrow> (\<exists>c. path_of C r ms = Some c \<and> \<not> prefix (ds @ [k]) ms \<and> C c j = Some x \<and> \<not> (c = d \<and> j = k))"
    unfolding path_of_snoc using snoc.IH C' by auto
  moreover have "c = d \<longleftrightarrow> ms = ds" if "path_of C r ms = Some c" for c
    using assms(1,2) that unfolding one_path_def by (metis option.inject)
  ultimately show ?case unfolding path_of_snoc prefix_snoc by auto
qed

lemma path_attach:
  assumes "one_path C r" and "path_of C r ds = Some d" and "C d k = None"
    and apart: "\<And>ks ls p. path_of C r ks = Some p \<Longrightarrow> path_of C f ls \<noteq> Some p"
    and C': "\<And>q j p. C' q j = Some p \<longleftrightarrow> C q j = Some p \<or> (q = d \<and> j = k \<and> p = f)"
  shows "path_of C' r ns = Some x \<longleftrightarrow> path_of C r ns = Some x \<or> (\<exists>ls. ns = ds @ [k] @ ls \<and> path_of C f ls = Some x)"
proof (induction ns arbitrary: x rule: rev_induct)
  case Nil
  show ?case by simp
next
  case (snoc j ms)
  have d: "c = d \<longleftrightarrow> ms = ds" if "path_of C r ms = Some c" for c
    using assms(1,2) that unfolding one_path_def by (metis option.inject)
  have nd: "c \<noteq> d" if "path_of C f ls = Some c" for c ls using apart [OF assms(2)] that by blast
  have "path_of C' r (ms @ [j]) = Some x \<longleftrightarrow>
      (\<exists>c. (path_of C r ms = Some c \<or> (\<exists>ls. ms = ds @ [k] @ ls \<and> path_of C f ls = Some c)) \<and> (C c j = Some x \<or> (c = d \<and> j = k \<and> x = f)))"
    unfolding path_of_snoc using snoc.IH C' by auto
  also have "\<dots> \<longleftrightarrow> path_of C r (ms @ [j]) = Some x \<or> (ms = ds \<and> j = k \<and> x = f) \<or>
      (\<exists>ls. ms = ds @ [k] @ ls \<and> path_of C f (ls @ [j]) = Some x)"
    unfolding path_of_snoc using d nd assms(2) by blast
  also have "\<dots> \<longleftrightarrow> path_of C r (ms @ [j]) = Some x \<or> (\<exists>ls. ms @ [j] = ds @ [k] @ ls \<and> path_of C f ls = Some x)"
  proof -
    have "(\<exists>ls. ms @ [j] = ds @ [k] @ ls \<and> path_of C f ls = Some x) \<longleftrightarrow>
        (ms = ds \<and> j = k \<and> x = f) \<or> (\<exists>ls. ms = ds @ [k] @ ls \<and> path_of C f (ls @ [j]) = Some x)" (is "?l \<longleftrightarrow> ?r")
    proof
      assume ?l
      then obtain ls where ls: "ms @ [j] = ds @ [k] @ ls" "path_of C f ls = Some x" by blast
      then show ?r by (cases ls rule: rev_cases) (auto simp: append_eq_append_conv2)
    next
      assume ?r
      then show ?l
      proof
        assume "ms = ds \<and> j = k \<and> x = f"
        then show ?l by (intro exI [of _ "[]"]) simp
      qed auto
    qed
    then show ?thesis by blast
  qed
  finally show ?case .
qed

section \<open>A new dentry\<close>

definition differ_at :: "dptr set \<Rightarrow> fs \<Rightarrow> fs \<Rightarrow> bool" where
  "differ_at A s s' \<longleftrightarrow> (\<forall>q. q \<notin> A \<longrightarrow> dentries s' q = dentries s q) \<and> root s' = root s"

definition new_child :: "fs \<Rightarrow> fs \<Rightarrow> dptr \<Rightarrow> dptr \<Rightarrow> byte list \<Rightarrow> bool \<Rightarrow> node \<Rightarrow> node \<Rightarrow> node \<Rightarrow> bool" where
  "new_child s s' par d k dir pn pn' dn \<longleftrightarrow> differ_at {par, d} s s' \<and>
     dentries s' par = Some pn' \<and> shape pn' = shape (child_list_update (\<lambda>l. l @ [(k, d)]) pn) \<and>
     dentries s' d = Some dn \<and> shape dn = ([], Some par, Some k, dir, False, False) \<and> numhandles dn = 2"

lemma new_child_graph:
  assumes "new_child s s' par d k dir pn pn' dn" and "d \<noteq> par" and "dentries s par = Some pn" and "dentries s d = None"
  shows "edge s' q j p \<longleftrightarrow> edge s q j p \<or> (q = par \<and> j = k \<and> p = d)"
    and "up s' p j q \<longleftrightarrow> up s p j q \<or> (q = par \<and> j = k \<and> p = d)"
proof -
  have e: "child_list pn' = child_list pn @ [(k, d)]" "parent pn' = parent pn" "platform_safe_name pn' = platform_safe_name pn"
    "child_list dn = []" "parent dn = Some par" "platform_safe_name dn = Some k"
    using assms(1) by (auto simp: new_child_def shape_def)
  have D: "dentries s' x = (if x = par then Some pn' else if x = d then Some dn else dentries s x)" for x
    using assms(1,2) by (auto simp: new_child_def differ_at_def)
  show "edge s' q j p \<longleftrightarrow> edge s q j p \<or> (q = par \<and> j = k \<and> p = d)"
    using assms(3,4) by (auto simp: edge_def D e)
  show "up s' p j q \<longleftrightarrow> up s p j q \<or> (q = par \<and> j = k \<and> p = d)"
    using assms(2-4) by (auto simp: up_def D e)
qed

lemma new_child_wf:
  assumes "fs_wf s" and new: "new_child s s' par d k dir pn pn' dn"
    and "dentries s par = Some pn" and "isdir pn" and "linked s par pn" and "child s par k = None"
    and "d = fresh_dentry s" and "fresh_dentry s' = Suc d"
  shows "fs_wf s'"
proof -
  have d: "dentries s d = None" using assms(1,7) unfolding fs_wf_def by (metis less_irrefl not_None_eq)
  then have dp: "d \<noteq> par" using assms(3) by auto
  note g = new_child_graph [OF new dp assms(3) d]
  have e: "child_list pn' = child_list pn @ [(k, d)]" "parent pn' = parent pn" "platform_safe_name pn' = platform_safe_name pn"
    "isdir pn' = isdir pn" "deleted pn' = deleted pn" "out_of_sync pn' = out_of_sync pn"
    "child_list dn = []" "parent dn = Some par" "platform_safe_name dn = Some k" "\<not> deleted dn" "\<not> out_of_sync dn"
    using new by (auto simp: new_child_def shape_def)
  have D: "dentries s' x = (if x = par then Some pn' else if x = d then Some dn else dentries s x)" and R: "root s' = root s" for x
    using new dp by (auto simp: new_child_def differ_at_def)
  have k: "k \<notin> fst ` set (child_list pn)" using assms(3,6) by (simp add: child_def map_of_eq_None_iff)
  obtain rank :: "dptr \<Rightarrow> nat" where rank: "\<And>p k q. up s p k q \<Longrightarrow> rank q < rank p" using fs_wf_rank [OF assms(1)] by blast
  have upd: "q \<noteq> d" "p \<noteq> d" if "up s p j q" for p j q
  proof -
    have "edge s q j p" using that fs_wf_edge_up [OF assms(1)] by simp
    then show "q \<noteq> d" "p \<noteq> d" using that d by (auto simp: edge_def up_def)
  qed
  show ?thesis
  proof (rule fs_wfI [where rank = "rank(d := Suc (rank par))"])
    show "root_ok s'" using fs_wf_root [OF assms(1)] assms(3) d by (auto simp: root_ok_def D R e)
    show "edge s' q j p \<longleftrightarrow> up s' p j q" for p j q using g fs_wf_edge_up [OF assms(1)] by simp
    show "local_ok s' p n" if pn: "dentries s' p = Some n" for p n
    proof -
      have fresh: "p < Suc d" using pn fs_wf_local [OF assms(1), of p] assms(3,7) by (auto simp: D local_ok_def split: if_splits)
      consider "p = par" | "p = d" | "p \<noteq> par" "p \<noteq> d" by blast
      then show ?thesis
      proof cases
        case 1
        then have n: "n = pn'" using pn by (simp add: D)
        show ?thesis unfolding n 1 using fs_wf_local [OF assms(1,3)] assms(4,5) k fresh 1
          by (auto simp: e R local_ok_def linked_def assms(8))
      next
        case 2
        then have n: "n = dn" using pn dp by (simp add: D)
        show ?thesis unfolding n 2 by (simp add: e R local_ok_def linked_def assms(8))
      next
        case 3
        then show ?thesis using pn fs_wf_local [OF assms(1), of p n] fresh by (simp add: D R local_ok_def linked_def assms(8))
      qed
    qed
    show "(rank(d := Suc (rank par))) q < (rank(d := Suc (rank par))) p" if "up s' p j q" for p j q
      using that upd [of p j q] rank [of p j q] dp by (auto simp: g)
  qed
qed

text \<open>The tree after a creation: the old map with one more path.\<close>

lemma new_child_resolve:
  assumes "fs_wf s" and "fs_wf s'" and new: "new_child s s' par d k dir pn pn' dn"
    and "dentries s par = Some pn" and "child s par k = None" and "dentries s d = None" and "resolve s ds = Some par"
  shows "resolve s' = (resolve s)(ds @ [k] \<mapsto> d)"
proof
  fix ns
  have dp: "d \<noteq> par" using assms(4,6) by auto
  have R: "root s' = root s" using new by (simp add: new_child_def differ_at_def)
  have c0: "child s d j = None" for j using assms(6) by (simp add: child_def)
  have C': "child s' q j = Some p \<longleftrightarrow> child s q j = Some p \<or> (q = par \<and> j = k \<and> p = d)" for q j p
    unfolding child_edge [OF assms(1)] child_edge [OF assms(2)] by (rule new_child_graph(1) [OF new dp assms(4,6)])
  have d: "path_of (child s) d ls = Some x \<longleftrightarrow> ls = [] \<and> x = d" for ls x by (cases ls) (auto simp: c0)
  have nd: "path_of (child s) (root s) ks \<noteq> Some d" for ks
  proof (cases ks rule: rev_cases)
    case Nil
    then show ?thesis using fs_wf_root [OF assms(1)] assms(6) by auto
  next
    case (snoc ks' j)
    then show ?thesis using child_entry [OF assms(1), of _ j d] assms(6) by (auto simp: path_of_snoc)
  qed
  have "path_of (child s') (root s) ns = Some x \<longleftrightarrow> path_of (child s) (root s) ns = Some x \<or> (ns = ds @ [k] \<and> x = d)" for x
  proof -
    have apart: "path_of (child s) d ls \<noteq> Some p" if "path_of (child s) (root s) ks = Some p" for ks ls p
      using that nd [of ks] by (auto simp: d)
    have par: "path_of (child s) (root s) ds = Some par" using assms(7) by (simp add: resolve_def)
    have "path_of (child s') (root s) ns = Some x \<longleftrightarrow>
        path_of (child s) (root s) ns = Some x \<or> (\<exists>ls. ns = ds @ [k] @ ls \<and> path_of (child s) d ls = Some x)"
      by (rule path_attach [OF one_path_child [OF assms(1)] par assms(5)]) (use apart C' in blast)+
    then show ?thesis by (auto simp: d)
  qed
  moreover have "path_of (child s) (root s) (ds @ [k]) = None"
    using assms(5,7) by (simp add: resolve_def path_of_append)
  ultimately show "resolve s' ns = ((resolve s)(ds @ [k] \<mapsto> d)) ns"
    unfolding resolve_def R by (cases "path_of (child s') (root s) ns"; cases "path_of (child s) (root s) ns") auto
qed


section \<open>A dentry taken out of the tree\<close>

text \<open>The dentry \<open>d\<close>, which has no children, is freed or kept outside of the tree.\<close>

definition cut_child :: "fs \<Rightarrow> fs \<Rightarrow> dptr \<Rightarrow> dptr \<Rightarrow> byte list \<Rightarrow> node \<Rightarrow> node \<Rightarrow> bool" where
  "cut_child s s' par d k pn pn' \<longleftrightarrow> differ_at {par, d} s s' \<and>
     dentries s' par = Some pn' \<and> shape pn' = shape (child_list_update (hash_del k d) pn) \<and>
     (\<forall>dn. dentries s' d = Some dn \<longrightarrow> child_list dn = [] \<and> parent dn = None \<and> deleted dn \<and> \<not> out_of_sync dn) \<and>
     fresh_dentry s' = fresh_dentry s"

lemma option_if_eq: "(\<And>x. a = Some x \<longleftrightarrow> b = Some x \<and> P) \<Longrightarrow> a = (if P then b else None)"
  by (cases a; cases b) auto

lemma hash_del_set: "distinct (map fst l) \<Longrightarrow> set (hash_del k d l) = set l - {(k, d)}"
  by (simp add: hash_del_def distinct_map)

lemma hash_del_distinct: "distinct (map fst l) \<Longrightarrow> distinct (map fst (hash_del k d l))"
  unfolding hash_del_def by (auto simp: distinct_map inj_on_def)

lemma cut_child_fields:
  assumes "cut_child s s' par d k pn pn'"
  shows "child_list pn' = hash_del k d (child_list pn)" "parent pn' = parent pn" "platform_safe_name pn' = platform_safe_name pn"
  "isdir pn' = isdir pn" "deleted pn' = deleted pn" "out_of_sync pn' = out_of_sync pn"
  using assms by (auto simp: cut_child_def shape_def)

lemma cut_child_edge:
  assumes wf: "fs_wf s" and cut: "cut_child s s' par d k pn pn'" and pn: "dentries s par = Some pn"
    and kd: "child s par k = Some d" and empty: "\<And>n. dentries s d = Some n \<Longrightarrow> child_list n = []"
  shows "edge s' q j p \<longleftrightarrow> edge s q j p \<and> \<not> (q = par \<and> j = k \<and> p = d)"
proof -
  have dist: "distinct (map fst (child_list pn))" using fs_wf_local [OF wf pn] by (simp add: local_ok_def)
  note cut_child_fields [OF cut, simp]
  have cut_child_neq: "d \<noteq> par" using child_entry [OF wf kd] parent_neq [OF wf] by blast
  consider "q = par" | "q = d" | "q \<noteq> par" "q \<noteq> d" by blast
  then show ?thesis
  proof cases
    case 1
    then show ?thesis using cut pn hash_del_set [OF dist] by (auto simp: edge_def cut_child_def)
  next
    case 2
    then show ?thesis using cut empty cut_child_neq by (auto simp: edge_def cut_child_def)
  next
    case 3
    then show ?thesis using cut by (simp add: edge_def cut_child_def differ_at_def)
  qed
qed

lemma cut_child_up:
  assumes wf: "fs_wf s" and cut: "cut_child s s' par d k pn pn'" and pn: "dentries s par = Some pn"
    and kd: "child s par k = Some d" and empty: "\<And>n. dentries s d = Some n \<Longrightarrow> child_list n = []"
  shows "up s' p j q \<longleftrightarrow> up s p j q \<and> \<not> (q = par \<and> j = k \<and> p = d)"
proof -
  have d: "up s d k par" using kd child_edge [OF wf] fs_wf_edge_up [OF wf] by blast
  note cut_child_fields [OF cut, simp]
  have cut_child_neq: "d \<noteq> par" using child_entry [OF wf kd] parent_neq [OF wf] by blast
  consider "p = par" | "p = d" | "p \<noteq> par" "p \<noteq> d" by blast
  then show ?thesis
  proof cases
    case 1
    then show ?thesis using cut pn cut_child_neq by (auto simp: up_def cut_child_def)
  next
    case 2
    then show ?thesis using cut up_unique [OF d] by (auto simp: up_def cut_child_def)
  next
    case 3
    then show ?thesis using cut by (simp add: up_def cut_child_def differ_at_def)
  qed
qed

lemma cut_child_wf:
  assumes wf: "fs_wf s" and cut: "cut_child s s' par d k pn pn'" and pn: "dentries s par = Some pn"
    and kd: "child s par k = Some d" and empty: "\<And>n. dentries s d = Some n \<Longrightarrow> child_list n = []"
  shows "fs_wf s'"
proof -
  have dist: "distinct (map fst (child_list pn))" using fs_wf_local [OF wf pn] by (simp add: local_ok_def)
  note cut_child_fields [OF cut, simp]
  note E = cut_child_edge [OF assms] and U = cut_child_up [OF assms]
  have R: "root s' = root s" "fresh_dentry s' = fresh_dentry s" using cut by (simp_all add: cut_child_def differ_at_def)
  have dr: "d \<noteq> root s" using child_entry [OF wf kd] fs_wf_root [OF wf] by auto
  obtain rank :: "dptr \<Rightarrow> nat" where rank: "\<And>p k q. up s p k q \<Longrightarrow> rank q < rank p" using fs_wf_rank [OF wf] by blast
  show ?thesis
  proof (rule fs_wfI [where rank = rank])
    show "root_ok s'"
    proof (cases "root s = par")
      case True
      then show ?thesis using fs_wf_root [OF wf] cut pn by (auto simp: root_ok_def R cut_child_def)
    next
      case False
      then show ?thesis using fs_wf_root [OF wf] cut dr by (simp add: root_ok_def R cut_child_def differ_at_def)
    qed
    show "edge s' q j p \<longleftrightarrow> up s' p j q" for p j q
      using E U fs_wf_edge_up [OF wf] by simp
    show "local_ok s' p n" if n: "dentries s' p = Some n" for p n
    proof -
      consider "p = par" | "p = d" | "p \<noteq> par" "p \<noteq> d" by blast
      then show ?thesis
      proof cases
        case 1
        then have e: "n = pn'" using n cut by (simp add: cut_child_def)
        have "hash_del k d (child_list pn) \<noteq> [] \<Longrightarrow> child_list pn \<noteq> []" by (auto simp: hash_del_def)
        then show ?thesis unfolding e 1 using fs_wf_local [OF wf pn] hash_del_distinct [OF dist]
          by (auto simp: local_ok_def linked_def R)
      next
        case 2
        then show ?thesis using n cut dr child_entry [OF wf kd] fs_wf_local [OF wf, of d]
          by (auto simp: local_ok_def linked_def cut_child_def R)
      next
        case 3
        then show ?thesis using n cut fs_wf_local [OF wf, of p n] by (simp add: local_ok_def linked_def cut_child_def differ_at_def)
      qed
    qed
    show "rank q < rank p" if "up s' p j q" for p j q using that rank by (auto simp: U)
  qed
qed

lemma cut_child_resolve:
  assumes wf: "fs_wf s" and cut: "cut_child s s' par d k pn pn'" and pn: "dentries s par = Some pn"
    and kd: "child s par k = Some d" and empty: "\<And>n. dentries s d = Some n \<Longrightarrow> child_list n = []"
    and ds: "resolve s ds = Some par"
  shows "resolve s' = (resolve s)(ds @ [k] := None)"
proof
  fix ns
  have R: "root s' = root s" using cut by (simp add: cut_child_def differ_at_def)
  have dd: "child s d j = None" for j
    using empty by (auto simp: child_def split: option.split)
  have C': "child s' q j = Some p \<longleftrightarrow> child s q j = Some p \<and> \<not> (q = par \<and> j = k)" for q j p
  proof -
    have "child s' q j = Some p \<longleftrightarrow> edge s' q j p" using cut_child_wf [OF wf cut pn kd empty] by (rule child_edge)
    also have "\<dots> \<longleftrightarrow> edge s q j p \<and> \<not> (q = par \<and> j = k \<and> p = d)" using wf cut pn kd empty by (rule cut_child_edge)
    also have "\<dots> \<longleftrightarrow> child s q j = Some p \<and> \<not> (q = par \<and> j = k)" using kd by (auto simp: child_edge [OF wf, symmetric])
    finally show ?thesis .
  qed
  have rm: "path_of (child s') (root s) ns = Some x \<longleftrightarrow> path_of (child s) (root s) ns = Some x \<and> \<not> prefix (ds @ [k]) ns" for x
    by (rule path_remove [OF one_path_child [OF wf]]) (use ds C' in \<open>auto simp: resolve_def\<close>)
  have "prefix (ds @ [k]) ns \<Longrightarrow> path_of (child s) (root s) ns \<noteq> None \<Longrightarrow> ns = ds @ [k]"
  proof (elim prefixE)
    fix zs assume "path_of (child s) (root s) ns \<noteq> None" and z: "ns = (ds @ [k]) @ zs"
    then have "path_of (child s) d zs \<noteq> None" using ds kd by (simp add: resolve_def path_of_append)
    then show "ns = ds @ [k]" using z by (cases zs) (auto simp: dd)
  qed
  then have "path_of (child s') (root s) ns = Some x \<longleftrightarrow> path_of (child s) (root s) ns = Some x \<and> ns \<noteq> ds @ [k]" for x
    unfolding rm by auto
  then have "path_of (child s') (root s) ns = (if ns \<noteq> ds @ [k] then path_of (child s) (root s) ns else None)"
    by (rule option_if_eq)
  then show "resolve s' ns = ((resolve s)(ds @ [k] := None)) ns" by (simp add: resolve_def R)
qed


end
