(* ===== verification/Ltfs_Fs_Ops.thy ===== *)
theory Ltfs_Fs_Ops
  imports Ltfs_Tree
begin

text \<open>
  What the file-system operations of \<^verbatim>\<open>libltfs/ltfs_fsops.c\<close> do to the tree: create, unlink and rename, from
  the point where the volume lock is held and the paths are normalised. The checks in front of it and the
  update flags of the index are in \<open>Ltfs_Fsops\<close>.
\<close>

section \<open>Environment\<close>

text \<open>
  \<open>fo_mem\<close>: which allocations succeed, by the call in which they happen; \<open>fo_match\<close>: those of the index
  criteria; \<open>fo_now\<close>: the current time; \<open>fo_iosched\<close>: an I/O scheduler is active.
\<close>

record fsops_env =
  fo_icu :: icu_env
  fo_ubrk :: "uchar list \<Rightarrow> uchar list list option"
  fo_mem :: "nat \<Rightarrow> nat \<Rightarrow> bool"
  fo_match :: "bool \<times> (nat \<Rightarrow> nat \<Rightarrow> bool) \<times> (nat \<Rightarrow> bool) \<times> (nat \<Rightarrow> nat \<Rightarrow> bool)"
  fo_now :: ltfs_timespec
  fo_iosched :: bool

text \<open>\<^verbatim>\<open>index_criteria_match\<close> for a dentry: its name must not be null.\<close>

definition match_dentry :: "fsops_env \<Rightarrow> dptr \<Rightarrow> fs \<Rightarrow> fs option" where
  "match_dentry env d s = do {
     n \<leftarrow> dentries s d;
     nm \<leftarrow> d_name n;
     case fo_match env of (ma, mp, mn, ms) \<Rightarrow>
       (case index_criteria_match (fo_icu env) (fo_ubrk env) ma mp mn ms nm (criteria s) of
          (b, ic) \<Rightarrow> change d (matches_name_criteria_update (\<lambda>_. b)) (s\<lparr>criteria := ic\<rparr>))}"

section \<open>Create\<close>

text \<open>The label \<^verbatim>\<open>out_dispose\<close>.\<close>

definition create_dispose :: "fsops_env \<Rightarrow> dptr \<Rightarrow> err + dptr \<Rightarrow> fs \<Rightarrow> (dptr, fs) result option" where
  "create_dispose env par r s = do {
     s \<leftarrow> releasewrite_mrsw (Contents par) s;
     s \<leftarrow> fs_release_dentry (fo_mem env 9 0) par s;
     Some (r, s)}"

definition new_times :: "ltfs_timespec \<Rightarrow> node \<Rightarrow> node" where
  "new_times now n = n\<lparr>creation_time := now, modify_time := now, access_time := now, change_time := now, backup_time := now\<rparr>"

definition dir_times :: "ltfs_timespec \<Rightarrow> node \<Rightarrow> node" where
  "dir_times now n = n\<lparr>modify_time := now, change_time := now\<rparr>"

text \<open>The new dentry gets its times and, if it is a file, its placement; then it is put into its directory.\<close>

definition create_setup :: "fsops_env \<Rightarrow> dptr \<Rightarrow> dptr \<Rightarrow> bool \<Rightarrow> fs \<Rightarrow> fs option" where
  "create_setup env par d dir s = do {
     s \<leftarrow> acquirewrite_mrsw (Meta par) s;
     s \<leftarrow> acquirewrite_mrsw (Meta d) s;
     s \<leftarrow> change d (new_times (fo_now env)) s;
     s \<leftarrow> change par (dir_times (fo_now env)) s;
     if \<not> dir \<and> index_criteria_get_max_filesize (criteria s) \<noteq> 0 then match_dentry env d s else Some s}"

definition create_link :: "fsops_env \<Rightarrow> dptr \<Rightarrow> dptr \<Rightarrow> byte list \<Rightarrow> bool \<Rightarrow> fs \<Rightarrow> (dptr, fs) result option" where
  "create_link env par d filename dir s = do {
     s \<leftarrow> create_setup env par d dir s;
     s \<leftarrow> change d (\<lambda>n. n\<lparr>parent := Some par, link_count := inc32 (link_count n), numhandles := inc32 (numhandles n)\<rparr>) s;
     s \<leftarrow> (if dir then change par (link_count_update inc32) s else Some s);
     s \<leftarrow> change d (child_list_update (\<lambda>_. [])) s;
     pn \<leftarrow> dentries s par;
     let (r, cl) = fs_add_key_to_hash_table (fo_mem env 4) (child_list pn) filename d;
     s \<leftarrow> change par (child_list_update (\<lambda>_. cl)) s;
     s \<leftarrow> releasewrite_mrsw (Meta d) s;
     s \<leftarrow> releasewrite_mrsw (Meta par) s;
     case r of
       Inl e \<Rightarrow> create_dispose env par (Inl e) s
     | Inr _ \<Rightarrow> create_dispose env par (Inr d) (if dir then s else fs_increment_file_count s)}"

definition create_tree :: "fsops_env \<Rightarrow> byte list \<Rightarrow> bool \<Rightarrow> bool \<Rightarrow> fs \<Rightarrow> (dptr, fs) result option" where
  "create_tree env path dir readonly s = do {
     (dirname, filename) \<leftarrow> fs_split_path path;
     (r, s) \<leftarrow> fs_path_lookup (fo_mem env 0 0) (fo_mem env 0 1) dirname {LOCK_DENTRY_CONTENTS_W} s;
     case r of
       Inl e \<Rightarrow> Some (Inl e, s)
     | Inr par \<Rightarrow> do {
         (r, s) \<leftarrow> fs_directory_lookup (fo_mem env 1 0) par filename s;
         case r of
           Inl e \<Rightarrow> create_dispose env par (Inl e) s
         | Inr (Some d) \<Rightarrow> do {
             s \<leftarrow> releasewrite_mrsw (Contents par) s;
             s \<leftarrow> fs_release_dentry (fo_mem env 2 0) d s;
             s \<leftarrow> fs_release_dentry (fo_mem env 9 0) par s;
             Some (Inl LTFS_DENTRY_EXISTS, s)}
         | Inr None \<Rightarrow> do {
             (a, s) \<leftarrow> fs_allocate_dentry (fo_mem env 3) None None (Some filename) dir readonly True s;
             case a of
               None \<Rightarrow> create_dispose env par (Inl LTFS_NO_MEMORY) s
             | Some d \<Rightarrow> create_link env par d filename dir s}}}"

section \<open>Unlink\<close>

text \<open>
  The label \<^verbatim>\<open>out\<close>: the reference to the parent is given back by a function that releases the meta lock of
  the parent, then the volume lock and the reference to the dentry.
\<close>

definition unlink_out :: "fsops_env \<Rightarrow> dptr \<Rightarrow> dptr \<Rightarrow> err + (nat \<times> nat) option \<Rightarrow> fs \<Rightarrow> ((nat \<times> nat) option, fs) result option" where
  "unlink_out env par d r s = do {
     s \<leftarrow> releasewrite_mrsw (Contents par) s;
     s \<leftarrow> fs_release_dentry_unlocked (fo_mem env 3 0) par s;
     s \<leftarrow> releaseread_mrsw Volume s;
     s \<leftarrow> fs_release_dentry (fo_mem env 4 0) d s;
     Some (r, s)}"

text \<open>A directory that is not empty.\<close>

definition not_empty :: "dptr \<Rightarrow> fs \<Rightarrow> (bool \<times> fs) option" where
  "not_empty d s = do {
     n \<leftarrow> dentries s d;
     if isdir n then do {
       s \<leftarrow> acquireread_mrsw (Contents d) s;
       s \<leftarrow> releaseread_mrsw (Contents d) s;
       Some (child_list n \<noteq> [], s)}
     else Some (False, s)}"

definition sub_valid_blocks :: "nat \<Rightarrow> fs \<Rightarrow> fs" where
  "sub_valid_blocks c s = s\<lparr>valid_blocks := sub64 (valid_blocks s) c\<rparr>"

text \<open>The entry \<open>c\<close> of the name \<open>k\<close> is removed and the counters follow.\<close>

definition unlink_entry :: "dptr \<Rightarrow> dptr \<Rightarrow> node \<Rightarrow> byte list \<Rightarrow> dptr \<Rightarrow> fs \<Rightarrow> fs option" where
  "unlink_entry par d n k c s = do {
     s \<leftarrow> change par (child_list_update (hash_del k c)) s;
     s \<leftarrow> change d (\<lambda>n. n\<lparr>deleted := True, parent := None, link_count := dec32 (link_count n)\<rparr>) s;
     s \<leftarrow> (if isdir n then change par (link_count_update dec32) s else Some s);
     s \<leftarrow> change d dec_handles s;
     s \<leftarrow> releasewrite_mrsw (Meta d) s;
     Some (sub_valid_blocks (used_blocks n) (if isdir n then s else fs_decrement_file_count s))}"

text \<open>
  When the name is not found in the directory the function ends without an error, as the return code of
  the search is 0: the result is \<open>Inr None\<close>.
\<close>

definition unlink_tree :: "fsops_env \<Rightarrow> byte list \<Rightarrow> fs \<Rightarrow> ((nat \<times> nat) option, fs) result option" where
  "unlink_tree env path s = do {
     (r, s) \<leftarrow> fs_path_lookup (fo_mem env 0 0) (fo_mem env 0 1) path {LOCK_PARENT_CONTENTS_W} s;
     case r of
       Inl e \<Rightarrow> do { s \<leftarrow> releaseread_mrsw Volume s; Some (Inl e, s) }
     | Inr d \<Rightarrow> do {
         n \<leftarrow> dentries s d;
         par \<leftarrow> parent n;
         (full, s) \<leftarrow> not_empty d s;
         if full then unlink_out env par d (Inl LTFS_DIRNOTEMPTY) s
         else do {
           s \<leftarrow> acquirewrite_mrsw (Meta par) s;
           s \<leftarrow> acquirewrite_mrsw (Meta d) s;
           s \<leftarrow> change par (dir_times (fo_now env)) s;
           pn \<leftarrow> dentries s par;
           k \<leftarrow> platform_safe_name n;
           case fs_find_key_from_hash_table (fo_mem env 1 0) (child_list pn) k of
             None \<Rightarrow> do { s \<leftarrow> releasewrite_mrsw (Meta d) s; unlink_out env par d (Inr None) s }
           | Some c \<Rightarrow> do {
               s \<leftarrow> unlink_entry par d n k c s;
               unlink_out env par d (Inr (Some (uid n, ino n))) s}}}}"

section \<open>What the steps keep\<close>

lemma fields_hold [simp]: "inode_number (hold l m s) = inode_number s" "uid_number (hold l m s) = uid_number s"
    "file_count (hold l m s) = file_count s" "valid_blocks (hold l m s) = valid_blocks s" "criteria (hold l m s) = criteria s"
  by (simp_all add: hold_def)

lemma fields_alter [simp]: "inode_number (alter p f s) = inode_number s" "uid_number (alter p f s) = uid_number s"
    "file_count (alter p f s) = file_count s" "valid_blocks (alter p f s) = valid_blocks s" "criteria (alter p f s) = criteria s"
  by (simp_all add: alter_def)

lemma fields_free [simp]: "inode_number (free_dentry p s) = inode_number s" "uid_number (free_dentry p s) = uid_number s"
    "file_count (free_dentry p s) = file_count s" "valid_blocks (free_dentry p s) = valid_blocks s" "criteria (free_dentry p s) = criteria s"
  by (simp_all add: free_dentry_def)

lemma fields_count [simp]: "dentries (fs_increment_file_count s) = dentries s" "locks (fs_increment_file_count s) = locks s"
    "root (fs_increment_file_count s) = root s" "fresh_dentry (fs_increment_file_count s) = fresh_dentry s"
    "uid_number (fs_increment_file_count s) = uid_number s"
    "dentries (fs_decrement_file_count s) = dentries s" "locks (fs_decrement_file_count s) = locks s"
    "root (fs_decrement_file_count s) = root s" "fresh_dentry (fs_decrement_file_count s) = fresh_dentry s"
    "uid_number (fs_decrement_file_count s) = uid_number s"
  by (simp_all add: fs_increment_file_count_def fs_decrement_file_count_def)

lemma fields_blocks [simp]: "dentries (sub_valid_blocks c s) = dentries s" "locks (sub_valid_blocks c s) = locks s"
    "root (sub_valid_blocks c s) = root s" "fresh_dentry (sub_valid_blocks c s) = fresh_dentry s"
    "uid_number (sub_valid_blocks c s) = uid_number s" "file_count (sub_valid_blocks c s) = file_count s"
  by (simp_all add: sub_valid_blocks_def)

text \<open>All allocations succeed.\<close>

definition no_oom :: "fsops_env \<Rightarrow> bool" where
  "no_oom env \<longleftrightarrow> fo_mem env = (\<lambda>_ _. True)"

lemma no_oomD [simp]: "no_oom env \<Longrightarrow> fo_mem env i j"
  by (simp add: no_oom_def)

lemma match_dentry_spec:
  assumes "dentries s d = Some n" and "d_name n = Some nm"
  shows "\<exists>b ic. match_dentry env d s = Some (alter d (matches_name_criteria_update (\<lambda>_. b)) (s\<lparr>criteria := ic\<rparr>))"
  using assms by (auto simp: match_dentry_def change_def split: prod.split)

lemma create_setup_spec:
  assumes "d \<noteq> par" and "dentries s par = Some pn" and "dentries s d = Some dn" and "d_name dn = Some k"
    and "\<forall>p. locks s (Meta p) = Free"
  shows "\<exists>s' n. create_setup env par d dir s = Some s' \<and>
    dentries s' d = Some n \<and> shape n = shape dn \<and> numhandles n = numhandles dn \<and> uid n = uid dn \<and>
    dentries s' par = Some (dir_times (fo_now env) pn) \<and> differ_at {par, d} s s' \<and>
    locks s' = (locks s)(Meta par := Wr, Meta d := Wr) \<and> fresh_dentry s' = fresh_dentry s \<and>
    uid_number s' = uid_number s \<and> file_count s' = file_count s"
proof -
  let ?s1 = "hold (Meta d) Wr (hold (Meta par) Wr (alter par (dir_times (fo_now env)) (alter d (new_times (fo_now env)) s)))"
  have start: "create_setup env par d dir s =
      (if \<not> dir \<and> index_criteria_get_max_filesize (criteria ?s1) \<noteq> 0 then match_dentry env d ?s1 else Some ?s1)"
    using assms by (simp add: create_setup_def lock_ops)
  show ?thesis
  proof (cases "\<not> dir \<and> index_criteria_get_max_filesize (criteria ?s1) \<noteq> 0")
    case True
    have "dentries ?s1 d = Some (new_times (fo_now env) dn)" "d_name (new_times (fo_now env) dn) = Some k"
      using assms by (simp_all add: new_times_def)
    from match_dentry_spec [OF this, of env] obtain b ic where
      "match_dentry env d ?s1 = Some (alter d (matches_name_criteria_update (\<lambda>_. b)) (?s1\<lparr>criteria := ic\<rparr>))" by blast
    then have "create_setup env par d dir s = Some (alter d (matches_name_criteria_update (\<lambda>_. b)) (?s1\<lparr>criteria := ic\<rparr>))"
      unfolding start using True by simp
    then show ?thesis using assms by (auto simp: new_times_def shape_def differ_at_def)
  next
    case False
    then have "create_setup env par d dir s = Some ?s1" unfolding start by auto
    then show ?thesis using assms by (auto simp: new_times_def shape_def differ_at_def)
  qed
qed

lemma create_link_spec:
  assumes "no_oom env" and "d \<noteq> par"
    and "dentries s par = Some pn" and "dec32 (numhandles pn) \<noteq> 0"
    and "dentries s d = Some dn" and "d_name dn = Some k" and "shape dn = ([], None, Some k, dir, False, False)" and "numhandles dn = 1"
    and "locks s (Contents par) = Wr" and "\<forall>p. locks s (Meta p) = Free"
  shows "\<exists>s' pn' dn'. create_link env par d k dir s = Some (Inr d, s') \<and>
    new_child s s' par d k dir pn pn' dn' \<and> numhandles pn' = dec32 (numhandles pn) \<and> uid dn' = uid dn \<and>
    fresh_dentry s' = fresh_dentry s \<and> uid_number s' = uid_number s \<and> locks s' = (locks s)(Contents par := Free) \<and>
    file_count s' = (if dir then file_count s else add64 (file_count s) 1)"
proof -
  have two: "inc32 (Suc 0) = 2" by (simp add: inc32_exact U32_def)
  obtain s2 n where s2: "create_setup env par d dir s = Some s2"
    and f2: "dentries s2 d = Some n" "shape n = shape dn" "numhandles n = numhandles dn" "uid n = uid dn"
      "dentries s2 par = Some (dir_times (fo_now env) pn)" "differ_at {par, d} s s2"
      "locks s2 = (locks s)(Meta par := Wr, Meta d := Wr)" "fresh_dentry s2 = fresh_dentry s"
      "uid_number s2 = uid_number s" "file_count s2 = file_count s"
    using create_setup_spec [OF assms(2,3,5,6,10), of env dir] by blast
  show ?thesis
    unfolding create_link_def s2 bind.simps create_dispose_def fs_add_key_to_hash_table_def
    using assms(1,2,4,7-10) f2
    by (cases dir) (simp_all add: lock_ops release_keeps dir_times_def new_child_def differ_at_def shape_def two
        fs_increment_file_count_def fun_eq_iff)
qed

lemma allocate_spec:
  assumes "\<forall>i. mem i" and "0 < uid_number s" and "uid_number s + 1 < U64"
  shows "\<exists>s' n. fs_allocate_dentry mem None None (Some k) dir readonly True s = Some (Some (fresh_dentry s), s') \<and>
    dentries s' (fresh_dentry s) = Some n \<and> differ_at {fresh_dentry s} s s' \<and> fresh_dentry s' = Suc (fresh_dentry s) \<and>
    locks s' = locks s \<and> file_count s' = file_count s \<and> uid_number s' = uid_number s + 1 \<and>
    d_name n = Some k \<and> shape n = ([], None, Some k, dir, False, False) \<and> numhandles n = 1 \<and> uid n = uid_number s + 1"
  using assms by (simp add: fs_allocate_dentry_def new_names_def fs_allocate_uid_def Let_def add64_exact blank_node_def shape_def differ_at_def)

text \<open>What a lookup finds is in the tree.\<close>

lemma lookup_result_resolve:
  assumes "lookup_result s path = Inr (x, p)"
  shows "\<exists>ks. resolve s ks = Some p"
  using assms by (auto simp: lookup_result_def resolve_def split: if_splits sum.splits prod.splits dest!: walk_InrD intro: exI [of _ "[]"])

lemma resolve_linked:
  assumes "fs_wf s" and "resolve s ks = Some p"
  shows "\<exists>n. dentries s p = Some n \<and> linked s p n"
proof (cases ks rule: rev_cases)
  case Nil
  then show ?thesis using assms fs_wf_root [OF assms(1)] by (auto simp: resolve_def linked_def)
next
  case (snoc ks' k)
  then obtain c where "child s c k = Some p" using assms(2) by (auto simp: resolve_def path_of_snoc)
  then show ?thesis using child_entry [OF assms(1)] by (fastforce simp: linked_def)
qed

lemma create_tree_ok:
  assumes "fs_wf s" and "refs_ok H s" and "unlocked s" and "no_oom env"
    and "fs_split_path path = Some (dirname, k)" and "lookup_result s dirname = Inr (x, par)"
    and "pathname_strlen k \<le> LTFS_FILENAME_MAX" and "child s par k = None"
    and "0 < uid_number s" and "uid_number s + 1 < U64"
  shows "\<exists>s' pn pn' dn. create_tree env path dir readonly s = Some (Inr (fresh_dentry s), s') \<and>
    dentries s par = Some pn \<and> new_child s s' par (fresh_dentry s) k dir pn pn' dn \<and> numhandles pn' = numhandles pn \<and>
    uid dn = uid_number s + 1 \<and> fresh_dentry s' = Suc (fresh_dentry s) \<and> uid_number s' = uid_number s + 1 \<and>
    locks s' = locks s \<and> file_count s' = (if dir then file_count s else add64 (file_count s) 1)"
proof -
  obtain ks where ks: "resolve s ks = Some par" using lookup_result_resolve [OF assms(6)] by blast
  obtain pn where pn: "dentries s par = Some pn" using resolve_linked [OF assms(1) ks] by blast
  have h: "0 < numhandles pn" "numhandles pn < U32" using refs_bounds [OF assms(2) pn] by simp_all
  let ?d = "fresh_dentry s" and ?s = "hold (Contents par) Wr (alter par inc_handles s)"
  have d: "dentries s ?d = None" using assms(1) unfolding fs_wf_def by (metis less_irrefl not_None_eq)
  have look: "fs_directory_lookup True par k ?s = Some (Inr None, ?s)"
    using directory_lookup_spec [of ?s par "inc_handles pn" k] assms(1,3,7,8) pn by simp
  obtain s1 n where s1: "fs_allocate_dentry (fo_mem env 3) None None (Some k) dir readonly True ?s = Some (Some ?d, s1)"
    "dentries s1 ?d = Some n" "differ_at {?d} ?s s1" "fresh_dentry s1 = Suc ?d" "locks s1 = locks ?s" "file_count s1 = file_count s"
    "uid_number s1 = uid_number s + 1"
    "d_name n = Some k" "shape n = ([], None, Some k, dir, False, False)" "numhandles n = 1" "uid n = uid_number s + 1"
    using allocate_spec [of "fo_mem env 3" ?s k dir readonly] assms(4,9,10) by auto
  have dp: "?d \<noteq> par" using d pn by auto
  obtain s2 pn' dn where s2: "create_link env par ?d k dir s1 = Some (Inr ?d, s2)"
    "new_child s1 s2 par ?d k dir (inc_handles pn) pn' dn" "numhandles pn' = dec32 (numhandles (inc_handles pn))" "uid dn = uid n"
    "fresh_dentry s2 = fresh_dentry s1" "uid_number s2 = uid_number s1" "locks s2 = (locks s1)(Contents par := Free)"
    "file_count s2 = (if dir then file_count s1 else add64 (file_count s1) 1)"
    using create_link_spec [OF assms(4) dp, of s1 "inc_handles pn" n k dir] s1(2-) pn dp h assms(3) by (simp add: differ_at_def) blast
  have "create_tree env path dir readonly s = Some (Inr ?d, s2)"
    unfolding create_tree_def using assms(4-6) path_lookup_locked [OF assms(1-3), of dirname]
    by (simp add: look s1(1) s2(1))
  moreover have "new_child s s2 par ?d k dir pn pn' dn"
    using s2(2) s1(2,3) by (auto simp: new_child_def differ_at_def shape_def)
  moreover have "locks s2 = locks s" using s2(7) s1(5) assms(3) by (simp add: fun_upd_idem)
  moreover have "numhandles pn' = numhandles pn" "uid dn = uid_number s + 1" "fresh_dentry s2 = Suc ?d" "uid_number s2 = uid_number s + 1"
    "file_count s2 = (if dir then file_count s else add64 (file_count s) 1)"
    using s2(3-6,8) s1(4,6,7,11) h s1 by simp_all
  ultimately show ?thesis using pn by blast
qed

text \<open>The failures: the state stays as it was.\<close>

lemma create_tree_fails:
  assumes "fs_wf s" and "refs_ok H s" and "unlocked s" and "no_oom env"
    and "fs_split_path path = Some (dirname, k)"
  shows "lookup_result s dirname = Inl e \<Longrightarrow> create_tree env path dir readonly s = Some (Inl e, s)"
    and "lookup_result s dirname = Inr (x, par) \<Longrightarrow> pathname_strlen k > LTFS_FILENAME_MAX \<Longrightarrow>
      create_tree env path dir readonly s = Some (Inl LTFS_NAMETOOLONG, s)"
    and "lookup_result s dirname = Inr (x, par) \<Longrightarrow> pathname_strlen k \<le> LTFS_FILENAME_MAX \<Longrightarrow> child s par k = Some c \<Longrightarrow>
      create_tree env path dir readonly s = Some (Inl LTFS_DENTRY_EXISTS, s)"
proof -
  note look = path_lookup_locked [OF assms(1-3), of dirname]
  show "create_tree env path dir readonly s = Some (Inl e, s)" if "lookup_result s dirname = Inl e"
    unfolding create_tree_def using assms(4,5) look that by simp
  assume r: "lookup_result s dirname = Inr (x, par)"
  obtain pn where pn: "dentries s par = Some pn"
    using lookup_result_resolve [OF r] resolve_linked [OF assms(1)] by blast
  have h: "0 < numhandles pn" "numhandles pn < U32" using refs_bounds [OF assms(2) pn] by simp_all
  let ?s = "hold (Contents par) Wr (alter par inc_handles s)"
  have find: "fs_directory_lookup True par k ?s =
      Some (if pathname_strlen k > LTFS_FILENAME_MAX then (Inl LTFS_NAMETOOLONG, ?s)
            else case child s par k of None \<Rightarrow> (Inr None, ?s) | Some c \<Rightarrow> (Inr (Some c), alter c inc_handles ?s))"
    using directory_lookup_spec [of ?s par "inc_handles pn" k] assms(1,3) pn by simp
  have put: "fs_release_dentry True par (alter par inc_handles s) = Some s"
    using release_keeps [of "alter par inc_handles s" par "inc_handles pn" True] pn h assms(3) by (simp add: alter_dec_inc)
  show "create_tree env path dir readonly s = Some (Inl LTFS_NAMETOOLONG, s)" if "pathname_strlen k > LTFS_FILENAME_MAX"
    unfolding create_tree_def create_dispose_def using assms(3-5) look r that by (simp add: find lock_ops hold_same put)
  show "create_tree env path dir readonly s = Some (Inl LTFS_DENTRY_EXISTS, s)"
    if kc: "pathname_strlen k \<le> LTFS_FILENAME_MAX" "child s par k = Some c"
  proof -
    obtain m where m: "dentries s c = Some m" "parent m = Some par" using child_entry [OF assms(1) kc(2)] by blast
    then have cp: "c \<noteq> par" using parent_neq [OF assms(1)] by blast
    have hm: "0 < numhandles m" "numhandles m < U32" using refs_bounds [OF assms(2) m(1)] by simp_all
    have "fs_release_dentry True c (alter c inc_handles (alter par inc_handles s)) = Some (alter par inc_handles s)"
      using release_keeps [of "alter c inc_handles (alter par inc_handles s)" c "inc_handles m" True] m cp hm assms(3)
      by (simp add: alter_dec_inc)
    then show ?thesis
      unfolding create_tree_def using assms(3-5) look r kc by (simp add: find lock_ops hold_same put)
  qed
qed


text \<open>What a lookup with a parent finds.\<close>

lemma lookup_result_child:
  assumes "fs_wf s" and "lookup_result s path = Inr (Some par, d)"
  obtains k pn n where "child s par k = Some d" "dentries s par = Some pn" "dentries s d = Some n" "parent n = Some par"
    "platform_safe_name n = Some k" "d \<noteq> par" "hash_find k (child_list pn) = Some d"
proof -
  obtain k where k: "child s par k = Some d"
    using assms(2) by (auto simp: lookup_result_def split: if_splits sum.splits dest!: walk_InrD)
  obtain pn n where pn: "dentries s par = Some pn" and n: "dentries s d = Some n" "parent n = Some par" "platform_safe_name n = Some k"
    using child_entry [OF assms(1) k] by blast
  moreover have "d \<noteq> par" using parent_neq [OF assms(1) n(1,2)] .
  moreover have "hash_find k (child_list pn) = Some d"
    using k pn fs_wf_local [OF assms(1) pn] by (simp add: child_def local_ok_def hash_find_map_of)
  ultimately show ?thesis using that k by blast
qed

text \<open>The reference to a dentry outside of the tree is given back.\<close>

definition drop_ref :: "dptr \<Rightarrow> fs \<Rightarrow> fs" where
  "drop_ref d s = (case dentries s d of Some n \<Rightarrow> if numhandles n = 1 then free_dentry d s else alter d dec_handles s | None \<Rightarrow> s)"

definition outside :: "node \<Rightarrow> bool" where
  "outside n \<longleftrightarrow> parent n = None \<and> child_list n = [] \<and> \<not> out_of_sync n \<and> 0 < numhandles n \<and> numhandles n < U32"

lemma release_drop_ref:
  assumes "dentries s d = Some n" and "outside n" and "locks s (Meta d) = Free" and "locks s (Contents d) = Free"
  shows "fs_release_dentry mem d s = Some (drop_ref d s)"
  using assms release_frees [of s d n mem] release_keeps [of s d n mem]
  by (cases "numhandles n = 1") (auto simp: drop_ref_def outside_def dec32_exact)

lemma release_unlocked_drop_ref:
  assumes "dentries s d = Some n" and "outside n" and "locks s (Meta d) = Wr" and "locks s (Contents d) = Free"
  shows "fs_release_dentry_unlocked mem d s = Some (hold (Meta d) Free (drop_ref d s))"
  using assms release_unlocked_frees [of s d n mem] release_unlocked_keeps [of s d n mem]
  by (cases "numhandles n = 1") (auto simp: drop_ref_def outside_def dec32_exact)

lemma fields_drop_ref [simp]: "locks (drop_ref d s) = locks s" "root (drop_ref d s) = root s" "fresh_dentry (drop_ref d s) = fresh_dentry s"
    "file_count (drop_ref d s) = file_count s" "valid_blocks (drop_ref d s) = valid_blocks s"
    "q \<noteq> d \<Longrightarrow> dentries (drop_ref d s) q = dentries s q"
  by (auto simp: drop_ref_def split: option.split)

lemma unlink_out_spec:
  assumes "no_oom env" and "dentries s par = Some pn" and "dec32 (numhandles pn) \<noteq> 0" and "d \<noteq> par"
    and "dentries s d = Some n" and "outside n"
    and "locks s (Contents par) = Wr" and "locks s (Meta par) = Wr" and "locks s Volume = Rd 1"
    and "locks s (Meta d) = Free" and "locks s (Contents d) = Free"
  shows "\<exists>s'. unlink_out env par d r s = Some (r, s') \<and>
    dentries s' = (dentries (drop_ref d s))(par \<mapsto> dec_handles pn) \<and> root s' = root s \<and> fresh_dentry s' = fresh_dentry s \<and>
    locks s' = (locks s)(Contents par := Free, Meta par := Free, Volume := Free) \<and>
    file_count s' = file_count s \<and> valid_blocks s' = valid_blocks s"
proof -
  let ?t = "hold Volume Free (hold (Meta par) Free (hold (Contents par) Free (alter par dec_handles s)))"
  have "fs_release_dentry (fo_mem env 4 0) d ?t = Some (drop_ref d ?t)"
    using assms by (intro release_drop_ref [of _ _ n]) auto
  moreover have "dentries (drop_ref d ?t) = (dentries (drop_ref d s))(par \<mapsto> dec_handles pn)"
    using assms(2,4,5) by (auto simp: drop_ref_def fun_upd_twist)
  ultimately show ?thesis
    using assms by (simp add: unlink_out_def lock_ops release_unlocked_keeps)
qed

lemma unlink_entry_spec:
  assumes "dentries s par = Some pn" and "dentries s d = Some m" and "d \<noteq> par" and "locks s (Meta d) = Wr"
  shows "\<exists>t. unlink_entry par d n k c s = Some t \<and>
    dentries t = (dentries s)
      (par \<mapsto> (if isdir n then link_count_update dec32 else id) (child_list_update (hash_del k c) pn),
       d \<mapsto> dec_handles m\<lparr>deleted := True, parent := None, link_count := dec32 (link_count m)\<rparr>) \<and>
    root t = root s \<and> fresh_dentry t = fresh_dentry s \<and> locks t = (locks s)(Meta d := Free) \<and>
    file_count t = (if isdir n then file_count s else sub64 (file_count s) 1) \<and> valid_blocks t = sub64 (valid_blocks s) (used_blocks n)"
  using assms
  by (cases "isdir n") (auto simp: unlink_entry_def lock_ops sub_valid_blocks_def fs_decrement_file_count_def fun_upd_twist)

lemma unlink_tree_ok:
  assumes "fs_wf s" and "refs_ok H s" and "unlocked s" and "locks s Volume = Rd 1" and "no_oom env"
    and "lookup_result s path = Inr (Some par, d)" and "dentries s d = Some n" and "child_list n = []" and "platform_safe_name n = Some k"
  shows "\<exists>s' pn pn'. unlink_tree env path s = Some (Inr (Some (uid n, ino n)), s') \<and>
    dentries s par = Some pn \<and> cut_child s s' par d k pn pn' \<and> numhandles pn' = numhandles pn \<and>
    (case dentries s' d of None \<Rightarrow> count H d = 0 | Some dn \<Rightarrow> 0 < count H d \<and> numhandles dn = count H d) \<and>
    locks s' = (locks s)(Volume := Free) \<and> valid_blocks s' = sub64 (valid_blocks s) (used_blocks n) \<and>
    file_count s' = (if isdir n then file_count s else sub64 (file_count s) 1)"
proof -
  obtain k' pn where "dentries s par = Some pn" and n: "parent n = Some par" and dp: "d \<noteq> par"
    and find: "hash_find k (child_list pn) = Some d"
    using lookup_result_child [OF assms(1,6)] assms(7,9) by (metis option.inject)
  then have pn: "dentries s par = Some pn" by simp
  have hp: "0 < numhandles pn" "numhandles pn < U32" using refs_bounds [OF assms(2) pn] by simp_all
  have hd: "numhandles n = count H d + 1" "numhandles n < U32"
    using assms(2,7) n refs_bounds [OF assms(2,7)] by (auto simp: refs_ok_def linked_def)
  have oos: "\<not> out_of_sync n" "\<not> out_of_sync pn" using fs_wf_local [OF assms(1,7)] fs_wf_local [OF assms(1) pn] by (simp_all add: local_ok_def)
  let ?s = "hold (Contents par) Wr (alter d inc_handles (alter par inc_handles s))"
  let ?n = "dec_handles (inc_handles n)\<lparr>deleted := True, parent := None, link_count := dec32 (link_count n)\<rparr>"
  let ?p = "(if isdir n then link_count_update dec32 else id) (child_list_update (hash_del k d) (dir_times (fo_now env) (inc_handles pn)))"
  let ?t = "hold (Meta d) Wr (hold (Meta par) Wr (alter par (dir_times (fo_now env)) ?s))"
  have start: "unlink_tree env path s = unlink_entry par d (inc_handles n) k d ?t \<bind> unlink_out env par d (Inr (Some (uid n, ino n)))"
    unfolding unlink_tree_def using assms(3-9) pn n dp find
    by (simp add: path_lookup_parent [OF assms(1-3)] not_empty_def lock_ops fs_find_key_from_hash_table_def dir_times_def hold_same)
  obtain t where t: "unlink_entry par d (inc_handles n) k d ?t = Some t"
    "dentries t = (dentries ?t)(par \<mapsto> ?p, d \<mapsto> ?n)" "root t = root s" "fresh_dentry t = fresh_dentry s" "locks t = (locks ?t)(Meta d := Free)"
    "file_count t = (if isdir n then file_count s else sub64 (file_count s) 1)" "valid_blocks t = sub64 (valid_blocks s) (used_blocks n)"
    using unlink_entry_spec [of ?t par "dir_times (fo_now env) (inc_handles pn)" d "inc_handles n" "inc_handles n" k d] pn assms(7) dp by auto
  have n': "numhandles ?n = numhandles n" "outside ?n" using hd oos assms(8) by (simp_all add: outside_def)
  have p': "numhandles ?p = inc32 (numhandles pn)" "shape ?p = shape (child_list_update (hash_del k d) pn)"
    by (simp_all add: dir_times_def shape_def)
  obtain s' where s': "unlink_out env par d (Inr (Some (uid n, ino n))) t = Some (Inr (Some (uid n, ino n)), s')"
    "dentries s' = (dentries (drop_ref d t))(par \<mapsto> dec_handles ?p)" "root s' = root t" "fresh_dentry s' = fresh_dentry t"
    "locks s' = (locks t)(Contents par := Free, Meta par := Free, Volume := Free)"
    "file_count s' = file_count t" "valid_blocks s' = valid_blocks t"
    using unlink_out_spec [OF assms(5), of t par ?p d ?n "Inr (Some (uid n, ino n))"] t(2,5) n' p' hp dp assms(3,4) by auto
  have D: "dentries s' par = Some (dec_handles ?p)" "\<forall>q. q \<noteq> d \<longrightarrow> q \<noteq> par \<longrightarrow> dentries s' q = dentries s q"
    "dentries s' d = (if numhandles n = 1 then None else Some (dec_handles ?n))"
    using s'(2) t(2) dp n' by (auto simp: drop_ref_def)
  have "locks s' = (locks s)(Volume := Free)" using s'(5) t(5) assms(3) dp by (auto simp: fun_eq_iff)
  moreover have "cut_child s s' par d k pn (dec_handles ?p)"
    using D p' assms(8) oos s'(3,4) t(3,4) by (auto simp: cut_child_def differ_at_def shape_def split: if_splits)
  ultimately show ?thesis
    using start t(1) s' D pn hd p' hp t(6,7) by (auto simp: dec32_exact)
qed

lemma unlink_tree_not_empty:
  assumes "fs_wf s" and "refs_ok H s" and "unlocked s" and "no_oom env"
    and "lookup_result s path = Inr (Some par, d)" and "dentries s d = Some n" and "child_list n \<noteq> []"
  shows "unlink_tree env path s = None"
proof -
  obtain k pn where "dentries s par = Some pn" "parent n = Some par" "d \<noteq> par"
    using lookup_result_child [OF assms(1,5)] assms(6) by (metis option.inject)
  moreover have "isdir n" using fs_wf_local [OF assms(1,6)] assms(7) by (simp add: local_ok_def)
  moreover have "0 < numhandles pn" "numhandles pn < U32" using refs_bounds [OF assms(2), of par pn] calculation(1) by simp_all
  ultimately show ?thesis
    unfolding unlink_tree_def using assms(3-7)
    by (simp add: path_lookup_parent [OF assms(1-3)] not_empty_def lock_ops hold_same unlink_out_def
        fs_release_dentry_unlocked_def releasewrite_mrsw_def)
qed

lemma unlink_tree_fails:
  assumes "fs_wf s" and "refs_ok H s" and "unlocked s" and "locks s Volume = Rd 1" and "no_oom env"
    and "lookup_result s path = Inl e"
  shows "unlink_tree env path s = Some (Inl e, hold Volume Free s)"
  unfolding unlink_tree_def using assms(4-6) by (simp add: path_lookup_parent [OF assms(1-3)] lock_ops)

section \<open>References after create and unlink\<close>

lemma refs_node:
  "refs_ok H s \<Longrightarrow> dentries s p = Some n \<Longrightarrow> numhandles n = count H p + (if linked s p n then 1 else 0) \<and> 0 < numhandles n"
  unfolding refs_ok_def by blast

lemma refs_okI:
  assumes "\<And>p n. dentries s p = Some n \<Longrightarrow> numhandles n = count H p + (if linked s p n then 1 else 0) \<and> 0 < numhandles n"
    and "\<And>p. p \<in># H \<Longrightarrow> dentries s p \<noteq> None" and "size_class.size H + 2 < U32"
  shows "refs_ok H s"
  unfolding refs_ok_def using assms by blast

lemma refs_handle: "refs_ok H s \<Longrightarrow> p \<in># H \<Longrightarrow> dentries s p \<noteq> None"
  by (simp add: refs_ok_def)

lemma count_zero: "refs_ok H s \<Longrightarrow> dentries s d = None \<Longrightarrow> count H d = 0"
  by (auto simp: refs_ok_def count_eq_zero_iff)

lemma new_child_refs:
  assumes "refs_ok H s" and new: "new_child s s' par d k dir pn pn' dn" and "dentries s par = Some pn" and "dentries s d = None"
    and "numhandles pn' = numhandles pn" and "size_class.size H + 3 < U32"
  shows "refs_ok (add_mset d H) s'"
proof -
  have dp: "d \<noteq> par" using assms(3,4) by auto
  have c: "count H d = 0" using count_zero [OF assms(1,4)] .
  have e: "parent pn' = parent pn" "parent dn = Some par" "numhandles dn = 2" using new by (auto simp: new_child_def shape_def)
  have D: "dentries s' x = (if x = par then Some pn' else if x = d then Some dn else dentries s x)" and R: "root s' = root s" for x
    using new dp by (auto simp: new_child_def differ_at_def)
  have "numhandles n = count (add_mset d H) p + (if linked s' p n then 1 else 0) \<and> 0 < numhandles n" if n: "dentries s' p = Some n" for p n
  proof -
    consider "p = par" "n = pn'" | "p = d" "n = dn" | "p \<noteq> par" "p \<noteq> d" "dentries s p = Some n" using n by (auto simp: D split: if_splits)
    then show ?thesis
    proof cases
      case 1
      then show ?thesis using refs_node [OF assms(1,3)] assms(5) dp by (auto simp: linked_def R e split: if_splits)
    next
      case 2
      then show ?thesis using c by (simp add: linked_def e)
    next
      case 3
      then show ?thesis using refs_node [OF assms(1) 3(3)] 3 by (auto simp: linked_def R split: if_splits)
    qed
  qed
  moreover have "dentries s' p \<noteq> None" if "p \<in># add_mset d H" for p
    using that refs_handle [OF assms(1), of p] by (auto simp: D)
  moreover have "size_class.size (add_mset d H) + 2 < U32" using assms(6) by simp
  ultimately show ?thesis by (rule refs_okI)
qed

lemma cut_child_refs:
  assumes "fs_wf s" and "refs_ok H s" and cut: "cut_child s s' par d k pn pn'" and "dentries s par = Some pn" and "d \<noteq> par"
    and "d \<noteq> root s" and "numhandles pn' = numhandles pn"
    and d: "case dentries s' d of None \<Rightarrow> count H d = 0 | Some dn \<Rightarrow> 0 < count H d \<and> numhandles dn = count H d"
  shows "refs_ok H s'"
proof -
  have R: "root s' = root s" using cut by (simp add: cut_child_def differ_at_def)
  have e: "parent pn' = parent pn" using cut by (auto simp: cut_child_def shape_def)
  have "numhandles n = count H p + (if linked s' p n then 1 else 0) \<and> 0 < numhandles n" if n: "dentries s' p = Some n" for p n
  proof -
    have "p = par \<Longrightarrow> n = pn'" "p \<noteq> par \<Longrightarrow> p \<noteq> d \<Longrightarrow> dentries s p = Some n"
      using n cut by (simp_all add: cut_child_def differ_at_def)
    then consider "p = par" "n = pn'" | "p = d" | "p \<noteq> par" "p \<noteq> d" "dentries s p = Some n" by blast
    then show ?thesis
    proof cases
      case 1
      then show ?thesis using refs_node [OF assms(2,4)] assms(7) by (auto simp: linked_def R e split: if_splits)
    next
      case 2
      then show ?thesis using d n cut assms(6) by (auto simp: cut_child_def linked_def R)
    next
      case 3
      then show ?thesis using refs_node [OF assms(2) 3(3)] 3 by (auto simp: linked_def R split: if_splits)
    qed
  qed
  moreover have "dentries s' p \<noteq> None" if "p \<in># H" for p
  proof -
    have "dentries s p \<noteq> None" "count H p \<noteq> 0" using that refs_handle [OF assms(2)] by auto
    then show ?thesis using cut d by (cases "p = par \<or> p = d") (auto simp: cut_child_def differ_at_def count_eq_zero_iff split: option.splits)
  qed
  moreover have "size_class.size H + 2 < U32" using assms(2) by (simp add: refs_ok_def)
  ultimately show ?thesis by (rule refs_okI)
qed


end
