(* ===== verification/Ltfs_Move.thy ===== *)
theory Ltfs_Move
  imports Ltfs_Fs_Ops
begin

text \<open>
  What a rename does to the tree: a dentry leaves one directory and enters another with everything below
  it. The paths afterwards, the invariant and the references; states that differ only in references and
  locks; the walk up to the root.
\<close>

section \<open>A dentry moved with everything below it\<close>

lemma path_move:
  assumes one: "one_path C r" and fs: "path_of C r fs = Some fd" and f: "C fd fn = Some f" and ts: "path_of C r ts = Some td"
    and no: "\<And>ls. path_of C f ls \<noteq> Some td"
    and C': "\<And>q j. C' q j = (if q = td \<and> j = tn then Some f else if q = fd \<and> j = fn then None else C q j)"
  shows "path_of C' r ns = (if prefix (ts @ [tn]) ns then path_of C f (drop (Suc (length ts)) ns)
    else if prefix (fs @ [fn]) ns then None else path_of C r ns)"
proof (induction ns rule: rev_induct)
  case Nil
  show ?case by simp
next
  case (snoc j ms)
  have down: "path_of C r (fs @ [fn] @ ls) = path_of C f ls" for ls using fs f by (simp add: path_of_append)
  have nfd: "path_of C f ls \<noteq> Some fd" for ls
  proof
    assume "path_of C f ls = Some fd"
    then have "fs @ [fn] @ ls = fs" using one fs down [of ls] unfolding one_path_def by metis
    then show False by simp
  qed
  have step: "path_of C' r (ms @ [j]) = (case path_of C' r ms of None \<Rightarrow> None | Some c \<Rightarrow> C' c j)"
    by (auto simp: path_of_append split: option.split)
  consider (new) "prefix (ts @ [tn]) ms" | (old) "\<not> prefix (ts @ [tn]) ms" "prefix (fs @ [fn]) ms"
    | (other) "\<not> prefix (ts @ [tn]) ms" "\<not> prefix (fs @ [fn]) ms" by blast
  then show ?case
  proof cases
    case new
    then obtain ls where ls: "ms = ts @ [tn] @ ls" by (auto elim: prefixE)
    show ?thesis
      unfolding step snoc.IH using no [of ls] nfd [of ls] by (auto simp: ls path_of_append C' split: option.split)
  next
    case old
    then obtain ls where ls: "ms = fs @ [fn] @ ls" by (auto elim: prefixE)
    then have "ms \<noteq> ts" using ts no [of ls] down by auto
    then show ?thesis unfolding step snoc.IH using old by (auto simp: prefix_snoc)
  next
    case other
    have "c = td \<longleftrightarrow> ms = ts" "c = fd \<longleftrightarrow> ms = fs" if "path_of C r ms = Some c" for c
      using one ts fs that unfolding one_path_def by (metis option.inject)+
    then show ?thesis
      unfolding step snoc.IH using other ts fs by (auto simp: prefix_snoc path_of_append C' split: option.split)
  qed
qed

definition move_node :: "dptr \<Rightarrow> dptr \<Rightarrow> dptr \<Rightarrow> byte list \<Rightarrow> byte list \<Rightarrow> dptr \<Rightarrow> node \<Rightarrow> node" where
  "move_node fd td f fk tn q n =
     (if q = f then n\<lparr>parent := Some td, platform_safe_name := Some tn\<rparr>
      else n\<lparr>child_list := (let l = (if q = fd then hash_del fk f (child_list n) else child_list n)
                           in if q = td then l @ [(tn, f)] else l)\<rparr>)"

definition move_child :: "fs \<Rightarrow> fs \<Rightarrow> dptr \<Rightarrow> dptr \<Rightarrow> dptr \<Rightarrow> byte list \<Rightarrow> byte list \<Rightarrow> bool" where
  "move_child s s' fd td f fk tn \<longleftrightarrow> root s' = root s \<and> fresh_dentry s' = fresh_dentry s \<and>
     (\<forall>q. map_option shape (dentries s' q) = map_option (\<lambda>n. shape (move_node fd td f fk tn q n)) (dentries s q))"

text \<open>When a move makes sense: the dentry is in the first directory, the second is not below it, and the
  new name is free or the dentry's own.\<close>

definition can_move :: "fs \<Rightarrow> dptr \<Rightarrow> dptr \<Rightarrow> dptr \<Rightarrow> byte list \<Rightarrow> byte list \<Rightarrow> bool" where
  "can_move s fd td f fk tn \<longleftrightarrow> fs_wf s \<and> up s f fk fd \<and> \<not> below s td f \<and> (\<exists>n. dentries s td = Some n \<and> isdir n \<and> linked s td n) \<and>
     (child s td tn = None \<or> child s td tn = Some f)"

lemma move_childD:
  assumes "move_child s s' fd td f fk tn" and "dentries s' q = Some n'"
  shows "\<exists>n. dentries s q = Some n \<and> shape n' = shape (move_node fd td f fk tn q n)"
  using assms by (cases "dentries s q") (auto simp: move_child_def dest!: spec [of _ q])

lemma move_childE:
  assumes "move_child s s' fd td f fk tn" and "dentries s q = Some n"
  shows "\<exists>n'. dentries s' q = Some n' \<and> shape n' = shape (move_node fd td f fk tn q n)"
  using assms by (cases "dentries s' q") (auto simp: move_child_def dest!: spec [of _ q])

lemma can_move_neq: "can_move s fd td f fk tn \<Longrightarrow> f \<noteq> fd \<and> f \<noteq> td"
  unfolding can_move_def up_def using parent_neq below_refl by blast

lemma move_child_edge:
  assumes "can_move s fd td f fk tn" and mv: "move_child s s' fd td f fk tn"
  shows "edge s' q j p \<longleftrightarrow> (edge s q j p \<and> \<not> (q = fd \<and> j = fk \<and> p = f)) \<or> (q = td \<and> j = tn \<and> p = f)"
proof (cases "dentries s q")
  case None
  then have "dentries s' q = None" using mv by (auto simp: move_child_def dest!: spec [of _ q])
  then show ?thesis using None assms(1) by (auto simp: edge_def can_move_def)
next
  case (Some n)
  then have dist: "distinct (map fst (child_list n))" using assms(1) fs_wf_local [of s q n] by (simp add: can_move_def local_ok_def)
  obtain n' where "dentries s' q = Some n'" "shape n' = shape (move_node fd td f fk tn q n)" using move_childE [OF mv Some] by blast
  then show ?thesis
    using Some can_move_neq [OF assms(1)] hash_del_set [OF dist] by (auto simp: edge_def move_node_def shape_def Let_def)
qed

lemma move_child_up:
  assumes "can_move s fd td f fk tn" and mv: "move_child s s' fd td f fk tn"
  shows "up s' p j q \<longleftrightarrow> (if p = f then j = tn \<and> q = td else up s p j q)"
proof (cases "dentries s p")
  case None
  then have "dentries s' p = None" using mv by (auto simp: move_child_def dest!: spec [of _ p])
  then show ?thesis using None assms(1) by (auto simp: up_def can_move_def)
next
  case (Some n)
  obtain n' where "dentries s' p = Some n'" "shape n' = shape (move_node fd td f fk tn p n)" using move_childE [OF mv Some] by blast
  then show ?thesis
    using Some by (auto simp: up_def move_node_def shape_def Let_def split: if_splits)
qed

lemma option_ext: "(\<And>x. a = Some x \<longleftrightarrow> b = Some x) \<Longrightarrow> a = b"
  by (cases a; cases b) auto

lemma below_step: "up s p k q \<Longrightarrow> p \<noteq> f \<Longrightarrow> below s p f \<longleftrightarrow> below s q f"
  using below.cases [of s p f] up_unique below_up by metis

lemma linked_move:
  assumes "can_move s fd td f fk tn" and "move_child s s' fd td f fk tn" and "shape n' = shape (move_node fd td f fk tn q n)"
    and "dentries s q = Some n"
  shows "linked s' q n' \<longleftrightarrow> linked s q n"
proof -
  have "parent n \<noteq> None" if "q = f" using that assms(1,4) by (auto simp: can_move_def up_def)
  then show ?thesis
    using assms(2,3) by (auto simp: linked_def move_child_def move_node_def shape_def Let_def split: if_splits)
qed

lemma move_local:
  assumes can: "can_move s fd td f fk tn" and mv: "move_child s s' fd td f fk tn" and n': "dentries s' q = Some n'"
  shows "local_ok s' q n'"
proof -
  obtain n where n: "dentries s q = Some n" and sh: "shape n' = shape (move_node fd td f fk tn q n)"
    using move_childD [OF mv n'] by blast
  have wf: "fs_wf s" and f: "up s f fk fd" using can by (simp_all add: can_move_def)
  have loc: "local_ok s q n" using fs_wf_local [OF wf n] .
  have e: "isdir n' = isdir n" "deleted n' = deleted n" "out_of_sync n' = out_of_sync n" "fresh_dentry s' = fresh_dentry s"
    using sh mv by (auto simp: move_node_def shape_def move_child_def Let_def split: if_splits)
  note l = linked_move [OF can mv sh n]
  have dist: "distinct (map fst (hash_del fk f (child_list n)))" using loc hash_del_distinct by (simp add: local_ok_def)
  have sub: "set (hash_del fk f (child_list n)) = set (child_list n) - {(fk, f)}" using loc hash_del_set by (simp add: local_ok_def)
  let ?l = "if q = fd then hash_del fk f (child_list n) else child_list n"
  have td: "tn \<notin> fst ` set ?l" if "q = td"
  proof -
    consider "child s td tn = None" | "child s td tn = Some f" using can by (auto simp: can_move_def)
    then show ?thesis
    proof cases
      case 1
      then have "tn \<notin> fst ` set (child_list n)" using n that by (simp add: child_def map_of_eq_None_iff)
      then show ?thesis using sub by auto
    next
      case 2
      then have "up s f tn td" using child_edge [OF wf] fs_wf_edge_up [OF wf] by blast
      then have "td = fd" "tn = fk" using up_unique [OF f] by auto
      moreover have "distinct (map fst (child_list n))" "(fk, f) \<in> set (child_list n)"
        using loc 2 child_iff [OF wf n] that calculation by (simp_all add: local_ok_def)
      ultimately have "fk \<notin> fst ` (set (child_list n) - {(fk, f)})" by (auto dest: eq_key_imp_eq_value)
      then show ?thesis using that \<open>td = fd\<close> \<open>tn = fk\<close> by (simp add: sub)
    qed
  qed
  have dir: "isdir n \<and> linked s q n" if "q = td" using can n that by (auto simp: can_move_def)
  have cl: "child_list n' = (if q = f then child_list n else let l = (if q = fd then hash_del fk f (child_list n) else child_list n)
        in if q = td then l @ [(tn, f)] else l)"
    and pp: "parent n' \<noteq> None \<longrightarrow> platform_safe_name n' \<noteq> None"
    using sh loc by (auto simp: shape_def move_node_def local_ok_def Let_def)
  have "distinct (map fst ?l)" "distinct (map fst (child_list n))" using dist loc by (simp_all add: local_ok_def)
  then have "distinct (map fst (child_list n'))" using td unfolding cl Let_def by (cases "q = f"; cases "q = td") simp_all
  moreover have "child_list n' \<noteq> [] \<longrightarrow> isdir n \<and> linked s q n" using dir loc by (auto simp: cl Let_def local_ok_def hash_del_def)
  ultimately show ?thesis using loc pp by (simp add: local_ok_def e l)
qed

lemma move_child_wf:
  assumes can: "can_move s fd td f fk tn" and mv: "move_child s s' fd td f fk tn"
  shows "fs_wf s'"
proof -
  have wf: "fs_wf s" and f: "up s f fk fd" and nb: "\<not> below s td f" using can by (simp_all add: can_move_def)
  note E = move_child_edge [OF can mv] and U = move_child_up [OF can mv]
  obtain rank :: "dptr \<Rightarrow> nat" where rank: "\<And>p k q. up s p k q \<Longrightarrow> rank q < rank p" using fs_wf_rank [OF wf] by blast
  show ?thesis
  proof (rule fs_wfI [where rank = "\<lambda>p. if below s p f then rank p + Suc (rank td) else rank p"])
    obtain n where n: "dentries s (root s) = Some n" "isdir n" "parent n = None" "platform_safe_name n = Some [slash]" using fs_wf_root [OF wf] by blast
    moreover have "root s \<noteq> f" using f n by (auto simp: up_def)
    ultimately show "root_ok s'"
      using move_childE [OF mv n(1)] mv by (auto simp: root_ok_def move_child_def move_node_def shape_def Let_def)
    show "edge s' q j p \<longleftrightarrow> up s' p j q" for p j q
      unfolding E U fs_wf_edge_up [OF wf] using up_unique [OF f, of j q] by (cases "p = f") auto
    show "local_ok s' q n'" if "dentries s' q = Some n'" for q n' using move_local [OF can mv that] .
    show "(if below s q f then rank q + Suc (rank td) else rank q) < (if below s p f then rank p + Suc (rank td) else rank p)"
      if "up s' p j q" for p j q
    proof (cases "p = f")
      case True
      then show ?thesis using that nb by (simp add: U below_refl)
    next
      case False
      then have "up s p j q" using that by (simp add: U)
      then show ?thesis using rank [of p j q] below_step [of s p j q f] False by simp
    qed
  qed
qed

lemma move_child_resolve:
  assumes can: "can_move s fd td f fk tn" and mv: "move_child s s' fd td f fk tn"
    and fs: "resolve s fs = Some fd" and ts: "resolve s ts = Some td"
  shows "resolve s' ns = (if prefix (ts @ [tn]) ns then resolve s (fs @ [fk] @ drop (Suc (length ts)) ns)
    else if prefix (fs @ [fk]) ns then None else resolve s ns)"
proof -
  have wf: "fs_wf s" and f: "up s f fk fd" and nb: "\<not> below s td f" using can by (simp_all add: can_move_def)
  have R: "root s' = root s" using mv by (simp add: move_child_def)
  have kf: "child s fd fk = Some f" using f child_edge [OF wf] fs_wf_edge_up [OF wf] by blast
  have "child s' q j = Some p \<longleftrightarrow> (if q = td \<and> j = tn then p = f else \<not> (q = fd \<and> j = fk) \<and> child s q j = Some p)" for q j p
  proof -
    have "child s' q j = Some p \<longleftrightarrow> (child s q j = Some p \<and> \<not> (q = fd \<and> j = fk \<and> p = f)) \<or> (q = td \<and> j = tn \<and> p = f)"
      unfolding child_edge [OF move_child_wf [OF can mv]] child_edge [OF wf] by (rule move_child_edge [OF can mv])
    moreover have "child s td tn = None \<or> child s td tn = Some f" using can by (simp add: can_move_def)
    ultimately show ?thesis using kf by auto
  qed
  then have C': "child s' q j = (if q = td \<and> j = tn then Some f else if q = fd \<and> j = fk then None else child s q j)" for q j
    by (intro option_ext) auto
  have no: "path_of (child s) f ls \<noteq> Some td" for ls using path_below [OF wf] nb by blast
  have "path_of (child s') (root s) ns = (if prefix (ts @ [tn]) ns then path_of (child s) f (drop (Suc (length ts)) ns)
      else if prefix (fs @ [fk]) ns then None else path_of (child s) (root s) ns)"
    by (rule path_move [OF one_path_child [OF wf] _ kf _ no C']) (use fs ts in \<open>simp_all add: resolve_def\<close>)
  then show ?thesis using fs kf by (simp add: resolve_def R path_of_append)
qed

lemma move_child_refs:
  assumes can: "can_move s fd td f fk tn" and mv: "move_child s s' fd td f fk tn" and "refs_ok H s"
    and h: "\<And>q. map_option numhandles (dentries s' q) = map_option numhandles (dentries s q)"
  shows "refs_ok H s'"
proof (rule refs_okI)
  show "numhandles n' = count H q + (if linked s' q n' then 1 else 0) \<and> 0 < numhandles n'" if n': "dentries s' q = Some n'" for q n'
  proof -
    obtain n where n: "dentries s q = Some n" and sh: "shape n' = shape (move_node fd td f fk tn q n)"
      using move_childD [OF mv n'] by blast
    then show ?thesis using refs_node [OF assms(3) n] h [of q] n' linked_move [OF can mv sh n] by (auto split: if_splits)
  qed
  show "dentries s' p \<noteq> None" if "p \<in># H" for p using refs_handle [OF assms(3) that] h [of p] by auto
qed (use assms(3) in \<open>simp add: refs_ok_def\<close>)

section \<open>States that differ in references and locks\<close>

definition same_tree :: "fs \<Rightarrow> fs \<Rightarrow> bool" where
  "same_tree s s' \<longleftrightarrow> root s' = root s \<and> fresh_dentry s' = fresh_dentry s \<and> file_count s' = file_count s \<and>
     valid_blocks s' = valid_blocks s \<and> uid_number s' = uid_number s \<and>
     (\<forall>q. map_option (numhandles_update (\<lambda>_. 0)) (dentries s' q) = map_option (numhandles_update (\<lambda>_. 0)) (dentries s q))"

lemma same_tree_refl [simp]: "same_tree s s"
  by (simp add: same_tree_def)

lemma same_tree_hold [simp]: "same_tree s (hold l m s') = same_tree s s'"
  by (simp add: same_tree_def)

lemma same_tree_alter [simp]: "same_tree s (alter p (numhandles_update f) s') = same_tree s s'"
  by (auto simp: same_tree_def option.map_comp comp_def)

lemma same_tree_node:
  assumes "same_tree s s'" and "dentries s q = Some n"
  shows "\<exists>h. dentries s' q = Some (n\<lparr>numhandles := h\<rparr>)"
proof -
  obtain n' where n': "dentries s' q = Some n'" "n'\<lparr>numhandles := 0\<rparr> = n\<lparr>numhandles := 0\<rparr>"
    using assms by (cases "dentries s' q") (auto simp: same_tree_def dest!: spec [of _ q])
  have "n' = (n'\<lparr>numhandles := 0\<rparr>)\<lparr>numhandles := numhandles n'\<rparr>" by simp
  also have "\<dots> = n\<lparr>numhandles := numhandles n'\<rparr>" unfolding n'(2) by simp
  finally show ?thesis using n'(1) by (intro exI [of _ "numhandles n'"]) simp
qed

lemma same_tree_sym: "same_tree s s' \<Longrightarrow> same_tree s' s"
  by (simp add: same_tree_def)

lemma same_tree_trans: "same_tree s s' \<Longrightarrow> same_tree s' s'' \<Longrightarrow> same_tree s s''"
  by (simp add: same_tree_def)

lemma same_tree_shape: "same_tree s s' \<Longrightarrow> same_shape s s'"
proof -
  assume S: "same_tree s s'"
  have "map_option shape (dentries s' q) = map_option shape (dentries s q)" for q
    using same_tree_node [OF S, of q] same_tree_node [OF same_tree_sym [OF S], of q] by (cases "dentries s q"; cases "dentries s' q") auto
  then show ?thesis using S by (simp add: same_shape_def same_tree_def)
qed

lemma same_tree_graph:
  assumes "same_tree s s'"
  shows "child s' = child s" "edge s' = edge s" "up s' = up s" "resolve s' = resolve s" "linked s' = linked s"
proof -
  note S = same_tree_shape [OF assms]
  show c: "child s' = child s" using child_same_shape [OF S] .
  have n: "(\<exists>n. dentries s' q = Some n \<and> P (shape n)) \<longleftrightarrow> (\<exists>n. dentries s q = Some n \<and> P (shape n))" for q P
    using same_shapeD [OF S, of q] same_shapeD [OF same_shape_sym [OF S], of q] by metis
  show "edge s' = edge s" using n [of _ "\<lambda>x. (_, _) \<in> set (fst x)"] by (auto simp: fun_eq_iff edge_def shape_def)
  show "up s' = up s" using n [of _ "\<lambda>x. fst (snd x) = Some _ \<and> fst (snd (snd x)) = Some _"] by (auto simp: fun_eq_iff up_def shape_def)
  have "root s' = root s" using assms by (simp add: same_tree_def)
  then show "resolve s' = resolve s" "linked s' = linked s" by (simp_all add: fun_eq_iff resolve_def linked_def c)
qed

lemma same_tree_below: "same_tree s s' \<Longrightarrow> below s' = below s"
proof -
  assume S: "same_tree s s'"
  have "below s x y \<Longrightarrow> below s' x y" for x y
    by (induction rule: below.induct) (auto intro: below.intros simp: same_tree_graph(3) [OF S])
  moreover have "below s' x y \<Longrightarrow> below s x y" for x y
    by (induction rule: below.induct) (auto intro: below.intros simp: same_tree_graph(3) [OF S])
  ultimately show ?thesis by (auto simp: fun_eq_iff)
qed

text \<open>A reference is taken and given back.\<close>

lemma refs_hold [simp]: "refs_ok H (hold l m s) = refs_ok H s"
  by (simp add: refs_ok_def linked_def)

lemma fs_inv_hold [simp]: "fs_inv H (hold l m s) = fs_inv H s"
  by (simp add: fs_inv_def)

lemma fs_inv_get:
  assumes "fs_inv H s" and "dentries s p = Some n" and "size_class.size H + 3 < U32"
  shows "fs_inv (add_mset p H) (alter p inc_handles s)"
proof -
  have r: "refs_ok H s" using assms(1) by (simp add: fs_inv_def)
  have "inc32 (numhandles n) = numhandles n + 1"
    using refs_node [OF r assms(2)] count_le_size [of H p] assms(3) by (intro inc32_exact) auto
  then have i: "numhandles (inc_handles n) = numhandles n + 1" by simp
  have "refs_ok (add_mset p H) (alter p inc_handles s)"
  proof (rule refs_okI)
    show "numhandles m = count (add_mset p H) q + (if linked (alter p inc_handles s) q m then 1 else 0) \<and> 0 < numhandles m"
      if "dentries (alter p inc_handles s) q = Some m" for q m
      using that refs_node [OF r, of q] i assms(2) by (cases "q = p") (auto simp: linked_def split: if_splits)
    show "dentries (alter p inc_handles s) q \<noteq> None" if "q \<in># add_mset p H" for q using refs_handle [OF r, of q] that assms(2) by auto
    show "size_class.size (add_mset p H) + 2 < U32" using assms(3) by simp
  qed
  then show ?thesis using assms(1) by (simp add: fs_inv_def)
qed

lemma fs_inv_put:
  assumes "fs_inv (add_mset p H) s" and "dentries s p = Some n" and "linked s p n"
  shows "fs_inv H (alter p dec_handles s)" "dec32 (numhandles n) \<noteq> 0"
proof -
  have r: "refs_ok (add_mset p H) s" using assms(1) by (simp add: fs_inv_def)
  have h: "numhandles n = count H p + 2" using refs_node [OF r assms(2)] assms(3) by simp
  then have d: "dec32 (numhandles n) = count H p + 1" using refs_bounds [OF r assms(2)] by (simp add: dec32_exact)
  then show "dec32 (numhandles n) \<noteq> 0" by simp
  have "refs_ok H (alter p dec_handles s)"
  proof (rule refs_okI)
    show "numhandles m = count H q + (if linked (alter p dec_handles s) q m then 1 else 0) \<and> 0 < numhandles m"
      if "dentries (alter p dec_handles s) q = Some m" for q m
      using that refs_node [OF r, of q] d assms(2,3) by (cases "q = p") (auto simp: linked_def split: if_splits)
    show "dentries (alter p dec_handles s) q \<noteq> None" if "q \<in># H" for q using refs_handle [OF r, of q] that by auto
    show "size_class.size H + 2 < U32" using r by (simp add: refs_ok_def)
  qed
  then show "fs_inv H (alter p dec_handles s)" using assms(1) by (simp add: fs_inv_def)
qed

text \<open>The walk up from a dentry ends and decides what is above it.\<close>

lemma predecessor_below:
  assumes "fs_wf s" and "dentries s d \<noteq> None"
  shows "fs_is_predecessor p d s = Some (below s d p)"
proof -
  obtain rank :: "dptr \<Rightarrow> nat" where rank: "\<And>p k q. up s p k q \<Longrightarrow> rank q < rank p" using fs_wf_rank [OF assms(1)] by blast
  show ?thesis
    unfolding fs_is_predecessor_def using assms(2)
  proof (induction "rank d" arbitrary: d rule: less_induct)
    case less
    then obtain n where n: "dentries s d = Some n" by auto
    show ?case
    proof (cases "d = p")
      case True
      then show ?thesis by (subst predecessor_loop.simps) (simp add: below_refl)
    next
      case False
      show ?thesis
      proof (cases "parent n")
        case None
        then have "\<not> below s d p" using False n by (auto simp: up_def elim: below.cases)
        then show ?thesis using False n None by (subst predecessor_loop.simps, simp, subst predecessor_loop.simps, simp)
      next
        case (Some q)
        then obtain k m where k: "platform_safe_name n = Some k" "dentries s q = Some m"
          using node_parent [OF fs_wf_node [OF assms(1) n]] by blast
        then have u: "up s d k q" using n Some by (simp add: up_def)
        have "predecessor_loop p (Some q) s = Some (below s q p)" using less(1) [OF rank [OF u]] k by simp
        then show ?thesis using False n Some below_step [OF u False] by (subst predecessor_loop.simps, simp)
      qed
    qed
  qed
qed

end
