(* ===== verification/Ltfs_Rename.thy ===== *)
theory Ltfs_Rename
  imports Ltfs_Move
begin

text \<open>
  Rename: the part of \<^verbatim>\<open>ltfs_fsops_rename\<close> between the two locks of the whole operation, that is with the
  volume lock and the rename lock held and the paths split. Each label of the function is a definition.
\<close>

section \<open>The operation\<close>

text \<open>The label \<^verbatim>\<open>out_release\<close>: the references to the directories, whose meta locks are held.\<close>

definition rename_release :: "fsops_env \<Rightarrow> dptr option \<Rightarrow> dptr option \<Rightarrow> fs \<Rightarrow> fs option" where
  "rename_release env fromdir todir s = do {
     s \<leftarrow> (case fromdir of None \<Rightarrow> Some s | Some fd \<Rightarrow> fs_release_dentry_unlocked (fo_mem env 20 0) fd s);
     s \<leftarrow> (case todir of None \<Rightarrow> Some s
          | Some td \<Rightarrow> if fromdir = Some td then fs_release_dentry (fo_mem env 21 0) td s
                      else fs_release_dentry_unlocked (fo_mem env 21 0) td s);
     s \<leftarrow> releasewrite_mrsw Rename s;
     releaseread_mrsw Volume s}"

text \<open>
  The end: the identifiers of the renamed dentry are read (also after an error), and with an I/O scheduler
  the reference to it, kept until then, is given back. The flag says that the dentry was renamed: when its
  name is not found in its directory the return code is 0 all the same.
\<close>

definition rename_end :: "fsops_env \<Rightarrow> dptr option \<Rightarrow> err + bool \<Rightarrow> fs \<Rightarrow> (bool \<times> nat \<times> nat, fs) result option" where
  "rename_end env fromdentry r s =
     (case fromdentry of
        None \<Rightarrow> Some (case r of Inl e \<Rightarrow> Inl e | Inr b \<Rightarrow> Inr (b, 0, 0), s)
      | Some f \<Rightarrow> do {
          n \<leftarrow> dentries s f;
          s \<leftarrow> (if \<not> isl r \<and> fo_iosched env then fs_release_dentry (fo_mem env 22 0) f s else Some s);
          Some (case r of Inl e \<Rightarrow> Inl e | Inr b \<Rightarrow> Inr (b, uid n, ino n), s)})"

text \<open>The label \<^verbatim>\<open>out_unlock\<close>.\<close>

definition rename_unlock ::
    "fsops_env \<Rightarrow> dptr \<Rightarrow> dptr \<Rightarrow> dptr option \<Rightarrow> err + bool \<Rightarrow> fs \<Rightarrow> (bool \<times> nat \<times> nat, fs) result option" where
  "rename_unlock env fd td fromdentry r s = do {
     s \<leftarrow> releasewrite_mrsw (Contents fd) s;
     s \<leftarrow> (if fd \<noteq> td then releasewrite_mrsw (Contents td) s else Some s);
     s \<leftarrow> rename_release env (Some fd) (Some td) s;
     rename_end env fromdentry r s}"

text \<open>A reference to a dentry that may be one of the directories, whose meta lock is held.\<close>

definition rename_put :: "bool \<Rightarrow> dptr \<Rightarrow> dptr \<Rightarrow> fs \<Rightarrow> fs option" where
  "rename_put mem d dir s = (if d = dir then change d dec_handles s else fs_release_dentry mem d s)"

text \<open>
  The directories are locked and the two dentries looked up, in the order that depends on whether the
  destination is above the source. An error comes with the source dentry, if it was found.
\<close>

definition rename_lookup_above ::
    "fsops_env \<Rightarrow> dptr \<Rightarrow> dptr \<Rightarrow> byte list \<Rightarrow> byte list \<Rightarrow> fs \<Rightarrow> ((err \<times> dptr option + dptr \<times> dptr option) \<times> fs) option" where
  "rename_lookup_above env fd td fname tname s = do {
     s \<leftarrow> acquirewrite_mrsw (Contents td) s;
     s \<leftarrow> acquirewrite_mrsw (Meta td) s;
     (r, s) \<leftarrow> fs_directory_lookup (fo_mem env 2 0) td tname s;
     s \<leftarrow> (if fd \<noteq> td then do { s \<leftarrow> acquirewrite_mrsw (Contents fd) s; acquirewrite_mrsw (Meta fd) s } else Some s);
     case r of
       Inl e \<Rightarrow> Some (Inl (e, None), s)
     | Inr todentry \<Rightarrow> do {
         (r, s) \<leftarrow> fs_directory_lookup (fo_mem env 3 0) fd fname s;
         case r of
           Inr (Some f) \<Rightarrow> Some (Inr (f, todentry), s)
         | _ \<Rightarrow> do {
             s \<leftarrow> (case todentry of None \<Rightarrow> Some s | Some t \<Rightarrow> rename_put (fo_mem env 4 0) t fd s);
             Some (Inl (LTFS_NO_DENTRY, None), s)}}}"

definition rename_lookup_other ::
    "fsops_env \<Rightarrow> dptr \<Rightarrow> dptr \<Rightarrow> byte list \<Rightarrow> byte list \<Rightarrow> fs \<Rightarrow> ((err \<times> dptr option + dptr \<times> dptr option) \<times> fs) option" where
  "rename_lookup_other env fd td fname tname s = do {
     s \<leftarrow> acquirewrite_mrsw (Contents fd) s;
     s \<leftarrow> acquirewrite_mrsw (Meta fd) s;
     (r, s) \<leftarrow> fs_directory_lookup (fo_mem env 5 0) fd fname s;
     s \<leftarrow> acquirewrite_mrsw (Contents td) s;
     s \<leftarrow> acquirewrite_mrsw (Meta td) s;
     case r of
       Inl e \<Rightarrow> Some (Inl (e, None), s)
     | Inr None \<Rightarrow> Some (Inl (LTFS_NO_DENTRY, None), s)
     | Inr (Some f) \<Rightarrow> do {
         (r, s) \<leftarrow> fs_directory_lookup (fo_mem env 6 0) td tname s;
         case r of
           Inr todentry \<Rightarrow> Some (Inr (f, todentry), s)
         | Inl e \<Rightarrow> do { s \<leftarrow> rename_put (fo_mem env 7 0) f td s; Some (Inl (e, Some f), s) }}}"

text \<open>No dentry may move below itself or replace a directory above its own.\<close>

definition rename_check :: "dptr \<Rightarrow> dptr \<Rightarrow> dptr \<Rightarrow> dptr option \<Rightarrow> fs \<Rightarrow> (err + unit) option" where
  "rename_check fd td f todentry s = do {
     loop \<leftarrow> (if f = td then Some True else fs_is_predecessor f td s);
     if loop then Some (Inl LTFS_RENAMELOOP)
     else case todentry of
       None \<Rightarrow> Some (Inr ())
     | Some t \<Rightarrow> do {
         above \<leftarrow> (if t = fd then Some True else fs_is_predecessor t fd s);
         n \<leftarrow> dentries s f;
         Some (if above then Inl (if isdir n then LTFS_DIRNOTEMPTY else LTFS_ISFILE) else Inr ())}}"

text \<open>
  The destination that is replaced leaves the tree. The file count is decremented when the \<^emph>\<open>directory\<close> of
  the destination is not a directory. \<open>None\<close> in the result: the name was not found.
\<close>

definition rename_replace :: "fsops_env \<Rightarrow> dptr \<Rightarrow> dptr \<Rightarrow> fs \<Rightarrow> (unit option \<times> fs) option" where
  "rename_replace env td t s = do {
     tn \<leftarrow> dentries s t;
     s \<leftarrow> acquirewrite_mrsw (Meta t) s;
     s \<leftarrow> (if isdir tn then change td (link_count_update dec32) s else Some s);
     s \<leftarrow> change t (\<lambda>n. n\<lparr>numhandles := dec32 (numhandles n), link_count := dec32 (link_count n), parent := None, deleted := True\<rparr>) s;
     tdn \<leftarrow> dentries s td;
     k \<leftarrow> platform_safe_name tn;
     case fs_find_key_from_hash_table (fo_mem env 8 0) (child_list tdn) k of
       None \<Rightarrow> do { s \<leftarrow> releasewrite_mrsw (Meta t) s; Some (None, s) }
     | Some c \<Rightarrow> do {
         s \<leftarrow> change td (child_list_update (hash_del k c)) s;
         s \<leftarrow> Some (if isdir tdn then s else fs_decrement_file_count s);
         s \<leftarrow> fs_release_dentry_unlocked (fo_mem env 9 0) t s;
         Some (Some (), s)}}"

text \<open>The dentry leaves its directory and gets its new name and its new parent.\<close>

definition rename_links ::
    "fsops_env \<Rightarrow> dptr \<Rightarrow> dptr \<Rightarrow> dptr \<Rightarrow> bool \<Rightarrow> byte list \<Rightarrow> byte list \<Rightarrow> dptr \<Rightarrow> fs \<Rightarrow> fs option" where
  "rename_links env fd td f dir tname k c s = do {
     s \<leftarrow> change fd (child_list_update (hash_del k c)) s;
     s \<leftarrow> (if dir then change fd (link_count_update dec32) s else Some s);
     s \<leftarrow> (if dir then change td (link_count_update inc32) s else Some s);
     s \<leftarrow> change fd (dir_times (fo_now env)) s;
     s \<leftarrow> change td (dir_times (fo_now env)) s;
     s \<leftarrow> change f (\<lambda>n. n\<lparr>change_time := fo_now env, parent := Some td, d_name := Some tname, platform_safe_name := Some tname\<rparr>) s;
     match_dentry env f s}"

text \<open>
  The dentry leaves its directory and enters the other one under the new name. When the entry cannot be added the
  function fails, and its end frees the copies of the name to which the dentry points by then; \<open>None\<close> stands for
  the dangling names.
\<close>

definition rename_move :: "fsops_env \<Rightarrow> dptr \<Rightarrow> dptr \<Rightarrow> dptr \<Rightarrow> byte list \<Rightarrow> fs \<Rightarrow> ((err + bool) \<times> fs) option" where
  "rename_move env fd td f tname s = do {
     n \<leftarrow> dentries s f;
     s \<leftarrow> acquirewrite_mrsw (Meta f) s;
     fdn \<leftarrow> dentries s fd;
     k \<leftarrow> platform_safe_name n;
     case fs_find_key_from_hash_table (fo_mem env 10 0) (child_list fdn) k of
       None \<Rightarrow> do { s \<leftarrow> releasewrite_mrsw (Meta f) s; Some (Inr False, s) }
     | Some c \<Rightarrow> do {
         s \<leftarrow> rename_links env fd td f (isdir n) tname k c s;
         tdn \<leftarrow> dentries s td;
         let (r, cl) = fs_add_key_to_hash_table (fo_mem env 11) (child_list tdn) tname f;
         s \<leftarrow> change td (child_list_update (\<lambda>_. cl)) s;
         case r of
           Inl e \<Rightarrow> do {
             s \<leftarrow> releasewrite_mrsw (Meta f) s;
             s \<leftarrow> change f (\<lambda>n. n\<lparr>d_name := None, platform_safe_name := None\<rparr>) s;
             Some (Inl e, s)}
         | Inr _ \<Rightarrow> do {
             s \<leftarrow> (if fo_iosched env then releasewrite_mrsw (Meta f) s else fs_release_dentry_unlocked (fo_mem env 12 0) f s);
             Some (Inr True, s)}}}"

text \<open>From the check on: \<open>f\<close> is the dentry to rename and \<open>todentry\<close> what has the new name.\<close>

definition rename_dentries ::
    "fsops_env \<Rightarrow> dptr \<Rightarrow> dptr \<Rightarrow> dptr \<Rightarrow> dptr option \<Rightarrow> byte list \<Rightarrow> fs \<Rightarrow> (bool \<times> nat \<times> nat, fs) result option" where
  "rename_dentries env fd td f todentry tname s = do {
     chk \<leftarrow> rename_check fd td f todentry s;
     case chk of
       Inl e \<Rightarrow> do {
         s \<leftarrow> rename_put (fo_mem env 13 0) f td s;
         s \<leftarrow> (case todentry of None \<Rightarrow> Some s | Some t \<Rightarrow> rename_put (fo_mem env 14 0) t fd s);
         rename_unlock env fd td (Some f) (Inl e) s}
     | Inr _ \<Rightarrow>
         (case todentry of
            None \<Rightarrow> do { (r, s) \<leftarrow> rename_move env fd td f tname s; rename_unlock env fd td (Some f) r s }
          | Some t \<Rightarrow>
              if t = f then do {
                s \<leftarrow> fs_release_dentry (fo_mem env 15 0) t s;
                (r, s) \<leftarrow> rename_move env fd td f tname s;
                rename_unlock env fd td (Some f) r s}
              else do {
                (full, s) \<leftarrow> not_empty t s;
                if full then do {
                  s \<leftarrow> fs_release_dentry (fo_mem env 16 0) f s;
                  s \<leftarrow> fs_release_dentry (fo_mem env 17 0) t s;
                  rename_unlock env fd td (Some f) (Inl LTFS_DIRNOTEMPTY) s}
                else do {
                  (done, s) \<leftarrow> rename_replace env td t s;
                  case done of
                    None \<Rightarrow> rename_unlock env fd td (Some f) (Inr False) s
                  | Some _ \<Rightarrow> do {
                      (r, s) \<leftarrow> rename_move env fd td f tname s;
                      rename_unlock env fd td (Some f) r s}}})}"

definition rename_tree ::
    "fsops_env \<Rightarrow> byte list \<Rightarrow> byte list \<Rightarrow> byte list \<Rightarrow> byte list \<Rightarrow> fs \<Rightarrow> (bool \<times> nat \<times> nat, fs) result option" where
  "rename_tree env fdir fname tdir tname s = do {
     (r, s) \<leftarrow> fs_path_lookup (fo_mem env 0 0) (fo_mem env 0 1) fdir {} s;
     case r of
       Inl e \<Rightarrow> do { s \<leftarrow> rename_release env None None s; rename_end env None (Inl e) s }
     | Inr fd \<Rightarrow> do {
         (r, s) \<leftarrow> fs_path_lookup (fo_mem env 1 0) (fo_mem env 1 1) tdir {} s;
         case r of
           Inl e \<Rightarrow> do {
             s \<leftarrow> acquirewrite_mrsw (Meta fd) s;
             s \<leftarrow> rename_release env (Some fd) None s;
             rename_end env None (Inl e) s}
         | Inr td \<Rightarrow> do {
             above \<leftarrow> (if td = fd then Some True else fs_is_predecessor td fd s);
             (r, s) \<leftarrow> (if above then rename_lookup_above env fd td fname tname s else rename_lookup_other env fd td fname tname s);
             case r of
               Inl (e, f) \<Rightarrow> rename_unlock env fd td f (Inl e) s
             | Inr (f, todentry) \<Rightarrow> rename_dentries env fd td f todentry tname s}}}"

section \<open>The steps of a rename\<close>

lemma child_list_const: "n\<lparr>child_list := g (child_list n)\<rparr> = child_list_update g n"
  by (cases n) simp

lemma rename_links_spec:
  assumes "dentries s f = Some n" and "dentries s fd = Some fdn" and "dentries s td = Some tdn" and "f \<noteq> fd" and "f \<noteq> td"
  shows "\<exists>s' m. rename_links env fd td f dir tn k c s = Some s' \<and> locks s' = locks s \<and> root s' = root s \<and>
    fresh_dentry s' = fresh_dentry s \<and> file_count s' = file_count s \<and> valid_blocks s' = valid_blocks s \<and> uid_number s' = uid_number s \<and>
    dentries s' f = Some m \<and> shape m = shape (n\<lparr>parent := Some td, platform_safe_name := Some tn\<rparr>) \<and>
    numhandles m = numhandles n \<and> uid m = uid n \<and> ino m = ino n \<and>
    (\<forall>q. q \<noteq> f \<longrightarrow> map_option (\<lambda>m. (shape m, numhandles m)) (dentries s' q) =
      map_option (\<lambda>m. (shape (if q = fd then child_list_update (hash_del k c) m else m), numhandles m)) (dentries s q))"
proof -
  let ?l = "if dir then alter td (link_count_update inc32) (alter fd (link_count_update dec32) (alter fd (child_list_update (hash_del k c)) s))
    else alter fd (child_list_update (hash_del k c)) s"
  let ?s = "alter f (\<lambda>n. n\<lparr>change_time := fo_now env, parent := Some td, d_name := Some tn, platform_safe_name := Some tn\<rparr>)
    (alter td (dir_times (fo_now env)) (alter fd (dir_times (fo_now env)) ?l))"
  let ?n = "n\<lparr>change_time := fo_now env, parent := Some td, d_name := Some tn, platform_safe_name := Some tn\<rparr>"
  have "rename_links env fd td f dir tn k c s = match_dentry env f ?s"
    using assms by (cases dir; cases "fd = td") (simp_all add: rename_links_def change_Some)
  moreover have d: "dentries ?s f = Some ?n" "d_name ?n = Some tn" using assms by (cases dir; simp)+
  ultimately obtain b ic where r: "rename_links env fd td f dir tn k c s =
      Some (alter f (matches_name_criteria_update (\<lambda>_. b)) (?s\<lparr>criteria := ic\<rparr>))"
    using match_dentry_spec [OF d] by metis
  show ?thesis
    unfolding r using d assms
    by (cases dir; cases "fd = td") (auto simp: shape_def dir_times_def option.map_comp comp_def)
qed

lemma rename_move_spec:
  assumes "no_oom env" and can: "can_move s fd td f fk tn" and inv: "fs_inv (add_mset f H) s"
    and n: "dentries s f = Some n" and free: "locks s (Meta f) = Free"
  shows "\<exists>u s' m. rename_move env fd td f tn s = Some (Inr True, s') \<and> move_child s u fd td f fk tn \<and> same_tree u s' \<and>
    fs_inv (if fo_iosched env then add_mset f H else H) s' \<and> locks s' = locks s \<and>
    file_count s' = file_count s \<and> dentries s' f = Some m \<and> uid m = uid n \<and> ino m = ino n"
proof -
  have wf: "fs_wf s" and f: "up s f fk fd" using can by (simp_all add: can_move_def)
  have ed: "edge s fd fk f" using f fs_wf_edge_up [OF wf] by blast
  then obtain fdn tdn where dn: "dentries s fd = Some fdn" "dentries s td = Some tdn"
    using can by (auto simp: can_move_def edge_def)
  have k: "platform_safe_name n = Some fk" "parent n = Some fd" using f n by (auto simp: up_def)
  have find: "hash_find fk (child_list fdn) = Some f"
    using ed fs_wf_local [OF wf dn(1)] dn(1) by (auto simp: edge_def local_ok_def hash_find_map_of)
  note neq = can_move_neq [OF can]
  let ?y = "hold (Meta f) Wr s"
  obtain u m where u: "rename_links env fd td f (isdir n) tn fk f ?y = Some u" "locks u = locks ?y" "root u = root s"
    "fresh_dentry u = fresh_dentry s" "file_count u = file_count s" "dentries u f = Some m"
    "shape m = shape (n\<lparr>parent := Some td, platform_safe_name := Some tn\<rparr>)" "numhandles m = numhandles n" "uid m = uid n" "ino m = ino n"
    and o: "\<forall>q. q \<noteq> f \<longrightarrow> map_option (\<lambda>m. (shape m, numhandles m)) (dentries u q) =
      map_option (\<lambda>m. (shape (if q = fd then child_list_update (hash_del fk f) m else m), numhandles m)) (dentries s q)"
    using rename_links_spec [of ?y f n fd fdn td tdn env "isdir n" tn fk f] n dn neq by auto
  obtain tdn' where td: "dentries u td = Some tdn'" using o dn neq by (cases "dentries u td") (auto dest!: spec [of _ td])
  let ?u = "alter td (child_list_update (\<lambda>l. l @ [(tn, f)])) u"
  have e: "alter td (child_list_update (\<lambda>_. child_list tdn' @ [(tn, f)])) u = ?u" using td by (simp add: alter_def child_list_const [where g = "\<lambda>l. l @ [(tn, f)]"])
  have start: "rename_move env fd td f tn s =
      (if fo_iosched env then releasewrite_mrsw (Meta f) ?u else fs_release_dentry_unlocked True f ?u) \<bind> (\<lambda>s. Some (Inr True, s))"
    unfolding rename_move_def using assms(1) n dn k find free u(1) td
    by (simp add: lock_ops fs_find_key_from_hash_table_def fs_add_key_to_hash_table_def e)
  have sh: "map_option shape (dentries ?u q) = map_option (\<lambda>n. shape (move_node fd td f fk tn q n)) (dentries s q)"
    and nh: "map_option numhandles (dentries ?u q) = map_option numhandles (dentries s q)" for q
  proof -
    have "q \<noteq> f \<Longrightarrow> map_option (\<lambda>m. (shape m, numhandles m)) (dentries ?u q) =
        map_option (\<lambda>n. (shape (move_node fd td f fk tn q n), numhandles n)) (dentries s q)"
      using o [rule_format, of q] by (cases "dentries s q"; cases "dentries u q") (auto simp: move_node_def shape_def Let_def)
    moreover have "map_option (\<lambda>m. (shape m, numhandles m)) (dentries ?u f) =
        map_option (\<lambda>n. (shape (move_node fd td f fk tn f n), numhandles n)) (dentries s f)"
      using u(6-8) n neq by (simp add: move_node_def)
    ultimately have "map_option (\<lambda>m. (shape m, numhandles m)) (dentries ?u q) =
        map_option (\<lambda>n. (shape (move_node fd td f fk tn q n), numhandles n)) (dentries s q)" by blast
    then show "map_option shape (dentries ?u q) = map_option (\<lambda>n. shape (move_node fd td f fk tn q n)) (dentries s q)"
      "map_option numhandles (dentries ?u q) = map_option numhandles (dentries s q)"
      by (cases "dentries s q"; cases "dentries ?u q"; simp)+
  qed
  have mv: "move_child s ?u fd td f fk tn" using sh u(3,4) by (simp add: move_child_def)
  have iu: "fs_inv (add_mset f H) ?u"
    using move_child_wf [OF can mv] move_child_refs [OF can mv _ nh] inv by (simp add: fs_inv_def)
  have uf: "dentries ?u f = Some m" "linked ?u f m" using u(6,7) neq by (auto simp: linked_def shape_def)
  note put = fs_inv_put [OF iu uf]
  have l: "locks (hold (Meta f) Free ?u) = locks s" using u(2) free by auto
  show ?thesis
  proof (cases "fo_iosched env")
    case True
    then have "rename_move env fd td f tn s = Some (Inr True, hold (Meta f) Free ?u)" unfolding start using u(2) by (simp add: lock_ops)
    then show ?thesis using mv iu l u uf True by (intro exI [of _ ?u] exI [of _ "hold (Meta f) Free ?u"] exI [of _ m]) simp
  next
    case False
    have "fs_release_dentry_unlocked True f ?u = Some (hold (Meta f) Free (alter f dec_handles ?u))"
      by (rule release_unlocked_keeps [OF uf(1) put(2)]) (simp add: u(2))
    then have "rename_move env fd td f tn s = Some (Inr True, hold (Meta f) Free (alter f dec_handles ?u))" unfolding start using False by simp
    moreover have "locks (hold (Meta f) Free (alter f dec_handles ?u)) = locks s" using l by simp
    ultimately show ?thesis using mv put(1) u uf False
      by (intro exI [of _ ?u] exI [of _ "hold (Meta f) Free (alter f dec_handles ?u)"] exI [of _ "dec_handles m"]) simp
  qed
qed

lemma rename_replace_spec:
  assumes "no_oom env" and inv: "fs_inv (add_mset t H) s" and kt: "child s td tn = Some t"
    and n: "dentries s t = Some n" and empty: "child_list n = []" and free: "locks s (Meta t) = Free" "locks s (Contents t) = Free"
  shows "\<exists>s' pn pn'. rename_replace env td t s = Some (Some (), s') \<and> dentries s td = Some pn \<and> cut_child s s' td t tn pn pn' \<and>
    fs_inv H s' \<and> locks s' = locks s \<and> file_count s' = file_count s"
proof -
  have wf: "fs_wf s" and refs: "refs_ok (add_mset t H) s" using inv by (simp_all add: fs_inv_def)
  obtain pn where pn: "dentries s td = Some pn" and n2: "parent n = Some td" "platform_safe_name n = Some tn" and ed: "(tn, t) \<in> set (child_list pn)"
    using child_entry [OF wf kt] n by auto
  have neq: "t \<noteq> td" using parent_neq [OF wf n n2(1)] .
  have loc: "isdir pn" "distinct (map fst (child_list pn))" "\<not> out_of_sync n" "\<not> out_of_sync pn"
    using fs_wf_local [OF wf pn] fs_wf_local [OF wf n] ed by (auto simp: local_ok_def)
  have find: "hash_find tn (child_list pn) = Some t" using ed loc by (simp add: hash_find_map_of)
  have lt: "linked s t n" using n2 by (simp add: linked_def)
  have h: "numhandles n = count H t + 2" "numhandles n < U32" using refs_node [OF refs n] lt refs_bounds [OF refs n] by simp_all
  let ?t = "n\<lparr>numhandles := count H t + 1, link_count := dec32 (link_count n), parent := None, deleted := True\<rparr>"
  let ?p = "child_list_update (hash_del tn t) ((if isdir n then link_count_update dec32 else id) pn)"
  let ?u = "(hold (Meta t) Wr s)\<lparr>dentries := (dentries s)(td \<mapsto> ?p, t \<mapsto> ?t)\<rparr>"
  have d: "dec32 (numhandles n) = count H t + 1" using h by (simp add: dec32_exact)
  have start: "rename_replace env td t s = fs_release_dentry_unlocked True t ?u \<bind> (\<lambda>s. Some (Some (), s))"
    unfolding rename_replace_def using assms(1) n pn neq n2 find free loc(1)
    by (cases "isdir n") (simp_all add: lock_ops fs_find_key_from_hash_table_def d alter_def hold_def fun_upd_twist)
  have out: "outside ?t" using empty loc h by (simp add: outside_def)
  have "fs_release_dentry_unlocked True t ?u = Some (hold (Meta t) Free (drop_ref t ?u))"
    by (rule release_unlocked_drop_ref [OF _ out]) (use free neq in simp_all)
  then have r: "rename_replace env td t s = Some (Some (), hold (Meta t) Free (drop_ref t ?u))" unfolding start by simp
  let ?s = "hold (Meta t) Free (drop_ref t ?u)"
  have one: "(Suc (count H t) = Suc 0) = (count H t = 0)" "dec32 (Suc (count H t)) = count H t" using h by (simp_all add: dec32_exact)
  have D: "dentries ?s td = Some ?p" "dentries ?s t = (if count H t = 0 then None else Some (?t\<lparr>numhandles := count H t\<rparr>))"
    "\<forall>q. q \<noteq> td \<longrightarrow> q \<noteq> t \<longrightarrow> dentries ?s q = dentries s q" "root ?s = root s" "fresh_dentry ?s = fresh_dentry s" "file_count ?s = file_count s"
    using neq one by (auto simp: drop_ref_def count_eq_zero_iff)
  have cut: "cut_child s' ?s td t tn pn ?p" if "s' = s \<or> s' = alter t dec_handles s" for s'
    using that D empty loc neq by (auto simp: cut_child_def differ_at_def shape_def)
  note put = fs_inv_put [OF inv n lt]
  have s1: "fs_wf (alter t dec_handles s)" "refs_ok H (alter t dec_handles s)" using put(1) by (simp_all add: fs_inv_def)
  have "fs_wf ?s"
    by (rule cut_child_wf [OF wf cut [OF disjI1 [OF refl]] pn kt]) (use n empty in simp)
  moreover have "refs_ok H ?s"
  proof (rule cut_child_refs [OF s1 cut [OF disjI2 [OF refl]]])
    show "dentries (alter t dec_handles s) td = Some pn" "t \<noteq> td" "t \<noteq> root (alter t dec_handles s)" "numhandles ?p = numhandles pn"
      using pn neq n2 fs_wf_root [OF wf] n by auto
    show "case dentries ?s t of None \<Rightarrow> count H t = 0 | Some dn \<Rightarrow> 0 < count H t \<and> numhandles dn = count H t"
      unfolding D(2) by simp
  qed
  moreover have "locks ?s = locks s" using free by auto
  ultimately show ?thesis using r pn cut D(6) by (intro exI [of _ ?s] exI [of _ pn] exI [of _ ?p]) (simp add: fs_inv_def)
qed

text \<open>A lookup in a directory takes a reference to what it finds.\<close>

definition took :: "dptr option \<Rightarrow> fs \<Rightarrow> fs" where
  "took c s = (case c of None \<Rightarrow> s | Some c \<Rightarrow> alter c inc_handles s)"

definition took_refs :: "dptr option \<Rightarrow> dptr multiset \<Rightarrow> dptr multiset" where
  "took_refs c H = (case c of None \<Rightarrow> H | Some c \<Rightarrow> add_mset c H)"

lemma took_simps [simp]: "locks (took c s) = locks s" "same_tree s' (took c s) = same_tree s' s"
  "took c (hold l m s) = hold l m (took c s)" "child (took c s) = child s" "fs_wf s \<Longrightarrow> fs_wf (took c s)"
  by (auto simp: took_def split: option.split)

lemma took_refs_size: "size_class.size (took_refs c H) \<le> size_class.size H + 1"
  by (simp add: took_refs_def split: option.split)

lemma took_look:
  assumes "fs_wf s" and "dentries s d \<noteq> None" and "pathname_strlen k \<le> LTFS_FILENAME_MAX"
    and "\<forall>k c. child s d k = Some c \<longrightarrow> locks s (Meta c) = Free"
  shows "fs_directory_lookup True d k s = Some (Inr (child s d k), took (child s d k) s)"
  using assms directory_lookup_spec [of s d _ k] by (auto simp: took_def split: option.split)

lemma took_inv:
  assumes "fs_inv H s" and "size_class.size H + 3 < U32" and "same_tree s' s"
  shows "fs_inv (took_refs (child s' d k) H) (took (child s' d k) s)"
proof (cases "child s' d k")
  case (Some c)
  then have "child s d k = Some c" using same_tree_graph(1) [OF assms(3)] by simp
  then obtain m where "dentries s c = Some m" using child_entry [of s d k c] assms(1) by (auto simp: fs_inv_def)
  then show ?thesis using Some fs_inv_get [OF assms(1) _ assms(2)] by (simp add: took_def took_refs_def)
qed (simp add: took_def took_refs_def assms)

lemma rename_lookup_spec:
  assumes "no_oom env" and inv: "fs_inv H s" and size: "size_class.size H + 4 < U32" and "unlocked s"
    and dn: "dentries s fd \<noteq> None" "dentries s td \<noteq> None" and f: "child s fd fname = Some f"
    and len: "pathname_strlen fname \<le> LTFS_FILENAME_MAX" "pathname_strlen tname \<le> LTFS_FILENAME_MAX"
  shows "\<exists>s'. (if td = fd \<or> below s fd td then rename_lookup_above env fd td fname tname s else rename_lookup_other env fd td fname tname s) =
      Some (Inr (f, child s td tname), s') \<and> same_tree s s' \<and> fs_inv (add_mset f (took_refs (child s td tname) H)) s' \<and>
      locks s' = (locks s)(Contents fd := Wr, Meta fd := Wr, Contents td := Wr, Meta td := Wr)"
proof -
  let ?t = "child s td tname"
  let ?x = "took (Some f) (took ?t s)" and ?y = "took ?t (took (Some f) s)"
  have wf: "fs_wf s" using inv by (simp add: fs_inv_def)
  have self: "child s d k = Some c \<Longrightarrow> c \<noteq> d" for d k c using child_entry [OF wf] parent_neq [OF wf] by blast
  have d: "dentries (took c s) q = None \<longleftrightarrow> dentries s q = None" for c q s by (auto simp: took_def split: option.split)
  have cbelow: "child s d k = Some c \<Longrightarrow> below s c d" for d k c
    using child_edge [OF wf] fs_wf_edge_up [OF wf] below_up below_refl by metis
  have i1: "fs_inv (took_refs ?t H) (took ?t s)" using took_inv [OF inv] size by simp
  have "fs_inv (took_refs (Some f) (took_refs ?t H)) ?x"
    using took_inv [OF i1, of s fd fname] took_refs_size [of ?t H] size by (simp add: f)
  then have ix: "fs_inv (add_mset f (took_refs ?t H)) ?x" by (simp add: took_refs_def)
  have i2: "fs_inv (add_mset f H) (took (Some f) s)" using took_inv [OF inv, of s fd fname] size f by (simp add: took_refs_def)
  have "fs_inv (took_refs ?t (add_mset f H)) ?y" using took_inv [OF i2, of s td tname] size by simp
  then have iy: "fs_inv (add_mset f (took_refs ?t H)) ?y" by (simp add: took_refs_def add_mset_commute split: option.splits)
  show ?thesis
  proof (cases "td = fd \<or> below s fd td")
    case True
    let ?u = "hold (Meta td) Wr (hold (Contents td) Wr s)"
    let ?v = "hold (Meta fd) Wr (hold (Contents fd) Wr (took ?t ?u))"
    have "fs_directory_lookup True td tname ?u = Some (Inr ?t, took ?t ?u)"
      using took_look [of ?u td tname] wf dn len self assms(4) by auto
    moreover have "fs_directory_lookup True fd fname ?v = Some (Inr (Some f), took (Some f) ?v)"
    proof -
      have "locks ?v (Meta c) = Free" if c: "child s fd k = Some c" for k c
        using self [OF c] cbelow [OF c] True below_antisym [OF wf] assms(4) by auto
      then show ?thesis using took_look [of ?v fd fname] wf dn len f by (simp add: d)
    qed
    ultimately have "rename_lookup_above env fd td fname tname s = Some (Inr (f, ?t), took (Some f) ?v)"
      unfolding rename_lookup_above_def using assms(1,4) by (cases "fd = td") (simp_all add: lock_ops hold_same)
    moreover have "fs_inv (add_mset f (took_refs ?t H)) (took (Some f) ?v)" using ix by simp
    moreover have "locks (took (Some f) ?v) = (locks s)(Contents fd := Wr, Meta fd := Wr, Contents td := Wr, Meta td := Wr)"
      by (auto simp: fun_eq_iff)
    ultimately show ?thesis using True by (intro exI [of _ "took (Some f) ?v"]) simp
  next
    case False
    let ?u = "hold (Meta fd) Wr (hold (Contents fd) Wr s)"
    let ?v = "hold (Meta td) Wr (hold (Contents td) Wr (took (Some f) ?u))"
    have "fs_directory_lookup True fd fname ?u = Some (Inr (Some f), took (Some f) ?u)"
      using took_look [of ?u fd fname] wf dn len self f assms(4) by auto
    moreover have "fs_directory_lookup True td tname ?v = Some (Inr ?t, took ?t ?v)"
    proof -
      have "locks ?v (Meta c) = Free" if c: "child s td k = Some c" for k c
        using self [OF c] cbelow [OF c] False assms(4) by auto
      then show ?thesis using took_look [of ?v td tname] wf dn len by (simp add: d)
    qed
    ultimately have "rename_lookup_other env fd td fname tname s = Some (Inr (f, ?t), took ?t ?v)"
      unfolding rename_lookup_other_def using assms(1,4) False by (simp add: lock_ops)
    moreover have "fs_inv (add_mset f (took_refs ?t H)) (took ?t ?v)" using iy by simp
    moreover have "locks (took ?t ?v) = (locks s)(Contents fd := Wr, Meta fd := Wr, Contents td := Wr, Meta td := Wr)"
      by (auto simp: fun_eq_iff)
    ultimately show ?thesis using False by (intro exI [of _ "took ?t ?v"]) simp
  qed
qed

lemma rename_unlock_spec:
  assumes "no_oom env" and inv: "fs_inv (add_mset fd (add_mset td H)) s"
    and dn: "dentries s fd = Some fdn" "linked s fd fdn" "dentries s td = Some tdn" "linked s td tdn"
    and lk: "locks s = l(Contents fd := Wr, Meta fd := Wr, Contents td := Wr, Meta td := Wr)" "l Rename = Wr" "l Volume = Rd 1"
      "\<And>p. l (Contents p) = Free" "\<And>p. l (Meta p) = Free"
  shows "\<exists>s'. rename_unlock env fd td fromdentry r s = rename_end env fromdentry r s' \<and> same_tree s s' \<and> fs_inv H s' \<and>
    locks s' = l(Volume := Free, Rename := Free)"
proof -
  let ?u = "hold (Contents fd) Free (hold (Contents td) Free s)"
  have l: "locks s (Contents fd) = Wr" "locks s (Meta fd) = Wr" "locks s (Contents td) = Wr" "locks s (Meta td) = Wr"
    "locks s Rename = Wr" "locks s Volume = Rd 1"
    by (simp_all add: lk)
  have cont: "(do { s \<leftarrow> releasewrite_mrsw (Contents fd) s; (if fd \<noteq> td then releasewrite_mrsw (Contents td) s else Some s) }) = Some ?u"
    using l by (cases "fd = td") (simp_all add: lock_ops hold_swap)
  note put1 = fs_inv_put [OF inv dn(1,2)]
  let ?x = "alter fd dec_handles s"
  obtain tdn' where td: "dentries ?x td = Some tdn'" "linked ?x td tdn'" using dn by (cases "fd = td") (auto simp: linked_def)
  note put2 = fs_inv_put [OF put1(1) td]
  let ?y = "hold Volume Free (hold Rename Free (hold (Meta td) Free (hold (Meta fd) Free (alter td dec_handles (alter fd dec_handles ?u)))))"
  have r1: "fs_release_dentry_unlocked True fd ?u = Some (hold (Meta fd) Free (alter fd dec_handles ?u))"
    using release_unlocked_keeps [of ?u fd fdn True] dn put1(2) l by simp
  have d2: "dentries (hold (Meta fd) Free (alter fd dec_handles ?u)) td = Some tdn'" using td by simp
  have r2: "(if fd = td then fs_release_dentry True td (hold (Meta fd) Free (alter fd dec_handles ?u))
      else fs_release_dentry_unlocked True td (hold (Meta fd) Free (alter fd dec_handles ?u))) =
      Some (hold (Meta td) Free (hold (Meta fd) Free (alter td dec_handles (alter fd dec_handles ?u))))"
    using release_unlocked_keeps [OF d2 put2(2)] release_keeps [OF d2 put2(2)] l by (cases "fd = td") simp_all
  have "rename_release env (Some fd) (Some td) ?u = Some ?y"
    unfolding rename_release_def using assms(1) r1 r2 l by (cases "fd = td") (simp_all add: lock_ops)
  then have "rename_unlock env fd td fromdentry r s = rename_end env fromdentry r ?y"
    using cont unfolding rename_unlock_def by (auto split: bind_splits)
  moreover have "locks ?y = l(Volume := Free, Rename := Free)" using lk by (auto simp: fun_eq_iff)
  ultimately show ?thesis using put2(1) by (intro exI [of _ ?y]) simp
qed

lemma rename_finish:
  assumes "no_oom env" and can: "can_move s fd td f fk tn" and inv: "fs_inv (add_mset f (add_mset fd (add_mset td H))) s"
    and n: "dentries s f = Some n" and "linked s fd fdn" "dentries s fd = Some fdn"
    and lk: "locks s = l(Contents fd := Wr, Meta fd := Wr, Contents td := Wr, Meta td := Wr)" "l Rename = Wr" "l Volume = Rd 1"
      "\<And>p. l (Contents p) = Free" "\<And>p. l (Meta p) = Free"
    and paths: "resolve s fs = Some fd" "resolve s ts = Some td"
  shows "\<exists>s'. rename_move env fd td f tn s \<bind> (\<lambda>(r, s). rename_unlock env fd td (Some f) r s) = Some (Inr (True, uid n, ino n), s') \<and>
    fs_inv H s' \<and> locks s' = l(Volume := Free, Rename := Free) \<and> file_count s' = file_count s \<and>
    (\<forall>ns. resolve s' ns = (if prefix (ts @ [tn]) ns then resolve s (fs @ [fk] @ drop (Suc (length ts)) ns)
      else if prefix (fs @ [fk]) ns then None else resolve s ns))"
proof -
  note neq = can_move_neq [OF can]
  have free: "locks s (Meta f) = Free" using lk neq by simp
  obtain u x m where mv: "rename_move env fd td f tn s = Some (Inr True, x)" "move_child s u fd td f fk tn" "same_tree u x"
    "fs_inv (if fo_iosched env then add_mset f (add_mset fd (add_mset td H)) else add_mset fd (add_mset td H)) x" "locks x = locks s"
    "file_count x = file_count s" "dentries x f = Some m" "uid m = uid n" "ino m = ino n"
    using rename_move_spec [OF assms(1) can inv n free] by blast
  have lnk: "\<exists>p'. dentries x q = Some p' \<and> linked x q p'" if q: "dentries s q = Some p" "linked s q p" for q p
  proof -
    obtain p' where p': "dentries u q = Some p'" "shape p' = shape (move_node fd td f fk tn q p)" using move_childE [OF mv(2) q(1)] by blast
    then have "linked u q p'" using linked_move [OF can mv(2) p'(2) q(1)] q(2) by simp
    then show ?thesis using same_tree_node [OF mv(3) p'(1)] mv(3) by (auto simp: linked_def same_tree_def)
  qed
  obtain fdn' where fd: "dentries x fd = Some fdn'" "linked x fd fdn'" using lnk assms(5,6) by blast
  obtain tdn' where td: "dentries x td = Some tdn'" "linked x td tdn'" using lnk can unfolding can_move_def by blast
  have "linked s f n" using can n by (auto simp: can_move_def up_def linked_def)
  then have fl: "linked x f m" using lnk [OF n] mv(7) by auto
  let ?K = "if fo_iosched env then add_mset f H else H"
  have i: "fs_inv (add_mset fd (add_mset td ?K)) x" using mv(4) by (cases "fo_iosched env") (simp_all add: add_mset_commute)
  obtain y where y: "rename_unlock env fd td (Some f) (Inr True) x = rename_end env (Some f) (Inr True) y" "same_tree x y" "fs_inv ?K y"
    "locks y = l(Volume := Free, Rename := Free)"
    using rename_unlock_spec [OF assms(1) i fd td, of l "Some f" "Inr True"] lk mv(5) by auto
  obtain h where m: "dentries y f = Some (m\<lparr>numhandles := h\<rparr>)" using same_tree_node [OF y(2) mv(7)] by blast
  have fy: "linked y f (m\<lparr>numhandles := h\<rparr>)" using fl y(2) by (simp add: linked_def same_tree_def)
  have res: "resolve z ns = (if prefix (ts @ [tn]) ns then resolve s (fs @ [fk] @ drop (Suc (length ts)) ns)
      else if prefix (fs @ [fk]) ns then None else resolve s ns)" if "same_tree y z" for z ns
    using move_child_resolve [OF can mv(2) paths, of ns] same_tree_graph(4) [OF mv(3)] same_tree_graph(4) [OF y(2)] same_tree_graph(4) [OF that]
    by simp
  have end1: "rename_move env fd td f tn s \<bind> (\<lambda>(r, s). rename_unlock env fd td (Some f) r s) = rename_end env (Some f) (Inr True) y"
    using mv(1) y(1) by simp
  have fc: "file_count y = file_count s" using y(2) mv(6) by (simp add: same_tree_def)
  show ?thesis
  proof (cases "fo_iosched env")
    case False
    then have "rename_end env (Some f) (Inr True) y = Some (Inr (True, uid n, ino n), y)" using m mv(8,9) by (simp add: rename_end_def)
    then show ?thesis using end1 y(3,4) fc res [of y] False by (intro exI [of _ y]) simp
  next
    case True
    have k: "fs_inv (add_mset f H) y" using y(3) True by simp
    note put = fs_inv_put [OF k m fy]
    have fr: "locks y (Meta f) = Free" using y(4) lk(5) by simp
    have "fs_release_dentry True f y = Some (alter f dec_handles y)" using release_keeps [OF m put(2) fr] .
    then have "rename_end env (Some f) (Inr True) y = Some (Inr (True, uid n, ino n), alter f dec_handles y)"
      using m mv(8,9) True assms(1) by (simp add: rename_end_def)
    then show ?thesis using end1 y(4) put(1) fc res [of "alter f dec_handles y"] by (intro exI [of _ "alter f dec_handles y"]) simp
  qed
qed

lemma same_tree_lookup: "same_tree s s' \<Longrightarrow> lookup_result s' path = lookup_result s path"
proof -
  assume S: "same_tree s s'"
  have "walk s' d ks = walk s d ks" for d ks
    by (induction ks arbitrary: d) (auto simp: same_tree_graph(1) [OF S] split: option.split)
  moreover have "root s' = root s" using S by (simp add: same_tree_def)
  ultimately show ?thesis by (simp add: lookup_result_def)
qed

text \<open>When a rename succeeds: what it moves, and what the new name may refer to.\<close>

definition can_rename :: "fs \<Rightarrow> dptr \<Rightarrow> dptr \<Rightarrow> dptr \<Rightarrow> byte list \<Rightarrow> byte list \<Rightarrow> bool" where
  "can_rename s fd td f fname tname \<longleftrightarrow>
     pathname_strlen fname \<le> LTFS_FILENAME_MAX \<and> pathname_strlen tname \<le> LTFS_FILENAME_MAX \<and>
     child s fd fname = Some f \<and> \<not> below s td f \<and> (\<exists>n. dentries s td = Some n \<and> isdir n) \<and>
     (\<forall>t. child s td tname = Some t \<longrightarrow> t = f \<or> (\<not> below s fd t \<and> (\<forall>n. dentries s t = Some n \<longrightarrow> child_list n = [])))"

lemma same_tree_can_rename:
  assumes "same_tree s s'"
  shows "can_rename s' fd td f fname tname = can_rename s fd td f fname tname"
proof -
  have n: "(\<exists>n. dentries s' q = Some n \<and> P (shape n)) \<longleftrightarrow> (\<exists>n. dentries s q = Some n \<and> P (shape n))" for q P
    using same_shapeD [OF same_tree_shape [OF assms], of q] same_shapeD [OF same_shape_sym [OF same_tree_shape [OF assms]], of q] by metis
  have "(\<exists>n. dentries s' td = Some n \<and> isdir n) \<longleftrightarrow> (\<exists>n. dentries s td = Some n \<and> isdir n)"
    using n [of td "\<lambda>x. fst (snd (snd (snd x)))"] by (simp add: shape_def)
  moreover have "(\<forall>n. dentries s' t = Some n \<longrightarrow> child_list n = []) \<longleftrightarrow> (\<forall>n. dentries s t = Some n \<longrightarrow> child_list n = [])" for t
    using n [of t "\<lambda>x. fst x \<noteq> []"] by (auto simp: shape_def)
  ultimately show ?thesis unfolding can_rename_def same_tree_graph(1) [OF assms] same_tree_below [OF assms] by simp
qed

lemma rename_check_ok:
  assumes "fs_wf s" and "can_rename s fd td f fname tname" and "dentries s fd \<noteq> None" and "child s td tname \<noteq> Some f"
  shows "rename_check fd td f (child s td tname) s = Some (Inr ())"
proof -
  have td: "dentries s td \<noteq> None" and f: "dentries s f \<noteq> None"
    using assms(2) child_entry [OF assms(1), of fd fname f] by (auto simp: can_rename_def)
  have nb: "\<not> below s td f" "f \<noteq> td" using assms(2) below_refl by (auto simp: can_rename_def)
  have "\<not> below s fd t" "t \<noteq> fd" if "child s td tname = Some t" for t
    using that assms(2,4) below_refl by (auto simp: can_rename_def)
  then show ?thesis
    using nb f by (auto simp: rename_check_def predecessor_below [OF assms(1) td] predecessor_below [OF assms(1,3)] split: option.split)
qed

lemma can_rename_neq: "fs_wf s \<Longrightarrow> can_rename s fd td f fname tname \<Longrightarrow> f \<noteq> fd \<and> f \<noteq> td"
  using child_entry [of s fd fname f] parent_neq [of s f] below_refl by (auto simp: can_rename_def)

text \<open>After the dentry with the new name has left the tree the move is possible.\<close>

lemma replaced_can_move:
  assumes wf: "fs_wf s" and can: "can_rename s fd td f fname tname" and kt: "child s td tname = Some t" and "t \<noteq> f"
    and cut: "cut_child s x td t tname pn pn'" and pn: "dentries s td = Some pn" and "linked s td pn" and wx: "fs_wf x"
  shows "can_move x fd td f fname tname"
proof -
  have et: "\<And>m. dentries s t = Some m \<Longrightarrow> child_list m = []" using can kt assms(4) by (auto simp: can_rename_def)
  have up: "up s f fname fd" and nb: "\<not> below s td f"
    using can child_edge [OF wf] fs_wf_edge_up [OF wf] by (auto simp: can_rename_def)
  have U: "up x p j q \<longleftrightarrow> up s p j q \<and> \<not> (q = td \<and> j = tname \<and> p = t)" for p j q
    by (rule cut_child_up [OF wf cut pn kt et])
  have bx: "below x p q \<Longrightarrow> below s p q" for p q
    by (induction rule: below.induct) (auto intro: below.intros simp: U)
  have "child x td tname = None"
  proof (cases "child x td tname")
    case (Some c)
    then have "up x c tname td" using child_edge [OF wx] fs_wf_edge_up [OF wx] by blast
    then have c: "up s c tname td" "c \<noteq> t" by (auto simp: U)
    then have "child s td tname = Some c" using child_edge [OF wf] fs_wf_edge_up [OF wf] by blast
    then show ?thesis using kt c by simp
  qed simp
  moreover have "dentries x td = Some pn'" "isdir pn'" "linked x td pn'"
    using cut assms(7) can pn cut_child_fields [OF cut] by (auto simp: cut_child_def linked_def differ_at_def can_rename_def)
  ultimately show ?thesis
    using wx up nb bx assms(4) by (auto simp: can_move_def U)
qed

lemma replaced_path:
  assumes wf: "fs_wf s" and can: "can_rename s fd td f fname tname" and kt: "child s td tname = Some t" and "t \<noteq> f"
    and paths: "resolve s fs = Some fd" "resolve s ts = Some td"
  shows "ts @ [tname] \<noteq> fs @ [fname] @ rs"
proof
  assume e: "ts @ [tname] = fs @ [fname] @ rs"
  have rt: "resolve s (ts @ [tname]) = Some t" and rf: "resolve s (fs @ [fname]) = Some f"
    using paths kt can by (simp_all add: resolve_def path_of_append can_rename_def)
  show False
  proof (cases rs rule: rev_cases)
    case Nil
    then show ?thesis using e rf rt assms(4) by simp
  next
    case (snoc rs' r)
    then have "ts = fs @ [fname] @ rs'" using e by simp
    then have "path_of (child s) f rs' = Some td" using paths can by (simp add: resolve_def path_of_append can_rename_def)
    then show ?thesis using path_below [OF wf] can by (auto simp: can_rename_def)
  qed
qed

text \<open>The three cases of the new name: free, the dentry's own name, and the name of another dentry, which is replaced.\<close>

lemma rename_dentries_ok:
  assumes "no_oom env" and can: "can_rename s fd td f fname tname"
    and inv: "fs_inv (add_mset f (took_refs (child s td tname) (add_mset fd (add_mset td H)))) s"
    and n: "dentries s f = Some n"
    and lk: "locks s = l(Contents fd := Wr, Meta fd := Wr, Contents td := Wr, Meta td := Wr)" "l Rename = Wr" "l Volume = Rd 1"
      "\<And>p. l (Contents p) = Free" "\<And>p. l (Meta p) = Free"
    and paths: "resolve s fs = Some fd" "resolve s ts = Some td"
  shows "\<exists>s'. rename_dentries env fd td f (child s td tname) tname s = Some (Inr (True, uid n, ino n), s') \<and>
    fs_inv H s' \<and> locks s' = l(Volume := Free, Rename := Free) \<and> file_count s' = file_count s \<and>
    (\<forall>ns. resolve s' ns = (if prefix (ts @ [tname]) ns then resolve s (fs @ [fname] @ drop (Suc (length ts)) ns)
      else if prefix (fs @ [fname]) ns then None else resolve s ns))"
proof -
  have wf: "fs_wf s" using inv by (simp add: fs_inv_def)
  have kf: "child s fd fname = Some f" and nb: "\<not> below s td f" using can by (simp_all add: can_rename_def)
  have up: "up s f fname fd" using kf child_edge [OF wf] fs_wf_edge_up [OF wf] by blast
  obtain fdn where fd: "dentries s fd = Some fdn" "linked s fd fdn" using resolve_linked [OF wf paths(1)] by blast
  obtain tdn where td: "dentries s td = Some tdn" "linked s td tdn" "isdir tdn"
    using resolve_linked [OF wf paths(2)] can by (auto simp: can_rename_def)
  have neq: "f \<noteq> fd" "f \<noteq> td" using can_rename_neq [OF wf can] by simp_all
  show ?thesis
  proof (cases "child s td tname")
    case None
    then have "rename_dentries env fd td f (child s td tname) tname s =
        rename_move env fd td f tname s \<bind> (\<lambda>(r, s). rename_unlock env fd td (Some f) r s)"
      using rename_check_ok [OF wf can] fd by (simp add: rename_dentries_def)
    moreover have "can_move s fd td f fname tname" using wf up nb td None by (simp add: can_move_def)
    moreover have "fs_inv (add_mset f (add_mset fd (add_mset td H))) s" using inv None by (simp add: took_refs_def)
    ultimately show ?thesis using rename_finish [OF assms(1) _ _ n fd(2,1) lk paths] by presburger
  next
    case (Some t)
    show ?thesis
    proof (cases "t = f")
      case True
      have chk: "rename_check fd td f (Some f) s = Some (Inr ())"
      proof -
        have "td = fd" using Some True up child_edge [OF wf] fs_wf_edge_up [OF wf] up_unique by metis
        then show ?thesis using nb neq n td by (simp add: rename_check_def predecessor_below [OF wf])
      qed
      have i: "fs_inv (add_mset f (add_mset f (add_mset fd (add_mset td H)))) s" using inv Some True by (simp add: took_refs_def)
      have fl: "linked s f n" using up n by (auto simp: up_def linked_def)
      note put = fs_inv_put [OF i n fl]
      let ?s = "alter f dec_handles s"
      have S: "same_tree s ?s" by simp
      have "fs_release_dentry True f s = Some ?s" using release_keeps [OF n put(2)] lk neq by simp
      then have "rename_dentries env fd td f (child s td tname) tname s =
          rename_move env fd td f tname ?s \<bind> (\<lambda>(r, s). rename_unlock env fd td (Some f) r s)"
        using chk Some True assms(1) by (simp add: rename_dentries_def)
      moreover have "can_move ?s fd td f fname tname"
        using wf up nb td neq Some True by (simp add: can_move_def same_tree_graph [OF S] same_tree_below [OF S])
      moreover have "dentries ?s f = Some (dec_handles n)" "linked ?s fd fdn" "dentries ?s fd = Some fdn"
        "locks ?s = l(Contents fd := Wr, Meta fd := Wr, Contents td := Wr, Meta td := Wr)" "resolve ?s = resolve s" "file_count ?s = file_count s"
        using n fd neq lk(1) same_tree_graph [OF S] by auto
      ultimately show ?thesis
        using rename_finish [OF assms(1) _ put(1), of fname tname "dec_handles n" fdn l fs ts] lk paths by auto
    next
      case False
      have bt: "\<not> below s fd t" and et: "\<And>m. dentries s t = Some m \<Longrightarrow> child_list m = []"
        using can Some False by (auto simp: can_rename_def)
      obtain m where m: "dentries s t = Some m" "parent m = Some td" using child_entry [OF wf Some] by blast
      have tneq: "t \<noteq> fd" "t \<noteq> td" using bt below_refl parent_neq [OF wf m] by auto
      have free: "locks s (Meta t) = Free" "locks s (Contents t) = Free" using lk tneq by simp_all
      have i: "fs_inv (add_mset t (add_mset f (add_mset fd (add_mset td H)))) s"
        using inv Some by (simp add: took_refs_def add_mset_commute)
      obtain x pn pn' where x: "rename_replace env td t s = Some (Some (), x)" "dentries s td = Some pn" "cut_child s x td t tname pn pn'"
        "fs_inv (add_mset f (add_mset fd (add_mset td H))) x" "locks x = locks s" "file_count x = file_count s"
        using rename_replace_spec [OF assms(1) i Some m(1) et [OF m(1)] free] by blast
      have "not_empty t s = Some (False, s)"
        using m et free by (simp add: not_empty_def lock_ops hold_same)
      then have start: "rename_dentries env fd td f (child s td tname) tname s =
          rename_move env fd td f tname x \<bind> (\<lambda>(r, s). rename_unlock env fd td (Some f) r s)"
        using rename_check_ok [OF wf can] fd Some False x(1) by (simp add: rename_dentries_def)
      have cx: "can_move x fd td f fname tname" using replaced_can_move [OF wf can Some False x(3)] x(2,4) td by (simp add: fs_inv_def)
      have nx: "dentries x f = Some n" using x(3) n neq False by (simp add: cut_child_def differ_at_def)
      have wx: "fs_wf x" using x(4) by (simp add: fs_inv_def)
      have R: "resolve x = (resolve s)(ts @ [tname] := None)" by (rule cut_child_resolve [OF wf x(3,2) Some et paths(2)])
      have px: "resolve x fs = Some fd" "resolve x ts = Some td"
        using R paths Some tneq by (auto simp: resolve_def path_of_append)
      obtain fdn' where fdx: "dentries x fd = Some fdn'" "linked x fd fdn'" using resolve_linked [OF wx px(1)] by blast
      have res: "(if prefix (ts @ [tname]) ns then resolve x (fs @ [fname] @ drop (Suc (length ts)) ns)
          else if prefix (fs @ [fname]) ns then None else resolve x ns) =
        (if prefix (ts @ [tname]) ns then resolve s (fs @ [fname] @ drop (Suc (length ts)) ns)
          else if prefix (fs @ [fname]) ns then None else resolve s ns)" for ns
        unfolding R using replaced_path [OF wf can Some False paths, symmetric] by (auto simp: prefix_def)
      show ?thesis
        using rename_finish [OF assms(1) cx x(4) nx fdx(2,1) trans [OF x(5) lk(1)] lk(2-) px] unfolding start res x(6) .
    qed
  qed
qed

lemma unlocked_alter [simp]: "unlocked (alter p g s) = unlocked s"
  by (simp add: unlocked_def del: unlockedD)

lemma rename_tree_start:
  assumes "no_oom env" and inv: "fs_inv H s" and size: "size_class.size H + 6 < U32" and "unlocked s"
    and lf: "lookup_result s fdir = Inr (x, fd)" and lt: "lookup_result s tdir = Inr (y, td)" and f: "child s fd fname = Some f"
    and len: "pathname_strlen fname \<le> LTFS_FILENAME_MAX" "pathname_strlen tname \<le> LTFS_FILENAME_MAX"
  shows "\<exists>u. rename_tree env fdir fname tdir tname s = rename_dentries env fd td f (child u td tname) tname u \<and> same_tree s u \<and>
    fs_inv (add_mset f (took_refs (child u td tname) (add_mset fd (add_mset td H)))) u \<and>
    locks u = (locks s)(Contents fd := Wr, Meta fd := Wr, Contents td := Wr, Meta td := Wr)"
proof -
  have wf: "fs_wf s" and refs: "refs_ok H s" using inv by (simp_all add: fs_inv_def)
  obtain fdn tdn where fd: "dentries s fd = Some fdn" and td: "dentries s td = Some tdn"
    using lookup_result_resolve [OF lf] lookup_result_resolve [OF lt] resolve_linked [OF wf] by blast
  let ?a = "alter fd inc_handles s"
  let ?b = "alter td inc_handles ?a"
  have ia: "fs_inv (add_mset fd H) ?a" using fs_inv_get [OF inv fd] size by simp
  have "\<exists>m. dentries ?a td = Some m" using td by (cases "td = fd") auto
  then obtain m where m: "dentries ?a td = Some m" by blast
  have ib: "fs_inv (add_mset fd (add_mset td H)) ?b" using fs_inv_get [OF ia m] size by (simp add: add_mset_commute)
  have Sa: "same_tree s ?a" and Sb: "same_tree s ?b" by simp_all
  have wa: "fs_wf ?a" "refs_ok (add_mset fd H) ?a" "unlocked ?a" using ia assms(4) by (simp_all add: fs_inv_def)
  have dn: "dentries ?b fd \<noteq> None" "dentries ?b td \<noteq> None" using fd td by auto
  have wb: "fs_wf ?b" using ib by (simp add: fs_inv_def)
  have pb: "fs_is_predecessor td fd ?b = Some (below s fd td)" using predecessor_below [OF wb dn(1)] same_tree_below [OF Sb] by simp
  have kf: "child ?b fd fname = Some f" using f same_tree_graph(1) [OF Sb] by simp
  obtain u where u: "(if td = fd \<or> below ?b fd td then rename_lookup_above env fd td fname tname ?b else rename_lookup_other env fd td fname tname ?b) =
      Some (Inr (f, child ?b td tname), u)" "same_tree ?b u" "fs_inv (add_mset f (took_refs (child ?b td tname) (add_mset fd (add_mset td H)))) u"
      "locks u = (locks ?b)(Contents fd := Wr, Meta fd := Wr, Contents td := Wr, Meta td := Wr)"
    using rename_lookup_spec [OF assms(1) ib _ _ dn kf len] size assms(4) by auto
  have U: "same_tree s u" using same_tree_trans [OF Sb u(2)] .
  note C = same_tree_graph(1) [OF U] same_tree_graph(1) [OF Sb]
  have "rename_tree env fdir fname tdir tname s = rename_dentries env fd td f (child u td tname) tname u"
    unfolding rename_tree_def using assms(1) lf lt u(1) pb C same_tree_below [OF Sb]
    by (cases "td = fd") (simp_all add: path_lookup_plain [OF wf refs assms(4)] path_lookup_plain [OF wa] same_tree_lookup [OF Sa])
  then show ?thesis using U u(3,4) C by (intro exI [of _ u]) simp
qed

lemma rename_tree_ok:
  assumes "no_oom env" and inv: "fs_inv H s" and size: "size_class.size H + 6 < U32" and "unlocked s"
    and vol: "locks s Volume = Rd 1" "locks s Rename = Wr"
    and lf: "lookup_result s fdir = Inr (x, fd)" and lt: "lookup_result s tdir = Inr (y, td)"
    and paths: "resolve s fs = Some fd" "resolve s ts = Some td" and can: "can_rename s fd td f fname tname" and n: "dentries s f = Some n"
  shows "\<exists>s'. rename_tree env fdir fname tdir tname s = Some (Inr (True, uid n, ino n), s') \<and>
    fs_inv H s' \<and> locks s' = (locks s)(Volume := Free, Rename := Free) \<and> file_count s' = file_count s \<and>
    (\<forall>ns. resolve s' ns = (if prefix (ts @ [tname]) ns then resolve s (fs @ [fname] @ drop (Suc (length ts)) ns)
      else if prefix (fs @ [fname]) ns then None else resolve s ns))"
proof -
  have len: "pathname_strlen fname \<le> LTFS_FILENAME_MAX" "pathname_strlen tname \<le> LTFS_FILENAME_MAX" and f: "child s fd fname = Some f"
    using can by (simp_all add: can_rename_def)
  obtain u where u: "rename_tree env fdir fname tdir tname s = rename_dentries env fd td f (child u td tname) tname u" "same_tree s u"
    "fs_inv (add_mset f (took_refs (child u td tname) (add_mset fd (add_mset td H)))) u"
    "locks u = (locks s)(Contents fd := Wr, Meta fd := Wr, Contents td := Wr, Meta td := Wr)"
    using rename_tree_start [OF assms(1-4) lf lt f len] by blast
  have Su: "resolve u = resolve s" "can_rename u fd td f fname tname" "file_count u = file_count s"
    using same_tree_graph(4) [OF u(2)] same_tree_can_rename [OF u(2)] can u(2) by (simp_all add: same_tree_def)
  obtain h where h: "dentries u f = Some (n\<lparr>numhandles := h\<rparr>)" using same_tree_node [OF u(2) n] by blast
  have lu: "\<And>p. locks s (Contents p) = Free" "\<And>p. locks s (Meta p) = Free" using assms(4) by simp_all
  have pu: "resolve u fs = Some fd" "resolve u ts = Some td" using paths Su(1) by simp_all
  show ?thesis
    using rename_dentries_ok [OF assms(1) Su(2) u(3) h u(4) vol(2,1) lu pu] unfolding u(1) Su(1,3) by simp
qed

section \<open>Refused renames\<close>

lemma rename_put_spec:
  assumes "fs_inv (add_mset p H) s" and "dentries s p = Some n" and "linked s p n" and "p \<noteq> dir \<Longrightarrow> locks s (Meta p) = Free"
  shows "rename_put mem p dir s = Some (alter p dec_handles s)"
  using fs_inv_put(2) [OF assms(1-3)] release_keeps [of s p n mem] assms(2,4) by (cases "p = dir") (simp_all add: rename_put_def change_Some)

lemma fs_inv_child:
  assumes "fs_inv H s" and "child s d k = Some c"
  shows "\<exists>n. dentries s c = Some n \<and> linked s c n \<and> c \<noteq> d"
  using child_entry [of s d k c] parent_neq [of s c] assms by (auto simp: fs_inv_def linked_def)

text \<open>Both references are given back, all locks are released, and the tree is as before.\<close>

lemma rename_give_back:
  assumes "no_oom env" and inv: "fs_inv (add_mset f (took_refs (child s td tname) (add_mset fd (add_mset td H)))) s"
    and f: "child s fd fname = Some f" and dn: "resolve s fs = Some fd" "resolve s ts = Some td"
    and lk: "locks s = l(Contents fd := Wr, Meta fd := Wr, Contents td := Wr, Meta td := Wr)" "l Rename = Wr" "l Volume = Rd 1"
      "\<And>p. l (Contents p) = Free" "\<And>p. l (Meta p) = Free"
  shows "\<exists>s'. (do {
       x \<leftarrow> rename_put (fo_mem env 13 0) f td s;
       x \<leftarrow> (case child s td tname of None \<Rightarrow> Some x | Some t \<Rightarrow> rename_put (fo_mem env 14 0) t fd x);
       rename_unlock env fd td (Some f) (Inl e) x}) = Some (Inl e, s') \<and>
    same_tree s s' \<and> fs_inv H s' \<and> locks s' = l(Volume := Free, Rename := Free)"
proof -
  obtain n where n: "dentries s f = Some n" "linked s f n" "f \<noteq> fd" using fs_inv_child [OF inv f] by blast
  have r1: "rename_put True f td s = Some (alter f dec_handles s)"
    by (rule rename_put_spec [OF inv n(1,2)]) (use lk n(3) in simp)
  let ?a = "alter f dec_handles s"
  have ia: "fs_inv (took_refs (child s td tname) (add_mset fd (add_mset td H))) ?a" by (rule fs_inv_put(1) [OF inv n(1,2)])
  have "\<exists>b. (case child s td tname of None \<Rightarrow> Some ?a | Some t \<Rightarrow> rename_put True t fd ?a) = Some b \<and>
      same_tree s b \<and> fs_inv (add_mset fd (add_mset td H)) b \<and> locks b = locks s"
  proof (cases "child s td tname")
    case None
    then show ?thesis using ia by (simp add: took_refs_def)
  next
    case (Some t)
    then have it: "fs_inv (add_mset t (add_mset fd (add_mset td H))) ?a" using ia by (simp add: took_refs_def)
    obtain m where m: "dentries ?a t = Some m" "linked ?a t m" "t \<noteq> td" using fs_inv_child [OF it, of td tname t] Some by auto
    have "rename_put True t fd ?a = Some (alter t dec_handles ?a)" by (rule rename_put_spec [OF it m(1,2)]) (use lk m(3) in simp)
    then show ?thesis using Some fs_inv_put(1) [OF it m(1,2)] by simp
  qed
  then obtain b where b: "(case child s td tname of None \<Rightarrow> Some ?a | Some t \<Rightarrow> rename_put True t fd ?a) = Some b"
    "same_tree s b" "fs_inv (add_mset fd (add_mset td H)) b" "locks b = locks s" by blast
  have wb: "fs_wf b" "resolve b fs = Some fd" "resolve b ts = Some td"
    using b(2,3) dn same_tree_graph(4) [OF b(2)] by (simp_all add: fs_inv_def)
  obtain fdn where fd: "dentries b fd = Some fdn" "linked b fd fdn" using resolve_linked [OF wb(1,2)] by blast
  obtain tdn where td: "dentries b td = Some tdn" "linked b td tdn" using resolve_linked [OF wb(1,3)] by blast
  obtain y where y: "rename_unlock env fd td (Some f) (Inl e) b = rename_end env (Some f) (Inl e) y" "same_tree b y" "fs_inv H y"
      "locks y = l(Volume := Free, Rename := Free)"
    using rename_unlock_spec [OF assms(1) b(3) fd td, of l "Some f" "Inl e"] lk b(4) by auto
  have sy: "same_tree s y" using same_tree_trans [OF b(2) y(2)] .
  obtain h where "dentries y f = Some (n\<lparr>numhandles := h\<rparr>)" using same_tree_node [OF sy n(1)] by blast
  then have "rename_end env (Some f) (Inl e) y = Some (Inl e, y)" by (simp add: rename_end_def)
  then show ?thesis using r1 b(1) y sy assms(1) by (intro exI [of _ y]) (simp cong: option.case_cong)
qed

lemma rename_tree_loop:
  assumes "no_oom env" and inv: "fs_inv H s" and size: "size_class.size H + 6 < U32" and "unlocked s"
    and vol: "locks s Volume = Rd 1" "locks s Rename = Wr"
    and lf: "lookup_result s fdir = Inr (x, fd)" and lt: "lookup_result s tdir = Inr (y, td)"
    and f: "child s fd fname = Some f" "below s td f"
    and len: "pathname_strlen fname \<le> LTFS_FILENAME_MAX" "pathname_strlen tname \<le> LTFS_FILENAME_MAX"
  shows "\<exists>s'. rename_tree env fdir fname tdir tname s = Some (Inl LTFS_RENAMELOOP, s') \<and>
    same_tree s s' \<and> fs_inv H s' \<and> locks s' = (locks s)(Volume := Free, Rename := Free)"
proof -
  obtain fs ts where paths: "resolve s fs = Some fd" "resolve s ts = Some td"
    using lookup_result_resolve [OF lf] lookup_result_resolve [OF lt] by blast
  obtain u where u: "rename_tree env fdir fname tdir tname s = rename_dentries env fd td f (child u td tname) tname u" "same_tree s u"
    "fs_inv (add_mset f (took_refs (child u td tname) (add_mset fd (add_mset td H)))) u"
    "locks u = (locks s)(Contents fd := Wr, Meta fd := Wr, Contents td := Wr, Meta td := Wr)"
    using rename_tree_start [OF assms(1-4) lf lt f(1) len] by blast
  have wu: "fs_wf u" "resolve u fs = Some fd" "resolve u ts = Some td" "child u fd fname = Some f" "below u td f"
    using u(2,3) paths f same_tree_graph [OF u(2)] same_tree_below [OF u(2)] by (simp_all add: fs_inv_def)
  have lu: "\<And>p. locks s (Contents p) = Free" "\<And>p. locks s (Meta p) = Free" using assms(4) by simp_all
  obtain tdn where "dentries u td = Some tdn" using resolve_linked [OF wu(1,3)] by blast
  then have "rename_check fd td f (child u td tname) u = Some (Inl LTFS_RENAMELOOP)"
    using predecessor_below [OF wu(1), of td f] wu(5) by (simp add: rename_check_def)
  then have "rename_dentries env fd td f (child u td tname) tname u = do {
       s \<leftarrow> rename_put (fo_mem env 13 0) f td u;
       s \<leftarrow> (case child u td tname of None \<Rightarrow> Some s | Some t \<Rightarrow> rename_put (fo_mem env 14 0) t fd s);
       rename_unlock env fd td (Some f) (Inl LTFS_RENAMELOOP) s}"
    by (simp add: rename_dentries_def)
  moreover obtain s' where "(do {
       s \<leftarrow> rename_put (fo_mem env 13 0) f td u;
       s \<leftarrow> (case child u td tname of None \<Rightarrow> Some s | Some t \<Rightarrow> rename_put (fo_mem env 14 0) t fd s);
       rename_unlock env fd td (Some f) (Inl LTFS_RENAMELOOP) s}) = Some (Inl LTFS_RENAMELOOP, s')"
      "same_tree u s'" "fs_inv H s'" "locks s' = (locks s)(Volume := Free, Rename := Free)"
    using rename_give_back [OF assms(1) u(3) wu(4,2,3) u(4) vol(2,1) lu, of LTFS_RENAMELOOP] by blast
  ultimately show ?thesis using u(1) same_tree_trans [OF u(2)] by (intro exI [of _ s']) simp
qed

end
