(* ===== verification/Ltfs_Fsops.thy ===== *)
theory Ltfs_Fsops
  imports Ltfs_Raw Ltfs_Rename
begin

text \<open>
  The file-system operations as the FUSE layer calls them: \<^verbatim>\<open>libltfs/ltfs_fsops.c\<close>, with opening and closing
  of \<^verbatim>\<open>libltfs/ltfs_fsops_raw.c\<close>, the checks of the device of \<^verbatim>\<open>libltfs/ltfs.c\<close> and the scheduler
  \<^verbatim>\<open>iosched/fcfs.c\<close> behind the functions of \<^verbatim>\<open>libltfs/iosched.c\<close>. The state is the volume and its tree; the tree
  part of create, unlink and rename is in \<open>Ltfs_Fs_Ops\<close> and \<open>Ltfs_Rename\<close>. As there, \<open>None\<close> stands for
  undefined behaviour or a call that does not return.
\<close>

section \<open>Environment\<close>

text \<open>
  \<open>oe_name\<close>: the allocations of \<^verbatim>\<open>pathname_format\<close>, by call; \<open>oe_tree\<close>: those of the tree, the clock and whether
  the scheduler is active (\<open>fo_iosched\<close>); \<open>oe_fs\<close>: what file contents need; \<open>oe_since\<close>: the seconds since the
  last test of the drive.
\<close>

record 's op_env =
  oe_tree :: fsops_env
  oe_fs :: "'s fs_env"
  oe_name :: "nat \<Rightarrow> nat \<Rightarrow> bool"
  oe_copy :: bool
  oe_since :: "'s ltfs_volume \<Rightarrow> int"

type_synonym 's mounted = "'s ltfs_volume \<times> fs"

section \<open>The checks of the device\<close>

definition ltfs_get_tape_readonly :: "'s ltfs_volume \<Rightarrow> err + unit" where
  "ltfs_get_tape_readonly vol =
     (let ret = tape_read_only (ltfs_part_id2num (ltfs_ip_id vol) (vol_label vol)) (device vol)
      in if ret = Inr () \<or> ret = Inl LTFS_LESS_SPACE
         then tape_read_only (ltfs_part_id2num (ltfs_dp_id vol) (vol_label vol)) (device vol) else ret)"

text \<open>The errors of the drivers, which are numbered from \<^verbatim>\<open>EDEV_ERR_MIN\<close> on.\<close>

definition EDEV_ERR :: "err \<Rightarrow> bool" where
  "EDEV_ERR e \<longleftrightarrow> e \<in> {EDEV_EOD_DETECTED, EDEV_EOD_NOT_FOUND, EDEV_RW_PERM, EDEV_CM_PERM, EDEV_NOT_READY,
     EDEV_NEED_INITIALIZE, EDEV_NO_MEDIUM, EDEV_INVALID_ARG, EDEV_ILLEGAL_REQUEST, EDEV_BOP_DETECTED, EDEV_INTERNAL_ERROR,
     EDEV_NO_MEMORY, EDEV_POR_OR_BUS_RESET, EDEV_MEDIUM_MAY_BE_CHANGED, EDEV_MEDIUM_REMOVAL_REQ, EDEV_CRYPTO_ERROR,
     EDEV_KEY_REQUIRED}"

section \<open>The volume lock and the test of the drive\<close>

text \<open>
  \<^verbatim>\<open>ltfs_get_volume_lock\<close>: a revalidation that is running is waited for, the result of one that failed is the
  error, and then the lock is given back.
\<close>

definition volume_lock :: "bool \<Rightarrow> 's mounted \<Rightarrow> (unit, 's mounted) result option" where
  "volume_lock exclusive = (\<lambda>(vol, s).
     if reval vol = Some LTFS_REVAL_RUNNING then None
     else do {
       s \<leftarrow> (if exclusive then acquirewrite_mrsw Volume s else acquireread_mrsw Volume s);
       case reval vol of
         None \<Rightarrow> Some (Inr (), vol, s)
       | Some e \<Rightarrow> do { s \<leftarrow> release_mrsw Volume s; Some (Inl e, vol, s) }})"

abbreviation take_volume :: "'s mounted \<Rightarrow> (unit, 's mounted) result option" where
  "take_volume \<equiv> volume_lock False"

definition release_volume :: "(err + 'a) \<Rightarrow> 's mounted \<Rightarrow> ('a, 's mounted) result option" where
  "release_volume r = (\<lambda>(vol, s). case releaseread_mrsw Volume s of None \<Rightarrow> None | Some s \<Rightarrow> Some (r, vol, s))"

definition downgrade_volume :: "(err + 'a) \<Rightarrow> 's mounted \<Rightarrow> ('a, 's mounted) result option" where
  "downgrade_volume r = (\<lambda>(vol, s). case writetoread_mrsw Volume s of None \<Rightarrow> None | Some s \<Rightarrow> Some (r, vol, s))"

text \<open>
  The two ways on after a fence, both called with the lock and both leaving without it: to wait for the
  revalidation of another thread, and to revalidate, which takes the lock in write mode.
\<close>

definition wait_revalidation :: "'s mounted \<Rightarrow> (unit, 's mounted) result option" where
  "wait_revalidation = (\<lambda>(vol, s). do {
     s \<leftarrow> release_mrsw Volume s;
     r \<leftarrow> ltfs_wait_revalidation vol;
     Some (r, vol, s)})"

definition revalidate_volume :: "'s op_env \<Rightarrow> 's mounted \<Rightarrow> (unit, 's mounted) result option" where
  "revalidate_volume env = (\<lambda>(vol, s). do {
     s \<leftarrow> release_mrsw Volume s;
     s \<leftarrow> acquirewrite_mrsw Volume s;
     case fs_revalidate (oe_fs env) vol of
       (r, vol) \<Rightarrow> do { s \<leftarrow> releasewrite_mrsw Volume s; Some (r, vol, s) }})"

partial_function (option) ltfs_test_unit_ready ::
    "'s tape_ops \<Rightarrow> 's op_env \<Rightarrow> 's mounted \<Rightarrow> (unit, 's mounted) result option" where
  "ltfs_test_unit_ready ops env m = do {
     (l, vol, s) \<leftarrow> volume_lock False m;
     case l of
       Inl e \<Rightarrow> Some (Inl e, vol, s)
     | Inr _ \<Rightarrow>
         (case tape_device_lock (fs_mutex (oe_fs env)) (device vol) of
            Inl e \<Rightarrow>
              if e = LTFS_DEVICE_FENCED then do {
                (r, m) \<leftarrow> wait_revalidation (vol, s);
                case r of Inl e \<Rightarrow> Some (Inl e, m) | Inr _ \<Rightarrow> ltfs_test_unit_ready ops env m}
              else release_volume (Inl e) (vol, s)
          | Inr _ \<Rightarrow>
              (case tape_test_unit_ready ops (fo_now (oe_tree env)) (oe_since env vol) (device vol) of
                 (Inr _, dev) \<Rightarrow> release_volume (Inr ()) (vol\<lparr>device := dev\<rparr>, s)
               | (Inl e, dev) \<Rightarrow>
                   if NEED_REVAL e then do {
                     (r, m) \<leftarrow> revalidate_volume env (vol\<lparr>device := tape_start_fence dev\<rparr>, s);
                     case r of Inl e \<Rightarrow> Some (Inl e, m) | Inr _ \<Rightarrow> ltfs_test_unit_ready ops env m}
                   else if IS_UNEXPECTED_MOVE e then release_volume (Inl e) (vol\<lparr>device := dev, reval := Some LTFS_REVAL_FAILED\<rparr>, s)
                   else release_volume (Inl (if EDEV_ERR e then LTFS_DEVICE_UNREADY else e)) (vol\<lparr>device := dev\<rparr>, s)))}"

text \<open>
  The checks with which the operations that change something begin: the medium is writable, where a
  partition with little space is accepted if \<open>low_ok\<close>, and the drive is ready.
\<close>

definition device_ok ::
    "'s tape_ops \<Rightarrow> 's op_env \<Rightarrow> bool \<Rightarrow> 's mounted \<Rightarrow> (unit, 's mounted) result option" where
  "device_ok ops env low_ok m =
     (case ltfs_get_tape_readonly (fst m) of
        Inl e \<Rightarrow> if low_ok \<and> e = LTFS_LESS_SPACE then ltfs_test_unit_ready ops env m else Some (Inl e, m)
      | Inr _ \<Rightarrow> ltfs_test_unit_ready ops env m)"

definition set_dirty :: "bool \<Rightarrow> 's ltfs_volume \<Rightarrow> 's ltfs_volume" where
  "set_dirty atime vol = vol\<lparr>vol_index := ltfs_set_index_dirty atime (vol_index vol)\<rparr>"

text \<open>The path in canonical form; \<open>src\<close>: an invalid path is reported as an invalid source path.\<close>

definition format_path :: "'s op_env \<Rightarrow> nat \<Rightarrow> bool \<Rightarrow> byte list \<Rightarrow> (err + byte list) option" where
  "format_path env i src path =
     (case pathname_format (fo_icu (oe_tree env)) (oe_name env i) path True True of
        Some (Inl e) \<Rightarrow> Some (Inl (if src \<and> e = LTFS_INVALID_PATH then LTFS_INVALID_SRC_PATH else e))
      | r \<Rightarrow> r)"

section \<open>Open and close below the scheduler\<close>

definition ltfs_fsraw_open ::
    "'s op_env \<Rightarrow> byte list \<Rightarrow> bool \<Rightarrow> 's mounted \<Rightarrow> (dptr, 's mounted) result option" where
  "ltfs_fsraw_open env path open_write m = obind (take_volume m) (\<lambda>_ (vol, s). do {
     (r, s) \<leftarrow> fs_path_lookup (fo_mem (oe_tree env) 0 0) (fo_mem (oe_tree env) 0 1) path {} s;
     case r of
       Inl e \<Rightarrow> release_volume (Inl e) (vol, s)
     | Inr d \<Rightarrow> do {
         n \<leftarrow> dentries s d;
         s \<leftarrow> (if open_write \<and> \<not> isdir n then do {
                s \<leftarrow> acquirewrite_mrsw (Meta d) s;
                let mx = index_criteria_get_max_filesize (criteria s);
                s \<leftarrow> (if \<not> matches_name_criteria n \<and> 0 < mx \<and> size n \<le> mx then match_dentry (oe_tree env) d s else Some s);
                releasewrite_mrsw (Meta d) s}
              else Some s);
         release_volume (Inr d) (vol, s)}})"

definition ltfs_fsraw_close :: "'s op_env \<Rightarrow> dptr \<Rightarrow> 's mounted \<Rightarrow> (unit, 's mounted) result option" where
  "ltfs_fsraw_close env d = (\<lambda>(vol, s). do { s \<leftarrow> fs_release_dentry (fo_mem (oe_tree env) 30 0) d s; Some (Inr (), vol, s) })"

text \<open>A further reference to an open dentry; \<open>None\<close> in the result when the volume lock cannot be had.\<close>

definition ltfs_fsraw_get_dentry :: "dptr \<Rightarrow> 's mounted \<Rightarrow> (dptr option \<times> 's mounted) option" where
  "ltfs_fsraw_get_dentry d m = do {
     (r, vol, s) \<leftarrow> take_volume m;
     case r of
       Inl _ \<Rightarrow> Some (None, vol, s)
     | Inr _ \<Rightarrow> do {
         s \<leftarrow> acquirewrite_mrsw (Meta d) s;
         s \<leftarrow> change d inc_handles s;
         s \<leftarrow> releasewrite_mrsw (Meta d) s;
         s \<leftarrow> releaseread_mrsw Volume s;
         Some (Some d, vol, s)}}"

definition ltfs_fsraw_put_dentry :: "'s op_env \<Rightarrow> dptr \<Rightarrow> 's mounted \<Rightarrow> 's mounted option" where
  "ltfs_fsraw_put_dentry env d = (\<lambda>(vol, s). do { s \<leftarrow> fs_release_dentry (fo_mem (oe_tree env) 31 0) d s; Some (vol, s) })"

section \<open>File contents of a dentry in the tree\<close>

text \<open>
  The functions of \<open>Ltfs_Raw\<close> and \<open>Ltfs_Extent\<close> work on the part of the dentry that describes its contents;
  \<open>put_contents\<close> puts the changed part back.
\<close>

definition put_contents :: "dentry \<Rightarrow> node \<Rightarrow> node" where
  "put_contents d n = n\<lparr>extentlist := extentlist d, size := size d, realsize := realsize d, extents_dirty := extents_dirty d,
     modify_time := modify_time d, change_time := change_time d, access_time := access_time d\<rparr>"

text \<open>Writing blocks: entered with the volume locked for writing, left with it locked for reading.\<close>

definition fsraw_write_data_unlocked ::
    "'s tape_ops \<Rightarrow> 's op_env \<Rightarrow> char \<Rightarrow> byte list \<Rightarrow> nat \<Rightarrow> 's mounted \<Rightarrow> (nat option, 's mounted) result option" where
  "fsraw_write_data_unlocked ops env part buf repetitions = (\<lambda>(vol, s).
     if part \<noteq> ltfs_dp_id vol \<and> part \<noteq> ltfs_ip_id vol then downgrade_volume (Inl LTFS_BAD_PARTNUM) (vol, s)
     else if length buf = 0 \<or> repetitions = 0 then downgrade_volume (Inr None) (vol, s)
     else if repetitions > 1 \<and> length buf mod blocksize (vol_label vol) \<noteq> 0 then downgrade_volume (Inl LTFS_BAD_ARG) (vol, s)
     else case tape_device_lock (fs_mutex (oe_fs env)) (device vol) of
       Inl e \<Rightarrow> downgrade_volume (Inl e) (vol, s)
     | Inr _ \<Rightarrow> do {
         (r, vol) \<leftarrow> write_data_index ops (oe_fs env) part vol;
         s \<leftarrow> writetoread_mrsw Volume s;
         (r, vol) \<leftarrow> (case r of Inl e \<Rightarrow> Some (Inl e, vol) | Inr _ \<Rightarrow> write_data_blocks ops part buf repetitions vol);
         case write_unlock (r, vol) of (r, vol) \<Rightarrow> Some (r, vol, s)})"

text \<open>From the label \<^verbatim>\<open>start\<close> of \<^verbatim>\<open>ltfs_fsraw_write\<close> on; after success the volume stays locked for reading.\<close>

partial_function (option) fsraw_write_loop ::
    "'s tape_ops \<Rightarrow> 's op_env \<Rightarrow> char \<Rightarrow> byte list \<Rightarrow> 's mounted \<Rightarrow> (nat option, 's mounted) result option" where
  "fsraw_write_loop ops env part buf m = do {
     (l, m) \<leftarrow> volume_lock True m;
     case l of
       Inl e \<Rightarrow> Some (Inl e, m)
     | Inr _ \<Rightarrow> do {
         (r, vol, s) \<leftarrow> fsraw_write_data_unlocked ops env part buf 1 m;
         case r of
           Inr b \<Rightarrow> Some (Inr b, vol, s)
         | Inl e \<Rightarrow>
             if e = LTFS_DEVICE_FENCED \<or> NEED_REVAL e then do {
               (q, m) \<leftarrow> (if e = LTFS_DEVICE_FENCED then wait_revalidation (vol, s) else revalidate_volume env (vol, s));
               case q of Inl e \<Rightarrow> Some (Inl e, m) | Inr _ \<Rightarrow> fsraw_write_loop ops env part buf m}
             else if IS_UNEXPECTED_MOVE e then release_volume (Inl e) (vol\<lparr>reval := Some LTFS_REVAL_FAILED\<rparr>, s)
             else release_volume (Inl e) (vol, s)}}"

text \<open>
  \<^verbatim>\<open>_ltfs_fsraw_add_extent_unlocked\<close>: the sizes and times are set under the meta lock, which is not taken when
  an allocation fails.
\<close>

definition fsraw_add_extent_unlocked ::
    "'s op_env \<Rightarrow> dptr \<Rightarrow> extent_info \<Rightarrow> bool \<Rightarrow> 's mounted \<Rightarrow> (unit, 's mounted) result option" where
  "fsraw_add_extent_unlocked env d ext update_time = (\<lambda>(vol, s). do {
     n \<leftarrow> dentries s d;
     case add_extent_vol (oe_fs env) ext update_time (dentry.truncate n, vol) of
       (Inl e, c, vol) \<Rightarrow> do { s \<leftarrow> change d (put_contents c) s; Some (Inl e, vol, s) }
     | (Inr _, c, vol) \<Rightarrow> do {
         s \<leftarrow> acquirewrite_mrsw (Meta d) s;
         s \<leftarrow> change d (put_contents c) s;
         s \<leftarrow> releasewrite_mrsw (Meta d) s;
         Some (Inr (), vol, s)}})"

definition fsraw_write ::
    "'s tape_ops \<Rightarrow> 's op_env \<Rightarrow> dptr \<Rightarrow> byte list \<Rightarrow> nat \<Rightarrow> char \<Rightarrow> bool \<Rightarrow> 's mounted \<Rightarrow> (unit, 's mounted) result option" where
  "fsraw_write ops env d buf offset part update_time m = do {
     (b, vol, s) \<leftarrow> fsraw_write_loop ops env part buf m;
     case b of
       Inl e \<Rightarrow> Some (Inl e, vol, s)
     | Inr b \<Rightarrow> do {
         s \<leftarrow> acquirewrite_mrsw (Contents d) s;
         (r, vol, s) \<leftarrow> fsraw_add_extent_unlocked env d \<lparr>partition = part, block = (case b of None \<Rightarrow> 0 | Some b \<Rightarrow> b), byteoffset = 0,
           bytecount = length buf, fileoffset = offset\<rparr> update_time (vol, s);
         s \<leftarrow> releasewrite_mrsw (Contents d) s;
         release_volume r (vol, s)}}"

text \<open>Reading, from the label \<^verbatim>\<open>start\<close> on.\<close>

partial_function (option) fsraw_read ::
    "'s tape_ops \<Rightarrow> 's op_env \<Rightarrow> dptr \<Rightarrow> nat \<Rightarrow> nat \<Rightarrow> 's mounted \<Rightarrow> (byte list, 's mounted) result option" where
  "fsraw_read ops env d cnt offset m =
     (if cnt = 0 then Some (Inr [], m)
      else do {
        (l, vol, s) \<leftarrow> volume_lock False m;
        case l of
          Inl e \<Rightarrow> Some (Inl e, vol, s)
        | Inr _ \<Rightarrow> do {
            s \<leftarrow> acquireread_mrsw (Contents d) s;
            case tape_device_lock (fs_mutex (oe_fs env)) (device vol) of
              Inl e \<Rightarrow> do {
                s \<leftarrow> releaseread_mrsw (Contents d) s;
                if e = LTFS_DEVICE_FENCED then do {
                  (q, m) \<leftarrow> wait_revalidation (vol, s);
                  case q of Inl e \<Rightarrow> Some (Inl e, m) | Inr _ \<Rightarrow> fsraw_read ops env d cnt offset m}
                else release_volume (Inl e) (vol, s)}
            | Inr _ \<Rightarrow> do {
                n \<leftarrow> dentries s d;
                (r, vol) \<leftarrow> read_data ops (oe_fs env) cnt offset (dentry.truncate n) vol;
                (vol, s) \<leftarrow> (case r of Inl _ \<Rightarrow> Some (vol, s) | Inr _ \<Rightarrow> do {
                  s \<leftarrow> acquirewrite_mrsw (Meta d) s;
                  s \<leftarrow> change d (access_time_update (\<lambda>_. fs_now (oe_fs env))) s;
                  s \<leftarrow> releasewrite_mrsw (Meta d) s;
                  Some (set_dirty True vol, s)});
                s \<leftarrow> releaseread_mrsw (Contents d) s;
                case r of
                  Inr out \<Rightarrow> release_volume (Inr out) (vol, s)
                | Inl e \<Rightarrow>
                    if NEED_REVAL e then do {
                      (q, m) \<leftarrow> revalidate_volume env (vol\<lparr>device := tape_start_fence (device vol)\<rparr>, s);
                      case q of Inl e \<Rightarrow> Some (Inl e, m) | Inr _ \<Rightarrow> fsraw_read ops env d cnt offset m}
                    else if IS_UNEXPECTED_MOVE e then release_volume (Inl e) (vol\<lparr>reval := Some LTFS_REVAL_FAILED\<rparr>, s)
                    else release_volume (Inl e) (vol, s)}}})"

text \<open>Truncation with its locks.\<close>

definition fsraw_truncate :: "'s op_env \<Rightarrow> dptr \<Rightarrow> nat \<Rightarrow> 's mounted \<Rightarrow> (unit, 's mounted) result option" where
  "fsraw_truncate env d len m = obind (take_volume m) (\<lambda>_ (vol, s). do {
     s \<leftarrow> acquirewrite_mrsw (Contents d) s;
     s \<leftarrow> acquirewrite_mrsw (Meta d) s;
     n \<leftarrow> dentries s d;
     let (c, idx) = ltfs_fsraw_truncate (fs_now (oe_fs env)) len (dentry.truncate n) (vol_index vol);
     s \<leftarrow> change d (put_contents c) s;
     s \<leftarrow> releasewrite_mrsw (Meta d) s;
     s \<leftarrow> releasewrite_mrsw (Contents d) s;
     release_volume (Inr ()) (vol\<lparr>vol_index := idx\<rparr>, s)})"

section \<open>The first-come-first-served scheduler\<close>

definition fcfs_open :: "'s op_env \<Rightarrow> byte list \<Rightarrow> bool \<Rightarrow> 's mounted \<Rightarrow> (dptr, 's mounted) result option" where
  "fcfs_open env path open_write = ltfs_fsraw_open env path open_write"

definition fcfs_close :: "'s op_env \<Rightarrow> dptr \<Rightarrow> bool \<Rightarrow> 's mounted \<Rightarrow> (unit, 's mounted) result option" where
  "fcfs_close env d flush = ltfs_fsraw_close env d"

definition fcfs_read ::
    "'s tape_ops \<Rightarrow> 's op_env \<Rightarrow> dptr \<Rightarrow> nat \<Rightarrow> nat \<Rightarrow> 's mounted \<Rightarrow> (byte list, 's mounted) result option" where
  "fcfs_read ops env d len offset = fsraw_read ops env d len offset"

text \<open>The argument \<^verbatim>\<open>isupdatetime\<close> is ignored.\<close>

definition fcfs_write ::
    "'s tape_ops \<Rightarrow> 's op_env \<Rightarrow> dptr \<Rightarrow> byte list \<Rightarrow> nat \<Rightarrow> bool \<Rightarrow> 's mounted \<Rightarrow> (unit, 's mounted) result option" where
  "fcfs_write ops env d buf offset isupdatetime = (\<lambda>(vol, s).
     fsraw_write ops env d buf offset (ltfs_dp_id vol) True (vol, s))"

text \<open>Without a dentry, which asks for everything to be flushed, this is an error.\<close>

definition fcfs_flush :: "dptr option \<Rightarrow> bool \<Rightarrow> err + unit" where
  "fcfs_flush d closeflag = (if d = None then Inl LTFS_NULL_ARG else Inr ())"

definition fcfs_truncate :: "'s op_env \<Rightarrow> dptr \<Rightarrow> nat \<Rightarrow> 's mounted \<Rightarrow> (unit, 's mounted) result option" where
  "fcfs_truncate env d len = fsraw_truncate env d len"

definition fcfs_get_filesize :: "dptr \<Rightarrow> fs \<Rightarrow> nat option" where
  "fcfs_get_filesize d s = do { n \<leftarrow> dentries s d; Some (size n) }"

section \<open>Open and close\<close>

definition open_dentry :: "'s op_env \<Rightarrow> byte list \<Rightarrow> bool \<Rightarrow> bool \<Rightarrow> 's mounted \<Rightarrow> (dptr, 's mounted) result option" where
  "open_dentry env path open_write use_iosched =
     (if use_iosched \<and> fo_iosched (oe_tree env) then fcfs_open env path open_write else ltfs_fsraw_open env path open_write)"

definition ltfs_update_valid_block_count :: "nat \<Rightarrow> nat \<Rightarrow> 's mounted \<Rightarrow> (unit, 's mounted) result option" where
  "ltfs_update_valid_block_count new old m = obind (take_volume m) (\<lambda>_ (vol, s).
     release_volume (Inr ()) (vol, s\<lparr>valid_blocks := add64 (valid_blocks s) (sub64 new old)\<rparr>))"

definition ltfs_fsops_update_used_blocks :: "dptr \<Rightarrow> 's mounted \<Rightarrow> (unit, 's mounted) result option" where
  "ltfs_fsops_update_used_blocks d = (\<lambda>(vol, s). do {
     s \<leftarrow> acquireread_mrsw (Contents d) s;
     s \<leftarrow> acquirewrite_mrsw (Meta d) s;
     n \<leftarrow> dentries s d;
     let used = fs_get_used_blocks (blocksize (vol_label vol)) n;
     s \<leftarrow> change d (used_blocks_update (\<lambda>_. used)) s;
     s \<leftarrow> releasewrite_mrsw (Meta d) s;
     s \<leftarrow> releaseread_mrsw (Contents d) s;
     ltfs_update_valid_block_count used (used_blocks n) (vol, s)})"

text \<open>The close after a write that had left the times for later sets them.\<close>

definition close_times :: "'s op_env \<Rightarrow> dptr \<Rightarrow> fs \<Rightarrow> fs option" where
  "close_times env d s = do {
     n \<leftarrow> dentries s d;
     if need_update_time n then do {
       s \<leftarrow> acquirewrite_mrsw (Meta d) s;
       s \<leftarrow> change d (dir_times (fo_now (oe_tree env))) s;
       s \<leftarrow> releasewrite_mrsw (Meta d) s;
       change d (need_update_time_update (\<lambda>_. False)) s}
     else Some s}"

definition ltfs_fsops_close ::
    "'s op_env \<Rightarrow> dptr \<Rightarrow> bool \<Rightarrow> bool \<Rightarrow> bool \<Rightarrow> 's mounted \<Rightarrow> (unit, 's mounted) result option" where
  "ltfs_fsops_close env d flush open_write use_iosched = (\<lambda>(vol, s). do {
     s \<leftarrow> close_times env d s;
     (ret_u, m) \<leftarrow> (if open_write then ltfs_fsops_update_used_blocks d (vol, s) else Some (Inr (), vol, s));
     n \<leftarrow> dentries (snd m) d;
     (ret, m) \<leftarrow> (if use_iosched \<and> \<not> isdir n \<and> fo_iosched (oe_tree env) then fcfs_close env d flush m else ltfs_fsraw_close env d m);
     Some (if ret = Inr () then ret_u else ret, m)})"

text \<open>The path is looked up; a symbolic link is not opened for writing.\<close>

definition open_named ::
    "'s op_env \<Rightarrow> byte list \<Rightarrow> bool \<Rightarrow> bool \<Rightarrow> 's mounted \<Rightarrow> (dptr, 's mounted) result option" where
  "open_named env path open_write use_iosched m =
     (case format_path env 0 True path of
        None \<Rightarrow> None
      | Some (Inl e) \<Rightarrow> Some (Inl e, m)
      | Some (Inr path) \<Rightarrow> do {
          (r, m) \<leftarrow> open_dentry env path open_write use_iosched m;
          case r of
            Inl e \<Rightarrow> Some (Inl e, m)
          | Inr d \<Rightarrow> do {
              n \<leftarrow> dentries (snd m) d;
              if open_write \<and> isslink n then do {
                (_, m) \<leftarrow> ltfs_fsops_close env d False open_write use_iosched m;
                Some (Inl LTFS_RDONLY_VOLUME, m)}
              else Some (Inr d, m)}})"

text \<open>
  The test of the return code compares it with two values at once and so lets no error pass: a volume
  without space is not opened for writing.
\<close>

definition ltfs_fsops_open ::
    "'s op_env \<Rightarrow> byte list \<Rightarrow> bool \<Rightarrow> bool \<Rightarrow> 's mounted \<Rightarrow> (dptr, 's mounted) result option" where
  "ltfs_fsops_open env path open_write use_iosched m =
     (case (if open_write then ltfs_get_tape_readonly (fst m) else Inr ()) of
        Inl e \<Rightarrow> if e \<noteq> LTFS_LESS_SPACE \<or> e \<noteq> LTFS_NO_SPACE then Some (Inl e, m) else open_named env path open_write use_iosched m
      | Inr _ \<Rightarrow> open_named env path open_write use_iosched m)"

text \<open>
  A first lookup decides whether the dentry is of the wanted kind, a second one opens it. The flag of the
  result is the read-only flag of the dentry.
\<close>

definition open_typed ::
    "'s op_env \<Rightarrow> byte list \<Rightarrow> bool \<Rightarrow> bool \<Rightarrow> bool \<Rightarrow> 's mounted \<Rightarrow> (dptr \<times> bool, 's mounted) result option" where
  "open_typed env path open_write use_iosched isopendir m =
     (case format_path env 0 True path of
        None \<Rightarrow> None
      | Some (Inl e) \<Rightarrow> Some (Inl e, m)
      | Some (Inr path) \<Rightarrow> obind (take_volume m) (\<lambda>_ (vol, s). do {
          (r, s) \<leftarrow> fs_path_lookup (fo_mem (oe_tree env) 1 0) (fo_mem (oe_tree env) 1 1) path {} s;
          case r of
            Inl e \<Rightarrow> release_volume (Inl e) (vol, s)
          | Inr dtmp \<Rightarrow> do {
              n \<leftarrow> dentries s dtmp;
              s \<leftarrow> fs_release_dentry (fo_mem (oe_tree env) 2 0) dtmp s;
              s \<leftarrow> releaseread_mrsw Volume s;
              if isopendir \<noteq> isdir n then Some (Inl LTFS_NO_DENTRY, vol, s)
              else do {
                (r, m) \<leftarrow> open_dentry env path open_write use_iosched (vol, s);
                case r of
                  Inl e \<Rightarrow> Some (Inl e, m)
                | Inr d \<Rightarrow> do { n \<leftarrow> dentries (snd m) d; Some (Inr (d, d_readonly n), m) }}}}))"

definition ltfs_fsops_open_combo ::
    "'s op_env \<Rightarrow> byte list \<Rightarrow> bool \<Rightarrow> bool \<Rightarrow> bool \<Rightarrow> 's mounted \<Rightarrow> (dptr \<times> bool, 's mounted) result option" where
  "ltfs_fsops_open_combo env path open_write use_iosched isopendir m =
     (case (if open_write then ltfs_get_tape_readonly (fst m) else Inr ()) of
        Inl e \<Rightarrow> if e \<noteq> LTFS_LESS_SPACE then Some (Inl e, m) else open_typed env path open_write use_iosched isopendir m
      | Inr _ \<Rightarrow> open_typed env path open_write use_iosched isopendir m)"

section \<open>Create, unlink and rename\<close>

definition ltfs_fsops_create ::
    "'s tape_ops \<Rightarrow> 's op_env \<Rightarrow> byte list \<Rightarrow> bool \<Rightarrow> bool \<Rightarrow> 's mounted \<Rightarrow> (dptr, 's mounted) result option" where
  "ltfs_fsops_create ops env path dir readonly m = obind (device_ok ops env False m) (\<lambda>_ m.
     case format_path env 0 False path of
       None \<Rightarrow> None
     | Some (Inl e) \<Rightarrow> Some (Inl e, m)
     | Some (Inr path) \<Rightarrow> obind (take_volume m) (\<lambda>_ (vol, s). do {
         (r, s) \<leftarrow> create_tree (oe_tree env) path dir readonly s;
         release_volume r (case r of Inl _ \<Rightarrow> vol | Inr _ \<Rightarrow> set_dirty False vol, s)}))"

text \<open>The result are the identifiers of the dentry, 0 when its name was not found in its directory.\<close>

definition ltfs_fsops_unlink ::
    "'s tape_ops \<Rightarrow> 's op_env \<Rightarrow> byte list \<Rightarrow> 's mounted \<Rightarrow> (nat \<times> nat, 's mounted) result option" where
  "ltfs_fsops_unlink ops env path m = obind (device_ok ops env True m) (\<lambda>_ m.
     case format_path env 0 True path of
       None \<Rightarrow> None
     | Some (Inl e) \<Rightarrow> Some (Inl e, m)
     | Some (Inr path) \<Rightarrow>
         if length path = 1 then Some (Inl LTFS_UNLINKROOT, m)
         else if path = [] then None
         else obind (take_volume m) (\<lambda>_ (vol, s). do {
           (r, s) \<leftarrow> unlink_tree (oe_tree env) path s;
           Some (case r of
               Inl e \<Rightarrow> (Inl e, vol, s)
             | Inr None \<Rightarrow> (Inr (0, 0), vol, s)
             | Inr (Some ids) \<Rightarrow> (Inr ids, set_dirty False vol, s))}))"

text \<open>The two locks of a rename; \<open>oe_copy\<close>: the new name can be copied.\<close>

definition rename_locked ::
    "'s op_env \<Rightarrow> byte list \<times> byte list \<Rightarrow> byte list \<times> byte list \<Rightarrow> 's mounted \<Rightarrow> (nat \<times> nat, 's mounted) result option" where
  "rename_locked env from to m = obind (take_volume m) (\<lambda>_ (vol, s). do {
     s \<leftarrow> acquirewrite_mrsw Rename s;
     (r, s) \<leftarrow> rename_tree (oe_tree env) (fst from) (snd from) (fst to) (snd to) s;
     Some (case r of
         Inl e \<Rightarrow> (Inl e, vol, s)
       | Inr (renamed, ids) \<Rightarrow> (Inr ids, if renamed then set_dirty False vol else vol, s))})"

definition ltfs_fsops_rename ::
    "'s tape_ops \<Rightarrow> 's op_env \<Rightarrow> byte list \<Rightarrow> byte list \<Rightarrow> 's mounted \<Rightarrow> (nat \<times> nat, 's mounted) result option" where
  "ltfs_fsops_rename ops env from to m = obind (device_ok ops env True m) (\<lambda>_ m.
     case format_path env 0 True from of
       None \<Rightarrow> None
     | Some (Inl e) \<Rightarrow> Some (Inl e, m)
     | Some (Inr from) \<Rightarrow>
         (case format_path env 1 False to of
            None \<Rightarrow> None
          | Some (Inl e) \<Rightarrow> Some (Inl e, m)
          | Some (Inr to) \<Rightarrow> do {
              from \<leftarrow> fs_split_path from;
              to \<leftarrow> fs_split_path to;
              if \<not> oe_copy env then Some (Inl LTFS_NO_MEMORY, m) else rename_locked env from to m}))"

section \<open>Attributes\<close>

record dentry_attr =
  at_size :: nat
  at_alloc_size :: nat
  at_blocksize :: nat
  at_uid :: nat
  at_nlink :: nat
  at_create_time :: ltfs_timespec
  at_access_time :: ltfs_timespec
  at_modify_time :: ltfs_timespec
  at_change_time :: ltfs_timespec
  at_backup_time :: ltfs_timespec
  at_readonly :: bool
  at_isdir :: bool
  at_isslink :: bool

definition ltfs_fsops_getattr :: "'s op_env \<Rightarrow> dptr \<Rightarrow> 's mounted \<Rightarrow> (dentry_attr, 's mounted) result option" where
  "ltfs_fsops_getattr env d m = obind (take_volume m) (\<lambda>_ (vol, s). do {
     s \<leftarrow> acquireread_mrsw (Meta d) s;
     n \<leftarrow> dentries s d;
     sz \<leftarrow> (if isslink n then map_option length (target n) else Some (size n));
     let a = \<lparr>at_size = sz, at_alloc_size = realsize n, at_blocksize = blocksize (vol_label vol), at_uid = uid n, at_nlink = link_count n,
       at_create_time = creation_time n, at_access_time = access_time n, at_modify_time = modify_time n, at_change_time = change_time n,
       at_backup_time = backup_time n, at_readonly = d_readonly n, at_isdir = isdir n, at_isslink = isslink n\<rparr>;
     s \<leftarrow> releaseread_mrsw (Meta d) s;
     s \<leftarrow> releaseread_mrsw Volume s;
     a \<leftarrow> (if \<not> isdir n \<and> \<not> isslink n \<and> fo_iosched (oe_tree env)
          then do { z \<leftarrow> fcfs_get_filesize d s; Some (a\<lparr>at_size := z\<rparr>) } else Some a);
     Some (Inr a, vol, s)})"

text \<open>
  The operations on a path: the dentry is opened, the operation is done, the identifiers are read and the
  dentry is closed. An error of the close is ignored.
\<close>

definition on_path ::
    "'s op_env \<Rightarrow> byte list \<Rightarrow> bool \<Rightarrow> (dptr \<Rightarrow> 's mounted \<Rightarrow> ('a, 's mounted) result option) \<Rightarrow> 's mounted \<Rightarrow>
     ((err + 'a) \<times> (nat \<times> nat) \<times> 's mounted) option" where
  "on_path env path open_write f m = do {
     (r, m) \<leftarrow> ltfs_fsops_open env path open_write False m;
     case r of
       Inl e \<Rightarrow> Some (Inl e, (0, 0), m)
     | Inr d \<Rightarrow> do {
         (ret, m) \<leftarrow> f d m;
         n \<leftarrow> dentries (snd m) d;
         (_, m) \<leftarrow> ltfs_fsops_close env d False open_write False m;
         Some (ret, (uid n, ino n), m)}}"

definition ltfs_fsops_getattr_path ::
    "'s op_env \<Rightarrow> byte list \<Rightarrow> 's mounted \<Rightarrow> ((err + dentry_attr) \<times> (nat \<times> nat) \<times> 's mounted) option" where
  "ltfs_fsops_getattr_path env path = on_path env path False (ltfs_fsops_getattr env)"

text \<open>Times outside of the range that an index can hold are replaced by its ends.\<close>

definition LTFS_TIME_T_MAX :: int where "LTFS_TIME_T_MAX = 253402300799"
definition LTFS_TIME_T_MIN :: int where "LTFS_TIME_T_MIN = - 62167219200"

definition normalize_ltfs_time :: "ltfs_timespec \<Rightarrow> ltfs_timespec" where
  "normalize_ltfs_time t =
     (if fst t > LTFS_TIME_T_MAX then (LTFS_TIME_T_MAX, 999999999)
      else if fst t < LTFS_TIME_T_MIN then (LTFS_TIME_T_MIN, 0) else t)"

text \<open>The two times that \<^verbatim>\<open>utimens\<close> sets.\<close>

definition set_times :: "ltfs_timespec \<Rightarrow> ltfs_timespec \<times> ltfs_timespec \<Rightarrow> node \<Rightarrow> node" where
  "set_times now ts n =
     (let n = (if access_time n \<noteq> fst ts then n\<lparr>access_time := normalize_ltfs_time (fst ts), change_time := now\<rparr> else n)
      in if modify_time n \<noteq> snd ts then n\<lparr>modify_time := normalize_ltfs_time (snd ts), change_time := now\<rparr> else n)"

definition dirty_times :: "ltfs_timespec \<times> ltfs_timespec \<Rightarrow> node \<Rightarrow> 's ltfs_volume \<Rightarrow> 's ltfs_volume" where
  "dirty_times ts n vol =
     (let vol = (if access_time n \<noteq> fst ts then set_dirty True vol else vol)
      in if modify_time n \<noteq> snd ts then set_dirty False vol else vol)"

definition ltfs_fsops_utimens ::
    "'s tape_ops \<Rightarrow> 's op_env \<Rightarrow> ltfs_timespec \<times> ltfs_timespec \<Rightarrow> dptr \<Rightarrow> 's mounted \<Rightarrow> (unit, 's mounted) result option" where
  "ltfs_fsops_utimens ops env ts d m = obind (device_ok ops env True m) (\<lambda>_ m. obind (take_volume m) (\<lambda>_ (vol, s). do {
     s \<leftarrow> acquirewrite_mrsw (Meta d) s;
     n \<leftarrow> dentries s d;
     s \<leftarrow> change d (set_times (fo_now (oe_tree env)) ts) s;
     s \<leftarrow> releasewrite_mrsw (Meta d) s;
     release_volume (Inr ()) (dirty_times ts n vol, s)}))"

definition ltfs_fsops_utimens_path ::
    "'s tape_ops \<Rightarrow> 's op_env \<Rightarrow> byte list \<Rightarrow> ltfs_timespec \<times> ltfs_timespec \<Rightarrow> 's mounted \<Rightarrow>
     ((err + unit) \<times> (nat \<times> nat) \<times> 's mounted) option" where
  "ltfs_fsops_utimens_path ops env path ts = on_path env path False (ltfs_fsops_utimens ops env ts)"

definition ltfs_fsops_set_readonly ::
    "'s tape_ops \<Rightarrow> 's op_env \<Rightarrow> bool \<Rightarrow> dptr \<Rightarrow> 's mounted \<Rightarrow> (unit, 's mounted) result option" where
  "ltfs_fsops_set_readonly ops env readonly d m = obind (device_ok ops env True m) (\<lambda>_ m. obind (take_volume m) (\<lambda>_ (vol, s). do {
     s \<leftarrow> acquirewrite_mrsw (Meta d) s;
     n \<leftarrow> dentries s d;
     s \<leftarrow> (if readonly \<noteq> d_readonly n then change d (\<lambda>n. n\<lparr>d_readonly := readonly, change_time := fo_now (oe_tree env)\<rparr>) s else Some s);
     s \<leftarrow> releasewrite_mrsw (Meta d) s;
     release_volume (Inr ()) (if readonly \<noteq> d_readonly n then set_dirty False vol else vol, s)}))"

definition ltfs_fsops_set_readonly_path ::
    "'s tape_ops \<Rightarrow> 's op_env \<Rightarrow> byte list \<Rightarrow> bool \<Rightarrow> 's mounted \<Rightarrow> ((err + unit) \<times> (nat \<times> nat) \<times> 's mounted) option" where
  "ltfs_fsops_set_readonly_path ops env path readonly = on_path env path False (ltfs_fsops_set_readonly ops env readonly)"

section \<open>Directory entries by number\<close>

record ltfs_direntry =
  de_name :: "byte list option"
  de_psn :: "byte list option"
  de_isdir :: bool
  de_readonly :: bool
  de_isslink :: bool
  de_realsize :: nat
  de_size :: nat
  de_creation_time :: ltfs_timespec
  de_access_time :: ltfs_timespec
  de_modify_time :: ltfs_timespec
  de_change_time :: ltfs_timespec

text \<open>The search for the entry with the number \<open>index\<close>, counting from \<open>i\<close>; the result is the final count too.\<close>

fun find_direntry :: "fs \<Rightarrow> nat \<Rightarrow> nat \<Rightarrow> (byte list \<times> dptr) list \<Rightarrow> (nat \<times> dptr option) option" where
  "find_direntry s index i [] = Some (i, None)"
| "find_direntry s index i ((k, p) # cs) = do {
     n \<leftarrow> dentries s p;
     if deleted n \<or> platform_safe_name n = None then find_direntry s index i cs
     else if i = index then Some (i, Some p)
     else find_direntry s index (i + 1) cs}"

definition dot :: byte where "dot = 46"

definition direntry_start :: "bool \<Rightarrow> nat \<Rightarrow> dptr \<Rightarrow> node \<Rightarrow> byte list option \<times> dptr option \<times> nat" where
  "direntry_start root_flag index d n =
     (if \<not> root_flag \<or> parent n \<noteq> None
      then if index = 0 then (Some [dot], Some d, 0) else if index = 1 then (Some [dot, dot], parent n, 1) else (None, None, 2)
      else (None, None, 0))"

definition ltfs_fsops_read_direntry :: "dptr \<Rightarrow> nat \<Rightarrow> bool \<Rightarrow> fs \<Rightarrow> (ltfs_direntry, fs) result option" where
  "ltfs_fsops_read_direntry d index root_flag s = do {
     s \<leftarrow> acquireread_mrsw (Contents d) s;
     n \<leftarrow> dentries s d;
     if \<not> isdir n then do { s \<leftarrow> releaseread_mrsw (Contents d) s; Some (Inl LTFS_ISFILE, s) }
     else case direntry_start root_flag index d n of
       (nm, t, i) \<Rightarrow> do {
         (i, t) \<leftarrow> (if t = None then find_direntry s index i (child_list n) else Some (i, t));
         s \<leftarrow> releaseread_mrsw (Contents d) s;
         case t of
           None \<Rightarrow> Some (Inl LTFS_NO_DENTRY, s)
         | Some p \<Rightarrow>
             if i \<noteq> index then Some (Inl LTFS_NO_DENTRY, s)
             else do {
               s \<leftarrow> acquireread_mrsw (Meta p) s;
               x \<leftarrow> dentries s p;
               s \<leftarrow> releaseread_mrsw (Meta p) s;
               Some (Inr \<lparr>de_name = (if nm = None then d_name x else nm), de_psn = (if nm = None then platform_safe_name x else nm),
                 de_isdir = isdir x, de_readonly = d_readonly x, de_isslink = isslink x, de_realsize = realsize x, de_size = size x,
                 de_creation_time = creation_time x, de_access_time = access_time x, de_modify_time = modify_time x,
                 de_change_time = change_time x\<rparr>, s)}}}"

section \<open>Contents\<close>

definition ltfs_fsops_write ::
    "'s tape_ops \<Rightarrow> 's op_env \<Rightarrow> dptr \<Rightarrow> byte list \<Rightarrow> nat \<Rightarrow> bool \<Rightarrow> 's mounted \<Rightarrow> (unit, 's mounted) result option" where
  "ltfs_fsops_write ops env d buf offset isupdatetime = (\<lambda>(vol, s). do {
     n \<leftarrow> dentries s d;
     if isdir n then Some (Inl LTFS_ISDIRECTORY, vol, s)
     else do {
       (r, vol, s) \<leftarrow> (if fo_iosched (oe_tree env) then fcfs_write ops env d buf offset isupdatetime (vol, s)
         else fsraw_write ops env d buf offset (ltfs_dp_id vol) isupdatetime (vol, s));
       s \<leftarrow> (if \<not> isupdatetime \<and> r = Inr () then change d (need_update_time_update (\<lambda>_. True)) s else Some s);
       Some (r, vol, s)}})"

definition ltfs_fsops_read ::
    "'s tape_ops \<Rightarrow> 's op_env \<Rightarrow> dptr \<Rightarrow> nat \<Rightarrow> nat \<Rightarrow> 's mounted \<Rightarrow> (byte list, 's mounted) result option" where
  "ltfs_fsops_read ops env d len offset = (\<lambda>(vol, s). do {
     n \<leftarrow> dentries s d;
     if isdir n then Some (Inl LTFS_ISDIRECTORY, vol, s)
     else if fo_iosched (oe_tree env) then fcfs_read ops env d len offset (vol, s)
     else fsraw_read ops env d len offset (vol, s)})"

text \<open>The return code of the truncation is overwritten by that of the block count.\<close>

definition ltfs_fsops_truncate ::
    "'s tape_ops \<Rightarrow> 's op_env \<Rightarrow> int \<Rightarrow> dptr \<Rightarrow> 's mounted \<Rightarrow> (unit, 's mounted) result option" where
  "ltfs_fsops_truncate ops env len d m =
     (if len < 0 then Some (Inl LTFS_BAD_ARG, m)
      else do {
        n \<leftarrow> dentries (snd m) d;
        if isdir n then Some (Inl LTFS_ISDIRECTORY, m)
        else obind (device_ok ops env False m) (\<lambda>_ m. do {
          (_, m) \<leftarrow> (if fo_iosched (oe_tree env) then fcfs_truncate env d (nat len) m else fsraw_truncate env d (nat len) m);
          ltfs_fsops_update_used_blocks d m})})"

definition ltfs_fsops_truncate_path ::
    "'s tape_ops \<Rightarrow> 's op_env \<Rightarrow> byte list \<Rightarrow> int \<Rightarrow> 's mounted \<Rightarrow> ((err + unit) \<times> (nat \<times> nat) \<times> 's mounted) option" where
  "ltfs_fsops_truncate_path ops env path len = on_path env path True (ltfs_fsops_truncate ops env len)"

definition ltfs_fsops_flush :: "'s op_env \<Rightarrow> dptr option \<Rightarrow> bool \<Rightarrow> fs \<Rightarrow> (err + unit) option" where
  "ltfs_fsops_flush env d closeflag s = do {
     dir \<leftarrow> (case d of None \<Rightarrow> Some False | Some p \<Rightarrow> map_option isdir (dentries s p));
     Some (if dir then Inl LTFS_ISDIRECTORY else if fo_iosched (oe_tree env) then fcfs_flush d closeflag else Inr ())}"

definition ltfs_fsops_set_write_protected :: "'s mounted \<Rightarrow> 's mounted" where
  "ltfs_fsops_set_write_protected = (\<lambda>(vol, s). (vol\<lparr>device := (device vol)\<lparr>dev_write_protect := True\<rparr>\<rparr>, s))"

end
