(* ===== verification/Ltfs_Contents.thy ===== *)
theory Ltfs_Contents
  imports Ltfs_Fsops
begin

text \<open>
  The locks of reading and writing. The operations of \<open>Ltfs_Fsops\<close> on file contents take and release the
  reader-writer locks of the volume and of the dentry in a loop over the fence and the revalidation; those of
  \<open>Ltfs_Raw\<close> describe what happens to the contents and to the tape. Here the two are shown to agree, in both
  directions: from free locks one returns if and only if the other does, with the same result and the same
  volume, and then the locks are free again.
\<close>

section \<open>The volume lock\<close>

text \<open>The volume lock when it is free.\<close>

lemma volume_lock_free:
  assumes "locks s Volume = Free"
  shows "volume_lock ex (vol, s) =
    (case reval vol of
       None \<Rightarrow> Some (Inr (), vol, hold Volume (if ex then Wr else Rd 1) s)
     | Some e \<Rightarrow> if e = LTFS_REVAL_RUNNING then None else Some (Inl e, vol, s))"
  using assms by (auto simp: volume_lock_def acquirewrite_Some acquireread_Some release_Some hold_same split: option.split)

lemma take_volume_ready:
  "reval vol = None \<Longrightarrow> locks s Volume = Free \<Longrightarrow> take_volume (vol, s) = Some (Inr (), vol, hold Volume (Rd 1) s)"
  by (simp add: volume_lock_free)

lemma take_volume_state:
  assumes "take_volume (vol, s) = Some (r, vol', s')" and "locks s Volume = Free"
  shows "vol' = vol" "case r of Inl _ \<Rightarrow> s' = s | Inr _ \<Rightarrow> s' = hold Volume (Rd 1) s \<and> reval vol = None"
  using assms by (auto simp: volume_lock_free split: option.splits if_splits)

lemma release_volume_held: "locks s Volume = Rd 1 \<Longrightarrow> release_volume r (vol, s) = Some (r, vol, hold Volume Free s)"
  by (simp add: release_volume_def releaseread_Some)

lemma wait_revalidation_held:
  assumes "locks s Volume = Rd 1 \<or> locks s Volume = Wr"
  shows "wait_revalidation (vol, s) = map_option (\<lambda>r. (r, vol, hold Volume Free s)) (ltfs_wait_revalidation vol)"
  using assms by (cases "ltfs_wait_revalidation vol") (simp_all add: wait_revalidation_def release_Some)

lemma revalidate_volume_held:
  assumes "locks s Volume = Rd 1 \<or> locks s Volume = Wr"
  shows "revalidate_volume env (vol, s) = (case fs_revalidate (oe_fs env) vol of (r, vol) \<Rightarrow> Some (r, vol, hold Volume Free s))"
  using assms by (simp add: revalidate_volume_def release_Some lock_ops split: prod.split)

lemma downgrade_volume_held: "locks s Volume = Wr \<Longrightarrow> downgrade_volume r (vol, s) = Some (r, vol, hold Volume (Rd 1) s)"
  by (simp add: downgrade_volume_def writetoread_Some)

section \<open>Writing\<close>

lemma write_data_unlocked_locks:
  assumes "locks s Volume = Wr"
  shows "fsraw_write_data_unlocked ops env part buf k (vol, s) =
    map_option (\<lambda>(r, vol). (r, vol, hold Volume (Rd 1) s)) (ltfs_fsraw_write_data_unlocked ops (oe_fs env) part buf k vol)"
  using assms
  by (auto simp: fsraw_write_data_unlocked_def ltfs_fsraw_write_data_unlocked_def write_data_locked_def downgrade_volume_held writetoread_Some
      obind_def bind_def map_option_case split: option.split sum.split prod.split)

text \<open>The state of the tree at the end of the loop: the volume is locked after success only.\<close>

definition loop_state :: "(err + 'a) \<Rightarrow> fs \<Rightarrow> fs" where
  "loop_state r s = (case r of Inl _ \<Rightarrow> s | Inr _ \<Rightarrow> hold Volume (Rd 1) s)"

lemma loop_returns:
  assumes "ltfs_fsraw_write_data ops (oe_fs env) part buf k vol = Some (r, vol')" and "k = 1" and free: "locks s Volume = Free"
  shows "fsraw_write_loop ops env part buf (vol, s) = Some (r, vol', loop_state r s)"
proof -
  define e where "e = oe_fs env"
  have "e = oe_fs env \<longrightarrow> k = 1 \<longrightarrow> (\<forall>s. locks s Volume = Free \<longrightarrow>
      fsraw_write_loop ops env part buf (vol, s) = Some (fst (r, vol'), snd (r, vol'), loop_state (fst (r, vol')) s))"
  proof (rule ltfs_fsraw_write_data.raw_induct [OF _ assms(1) [folded e_def],
      where P = "\<lambda>ops e part buf k vol y. e = oe_fs env \<longrightarrow> k = 1 \<longrightarrow> (\<forall>s. locks s Volume = Free \<longrightarrow>
        fsraw_write_loop ops env part buf (vol, s) = Some (fst y, snd y, loop_state (fst y) s))"], goal_cases)
    case (1 rec ops e part buf k vol y)
    show ?case
    proof (intro impI allI)
      fix s :: fs assume a: "e = oe_fs env" "k = 1" "locks s Volume = Free"
      note IH = 1(1) [rule_format, OF _ a(1,2,3)]
      show "fsraw_write_loop ops env part buf (vol, s) = Some (fst y, snd y, loop_state (fst y) s)"
        using 1(2) a
        by (subst fsraw_write_loop.simps)
          (auto simp: volume_lock_free ltfs_get_volume_lock_def write_data_unlocked_locks wait_revalidation_held revalidate_volume_held
            release_volume_held loop_state_def hold_same IH split: option.splits sum.splits if_splits prod.splits)
    qed
  qed
  then show ?thesis using assms(2) free by (simp add: e_def)
qed

lemma loop_only_returns:
  assumes "fsraw_write_loop ops env part buf (vol, s) = Some (r, vol', s')" and free: "locks s Volume = Free"
  shows "ltfs_fsraw_write_data ops (oe_fs env) part buf 1 vol = Some (r, vol') \<and> s' = loop_state r s"
proof -
  have "locks (snd (vol, s)) Volume = Free \<longrightarrow>
      ltfs_fsraw_write_data ops (oe_fs env) part buf 1 (fst (vol, s)) = Some (fst (r, vol', s'), fst (snd (r, vol', s'))) \<and>
      snd (snd (r, vol', s')) = loop_state (fst (r, vol', s')) (snd (vol, s))"
  proof (rule fsraw_write_loop.raw_induct [OF _ assms(1), where P = "\<lambda>ops env part buf m y. locks (snd m) Volume = Free \<longrightarrow>
      ltfs_fsraw_write_data ops (oe_fs env) part buf 1 (fst m) = Some (fst y, fst (snd y)) \<and> snd (snd y) = loop_state (fst y) (snd m)"], goal_cases)
    case (1 rec ops env part buf m y)
    obtain vol s where m: "m = (vol, s)" by (cases m)
    note simps = volume_lock_free ltfs_get_volume_lock_def write_data_unlocked_locks release_volume_held loop_state_def hold_same
    show ?case
    proof (intro impI, goal_cases)
      case prem: 1
      then have f: "locks s Volume = Free" by (simp add: m)
      have IH: "rec ops env part buf (v, s) = Some y \<Longrightarrow>
          ltfs_fsraw_write_data ops (oe_fs env) part buf 1 v = Some (fst y, fst (snd y)) \<and> snd (snd y) = loop_state (fst y) s" for v
        using 1(1) [of ops env part buf "(v, s)" y] f by simp
      note body = 1(2) [unfolded m]
      show ?case
      proof (cases "reval vol")
        case (Some e)
        then show ?thesis using body f unfolding m by (subst ltfs_fsraw_write_data.simps) (auto simp: simps split: if_splits)
      next
        case ok: None
        show ?thesis
        proof (cases "ltfs_fsraw_write_data_unlocked ops (oe_fs env) part buf 1 vol")
          case None
          then show ?thesis using body f ok by (simp add: simps)
        next
          case (Some x)
          obtain r1 v1 where x: "x = (r1, v1)" by (cases x)
          show ?thesis
          proof (cases r1)
            case (Inr b)
            then show ?thesis using body f ok Some x unfolding m by (subst ltfs_fsraw_write_data.simps) (auto simp: simps)
          next
            case (Inl e)
            show ?thesis
            proof (cases "e = LTFS_DEVICE_FENCED")
              case True
              then show ?thesis using body f ok Some x Inl IH unfolding m
                by (subst ltfs_fsraw_write_data.simps)
                  (auto simp: simps wait_revalidation_held ltfs_wait_revalidation_def split: option.splits if_splits)
            next
              case False
              obtain q v2 where q: "fs_revalidate (oe_fs env) v1 = (q, v2)" by (cases "fs_revalidate (oe_fs env) v1")
              show ?thesis using body f ok Some x Inl False IH q unfolding m
                by (subst ltfs_fsraw_write_data.simps)
                  (cases q; cases "NEED_REVAL e"; cases "IS_UNEXPECTED_MOVE e"; simp add: simps revalidate_volume_held; fastforce)
            qed
          qed
        qed
      qed
    qed
  qed
  then show ?thesis using free by simp
qed

lemma fsraw_write_loop_eq:
  assumes "locks s Volume = Free"
  shows "fsraw_write_loop ops env part buf (vol, s) =
    map_option (\<lambda>(r, vol). (r, vol, loop_state r s)) (ltfs_fsraw_write_data ops (oe_fs env) part buf 1 vol)"
proof (cases "fsraw_write_loop ops env part buf (vol, s)")
  case None
  then show ?thesis using loop_returns [OF _ refl assms, of ops env part buf vol] by (cases "ltfs_fsraw_write_data ops (oe_fs env) part buf 1 vol") fastforce+
next
  case (Some y)
  then show ?thesis using loop_only_returns [OF _ assms, of ops env part buf vol] by (cases y) auto
qed

text \<open>A part of a dentry is put back.\<close>

lemma put_contents_self [simp]: "put_contents (dentry.truncate n) n = n"
  by (cases n) (simp add: put_contents_def dentry.defs)

lemma alter_cong: "dentries s d = Some n \<Longrightarrow> f n = g n \<Longrightarrow> alter d f s = alter d g s"
  by (simp add: alter_def)

lemma alter_put_self [simp]: "dentries s d = Some n \<Longrightarrow> alter d (put_contents (dentry.truncate n)) s = s"
  by (simp add: alter_same)

lemma alter_access_time:
  "dentries s d = Some n \<Longrightarrow>
     alter d (put_contents (dentry.truncate n\<lparr>access_time := t\<rparr>)) s = alter d (access_time_update (\<lambda>_. t)) s"
  by (rule alter_cong [of s d n]) (simp_all add: put_contents_def dentry.defs)

lemma fsraw_write_eq:
  assumes n: "dentries s d = Some n" and free: "locks s Volume = Free" "locks s (Contents d) = Free" "locks s (Meta d) = Free"
  shows "fsraw_write ops env d buf offset part ut (vol, s) =
    map_option (\<lambda>(r, c, vol). (r, vol, alter d (put_contents c) s)) (ltfs_fsraw_write ops (oe_fs env) buf offset part ut (dentry.truncate n, vol))"
proof (cases "ltfs_fsraw_write_data ops (oe_fs env) part buf 1 vol")
  case None
  then show ?thesis by (simp add: fsraw_write_def ltfs_fsraw_write_def fsraw_write_loop_eq [OF free(1)])
next
  case (Some y)
  obtain b vol1 where y: "y = (b, vol1)" by (cases y)
  show ?thesis
  proof (cases b)
    case (Inl e)
    then show ?thesis using Some y n by (simp add: fsraw_write_def ltfs_fsraw_write_def fsraw_write_loop_eq [OF free(1)] loop_state_def)
  next
    case (Inr a)
    define ext where "ext = \<lparr>partition = part, block = (case a of None \<Rightarrow> 0 | Some b \<Rightarrow> b), byteoffset = 0, bytecount = length buf, fileoffset = offset\<rparr>"
    obtain r c vol2 where x: "add_extent_vol (oe_fs env) ext ut (dentry.truncate n, vol1) = (r, c, vol2)" by (cases "add_extent_vol (oe_fs env) ext ut (dentry.truncate n, vol1)")
    then show ?thesis
      using Some y n Inr free
      by (cases r) (simp_all add: fsraw_write_def ltfs_fsraw_write_def fsraw_write_loop_eq [OF free(1)] loop_state_def
          fsraw_add_extent_unlocked_def ext_def [symmetric] lock_ops release_volume_held hold_same hold_swap [of Volume])
  qed
qed

section \<open>Reading\<close>

text \<open>One round of a read: the locks around the data, and what is left to do.\<close>

definition read_free :: "dptr \<Rightarrow> fs \<Rightarrow> bool" where
  "read_free d s \<longleftrightarrow> locks s Volume = Free \<and> locks s (Contents d) = Free \<and> locks s (Meta d) = Free"

lemma fsraw_read_round:
  assumes "read_free d s" and n: "dentries s d = Some n" and "cnt \<noteq> 0"
  shows "fsraw_read ops env d cnt offset (vol, s) =
    (case ltfs_get_volume_lock vol of
       None \<Rightarrow> None
     | Some (Inl e) \<Rightarrow> Some (Inl e, vol, s)
     | Some (Inr _) \<Rightarrow>
         (case tape_device_lock (fs_mutex (oe_fs env)) (device vol) of
            Inl e \<Rightarrow>
              if e = LTFS_DEVICE_FENCED then
                (case ltfs_wait_revalidation vol of
                   None \<Rightarrow> None
                 | Some (Inl e) \<Rightarrow> Some (Inl e, vol, s)
                 | Some (Inr _) \<Rightarrow> fsraw_read ops env d cnt offset (vol, s))
              else Some (Inl e, vol, s)
          | Inr _ \<Rightarrow>
              (case read_locked ops (oe_fs env) cnt offset (dentry.truncate n, vol) of
                 None \<Rightarrow> None
               | Some (Inr out, c, vol) \<Rightarrow> Some (Inr out, vol, alter d (put_contents c) s)
               | Some (Inl e, c, vol) \<Rightarrow>
                   if NEED_REVAL e then
                     (case fs_revalidate (oe_fs env) (vol\<lparr>device := tape_start_fence (device vol)\<rparr>) of
                        (Inl e, vol) \<Rightarrow> Some (Inl e, vol, s)
                      | (Inr _, vol) \<Rightarrow> fsraw_read ops env d cnt offset (vol, s))
                   else if IS_UNEXPECTED_MOVE e then Some (Inl e, vol\<lparr>reval := Some LTFS_REVAL_FAILED\<rparr>, s)
                   else Some (Inl e, vol, s))))"
proof -
  have free: "locks s Volume = Free" "locks s (Contents d) = Free" "locks s (Meta d) = Free" using assms(1) by (simp_all add: read_free_def)
  note simps = volume_lock_free [OF free(1)] ltfs_get_volume_lock_def lock_ops hold_same hold_swap [of Volume] release_volume_held free
    wait_revalidation_held revalidate_volume_held
  show ?thesis
  proof (cases "reval vol")
    case (Some e)
    then show ?thesis using assms(3) by (subst fsraw_read.simps) (simp add: simps)
  next
    case ok: None
    show ?thesis
    proof (cases "tape_device_lock (fs_mutex (oe_fs env)) (device vol)")
      case (Inl e)
      then show ?thesis using assms(3) ok by (subst fsraw_read.simps) (auto simp: simps ltfs_wait_revalidation_def)
    next
      case (Inr u)
      show ?thesis
      proof (cases "read_data ops (oe_fs env) cnt offset (dentry.truncate n) vol")
        case None
        then show ?thesis using assms(3) ok Inr n by (subst fsraw_read.simps) (simp add: simps read_locked_def)
      next
        case (Some x)
        obtain r v where x: "x = (r, v)" by (cases x)
        have "fs_revalidate (oe_fs env) (v\<lparr>device := tape_start_fence (device v)\<rparr>) = (a, b) \<Longrightarrow> ?thesis" for a b
          using assms(3) ok Inr Some x n
          by (cases r; cases a; subst fsraw_read.simps) (simp_all add: simps read_locked_def alter_access_time [OF n] set_dirty_def)
        then show ?thesis by (cases "fs_revalidate (oe_fs env) (v\<lparr>device := tape_start_fence (device v)\<rparr>)") blast
      qed
    qed
  qed
qed

lemma read_returns:
  assumes "ltfs_fsraw_read ops (oe_fs env) cnt offset (dentry.truncate n, vol) = Some (r, c, vol')"
    and free: "read_free d s" and n: "dentries s d = Some n"
  shows "fsraw_read ops env d cnt offset (vol, s) = Some (r, vol', alter d (put_contents c) s)"
proof -
  have "oe_fs env = oe_fs env \<longrightarrow> fst (dentry.truncate n, vol) = dentry.truncate n \<longrightarrow>
      fsraw_read ops env d cnt offset (snd (dentry.truncate n, vol), s) =
        Some (fst (r, c, vol'), snd (snd (r, c, vol')), alter d (put_contents (fst (snd (r, c, vol')))) s)"
  proof (rule ltfs_fsraw_read.raw_induct [OF _ assms(1), where P = "\<lambda>ops e cnt offset st y. e = oe_fs env \<longrightarrow> fst st = dentry.truncate n \<longrightarrow>
      fsraw_read ops env d cnt offset (snd st, s) = Some (fst y, snd (snd y), alter d (put_contents (fst (snd y))) s)"], goal_cases)
    case (1 rec ops e cnt offset st y)
    show ?case
    proof (intro impI, goal_cases)
      case prem: 1
      obtain v where st: "st = (dentry.truncate n, v)" using prem(2) by (cases st) simp
      have IH: "fsraw_read ops env d cnt offset (w, s) = Some (fst y, snd (snd y), alter d (put_contents (fst (snd y))) s)"
        if "rec ops (oe_fs env) cnt offset (dentry.truncate n, w) = Some y" for w
        using 1(1) [OF that] by simp
      show ?case
      proof (cases "cnt = 0")
        case True
        then show ?thesis using 1(2) n st by (subst fsraw_read.simps) auto
      next
        case False
        note round = fsraw_read_round [OF free n False, of ops env offset v] and body = 1(2) [unfolded st prem(1)]
        show ?thesis
        proof (cases "read_locked ops (oe_fs env) cnt offset (dentry.truncate n, v)")
          case None
          then show ?thesis using body False n IH unfolding st snd_conv
            by (subst round) (auto split: option.splits sum.splits if_splits)
        next
          case (Some x)
          obtain a c w where x: "x = (a, c, w)" by (cases x)
          obtain q u where q: "fs_revalidate (oe_fs env) (w\<lparr>device := tape_start_fence (device w)\<rparr>) = (q, u)"
            by (cases "fs_revalidate (oe_fs env) (w\<lparr>device := tape_start_fence (device w)\<rparr>)")
          have keep: "c = dentry.truncate n" if "a = Inl z" for z
            using that Some x by (auto simp: read_locked_def split: option.splits sum.splits)
          show ?thesis using body False n IH Some x q keep unfolding st snd_conv
            by (subst round) (cases a; cases q; auto split: option.splits sum.splits if_splits)
        qed
      qed
    qed
  qed
  then show ?thesis by simp
qed

lemma read_only_returns:
  assumes "fsraw_read ops env d cnt offset (vol, s) = Some (r, vol', s')" and free: "read_free d s" and n: "dentries s d = Some n"
  shows "\<exists>c. ltfs_fsraw_read ops (oe_fs env) cnt offset (dentry.truncate n, vol) = Some (r, c, vol')"
proof -
  have "d = d \<longrightarrow> snd (vol, s) = s \<longrightarrow>
      (\<exists>c. ltfs_fsraw_read ops (oe_fs env) cnt offset (dentry.truncate n, fst (vol, s)) = Some (fst (r, vol', s'), c, fst (snd (r, vol', s'))))"
  proof (rule fsraw_read.raw_induct [OF _ assms(1), where P = "\<lambda>ops env d' cnt offset m y. d' = d \<longrightarrow> snd m = s \<longrightarrow>
      (\<exists>c. ltfs_fsraw_read ops (oe_fs env) cnt offset (dentry.truncate n, fst m) = Some (fst y, c, fst (snd y)))"], goal_cases)
    case (1 rec ops env d' cnt offset m y)
    have F: "locks s Volume = Free" "locks s (Contents d) = Free" "locks s (Meta d) = Free" using free by (simp_all add: read_free_def)
    note simps = volume_lock_free [OF F(1)] ltfs_get_volume_lock_def lock_ops hold_same hold_swap [of Volume] release_volume_held F
      wait_revalidation_held revalidate_volume_held read_locked_def
    show ?case
    proof (intro impI, goal_cases)
      case prem: 1
      obtain v where m: "m = (v, s)" using prem(2) by (cases m) simp
      have IH: "\<exists>c. ltfs_fsraw_read ops (oe_fs env) cnt offset (dentry.truncate n, w) = Some (fst y, c, fst (snd y))"
        if "rec ops env d cnt offset (w, s) = Some y" for w
        using 1(1) [OF that] by simp
      note body = 1(2) [unfolded m prem(1)]
      show ?case
      proof (cases "cnt = 0 \<or> reval v \<noteq> None")
        case True
        then show ?thesis using body unfolding m fst_conv
          by (subst ltfs_fsraw_read.simps) (cases "cnt = 0"; cases "reval v"; auto simp: simps split: if_splits)
      next
        case False
        then have ok: "cnt \<noteq> 0" "reval v = None" by auto
        show ?thesis
        proof (cases "tape_device_lock (fs_mutex (oe_fs env)) (device v)")
          case (Inl e)
          then show ?thesis using body IH ok unfolding m fst_conv
            by (subst ltfs_fsraw_read.simps) (cases "e = LTFS_DEVICE_FENCED"; auto simp: simps ltfs_wait_revalidation_def)
        next
          case lk: (Inr u)
          show ?thesis
          proof (cases "read_data ops (oe_fs env) cnt offset (dentry.truncate n) v")
          case None
          then show ?thesis using body ok lk n by (simp add: simps)
        next
          case (Some x)
          obtain a w where x: "x = (a, w)" by (cases x)
          obtain q u where q: "fs_revalidate (oe_fs env) (w\<lparr>device := tape_start_fence (device w)\<rparr>) = (q, u)"
            by (cases "fs_revalidate (oe_fs env) (w\<lparr>device := tape_start_fence (device w)\<rparr>)")
          show ?thesis using body n IH Some x q ok lk unfolding m fst_conv
            by (subst ltfs_fsraw_read.simps) (cases a; cases q; auto simp: simps set_dirty_def split: if_splits)
          qed
        qed
      qed
    qed
  qed
  then show ?thesis by simp
qed

lemma fsraw_read_eq:
  assumes n: "dentries s d = Some n" and "locks s Volume = Free" "locks s (Contents d) = Free" "locks s (Meta d) = Free"
  shows "fsraw_read ops env d cnt offset (vol, s) =
    map_option (\<lambda>(r, c, vol). (r, vol, alter d (put_contents c) s)) (ltfs_fsraw_read ops (oe_fs env) cnt offset (dentry.truncate n, vol))"
proof -
  have f: "read_free d s" using assms(2-) by (simp add: read_free_def)
  show ?thesis
  proof (cases "ltfs_fsraw_read ops (oe_fs env) cnt offset (dentry.truncate n, vol)")
    case None
    then show ?thesis using read_only_returns [OF _ f n, of ops env cnt offset vol] by (cases "fsraw_read ops env d cnt offset (vol, s)") auto
  next
    case (Some x)
    then show ?thesis using read_returns [OF _ f n, of ops env cnt offset vol] by (cases x) simp
  qed
qed

section \<open>The test of the drive\<close>

text \<open>The test of the drive gives the volume lock back too.\<close>

lemma test_unit_ready_state:
  assumes "ltfs_test_unit_ready ops env (vol, s) = Some (r, vol', s')" and free: "locks s Volume = Free"
  shows "s' = s"
proof -
  have "snd (vol, s) = s \<longrightarrow> snd (snd (r, vol', s')) = s"
  proof (rule ltfs_test_unit_ready.raw_induct [OF _ assms(1), where P = "\<lambda>ops env m y. snd m = s \<longrightarrow> snd (snd y) = s"], goal_cases)
    case (1 rec ops env m y)
    show ?case
    proof (intro impI, goal_cases)
      case prem: 1
      obtain v where m: "m = (v, s)" using prem by (cases m) simp
      have IH: "snd (snd y) = s" if "rec ops env (w, s) = Some y" for w using 1(1) [OF that] by simp
      obtain a w where t: "tape_test_unit_ready ops (fo_now (oe_tree env)) (oe_since env v) (device v) = (a, w)"
        by (cases "tape_test_unit_ready ops (fo_now (oe_tree env)) (oe_since env v) (device v)")
      obtain q u where q: "fs_revalidate (oe_fs env) (v\<lparr>device := tape_start_fence w\<rparr>) = (q, u)"
        by (cases "fs_revalidate (oe_fs env) (v\<lparr>device := tape_start_fence w\<rparr>)")
      show ?case using 1(2) [unfolded m] t q free
        by (cases a; cases q)
          (auto simp: volume_lock_free [OF free] wait_revalidation_held revalidate_volume_held release_volume_held hold_same
            ltfs_wait_revalidation_def split: option.splits sum.splits if_splits dest: IH)
    qed
  qed
  then show ?thesis by simp
qed

lemma device_ok_state:
  "device_ok ops env low_ok (vol, s) = Some (r, vol', s') \<Longrightarrow> locks s Volume = Free \<Longrightarrow> s' = s"
  using test_unit_ready_state [of ops env vol s r vol' s'] by (auto simp: device_ok_def split: sum.splits if_splits)

end
