(* ===== verification/Ltfs_Handlers.thy ===== *)
theory Ltfs_Handlers
  imports Ltfs_Contents
begin

text \<open>
  What the operations do, seen through paths: a path as text and as a list of names, the checks in front of
  the tree, and for create, unlink, rename, open and close the effect on the map \<open>resolve\<close> from lists of names to
  dentries. \<open>at_rest H\<close> is the invariant between two calls.
\<close>

section \<open>Paths as text\<close>

definition path_text :: "byte list list \<Rightarrow> byte list" where
  "path_text ks = (if ks = [] then [slash] else concat (map (\<lambda>k. slash # k) ks))"

text \<open>The name of a dentry: not empty, without a slash and not too long.\<close>

definition name_ok :: "byte list \<Rightarrow> bool" where
  "name_ok k \<longleftrightarrow> k \<noteq> [] \<and> slash \<notin> set k \<and> pathname_strlen k \<le> LTFS_FILENAME_MAX"

lemma split_slash_free: "slash \<notin> set k \<Longrightarrow> split_slash k = [k]"
  by (induction k) auto

lemma split_slash_append:
  "slash \<notin> set k \<Longrightarrow> split_slash (k @ slash # cs) = k # split_slash cs"
  by (induction k) auto

lemma split_path_names:
  "ks \<noteq> [] \<Longrightarrow> \<forall>k \<in> set ks. slash \<notin> set k \<Longrightarrow> split_slash (tl (concat (map (\<lambda>k. slash # k) ks))) = ks"
proof (induction ks)
  case (Cons k ks)
  then show ?case
    by (cases ks) (simp_all add: split_slash_free split_slash_append)
qed simp

lemma path_text_cases: "\<forall>k \<in> set ks. name_ok k \<Longrightarrow> ks \<noteq> [] \<Longrightarrow> path_text ks \<noteq> [] \<and> path_text ks \<noteq> [slash] \<and> length (path_text ks) \<noteq> 1"
  by (cases ks) (auto simp: path_text_def name_ok_def)

lemma lookup_names:
  assumes "\<forall>k \<in> set ks. name_ok k" and "path = path_text ks \<or> path = [] \<and> ks = []"
  shows "lookup_result s path =
    (case resolve s ks of None \<Rightarrow> Inl LTFS_NO_DENTRY | Some d \<Rightarrow> Inr (if ks = [] then None else resolve s (butlast ks), d))"
proof (cases "ks = []")
  case True
  then show ?thesis using assms(2) by (auto simp: lookup_result_def path_text_def resolve_def)
next
  case False
  have "split_slash (tl path) = ks" using assms False split_path_names [OF False] by (auto simp: path_text_def name_ok_def)
  moreover have "path \<noteq> []" "path \<noteq> [slash]" using assms False path_text_cases [OF assms(1) False] by auto
  moreover have "walk s (root s) ks = (case path_of (child s) (root s) ks of
      None \<Rightarrow> Inl LTFS_NO_DENTRY | Some c \<Rightarrow> Inr (the (path_of (child s) (root s) (butlast ks)), c))"
    using assms(1) False by (intro walk_path) (auto simp: name_ok_def)
  moreover have "path_of (child s) (root s) (butlast ks) \<noteq> None" if "path_of (child s) (root s) ks = Some c" for c
    using that False path_of_snoc [of "child s" "root s" "butlast ks" "last ks" c] by auto
  ultimately show ?thesis using False by (auto simp: lookup_result_def resolve_def split: option.split)
qed

lemma split_path_text:
  assumes "slash \<notin> set k"
  shows "fs_split_path (path_text (ds @ [k])) = Some (if ds = [] then [] else path_text ds, k)"
proof -
  have t: "path_text (ds @ [k]) = (if ds = [] then [] else path_text ds) @ slash # k" by (simp add: path_text_def)
  have "takeWhile (\<lambda>c. c \<noteq> slash) (rev k @ slash # z) = rev k" for z
    using assms by (subst takeWhile_append2) auto
  moreover have "dropWhile (\<lambda>c. c \<noteq> slash) (rev k @ slash # z) = slash # z" for z
    using assms by (subst dropWhile_append2) auto
  ultimately show ?thesis unfolding t fs_split_path_def by simp
qed

section \<open>The handlers around the tree\<close>

text \<open>
  The device accepts the operation and leaves the volume \<open>vol'\<close>: it is writable (\<open>low_ok\<close>: or has little
  space), it is ready, and no revalidation has failed.
\<close>

definition device_ready :: "'s tape_ops \<Rightarrow> 's op_env \<Rightarrow> bool \<Rightarrow> 's ltfs_volume \<Rightarrow> 's ltfs_volume \<Rightarrow> bool" where
  "device_ready ops env low_ok vol vol' \<longleftrightarrow>
     (ltfs_get_tape_readonly vol = Inr () \<or> low_ok \<and> ltfs_get_tape_readonly vol = Inl LTFS_LESS_SPACE) \<and>
     (\<forall>s. locks s Volume = Free \<longrightarrow> ltfs_test_unit_ready ops env (vol, s) = Some (Inr (), vol', s)) \<and> reval vol' = None"

lemma device_ok_ready:
  "device_ready ops env low_ok vol vol' \<Longrightarrow> locks s Volume = Free \<Longrightarrow> device_ok ops env low_ok (vol, s) = Some (Inr (), vol', s)"
  by (auto simp: device_ready_def device_ok_def)

lemma unlocked_hold [simp]: "unlocked (hold Volume m s) = unlocked s" "unlocked (hold Rename m s) = unlocked s"
  by (simp_all add: unlocked_def del: unlockedD)

lemma resolve_hold [simp]: "resolve (hold l m s) = resolve s"
  by (simp add: resolve_def fun_eq_iff)

lemma resolve_handles [simp]: "resolve (alter p (numhandles_update f) s) = resolve s"
  by (simp add: resolve_def fun_eq_iff)

text \<open>A state at rest: nothing is locked, and the references handed out are \<open>H\<close>.\<close>

definition at_rest :: "dptr multiset \<Rightarrow> fs \<Rightarrow> bool" where
  "at_rest H s \<longleftrightarrow> fs_inv H s \<and> (\<forall>l. locks s l = Free)"

lemma at_restD [simp]: "at_rest H s \<Longrightarrow> locks s l = Free"
  by (simp add: at_rest_def)

lemma at_rest_parts: "at_rest H s \<Longrightarrow> fs_wf s \<and> refs_ok H s \<and> unlocked s \<and> fs_inv H s"
  by (simp add: at_rest_def fs_inv_def unlocked_def del: at_restD)

text \<open>With the volume lock.\<close>

lemma at_rest_volume:
  assumes "at_rest H s"
  shows "fs_wf (hold Volume (Rd 1) s)" "refs_ok H (hold Volume (Rd 1) s)" "unlocked (hold Volume (Rd 1) s)" "fs_inv H (hold Volume (Rd 1) s)"
    "locks (hold Volume (Rd 1) s) Volume = Rd 1"
  using at_rest_parts [OF assms] by simp_all

lemma hold_back: "at_rest H s \<Longrightarrow> hold Volume Free (hold Volume m s) = s"
  by (simp add: hold_same)

section \<open>Create\<close>

lemma create_tree_adds:
  assumes rest: "at_rest H s" and "size_class.size H + 3 < U32" and "no_oom env" and names: "\<forall>x \<in> set (ds @ [k]). name_ok x"
    and par: "resolve s ds = Some par" "dentries s par = Some pn" "isdir pn" and new: "resolve s (ds @ [k]) = None"
    and uid: "0 < uid_number s" "uid_number s + 1 < U64"
  shows "\<exists>d t n. create_tree env (path_text (ds @ [k])) dir readonly (hold Volume (Rd 1) s) = Some (Inr d, t) \<and> locks t Volume = Rd 1 \<and>
    resolve t = (resolve s)(ds @ [k] \<mapsto> d) \<and> at_rest (add_mset d H) (hold Volume Free t) \<and> dentries s d = None \<and>
    dentries t d = Some n \<and> isdir n = dir \<and> uid n = uid_number s + 1 \<and> uid_number t = uid_number s + 1 \<and>
    file_count t = (if dir then file_count s else add64 (file_count s) 1)"
proof -
  let ?s = "hold Volume (Rd 1) s" and ?dir = "if ds = [] then [] else path_text ds"
  note P = at_rest_parts [OF rest] and V = at_rest_volume [OF rest]
  have wf: "fs_wf s" using P by simp
  have dn: "\<forall>x \<in> set ds. name_ok x" and kn: "name_ok k" using names by simp_all
  have split: "fs_split_path (path_text (ds @ [k])) = Some (?dir, k)" using kn by (intro split_path_text) (simp add: name_ok_def)
  have look: "lookup_result ?s ?dir = Inr (if ds = [] then None else resolve s (butlast ds), par)"
    using lookup_names [OF dn, of ?dir ?s] par(1) by auto
  have nc: "child ?s par k = None" using new par(1) by (simp add: resolve_def path_of_append split: option.splits)
  have len: "pathname_strlen k \<le> LTFS_FILENAME_MAX" using kn by (simp add: name_ok_def)
  have uid': "0 < uid_number ?s" "uid_number ?s + 1 < U64" using uid by simp_all
  let ?d = "fresh_dentry s"
  obtain t p p' n where t: "create_tree env (path_text (ds @ [k])) dir readonly ?s = Some (Inr ?d, t)" "dentries ?s par = Some p"
    "new_child ?s t par ?d k dir p p' n" "numhandles p' = numhandles p" "uid n = uid_number s + 1" "fresh_dentry t = Suc ?d"
    "uid_number t = uid_number s + 1" "locks t = locks ?s" "file_count t = (if dir then file_count s else add64 (file_count s) 1)"
    using create_tree_ok [OF V(1-3) assms(3) split look len nc uid', of dir readonly] by (auto simp del: One_nat_def)
  have p: "p = pn" using t(2) par(2) by simp
  have d: "dentries s ?d = None" using wf unfolding fs_wf_def by (metis less_irrefl not_None_eq)
  have new': "new_child s t par ?d k dir pn p' n" using t(3) by (simp add: new_child_def differ_at_def p)
  obtain q where "dentries s par = Some q" "linked s par q" using resolve_linked [OF wf par(1)] by blast
  then have lk: "linked s par pn" using par(2) by simp
  have wt: "fs_wf t" by (rule new_child_wf [OF wf new' par(2,3) lk _ refl]) (use nc t(6) in simp_all)
  have "resolve t = (resolve s)(ds @ [k] \<mapsto> ?d)"
    by (rule new_child_resolve [OF wf wt new' par(2) _ d par(1)]) (use nc in simp)
  moreover have "refs_ok (add_mset ?d H) t"
    by (rule new_child_refs [OF _ new' par(2) d]) (use P t(4) p assms(2) in simp_all)
  moreover have "locks (hold Volume Free t) l = Free" for l using t(8) rest by simp
  moreover have "dentries t ?d = Some n" "isdir n = dir" using new' by (auto simp: new_child_def shape_def)
  ultimately show ?thesis using wt d t by (intro exI [of _ ?d] exI [of _ t] exI [of _ n]) (simp add: at_rest_def fs_inv_def)
qed

section \<open>Unlink\<close>

lemma unlink_tree_removes:
  assumes rest: "at_rest H s" and "no_oom env" and names: "\<forall>x \<in> set (ds @ [k]). name_ok x"
    and d: "resolve s (ds @ [k]) = Some d" "dentries s d = Some n" "child_list n = []"
  shows "\<exists>t. unlink_tree env (path_text (ds @ [k])) (hold Volume (Rd 1) s) = Some (Inr (Some (uid n, ino n)), t) \<and>
    resolve t = (resolve s)(ds @ [k] := None) \<and> at_rest H t \<and> (dentries t d \<noteq> None \<longleftrightarrow> d \<in># H) \<and>
    file_count t = (if isdir n then file_count s else sub64 (file_count s) 1) \<and>
    valid_blocks t = sub64 (valid_blocks s) (used_blocks n)"
proof -
  let ?s = "hold Volume (Rd 1) s" and ?p = "path_text (ds @ [k])"
  note P = at_rest_parts [OF rest] and V = at_rest_volume [OF rest]
  have wf: "fs_wf s" using P by simp
  obtain par where par: "resolve s ds = Some par" "child s par k = Some d"
    using d(1) by (auto simp: resolve_def path_of_snoc)
  have look: "lookup_result ?s ?p = Inr (Some par, d)" using lookup_names [OF names, of ?p ?s] d(1) par(1) by simp
  have k: "platform_safe_name n = Some k" "parent n = Some par" using child_entry [OF wf par(2)] d(2) by auto
  have n: "dentries ?s d = Some n" using d(2) by simp
  obtain t pn pn' where t: "unlink_tree env ?p ?s = Some (Inr (Some (uid n, ino n)), t)" "dentries ?s par = Some pn"
    "cut_child ?s t par d k pn pn'" "numhandles pn' = numhandles pn"
    "case dentries t d of None \<Rightarrow> count H d = 0 | Some dn \<Rightarrow> 0 < count H d \<and> numhandles dn = count H d"
    "locks t = (locks ?s)(Volume := Free)" "valid_blocks t = sub64 (valid_blocks s) (used_blocks n)"
    "file_count t = (if isdir n then file_count s else sub64 (file_count s) 1)"
    using unlink_tree_ok [OF V(1-3,5) assms(2) look n d(3) k(1)] by auto
  have cut: "cut_child s t par d k pn pn'" using t(3) by (simp add: cut_child_def differ_at_def)
  have pn: "dentries s par = Some pn" using t(2) by simp
  have empty: "\<And>m. dentries s d = Some m \<Longrightarrow> child_list m = []" using d by simp
  have "fs_wf t" by (rule cut_child_wf [OF wf cut pn par(2) empty])
  moreover have "refs_ok H t"
    by (rule cut_child_refs [OF wf _ cut pn _ _ t(4,5)]) (use P parent_neq [OF wf d(2) k(2)] fs_wf_root [OF wf] d(2) k(2) in auto)
  moreover have "resolve t = (resolve s)(ds @ [k] := None)" by (rule cut_child_resolve [OF wf cut pn par(2) empty par(1)])
  moreover have "locks t l = Free" for l using t(6) rest by simp
  moreover have "dentries t d \<noteq> None \<longleftrightarrow> d \<in># H" using t(5) by (auto simp: count_eq_zero_iff split: option.splits)
  ultimately show ?thesis using t(1,7,8) by (intro exI [of _ t]) (simp add: at_rest_def fs_inv_def)
qed

section \<open>Rename\<close>

lemma below_prefix:
  assumes "fs_wf s" and "below s p q" and "resolve s ks = Some p"
  shows "\<exists>ls. prefix ls ks \<and> resolve s ls = Some q"
  using assms(2,3)
proof (induction arbitrary: ks rule: below.induct)
  case (below_up p k q r)
  show ?case
  proof (cases ks rule: rev_cases)
    case Nil
    then show ?thesis using below_up fs_wf_root [OF assms(1)] by (auto simp: resolve_def up_def)
  next
    case (snoc ks' k')
    then obtain c where c: "resolve s ks' = Some c" "child s c k' = Some p" using below_up.prems by (auto simp: resolve_def path_of_snoc)
    then have "up s p k' c" using child_edge [OF assms(1)] fs_wf_edge_up [OF assms(1)] by blast
    then have "c = q" using up_unique [OF below_up.hyps(1)] by blast
    then show ?thesis using below_up.IH [of ks'] c(1) snoc by (auto intro: prefix_order.trans)
  qed
qed blast

lemma resolve_unique: "fs_wf s \<Longrightarrow> resolve s ks = Some p \<Longrightarrow> resolve s ls = Some p \<Longrightarrow> ks = ls"
  unfolding resolve_def by (rule path_unique)

lemma resolve_child: "resolve s ds = Some d \<Longrightarrow> resolve s (ds @ [k]) = child s d k"
  by (simp add: resolve_def path_of_append split: option.split)

lemma empty_not_above:
  assumes "fs_wf s" and "below s p t" and "\<And>n. dentries s t = Some n \<Longrightarrow> child_list n = []"
  shows "p = t"
  using assms(2,3)
proof (induction rule: below.induct)
  case (below_up p k q r)
  then have "q = r" by blast
  then have "edge s r k p" using below_up(1) fs_wf_edge_up [OF assms(1)] by blast
  then show ?case using below_up.prems by (auto simp: edge_def)
qed simp

text \<open>What a rename needs of the paths.\<close>

lemma can_rename_paths:
  assumes wf: "fs_wf s" and paths: "resolve s fs = Some fd" "resolve s ts = Some td" "resolve s (fs @ [fn]) = Some f"
    and td: "dentries s td = Some tdn" "isdir tdn" and names: "name_ok fn" "name_ok tn"
    and loop: "\<not> prefix (fs @ [fn]) ts"
    and target: "\<And>t n. resolve s (ts @ [tn]) = Some t \<Longrightarrow> dentries s t = Some n \<Longrightarrow> t = f \<or> child_list n = []"
  shows "can_rename s fd td f fn tn"
proof -
  have kf: "child s fd fn = Some f" using paths resolve_child by metis
  have "\<not> below s td f"
    using below_prefix [OF wf _ paths(2)] resolve_unique [OF wf paths(3)] loop by metis
  moreover have "t = f \<or> (\<not> below s fd t \<and> (\<forall>n. dentries s t = Some n \<longrightarrow> child_list n = []))" if t: "child s td tn = Some t" for t
  proof -
    have r: "resolve s (ts @ [tn]) = Some t" using t resolve_child [OF paths(2)] by simp
    obtain fdn where fd: "dentries s fd = Some fdn" "(fn, f) \<in> set (child_list fdn)" using child_entry [OF wf kf] by blast
    have "\<not> below s fd t" if e: "\<And>n. dentries s t = Some n \<Longrightarrow> child_list n = []"
    proof
      assume b: "below s fd t"
      have "fd = t" using wf b e by (rule empty_not_above)
      then show False using fd e by auto
    qed
    then show ?thesis using target [OF r] by blast
  qed
  ultimately show ?thesis using names kf td by (auto simp: can_rename_def name_ok_def)
qed

lemma rename_handler:
  assumes rest: "at_rest H s" and dev: "device_ready ops env True vol vol'" and "oe_copy env"
    and fmt: "format_path env 0 True from = Some (Inr (path_text (fs @ [fn])))" "format_path env 1 False to = Some (Inr (path_text (ts @ [tn])))"
    and names: "slash \<notin> set fn" "slash \<notin> set tn"
    and tree: "rename_tree (oe_tree env) (if fs = [] then [] else path_text fs) fn (if ts = [] then [] else path_text ts) tn
      (hold Rename Wr (hold Volume (Rd 1) s)) = Some (r, s')"
  shows "ltfs_fsops_rename ops env from to (vol, s) =
    Some (case r of Inl e \<Rightarrow> (Inl e, vol', s') | Inr (b, i) \<Rightarrow> (Inr i, if b then set_dirty False vol' else vol', s'))"
proof -
  have "acquirewrite_mrsw Rename (hold Volume (Rd 1) s) = Some (hold Rename Wr (hold Volume (Rd 1) s))" using rest by (simp add: lock_ops)
  moreover have "take_volume (vol', s) = Some (Inr (), vol', hold Volume (Rd 1) s)"
    using take_volume_ready [of vol' s] dev rest by (simp add: device_ready_def)
  ultimately have "rename_locked env (if fs = [] then [] else path_text fs, fn) (if ts = [] then [] else path_text ts, tn) (vol', s) =
      Some (case r of Inl e \<Rightarrow> (Inl e, vol', s') | Inr (b, i) \<Rightarrow> (Inr i, if b then set_dirty False vol' else vol', s'))"
    using tree unfolding rename_locked_def by simp
  then show ?thesis
    using assms(3) fmt unfolding ltfs_fsops_rename_def
    using rest by (simp add: device_ok_ready [OF dev] split_path_text [OF names(1)] split_path_text [OF names(2)])
qed

section \<open>Open and close\<close>

lemma linked_resolves:
  assumes "fs_wf s" and "dentries s p = Some n" and "linked s p n"
  shows "\<exists>ks. resolve s ks = Some p"
proof -
  obtain rank :: "dptr \<Rightarrow> nat" where rank: "\<And>p k q. up s p k q \<Longrightarrow> rank q < rank p" using fs_wf_rank [OF assms(1)] by blast
  show ?thesis
    using assms(2,3)
  proof (induction "rank p" arbitrary: p n rule: less_induct)
    case less
    show ?case
    proof (cases "parent n")
      case None
      then have "p = root s" using less.prems by (simp add: linked_def)
      then show ?thesis by (intro exI [of _ "[]"]) (simp add: resolve_def)
    next
      case (Some q)
      obtain m k where m: "dentries s q = Some m" "platform_safe_name n = Some k" "(k, p) \<in> set (child_list m)"
        using node_parent [OF fs_wf_node [OF assms(1) less.prems(1)] Some] by blast
      have u: "up s p k q" using m Some less.prems by (simp add: up_def)
      have "linked s q m" using fs_wf_local [OF assms(1) m(1)] m(3) by (auto simp: local_ok_def)
      then obtain ks where "resolve s ks = Some q" using less.hyps [OF rank [OF u] m(1)] by blast
      moreover have "child s q k = Some p" using u child_edge [OF assms(1)] fs_wf_edge_up [OF assms(1)] by blast
      ultimately show ?thesis using resolve_child [of s ks q k] by (intro exI [of _ "ks @ [k]"]) simp
    qed
  qed
qed

lemma linked_iff_resolves:
  assumes "fs_wf s" and "dentries s p = Some n"
  shows "linked s p n \<longleftrightarrow> (\<exists>ks. resolve s ks = Some p)"
  using linked_resolves [OF assms] resolve_linked [OF assms(1)] assms(2) by fastforce

text \<open>A dentry outside of the tree that is freed.\<close>

lemma free_outside_wf:
  assumes wf: "fs_wf s" and n: "dentries s d = Some n" and out: "\<not> linked s d n"
  shows "fs_wf (free_dentry d s)" "resolve (free_dentry d s) = resolve s"
proof -
  let ?s = "free_dentry d s"
  have e: "child_list n = []" "parent n = None" "d \<noteq> root s" using out fs_wf_local [OF wf n] by (auto simp: linked_def local_ok_def)
  have E: "edge ?s q k p \<longleftrightarrow> edge s q k p" for q k p using n e by (auto simp: edge_def)
  have U: "up ?s p k q \<longleftrightarrow> up s p k q" for p k q using n e by (auto simp: up_def)
  obtain rank :: "dptr \<Rightarrow> nat" where rank: "\<And>p k q. up s p k q \<Longrightarrow> rank q < rank p" using fs_wf_rank [OF wf] by blast
  show w: "fs_wf ?s"
  proof (rule fs_wfI [where rank = rank])
    show "root_ok ?s" using fs_wf_root [OF wf] e by (auto simp: root_ok_def)
    show "edge ?s q k p \<longleftrightarrow> up ?s p k q" for q k p unfolding E U by (rule fs_wf_edge_up [OF wf])
    show "local_ok ?s p m" if "dentries ?s p = Some m" for p m
      using that fs_wf_local [OF wf, of p m] by (auto simp: local_ok_def linked_def split: if_splits)
    show "rank q < rank p" if "up ?s p k q" for p k q using that rank by (simp add: U)
  qed
  have "child ?s q k = child s q k" for q k
    by (intro option_ext) (simp add: child_edge [OF w] child_edge [OF wf] E)
  then have "child ?s = child s" by (simp add: fun_eq_iff)
  then show "resolve ?s = resolve s" by (intro ext) (simp add: resolve_def)
qed

lemma release_spec:
  assumes inv: "fs_inv (add_mset d H) s" and free: "locks s (Meta d) = Free" "locks s (Contents d) = Free"
  shows "\<exists>s'. fs_release_dentry mem d s = Some s' \<and> fs_inv H s' \<and> locks s' = locks s \<and> resolve s' = resolve s \<and>
    (dentries s' d \<noteq> None \<longleftrightarrow> d \<in># H \<or> (\<exists>ks. resolve s ks = Some d))"
proof -
  have wf: "fs_wf s" and r: "refs_ok (add_mset d H) s" using inv by (simp_all add: fs_inv_def)
  obtain n where n: "dentries s d = Some n" using refs_handle [OF r, of d] by auto
  show ?thesis
  proof (cases "linked s d n")
    case True
    note put = fs_inv_put [OF inv n True]
    show ?thesis using release_keeps [OF n put(2) free(1)] put(1) n True linked_iff_resolves [OF wf n]
      by (intro exI [of _ "alter d dec_handles s"]) simp
  next
    case False
    have h: "numhandles n = count H d + 1" "numhandles n < U32" using refs_node [OF r n] refs_bounds [OF r n] False by simp_all
    have out: "outside n" using False fs_wf_local [OF wf n] h by (auto simp: outside_def linked_def local_ok_def)
    have rel: "fs_release_dentry mem d s = Some (drop_ref d s)" by (rule release_drop_ref [OF n out free])
    have nl: "\<nexists>ks. resolve s ks = Some d" using False linked_iff_resolves [OF wf n] by blast
    have rs: "refs_ok H t" if t: "dentries t = (dentries s)(d := (if d \<in># H then Some (dec_handles n) else None))" "root t = root s" for t
    proof (rule refs_okI)
      show "numhandles m = count H p + (if linked t p m then 1 else 0) \<and> 0 < numhandles m" if "dentries t p = Some m" for p m
        using that refs_node [OF r, of p] h n False t by (cases "p = d") (auto simp: linked_def dec32_exact split: if_splits)
      show "dentries t p \<noteq> None" if "p \<in># H" for p using that refs_handle [OF r, of p] t by auto
      show "size_class.size H + 2 < U32" using r by (simp add: refs_ok_def)
    qed
    have c: "numhandles n = 1 \<longleftrightarrow> d \<notin># H" using h by (simp add: count_eq_zero_iff)
    show ?thesis
    proof (cases "d \<in># H")
      case True
      then have "drop_ref d s = alter d dec_handles s" using n c by (simp add: drop_ref_def)
      moreover have "refs_ok H (alter d dec_handles s)" by (rule rs) (use n True in simp_all)
      ultimately show ?thesis using rel wf n True by (intro exI [of _ "alter d dec_handles s"]) (simp add: fs_inv_def)
    next
      case f: False
      then have "drop_ref d s = free_dentry d s" using n c by (simp add: drop_ref_def)
      moreover have "refs_ok H (free_dentry d s)" by (rule rs) (use f in simp_all)
      ultimately show ?thesis using rel free_outside_wf [OF wf n False] f nl by (intro exI [of _ "free_dentry d s"]) (simp add: fs_inv_def)
    qed
  qed
qed

text \<open>Fields of a dentry that the tree does not depend on.\<close>

lemma alter_quiet:
  assumes "\<And>n. shape (f n) = shape n" and "\<And>n. numhandles (f n) = numhandles n"
  shows "fs_inv H (alter p f s) \<longleftrightarrow> fs_inv H s" "resolve (alter p f s) = resolve s"
proof -
  have S: "same_shape s (alter p f s)" by (rule same_shape_alter [OF assms(1)])
  have sh: "parent (f n) = parent n" for n using assms(1) [of n] by (simp add: shape_eq)
  have c: "child (alter p f s) = child s" by (rule child_same_shape [OF S])
  show "resolve (alter p f s) = resolve s" by (simp add: resolve_def fun_eq_iff c)
  have "refs_ok H (alter p f s) \<longleftrightarrow> refs_ok H s"
  proof -
    have "(\<forall>q n. dentries (alter p f s) q = Some n \<longrightarrow> numhandles n = count H q + (if linked (alter p f s) q n then 1 else 0) \<and> 0 < numhandles n)
        \<longleftrightarrow> (\<forall>q n. dentries s q = Some n \<longrightarrow> numhandles n = count H q + (if linked s q n then 1 else 0) \<and> 0 < numhandles n)"
    proof (rule iff_allI)
      fix q
      show "(\<forall>n. dentries (alter p f s) q = Some n \<longrightarrow> numhandles n = count H q + (if linked (alter p f s) q n then 1 else 0) \<and> 0 < numhandles n)
        \<longleftrightarrow> (\<forall>n. dentries s q = Some n \<longrightarrow> numhandles n = count H q + (if linked s q n then 1 else 0) \<and> 0 < numhandles n)"
        using assms(2) sh by (cases "dentries s q") (auto simp: linked_def)
    qed
    moreover have "dentries (alter p f s) q = None \<longleftrightarrow> dentries s q = None" for q by auto
    ultimately show ?thesis unfolding refs_ok_def by auto
  qed
  moreover have "fs_wf (alter p f s) \<longleftrightarrow> fs_wf s"
    using fs_wf_same_shape [OF S] fs_wf_same_shape [OF same_shape_sym [OF S]] by blast
  ultimately show "fs_inv H (alter p f s) \<longleftrightarrow> fs_inv H s" by (simp add: fs_inv_def)
qed

text \<open>Opening: the dentry at the end of the path, with one more reference.\<close>

lemma open_spec:
  assumes rest: "at_rest H s" and "no_oom (oe_tree env)" and "reval vol = None"
    and fmt: "format_path env 0 True path = Some (Inr (path_text ks))" and names: "\<forall>k \<in> set ks. name_ok k"
  shows "ltfs_fsops_open env path False ios (vol, s) =
    Some (case resolve s ks of None \<Rightarrow> (Inl LTFS_NO_DENTRY, vol, s) | Some d \<Rightarrow> (Inr d, vol, alter d inc_handles s))"
proof -
  let ?s = "hold Volume (Rd 1) s"
  note V = at_rest_volume [OF rest]
  have wf: "fs_wf s" using at_rest_parts [OF rest] by simp
  have look: "fs_path_lookup True True (path_text ks) {} ?s =
      Some (case resolve s ks of None \<Rightarrow> (Inl LTFS_NO_DENTRY, ?s) | Some d \<Rightarrow> (Inr d, alter d inc_handles ?s))"
    unfolding path_lookup_plain [OF V(1-3)] using lookup_names [OF names, of "path_text ks" ?s] by (cases "resolve s ks") simp_all
  have bk: "hold Volume Free (alter d inc_handles ?s) = alter d inc_handles s" "hold Volume Free ?s = s" for d
    using hold_back [OF rest] rest by (simp_all add: hold_same)
  have raw: "ltfs_fsraw_open env (path_text ks) False (vol, s) =
      Some (case resolve s ks of None \<Rightarrow> (Inl LTFS_NO_DENTRY, vol, s) | Some d \<Rightarrow> (Inr d, vol, alter d inc_handles s))"
    using assms(2) rest look resolve_linked [OF wf, of ks] unfolding ltfs_fsraw_open_def
    by (auto simp: take_volume_ready [OF assms(3)] release_volume_held bk hold_same split: option.split)
  show ?thesis
    using resolve_linked [OF wf, of ks] unfolding ltfs_fsops_open_def open_named_def open_dentry_def fcfs_open_def fmt
    by (auto simp: raw split: option.split)
qed

lemma close_times_spec:
  assumes "fs_inv H s" and "dentries s d = Some n" and "locks s (Meta d) = Free"
  shows "\<exists>s' m. close_times env d s = Some s' \<and> fs_inv H s' \<and> locks s' = locks s \<and> resolve s' = resolve s \<and> dentries s' d = Some m \<and>
    isdir m = isdir n \<and> (\<not> need_update_time n \<longrightarrow> s' = s)"
proof (cases "need_update_time n")
  case True
  let ?g = "need_update_time_update (\<lambda>_. False)" and ?f = "dir_times (fo_now (oe_tree env))"
  let ?t = "alter d ?g (alter d ?f s)"
  have "close_times env d s = Some ?t" using True assms(2,3) by (simp add: close_times_def lock_ops hold_same)
  moreover have "fs_inv H ?t \<longleftrightarrow> fs_inv H s" "resolve ?t = resolve s"
    using alter_quiet(1) [of ?g H d "alter d ?f s"] alter_quiet(2) [of ?g d "alter d ?f s"] alter_quiet(1) [of ?f H d s] alter_quiet(2) [of ?f d s] by (simp_all add: shape_def dir_times_def)
  ultimately show ?thesis using assms True by (intro exI [of _ ?t] exI [of _ "?g (?f n)"]) (simp add: dir_times_def)
qed (use assms in \<open>auto simp: close_times_def\<close>)

lemma fs_inv_valid_blocks [simp]: "fs_inv H (s\<lparr>valid_blocks := v\<rparr>) = fs_inv H s"
  by (simp add: fs_inv_def fs_wf_def refs_ok_def node_ok_def linked_def)

lemma update_blocks_spec:
  assumes "fs_inv H s" and "dentries s d = Some n" and "\<forall>l. locks s l = Free" and "reval vol = None"
  shows "\<exists>s' m. ltfs_fsops_update_used_blocks d (vol, s) = Some (Inr (), vol, s') \<and> fs_inv H s' \<and> locks s' = locks s \<and>
    resolve s' = resolve s \<and> dentries s' d = Some m \<and> isdir m = isdir n \<and>
    valid_blocks s' = add64 (valid_blocks s) (sub64 (fs_get_used_blocks (blocksize (vol_label vol)) n) (used_blocks n)) \<and>
    used_blocks m = fs_get_used_blocks (blocksize (vol_label vol)) n"
proof -
  let ?u = "fs_get_used_blocks (blocksize (vol_label vol)) n"
  let ?f = "used_blocks_update (\<lambda>_. ?u)"
  let ?t = "(alter d ?f s)\<lparr>valid_blocks := add64 (valid_blocks s) (sub64 ?u (used_blocks n))\<rparr>"
  have q: "fs_inv H (alter d ?f s)" "resolve (alter d ?f s) = resolve s" using alter_quiet(1) [of ?f H d s] alter_quiet(2) [of ?f d s] assms(1) by (simp_all add: shape_def)
  have "child ?t = child (alter d ?f s)" by (simp add: child_def fun_eq_iff)
  then have "resolve ?t = resolve (alter d ?f s)" by (intro ext) (simp add: resolve_def)
  then have "resolve ?t = resolve s" using q(2) by simp
  moreover have "fs_inv H ?t" using q(1) by simp
  moreover have "ltfs_fsops_update_used_blocks d (vol, s) = Some (Inr (), vol, ?t)"
  proof -
    have "hold Volume Free ((hold Volume (Rd 1) x)\<lparr>valid_blocks := v\<rparr>) = x\<lparr>valid_blocks := v\<rparr>" if "locks x Volume = Free" for x v
      using that by (simp add: hold_def fun_upd_idem)
    then show ?thesis
      using assms unfolding ltfs_fsops_update_used_blocks_def ltfs_update_valid_block_count_def
      by (simp add: lock_ops hold_same take_volume_ready release_volume_held Let_def)
  qed
  ultimately show ?thesis using assms by (intro exI [of _ ?t] exI [of _ "?f n"]) simp
qed

lemma close_spec:
  assumes rest: "at_rest (add_mset d H) s" and "reval vol = None"
  shows "\<exists>s'. ltfs_fsops_close env d flush open_write ios (vol, s) = Some (Inr (), vol, s') \<and> at_rest H s' \<and> resolve s' = resolve s \<and>
    (dentries s' d \<noteq> None \<longleftrightarrow> d \<in># H \<or> (\<exists>ks. resolve s ks = Some d))"
proof -
  have inv: "fs_inv (add_mset d H) s" and lk: "\<forall>l. locks s l = Free" using rest by (simp_all add: at_rest_def)
  obtain n where n: "dentries s d = Some n" using inv refs_handle [of "add_mset d H" s d] by (auto simp: fs_inv_def)
  obtain a na where a: "close_times env d s = Some a" "fs_inv (add_mset d H) a" "locks a = locks s" "resolve a = resolve s" "dentries a d = Some na"
    using close_times_spec [OF inv n] lk by blast
  have "\<exists>b m. (if open_write then ltfs_fsops_update_used_blocks d (vol, a) else Some (Inr (), vol, a)) = Some (Inr (), vol, b) \<and>
      fs_inv (add_mset d H) b \<and> locks b = locks s \<and> resolve b = resolve s \<and> dentries b d = Some m"
    using update_blocks_spec [OF a(2,5) _ assms(2)] a lk by (cases open_write) auto
  then obtain b m where b: "(if open_write then ltfs_fsops_update_used_blocks d (vol, a) else Some (Inr (), vol, a)) = Some (Inr (), vol, b)"
    "fs_inv (add_mset d H) b" "locks b = locks s" "resolve b = resolve s" "dentries b d = Some m" by blast
  obtain s' where s': "fs_release_dentry (fo_mem (oe_tree env) 30 0) d b = Some s'" "fs_inv H s'" "locks s' = locks b" "resolve s' = resolve b"
    "dentries s' d \<noteq> None \<longleftrightarrow> d \<in># H \<or> (\<exists>ks. resolve b ks = Some d)"
    using release_spec [OF b(2)] b(3) lk by metis
  have "ltfs_fsops_close env d flush open_write ios (vol, s) = Some (Inr (), vol, s')"
    unfolding ltfs_fsops_close_def using a(1) b(1,5) s'(1)
    by (simp add: ltfs_fsraw_close_def fcfs_close_def del: if_split)
  then show ?thesis using s' b lk by (intro exI [of _ s']) (simp add: at_rest_def)
qed

end
