(* ===== verification/Ltfs_Filedebug.thy ===== *)
theory Ltfs_Filedebug
  imports Ltfs_Tape_Ops Ltfs_Endian
begin

text \<open>
  The file backend, \<^verbatim>\<open>tape_drivers/generic/file/filedebug_tc.c\<close>: a tape drive emulated by a directory in
  which block \<open>b\<close> of partition \<open>p\<close> is a file \<open>p_b_R\<close> (a record), \<open>p_b_F\<close> (a file mark) or \<open>p_b_E\<close> (end of
  data), and attribute \<open>i\<close> of the cartridge memory is a file \<open>attr_p_i\<close>.

  The directory is a map from file names to contents. What the host answers to one driver call is
  the argument \<open>host\<close>: which of its operations fail, how much a \<open>write\<close> writes, and what a redirection
  file leads to. Block numbers are 64-bit with their wrap-around. The theorems show that the directory
  implements the abstract tape of \<open>Ltfs_Tape_Ops\<close> and satisfies the contract of a driver.
\<close>

section \<open>The host\<close>

datatype suffix = SUFFIX_RECORD | SUFFIX_FILEMARK | SUFFIX_EOD

type_synonym fname = "nat \<times> nat \<times> suffix"

datatype hostop =
    Op_asprintf nat nat | Op_open fname | Op_close fname | Op_read fname | Op_write fname | Op_unlink fname
  | Op_attr_asprintf nat nat | Op_attr_open nat nat | Op_attr_read nat nat | Op_attr_write nat nat
  | Op_link_asprintf

record tapedir =
  files :: "fname \<rightharpoonup> byte list"
  attrs :: "nat \<times> nat \<rightharpoonup> byte list"

record host =
  fault :: "hostop \<Rightarrow> bool"
  written :: "nat \<Rightarrow> nat"
  link_line :: "string option"
  stat_dir :: "string \<Rightarrow> tapedir option"

definition host_ok :: "host \<Rightarrow> bool" where
  "host_ok h \<longleftrightarrow> (\<forall>op. \<not> fault h op) \<and> (\<forall>n. written h n = n)"

section \<open>The state of the driver\<close>

definition MISSING_EOD :: nat where
  "MISSING_EOD = U64 - 1"

definition MAX_PARTITIONS :: nat where
  "MAX_PARTITIONS = 2"

record filedebug_data =
  device_reserved :: bool
  medium_locked :: bool
  cur_partition :: nat
  cur_block :: nat
  cur_filemarks :: nat
  max_block_size :: nat
  filename :: "string option"
  dirbase :: string
  dir :: tapedir
  ready :: bool
  last_block :: "nat \<Rightarrow> nat"
  eod :: "nat \<Rightarrow> nat"
  partitions :: nat
  write_pass_prev :: nat
  write_pass :: nat
  emulate_readonly :: bool
  p0_warning :: nat
  p1_warning :: nat
  p0_p_warning :: nat
  p1_p_warning :: nat

type_synonym 'a fd_result = "('a, filedebug_data) result"
type_synonym 'a drv_result = "('a, filedebug_data \<times> tc_position) result"

definition set_file :: "fname \<Rightarrow> byte list option \<Rightarrow> filedebug_data \<Rightarrow> filedebug_data" where
  "set_file f c st = st\<lparr>dir := (dir st)\<lparr>files := (files (dir st))(f := c)\<rparr>\<rparr>"

section \<open>Files and attributes\<close>

definition filedebug_check_file :: "host \<Rightarrow> fname \<Rightarrow> filedebug_data \<Rightarrow> err + bool" where
  "filedebug_check_file h f st =
     (if fault h (Op_open f) then Inl EDEV_RW_PERM
      else if files (dir st) f = None then Inr False
      else if fault h (Op_close f) then Inl EDEV_RW_PERM
      else Inr True)"

fun unlink_loop :: "host \<Rightarrow> nat \<Rightarrow> nat \<Rightarrow> suffix list \<Rightarrow> filedebug_data \<Rightarrow> unit fd_result" where
  "unlink_loop h p b [] st = (Inr (), st)"
| "unlink_loop h p b (x # xs) st =
     (if fault h (Op_unlink (p, b, x)) then (Inl EDEV_RW_PERM, st)
      else unlink_loop h p b xs (set_file (p, b, x) None st))"

definition filedebug_remove_record :: "host \<Rightarrow> nat \<Rightarrow> nat \<Rightarrow> filedebug_data \<Rightarrow> unit fd_result" where
  "filedebug_remove_record h part blknum st =
     (if fault h (Op_asprintf part blknum) then (Inl EDEV_NO_MEMORY, st)
      else unlink_loop h part blknum [SUFFIX_RECORD, SUFFIX_FILEMARK, SUFFIX_EOD] st)"

definition filedebug_remove_current_record :: "host \<Rightarrow> filedebug_data \<Rightarrow> unit fd_result" where
  "filedebug_remove_current_record h st = filedebug_remove_record h (cur_partition st) (cur_block st) st"

fun remove_records :: "host \<Rightarrow> nat \<Rightarrow> nat list \<Rightarrow> filedebug_data \<Rightarrow> unit fd_result" where
  "remove_records h p [] st = (Inr (), st)"
| "remove_records h p (b # bs) st = rbind (filedebug_remove_record h p b st) (\<lambda>_. remove_records h p bs)"

text \<open>Open for writing with \<open>O_CREAT | O_TRUNC\<close>, write, close. The file exists once it is opened.\<close>

definition create_file :: "host \<Rightarrow> fname \<Rightarrow> filedebug_data \<Rightarrow> unit fd_result" where
  "create_file h f st =
     (if fault h (Op_open f) then (Inl EDEV_RW_PERM, st)
      else if fault h (Op_close f) then (Inl EDEV_RW_PERM, set_file f (Some []) st)
      else (Inr (), set_file f (Some []) st))"

definition filedebug_write_eod :: "host \<Rightarrow> filedebug_data \<Rightarrow> unit fd_result" where
  "filedebug_write_eod h st =
     (let p = cur_partition st; b = cur_block st; remove_extra_rec = (eod st p \<noteq> MISSING_EOD) in
      rbind (filedebug_remove_current_record h st) (\<lambda>_ st.
      if fault h (Op_asprintf p b) then (Inl EDEV_NO_MEMORY, st) else
      rbind (create_file h (p, b, SUFFIX_EOD) st) (\<lambda>_ st.
      rbind (if remove_extra_rec then remove_records h p [add64 b 1..<Suc (eod st p)] st else (Inr (), st)) (\<lambda>_ st.
      (Inr (), st\<lparr>last_block := (last_block st)(p := sub64 b 1), eod := (eod st)(p := b)\<rparr>)))))"

definition TC_MAM_PAGE_VCR :: u16 where "TC_MAM_PAGE_VCR = 9"
definition TC_MAM_PAGE_VCR_SIZE :: u16 where "TC_MAM_PAGE_VCR_SIZE = 4"

definition filedebug_read_attribute ::
    "host \<Rightarrow> nat \<Rightarrow> nat \<Rightarrow> nat \<Rightarrow> filedebug_data \<Rightarrow> err + byte list" where
  "filedebug_read_attribute h part i n st =
     (if fault h (Op_attr_asprintf part i) then Inl EDEV_NO_MEMORY
      else if fault h (Op_attr_open part i) then Inl EDEV_CM_PERM
      else case attrs (dir st) (part, i) of
        None \<Rightarrow> Inl EDEV_CM_PERM
      | Some c \<Rightarrow> if fault h (Op_attr_read part i) then Inl EDEV_CM_PERM else Inr (take n c))"

definition set_attr :: "nat \<times> nat \<Rightarrow> byte list \<Rightarrow> filedebug_data \<Rightarrow> filedebug_data" where
  "set_attr k c st = st\<lparr>dir := (dir st)\<lparr>attrs := (attrs (dir st))(k \<mapsto> c)\<rparr>\<rparr>"

text \<open>The loop over the attributes of the buffer; each file gets the whole buffer.\<close>

function write_attribute_loop :: "host \<Rightarrow> nat \<Rightarrow> byte list \<Rightarrow> nat \<Rightarrow> filedebug_data \<Rightarrow> unit fd_result" where
  "write_attribute_loop h part buf i st =
     (if \<not> length buf > i then (Inr (), st)
      else case ltfs_betou16 (drop i buf) of None \<Rightarrow> (Inl OUT_OF_BOUNDS, st)
      | Some aid \<Rightarrow> case ltfs_betou16 (drop (i + 3) buf) of None \<Rightarrow> (Inl OUT_OF_BOUNDS, st)
      | Some attr_size \<Rightarrow>
          let k = (part, unat aid) in
          if fault h (Op_attr_asprintf part (unat aid)) then (Inl EDEV_NO_MEMORY, st)
          else if fault h (Op_attr_open part (unat aid)) then (Inl EDEV_CM_PERM, st)
          else if fault h (Op_attr_write part (unat aid)) then (Inl EDEV_CM_PERM, set_attr k [] st)
          else write_attribute_loop h part buf (i + (unat attr_size + 5))
                 (set_attr k (take (written h (length buf)) buf) st))"
  by pat_completeness auto
termination
  by (relation "measure (\<lambda>(h, part, buf, i, st). length buf - i)") auto

declare write_attribute_loop.simps [simp del]

definition filedebug_write_attribute :: "host \<Rightarrow> nat \<Rightarrow> byte list \<Rightarrow> filedebug_data \<Rightarrow> unit fd_result" where
  "filedebug_write_attribute h part buf st = write_attribute_loop h part buf 0 st"

definition set_wp :: "host \<Rightarrow> nat \<Rightarrow> filedebug_data \<Rightarrow> unit fd_result" where
  "set_wp h wp st =
     filedebug_write_attribute h 0
       (ltfs_u16tobe TC_MAM_PAGE_VCR @ [0] @ ltfs_u16tobe TC_MAM_PAGE_VCR_SIZE @ ltfs_u32tobe (of_nat wp)) st"

definition get_wp :: "host \<Rightarrow> filedebug_data \<Rightarrow> nat fd_result" where
  "get_wp h st =
     (case filedebug_read_attribute h 0 (unat TC_MAM_PAGE_VCR) 9 st of
        Inr c \<Rightarrow> (case ltfs_betou32 (drop 5 (c @ replicate (9 - length c) 0)) of
                   Some w \<Rightarrow> (Inr (unat w), st) | None \<Rightarrow> (Inl OUT_OF_BOUNDS, st))
      | Inl _ \<Rightarrow> rbind (set_wp h 1 st) (\<lambda>_ st. (Inr 0, st)))"

text \<open>A write increments the write pass of the cartridge, once for each load.\<close>

definition new_write_pass :: "host \<Rightarrow> filedebug_data \<Rightarrow> unit fd_result" where
  "new_write_pass h st =
     (if write_pass_prev st = write_pass st
      then let st = st\<lparr>write_pass := add64 (write_pass st) 1\<rparr> in set_wp h (write_pass st) st
      else (Inr (), st))"

section \<open>Early warning\<close>

definition ew_zone :: "filedebug_data \<Rightarrow> bool" where
  "ew_zone st \<longleftrightarrow> (p0_warning st \<noteq> 0 \<and> cur_partition st = 0 \<and> cur_block st \<ge> p0_warning st) \<or>
     (p1_warning st \<noteq> 0 \<and> cur_partition st = 1 \<and> cur_block st \<ge> p1_warning st)"

definition pew_zone :: "filedebug_data \<Rightarrow> bool" where
  "pew_zone st \<longleftrightarrow> (p0_p_warning st \<noteq> 0 \<and> cur_partition st = 0 \<and> cur_block st \<ge> p0_p_warning st) \<or>
     (p1_p_warning st \<noteq> 0 \<and> cur_partition st = 1 \<and> cur_block st \<ge> p1_p_warning st)"

definition pew_entry :: "filedebug_data \<Rightarrow> bool" where
  "pew_entry st \<longleftrightarrow> (p0_p_warning st \<noteq> 0 \<and> cur_partition st = 0 \<and> cur_block st = p0_p_warning st) \<or>
     (p1_p_warning st \<noteq> 0 \<and> cur_partition st = 1 \<and> cur_block st = p1_p_warning st)"

definition warn :: "bool \<Rightarrow> bool \<Rightarrow> tc_position \<Rightarrow> tc_position" where
  "warn ew pew pos = pos\<lparr>early_warning := early_warning pos \<or> ew,
     programmable_early_warning := programmable_early_warning pos \<or> pew\<rparr>"

section \<open>Reading and writing\<close>

definition filedebug_test_unit_ready :: "filedebug_data \<Rightarrow> err + unit" where
  "filedebug_test_unit_ready st = (if \<not> ready st then Inl EDEV_NEED_INITIALIZE else Inr ())"

definition filedebug_read :: "host \<Rightarrow> nat \<Rightarrow> filedebug_data \<times> tc_position \<Rightarrow> byte list drv_result" where
  "filedebug_read h count = (\<lambda>(st, pos).
     let p = cur_partition st; b = cur_block st;
         fail = (\<lambda>e. (Inl e, st, pos)) in
     if \<not> ready st then fail EDEV_NOT_READY
     else if eod st p = b then fail EDEV_EOD_DETECTED
     else if fault h (Op_asprintf p b) then fail EDEV_NO_MEMORY
     else case filedebug_check_file h (p, b, SUFFIX_EOD) st of Inl e \<Rightarrow> fail e
     | Inr True \<Rightarrow> fail EDEV_EOD_NOT_FOUND
     | Inr False \<Rightarrow> (case filedebug_check_file h (p, b, SUFFIX_FILEMARK) st of Inl e \<Rightarrow> fail e
     | Inr True \<Rightarrow>
         let st = st\<lparr>cur_block := add64 b 1, cur_filemarks := add64 (cur_filemarks st) 1\<rparr> in
         (Inr [], st, pos\<lparr>pos_block := cur_block st, pos_filemarks := cur_filemarks st\<rparr>)
     | Inr False \<Rightarrow> (case filedebug_check_file h (p, b, SUFFIX_RECORD) st of Inl e \<Rightarrow> fail e
     | Inr False \<Rightarrow> fail EDEV_RW_PERM
     | Inr True \<Rightarrow>
         if fault h (Op_read (p, b, SUFFIX_RECORD)) then fail EDEV_RW_PERM
         else let st = st\<lparr>cur_block := add64 b 1\<rparr> in
              (Inr (take count (the (files (dir st) (p, b, SUFFIX_RECORD)))), st, pos\<lparr>pos_block := cur_block st\<rparr>))))"

definition filedebug_write ::
    "host \<Rightarrow> byte list option \<Rightarrow> nat \<Rightarrow> filedebug_data \<times> tc_position \<Rightarrow> nat drv_result" where
  "filedebug_write h buf count = (\<lambda>(st, pos).
     let p = cur_partition st; b = cur_block st; f = (p, b, SUFFIX_RECORD);
         lift = (\<lambda>r. (fst r, snd r, pos)) in
     if \<not> ready st then (Inl EDEV_NOT_READY, st, pos)
     else if buf = None \<and> count > 0 then (Inl EDEV_INVALID_ARG, st, pos)
     else if count = 0 then (Inr 0, st, pos)
     else if count > max_block_size st then (Inl EDEV_INVALID_ARG, st, pos)
     else rbind (lift (filedebug_remove_current_record h st)) (\<lambda>_ (st, pos).
     rbind (lift (new_write_pass h st)) (\<lambda>_ (st, pos).
     if fault h (Op_asprintf p b) then (Inl EDEV_NO_MEMORY, st, pos)
     else if fault h (Op_open f) then (Inl EDEV_RW_PERM, st, pos)
     else if fault h (Op_write f) then (Inl EDEV_RW_PERM, set_file f (Some []) st, pos)
     else let n = written h count; st = set_file f (Some (take n (take count (the buf)))) st in
     if fault h (Op_close f) then (Inl EDEV_RW_PERM, st, pos)
     else let st = st\<lparr>cur_block := add64 b 1\<rparr>; pos = pos\<lparr>pos_block := cur_block st\<rparr> in
     rbind (case filedebug_write_eod h st of (r, st) \<Rightarrow> (r, st, pos)) (\<lambda>_ (st, pos).
     (Inr n, st, warn (ew_zone st) (pew_entry st) pos)))))"

text \<open>One turn of the loop of \<^verbatim>\<open>filedebug_writefm\<close>, and the loop.\<close>

definition writefm_one :: "host \<Rightarrow> filedebug_data \<times> tc_position \<Rightarrow> unit drv_result" where
  "writefm_one h = (\<lambda>(st, pos).
     let p = cur_partition st; b = cur_block st in
     rbind (case filedebug_remove_current_record h st of (r, st) \<Rightarrow> (r, st, pos)) (\<lambda>_ (st, pos).
     if fault h (Op_asprintf p b) then (Inl EDEV_NO_MEMORY, st, pos)
     else rbind (case create_file h (p, b, SUFFIX_FILEMARK) st of (r, st) \<Rightarrow> (r, st, pos)) (\<lambda>_ (st, pos).
     let st = st\<lparr>cur_block := add64 b 1, cur_filemarks := add64 (cur_filemarks st) 1\<rparr>;
         pos = pos\<lparr>pos_block := cur_block st, pos_filemarks := cur_filemarks st\<rparr> in
     case filedebug_write_eod h st of (r, st) \<Rightarrow> (r, st, pos))))"

fun writefm_loop :: "host \<Rightarrow> nat \<Rightarrow> filedebug_data \<times> tc_position \<Rightarrow> unit drv_result" where
  "writefm_loop h 0 s = (Inr (), s)"
| "writefm_loop h (Suc n) s = rbind (writefm_one h s) (\<lambda>_. writefm_loop h n)"

definition filedebug_writefm :: "host \<Rightarrow> nat \<Rightarrow> filedebug_data \<times> tc_position \<Rightarrow> unit drv_result" where
  "filedebug_writefm h count = (\<lambda>(st, pos).
     if \<not> ready st then (Inl EDEV_NOT_READY, st, pos)
     else if count = 0 then (Inr (), st, pos)
     else rbind (case new_write_pass h st of (r, st) \<Rightarrow> (r, st, pos)) (\<lambda>_ s.
     rbind (writefm_loop h count s) (\<lambda>_ (st, pos).
     (Inr (), st, warn (ew_zone st) (pew_zone st) pos))))"

section \<open>Moving\<close>

definition filedebug_rewind :: "filedebug_data \<times> tc_position \<Rightarrow> unit drv_result" where
  "filedebug_rewind = (\<lambda>(st, pos).
     if \<not> ready st then (Inl EDEV_NOT_READY, st, pos)
     else (Inr (), st\<lparr>cur_block := 0, cur_filemarks := 0\<rparr>,
           pos\<lparr>pos_block := 0, pos_filemarks := 0, early_warning := False, programmable_early_warning := False\<rparr>))"

text \<open>The loop that counts the file marks in front of the position; a file that cannot be opened is not one.\<close>

fun count_filemarks :: "host \<Rightarrow> nat \<Rightarrow> nat \<Rightarrow> filedebug_data \<Rightarrow> err + nat" where
  "count_filemarks h p 0 st = Inr 0"
| "count_filemarks h p (Suc i) st =
     (case count_filemarks h p i st of Inl e \<Rightarrow> Inl e
      | Inr n \<Rightarrow> if fault h (Op_asprintf p i) then Inl EDEV_NO_MEMORY
                else Inr (n + (if filedebug_check_file h (p, i, SUFFIX_FILEMARK) st = Inr True then 1 else 0)))"

definition filedebug_locate :: "host \<Rightarrow> nat \<Rightarrow> nat \<Rightarrow> filedebug_data \<times> tc_position \<Rightarrow> unit drv_result" where
  "filedebug_locate h dest_partition dest_block = (\<lambda>(st, pos).
     if \<not> ready st then (Inl EDEV_NOT_READY, st, pos)
     else if dest_partition \<ge> MAX_PARTITIONS then (Inl EDEV_INVALID_ARG, st, pos)
     else
       let b = (if eod st dest_partition = MISSING_EOD \<and> last_block st dest_partition < dest_block
                then add64 (last_block st dest_partition) 1
                else if eod st dest_partition < dest_block then eod st dest_partition else dest_block);
           st = st\<lparr>cur_partition := dest_partition, cur_block := b\<rparr>;
           pos = pos\<lparr>pos_partition := dest_partition, pos_block := b\<rparr> in
       case count_filemarks h dest_partition b st of
         Inl e \<Rightarrow> (Inl e, st, pos)
       | Inr n \<Rightarrow> (Inr (), st\<lparr>cur_filemarks := n\<rparr>, warn (ew_zone st) (pew_zone st) (pos\<lparr>pos_filemarks := n\<rparr>)))"

text \<open>Spacing over file marks; \<open>None\<close> is a loop that does not end.\<close>

partial_function (option) space_fm_loop ::
    "host \<Rightarrow> nat \<Rightarrow> bool \<Rightarrow> nat \<Rightarrow> filedebug_data \<Rightarrow> unit fd_result option" where
  "space_fm_loop h count bck fm_count st =
     (let p = cur_partition st; b = cur_block st in
      if \<not> bck \<and> b = eod st p then Some (Inl EDEV_EOD_DETECTED, st)
      else if \<not> bck \<and> b = add64 (last_block st p) 1 then Some (Inl EDEV_RW_PERM, st)
      else if fault h (Op_asprintf p b) then Some (Inl EDEV_NO_MEMORY, st)
      else case filedebug_check_file h (p, b, SUFFIX_FILEMARK) st of
        Inl e \<Rightarrow> Some (Inl e, st)
      | Inr fm \<Rightarrow>
          let fm_count = (if fm then add64 fm_count 1 else fm_count) in
          if fm \<and> fm_count = count then Some (Inr (), if bck then st else st\<lparr>cur_block := add64 b 1\<rparr>)
          else if bck \<and> b = 0 then Some (Inl EDEV_BOP_DETECTED, st)
          else space_fm_loop h count bck fm_count (st\<lparr>cur_block := (if bck then b - 1 else add64 b 1)\<rparr>))"

definition filedebug_space_fm :: "host \<Rightarrow> nat \<Rightarrow> bool \<Rightarrow> filedebug_data \<Rightarrow> unit fd_result option" where
  "filedebug_space_fm h count bck st =
     (if count = 0 then Some (Inr (), st)
      else space_fm_loop h count bck 0
        (if bck \<and> cur_block st > 0 then st\<lparr>cur_block := cur_block st - 1\<rparr> else st))"

partial_function (option) space_rec_loop ::
    "host \<Rightarrow> nat \<Rightarrow> bool \<Rightarrow> nat \<Rightarrow> filedebug_data \<Rightarrow> unit fd_result option" where
  "space_rec_loop h count bck rec_count st =
     (let p = cur_partition st; b = cur_block st in
      if \<not> bck \<and> b = eod st p then Some (Inl EDEV_EOD_DETECTED, st)
      else if \<not> bck \<and> b = add64 (last_block st p) 1 then Some (Inl EDEV_RW_PERM, st)
      else if fault h (Op_asprintf p b) then Some (Inl EDEV_NO_MEMORY, st)
      else case filedebug_check_file h (p, b, SUFFIX_FILEMARK) st of
        Inl e \<Rightarrow> Some (Inl e, st)
      | Inr fm \<Rightarrow>
          if fm \<and> (\<not> bck \<or> rec_count > 0)
          then Some (Inl EDEV_RW_PERM, if bck then st else st\<lparr>cur_block := add64 b 1\<rparr>)
          else if bck \<and> b = 0 then Some (Inl EDEV_BOP_DETECTED, st)
          else let st = st\<lparr>cur_block := (if bck then b - 1 else add64 b 1)\<rparr>; rec_count = add64 rec_count 1 in
            if rec_count = count then Some (Inr (), st) else space_rec_loop h count bck rec_count st)"

definition filedebug_space_rec :: "host \<Rightarrow> nat \<Rightarrow> bool \<Rightarrow> filedebug_data \<Rightarrow> unit fd_result option" where
  "filedebug_space_rec h count bck st =
     (if count = 0 then Some (Inr (), st) else space_rec_loop h count bck 0 st)"

text \<open>
  \<^verbatim>\<open>filedebug_space\<close> goes on to count file marks after a spacing that failed, and then returns its
  error.
\<close>

definition filedebug_space ::
    "host \<Rightarrow> nat \<Rightarrow> TC_SPACE_TYPE \<Rightarrow> filedebug_data \<times> tc_position \<Rightarrow> unit drv_result option" where
  "filedebug_space h count ty = (\<lambda>(st, pos).
     let moved = (if ty = TC_SPACE_EOD then Some (Inr (), st\<lparr>cur_block := eod st (cur_partition st)\<rparr>)
           else if cur_block st = MISSING_EOD then Some (Inl EDEV_RW_PERM, st)
           else case ty of
             TC_SPACE_FM_F \<Rightarrow> filedebug_space_fm h count False st
           | TC_SPACE_FM_B \<Rightarrow> filedebug_space_fm h count True st
           | TC_SPACE_F \<Rightarrow> filedebug_space_rec h count False st
           | _ \<Rightarrow> filedebug_space_rec h count True st) in
     if \<not> ready st then Some (Inl EDEV_NOT_READY, st, pos)
     else if ty \<noteq> TC_SPACE_EOD \<and> cur_block st = MISSING_EOD then Some (Inl EDEV_RW_PERM, st, pos)
     else case moved of None \<Rightarrow> None
     | Some (rc, st) \<Rightarrow>
         if ty = TC_SPACE_EOD \<and> cur_block st = MISSING_EOD then Some (Inl EDEV_RW_PERM, st, pos)
         else let pos = pos\<lparr>pos_block := cur_block st\<rparr> in
         Some (case count_filemarks h (cur_partition st) (cur_block st) st of
             Inl e \<Rightarrow> (Inl e, st, pos)
           | Inr n \<Rightarrow> (rc, st\<lparr>cur_filemarks := n\<rparr>, warn (ew_zone st) (pew_zone st) (pos\<lparr>pos_filemarks := n\<rparr>))))"

section \<open>Loading, formatting\<close>

definition filedebug_erase :: "host \<Rightarrow> filedebug_data \<times> tc_position \<Rightarrow> unit drv_result" where
  "filedebug_erase h = (\<lambda>(st, pos).
     if \<not> ready st then (Inl EDEV_NOT_READY, st, pos)
     else let pos = pos\<lparr>pos_block := cur_block st, pos_filemarks := cur_filemarks st\<rparr> in
          case filedebug_write_eod h st of (r, st) \<Rightarrow> (r, st, pos))"

text \<open>The search for the end of data: \<open>None\<close> is a search that does not end.\<close>

partial_function (option) search_eod_loop ::
    "host \<Rightarrow> bool \<Rightarrow> bool \<Rightarrow> bool \<Rightarrow> filedebug_data \<Rightarrow> bool fd_result option" where
  "search_eod_loop h f0 f1 f2 st =
     (let p = cur_partition st; b = cur_block st in
      if \<not> ((f0 \<or> f1) \<and> \<not> f2) then Some (Inr f2, st)
      else if fault h (Op_asprintf p b) then Some (Inl EDEV_NO_MEMORY, st)
      else case filedebug_check_file h (p, b, SUFFIX_RECORD) st of Inl e \<Rightarrow> Some (Inl e, st)
      | Inr f0 \<Rightarrow> (case filedebug_check_file h (p, b, SUFFIX_FILEMARK) st of Inl e \<Rightarrow> Some (Inl e, st)
      | Inr f1 \<Rightarrow> (case filedebug_check_file h (p, b, SUFFIX_EOD) st of Inl e \<Rightarrow> Some (Inl e, st)
      | Inr f2 \<Rightarrow> search_eod_loop h f0 f1 f2 (st\<lparr>cur_block := add64 b 1\<rparr>))))"

definition filedebug_search_eod :: "host \<Rightarrow> nat \<Rightarrow> filedebug_data \<Rightarrow> unit fd_result option" where
  "filedebug_search_eod h part st =
     (case search_eod_loop h True True False (st\<lparr>cur_partition := part, cur_block := 0\<rparr>) of
        None \<Rightarrow> None
      | Some (Inl e, st) \<Rightarrow> Some (Inl e, st)
      | Some (Inr f2, st) \<Rightarrow>
          let st = st\<lparr>cur_block := sub64 (cur_block st) 1\<rparr> in
          if \<not> f2 \<and> cur_block st \<noteq> 0
          then Some (Inr (), st\<lparr>last_block := (last_block st)(cur_partition st := cur_block st),
                                eod := (eod st)(cur_partition st := MISSING_EOD)\<rparr>)
          else Some (filedebug_write_eod h st))"

definition load_medium :: "host \<Rightarrow> filedebug_data \<Rightarrow> unit fd_result" where
  "load_medium h st =
     (case filename st of None \<Rightarrow> (Inr (), st)
      | Some _ \<Rightarrow> (case link_line h of None \<Rightarrow> (Inl EDEV_INTERNAL_ERROR, st)
      | Some l \<Rightarrow>
          let l = (if l \<noteq> [] \<and> last l = CHR 0x0A then butlast l else l) in
          if l = ''empty'' then (Inl EDEV_NO_MEDIUM, st)
          else if fault h Op_link_asprintf then (Inl EDEV_INTERNAL_ERROR, st)
          else case stat_dir h (dirbase st @ ''/'' @ l) of
            None \<Rightarrow> (Inl EDEV_NO_MEDIUM, st)
          | Some d \<Rightarrow> (Inr (), st\<lparr>dir := d\<rparr>)))"

definition filedebug_load :: "host \<Rightarrow> filedebug_data \<times> tc_position \<Rightarrow> unit drv_result option" where
  "filedebug_load h = (\<lambda>(st, pos).
     if ready st then Some (Inr (), st, pos)
     else case load_medium h st of
       (Inl e, st) \<Rightarrow> Some (Inl e, st, pos)
     | (Inr _, st) \<Rightarrow>
         (case filedebug_search_eod h 0 (st\<lparr>ready := True\<rparr>) of
            None \<Rightarrow> None
          | Some (Inl _, st) \<Rightarrow> Some (Inl EDEV_INTERNAL_ERROR, st, pos)
          | Some (Inr _, st) \<Rightarrow>
              (case filedebug_search_eod h 1 st of
                 None \<Rightarrow> None
               | Some (Inl _, st) \<Rightarrow> Some (Inl EDEV_INTERNAL_ERROR, st, pos)
               | Some (Inr _, st) \<Rightarrow>
                   let st = st\<lparr>cur_partition := 0, cur_block := 0, cur_filemarks := 0, partitions := MAX_PARTITIONS\<rparr>;
                       pos = pos\<lparr>pos_partition := 0, pos_block := 0, pos_filemarks := 0\<rparr> in
                   Some (case get_wp h st of
                       (Inl _, st) \<Rightarrow> (Inl EDEV_INTERNAL_ERROR, st, pos)
                     | (Inr wp, st) \<Rightarrow> (Inr (), st\<lparr>write_pass_prev := wp, write_pass := wp\<rparr>, pos)))))"

definition filedebug_unload :: "filedebug_data \<times> tc_position \<Rightarrow> unit drv_result" where
  "filedebug_unload = (\<lambda>(st, pos).
     (Inr (), st\<lparr>ready := False, cur_partition := 0, cur_block := 0, cur_filemarks := 0\<rparr>,
      pos\<lparr>pos_partition := 0, pos_block := 0, pos_filemarks := 0\<rparr>))"

definition filedebug_readpos :: "filedebug_data \<times> tc_position \<Rightarrow> unit drv_result" where
  "filedebug_readpos = (\<lambda>(st, pos).
     if \<not> ready st then (Inl EDEV_NOT_READY, st, pos)
     else (Inr (), st, pos\<lparr>pos_partition := cur_partition st, pos_block := cur_block st,
                           pos_filemarks := cur_filemarks st\<rparr>))"

text \<open>The results of the two erasures are not looked at.\<close>

definition erase_all :: "host \<Rightarrow> filedebug_data \<Rightarrow> filedebug_data" where
  "erase_all h st =
     (let pos = \<lparr>pos_partition = 0, pos_block = 0, pos_filemarks = 0, early_warning = False,
                 programmable_early_warning = False\<rparr>;
          st = fst (snd (filedebug_erase h (st\<lparr>cur_partition := 1, cur_block := 0\<rparr>, pos)))
      in fst (snd (filedebug_erase h (st\<lparr>cur_partition := 0, cur_block := 0\<rparr>, pos))))"

definition filedebug_setcap :: "host \<Rightarrow> filedebug_data \<Rightarrow> unit fd_result" where
  "filedebug_setcap h st =
     (if cur_partition st \<noteq> 0 \<or> cur_block st \<noteq> 0 then (Inl EDEV_ILLEGAL_REQUEST, st)
      else (Inr (), erase_all h (st\<lparr>partitions := 1\<rparr>)))"

definition filedebug_format :: "host \<Rightarrow> TC_FORMAT_TYPE \<Rightarrow> filedebug_data \<Rightarrow> unit fd_result" where
  "filedebug_format h fmt st =
     (if cur_partition st \<noteq> 0 \<or> cur_block st \<noteq> 0 then (Inl EDEV_ILLEGAL_REQUEST, st)
      else case fmt of
        TC_FORMAT_DEFAULT \<Rightarrow> (Inr (), erase_all h (st\<lparr>partitions := 1\<rparr>))
      | TC_FORMAT_PARTITION \<Rightarrow> (Inr (), erase_all h (st\<lparr>partitions := 2\<rparr>))
      | TC_FORMAT_DEST_PART \<Rightarrow> (Inr (), erase_all h (st\<lparr>partitions := 2\<rparr>))
      | _ \<Rightarrow> (Inl EDEV_INVALID_ARG, st))"

definition filedebug_remaining_capacity :: "filedebug_data \<Rightarrow> tc_remaining_cap \<Rightarrow> tc_remaining_cap" where
  "filedebug_remaining_capacity st cap =
     (if \<not> ready st then cap
      else if partitions st = 2
      then \<lparr>remaining_p0 = 6144, remaining_p1 = 6144, max_p0 = 6144, max_p1 = 6144\<rparr>
      else \<lparr>remaining_p0 = 6144, remaining_p1 = 0, max_p0 = 6144, max_p1 = 0\<rparr>)"

section \<open>Reservation, medium lock, parameters\<close>

definition filedebug_reserve_unit :: "filedebug_data \<Rightarrow> unit fd_result" where
  "filedebug_reserve_unit st =
     (if device_reserved st then (Inl EDEV_ILLEGAL_REQUEST, st) else (Inr (), st\<lparr>device_reserved := True\<rparr>))"

definition filedebug_release_unit :: "filedebug_data \<Rightarrow> unit fd_result" where
  "filedebug_release_unit st = (Inr (), st\<lparr>device_reserved := False\<rparr>)"

definition filedebug_prevent_medium_removal :: "filedebug_data \<Rightarrow> unit fd_result" where
  "filedebug_prevent_medium_removal st =
     (if \<not> ready st then (Inl EDEV_NOT_READY, st) else (Inr (), st\<lparr>medium_locked := True\<rparr>))"

definition filedebug_allow_medium_removal :: "filedebug_data \<Rightarrow> unit fd_result" where
  "filedebug_allow_medium_removal st =
     (if \<not> ready st then (Inl EDEV_NOT_READY, st) else (Inr (), st\<lparr>medium_locked := False\<rparr>))"

definition filedebug_get_eod_status :: "filedebug_data \<Rightarrow> nat \<Rightarrow> bool" where
  "filedebug_get_eod_status st part \<longleftrightarrow> eod st part \<noteq> MISSING_EOD"

definition filedebug_get_parameters :: "filedebug_data \<Rightarrow> tc_drive_param" where
  "filedebug_get_parameters st =
     \<lparr>max_blksize = 4 * (1024 * 1024), logical_write_protect = False, write_protect = emulate_readonly st\<rparr>"

section \<open>The host answers\<close>

text \<open>The directory after all files of the blocks \<open>B\<close> of a partition are removed.\<close>

definition clear_set :: "nat \<Rightarrow> nat set \<Rightarrow> filedebug_data \<Rightarrow> filedebug_data" where
  "clear_set p B st = st\<lparr>dir := (dir st)\<lparr>files :=
     (\<lambda>(q, c, x). if q = p \<and> c \<in> B then None else files (dir st) (q, c, x))\<rparr>\<rparr>"

lemma host_okD: "host_ok h \<Longrightarrow> \<not> fault h op" "host_ok h \<Longrightarrow> written h n = n"
  by (simp_all add: host_ok_def)

lemma host_ok_fault [simp]: "host_ok h \<Longrightarrow> fault h op = False"
  by (simp add: host_ok_def)

lemma check_file_ok: "host_ok h \<Longrightarrow> filedebug_check_file h f st = Inr (files (dir st) f \<noteq> None)"
  by (simp add: filedebug_check_file_def)

lemma clear_set_sel [simp]:
  "cur_partition (clear_set p B st) = cur_partition st" "cur_block (clear_set p B st) = cur_block st"
  "eod (clear_set p B st) = eod st" "last_block (clear_set p B st) = last_block st"
  "attrs (dir (clear_set p B st)) = attrs (dir st)" "max_block_size (clear_set p B st) = max_block_size st"
  "ready (clear_set p B st) = ready st" "write_pass (clear_set p B st) = write_pass st"
  "write_pass_prev (clear_set p B st) = write_pass_prev st" "cur_filemarks (clear_set p B st) = cur_filemarks st"
  "files (dir (clear_set p B st)) (q, c, x) = (if q = p \<and> c \<in> B then None else files (dir st) (q, c, x))"
  by (simp_all add: clear_set_def)

lemma set_file_sel [simp]:
  "cur_partition (set_file f d st) = cur_partition st" "cur_block (set_file f d st) = cur_block st"
  "eod (set_file f d st) = eod st" "last_block (set_file f d st) = last_block st"
  "attrs (dir (set_file f d st)) = attrs (dir st)" "max_block_size (set_file f d st) = max_block_size st"
  "ready (set_file f d st) = ready st" "write_pass (set_file f d st) = write_pass st"
  "write_pass_prev (set_file f d st) = write_pass_prev st" "cur_filemarks (set_file f d st) = cur_filemarks st"
  "files (dir (set_file f d st)) = (files (dir st))(f := d)"
  by (simp_all add: set_file_def)

lemma clear_set_empty [simp]: "clear_set p {} st = st"
  by (simp add: clear_set_def)

lemma clear_set_clear_set: "clear_set p B (clear_set p C st) = clear_set p (B \<union> C) st"
  by (auto simp: clear_set_def fun_eq_iff)

lemma suffix_cases3: "x = SUFFIX_RECORD \<or> x = SUFFIX_FILEMARK \<or> x = SUFFIX_EOD"
  by (cases x) auto

lemma remove_record_ok:
  assumes "host_ok h"
  shows "filedebug_remove_record h p b st = (Inr (), clear_set p {b} st)"
proof -
  have "(files (dir st))((p, b, SUFFIX_RECORD) := None, (p, b, SUFFIX_FILEMARK) := None, (p, b, SUFFIX_EOD) := None)
      = (\<lambda>(q, c, x). if q = p \<and> c \<in> {b} then None else files (dir st) (q, c, x))"
    using suffix_cases3 by (auto simp: fun_eq_iff)
  then show ?thesis
    using assms by (simp add: filedebug_remove_record_def set_file_def clear_set_def)
qed

lemma remove_records_ok:
  "host_ok h \<Longrightarrow> remove_records h p bs st = (Inr (), clear_set p (set bs) st)"
  by (induction bs arbitrary: st) (simp_all add: remove_record_ok clear_set_clear_set)

lemma write_eod_ok:
  assumes h: "host_ok h" and b: "cur_block st + 1 < U64"
  defines "p \<equiv> cur_partition st" and "b \<equiv> cur_block st"
  defines "rest \<equiv> (if eod st p = MISSING_EOD then {} else {b + 1..eod st p})"
  shows "filedebug_write_eod h st = (Inr (), (set_file (p, b, SUFFIX_EOD) (Some []) (clear_set p (insert b rest) st))
     \<lparr>last_block := (last_block st)(p := sub64 b 1), eod := (eod st)(p := b)\<rparr>)"
proof -
  have add: "add64 b (Suc 0) = Suc b" using b by (simp add: add64_exact b_def)
  have comm: "clear_set p B (set_file (p, b, SUFFIX_EOD) c (clear_set p {b} st))
      = set_file (p, b, SUFFIX_EOD) c (clear_set p (insert b B) st)" if "b \<notin> B" for B c
    by (intro filedebug_data.equality tapedir.equality)
      (use that in \<open>auto simp: clear_set_def set_file_def fun_eq_iff\<close>)
  have rest: "set [Suc b..<Suc (eod st p)] = {Suc b..eod st p}" by auto
  show ?thesis
    using h comm [of "{b + 1..eod st p}" "Some []"] comm [of "{}" "Some []"]
    unfolding filedebug_write_eod_def Let_def filedebug_remove_current_record_def
    by (simp add: remove_record_ok remove_records_ok create_file_def add rest p_def [symmetric] b_def [symmetric] rest_def
        del: set_upt upt_Suc)
qed

lemma set_wp_ok:
  assumes "host_ok h"
  shows "set_wp h wp st = (Inr (), set_attr (0, unat TC_MAM_PAGE_VCR) (ltfs_u16tobe TC_MAM_PAGE_VCR @ [0] @
     ltfs_u16tobe TC_MAM_PAGE_VCR_SIZE @ ltfs_u32tobe (of_nat wp)) st)"
proof -
  let ?buf = "ltfs_u16tobe TC_MAM_PAGE_VCR @ [0] @ ltfs_u16tobe TC_MAM_PAGE_VCR_SIZE @ ltfs_u32tobe (of_nat wp)"
  have d: "drop 3 ?buf = ltfs_u16tobe TC_MAM_PAGE_VCR_SIZE @ ltfs_u32tobe (of_nat wp)" by simp
  have l: "length ?buf = 9" by simp
  have s: "unat TC_MAM_PAGE_VCR_SIZE + 5 = 9" by (simp add: TC_MAM_PAGE_VCR_SIZE_def)
  have "write_attribute_loop h 0 ?buf 9 st' = (Inr (), st')" for st'
    by (subst write_attribute_loop.simps) (simp add: l)
  then show ?thesis
    using assms s unfolding set_wp_def filedebug_write_attribute_def
    by (subst write_attribute_loop.simps)
      (simp add: d [simplified] l Let_def host_okD(2))
qed

lemma new_write_pass_ok:
  assumes "host_ok h"
  shows "\<exists>wp at. new_write_pass h st = (Inr (), st\<lparr>write_pass := wp, dir := (dir st)\<lparr>attrs := at\<rparr>\<rparr>)"
proof (cases "write_pass_prev st = write_pass st")
  case True
  with assms show ?thesis by (auto simp: new_write_pass_def set_wp_ok set_attr_def)
next
  case False
  then have "new_write_pass h st = (Inr (), st\<lparr>write_pass := write_pass st, dir := (dir st)\<lparr>attrs := attrs (dir st)\<rparr>\<rparr>)"
    by (simp add: new_write_pass_def)
  then show ?thesis by blast
qed

section \<open>The tape in the directory\<close>

text \<open>Partition \<open>p\<close> of the directory holds \<open>n\<close> blocks and the end-of-data mark.\<close>

definition part_ok :: "(fname \<rightharpoonup> byte list) \<Rightarrow> nat \<Rightarrow> nat \<Rightarrow> bool" where
  "part_ok fs p n \<longleftrightarrow>
     (\<forall>b<n. (fs (p, b, SUFFIX_RECORD) = None) = (fs (p, b, SUFFIX_FILEMARK) \<noteq> None) \<and> fs (p, b, SUFFIX_EOD) = None) \<and>
     fs (p, n, SUFFIX_RECORD) = None \<and> fs (p, n, SUFFIX_FILEMARK) = None \<and> fs (p, n, SUFFIX_EOD) \<noteq> None \<and>
     (\<forall>b>n. \<forall>x. fs (p, b, x) = None)"

definition rec_at :: "(fname \<rightharpoonup> byte list) \<Rightarrow> nat \<Rightarrow> nat \<Rightarrow> trec" where
  "rec_at fs p b = (case fs (p, b, SUFFIX_RECORD) of Some c \<Rightarrow> Data c | None \<Rightarrow> Filemark)"

definition fd_tape :: "filedebug_data \<Rightarrow> tape" where
  "fd_tape st p = (if p < 2 then map (rec_at (files (dir st)) p) [0..<eod st p] else [])"

definition fd_head :: "filedebug_data \<Rightarrow> nat \<times> nat" where
  "fd_head st = (cur_partition st, cur_block st)"

definition fd_ok :: "filedebug_data \<Rightarrow> bool" where
  "fd_ok st \<longleftrightarrow> ready st \<and> cur_partition st < 2 \<and> cur_block st \<le> eod st (cur_partition st) \<and>
     (\<forall>p<2. part_ok (files (dir st)) p (eod st p) \<and> eod st p < MISSING_EOD \<and> last_block st p = sub64 (eod st p) 1)"

lemma fd_tape_length [simp]: "p < 2 \<Longrightarrow> length (fd_tape st p) = eod st p"
  by (simp add: fd_tape_def)

lemma fd_tape_nth: "p < 2 \<Longrightarrow> b < eod st p \<Longrightarrow> fd_tape st p ! b = rec_at (files (dir st)) p b"
  by (simp add: fd_tape_def)

text \<open>
  Writing a block: \<open>put st p b x c\<close> is the state after block \<open>b\<close> became the file with suffix \<open>x\<close> and
  the end-of-data mark followed it.
\<close>

definition put :: "filedebug_data \<Rightarrow> nat \<Rightarrow> nat \<Rightarrow> suffix \<Rightarrow> byte list \<Rightarrow> fname \<rightharpoonup> byte list" where
  "put st p b x c = (\<lambda>(q, d, y). if q = p \<and> b \<le> d then
       (if d = b \<and> y = x then Some c else if d = b + 1 \<and> y = SUFFIX_EOD then Some [] else None)
     else files (dir st) (q, d, y))"

lemma put_tape:
  assumes ok: "fd_ok st" and p: "p = cur_partition st" "b = cur_block st" and x: "x \<noteq> SUFFIX_EOD"
    and b: "b + 1 < MISSING_EOD"
    and st': "files (dir st') = put st p b x c" "eod st' = (eod st)(p := b + 1)"
      "last_block st' = (last_block st)(p := b)" "cur_partition st' = p" "cur_block st' = b + 1" "ready st'"
  shows "fd_ok st'"
    and "fd_tape st' = (fd_tape st)(p := take b (fd_tape st p) @ [if x = SUFFIX_RECORD then Data c else Filemark])"
proof -
  have p2: "p < 2" and le: "b \<le> eod st p" using ok p by (simp_all add: fd_ok_def)
  have "part_ok (files (dir st)) p (eod st p)" using ok p2 by (simp add: fd_ok_def)
  then have "part_ok (put st p b x c) p (b + 1)"
    using le x by (cases x) (auto simp: part_ok_def put_def)
  moreover have "part_ok (put st p b x c) q (eod st q)" if "q < 2" "q \<noteq> p" for q
    using ok that by (auto simp: fd_ok_def part_ok_def put_def)
  moreover have "sub64 (b + 1) 1 = b" using b by (simp add: sub64_exact MISSING_EOD_def)
  ultimately show "fd_ok st'"
    using ok st' p2 b by (auto simp: fd_ok_def)
  have "rec_at (put st p b x c) p d = rec_at (files (dir st)) p d" if "d < b" for d
    using that by (simp add: rec_at_def put_def)
  moreover have "rec_at (put st p b x c) p b = (if x = SUFFIX_RECORD then Data c else Filemark)"
    using x by (auto simp: rec_at_def put_def)
  ultimately have "fd_tape st' p = take b (fd_tape st p) @ [if x = SUFFIX_RECORD then Data c else Filemark]"
    using st' p2 le by (simp add: fd_tape_def take_map min_absorb1)
  moreover have "fd_tape st' q = fd_tape st q" if "q \<noteq> p" for q
    using st' that by (auto simp: fd_tape_def rec_at_def put_def)
  ultimately show "fd_tape st' = (fd_tape st)(p := take b (fd_tape st p) @ [if x = SUFFIX_RECORD then Data c else Filemark])"
    by (auto simp: fun_eq_iff)
qed

text \<open>The end-of-data mark that follows a block just stored at \<open>b\<close>.\<close>

lemma eod_after_put:
  assumes h: "host_ok h" and ok: "fd_ok st" and p: "p = cur_partition st" "b = cur_block st"
    and b: "b + 2 < U64"
    and st1: "files (dir st1) = (files (dir (clear_set p {b} st)))((p, b, x) := Some c)" "eod st1 = eod st"
      "last_block st1 = last_block st" "cur_partition st1 = p" "cur_block st1 = b + 1"
  shows "\<exists>st2. filedebug_write_eod h st1 = (Inr (), st2) \<and> files (dir st2) = put st p b x c \<and>
    eod st2 = (eod st)(p := b + 1) \<and> last_block st2 = (last_block st)(p := b) \<and> cur_partition st2 = p \<and>
    cur_block st2 = b + 1 \<and> ready st2 = ready st1 \<and> max_block_size st2 = max_block_size st1 \<and>
    cur_filemarks st2 = cur_filemarks st1"
proof -
  have p2: "p < 2" and le: "b \<le> eod st p" using ok p by (simp_all add: fd_ok_def)
  have n: "eod st p < MISSING_EOD" and none: "\<And>d x. eod st p < d \<Longrightarrow> files (dir st) (p, d, x) = None"
    using ok p2 by (auto simp: fd_ok_def part_ok_def)
  have w: "filedebug_write_eod h st1 = (Inr (), (set_file (p, b + 1, SUFFIX_EOD) (Some [])
      (clear_set p (insert (b + 1) {b + 1 + 1..eod st p}) st1))
      \<lparr>last_block := (last_block st)(p := b), eod := (eod st)(p := b + 1)\<rparr>)"
    using write_eod_ok [OF h, of st1] b st1 n by (simp add: sub64_exact)
  have "(files (dir (clear_set p (insert (b + 1) {b + 1 + 1..eod st p}) st1)))((p, b + 1, SUFFIX_EOD) := Some [])
      = put st p b x c"
  proof (rule ext, clarify)
    fix q d y
    show "((files (dir (clear_set p (insert (b + 1) {b + 1 + 1..eod st p}) st1)))((p, b + 1, SUFFIX_EOD) := Some [])) (q, d, y)
      = put st p b x c (q, d, y)"
      using none [of d y] st1(1) by (auto simp: put_def)
  qed
  with w st1 show ?thesis by (simp del: fun_upd_apply)
qed

lemma filedebug_write_ok:
  assumes h: "host_ok h" and ok: "fd_ok st" and hd: "fd_head st = (p, b)"
    and b: "b + 2 < MISSING_EOD" and buf: "0 < length buf" "length buf \<le> max_block_size st"
  shows "\<exists>st' pos'. filedebug_write h (Some buf) (length buf) (st, pos) = (Inr (length buf), st', pos') \<and>
    fd_ok st' \<and> max_block_size st' = max_block_size st \<and> fd_head st' = (p, b + 1) \<and>
    pos_block pos' = b + 1 \<and> pos_partition pos' = pos_partition pos \<and>
    fd_tape st' = (fd_tape st)(p := take b (fd_tape st p) @ [Data buf])"
proof -
  have p: "p = cur_partition st" "b = cur_block st" using hd by (auto simp: fd_head_def)
  have bd: "b + 2 < U64" using b by (simp add: MISSING_EOD_def)
  obtain wp at where wp: "new_write_pass h (clear_set p {b} st) =
      (Inr (), (clear_set p {b} st)\<lparr>write_pass := wp, dir := (dir (clear_set p {b} st))\<lparr>attrs := at\<rparr>\<rparr>)"
    using new_write_pass_ok [OF h] by blast
  define st1 where "st1 = (set_file (p, b, SUFFIX_RECORD) (Some buf)
      ((clear_set p {b} st)\<lparr>write_pass := wp, dir := (dir (clear_set p {b} st))\<lparr>attrs := at\<rparr>\<rparr>))\<lparr>cur_block := b + 1\<rparr>"
  have "files (dir st1) = (files (dir (clear_set p {b} st)))((p, b, SUFFIX_RECORD) := Some buf)"
    "eod st1 = eod st" "last_block st1 = last_block st" "cur_partition st1 = p" "cur_block st1 = b + 1"
    using p by (simp_all add: st1_def)
  from eod_after_put [OF h ok p bd this] obtain st2 where
    e: "filedebug_write_eod h st1 = (Inr (), st2)" and
    st2: "files (dir st2) = put st p b SUFFIX_RECORD buf" "eod st2 = (eod st)(p := b + 1)"
      "last_block st2 = (last_block st)(p := b)" "cur_partition st2 = p" "cur_block st2 = b + 1"
      "ready st2 = ready st1" "max_block_size st2 = max_block_size st1"
    by blast
  have rdy: "ready st" using ok by (simp add: fd_ok_def)
  have "filedebug_write h (Some buf) (length buf) (st, pos) =
      (Inr (length buf), st2, warn (ew_zone st2) (pew_entry st2) (pos\<lparr>pos_block := b + 1\<rparr>))"
    using h rdy buf wp e bd p
    by (simp add: filedebug_write_def Let_def filedebug_remove_current_record_def remove_record_ok host_okD(2)
        st1_def add64_exact)
  moreover have "fd_ok st2" "fd_tape st2 = (fd_tape st)(p := take b (fd_tape st p) @ [Data buf])"
    using put_tape [OF ok p, of SUFFIX_RECORD st2 buf] st2 b rdy by (simp_all add: st1_def)
  ultimately show ?thesis
    using st2 by (simp add: fd_head_def warn_def st1_def)
qed

lemma writefm_one_ok:
  assumes h: "host_ok h" and ok: "fd_ok st" and hd: "fd_head st = (p, b)" and b: "b + 2 < MISSING_EOD"
  shows "\<exists>st' pos'. writefm_one h (st, pos) = (Inr (), st', pos') \<and>
    fd_ok st' \<and> max_block_size st' = max_block_size st \<and> fd_head st' = (p, b + 1) \<and>
    pos_block pos' = b + 1 \<and> pos_partition pos' = pos_partition pos \<and>
    fd_tape st' = (fd_tape st)(p := take b (fd_tape st p) @ [Filemark])"
proof -
  have p: "p = cur_partition st" "b = cur_block st" using hd by (auto simp: fd_head_def)
  have bd: "b + 2 < U64" using b by (simp add: MISSING_EOD_def)
  define fm where "fm = add64 (cur_filemarks st) 1"
  define st1 where "st1 = (set_file (p, b, SUFFIX_FILEMARK) (Some []) (clear_set p {b} st))
      \<lparr>cur_block := b + 1, cur_filemarks := fm\<rparr>"
  have "files (dir st1) = (files (dir (clear_set p {b} st)))((p, b, SUFFIX_FILEMARK) := Some [])"
    "eod st1 = eod st" "last_block st1 = last_block st" "cur_partition st1 = p" "cur_block st1 = b + 1"
    using p by (simp_all add: st1_def)
  from eod_after_put [OF h ok p bd this] obtain st2 where
    e: "filedebug_write_eod h st1 = (Inr (), st2)" and
    st2: "files (dir st2) = put st p b SUFFIX_FILEMARK []" "eod st2 = (eod st)(p := b + 1)"
      "last_block st2 = (last_block st)(p := b)" "cur_partition st2 = p" "cur_block st2 = b + 1"
      "ready st2 = ready st1" "max_block_size st2 = max_block_size st1"
    by blast
  have rdy: "ready st" using ok by (simp add: fd_ok_def)
  have "writefm_one h (st, pos) = (Inr (), st2, pos\<lparr>pos_block := b + 1, pos_filemarks := fm\<rparr>)"
    using h e bd p
    by (simp add: writefm_one_def Let_def filedebug_remove_current_record_def remove_record_ok create_file_def
        st1_def add64_exact fm_def)
  moreover have "fd_ok st2" "fd_tape st2 = (fd_tape st)(p := take b (fd_tape st p) @ [Filemark])"
    using put_tape [OF ok p, of SUFFIX_FILEMARK st2 "[]"] st2 b rdy by (simp_all add: st1_def)
  ultimately show ?thesis
    using st2 by (simp add: fd_head_def st1_def)
qed

lemma writefm_loop_ok:
  assumes h: "host_ok h" and "fd_ok st" and "fd_head st = (p, b)" and "b + n + 1 < MISSING_EOD" and "0 < n"
  shows "\<exists>st' pos'. writefm_loop h n (st, pos) = (Inr (), st', pos') \<and>
    fd_ok st' \<and> max_block_size st' = max_block_size st \<and> fd_head st' = (p, b + n) \<and>
    pos_block pos' = b + n \<and> pos_partition pos' = pos_partition pos \<and>
    fd_tape st' = (fd_tape st)(p := take b (fd_tape st p) @ replicate n Filemark)"
  using assms(2-)
proof (induction n arbitrary: st pos b)
  case (Suc n)
  have "b \<le> length (fd_tape st p)" using Suc.prems(1,2) by (auto simp: fd_ok_def fd_head_def)
  obtain st1 pos1 where 1: "writefm_one h (st, pos) = (Inr (), st1, pos1)" "fd_ok st1"
      "max_block_size st1 = max_block_size st" "fd_head st1 = (p, b + 1)"
      "pos_block pos1 = b + 1" "pos_partition pos1 = pos_partition pos"
      "fd_tape st1 = (fd_tape st)(p := take b (fd_tape st p) @ [Filemark])"
    using writefm_one_ok [OF h Suc.prems(1,2), of pos] Suc.prems(3) by auto
  show ?case
  proof (cases "n = 0")
    case True
    with 1 show ?thesis by auto
  next
    case False
    have "\<exists>st2 pos2. writefm_loop h n (st1, pos1) = (Inr (), st2, pos2) \<and>
      fd_ok st2 \<and> max_block_size st2 = max_block_size st1 \<and> fd_head st2 = (p, b + 1 + n) \<and>
      pos_block pos2 = b + 1 + n \<and> pos_partition pos2 = pos_partition pos1 \<and>
      fd_tape st2 = (fd_tape st1)(p := take (b + 1) (fd_tape st1 p) @ replicate n Filemark)"
      by (rule Suc.IH) (use 1 Suc.prems False in auto)
    moreover have "take (b + 1) (fd_tape st1 p) = take b (fd_tape st p) @ [Filemark]"
      using 1(7) \<open>b \<le> length (fd_tape st p)\<close> by simp
    ultimately show ?thesis using 1 by (auto simp del: fun_upd_apply)
  qed
qed simp

lemma fd_ok_cong:
  assumes "files (dir st') = files (dir st)" "eod st' = eod st" "last_block st' = last_block st"
    "cur_partition st' = cur_partition st" "cur_block st' = cur_block st" "ready st' = ready st"
  shows "fd_ok st' = fd_ok st" "fd_tape st' = fd_tape st" "fd_head st' = fd_head st"
  using assms by (simp_all add: fd_ok_def fd_tape_def [abs_def] fd_head_def cong: if_cong)

lemma filedebug_writefm_ok:
  assumes h: "host_ok h" and ok: "fd_ok st" and hd: "fd_head st = (p, b)" and b: "b + n + 1 < MISSING_EOD" and n: "0 < n"
  shows "\<exists>st' pos'. filedebug_writefm h n (st, pos) = (Inr (), st', pos') \<and>
    fd_ok st' \<and> max_block_size st' = max_block_size st \<and> fd_head st' = (p, b + n) \<and>
    pos_block pos' = b + n \<and> pos_partition pos' = pos_partition pos \<and>
    fd_tape st' = (fd_tape st)(p := take b (fd_tape st p) @ replicate n Filemark)"
proof -
  have rdy: "ready st" using ok by (simp add: fd_ok_def)
  obtain wp at where wp: "new_write_pass h st = (Inr (), st\<lparr>write_pass := wp, dir := (dir st)\<lparr>attrs := at\<rparr>\<rparr>)"
    using new_write_pass_ok [OF h] by blast
  let ?st = "st\<lparr>write_pass := wp, dir := (dir st)\<lparr>attrs := at\<rparr>\<rparr>"
  have c: "fd_ok ?st = fd_ok st" "fd_tape ?st = fd_tape st" "fd_head ?st = fd_head st"
    by (rule fd_ok_cong; simp)+
  obtain st2 pos2 where "writefm_loop h n (?st, pos) = (Inr (), st2, pos2)" "fd_ok st2"
      "max_block_size st2 = max_block_size st" "fd_head st2 = (p, b + n)"
      "pos_block pos2 = b + n" "pos_partition pos2 = pos_partition pos"
      "fd_tape st2 = (fd_tape st)(p := take b (fd_tape st p) @ replicate n Filemark)"
    using writefm_loop_ok [OF h, of ?st p b n pos] ok hd b n c by auto
  then show ?thesis
    using wp rdy n by (simp add: filedebug_writefm_def warn_def)
qed

lemma filedebug_read_ok:
  assumes h: "host_ok h" and ok: "fd_ok st" and hd: "fd_head st = (p, b)"
  shows "if b < length (fd_tape st p)
    then \<exists>st' pos'. filedebug_read h n (st, pos) =
        (Inr (case fd_tape st p ! b of Data d \<Rightarrow> take n d | Filemark \<Rightarrow> []), st', pos') \<and>
      fd_ok st' \<and> max_block_size st' = max_block_size st \<and> fd_head st' = (p, b + 1) \<and> fd_tape st' = fd_tape st \<and>
      pos_block pos' = b + 1 \<and> pos_partition pos' = pos_partition pos
    else filedebug_read h n (st, pos) = (Inl EDEV_EOD_DETECTED, st, pos)"
proof -
  have p: "p = cur_partition st" "b = cur_block st" using hd by (auto simp: fd_head_def)
  have st: "ready st" "p < 2" "b \<le> eod st p" "part_ok (files (dir st)) p (eod st p)" "eod st p < MISSING_EOD"
    using ok p by (auto simp: fd_ok_def)
  show ?thesis
  proof (cases "b < eod st p")
    case True
    then have b1: "add64 b 1 = b + 1" "add64 b (Suc 0) = b + 1" using st(5) by (simp_all add: add64_exact MISSING_EOD_def)
    have moved: "fd_ok (st\<lparr>cur_block := b + 1, cur_filemarks := m\<rparr>)" "fd_tape (st\<lparr>cur_block := b + 1, cur_filemarks := m\<rparr>) = fd_tape st"
      "fd_ok (st\<lparr>cur_block := b + 1\<rparr>)" "fd_tape (st\<lparr>cur_block := b + 1\<rparr>) = fd_tape st" for m
      using ok True p by (auto simp: fd_ok_def fd_tape_def fun_eq_iff)
    have f: "files (dir st) (p, b, SUFFIX_EOD) = None"
      "(files (dir st) (p, b, SUFFIX_RECORD) = None) = (files (dir st) (p, b, SUFFIX_FILEMARK) \<noteq> None)"
      using st(4) True by (auto simp: part_ok_def)
    show ?thesis
    proof (cases "files (dir st) (p, b, SUFFIX_RECORD)")
      case None
      with f have "fd_tape st p ! b = Filemark" "files (dir st) (p, b, SUFFIX_FILEMARK) \<noteq> None"
        using True st(2) by (auto simp: fd_tape_nth rec_at_def)
      then show ?thesis
        using h st True f(1) p moved b1
        by (auto simp: filedebug_read_def Let_def check_file_ok fd_head_def)
    next
      case (Some c)
      with f have "fd_tape st p ! b = Data c" "files (dir st) (p, b, SUFFIX_FILEMARK) = None"
        using True st(2) by (auto simp: fd_tape_nth rec_at_def)
      with Some show ?thesis
        using h st True f(1) p moved b1
        by (auto simp: filedebug_read_def Let_def check_file_ok fd_head_def)
    qed
  next
    case False
    then show ?thesis using st p by (simp add: filedebug_read_def)
  qed
qed

lemma count_filemarks_ok:
  assumes "host_ok h" and "part_ok (files (dir st)) p (eod st p)" and "p < 2" and "b \<le> eod st p"
  shows "count_filemarks h p b st = Inr (filemarks_before (fd_tape st p) b)"
  using assms(4)
proof (induction b)
  case (Suc b)
  then have b: "b < eod st p" by simp
  with assms(2) have "(files (dir st) (p, b, SUFFIX_RECORD) = None) = (files (dir st) (p, b, SUFFIX_FILEMARK) \<noteq> None)"
    by (simp add: part_ok_def)
  then have "(files (dir st) (p, b, SUFFIX_FILEMARK) \<noteq> None) = (fd_tape st p ! b = Filemark)"
    using b assms(3) by (auto simp: fd_tape_nth rec_at_def split: option.splits)
  with Suc b show ?case
    using assms(1,3) by (simp add: check_file_ok filemarks_before_Suc)
qed simp

lemma filedebug_locate_ok:
  assumes h: "host_ok h" and ok: "fd_ok st" and p: "p < 2"
  shows "\<exists>st' pos'. filedebug_locate h p b (st, pos) = (Inr (), st', pos') \<and> fd_ok st' \<and>
    max_block_size st' = max_block_size st \<and> fd_tape st' = fd_tape st \<and>
    fd_head st' = (p, min b (length (fd_tape st p))) \<and> cur_filemarks st' = filemarks_before (fd_tape st p) (min b (length (fd_tape st p))) \<and>
    pos_block pos' = min b (length (fd_tape st p)) \<and> pos_partition pos' = p \<and>
    pos_filemarks pos' = filemarks_before (fd_tape st p) (min b (length (fd_tape st p)))"
proof -
  let ?b = "min b (eod st p)"
  let ?st = "st\<lparr>cur_partition := p, cur_block := ?b\<rparr>"
  have st: "ready st" "part_ok (files (dir st)) p (eod st p)" "eod st p < MISSING_EOD"
    using ok p by (auto simp: fd_ok_def)
  have "count_filemarks h p ?b ?st = Inr (filemarks_before (fd_tape ?st p) ?b)"
    using h st p by (intro count_filemarks_ok) auto
  moreover have tape: "fd_tape (st\<lparr>cur_partition := p, cur_block := ?b\<rparr>) = fd_tape st"
      "fd_tape (st\<lparr>cur_partition := p, cur_block := ?b, cur_filemarks := n\<rparr>) = fd_tape st" for n
    by (simp_all add: fd_tape_def fun_eq_iff)
  moreover have "(if eod st p < b then eod st p else b) = ?b" by (simp add: min_def)
  moreover have "fd_ok (st\<lparr>cur_partition := p, cur_block := ?b, cur_filemarks := n\<rparr>)" for n
    using ok p by (simp add: fd_ok_def)
  ultimately show ?thesis
    using st p by (auto simp: filedebug_locate_def MAX_PARTITIONS_def Let_def warn_def fd_head_def)
qed

section \<open>The driver satisfies the contract\<close>

definition ok_host :: host where
  "ok_host = \<lparr>fault = (\<lambda>_. False), written = (\<lambda>n. n), link_line = None, stat_dir = (\<lambda>_. None)\<rparr>"

lemma ok_host_ok [simp]: "host_ok ok_host"
  by (simp add: host_ok_def ok_host_def)

definition fd_write :: "byte list \<Rightarrow> filedebug_data \<times> tc_position \<Rightarrow> nat drv_result" where
  "fd_write buf = filedebug_write ok_host (Some buf) (length buf)"

lemma MISSING_EOD_max: "MISSING_EOD = TAPE_BLOCK_MAX"
  by (simp add: MISSING_EOD_def TAPE_BLOCK_MAX_def)

interpretation fd: tape_driver fd_ok fd_tape fd_head max_block_size fd_write
  "filedebug_writefm ok_host" "filedebug_read ok_host" "filedebug_locate ok_host"
proof (unfold_locales, goal_cases)
  case (1 s)
  then show ?case by (simp add: fd_ok_def fd_head_def)
next
  case (2 s p b buf pos)
  then show ?case unfolding fd_write_def by (intro filedebug_write_ok) (simp_all add: MISSING_EOD_max)
next
  case (3 s p b n pos)
  then show ?case by (intro filedebug_writefm_ok) (simp_all add: MISSING_EOD_max)
next
  case (4 s pos)
  then show ?case by (simp add: filedebug_writefm_def fd_ok_def)
next
  case (5 s p b n pos)
  then show ?case by (intro filedebug_read_ok) simp_all
next
  case (6 s p b pos)
  then show ?case using filedebug_locate_ok [OF ok_host_ok, of s p b pos] by auto
qed

text \<open>
  A sequence of blocks written through the file backend at any position, located and read back, comes
  back block for block: writing makes the last block written the end of the partition, and reading
  with a buffer as large as the largest block returns each block whole.
\<close>

theorem filedebug_write_read_roundtrip:
  assumes "fd_ok st" and "cur_partition st = p" and "cur_block st = b" and "b + length bufs + 1 < TAPE_BLOCK_MAX"
    and "\<forall>d\<in>set bufs. 0 < length d \<and> length d \<le> max_block_size st" and "bufs \<noteq> []" and "max_block_size st \<le> c"
  shows "\<exists>s'. rbind (write_all (\<lambda>buf. filedebug_write ok_host (Some buf) (length buf)) bufs (st, pos)) (\<lambda>_ s.
      rbind (filedebug_locate ok_host p b s) (\<lambda>_. read_all (filedebug_read ok_host) (length bufs) c)) = (Inr bufs, s')"
  using fd.write_locate_read [OF assms(1) _ assms(4-7), of p pos] assms(2,3)
  by (auto simp: fd_head_def fd_write_def [abs_def])

definition blank_tape :: filedebug_data where
  "blank_tape = \<lparr>device_reserved = False, medium_locked = False, cur_partition = 1, cur_block = 0, cur_filemarks = 0,
     max_block_size = 16777216, filename = None, dirbase = [],
     dir = \<lparr>files = [(0, 0, SUFFIX_EOD) \<mapsto> [], (1, 0, SUFFIX_EOD) \<mapsto> []], attrs = Map.empty\<rparr>,
     ready = True, last_block = (\<lambda>_. MISSING_EOD), eod = (\<lambda>_. 0), partitions = 2, write_pass_prev = 0, write_pass = 0,
     emulate_readonly = False, p0_warning = 0, p1_warning = 0, p0_p_warning = 0, p1_p_warning = 0\<rparr>"

definition pos0 :: tc_position where
  "pos0 = \<lparr>pos_partition = 1, pos_block = 0, pos_filemarks = 0, early_warning = False, programmable_early_warning = False\<rparr>"

lemma blank_tape_ok: "fd_ok blank_tape"
  by (auto simp: blank_tape_def fd_ok_def part_ok_def MISSING_EOD_def sub64_def U64_def)

theorem filedebug_write_read_roundtrip_witness:
  "\<exists>s'. rbind (write_all (\<lambda>buf. filedebug_write ok_host (Some buf) (length buf)) [[1, 2, 3], [4]] (blank_tape, pos0)) (\<lambda>_ s.
      rbind (filedebug_locate ok_host 1 0 s) (\<lambda>_. read_all (filedebug_read ok_host) 2 16777216)) = (Inr [[1, 2, 3], [4]], s')"
  using filedebug_write_read_roundtrip [OF blank_tape_ok, of 1 0 "[[1, 2, 3], [4]]" 16777216 pos0]
  by (simp add: blank_tape_def TAPE_BLOCK_MAX_def U64_def numeral_2_eq_2)

section \<open>No host can make a write damage other blocks\<close>

definition same_below :: "nat \<Rightarrow> nat \<Rightarrow> filedebug_data \<Rightarrow> filedebug_data \<Rightarrow> bool" where
  "same_below p b st st' \<longleftrightarrow> (\<forall>q c x. q \<noteq> p \<or> c < b \<longrightarrow> files (dir st') (q, c, x) = files (dir st) (q, c, x)) \<and>
     cur_partition st' = cur_partition st \<and> cur_block st' = cur_block st"

lemma same_below_refl [simp]: "same_below p b st st"
  by (simp add: same_below_def)

lemma same_below_trans: "same_below p b st1 st2 \<Longrightarrow> same_below p b st2 st3 \<Longrightarrow> same_below p b st1 st3"
  by (simp add: same_below_def)

lemma same_below_set_file: "b \<le> c \<Longrightarrow> same_below p b st (set_file (p, c, x) d st)"
  by (simp add: same_below_def)

lemma unlink_loop_below: "b \<le> c \<Longrightarrow> same_below p b st (snd (unlink_loop h p c xs st))"
  by (induction xs arbitrary: st) (auto intro: same_below_trans same_below_set_file)

lemma remove_record_below: "b \<le> c \<Longrightarrow> same_below p b st (snd (filedebug_remove_record h p c st))"
  by (simp add: filedebug_remove_record_def unlink_loop_below del: unlink_loop.simps)

lemma rbind_below:
  assumes "same_below p b st (snd r)" and "\<And>a. same_below p b (snd r) (snd (f a (snd r)))"
  shows "same_below p b st (snd (rbind r f))"
  using assms by (cases r; cases "fst r") (auto simp: rbind_def intro: same_below_trans)

lemma remove_records_below: "\<forall>c\<in>set bs. b \<le> c \<Longrightarrow> same_below p b st (snd (remove_records h p bs st))"
  by (induction bs arbitrary: st) (auto intro!: rbind_below remove_record_below)

lemma create_file_below: "b \<le> c \<Longrightarrow> same_below p b st (snd (create_file h (p, c, x) st))"
  by (simp add: create_file_def same_below_set_file)

lemma same_below_eod [simp]: "same_below p b st (st\<lparr>last_block := l, eod := e\<rparr>)"
  by (simp add: same_below_def)

lemma write_eod_below:
  assumes "cur_block st + 1 < U64"
  shows "same_below (cur_partition st) (cur_block st) st (snd (filedebug_write_eod h st))"
proof -
  have "\<forall>c\<in>set [add64 (cur_block st) 1..<n]. cur_block st \<le> c" for n
    using assms by (simp add: add64_exact)
  then show ?thesis
    unfolding filedebug_write_eod_def Let_def filedebug_remove_current_record_def
    by (auto intro!: rbind_below remove_record_below create_file_below remove_records_below simp del: upt_Suc)
qed

lemma write_attribute_loop_files:
  "files (dir (snd (write_attribute_loop h part buf i st))) = files (dir st) \<and>
   cur_partition (snd (write_attribute_loop h part buf i st)) = cur_partition st \<and>
   cur_block (snd (write_attribute_loop h part buf i st)) = cur_block st"
proof (induction h part buf i st rule: write_attribute_loop.induct)
  case (1 h part buf i st)
  have a: "files (dir (set_attr k c st)) = files (dir st)" "cur_partition (set_attr k c st) = cur_partition st"
    "cur_block (set_attr k c st) = cur_block st" for k c
    by (simp_all add: set_attr_def)
  show ?case
    using 1 by (subst (1 2 3) write_attribute_loop.simps)
      (auto simp: a Let_def split: option.splits)
qed

lemma new_write_pass_below: "same_below p b st (snd (new_write_pass h st))"
proof -
  have "same_below p b st' (snd (write_attribute_loop h 0 buf 0 st'))" for buf st'
    using write_attribute_loop_files [of h 0 buf 0 st'] by (simp add: same_below_def)
  moreover have "same_below p b st (st\<lparr>write_pass := w\<rparr>)" for w by (simp add: same_below_def)
  ultimately show ?thesis
    unfolding new_write_pass_def Let_def set_wp_def filedebug_write_attribute_def
    by (auto intro: same_below_trans)
qed

text \<open>What a driver function leaves of the directory, whatever the host answered.\<close>

definition keeps_below :: "nat \<Rightarrow> nat \<Rightarrow> filedebug_data \<Rightarrow> filedebug_data \<Rightarrow> bool" where
  "keeps_below p b st st' \<longleftrightarrow> (\<forall>q c x. q \<noteq> p \<or> c < b \<longrightarrow> files (dir st') (q, c, x) = files (dir st) (q, c, x))"

lemma keeps_below_trans: "keeps_below p b st1 st2 \<Longrightarrow> keeps_below p b st2 st3 \<Longrightarrow> keeps_below p b st1 st3"
  by (simp add: keeps_below_def)

lemma same_keeps: "same_below p b st st' \<Longrightarrow> keeps_below p b st st'"
  by (simp add: keeps_below_def same_below_def)

text \<open>
  Whatever the host does (any operation may fail, any write may be short), \<^verbatim>\<open>filedebug_write\<close>
  changes no file of another partition and no file of an earlier block: blocks written before stay
  readable, also after a write that failed.
\<close>

theorem filedebug_write_keeps_earlier_blocks:
  assumes "cur_partition st = p" and "cur_block st = b" and "b + 2 < U64" and "q \<noteq> p \<or> c < b"
  shows "files (dir (fst (snd (filedebug_write h buf n (st, pos))))) (q, c, x) = files (dir st) (q, c, x)"
proof -
  define st1 where "st1 = snd (filedebug_remove_current_record h st)"
  define st2 where "st2 = snd (new_write_pass h st1)"
  have 1: "same_below p b st st1"
    using assms by (simp add: st1_def filedebug_remove_current_record_def remove_record_below)
  have 2: "same_below p b st st2"
    using same_below_trans [OF 1 new_write_pass_below] by (simp add: st2_def)
  define st3 where "st3 d = set_file (p, b, SUFFIX_RECORD) (Some d) st2" for d
  have 3: "same_below p b st (st3 d)" for d
    using same_below_trans [OF 2 same_below_set_file] by (simp add: st3_def)
  have 4: "keeps_below p b st (snd (filedebug_write_eod h (st3 d\<lparr>cur_block := add64 b 1\<rparr>)))" for d
  proof -
    have "keeps_below p b st (st3 d\<lparr>cur_block := add64 b 1\<rparr>)"
      using same_keeps [OF 3] by (simp add: keeps_below_def)
    moreover have "keeps_below p (b + 1) (st3 d\<lparr>cur_block := add64 b 1\<rparr>) (snd (filedebug_write_eod h (st3 d\<lparr>cur_block := add64 b 1\<rparr>)))"
      using write_eod_below [of "st3 d\<lparr>cur_block := add64 b 1\<rparr>" h] assms 3 [of d]
      by (intro same_keeps) (simp add: add64_exact same_below_def)
    ultimately show ?thesis by (auto simp: keeps_below_def)
  qed
  have 5: "keeps_below (cur_partition st) (cur_block st) st s"
    if "filedebug_write_eod h (st3 d\<lparr>cur_block := add64 (cur_block st) (Suc 0)\<rparr>) = (r, s)" for d r s
    using 4 [of d] that assms(1,2) by simp
  have "keeps_below p b st (fst (snd (filedebug_write h buf n (st, pos))))"
    using same_keeps [OF 1] same_keeps [OF 2] same_keeps [OF 3] assms(1,2)
    by (auto simp: filedebug_write_def Let_def rbind_def st1_def [symmetric] st2_def [symmetric] st3_def [symmetric]
        same_keeps split: prod.splits sum.splits if_splits dest!: 5)
  with assms(4) show ?thesis by (auto simp: keeps_below_def)
qed

definition faulty_host :: host where
  "faulty_host = ok_host\<lparr>fault := (\<lambda>op. op = Op_open (1, 0, SUFFIX_RECORD))\<rparr>"

theorem filedebug_write_keeps_earlier_blocks_witness:
  "files (dir (fst (snd (filedebug_write faulty_host (Some [1]) 1 (blank_tape, pos0))))) (0, 0, SUFFIX_EOD) = Some []"
  using filedebug_write_keeps_earlier_blocks [of blank_tape 1 0 0 0 faulty_host "Some [1]" 1 pos0 SUFFIX_EOD]
  by (simp add: blank_tape_def U64_def)

section \<open>Loading\<close>

text \<open>
  The search stops at the first block \<open>n\<close> that is not a record or a file mark, or that carries the
  end-of-data mark.
\<close>

lemma search_eod_loop_finds:
  assumes h: "host_ok h" and n: "n + 1 < U64"
    and below: "\<forall>b<n. (files (dir st) (p, b, SUFFIX_RECORD) \<noteq> None \<or> files (dir st) (p, b, SUFFIX_FILEMARK) \<noteq> None) \<and>
      files (dir st) (p, b, SUFFIX_EOD) = None"
    and at: "files (dir st) (p, n, SUFFIX_RECORD) = None" "files (dir st) (p, n, SUFFIX_FILEMARK) = None"
    and st: "cur_partition st = p" "cur_block st \<le> n"
    and f: "f0 \<or> f1"
  shows "search_eod_loop h f0 f1 False st = Some (Inr (files (dir st) (p, n, SUFFIX_EOD) \<noteq> None), st\<lparr>cur_block := n + 1\<rparr>)"
  using below at st f
proof (induction "n - cur_block st" arbitrary: st f0 f1)
  case 0
  then have b: "cur_block st = n" by simp
  have stop: "search_eod_loop h False False f2 st' = Some (Inr f2, st')" for f2 st'
    by (subst search_eod_loop.simps) simp
  from 0 b show ?case
    using h n by (subst search_eod_loop.simps) (simp add: check_file_ok stop add64_exact)
next
  case (Suc d)
  let ?b = "cur_block st" and ?st = "st\<lparr>cur_block := cur_block st + 1\<rparr>"
  have b: "?b < n" using Suc.hyps(2) by simp
  have "search_eod_loop h (files (dir st) (p, ?b, SUFFIX_RECORD) \<noteq> None) (files (dir st) (p, ?b, SUFFIX_FILEMARK) \<noteq> None) False ?st
      = Some (Inr (files (dir ?st) (p, n, SUFFIX_EOD) \<noteq> None), ?st\<lparr>cur_block := n + 1\<rparr>)"
    by (rule Suc.hyps(1)) (use Suc.hyps(2) Suc.prems b in auto)
  moreover have "files (dir st) (p, ?b, SUFFIX_EOD) = None" using Suc.prems(1) b by simp
  ultimately show ?case
    using h n b Suc.prems(4,6)
    by (subst search_eod_loop.simps) (simp add: check_file_ok add64_exact)
qed

lemma search_eod_good:
  assumes h: "host_ok h" and ok: "part_ok (files (dir st)) p n" and n: "n + 1 < U64"
  shows "\<exists>st'. filedebug_search_eod h p st = Some (Inr (), st') \<and>
    part_ok (files (dir st')) p n \<and> (\<forall>q c x. q \<noteq> p \<longrightarrow> files (dir st') (q, c, x) = files (dir st) (q, c, x)) \<and>
    (\<forall>b. rec_at (files (dir st')) p b = rec_at (files (dir st)) p b) \<and>
    eod st' = (eod st)(p := n) \<and> last_block st' = (last_block st)(p := sub64 n 1) \<and> ready st' = ready st \<and>
    max_block_size st' = max_block_size st \<and> attrs (dir st') = attrs (dir st)"
proof -
  let ?start = "st\<lparr>cur_partition := p, cur_block := 0\<rparr>"
  let ?st = "st\<lparr>cur_partition := p, cur_block := n\<rparr>"
  let ?B = "insert n (if eod st p = MISSING_EOD then {} else {n + 1..eod st p})"
  have "search_eod_loop h True True False ?start = Some (Inr True, ?start\<lparr>cur_block := n + 1\<rparr>)"
    using search_eod_loop_finds [OF h n, of ?start p True True] ok by (auto simp: part_ok_def)
  moreover have "sub64 (n + 1) 1 = n" "sub64 (Suc n) (Suc 0) = n" using n by (simp_all add: sub64_exact)
  ultimately have s: "filedebug_search_eod h p st = Some (filedebug_write_eod h ?st)"
    by (simp add: filedebug_search_eod_def Let_def)
  have w: "filedebug_write_eod h ?st = (Inr (), (set_file (p, n, SUFFIX_EOD) (Some []) (clear_set p ?B ?st))
      \<lparr>last_block := (last_block st)(p := sub64 n 1), eod := (eod st)(p := n)\<rparr>)"
    using write_eod_ok [OF h, of ?st] n by simp
  have "part_ok ((files (dir (clear_set p ?B ?st)))((p, n, SUFFIX_EOD) := Some [])) p n"
    using ok by (auto simp: part_ok_def)
  moreover have "rec_at ((files (dir (clear_set p ?B ?st)))((p, n, SUFFIX_EOD) := Some [])) p b = rec_at (files (dir st)) p b" for b
  proof -
    have "\<forall>b\<ge>n. files (dir st) (p, b, SUFFIX_RECORD) = None" using ok by (auto simp: part_ok_def le_less)
    then show ?thesis by (auto simp: rec_at_def)
  qed
  ultimately show ?thesis
    unfolding s w by (simp del: fun_upd_apply) (simp add: fun_upd_apply)
qed

lemma length_4: "length xs = 4 \<Longrightarrow> \<exists>a b c d. xs = [a, b, c, d]"
  by (auto simp: eval_nat_numeral length_Suc_conv)

lemma get_wp_ok:
  assumes "host_ok h"
  shows "\<exists>wp at. get_wp h st = (Inr wp, st\<lparr>dir := (dir st)\<lparr>attrs := at\<rparr>\<rparr>)"
proof (cases "attrs (dir st) (0, unat TC_MAM_PAGE_VCR)")
  case None
  with assms show ?thesis
    by (auto simp: get_wp_def filedebug_read_attribute_def set_wp_ok set_attr_def)
next
  case (Some c)
  let ?c = "take 9 c"
  have "\<exists>a b d e r. drop 5 (?c @ replicate (9 - length ?c) 0) = a # b # d # e # r"
  proof -
    have "length (drop 5 (?c @ replicate (9 - length ?c) 0)) = 4" by auto
    then show ?thesis using length_4 by blast
  qed
  then obtain w where "ltfs_betou32 (drop 5 (?c @ replicate (9 - length ?c) 0)) = Some w" by fastforce
  then have "get_wp h st = (Inr (unat w), st\<lparr>dir := (dir st)\<lparr>attrs := attrs (dir st)\<rparr>\<rparr>)"
    using Some assms by (simp add: get_wp_def filedebug_read_attribute_def)
  then show ?thesis by blast
qed

text \<open>
  Loading a directory whose two partitions hold blocks followed by an end-of-data mark succeeds: the
  search for the end of data ends, the tape is the one in the directory, and the head is at the
  beginning of partition 0.
\<close>

theorem filedebug_load_finds_tape:
  assumes "host_ok h" and "\<not> ready st" and "filename st = None"
    and "part_ok (files (dir st)) 0 n0" and "part_ok (files (dir st)) 1 n1" and "n0 < MISSING_EOD" and "n1 < MISSING_EOD"
  shows "\<exists>st' pos'. filedebug_load h (st, pos) = Some (Inr (), st', pos') \<and> fd_ok st' \<and> fd_head st' = (0, 0) \<and>
    pos_partition pos' = 0 \<and> pos_block pos' = 0 \<and>
    fd_tape st' 0 = map (rec_at (files (dir st)) 0) [0..<n0] \<and> fd_tape st' 1 = map (rec_at (files (dir st)) 1) [0..<n1]"
proof -
  have n: "n0 + 1 < U64" "n1 + 1 < U64" using assms(6,7) by (simp_all add: MISSING_EOD_def)
  let ?st = "st\<lparr>ready := True\<rparr>"
  obtain st1 where 1: "filedebug_search_eod h 0 ?st = Some (Inr (), st1)" "part_ok (files (dir st1)) 0 n0"
      "\<forall>q c x. q \<noteq> 0 \<longrightarrow> files (dir st1) (q, c, x) = files (dir st) (q, c, x)"
      "\<forall>b. rec_at (files (dir st1)) 0 b = rec_at (files (dir st)) 0 b"
      "eod st1 = (eod st)(0 := n0)" "last_block st1 = (last_block st)(0 := sub64 n0 1)" "ready st1"
    using search_eod_good [OF assms(1), of ?st 0 n0] assms(4) n by auto
  have "part_ok (files (dir st1)) 1 n1" using assms(5) 1(3) by (simp add: part_ok_def)
  then obtain st2 where 2: "filedebug_search_eod h 1 st1 = Some (Inr (), st2)" "part_ok (files (dir st2)) 1 n1"
      "\<forall>q c x. q \<noteq> 1 \<longrightarrow> files (dir st2) (q, c, x) = files (dir st1) (q, c, x)"
      "\<forall>b. rec_at (files (dir st2)) 1 b = rec_at (files (dir st1)) 1 b"
      "eod st2 = (eod st1)(1 := n1)" "last_block st2 = (last_block st1)(1 := sub64 n1 1)" "ready st2"
    using search_eod_good [OF assms(1), of st1 1 n1] n 1(7) by auto
  let ?st2 = "st2\<lparr>cur_partition := 0, cur_block := 0, cur_filemarks := 0, partitions := MAX_PARTITIONS\<rparr>"
  obtain wp at where wp: "get_wp h ?st2 = (Inr wp, ?st2\<lparr>dir := (dir st2)\<lparr>attrs := at\<rparr>\<rparr>)"
    using get_wp_ok [OF assms(1), of ?st2] by auto
  let ?st' = "?st2\<lparr>dir := (dir st2)\<lparr>attrs := at\<rparr>, write_pass_prev := wp, write_pass := wp\<rparr>"
  have l: "filedebug_load h (st, pos) = Some (Inr (), ?st', pos\<lparr>pos_partition := 0, pos_block := 0, pos_filemarks := 0\<rparr>)"
    using assms(2,3) 1(1) 2(1) wp by (simp add: filedebug_load_def load_medium_def Let_def)
  have p0: "part_ok (files (dir st2)) 0 n0" using 1(2) 2(3) by (simp add: part_ok_def)
  have lt: "(p::nat) < 2 \<longleftrightarrow> p = 0 \<or> p = 1" for p by auto
  have "fd_ok ?st'"
    using p0 2 1 assms(6,7) by (auto simp: fd_ok_def lt)
  moreover have "rec_at (files (dir st2)) 0 b = rec_at (files (dir st)) 0 b" "rec_at (files (dir st2)) 1 b = rec_at (files (dir st)) 1 b" for b
    using 1(3,4) 2(3,4) by (simp_all add: rec_at_def)
  ultimately show ?thesis
    using l 1(5) 2(5) by (simp add: fd_tape_def fd_head_def)
qed

theorem filedebug_load_finds_tape_witness:
  "\<exists>st' pos'. filedebug_load ok_host (blank_tape\<lparr>ready := False\<rparr>, pos0) = Some (Inr (), st', pos') \<and> fd_ok st'"
  using filedebug_load_finds_tape [of ok_host "blank_tape\<lparr>ready := False\<rparr>" 0 0 pos0]
  by (auto simp: blank_tape_def part_ok_def MISSING_EOD_def U64_def)

section \<open>Spacing over file marks\<close>

text \<open>How many records to pass to have passed \<open>n\<close> file marks.\<close>

fun skip_fm :: "trec list \<Rightarrow> nat \<Rightarrow> nat option" where
  "skip_fm rs 0 = Some 0"
| "skip_fm [] (Suc n) = None"
| "skip_fm (r # rs) (Suc n) = map_option Suc (skip_fm rs (if r = Filemark then n else Suc n))"

lemma fd_filemark_file:
  assumes "fd_ok st" and "p < 2" and "b < eod st p"
  shows "(files (dir st) (p, b, SUFFIX_FILEMARK) \<noteq> None) = (fd_tape st p ! b = Filemark)"
proof -
  have "(files (dir st) (p, b, SUFFIX_RECORD) = None) = (files (dir st) (p, b, SUFFIX_FILEMARK) \<noteq> None)"
    using assms by (simp add: fd_ok_def part_ok_def)
  then show ?thesis using assms by (auto simp: fd_tape_nth rec_at_def split: option.splits)
qed

lemma space_fm_forward:
  assumes h: "host_ok h" and ok: "fd_ok st" and k: "k < count" "count < U64"
    and p: "p = cur_partition st" and b: "b = cur_block st"
  shows "space_fm_loop h count False k st = Some (case skip_fm (drop b (fd_tape st p)) (count - k) of
      Some j \<Rightarrow> (Inr (), st\<lparr>cur_block := b + j\<rparr>) | None \<Rightarrow> (Inl EDEV_EOD_DETECTED, st\<lparr>cur_block := eod st p\<rparr>))"
  using ok k p b
proof (induction "eod st p - b" arbitrary: b k st)
  case 0
  then have "b = eod st p" "drop b (fd_tape st p) = []" by (auto simp: fd_ok_def)
  moreover obtain c where "count - k = Suc c" using 0 by (cases "count - k") auto
  ultimately show ?case using 0 by (subst space_fm_loop.simps) simp
next
  case (Suc d)
  have b: "b < eod st p" "p < 2" "last_block st p = sub64 (eod st p) 1" "eod st p < MISSING_EOD"
    using Suc by (auto simp: fd_ok_def)
  then have l: "add64 (last_block st p) 1 = eod st p"
    by (auto simp: sub64_exact add64_exact MISSING_EOD_def)
  have b1: "add64 b 1 = b + 1" using b by (simp add: add64_exact MISSING_EOD_def)
  let ?fm = "fd_tape st p ! b = Filemark"
  let ?k = "if ?fm then k + 1 else k"
  have fm: "(files (dir st) (p, b, SUFFIX_FILEMARK) \<noteq> None) = ?fm"
    using fd_filemark_file [OF Suc.prems(1)] b by simp
  have dr: "drop b (fd_tape st p) = fd_tape st p ! b # drop (b + 1) (fd_tape st p)"
    using b by (simp add: Cons_nth_drop_Suc)
  obtain c where c: "count - k = Suc c" using Suc.prems(2) by (cases "count - k") auto
  have k1: "add64 k 1 = k + 1" using Suc.prems by (simp add: add64_exact)
  let ?st = "st\<lparr>cur_block := b + 1\<rparr>"
  have step: "space_fm_loop h count False k st = (if ?fm \<and> k + 1 = count then Some (Inr (), ?st)
      else space_fm_loop h count False ?k ?st)"
    using h Suc.prems b l b1 k1 fm by (subst space_fm_loop.simps) (simp add: check_file_ok Let_def)
  show ?case
  proof (cases "?fm \<and> k + 1 = count")
    case True
    then have "c = 0" using c by auto
    then show ?thesis using True step c dr by simp
  next
    case False
    have ok': "fd_ok ?st" "fd_tape ?st = fd_tape st"
      using Suc.prems b by (auto simp: fd_ok_def fd_tape_def fun_eq_iff)
    have "space_fm_loop h count False ?k ?st = Some (case skip_fm (drop (b + 1) (fd_tape ?st p)) (count - ?k) of
        Some j \<Rightarrow> (Inr (), ?st\<lparr>cur_block := b + 1 + j\<rparr>) | None \<Rightarrow> (Inl EDEV_EOD_DETECTED, ?st\<lparr>cur_block := eod ?st p\<rparr>))"
      by (rule Suc.hyps(1)) (use Suc.hyps(2) Suc.prems ok' False in auto)
    moreover have "count - ?k = (if ?fm then c else Suc c)" using c by auto
    ultimately show ?thesis
      using False step c dr ok' by (auto split: option.splits)
  qed
qed

text \<open>
  Spacing forward over \<open>n\<close> file marks always ends: right behind the \<open>n\<close>-th file mark after the
  position if there are so many, and otherwise with \<open>EDEV_EOD_DETECTED\<close> at the end of data.
\<close>

theorem filedebug_space_fm_forward:
  assumes "host_ok h" and "fd_ok st" and "0 < n" and "n < U64"
  shows "filedebug_space_fm h n False st =
    Some (case skip_fm (drop (cur_block st) (fd_tape st (cur_partition st))) n of
      Some j \<Rightarrow> (Inr (), st\<lparr>cur_block := cur_block st + j\<rparr>)
    | None \<Rightarrow> (Inl EDEV_EOD_DETECTED, st\<lparr>cur_block := length (fd_tape st (cur_partition st))\<rparr>))"
proof -
  have "length (fd_tape st (cur_partition st)) = eod st (cur_partition st)"
    using assms(2) by (simp add: fd_ok_def)
  then show ?thesis
    using space_fm_forward [OF assms(1,2) assms(3,4) refl refl] assms(3)
    by (simp add: filedebug_space_fm_def split: option.splits)
qed

theorem filedebug_space_fm_forward_witness:
  "filedebug_space_fm ok_host 1 False blank_tape = Some (Inl EDEV_EOD_DETECTED, blank_tape)"
  using filedebug_space_fm_forward [OF ok_host_ok blank_tape_ok, of 1]
  by (simp add: U64_def) (simp add: blank_tape_def fd_tape_def)

section \<open>A partition without an end-of-data mark\<close>

text \<open>
  When the end-of-data mark of a partition of \<open>n\<close> blocks is missing, the search records \<open>n\<close> as its last
  block although the last block is \<open>n - 1\<close>; locating past the end then positions at block \<open>n + 1\<close>, one
  block behind the first free block.
\<close>

theorem filedebug_missing_eod_off_by_one:
  assumes "host_ok h" and "ready st" and "p < 2" and "0 < n" and "n + 1 < MISSING_EOD"
    and "\<forall>b<n. files (dir st) (p, b, SUFFIX_RECORD) \<noteq> None \<and> files (dir st) (p, b, SUFFIX_EOD) = None"
    and "\<forall>b\<ge>n. \<forall>x. files (dir st) (p, b, x) = None"
  shows "\<exists>st1 st2 pos2. filedebug_search_eod h p st = Some (Inr (), st1) \<and> last_block st1 p = n \<and>
    \<not> filedebug_get_eod_status st1 p \<and>
    filedebug_locate h p TAPE_BLOCK_MAX (st1, pos) = (Inr (), st2, pos2) \<and> cur_block st2 = n + 1"
proof -
  have n: "n + 1 < U64" "n + 2 < U64" using assms(5) by (simp_all add: MISSING_EOD_def)
  have lt: "n < TAPE_BLOCK_MAX" using assms(5) by (simp add: MISSING_EOD_max)
  let ?start = "st\<lparr>cur_partition := p, cur_block := 0\<rparr>"
  have "search_eod_loop h True True False ?start = Some (Inr False, ?start\<lparr>cur_block := n + 1\<rparr>)"
    using search_eod_loop_finds [OF assms(1) n(1), of ?start p True True] assms(6,7) by auto
  moreover have "sub64 (Suc n) (Suc 0) = n" using n by (simp add: sub64_exact)
  ultimately have s: "filedebug_search_eod h p st = Some (Inr (), st\<lparr>cur_partition := p, cur_block := n,
      last_block := (last_block st)(p := n), eod := (eod st)(p := MISSING_EOD)\<rparr>)" (is "_ = Some (_, ?st1)")
    using assms(4) by (simp add: filedebug_search_eod_def Let_def)
  have cnt: "\<exists>m. count_filemarks h q c st' = Inr m" for q c st'
    by (induction c) (use assms(1) in auto)
  obtain m where "count_filemarks h p (n + 1) (?st1\<lparr>cur_partition := p, cur_block := n + 1\<rparr>) = Inr m"
    using cnt by blast
  then have "filedebug_locate h p TAPE_BLOCK_MAX (?st1, pos) =
      (Inr (), (?st1\<lparr>cur_partition := p, cur_block := n + 1\<rparr>)\<lparr>cur_filemarks := m\<rparr>,
       warn (ew_zone (?st1\<lparr>cur_partition := p, cur_block := n + 1\<rparr>)) (pew_zone (?st1\<lparr>cur_partition := p, cur_block := n + 1\<rparr>))
         (pos\<lparr>pos_partition := p, pos_block := n + 1, pos_filemarks := m\<rparr>))"
    using assms(2,3) lt n by (simp add: filedebug_locate_def MAX_PARTITIONS_def Let_def add64_exact)
  with s show ?thesis by (simp add: filedebug_get_eod_status_def)
qed

definition lost_eod :: filedebug_data where
  "lost_eod = blank_tape\<lparr>dir := \<lparr>files = [(0, 0, SUFFIX_RECORD) \<mapsto> [1]], attrs = Map.empty\<rparr>\<rparr>"

theorem filedebug_missing_eod_off_by_one_witness:
  "\<exists>st1 st2 pos2. filedebug_search_eod ok_host 0 lost_eod = Some (Inr (), st1) \<and>
     filedebug_locate ok_host 0 TAPE_BLOCK_MAX (st1, pos0) = (Inr (), st2, pos2) \<and> cur_block st2 = 2"
  using filedebug_missing_eod_off_by_one [of ok_host lost_eod 0 1 pos0]
  by (auto simp: lost_eod_def blank_tape_def MISSING_EOD_def U64_def)

section \<open>Formatting\<close>

text \<open>
  Formatting from the beginning of partition 0 leaves both partitions empty and the drive ready to
  write, with the number of partitions that the format asks for.
\<close>

theorem filedebug_format_empties:
  assumes "host_ok h" and "fd_ok st" and "fd_head st = (0, 0)" and "fmt \<noteq> TC_FORMAT_MAX"
  shows "\<exists>st'. filedebug_format h fmt st = (Inr (), st') \<and> fd_ok st' \<and> fd_head st' = (0, 0) \<and>
    fd_tape st' = (\<lambda>_. []) \<and> partitions st' = (if fmt = TC_FORMAT_DEFAULT then 1 else 2)"
proof -
  have lt: "(p::nat) < 2 \<longleftrightarrow> p = 0 \<or> p = 1" for p by auto
  have ready: "ready st" and no: "\<And>p b x. p < 2 \<Longrightarrow> eod st p < b \<Longrightarrow> files (dir st) (p, b, x) = None"
    and eod: "\<And>p. p < 2 \<Longrightarrow> eod st p \<noteq> MISSING_EOD"
    using assms(2) by (auto simp: fd_ok_def part_ok_def)
  have empty: "fd_ok (erase_all h (st\<lparr>partitions := k\<rparr>)) \<and> fd_head (erase_all h (st\<lparr>partitions := k\<rparr>)) = (0, 0) \<and>
      fd_tape (erase_all h (st\<lparr>partitions := k\<rparr>)) = (\<lambda>_. []) \<and> partitions (erase_all h (st\<lparr>partitions := k\<rparr>)) = k" for k
  proof -
    define s where "s = st\<lparr>partitions := k, cur_partition := 1, cur_block := 0\<rparr>"
    define r where "r = (set_file (1, 0, SUFFIX_EOD) (Some []) (clear_set 1 (insert 0 {1..eod st 1}) s))
      \<lparr>last_block := (last_block st)(1 := sub64 0 1), eod := (eod st)(1 := 0)\<rparr>"
    define s' where "s' = r\<lparr>cur_partition := 0, cur_block := 0\<rparr>"
    define r' where "r' = (set_file (0, 0, SUFFIX_EOD) (Some []) (clear_set 0 (insert 0 {1..eod st 0}) s'))
      \<lparr>last_block := (last_block s')(0 := sub64 0 1), eod := (eod s')(0 := 0)\<rparr>"
    have 1: "filedebug_write_eod h s = (Inr (), r)"
      using write_eod_ok [OF assms(1), of s] eod [of 1] by (simp add: U64_def s_def r_def)
    have 2: "filedebug_write_eod h s' = (Inr (), r')"
      using write_eod_ok [OF assms(1), of s'] eod [of 0] by (simp add: U64_def s'_def r'_def r_def s_def)
    have e: "erase_all h (st\<lparr>partitions := k\<rparr>) = r'"
    proof -
      have "erase_all h (st\<lparr>partitions := k\<rparr>) = snd (filedebug_write_eod h (snd (filedebug_write_eod h s)
          \<lparr>cur_partition := 0, cur_block := 0\<rparr>))"
        using ready by (simp add: erase_all_def filedebug_erase_def Let_def s_def [symmetric] 1 [unfolded s_def] split: prod.splits)
          (simp add: s_def 1 [unfolded s_def, simplified] r_def)
      then show ?thesis by (simp add: 1 2 s'_def [symmetric])
    qed
    have z: "b \<in> insert 0 {1..n}" if "\<not> n < b" for b n :: nat using that by auto
    have "part_ok (files (dir r')) p 0" if "p < 2" for p
      unfolding part_ok_def r'_def s'_def r_def s_def using that no [of 0] no [of 1] z by (auto simp: lt)
    then have "fd_ok r'" using ready by (auto simp: fd_ok_def MISSING_EOD_def U64_def lt r'_def s'_def r_def s_def)
    moreover have "fd_tape r' = (\<lambda>_. [])"
      by (auto simp: fd_tape_def fun_eq_iff lt r'_def s'_def r_def s_def)
    ultimately show ?thesis
      unfolding e by (simp add: fd_head_def set_file_def clear_set_def r'_def s'_def r_def s_def)
  qed
  then show ?thesis
    using assms(3,4) by (cases fmt) (auto simp: filedebug_format_def fd_head_def)
qed

theorem filedebug_format_empties_witness:
  "\<exists>st'. filedebug_format ok_host TC_FORMAT_DEST_PART (blank_tape\<lparr>cur_partition := 0\<rparr>) = (Inr (), st') \<and> fd_ok st' \<and> partitions st' = 2"
proof -
  have "fd_ok (blank_tape\<lparr>cur_partition := 0\<rparr>)"
    using blank_tape_ok by (simp add: fd_ok_def blank_tape_def)
  from filedebug_format_empties [OF ok_host_ok this, of TC_FORMAT_DEST_PART] show ?thesis
    by (auto simp: fd_head_def blank_tape_def)
qed

end
