(* ===== verification/Ltfs_Tape_File.thy ===== *)
theory Ltfs_Tape_File
  imports Ltfs_Tape Ltfs_Filedebug
begin

text \<open>
  The tape layer on the file backend: the driver table that \<^verbatim>\<open>filedebug_tc.c\<close> exports
  (\<^verbatim>\<open>filedebug_handler\<close>), the proof that it satisfies the contract of \<open>tape_device\<close>, and the
  properties of the tape layer that follow, stated over the model of both components.
\<close>

section \<open>The driver table\<close>

definition filedebug_handler :: "filedebug_data tape_ops" where
  "filedebug_handler = \<lparr>
     op_test_unit_ready = filedebug_test_unit_ready,
     op_read = (\<lambda>n unusual_size. filedebug_read ok_host n),
     op_write = (\<lambda>buf. filedebug_write ok_host (Some buf) (length buf)),
     op_writefm = filedebug_writefm ok_host,
     op_rewind = filedebug_rewind,
     op_locate = filedebug_locate ok_host,
     op_space = filedebug_space ok_host,
     op_readpos = filedebug_readpos,
     op_reserve_unit = filedebug_reserve_unit,
     op_release_unit = filedebug_release_unit,
     op_prevent_medium_removal = filedebug_prevent_medium_removal,
     op_allow_medium_removal = filedebug_allow_medium_removal,
     op_read_attribute = filedebug_read_attribute ok_host,
     op_write_attribute = filedebug_write_attribute ok_host,
     op_allow_overwrite = (\<lambda>_ st. (Inr (), st)),
     op_get_parameters = (\<lambda>st. Inr (filedebug_get_parameters st)),
     op_update_mam_attr = None\<rparr>"

section \<open>Attributes\<close>

lemma write_attribute_loop_frame:
  "eod (snd (write_attribute_loop h part buf i st)) = eod st \<and>
   last_block (snd (write_attribute_loop h part buf i st)) = last_block st \<and>
   ready (snd (write_attribute_loop h part buf i st)) = ready st \<and>
   filedebug_data.max_block_size (snd (write_attribute_loop h part buf i st)) = filedebug_data.max_block_size st"
proof (induction h part buf i st rule: write_attribute_loop.induct)
  case (1 h part buf i st)
  have a: "eod (set_attr k c st) = eod st" "last_block (set_attr k c st) = last_block st"
    "ready (set_attr k c st) = ready st" "filedebug_data.max_block_size (set_attr k c st) = filedebug_data.max_block_size st" for k c
    by (simp_all add: set_attr_def)
  show ?case
    using 1 by (subst (1 2 3 4) write_attribute_loop.simps) (auto simp: a Let_def split: option.splits)
qed

lemma filedebug_attribute_keeps:
  assumes "snd (filedebug_write_attribute h part buf st) = st'"
  shows "fd_ok st' = fd_ok st \<and> fd_tape st' = fd_tape st \<and> fd_head st' = fd_head st \<and>
    filedebug_data.max_block_size st' = filedebug_data.max_block_size st"
proof -
  have f: "files (dir st') = files (dir st)" "eod st' = eod st" "last_block st' = last_block st"
      "cur_partition st' = cur_partition st" "cur_block st' = cur_block st" "ready st' = ready st"
      "filedebug_data.max_block_size st' = filedebug_data.max_block_size st"
    using assms write_attribute_loop_files [of h part buf 0 st] write_attribute_loop_frame [of h part buf 0 st]
    by (auto simp: filedebug_write_attribute_def)
  then show ?thesis using fd_ok_cong [OF f(1-6)] by simp
qed

lemma filedebug_attribute_roundtrip:
  assumes "host_ok h" and i: "ltfs_betou16 buf = Some i" and sz: "ltfs_betou16 (drop 3 buf) = Some sz"
    and len: "length buf = unat sz + 5"
  shows "\<exists>st'. filedebug_write_attribute h part buf st = (Inr (), st') \<and>
    filedebug_read_attribute h part (unat i) (length buf) st' = Inr buf"
proof -
  have stop: "write_attribute_loop h part buf (unat sz + 5) st' = (Inr (), st')" for st'
    using len by (subst write_attribute_loop.simps) simp
  have "filedebug_write_attribute h part buf st = (Inr (), set_attr (part, unat i) buf st)"
    unfolding filedebug_write_attribute_def
    using assms(1) i sz len by (subst write_attribute_loop.simps) (simp add: stop Let_def host_okD(2))
  then show ?thesis
    using assms(1) by (simp add: filedebug_read_attribute_def set_attr_def)
qed

interpretation fdev: tape_device fd_ok fd_tape fd_head filedebug_data.max_block_size filedebug_handler
proof -
  have ops: "op_write filedebug_handler = fd_write" "op_writefm filedebug_handler = filedebug_writefm ok_host"
    "(\<lambda>n. op_read filedebug_handler n False) = filedebug_read ok_host" "op_locate filedebug_handler = filedebug_locate ok_host"
    by (simp_all add: filedebug_handler_def fd_write_def [abs_def])
  show "tape_device fd_ok fd_tape fd_head filedebug_data.max_block_size filedebug_handler"
    unfolding tape_device_def ops
  proof (intro conjI tape_device_axioms.intro)
    show "tape_driver fd_ok fd_tape fd_head filedebug_data.max_block_size fd_write (filedebug_writefm ok_host)
        (filedebug_read ok_host) (filedebug_locate ok_host)"
      by (rule fd.tape_driver_axioms)
    fix buf :: "byte list" and i sz part st
    assume "ltfs_betou16 buf = Some i" "ltfs_betou16 (drop 3 buf) = Some sz" "length buf = unat sz + 5"
    from filedebug_attribute_roundtrip [OF ok_host_ok this]
    show "\<exists>s'. op_write_attribute filedebug_handler part buf st = (Inr (), s') \<and>
        op_read_attribute filedebug_handler part (unat i) (length buf) s' = Inr buf"
      by (simp add: filedebug_handler_def)
  qed (simp_all add: filedebug_handler_def filedebug_attribute_keeps)
qed

section \<open>Properties of the tape layer\<close>

abbreviation fdev_ok :: "filedebug_data device_data \<Rightarrow> bool" where
  "fdev_ok \<equiv> in_step fd_ok fd_head"

abbreviation dev_tape :: "filedebug_data device_data \<Rightarrow> tape" where
  "dev_tape dev \<equiv> fd_tape (backend_data dev)"

definition blank_device :: "filedebug_data device_data" where
  "blank_device = \<lparr>position = pos0, append_pos = (\<lambda>_. 0), device_data.max_block_size = 4194304,
     partition_space = (\<lambda>_. PART_WRITABLE), dev_write_protect = False, write_error = False,
     device_data.device_reserved = False, device_data.medium_locked = False, fence = False, append_only_mode = False,
     previous_exist = (0, 0), backend_data = blank_tape\<rparr>"

lemma blank_device_ok: "fdev_ok blank_device"
  using blank_tape_ok by (simp add: in_step_def blank_device_def pos0_def fd_head_def) (simp add: blank_tape_def)

text \<open>
  Seeking to a block of the tape, or to the end of data with the largest block number, always ends
  there: the head and the position that the layer keeps agree, and the tape is unchanged.
\<close>

theorem tape_seek_reaches_block:
  assumes "fdev_ok dev" and "prt < 2" and "length (dev_tape dev prt) < TAPE_BLOCK_MAX"
    and "blk \<le> length (dev_tape dev prt) \<or> blk = TAPE_BLOCK_MAX"
  shows "\<exists>dev'. tape_seek filedebug_handler prt blk dev = (Inr (), dev') \<and> fdev_ok dev' \<and>
    dev_tape dev' = dev_tape dev \<and> pos_partition (position dev') = prt \<and>
    pos_block (position dev') = min blk (length (dev_tape dev prt))"
  using fdev.seek_ok [OF assms] by blast

theorem tape_seek_reaches_block_witness:
  "\<exists>dev'. tape_seek filedebug_handler 0 TAPE_BLOCK_MAX blank_device = (Inr (), dev') \<and>
     pos_partition (position dev') = 0 \<and> pos_block (position dev') = 0"
proof -
  have "dev_tape blank_device 0 = []" by (simp add: blank_device_def blank_tape_def fd_tape_def)
  then show ?thesis
    using tape_seek_reaches_block [OF blank_device_ok, of 0 TAPE_BLOCK_MAX] by (auto simp: TAPE_BLOCK_MAX_def U64_def)
qed

text \<open>
  C29. Seeking to the append position and writing a block there, with the out-of-space conditions
  ignored as for an index, makes the block the last one of its partition: behind the end of data
  when no append position is recorded, else in place of everything from the recorded position on.
  The append position moves behind the block.
\<close>

theorem tape_write_at_append_position:
  assumes "fdev_ok dev" and "prt < 2" and "length (dev_tape dev prt) + 2 < TAPE_BLOCK_MAX"
    and "append_pos dev prt \<le> length (dev_tape dev prt)" and "\<not> append_only_mode dev"
    and "\<not> dev_write_protect dev" and "\<not> write_error dev" and "0 < length buf" and "length buf \<le> device_data.max_block_size dev"
    and "length buf \<le> filedebug_data.max_block_size (backend_data dev)"
  shows "let b = (if append_pos dev prt = 0 then length (dev_tape dev prt) else append_pos dev prt) in
    \<exists>dev'. rbind (tape_seek_append_position filedebug_handler prt True dev) (\<lambda>_. tape_write filedebug_handler buf True True)
      = (Inr (length buf), dev') \<and> fdev_ok dev' \<and>
    dev_tape dev' = (dev_tape dev)(prt := take b (dev_tape dev prt) @ [Data buf]) \<and>
    append_pos dev' = (append_pos dev)(prt := b + 1)"
proof -
  define b where "b = (if append_pos dev prt = 0 then length (dev_tape dev prt) else append_pos dev prt)"
  have le: "b \<le> length (dev_tape dev prt)" using assms(4) by (simp add: b_def)
  obtain dev1 where 1: "tape_seek_append_position filedebug_handler prt True dev = (Inr (), dev1)" "fdev_ok dev1"
      "dev_tape dev1 = dev_tape dev" "filedebug_data.max_block_size (backend_data dev1) = filedebug_data.max_block_size (backend_data dev)"
      "pos_partition (position dev1) = prt" "pos_block (position dev1) = b" "append_pos dev1 = (append_pos dev)(prt := b)"
      "write_error dev1 = write_error dev" "dev_write_protect dev1 = dev_write_protect dev"
      "device_data.max_block_size dev1 = device_data.max_block_size dev"
    using fdev.seek_append_ok [OF assms(1,2) _ assms(4), of True] assms(3,5) unfolding b_def by auto
  obtain r dev2 where 2: "tape_write filedebug_handler buf True True dev1 = (r, dev2)" "fdev_ok dev2"
      "dev_tape dev2 = (dev_tape dev)(prt := take b (dev_tape dev prt) @ [Data buf])"
      "append_pos dev2 = (append_pos dev)(prt := b + 1)" "r = Inr (length buf)"
    using fdev.write_ok [OF 1(2), of True True buf] 1(3-) le assms(3,6-10) by auto
  show ?thesis
    using 1(1) 2 unfolding b_def [symmetric] by simp
qed

theorem tape_write_at_append_position_witness:
  "\<exists>dev'. rbind (tape_seek_append_position filedebug_handler 1 True blank_device)
       (\<lambda>_. tape_write filedebug_handler [7, 8] True True) = (Inr 2, dev') \<and> dev_tape dev' 1 = [Data [7, 8]]"
proof -
  have "dev_tape blank_device 1 = []" by (simp add: blank_device_def blank_tape_def fd_tape_def)
  moreover have "append_pos blank_device 1 = 0" "\<not> append_only_mode blank_device" "\<not> dev_write_protect blank_device"
    "\<not> write_error blank_device" "device_data.max_block_size blank_device = 4194304"
    "filedebug_data.max_block_size (backend_data blank_device) = 16777216"
    by (simp_all add: blank_device_def blank_tape_def)
  ultimately show ?thesis
    using tape_write_at_append_position [OF blank_device_ok, of 1 "[7, 8]"]
    by (auto simp: TAPE_BLOCK_MAX_def U64_def)
qed

text \<open>
  A write that reports an out-of-space error is on the tape nevertheless: on a partition that was
  writable, \<^verbatim>\<open>tape_write\<close> always appends the block and moves the append position, and an error result
  says only that the partition has just entered a warning zone, which it records.
\<close>

theorem tape_write_error_after_append:
  assumes "fdev_ok dev" and "pos_block (position dev) + 2 < TAPE_BLOCK_MAX"
    and "\<not> dev_write_protect dev" and "\<not> write_error dev"
    and "partition_space dev (pos_partition (position dev)) = PART_WRITABLE"
    and "0 < length buf" and "length buf \<le> device_data.max_block_size dev"
    and "length buf \<le> filedebug_data.max_block_size (backend_data dev)"
  shows "let p = pos_partition (position dev); n = pos_block (position dev) in
    \<exists>r dev'. tape_write filedebug_handler buf ignore_less ignore_nospc dev = (r, dev') \<and> fdev_ok dev' \<and>
    dev_tape dev' = (dev_tape dev)(p := take n (dev_tape dev p) @ [Data buf]) \<and> append_pos dev' = (append_pos dev)(p := n + 1) \<and>
    (r = Inr (length buf) \<or>
     r = Inl LTFS_NO_SPACE \<and> partition_space dev' p = PART_NO_SPACE \<or>
     r = Inl LTFS_LESS_SPACE \<and> partition_space dev' p = PART_LESS_SPACE)"
proof -
  have "partition_space dev (pos_partition (position dev)) = PART_NO_SPACE \<Longrightarrow> ignore_nospc"
    "partition_space dev (pos_partition (position dev)) = PART_LESS_SPACE \<Longrightarrow> ignore_less"
    using assms(5) by simp_all
  from fdev.write_ok [OF assms(1-4) this assms(6-8)] show ?thesis
    unfolding Let_def by blast
qed

theorem tape_write_error_after_append_witness:
  "\<exists>r dev'. tape_write filedebug_handler [7] False False (blank_device\<lparr>backend_data := blank_tape\<lparr>p1_warning := 1\<rparr>\<rparr>) = (r, dev') \<and>
     dev_tape dev' 1 = [Data [7]]"
proof -
  let ?dev = "blank_device\<lparr>backend_data := blank_tape\<lparr>p1_warning := 1\<rparr>\<rparr>"
  have f: "files (dir (blank_tape\<lparr>p1_warning := 1\<rparr>)) = files (dir blank_tape)" "eod (blank_tape\<lparr>p1_warning := 1\<rparr>) = eod blank_tape"
    "last_block (blank_tape\<lparr>p1_warning := 1\<rparr>) = last_block blank_tape" "cur_partition (blank_tape\<lparr>p1_warning := 1\<rparr>) = cur_partition blank_tape"
    "cur_block (blank_tape\<lparr>p1_warning := 1\<rparr>) = cur_block blank_tape" "ready (blank_tape\<lparr>p1_warning := 1\<rparr>) = ready blank_tape"
    by simp_all
  have "fdev_ok ?dev"
    using blank_tape_ok fd_ok_cong [OF f] by (simp add: in_step_def blank_device_def pos0_def fd_head_def) (simp add: blank_tape_def)
  moreover have "dev_tape ?dev 1 = []" "pos_block (position ?dev) = 0" "pos_partition (position ?dev) = 1"
    "\<not> dev_write_protect ?dev" "\<not> write_error ?dev" "partition_space ?dev 1 = PART_WRITABLE"
    "device_data.max_block_size ?dev = 4194304" "filedebug_data.max_block_size (backend_data ?dev) = 16777216"
    by (simp_all add: blank_device_def blank_tape_def fd_tape_def pos0_def)
  ultimately show ?thesis
    using tape_write_error_after_append [of ?dev "[7]" False False]
    by (auto simp: TAPE_BLOCK_MAX_def U64_def)
qed

text \<open>
  A block that the driver rejects with an error other than a pending revalidation stops all writing:
  the error is returned, and every later \<^verbatim>\<open>tape_write\<close> and \<^verbatim>\<open>tape_write_filemark\<close> on the device returns
  \<open>LTFS_WRITE_ERROR\<close> without touching the device or the driver. This holds for every driver.
\<close>

theorem write_error_refuses_writes:
  assumes "op_write ops buf (backend_data dev, position dev) = (Inl e, s, pos)" and "\<not> NEED_REVAL e"
    and "\<not> dev_write_protect dev" and "\<not> write_error dev" and "length buf \<le> device_data.max_block_size dev"
    and "partition_space dev (pos_partition (position dev)) = PART_WRITABLE"
  shows "\<exists>dev'. tape_write ops buf il ins dev = (Inl e, dev') \<and> backend_data dev' = s \<and>
    tape_write ops buf2 il2 ins2 dev' = (Inl LTFS_WRITE_ERROR, dev') \<and>
    tape_write_filemark ops n il2 ins2 dev' = (Inl LTFS_WRITE_ERROR, dev')"
  using assms by (simp add: tape_write_def tape_write_filemark_def on_pos_def Let_def)

theorem write_error_refuses_writes_witness:
  "\<exists>dev'. tape_write filedebug_handler [1] False False (blank_device\<lparr>backend_data := blank_tape\<lparr>ready := False\<rparr>\<rparr>)
       = (Inl EDEV_NOT_READY, dev') \<and>
     tape_write filedebug_handler [2] True True dev' = (Inl LTFS_WRITE_ERROR, dev')"
proof -
  let ?dev = "blank_device\<lparr>backend_data := blank_tape\<lparr>ready := False\<rparr>\<rparr>"
  have "op_write filedebug_handler [1] (backend_data ?dev, position ?dev) = (Inl EDEV_NOT_READY, backend_data ?dev, position ?dev)"
    by (simp add: filedebug_handler_def filedebug_write_def)
  then show ?thesis
    using write_error_refuses_writes [of filedebug_handler "[1]" ?dev EDEV_NOT_READY "backend_data ?dev" "position ?dev"
        False False "[2]" True True 1]
    by (auto simp: NEED_REVAL_def blank_device_def)
qed

text \<open>
  C35. The cartridge coherency data that is stored in the cartridge memory of a partition is read back
  unchanged: every field of the attribute is written at the offset and in the byte order in which it is
  read.
\<close>

theorem cart_coherency_roundtrip:
  assumes "length (uuid coh) = 37"
  shows "\<exists>dev'. tape_set_cart_coherency filedebug_handler part coh dev = (Inr (), dev') \<and>
    tape_get_cart_coherency filedebug_handler part dev' = Inr coh"
  using assms by (rule fdev.coherency_ok)

theorem cart_coherency_roundtrip_witness:
  "let coh = \<lparr>volume_change_ref = 1, count = 2, set_id = 3, uuid = replicate 37 65, version = 1\<rparr> in
   \<exists>dev'. tape_set_cart_coherency filedebug_handler 0 coh blank_device = (Inr (), dev') \<and>
     tape_get_cart_coherency filedebug_handler 0 dev' = Inr coh"
  using cart_coherency_roundtrip [of "\<lparr>volume_change_ref = 1, count = 2, set_id = 3, uuid = replicate 37 65, version = 1\<rparr>" 0 blank_device]
  by simp

text \<open>
  Once the device is fenced, every attempt to lock it fails with \<open>LTFS_DEVICE_FENCED\<close> until the fence
  is released (and not with \<open>LTFS_REVAL_RUNNING\<close>, which the comment of \<^verbatim>\<open>tape_start_fence\<close> promises).
\<close>

theorem fence_blocks_lock:
  "tape_device_lock True (tape_start_fence dev) = Inl LTFS_DEVICE_FENCED \<and>
   tape_device_lock True (tape_release_fence dev) = Inr () \<and>
   tape_device_lock mutex_ok (tape_start_fence dev) \<noteq> Inl LTFS_REVAL_RUNNING"
  by (simp add: tape_device_lock_def tape_start_fence_def tape_release_fence_def)

text \<open>
  The file backend never clears the early warning when it locates: after a write inside the warning
  zone of one partition, seeking to the other one marks that partition out of space, whatever is left
  of it.
\<close>

theorem seek_carries_early_warning:
  assumes "fdev_ok dev" and "early_warning (position dev)" and "prt < 2" and "prt \<noteq> pos_partition (position dev)"
    and "blk \<le> length (dev_tape dev prt)"
  shows "\<exists>dev'. tape_seek filedebug_handler prt blk dev = (Inr (), dev') \<and> partition_space dev' prt = PART_NO_SPACE"
proof -
  obtain st' pos' where l: "filedebug_locate ok_host prt blk (backend_data dev, position dev) = (Inr (), st', pos')"
      "pos_block pos' = min blk (length (dev_tape dev prt))" "pos_partition pos' = prt"
    using filedebug_locate_ok [OF ok_host_ok, of "backend_data dev" prt blk "position dev"] assms(1,3)
    by (auto simp: in_step_def)
  have "early_warning pos'"
    using l(1) assms(2) by (auto simp: filedebug_locate_def Let_def warn_def split: if_splits sum.splits)
  then show ?thesis
    using l assms(4,5) by (simp add: tape_seek_def on_pos_def filedebug_handler_def note_warning_def min_absorb1)
qed

theorem seek_carries_early_warning_witness:
  "\<exists>dev'. tape_seek filedebug_handler 0 0 (blank_device\<lparr>position := pos0\<lparr>early_warning := True\<rparr>\<rparr>) = (Inr (), dev') \<and>
     partition_space dev' 0 = PART_NO_SPACE"
proof -
  let ?dev = "blank_device\<lparr>position := pos0\<lparr>early_warning := True\<rparr>\<rparr>"
  have "fdev_ok ?dev"
    using blank_device_ok by (simp add: in_step_def blank_device_def)
  then show ?thesis
    using seek_carries_early_warning [of ?dev 0 0] by (simp add: pos0_def)
qed

end
