(* ===== verification/Ltfs_Volume_File.thy ===== *)
theory Ltfs_Volume_File
  imports Ltfs_Volume Ltfs_Tape_File
begin

text \<open>
  The index writer on the file backend. The driver table of \<^verbatim>\<open>filedebug_tc.c\<close> has no function for the
  attributes of the application, so that the tape layer refuses the driver; the properties of the index
  are stated for the table with any such function added that leaves the tape alone.
\<close>

section \<open>The driver table with the missing function\<close>

text \<open>
  The tape layer refuses the file backend: its driver table leaves out \<^verbatim>\<open>update_mam_attr\<close>, and
  \<^verbatim>\<open>tape_device_open\<close> accepts a driver only when every function is present. With the function added the
  table is accepted.
\<close>

theorem filedebug_handler_refused:
  "tape_ops_complete filedebug_handler = Inl LTFS_PLUGIN_INCOMPLETE \<and>
   tape_ops_complete (filedebug_handler\<lparr>op_update_mam_attr := Some f\<rparr>) = Inr ()"
  by (simp add: tape_ops_complete_def filedebug_handler_def)

definition mam_ok :: "(nat \<Rightarrow> filedebug_data \<Rightarrow> (unit, filedebug_data) result) \<Rightarrow> bool" where
  "mam_ok f \<longleftrightarrow> (\<forall>i s. fst (f i s) \<noteq> Inl NULL_CALL \<and> fd_ok (snd (f i s)) = fd_ok s \<and> fd_tape (snd (f i s)) = fd_tape s \<and>
     fd_head (snd (f i s)) = fd_head s \<and> filedebug_data.max_block_size (snd (f i s)) = filedebug_data.max_block_size s)"

definition mam_handler :: "(nat \<Rightarrow> filedebug_data \<Rightarrow> (unit, filedebug_data) result) \<Rightarrow> filedebug_data tape_ops" where
  "mam_handler f = filedebug_handler\<lparr>op_update_mam_attr := Some f\<rparr>"

lemma mam_tape_device: "tape_device fd_ok fd_tape fd_head filedebug_data.max_block_size (mam_handler f)"
proof -
  have sel: "op_write (mam_handler f) = op_write filedebug_handler" "op_writefm (mam_handler f) = op_writefm filedebug_handler"
    "op_read (mam_handler f) = op_read filedebug_handler" "op_locate (mam_handler f) = op_locate filedebug_handler"
    "op_write_attribute (mam_handler f) = op_write_attribute filedebug_handler"
    "op_read_attribute (mam_handler f) = op_read_attribute filedebug_handler"
    by (simp_all add: mam_handler_def)
  show ?thesis
    using fdev.tape_device_axioms unfolding tape_device_def tape_device_axioms_def sel .
qed

lemma mam_device: "mam_ok f \<Longrightarrow> index_device fd_ok fd_tape fd_head filedebug_data.max_block_size (mam_handler f)"
  unfolding index_device_def index_device_axioms_def
  by (intro conjI mam_tape_device) (auto simp: mam_handler_def mam_ok_def)

text \<open>A function that stores the format version as attribute \<open>0x080B\<close>, as the drivers with such a function do.\<close>

definition file_mam :: "nat \<Rightarrow> filedebug_data \<Rightarrow> (unit, filedebug_data) result" where
  "file_mam i st = (if i = TC_MAM_APP_FORMAT_VERSION
     then filedebug_write_attribute ok_host 0 (ltfs_u16tobe 0x080B @ [1] @ ltfs_u16tobe 16 @ map of_char ''2.2.0'' @ replicate 11 0) st
     else (Inr (), st))"

lemma file_mam_ok: "mam_ok file_mam"
proof -
  have "fst (filedebug_write_attribute h p buf st) \<noteq> Inl NULL_CALL" for h p buf st
  proof -
    have "fst (write_attribute_loop h p buf i st) \<noteq> Inl NULL_CALL" for i
      by (induction h p buf i st rule: write_attribute_loop.induct)
        (subst write_attribute_loop.simps, auto simp: Let_def split: option.splits)
    then show ?thesis by (simp add: filedebug_write_attribute_def)
  qed
  then show ?thesis using filedebug_attribute_keeps by (auto simp: mam_ok_def file_mam_def)
qed

interpretation fidx: index_device fd_ok fd_tape fd_head filedebug_data.max_block_size "mam_handler file_mam"
  by (rule mam_device [OF file_mam_ok])

section \<open>Writing the index\<close>

definition can_write_index :: "nat \<Rightarrow> nat \<Rightarrow> char \<Rightarrow> filedebug_data ltfs_volume \<Rightarrow> bool" where
  "can_write_index bs L part vol \<longleftrightarrow>
     (let dev = device vol; num = ltfs_part_id2num part (vol_label vol); t = dev_tape dev num in
      fdev_ok dev \<and> \<not> dev_write_protect dev \<and> \<not> write_error dev \<and> \<not> append_only_mode dev \<and>
      bs \<le> device_data.max_block_size dev \<and> bs \<le> filedebug_data.max_block_size (backend_data dev) \<and>
      blocksize (vol_label vol) = bs \<and> 0 < bs \<and> bs < U32 \<and> num < 2 \<and> part_num2id (vol_label vol) num = part \<and>
      append_pos dev num \<le> length t \<and> length t + L + 4 < TAPE_BLOCK_MAX)"

lemma can_write_index_ready:
  assumes "mam_ok f"
  shows "can_write_index bs L part vol = index_device.index_ready fd_ok fd_tape fd_head filedebug_data.max_block_size bs L part vol"
  unfolding index_device.index_ready_def [OF mam_device [OF assms]] tape_device.text_dev_def [OF mam_tape_device]
  by (auto simp: can_write_index_def writable_def Let_def)

text \<open>
  C2. Writing the index to the index partition of a volume whose data partition does not end in the newest
  index writes it to the data partition first and then to the index partition. Both partitions then
  end in an index file (a filemark, the text in full blocks but for the last, a filemark), everything
  in front of the append positions is untouched, both indexes carry one and the same generation, which
  is new exactly when the index was dirty, each points to its own first block, and the index on the index
  partition points back to the one on the data partition.
\<close>

theorem write_index_both_partitions:
  fixes vol :: "filedebug_data ltfs_volume"
  assumes "mam_ok f" and "can_write_index bs L (ltfs_dp_id vol) vol" and "can_write_index bs L (ltfs_ip_id vol) vol"
    and "ltfs_dp_id vol \<noteq> ltfs_ip_id vol"
    and "\<not> dp_index_file_end vol \<or> ip_index_file_end vol \<and> fst (selfptr (vol_index vol)) = ltfs_ip_id vol"
    and "\<forall>idx. doc_ok xe bs (vol_creator vol @ '' - '' @ reason) idx (render idx) \<and> length (render idx) \<le> L"
  shows "let nd = ltfs_part_id2num (ltfs_dp_id vol) (vol_label vol); ni = ltfs_part_id2num (ltfs_ip_id vol) (vol_label vol);
      t = dev_tape (device vol);
      bd = append_block (append_pos (device vol) nd) (length (t nd)); bi = append_block (append_pos (device vol) ni) (length (t ni)) in
    \<exists>rsd rsi idxd idxi vol'. ltfs_write_index (mam_handler f) xe now (ltfs_ip_id vol) reason vol = Some (Inr (), vol') \<and>
      dev_tape (device vol') = t(nd := take bd (t nd) @ rsd, ni := take bi (t ni) @ rsi) \<and>
      index_file bs (render idxd) rsd \<and> index_file bs (render idxi) rsi \<and>
      selfptr idxd = (ltfs_dp_id vol, bd + 1) \<and> selfptr idxi = (ltfs_ip_id vol, bi + 1) \<and> backptr idxi = (ltfs_dp_id vol, bd + 1) \<and>
      generation idxd = (if ltfs_is_dirty vol then to32 (generation (vol_index vol) + 1) else generation (vol_index vol)) \<and>
      generation idxi = generation idxd \<and> same_index (vol_index vol') (ltfs_unset_index_dirty True idxi) \<and>
      ip_index_file_end vol' \<and> dp_index_file_end vol' \<and> \<not> ltfs_is_dirty vol'"
proof -
  note ready = can_write_index_ready [OF assms(1), symmetric]
  have doc: "doc_ok xe bs (vol_creator vol @ '' - '' @ reason) idx (render idx) \<and> length (render idx) \<le> L" for idx
    using assms(6) by blast
  have clean: "\<not> ltfs_is_dirty vol'" if "vol_index vol' = ltfs_unset_index_dirty True i" for vol' :: "filedebug_data ltfs_volume" and i
    by (simp add: ltfs_is_dirty_def that ltfs_unset_index_dirty_def Let_def)
  have same: "same_index (vol_index vol') (ltfs_unset_index_dirty True i)"
    if "vol_index vol' = ltfs_unset_index_dirty True (i\<lparr>idx_creator := c\<rparr>)" for vol' :: "filedebug_data ltfs_volume" and i c
    by (simp add: that same_index_iff ltfs_unset_index_dirty_def Let_def)
  note both = index_device.write_index_both [OF mam_device [OF assms(1)], where vol = vol and bs = bs and L = L and now = now and xe = xe
        and reason = reason and render = render, unfolded ready, OF assms(2-5) doc]
  show ?thesis
    unfolding Let_def using both
    by (elim exE conjE, intro exI conjI) (assumption | erule same | erule clean)+
qed

definition volA :: "filedebug_data ltfs_volume" where
  "volA = \<lparr>device = blank_device,
     vol_label = labelA\<lparr>part_num2id := (\<lambda>_. CHR 0x00)(0 := CHR ''a'', 1 := CHR ''b'')\<rparr>, vol_index = index1\<lparr>dirty := True\<rparr>,
     ip_coh = \<lparr>volume_change_ref = 0, count = 0, set_id = 0, uuid = replicate 37 0, tc_coherency.version = 0\<rparr>,
     dp_coh = \<lparr>volume_change_ref = 0, count = 0, set_id = 0, uuid = replicate 37 0, tc_coherency.version = 0\<rparr>,
     app_format_ver = None, ip_index_file_end = False, dp_index_file_end = False, last_pos = (CHR 0x00, 0), last_size = 0,
     ltfs_volume.last_block = None, vol_creator = ''LTFS'', reval = None\<rparr>"

definition small_doc :: xml_env where
  "small_doc = \<lparr>xml_alloc = (\<lambda>_. True), xml_doc = (\<lambda>_ _. ([[1, 2], [3]], None, [[4]]))\<rparr>"

lemma volA_labels: "ltfs_dp_id volA = CHR ''b''" "ltfs_ip_id volA = CHR ''a''" "ltfs_part_id2num CHR ''b'' (vol_label volA) = 1"
  "ltfs_part_id2num CHR ''a'' (vol_label volA) = 0" "blocksize (vol_label volA) = 524288"
  by (simp_all add: ltfs_dp_id_def ltfs_ip_id_def ltfs_part_id2num_def volA_def labelA_def label_alloc_def)

lemma volA_device: "device volA = blank_device" "dev_tape blank_device = (\<lambda>_. [])" "append_pos blank_device = (\<lambda>_. 0)"
  "\<not> dev_write_protect blank_device" "\<not> write_error blank_device" "\<not> append_only_mode blank_device"
  "eod (backend_data blank_device) = (\<lambda>_. 0)" "device_data.max_block_size blank_device = 4194304" "filedebug_data.max_block_size (backend_data blank_device) = 16777216"
  by (simp_all add: volA_def blank_device_def blank_tape_def fd_tape_def fun_eq_iff)

lemma volA_ready: "can_write_index 524288 1000 CHR ''a'' volA" "can_write_index 524288 1000 CHR ''b'' volA"
  using blank_device_ok
  by (simp_all add: can_write_index_def volA_labels volA_device Let_def U32_def TAPE_BLOCK_MAX_def U64_def)
    (simp_all add: volA_def)

theorem write_index_both_partitions_witness:
  "\<exists>rsi vol'. ltfs_write_index (mam_handler file_mam) small_doc (\<lambda>_. (9, 0)) CHR ''a'' SYNC_FORMAT volA = Some (Inr (), vol') \<and>
     dev_tape (device vol') 0 = rsi \<and> index_file 524288 [1, 2, 3, 4] rsi \<and>
     selfptr (vol_index vol') = (CHR ''a'', 1) \<and> backptr (vol_index vol') = (CHR ''b'', 1) \<and> generation (vol_index vol') = 2"
proof -
  have doc: "\<forall>idx. doc_ok small_doc 524288 (vol_creator volA @ '' - '' @ SYNC_FORMAT) idx [1, 2, 3, 4] \<and> length [1, 2, 3, 4 :: byte] \<le> 1000"
    by (simp add: doc_ok_def small_doc_def U32_def)
  have "\<not> dp_index_file_end volA" "ltfs_is_dirty volA" "generation (vol_index volA) = 1"
    by (simp_all add: volA_def ltfs_is_dirty_def index1_def)
  then show ?thesis
    using write_index_both_partitions [OF file_mam_ok, of 524288 1000 volA small_doc SYNC_FORMAT "\<lambda>_. [1, 2, 3, 4]" "\<lambda>_. (9, 0)"]
      volA_ready doc
    by (auto simp: volA_labels volA_device append_block_def same_index_iff ltfs_unset_index_dirty_def to32_def U32_def Let_def)
qed

text \<open>
  C28. A failed write of the index to the data partition leaves the index in memory as it was, whatever
  driver is used and wherever the failure occurs: generation, modification time, both pointers and the
  update flags are the old ones (the name of the writing program apart).
\<close>

theorem write_index_failure_keeps_index:
  assumes "ltfs_write_index ops xe now (ltfs_dp_id vol) reason vol = Some (Inl e, vol')" and "ltfs_dp_id vol \<noteq> ltfs_ip_id vol"
    and "e \<noteq> NULL_CALL" and "generation (vol_index vol) < U32"
  shows "same_index (vol_index vol') (vol_index vol)"
proof -
  have "vol' = vol \<or> write_index_body ops xe now (ltfs_dp_id vol) reason vol = Some (Inl e, vol')"
    using assms(1,2) by (subst (asm) ltfs_write_index.simps) (auto simp: Let_def split: if_splits)
  then show ?thesis using write_index_body_failure [OF _ assms(3,4)] by auto
qed

theorem write_index_failure_keeps_index_witness:
  "let vol = volA\<lparr>device := blank_device\<lparr>backend_data := blank_tape\<lparr>ready := False\<rparr>\<rparr>\<rparr> in
   \<exists>vol'. ltfs_write_index filedebug_handler small_doc (\<lambda>_. (9, 0)) (ltfs_dp_id vol) SYNC_FORMAT vol = Some (Inl EDEV_NOT_READY, vol') \<and>
     same_index (vol_index vol') (vol_index vol)"
proof -
  let ?vol = "volA\<lparr>device := blank_device\<lparr>backend_data := blank_tape\<lparr>ready := False\<rparr>\<rparr>\<rparr>"
  have l: "ltfs_dp_id ?vol = CHR ''b''" "ltfs_ip_id ?vol = CHR ''a''"
    using volA_labels(1,2) by (simp_all add: ltfs_dp_id_def ltfs_ip_id_def)
  have "tape_seek_append_position filedebug_handler 1 False (device ?vol) = (Inl EDEV_NOT_READY, device ?vol)"
    by (simp add: tape_seek_append_position_def tape_seek_def on_pos_def filedebug_handler_def filedebug_locate_def
        blank_device_def pos0_def TAPE_BLOCK_MAX_def U64_def)
  then have "\<exists>vol'. write_index_body filedebug_handler small_doc (\<lambda>_. (9, 0)) CHR ''b'' SYNC_FORMAT ?vol = Some (Inl EDEV_NOT_READY, vol')"
    using volA_labels by (simp add: write_index_body_def on_dev_def Let_def ltfs_is_dirty_def)
       (simp add: volA_def labelA_def)
  moreover have "writable (device ?vol)" by (simp add: writable_def volA_device)
  ultimately obtain vol' where
    "ltfs_write_index filedebug_handler small_doc (\<lambda>_. (9, 0)) (ltfs_dp_id ?vol) SYNC_FORMAT ?vol = Some (Inl EDEV_NOT_READY, vol')"
    using ltfs_write_index_dp [of ?vol filedebug_handler small_doc "\<lambda>_. (9, 0)" SYNC_FORMAT] unfolding l by auto
  from write_index_failure_keeps_index [OF this] this show ?thesis
    unfolding Let_def l by (auto simp: volA_def index1_def U32_def)
qed

end
