(* ===== verification/Ltfs_Raw_File.thy ===== *)
theory Ltfs_Raw_File
  imports Ltfs_Raw Ltfs_Volume_File
begin

text \<open>
  Reading and writing files on a volume of the file backend: the lemmas of \<open>Ltfs_Raw\<close> for every driver with
  the contract \<open>tape_device\<close>, here for \<^verbatim>\<open>filedebug_tc.c\<close>.
\<close>

section \<open>Volumes\<close>

text \<open>A volume that can be read: a device in step, no fence, no failed or running revalidation, a sound block cache.\<close>

definition can_read :: "filedebug_data ltfs_volume \<Rightarrow> bool" where
  "can_read vol \<longleftrightarrow> fdev_ok (device vol) \<and> \<not> fence (device vol) \<and> reval vol = None \<and>
     (\<forall>p<2. length (dev_tape (device vol) p) < TAPE_BLOCK_MAX) \<and>
     cache_ok (dev_tape (device vol)) (blocksize (vol_label vol)) vol"

text \<open>
  A volume that takes data: the device can be written, the append position is on the tape, the index
  partition ends in an index.
\<close>

definition can_write_data :: "filedebug_data ltfs_volume \<Rightarrow> bool" where
  "can_write_data vol \<longleftrightarrow>
     (let dev = device vol; bs = blocksize (vol_label vol) in
      fdev_ok dev \<and> \<not> dev_write_protect dev \<and> \<not> write_error dev \<and> \<not> fence dev \<and> reval vol = None \<and>
      0 < bs \<and> bs \<le> U32 \<and> bs \<le> device_data.max_block_size dev \<and> bs \<le> filedebug_data.max_block_size (backend_data dev) \<and>
      ltfs_dp_id vol \<noteq> ltfs_ip_id vol \<and> data_part vol < 2 \<and> ip_index_file_end vol \<and>
      append_pos dev (data_part vol) \<le> length (dev_tape dev (data_part vol)) \<and>
      (\<forall>p<2. length (dev_tape dev p) < TAPE_BLOCK_MAX))"

lemmas fdev_defs = tape_device.data_ready_def [OF fdev.tape_device_axioms] tape_device.tapes_short_def [OF fdev.tape_device_axioms]
  tape_device.rd_ok_def [OF fdev.tape_device_axioms]

lemma can_write_data_ready:
  "can_write_data vol \<longleftrightarrow> blocksize (vol_label vol) \<le> U32 \<and>
     tape_device.data_ready fd_ok fd_tape fd_head filedebug_data.max_block_size (blocksize (vol_label vol)) vol"
  unfolding fdev_defs by (auto simp: can_write_data_def writable_def Let_def)

abbreviation contents :: "filedebug_data ltfs_volume \<Rightarrow> dentry \<Rightarrow> byte list" where
  "contents vol d \<equiv> file_content (dev_tape (device vol)) (vol_label vol) (blocksize (vol_label vol)) d"

text \<open>The tape of the data partition up to the append position, which a write keeps.\<close>

definition kept_tape :: "filedebug_data ltfs_volume \<Rightarrow> tape" where
  "kept_tape vol = kept (data_part vol) (append_at fd_tape (data_part vol) (device vol)) (dev_tape (device vol))"

abbreviation room :: "filedebug_data ltfs_volume \<Rightarrow> nat \<Rightarrow> bool" where
  "room vol n \<equiv> append_at fd_tape (data_part vol) (device vol) + n + 2 < TAPE_BLOCK_MAX"

section \<open>Reading\<close>

lemma read_content:
  assumes v: "can_read vol" and env: "fs_malloc env 0" "fs_mutex env"
    and f: "stored (dev_tape (device vol)) (vol_label vol) (blocksize (vol_label vol)) d"
    and n: "0 < cnt" "offset + cnt < U64" "(\<forall>e\<in>set (extentlist d). ext_end e \<le> size d) \<or> offset + cnt \<le> size d"
  shows "\<exists>vol'. ltfs_fsraw_read filedebug_handler env cnt offset (d, vol) =
      Some (Inr (take cnt (drop offset (contents vol d))), d\<lparr>access_time := fs_now env\<rparr>, vol') \<and>
    can_read vol' \<and> dev_tape (device vol') = dev_tape (device vol) \<and> vol_label vol' = vol_label vol"
proof -
  let ?bs = "blocksize (vol_label vol)" and ?tp = "dev_tape (device vol)"
  have short: "tape_device.tapes_short ?tp" using v unfolding fdev_defs by (simp add: can_read_def)
  have v': "fdev_ok (device vol)" "cache_ok ?tp ?bs vol" "\<not> fence (device vol)" "reval vol = None"
    using v by (simp_all add: can_read_def)
  have f': "exts_ok ?bs (extentlist d)" "size d < U64" "readable ?tp (vol_label vol) ?bs (extentlist d)"
    using f by (simp_all add: stored_def file_ok_def)
  obtain vol' where r: "ltfs_fsraw_read filedebug_handler env cnt offset (d, vol) =
        Some (Inr (take cnt (drop offset (contents vol d))), d\<lparr>access_time := fs_now env\<rparr>,
          vol'\<lparr>vol_index := ltfs_set_index_dirty True (vol_index vol)\<rparr>)"
      "tape_device.rd_ok fd_ok fd_tape fd_head ?tp ?bs vol'" "read_frame filedebug_data.max_block_size vol vol'"
    using tape_device.fsraw_read_ok [OF fdev.tape_device_axioms f'(1) n(3) f'(2,3) short refl n(1,2) v'(1) refl v'(2) env v'(4,3)]
    by blast
  let ?vol = "vol'\<lparr>vol_index := ltfs_set_index_dirty True (vol_index vol)\<rparr>"
  have "can_read ?vol" "dev_tape (device ?vol) = ?tp" "vol_label ?vol = vol_label vol"
    using r(2,3) v unfolding fdev_defs by (simp_all add: can_read_def read_frame_def dev_frame_def cache_ok_def)
  with r(1) show ?thesis by blast
qed

text \<open>
  C26. Reading from a file whose extents are on the tape returns exactly the bytes of the file from the
  offset on, at most as many as asked for: the bytes of the extents where there are extents, zeros in the
  holes between them and up to the size of the file, nothing behind the end of the file. The read ends
  without failure whatever the head position and the contents of the block cache were, the tape is the
  same, and the block cache is sound again.
\<close>

theorem read_returns_content:
  assumes "can_read vol" and "fs_malloc env 0" and "fs_mutex env"
    and "stored (dev_tape (device vol)) (vol_label vol) (blocksize (vol_label vol)) d" and "\<forall>e\<in>set (extentlist d). ext_end e \<le> size d"
    and "0 < cnt" and "offset + cnt < U64"
  shows "\<exists>vol'. ltfs_fsraw_read filedebug_handler env cnt offset (d, vol) =
      Some (Inr (take cnt (drop offset (contents vol d))), d\<lparr>access_time := fs_now env\<rparr>, vol') \<and>
    can_read vol' \<and> dev_tape (device vol') = dev_tape (device vol)"
  using read_content [OF assms(1-4,6,7)] assms(5) by blast

section \<open>Writing\<close>

lemma write_contents:
  assumes v: "can_write_data vol" and env: "fs_mutex env" "\<forall>i. fs_malloc env i" and buf: "buf \<noteq> []" "room vol (length buf)"
    and o: "offset + length buf + blocksize (vol_label vol) \<le> U64"
    and f: "stored (kept_tape vol) (vol_label vol) (blocksize (vol_label vol)) d" and cache: "cache_ok (kept_tape vol) (blocksize (vol_label vol)) vol"
  shows "\<exists>r d' vol'. ltfs_fsraw_write filedebug_handler env buf offset (ltfs_dp_id vol) ut (d, vol) = Some (r, d', vol') \<and>
    can_write_data vol' \<and> can_read vol' \<and> vol_label vol' = vol_label vol \<and>
    stored (dev_tape (device vol')) (vol_label vol) (blocksize (vol_label vol)) d' \<and>
    (r = Inr () \<and> contents vol' d' = write_content offset buf (contents vol d) \<or>
     r = Inl LTFS_LESS_SPACE \<and> d' = d \<and> contents vol' d = contents vol d) \<and>
    (\<forall>d2. stored (kept_tape vol) (vol_label vol) (blocksize (vol_label vol)) d2 \<longrightarrow> contents vol' d2 = contents vol d2)"
proof -
  let ?bs = "blocksize (vol_label vol)" and ?tp = "dev_tape (device vol)"
  have r: "tape_device.data_ready fd_ok fd_tape fd_head filedebug_data.max_block_size ?bs vol" "?bs \<le> U32"
    using v by (simp_all add: can_write_data_ready)
  obtain r d' vol' where w: "ltfs_fsraw_write filedebug_handler env buf offset (ltfs_dp_id vol) ut (d, vol) = Some (r, d', vol')"
      "tape_device.data_ready fd_ok fd_tape fd_head filedebug_data.max_block_size ?bs vol'" "vol_label vol' = vol_label vol"
      "cache_ok (dev_tape (device vol')) ?bs vol'" "stored (dev_tape (device vol')) (vol_label vol) ?bs d'"
      "r = Inr () \<and> file_content (dev_tape (device vol')) (vol_label vol) ?bs d' = write_content offset buf (contents vol d) \<or>
       r = Inl LTFS_LESS_SPACE \<and> d' = d \<and> file_content (dev_tape (device vol')) (vol_label vol) ?bs d = contents vol d"
      "\<forall>d2. stored (kept_tape vol) (vol_label vol) ?bs d2 \<longrightarrow> stored (dev_tape (device vol')) (vol_label vol) ?bs d2 \<and>
        file_content (dev_tape (device vol')) (vol_label vol) ?bs d2 = contents vol d2"
    using tape_device.fsraw_write_ok [OF fdev.tape_device_axioms r(1) buf(2,1) env r(2) o f [unfolded kept_tape_def] cache [unfolded kept_tape_def]]
    unfolding kept_tape_def by blast
  have "can_write_data vol'" using w(2,3) r(2) by (simp add: can_write_data_ready)
  moreover from this have "can_read vol'" using w(3,4) by (simp add: can_write_data_def can_read_def Let_def)
  ultimately show ?thesis
    by (intro exI [of _ r] exI [of _ d'] exI [of _ vol']) (simp only: w, use w(6,7) in simp)
qed

text \<open>
  C27. Writing a buffer to a file on the data partition either succeeds or ends with LTFS_LESS_SPACE. On
  success the contents of the file are the old contents with the buffer written over them at the offset,
  zeros in a gap behind the old end included; on LTFS_LESS_SPACE the file is the same. In both cases every
  file whose bytes lie in front of the append position has the same contents as before, and the volume
  can be read and written again.
\<close>

theorem write_overlays_content:
  assumes "can_write_data vol" and "fs_mutex env" and "\<forall>i. fs_malloc env i" and "buf \<noteq> []" and "room vol (length buf)"
    and "offset + length buf + blocksize (vol_label vol) \<le> U64"
    and "stored (kept_tape vol) (vol_label vol) (blocksize (vol_label vol)) d" and "cache_ok (kept_tape vol) (blocksize (vol_label vol)) vol"
  shows "\<exists>r d' vol'. ltfs_fsraw_write filedebug_handler env buf offset (ltfs_dp_id vol) ut (d, vol) = Some (r, d', vol') \<and>
    can_write_data vol' \<and> can_read vol' \<and>
    (r = Inr () \<and> contents vol' d' = write_content offset buf (contents vol d) \<or>
     r = Inl LTFS_LESS_SPACE \<and> d' = d \<and> contents vol' d = contents vol d) \<and>
    (\<forall>d2. stored (kept_tape vol) (vol_label vol) (blocksize (vol_label vol)) d2 \<longrightarrow> contents vol' d2 = contents vol d2)"
  using write_contents [OF assms] by blast

text \<open>
  C1. What was written is read back: after a successful \<^verbatim>\<open>ltfs_fsraw_write\<close> on the data partition,
  \<^verbatim>\<open>ltfs_fsraw_read\<close> of the same range of the file returns the bytes that were written.
\<close>

theorem write_then_read:
  assumes "can_write_data vol" and "fs_mutex env" and "\<forall>i. fs_malloc env i" and "buf \<noteq> []" and "room vol (length buf)"
    and "offset + length buf + blocksize (vol_label vol) \<le> U64"
    and "stored (kept_tape vol) (vol_label vol) (blocksize (vol_label vol)) d" and "cache_ok (kept_tape vol) (blocksize (vol_label vol)) vol"
  shows "\<exists>r d' vol'. ltfs_fsraw_write filedebug_handler env buf offset (ltfs_dp_id vol) ut (d, vol) = Some (r, d', vol') \<and>
    (r = Inl LTFS_LESS_SPACE \<or> r = Inr () \<and>
     (\<exists>st. ltfs_fsraw_read filedebug_handler env (length buf) offset (d', vol') = Some (Inr buf, st)))"
proof -
  obtain r d' vol' where w: "ltfs_fsraw_write filedebug_handler env buf offset (ltfs_dp_id vol) ut (d, vol) = Some (r, d', vol')"
      "can_read vol'" "vol_label vol' = vol_label vol" "stored (dev_tape (device vol')) (vol_label vol) (blocksize (vol_label vol)) d'"
      "r = Inr () \<and> contents vol' d' = write_content offset buf (contents vol d) \<or> r = Inl LTFS_LESS_SPACE"
    using write_contents [OF assms] by blast
  show ?thesis
  proof (cases "r = Inl LTFS_LESS_SPACE")
    case False
    then have c: "r = Inr ()" "contents vol' d' = write_content offset buf (contents vol d)" using w(5) by auto
    have "length (contents vol' d') = size d'" by (simp add: file_content_def)
    then have "offset + length buf \<le> size d'" unfolding c(2) by simp
    moreover have "0 < blocksize (vol_label vol)" using assms(1) by (simp add: can_write_data_def Let_def)
    ultimately obtain st where
      "ltfs_fsraw_read filedebug_handler env (length buf) offset (d', vol') = Some (Inr (take (length buf) (drop offset (contents vol' d'))), st)"
      using read_content [OF w(2), of env d' "length buf" offset] w(3,4) assms(2,3,4,6) by auto
    moreover have "take (length buf) (drop offset (contents vol' d')) = buf" unfolding c(2) by (simp add: write_content_def)
    ultimately show ?thesis using w(1) c(1) by auto
  qed (use w(1) in blast)
qed

section \<open>Witnesses\<close>

definition envA :: "filedebug_data fs_env" where
  "envA = \<lparr>fs_mutex = True, fs_xml = small_doc, fs_index_time = (\<lambda>_. (9, 0)), fs_now = (9, 0), fs_malloc = (\<lambda>_. True),
     fs_rekey = None, fs_junk = (\<lambda>b. b), fs_revalidate = (\<lambda>vol. (Inl LTFS_REVAL_FAILED, vol))\<rparr>"

definition volB :: "filedebug_data ltfs_volume" where
  "volB = volA\<lparr>ip_index_file_end := True\<rparr>"

definition no_file :: dentry where
  "no_file = file1\<lparr>extentlist := [], size := 0, realsize := 0\<rparr>"

definition one_block :: dentry where
  "one_block = file1\<lparr>extentlist := [\<lparr>partition = CHR ''b'', block = 0, byteoffset = 0, bytecount = 2, fileoffset = 1\<rparr>], size := 4, realsize := 2\<rparr>"

lemma volB_parts: "vol_label volB = vol_label volA" "device volB = blank_device" "ltfs_dp_id volB = CHR ''b''" "ltfs_ip_id volB = CHR ''a''"
  "reval volB = None" "ltfs_volume.last_block volB = None" "last_pos volB = (CHR 0x00, 0)" "ip_index_file_end volB"
  using volA_labels volA_device by (simp_all add: volB_def ltfs_dp_id_def ltfs_ip_id_def) (simp_all add: volA_def)

lemma no_part: "ltfs_part_id2num CHR 0x00 (vol_label volA) = U32 - 1"
  by (simp add: ltfs_part_id2num_def volA_def labelA_def)

lemma volB_cache: "cache_ok tp 524288 volB"
  by (simp add: cache_ok_def volB_parts no_part Let_def U32_def)

lemma volB_ready: "can_write_data volB" "room volB 2" "blocksize (vol_label volB) = 524288"
  using blank_device_ok
  by (simp_all add: can_write_data_def volB_parts volA_labels volA_device append_at_def Let_def U32_def TAPE_BLOCK_MAX_def U64_def
      del: fd_tape_length) (simp add: blank_device_def)

lemma no_file_stored: "stored tp lab bs no_file" "file_content tp lab bs no_file = []"
  by (simp_all add: stored_def file_ok_def no_file_def readable_def file_content_def U64_def)

theorem write_overlays_content_witness:
  "\<exists>r d' vol'. ltfs_fsraw_write filedebug_handler envA [5, 6] 1 CHR ''b'' True (no_file, volB) = Some (r, d', vol') \<and>
     (r = Inr () \<and> contents vol' d' = [0, 5, 6] \<or> r = Inl LTFS_LESS_SPACE \<and> d' = no_file)"
  using write_overlays_content [OF volB_ready(1), of envA "[5, 6]" 1 no_file True] volB_ready(2) volB_cache no_file_stored
  by (auto simp: volB_ready(3) volB_parts volA_labels(5) envA_def write_content_def U64_def)

theorem write_then_read_witness:
  "\<exists>r d' vol'. ltfs_fsraw_write filedebug_handler envA [5, 6] 1 CHR ''b'' True (no_file, volB) = Some (r, d', vol') \<and>
     (r = Inl LTFS_LESS_SPACE \<or> r = Inr () \<and> (\<exists>st. ltfs_fsraw_read filedebug_handler envA 2 1 (d', vol') = Some (Inr [5, 6], st)))"
  using write_then_read [OF volB_ready(1), of envA "[5, 6]" 1 no_file True] volB_ready(2) volB_cache no_file_stored
  by (auto simp: volB_ready(3) volB_parts volA_labels(5) envA_def U64_def numeral_2_eq_2)

lemma one_block_volume:
  "\<exists>vol. can_read vol \<and> dev_tape (device vol) = (\<lambda>_. [])(1 := [Data [7, 8]]) \<and> vol_label vol = vol_label volA"
proof -
  obtain dev1 where 1: "fdev_ok dev1" "dev_tape dev1 = (\<lambda>_. [])" "pos_partition (position dev1) = 1" "pos_block (position dev1) = 0"
      "filedebug_data.max_block_size (backend_data dev1) = 16777216" "\<not> write_error dev1" "\<not> dev_write_protect dev1"
      "device_data.max_block_size dev1 = 4194304" "\<not> fence dev1"
    using fdev.seek_ok [OF blank_device_ok, of 1 0] volA_device by (auto simp: TAPE_BLOCK_MAX_def U64_def blank_device_def)
  obtain dev2 where 2: "fdev_ok dev2" "dev_tape dev2 = (\<lambda>_. [])(1 := [Data [7, 8]])" "\<not> fence dev2"
    using fdev.write_ok [OF 1(1), of True True "[7, 8]"] 1 by (auto simp: TAPE_BLOCK_MAX_def U64_def)
  have "can_read (volA\<lparr>device := dev2\<rparr>)"
    using 2 no_part by (simp add: can_read_def cache_ok_def Let_def) (simp add: volA_def TAPE_BLOCK_MAX_def U64_def U32_def)
  then show ?thesis using 2(2) by (intro exI [of _ "volA\<lparr>device := dev2\<rparr>"]) simp
qed

theorem read_returns_content_witness:
  "\<exists>vol. can_read vol \<and> (\<exists>st. ltfs_fsraw_read filedebug_handler envA 10 0 (one_block, vol) = Some (Inr [0, 7, 8, 0], st))"
proof -
  obtain vol where v: "can_read vol" "dev_tape (device vol) = (\<lambda>_. [])(1 := [Data [7, 8]])" "vol_label vol = vol_label volA"
    using one_block_volume by blast
  have m: "tape_at (dev_tape (device vol)) (vol_label volA) (tape_byte 524288 e x) \<noteq> None"
    if "e = \<lparr>partition = CHR ''b'', block = 0, byteoffset = 0, bytecount = 2, fileoffset = 1\<rparr>" "covers e x" for e x
    using that by (auto simp: v(2) tape_at_def tape_byte_def covers_def ext_end_def volA_labels Let_def)
  then have "stored (dev_tape (device vol)) (vol_label vol) 524288 one_block"
    unfolding v(3) by (auto simp: stored_def file_ok_def one_block_def readable_def exts_ok_def ext_ok_def ext_end_def U64_def)
  moreover have "contents vol one_block = [0, 7, 8, 0]"
    unfolding v(2,3) by (simp add: file_content_def one_block_def file_byte_def covers_def ext_end_def tape_byte_def tape_at_def volA_labels upt_rec)
  moreover have "\<forall>e\<in>set (extentlist one_block). ext_end e \<le> size one_block" by (simp add: one_block_def ext_end_def)
  ultimately show ?thesis
    using read_returns_content [OF v(1), of envA one_block 10 0] v by (auto simp: volA_labels envA_def U64_def)
qed


end
