(* ===== verification/Ltfs_Session.thy ===== *)
theory Ltfs_Session
  imports Ltfs_Handlers Ltfs_Raw_File
begin

text \<open>
  Sequences of calls. Every rename returns and keeps the invariant, whatever its outcome; so do the other
  calls that return. From the index of a new volume on, no sequence of calls leaks a lock, a reference or a
  dentry. The properties of the operations on the tree are stated here.
\<close>

section \<open>Every rename returns\<close>

text \<open>One of the directories is not found.\<close>

lemma rename_tree_no_dir:
  assumes "no_oom env" and inv: "fs_inv H s" and size: "size_class.size H + 6 < U32" and "unlocked s"
    and vol: "locks s Volume = Rd 1" "locks s Rename = Wr"
    and miss: "lookup_result s fdir = Inl e \<or> (\<exists>x fd. lookup_result s fdir = Inr (x, fd) \<and> lookup_result s tdir = Inl e)"
  shows "rename_tree env fdir fname tdir tname s = Some (Inl e, hold Volume Free (hold Rename Free s))"
proof -
  have P: "fs_wf s" "refs_ok H s" using inv by (simp_all add: fs_inv_def)
  from miss show ?thesis
  proof
    assume "lookup_result s fdir = Inl e"
    then show ?thesis
      using assms(1) vol by (simp add: rename_tree_def path_lookup_plain [OF P assms(4)] rename_release_def rename_end_def lock_ops)
  next
    assume "\<exists>x fd. lookup_result s fdir = Inr (x, fd) \<and> lookup_result s tdir = Inl e"
    then obtain x fd where l: "lookup_result s fdir = Inr (x, fd)" "lookup_result s tdir = Inl e" by blast
    obtain fdn where fd: "dentries s fd = Some fdn" using lookup_result_resolve [OF l(1)] resolve_linked [OF P(1)] by blast
    let ?a = "alter fd inc_handles s"
    have ia: "fs_inv (add_mset fd H) ?a" using fs_inv_get [OF inv fd] size by simp
    have wa: "fs_wf ?a" "refs_ok (add_mset fd H) ?a" "unlocked ?a" using ia assms(4) by (simp_all add: fs_inv_def)
    have h: "numhandles fdn < U32" "0 < numhandles fdn" using refs_bounds [OF P(2) fd] by simp_all
    have "fs_release_dentry_unlocked True fd (hold (Meta fd) Wr ?a) = Some (hold (Meta fd) Free s)"
      using release_unlocked_keeps [of "hold (Meta fd) Wr ?a" fd "inc_handles fdn" True] fd h by (simp add: alter_dec_inc)
    moreover have "hold (Meta fd) Free s = s" using assms(4) by (simp add: hold_same)
    ultimately show ?thesis
      using assms(1,4) l vol
      by (simp add: rename_tree_def path_lookup_plain [OF P assms(4)] path_lookup_plain [OF wa] same_tree_lookup [of s ?a]
          rename_release_def rename_end_def lock_ops)
  qed
qed

lemma took_None [simp]: "took None s = s"
  by (simp add: took_def)

text \<open>The dentry to rename is not found.\<close>

lemma rename_missing:
  assumes "no_oom env" and inv: "fs_inv (add_mset fd (add_mset td H)) s" and size: "size_class.size H + 5 < U32" and "unlocked s"
    and vol: "locks s Volume = Rd 1" "locks s Rename = Wr"
    and paths: "resolve s fs = Some fd" "resolve s ts = Some td" and f: "child s fd fname = None"
    and len: "pathname_strlen fname \<le> LTFS_FILENAME_MAX" "pathname_strlen tname \<le> LTFS_FILENAME_MAX"
  shows "\<exists>s' t. (if td = fd \<or> below s fd td then rename_lookup_above env fd td fname tname s else rename_lookup_other env fd td fname tname s) =
      Some (Inl (LTFS_NO_DENTRY, None), t) \<and> rename_unlock env fd td None (Inl LTFS_NO_DENTRY) t = Some (Inl LTFS_NO_DENTRY, s') \<and>
      same_tree s s' \<and> fs_inv H s' \<and> locks s' = (locks s)(Volume := Free, Rename := Free)"
proof -
  let ?t = "child s td tname" and ?l = "(locks s)(Contents fd := Wr, Meta fd := Wr, Contents td := Wr, Meta td := Wr)"
  have wf: "fs_wf s" using inv by (simp add: fs_inv_def)
  obtain fdn tdn where dn: "dentries s fd = Some fdn" "dentries s td = Some tdn" using resolve_linked [OF wf] paths by blast
  have self: "child s d k = Some c \<Longrightarrow> c \<noteq> d" for d k c using child_entry [OF wf] parent_neq [OF wf] by blast
  have cbelow: "child s d k = Some c \<Longrightarrow> below s c d" for d k c
    using child_edge [OF wf] fs_wf_edge_up [OF wf] below_up below_refl by metis
  have dd: "dentries (took c x) q = None \<longleftrightarrow> dentries x q = None" for c q x by (auto simp: took_def split: option.split)
  have "\<exists>t. (if td = fd \<or> below s fd td then rename_lookup_above env fd td fname tname s else rename_lookup_other env fd td fname tname s) =
      Some (Inl (LTFS_NO_DENTRY, None), t) \<and> same_tree s t \<and> fs_inv (add_mset fd (add_mset td H)) t \<and> locks t = ?l"
  proof (cases "td = fd \<or> below s fd td")
    case True
    let ?u = "hold (Meta td) Wr (hold (Contents td) Wr s)"
    let ?v = "hold (Meta fd) Wr (hold (Contents fd) Wr (took ?t ?u))"
    have l1: "fs_directory_lookup True td tname ?u = Some (Inr ?t, took ?t ?u)"
      using took_look [of ?u td tname] wf dn len self assms(4) by auto
    have iv: "fs_inv (took_refs ?t (add_mset fd (add_mset td H))) ?v" using took_inv [OF inv, of s td tname] size by simp
    have lv: "locks ?v (Meta c) = Free" if c: "child s fd k = Some c" for k c
      using self [OF c] cbelow [OF c] True below_antisym [OF wf] assms(4) by auto
    have l2: "fs_directory_lookup True fd fname ?v = Some (Inr None, ?v)"
      using took_look [of ?v fd fname] wf dn len f lv by (simp add: dd)
    show ?thesis
    proof (cases ?t)
      case None
      then have "rename_lookup_above env fd td fname tname s = Some (Inl (LTFS_NO_DENTRY, None), ?v)"
        unfolding rename_lookup_above_def using assms(1,4) l1 l2 by (cases "fd = td") (simp_all add: lock_ops hold_same)
      moreover have "locks ?v = ?l" by (auto simp: fun_eq_iff)
      ultimately show ?thesis using True iv None by (intro exI [of _ ?v]) (simp add: took_refs_def)
    next
      case (Some t)
      have it: "fs_inv (add_mset t (add_mset fd (add_mset td H))) ?v" using iv Some by (simp add: took_refs_def)
      obtain m where m: "dentries ?v t = Some m" "linked ?v t m" "t \<noteq> td" using fs_inv_child [OF it, of td tname t] Some by auto
      have put: "rename_put True t fd ?v = Some (alter t dec_handles ?v)"
        by (rule rename_put_spec [OF it m(1,2)]) (use assms(4) m(3) in simp)
      have "rename_lookup_above env fd td fname tname s = Some (Inl (LTFS_NO_DENTRY, None), alter t dec_handles ?v)"
        unfolding rename_lookup_above_def using assms(1,4) l1 l2 put Some by (cases "fd = td") (simp_all add: lock_ops hold_same)
      moreover have "locks (alter t dec_handles ?v) = ?l" by (auto simp: fun_eq_iff)
      ultimately show ?thesis using True fs_inv_put(1) [OF it m(1,2)] by (intro exI [of _ "alter t dec_handles ?v"]) simp
    qed
  next
    case False
    let ?u = "hold (Meta fd) Wr (hold (Contents fd) Wr s)"
    let ?v = "hold (Meta td) Wr (hold (Contents td) Wr ?u)"
    have "fs_directory_lookup True fd fname ?u = Some (Inr None, ?u)"
      using took_look [of ?u fd fname] wf dn len self f assms(4) by auto
    then have "rename_lookup_other env fd td fname tname s = Some (Inl (LTFS_NO_DENTRY, None), ?v)"
      unfolding rename_lookup_other_def using assms(1,4) False by (simp add: lock_ops)
    moreover have "locks ?v = ?l" by (auto simp: fun_eq_iff)
    ultimately show ?thesis using False inv by (intro exI [of _ ?v]) simp
  qed
  then obtain t where t: "(if td = fd \<or> below s fd td then rename_lookup_above env fd td fname tname s else rename_lookup_other env fd td fname tname s) =
      Some (Inl (LTFS_NO_DENTRY, None), t)" "same_tree s t" "fs_inv (add_mset fd (add_mset td H)) t" "locks t = ?l" by blast
  have wt: "fs_wf t" "resolve t fs = Some fd" "resolve t ts = Some td" using t(2,3) paths same_tree_graph(4) by (auto simp: fs_inv_def)
  obtain a b where a: "dentries t fd = Some a" "linked t fd a" "dentries t td = Some b" "linked t td b"
    using resolve_linked [OF wt(1,2)] resolve_linked [OF wt(1,3)] by blast
  obtain y where "rename_unlock env fd td None (Inl LTFS_NO_DENTRY) t = rename_end env None (Inl LTFS_NO_DENTRY) y" "same_tree t y" "fs_inv H y"
      "locks y = (locks s)(Volume := Free, Rename := Free)"
    using rename_unlock_spec [OF assms(1) t(3) a t(4), of None "Inl LTFS_NO_DENTRY"] vol assms(4) by auto
  then show ?thesis using t(1) same_tree_trans [OF t(2)] by (intro exI [of _ y] exI [of _ t]) (simp add: rename_end_def)
qed

lemma rename_dentries_refused:
  assumes "no_oom env" and inv: "fs_inv (add_mset f (took_refs (child s td tname) (add_mset fd (add_mset td H)))) s"
    and f: "child s fd fname = Some f" and paths: "resolve s fs = Some fd" "resolve s ts = Some td"
    and lk: "locks s = l(Contents fd := Wr, Meta fd := Wr, Contents td := Wr, Meta td := Wr)" "l Rename = Wr" "l Volume = Rd 1"
      "\<And>p. l (Contents p) = Free" "\<And>p. l (Meta p) = Free"
    and len: "pathname_strlen fname \<le> LTFS_FILENAME_MAX" "pathname_strlen tname \<le> LTFS_FILENAME_MAX"
    and dir: "\<And>n. dentries s td = Some n \<Longrightarrow> isdir n" and no: "\<not> can_rename s fd td f fname tname"
  shows "\<exists>e s'. rename_dentries env fd td f (child s td tname) tname s = Some (Inl e, s') \<and>
    same_tree s s' \<and> fs_inv H s' \<and> locks s' = l(Volume := Free, Rename := Free)"
proof -
  have wf: "fs_wf s" using inv by (simp add: fs_inv_def)
  obtain fdn tdn where dn: "dentries s fd = Some fdn" "dentries s td = Some tdn" using resolve_linked [OF wf] paths by blast
  obtain n where n: "dentries s f = Some n" using child_entry [OF wf f] by blast
  note pf = predecessor_below [OF wf, of td f] and pt = predecessor_below [OF wf, of fd]
  note gb = rename_give_back [OF assms(1) inv f paths lk]
  show ?thesis
  proof (cases "rename_check fd td f (child s td tname) s")
    case None
    then show ?thesis using dn n pf pt by (auto simp: rename_check_def split: option.splits if_splits)
  next
    case (Some chk)
    show ?thesis
    proof (cases chk)
      case (Inl e)
      then have "rename_dentries env fd td f (child s td tname) tname s = do {
          x \<leftarrow> rename_put (fo_mem env 13 0) f td s;
          x \<leftarrow> (case child s td tname of None \<Rightarrow> Some x | Some t \<Rightarrow> rename_put (fo_mem env 14 0) t fd x);
          rename_unlock env fd td (Some f) (Inl e) x}"
        using Some by (simp add: rename_dentries_def)
      then show ?thesis using gb [of e] by auto
    next
      case (Inr u)
      have ok: "f \<noteq> td" "\<not> below s td f" "\<And>t. child s td tname = Some t \<Longrightarrow> t \<noteq> fd \<and> \<not> below s fd t"
        using Some Inr dn n pf pt by (auto simp: rename_check_def split: option.splits if_splits)
      then obtain t m where t: "child s td tname = Some t" "t \<noteq> f" "dentries s t = Some m" "child_list m \<noteq> []"
        using no len f dn(2) dir by (auto simp: can_rename_def)
      have tn: "t \<noteq> fd" "t \<noteq> td" using ok t(1) child_entry [OF wf t(1)] parent_neq [OF wf] by auto
      have "isdir m" using fs_wf_local [OF wf t(3)] t(4) by (simp add: local_ok_def)
      then have "not_empty t s = Some (True, s)" using t(3,4) tn lk by (simp add: not_empty_def lock_ops hold_same)
      then have "rename_dentries env fd td f (child s td tname) tname s = do {
          x \<leftarrow> fs_release_dentry True f s;
          x \<leftarrow> fs_release_dentry True t x;
          rename_unlock env fd td (Some f) (Inl LTFS_DIRNOTEMPTY) x}"
        using Some Inr t(1,2) assms(1) by (simp add: rename_dentries_def)
      moreover have "(do {
          x \<leftarrow> rename_put (fo_mem env 13 0) f td s;
          x \<leftarrow> (case child s td tname of None \<Rightarrow> Some x | Some t \<Rightarrow> rename_put (fo_mem env 14 0) t fd x);
          rename_unlock env fd td (Some f) (Inl LTFS_DIRNOTEMPTY) x}) = do {
          x \<leftarrow> fs_release_dentry True f s;
          x \<leftarrow> fs_release_dentry True t x;
          rename_unlock env fd td (Some f) (Inl LTFS_DIRNOTEMPTY) x}"
        using t(1) ok(1) tn assms(1) by (simp add: rename_put_def)
      ultimately show ?thesis using gb [of LTFS_DIRNOTEMPTY] by auto
    qed
  qed
qed

lemma rename_tree_safe:
  assumes "no_oom env" and inv: "fs_inv H s" and size: "size_class.size H + 6 < U32" and "unlocked s"
    and vol: "locks s Volume = Rd 1" "locks s Rename = Wr"
    and len: "pathname_strlen fname \<le> LTFS_FILENAME_MAX" "pathname_strlen tname \<le> LTFS_FILENAME_MAX"
    and dir: "\<And>y td n. lookup_result s tdir = Inr (y, td) \<Longrightarrow> dentries s td = Some n \<Longrightarrow> isdir n"
  shows "\<exists>r s'. rename_tree env fdir fname tdir tname s = Some (r, s') \<and> fs_inv H s' \<and> locks s' = (locks s)(Volume := Free, Rename := Free) \<and>
    (isl r \<longrightarrow> same_tree s s')"
proof (cases "\<exists>x fd y td. lookup_result s fdir = Inr (x, fd) \<and> lookup_result s tdir = Inr (y, td)")
  case False
  then obtain e where "lookup_result s fdir = Inl e \<or> (\<exists>x fd. lookup_result s fdir = Inr (x, fd) \<and> lookup_result s tdir = Inl e)"
    by (cases "lookup_result s fdir"; cases "lookup_result s tdir") auto
  from rename_tree_no_dir [OF assms(1-4) vol this, of fname tname] show ?thesis
    using inv by (intro exI [of _ "Inl e"] exI [of _ "hold Volume Free (hold Rename Free s)"]) (auto simp: fun_eq_iff)
next
  case True
  then obtain x fd y td where lf: "lookup_result s fdir = Inr (x, fd)" and lt: "lookup_result s tdir = Inr (y, td)" by blast
  obtain fs ts where paths: "resolve s fs = Some fd" "resolve s ts = Some td"
    using lookup_result_resolve [OF lf] lookup_result_resolve [OF lt] by blast
  have P: "fs_wf s" "refs_ok H s" using inv by (simp_all add: fs_inv_def)
  show ?thesis
  proof (cases "child s fd fname")
    case None
    obtain fdn tdn where fd: "dentries s fd = Some fdn" and td: "dentries s td = Some tdn" using resolve_linked [OF P(1)] paths by blast
    let ?a = "alter fd inc_handles s"
    let ?b = "alter td inc_handles ?a"
    obtain m where m: "dentries ?a td = Some m" using td by (cases "td = fd") auto
    have ia: "fs_inv (add_mset fd H) ?a" using fs_inv_get [OF inv fd] size by simp
    have ib: "fs_inv (add_mset fd (add_mset td H)) ?b" using fs_inv_get [OF ia m] size by (simp add: add_mset_commute)
    have wa: "fs_wf ?a" "refs_ok (add_mset fd H) ?a" "unlocked ?a" using ia assms(4) by (simp_all add: fs_inv_def)
    have S: "same_tree s ?a" "same_tree s ?b" by simp_all
    have pb: "fs_is_predecessor td fd ?b = Some (below ?b fd td)" using predecessor_below [of ?b fd td] ib fd by (simp add: fs_inv_def)
    obtain t s' where t: "(if td = fd \<or> below ?b fd td then rename_lookup_above env fd td fname tname ?b else rename_lookup_other env fd td fname tname ?b) =
        Some (Inl (LTFS_NO_DENTRY, None), t)" "rename_unlock env fd td None (Inl LTFS_NO_DENTRY) t = Some (Inl LTFS_NO_DENTRY, s')"
        "same_tree ?b s'" "fs_inv H s'" "locks s' = (locks ?b)(Volume := Free, Rename := Free)"
      using rename_missing [OF assms(1) ib _ _ _ _ _ _ _ len, of fs ts] size assms(4) vol paths None by auto
    have "rename_tree env fdir fname tdir tname s = Some (Inl LTFS_NO_DENTRY, s')"
      unfolding rename_tree_def using assms(1) lf lt t(1,2) pb
      by (cases "td = fd") (simp_all add: path_lookup_plain [OF P assms(4)] path_lookup_plain [OF wa] same_tree_lookup [OF S(1)])
    then show ?thesis using t(3-5) same_tree_trans [OF S(2)] by (intro exI [of _ "Inl LTFS_NO_DENTRY"] exI [of _ s']) simp
  next
    case (Some f)
    obtain u where u: "rename_tree env fdir fname tdir tname s = rename_dentries env fd td f (child u td tname) tname u" "same_tree s u"
      "fs_inv (add_mset f (took_refs (child u td tname) (add_mset fd (add_mset td H)))) u"
      "locks u = (locks s)(Contents fd := Wr, Meta fd := Wr, Contents td := Wr, Meta td := Wr)"
      using rename_tree_start [OF assms(1-4) lf lt Some len] by blast
    have wu: "fs_wf u" "resolve u fs = Some fd" "resolve u ts = Some td" "child u fd fname = Some f"
      using u(2,3) paths Some same_tree_graph [OF u(2)] by (simp_all add: fs_inv_def)
    have lu: "\<And>p. locks s (Contents p) = Free" "\<And>p. locks s (Meta p) = Free" using assms(4) by simp_all
    have du: "isdir n" if "dentries u td = Some n" for n
      using same_tree_node [OF same_tree_sym [OF u(2)] that] dir [OF lt] by auto
    show ?thesis
    proof (cases "can_rename u fd td f fname tname")
      case True
      obtain n where "dentries u f = Some n" using child_entry [OF wu(1,4)] by blast
      from rename_dentries_ok [OF assms(1) True u(3) this u(4) vol(2,1) lu wu(2,3)] show ?thesis unfolding u(1) by force
    next
      case False
      from rename_dentries_refused [OF assms(1) u(3) wu(4,2,3) u(4) vol(2,1) lu len du False] show ?thesis
        unfolding u(1) using same_tree_trans [OF u(2)] by force
    qed
  qed
qed

section \<open>Sessions\<close>

text \<open>
  The index of a new volume (\<^verbatim>\<open>ltfs_index_alloc\<close>), its mutexes being initialised: a root without entries.
\<close>

definition ltfs_index_alloc :: "(nat \<Rightarrow> bool) \<Rightarrow> nat \<Rightarrow> (err + fs) option" where
  "ltfs_index_alloc mem inode =
     (if \<not> mem 0 then Some (Inl LTFS_NO_MEMORY)
      else do {
        (a, s) \<leftarrow> fs_allocate_dentry (\<lambda>i. mem (i + 1)) None (Some [slash]) None True False False
          \<lparr>dentries = (\<lambda>_. None), fresh_dentry = 0, inode_number = inode, root = 0, uid_number = 1, file_count = 0, valid_blocks = 0,
           criteria = \<lparr>have_criteria = False, max_filesize_criteria = 0, glob_patterns = None, glob_cache = None\<rparr>, locks = (\<lambda>_. Free)\<rparr>;
        case a of
          None \<Rightarrow> Some (Inl LTFS_NO_MEMORY)
        | Some p \<Rightarrow> do { s \<leftarrow> change p (link_count_update inc32) (s\<lparr>root := p\<rparr>); Some (Inr s) }})"

lemma index_alloc_rest:
  assumes "ltfs_index_alloc mem inode = Some (Inr s)"
  shows "at_rest {#} s" "resolve s = [[] \<mapsto> root s]"
proof -
  obtain n where n: "dentries s = [0 \<mapsto> n]" "root s = 0" "isdir n" "parent n = None" "platform_safe_name n = Some [slash]" "child_list n = []"
    "\<not> deleted n" "\<not> out_of_sync n" "numhandles n = 1" "fresh_dentry s = 1" "locks s = (\<lambda>_. Free)"
    using assms
    by (auto simp: ltfs_index_alloc_def fs_allocate_dentry_def new_names_def Let_def change_def alter_def blank_node_def split: if_splits)
  show "at_rest {#} s" using n by (auto simp: at_rest_def fs_inv_def fs_wf_def refs_ok_def node_ok_def linked_def U32_def split: if_splits)
  show "resolve s = [[] \<mapsto> root s]"
  proof
    show "resolve s ks = [[] \<mapsto> root s] ks" for ks using n by (cases ks) (auto simp: resolve_def child_def)
  qed
qed

text \<open>What is allocated: the dentries in the tree and those that are referenced.\<close>

lemma allocated_iff:
  assumes "at_rest H s"
  shows "dentries s p \<noteq> None \<longleftrightarrow> p \<in># H \<or> (\<exists>ks. resolve s ks = Some p)"
proof -
  have wf: "fs_wf s" and r: "refs_ok H s" using at_rest_parts [OF assms] by simp_all
  show ?thesis
  proof
    assume "dentries s p \<noteq> None"
    then obtain n where n: "dentries s p = Some n" by auto
    show "p \<in># H \<or> (\<exists>ks. resolve s ks = Some p)"
      using refs_node [OF r n] linked_iff_resolves [OF wf n] by (auto simp: count_eq_zero_iff split: if_splits)
  next
    assume "p \<in># H \<or> (\<exists>ks. resolve s ks = Some p)"
    then show "dentries s p \<noteq> None" using refs_handle [OF r] resolve_linked [OF wf] by fastforce
  qed
qed

text \<open>The calls on an open dentry that change neither the tree nor a counter of references.\<close>

lemma contents_quiet:
  assumes "at_rest H s"
  shows "at_rest H (alter d (put_contents c) s)" "resolve (alter d (put_contents c) s) = resolve s"
  using alter_quiet(1) [of "put_contents c" H d s] alter_quiet(2) [of "put_contents c" d s] assms
  by (simp_all add: put_contents_def shape_def at_rest_def)

lemma criteria_fields [simp]: "resolve (s\<lparr>criteria := c\<rparr>) = resolve s" "fs_inv H (s\<lparr>criteria := c\<rparr>) = fs_inv H s"
proof -
  have "child (s\<lparr>criteria := c\<rparr>) = child s" by (simp add: child_def fun_eq_iff)
  then show "resolve (s\<lparr>criteria := c\<rparr>) = resolve s" by (intro ext) (simp add: resolve_def)
qed (simp add: fs_inv_def fs_wf_def refs_ok_def node_ok_def linked_def)

lemma update_blocks_rest:
  assumes rest: "at_rest H s" and call: "ltfs_fsops_update_used_blocks d (vol, s) = Some (r, vol', s')"
  shows "at_rest H s'" "vol' = vol" "dentries s' d \<noteq> None"
proof -
  have inv: "fs_inv H s" and lk: "\<forall>l. locks s l = Free" using rest by (simp_all add: at_rest_def)
  obtain n where n: "dentries s d = Some n"
    using call lk by (cases "dentries s d") (auto simp: ltfs_fsops_update_used_blocks_def lock_ops)
  have "at_rest H s' \<and> vol' = vol \<and> dentries s' d \<noteq> None"
  proof (cases "reval vol")
    case None
    then show ?thesis using update_blocks_spec [OF inv n lk None] call lk by (auto simp: at_rest_def)
  next
    case (Some e)
    let ?f = "used_blocks_update (\<lambda>_. fs_get_used_blocks (blocksize (vol_label vol)) n)"
    have "fs_inv H (alter d ?f s)" using alter_quiet(1) [of ?f H d s] inv by (simp add: shape_def)
    moreover have "ltfs_fsops_update_used_blocks d (vol, s) =
        ltfs_update_valid_block_count (fs_get_used_blocks (blocksize (vol_label vol)) n) (used_blocks n) (vol, alter d ?f s)"
      using n lk by (simp add: ltfs_fsops_update_used_blocks_def lock_ops hold_same Let_def)
    moreover have "take_volume (vol, alter d ?f s) = None \<or> (\<exists>e. take_volume (vol, alter d ?f s) = Some (Inl e, vol, alter d ?f s))"
      using Some lk by (auto simp: volume_lock_free split: option.splits)
    ultimately show ?thesis using call lk n by (auto simp: ltfs_update_valid_block_count_def at_rest_def)
  qed
  then show "at_rest H s'" "vol' = vol" "dentries s' d \<noteq> None" by auto
qed

lemma close_times_rest:
  assumes "at_rest H s" and "close_times env d s = Some s'"
  shows "at_rest H s'" "dentries s' d \<noteq> None"
proof -
  obtain n where n: "dentries s d = Some n" using assms(2) by (cases "dentries s d") (auto simp: close_times_def)
  show "at_rest H s'" "dentries s' d \<noteq> None" using close_times_spec [OF _ n, of H env] assms by (auto simp: at_rest_def)
qed

lemma close_rest:
  assumes rest: "at_rest H s" and d: "d \<in># H"
    and call: "ltfs_fsops_close env d flush open_write ios (vol, s) = Some (r, vol', s')"
  shows "at_rest (H - {#d#}) s'" "vol' = vol"
proof -
  obtain a where a: "close_times env d s = Some a" using call by (cases "close_times env d s") (auto simp: ltfs_fsops_close_def)
  note ra = close_times_rest [OF rest a]
  define u where "u = (if open_write then ltfs_fsops_update_used_blocks d (vol, a) else Some (Inr (), vol, a))"
  obtain ru vu b where u: "u = Some (ru, vu, b)"
    using call a by (cases u) (auto simp: ltfs_fsops_close_def u_def split: if_splits)
  have b: "at_rest H b" "vu = vol" "dentries b d \<noteq> None"
    using u ra update_blocks_rest [OF ra(1), of d vol ru vu b] by (auto simp: u_def split: if_splits)
  have H: "add_mset d (H - {#d#}) = H" using d by simp
  obtain t where t: "fs_release_dentry (fo_mem (oe_tree env) 30 0) d b = Some t" "fs_inv (H - {#d#}) t" "locks t = locks b"
    using release_spec [of d "H - {#d#}" b] b(1) H by (metis at_rest_def)
  have "s' = t \<and> vol' = vu"
    using call a u b(3) t(1) unfolding ltfs_fsops_close_def ltfs_fsraw_close_def fcfs_close_def
    by (auto simp: u_def [symmetric] split: if_splits)
  then show "at_rest (H - {#d#}) s'" "vol' = vol" using t b by (simp_all add: at_rest_def)
qed

text \<open>Opening, for reading or for writing.\<close>

lemma match_dentry_rest:
  assumes "match_dentry env d s = Some s'" and "fs_inv H s"
  shows "fs_inv H s'" "locks s' = locks s" "resolve s' = resolve s" "dentries s' d \<noteq> None"
proof -
  obtain b ic where s': "s' = alter d (matches_name_criteria_update (\<lambda>_. b)) (s\<lparr>criteria := ic\<rparr>)" "dentries s d \<noteq> None"
  proof -
    obtain n nm where "dentries s d = Some n" "d_name n = Some nm" using assms(1) by (auto simp: match_dentry_def bind_eq_Some_conv)
    then show thesis using that match_dentry_spec [of s d n nm env] assms(1) by auto
  qed
  let ?f = "matches_name_criteria_update (\<lambda>_. b)"
  show "fs_inv H s'" "locks s' = locks s" "resolve s' = resolve s" "dentries s' d \<noteq> None"
    using s' assms(2) alter_quiet(1) [of ?f H d "s\<lparr>criteria := ic\<rparr>"] alter_quiet(2) [of ?f d "s\<lparr>criteria := ic\<rparr>"]
    by (simp_all add: shape_def)
qed

lemma fsraw_open_rest:
  assumes rest: "at_rest H s" and size: "size_class.size H + 3 < U32" and "no_oom (oe_tree env)" and names: "\<forall>k \<in> set ks. name_ok k"
    and call: "ltfs_fsraw_open env (path_text ks) w (vol, s) = Some (r, vol', s')"
  shows "at_rest (case r of Inl _ \<Rightarrow> H | Inr d \<Rightarrow> add_mset d H) s'" "vol' = vol"
proof -
  let ?s = "hold Volume (Rd 1) s"
  note V = at_rest_volume [OF rest] and L = at_restD [OF rest]
  have P: "fs_wf s" "fs_inv H s" using at_rest_parts [OF rest] by simp_all
  have bk: "hold Volume Free (hold Volume (Rd 1) s) = s" using rest by (rule hold_back)
  have "at_rest (case r of Inl _ \<Rightarrow> H | Inr d \<Rightarrow> add_mset d H) s' \<and> vol' = vol"
  proof (cases "reval vol")
    case None
    note tv = take_volume_ready [OF None]
    show ?thesis
    proof (cases "resolve s ks")
      case None
      have "fs_path_lookup True True (path_text ks) {} ?s = Some (Inl LTFS_NO_DENTRY, ?s)"
        unfolding path_lookup_plain [OF V(1-3)] using lookup_names [OF names, of "path_text ks" ?s] None by simp
      then show ?thesis using call rest assms(3) bk unfolding ltfs_fsraw_open_def by (auto simp: tv release_volume_held)
    next
      case (Some d)
      have look: "fs_path_lookup True True (path_text ks) {} ?s = Some (Inr d, alter d inc_handles ?s)"
        unfolding path_lookup_plain [OF V(1-3)] using lookup_names [OF names, of "path_text ks" ?s] Some by simp
      obtain n where n: "dentries s d = Some n" using resolve_linked [OF P(1) Some] by blast
      have inv: "fs_inv (add_mset d H) (alter d inc_handles s)" using fs_inv_get [OF P(2) n size] .
      define b where "b = (if w \<and> \<not> isdir n then do {
          s \<leftarrow> acquirewrite_mrsw (Meta d) (alter d inc_handles ?s);
          let mx = index_criteria_get_max_filesize (criteria s);
          s \<leftarrow> (if \<not> matches_name_criteria n \<and> 0 < mx \<and> size n \<le> mx then match_dentry (oe_tree env) d s else Some s);
          releasewrite_mrsw (Meta d) s} else Some (alter d inc_handles ?s))"
      have eq: "ltfs_fsraw_open env (path_text ks) w (vol, s) = do { t \<leftarrow> b; release_volume (Inr d) (vol, t) }"
        using look n rest assms(3) unfolding ltfs_fsraw_open_def b_def by (simp add: tv del: if_split)
      then obtain t where t: "b = Some t" using call by (cases b) auto
      have "fs_inv (add_mset d H) t \<and> locks t = (locks s)(Volume := Rd 1)"
      proof (cases "w \<and> \<not> isdir n")
        case True
        define a where "a = hold (Meta d) Wr (hold Volume (Rd 1) (alter d inc_handles s))"
        have a: "fs_inv (add_mset d H) a" "locks a = (locks s)(Volume := Rd 1, Meta d := Wr)" using inv by (simp_all add: a_def)
        define g where "g = (if \<not> matches_name_criteria n \<and> 0 < index_criteria_get_max_filesize (criteria a) \<and>
            size n \<le> index_criteria_get_max_filesize (criteria a) then match_dentry (oe_tree env) d a else Some a)"
        have "acquirewrite_mrsw (Meta d) (alter d inc_handles ?s) = Some a" using rest by (simp add: lock_ops a_def)
        then have "b = do { c \<leftarrow> g; releasewrite_mrsw (Meta d) c }" using True by (simp add: b_def g_def Let_def del: alter_hold if_split)
        then obtain c where c: "g = Some c" "releasewrite_mrsw (Meta d) c = Some t" using t by (cases g) auto
        have c: "fs_inv (add_mset d H) c" "locks c = locks a" "releasewrite_mrsw (Meta d) c = Some t"
          using c a(1) match_dentry_rest [of "oe_tree env" d a c "add_mset d H"] by (auto simp: g_def split: if_splits)
        then have "t = hold (Meta d) Free c" using a(2) by (simp add: lock_ops)
        then show ?thesis using c a(2) L by (auto simp: fun_eq_iff)
      next
        case False
        then show ?thesis using t inv unfolding b_def by auto
      qed
      then have "at_rest (add_mset d H) (hold Volume Free t)" "locks t Volume = Rd 1" using L by (auto simp: at_rest_def)
      then show ?thesis using call eq t by (auto simp: release_volume_held)
    qed
  next
    case (Some e)
    then show ?thesis
      using call rest unfolding ltfs_fsraw_open_def by (auto simp: volume_lock_free split: if_splits)
  qed
  then show "at_rest (case r of Inl _ \<Rightarrow> H | Inr d \<Rightarrow> add_mset d H) s'" "vol' = vol" by auto
qed

lemma open_rest:
  assumes rest: "at_rest H s" and size: "size_class.size H + 6 < U32" and "no_oom (oe_tree env)"
    and fmt: "format_path env 0 True path = Some (Inr (path_text ks))" and names: "\<forall>k \<in> set ks. name_ok k"
    and call: "ltfs_fsops_open env path w ios (vol, s) = Some (r, vol', s')"
  shows "at_rest (case r of Inl _ \<Rightarrow> H | Inr d \<Rightarrow> add_mset d H) s'"
proof (cases "w \<and> isl (ltfs_get_tape_readonly vol)")
  case True
  then show ?thesis using call rest by (auto simp: ltfs_fsops_open_def isl_def)
next
  case False
  then have nm: "open_named env path w ios (vol, s) = Some (r, vol', s')"
    using call by (cases w; cases "ltfs_get_tape_readonly vol") (auto simp: ltfs_fsops_open_def)
  have od: "open_dentry env (path_text ks) u ios (vol, s) = ltfs_fsraw_open env (path_text ks) u (vol, s)" for u
    by (simp add: open_dentry_def fcfs_open_def)
  obtain q v t where q: "ltfs_fsraw_open env (path_text ks) w (vol, s) = Some (q, v, t)"
    using nm by (cases "ltfs_fsraw_open env (path_text ks) w (vol, s)") (auto simp: open_named_def fmt od)
  have t: "at_rest (case q of Inl _ \<Rightarrow> H | Inr d \<Rightarrow> add_mset d H) t" "v = vol" using fsraw_open_rest [OF rest _ assms(3) names q] size by simp_all
  show ?thesis
  proof (cases q)
    case (Inl e)
    then show ?thesis using nm t q by (auto simp: open_named_def fmt od)
  next
    case (Inr d)
    have rt: "at_rest (add_mset d H) t" using t Inr by simp
    obtain n where n: "dentries t d = Some n" using nm q Inr by (cases "dentries t d") (auto simp: open_named_def fmt od)
    show ?thesis
    proof (cases "w \<and> isslink n")
      case True
      obtain z v2 t2 where z: "ltfs_fsops_close env d False w ios (v, t) = Some (z, v2, t2)"
        using nm q Inr n True by (cases "ltfs_fsops_close env d False w ios (v, t)") (auto simp: open_named_def fmt od)
      then show ?thesis
        using nm q Inr n True close_rest(1) [OF rt _ z] by (auto simp: open_named_def fmt od)
    next
      case False
      then show ?thesis using nm q Inr n rt by (auto simp: open_named_def fmt od)
    qed
  qed
qed

text \<open>Calls on a dentry that is open.\<close>

lemma fsraw_rest:
  assumes rest: "at_rest H s" and n: "dentries s d = Some n"
  shows "fsraw_write ops env d buf offset part ut (vol, s) = Some (r, vol', s') \<Longrightarrow> at_rest H s'"
    "fsraw_read ops env d len offset (vol, s) = Some (q, vol', s') \<Longrightarrow> at_rest H s'"
  using contents_quiet(1) [OF rest] rest by (auto simp: fsraw_write_eq [OF n] fsraw_read_eq [OF n])

lemma write_rest:
  assumes "at_rest H s" and "ltfs_fsops_write ops env d buf offset ut (vol, s) = Some (r, vol', s')"
  shows "at_rest H s'"
proof -
  let ?g = "need_update_time_update (\<lambda>_. True)"
  have "at_rest H (alter d ?g t)" if "at_rest H t" for t using that alter_quiet(1) [of ?g H d t] by (simp add: shape_def at_rest_def)
  then show ?thesis
    using assms fsraw_rest(1) [OF assms(1)] unfolding ltfs_fsops_write_def fcfs_write_def
    by (fastforce simp: change_def bind_eq_Some_conv split: if_splits)
qed

lemma read_rest:
  assumes "at_rest H s" and "ltfs_fsops_read ops env d len offset (vol, s) = Some (r, vol', s')"
  shows "at_rest H s'"
  using assms fsraw_rest(2) [OF assms(1)] unfolding ltfs_fsops_read_def fcfs_read_def
  by (auto simp: bind_eq_Some_conv split: if_splits)

text \<open>An assignment under the volume lock and the locks of the dentry.\<close>

lemma locked_rest:
  assumes rest: "at_rest H s" and f: "\<And>n. shape (f n) = shape n" "\<And>n. numhandles (f n) = numhandles n"
  shows "at_rest H (hold Volume Free (hold l Free (alter d f (hold l Wr (hold Volume (Rd 1) s)))))"
proof -
  have "fs_inv H (alter d f x) = fs_inv H x" for x using alter_quiet(1) [OF f] .
  then show ?thesis using rest by (simp add: at_rest_def)
qed

lemma utimens_rest:
  assumes rest: "at_rest H s" and call: "ltfs_fsops_utimens ops env ts d (vol, s) = Some (r, vol', s')"
  shows "at_rest H s'"
proof -
  have f: "shape (set_times now ts n) = shape n" "numhandles (set_times now ts n) = numhandles n" for now n
    by (simp_all add: set_times_def shape_def Let_def)
  show ?thesis
    using call rest locked_rest [OF rest f, of "Meta d" d] unfolding ltfs_fsops_utimens_def
    by (auto simp: obind_def bind_eq_Some_conv lock_ops release_volume_held at_rest_def change_def
        dest!: device_ok_state take_volume_state split: sum.splits option.splits if_splits)
qed

lemma set_readonly_rest:
  assumes rest: "at_rest H s" and call: "ltfs_fsops_set_readonly ops env ro d (vol, s) = Some (r, vol', s')"
  shows "at_rest H s'"
proof -
  let ?f = "\<lambda>n. n\<lparr>d_readonly := ro, change_time := fo_now (oe_tree env)\<rparr>"
  have f: "shape (?f n) = shape n" "numhandles (?f n) = numhandles n" for n by (simp_all add: shape_def)
  show ?thesis
    using call rest locked_rest [OF rest f, of "Meta d" d] unfolding ltfs_fsops_set_readonly_def
    by (auto simp: obind_def bind_eq_Some_conv lock_ops release_volume_held at_rest_def change_def
        dest!: device_ok_state take_volume_state split: sum.splits option.splits if_splits)
qed

lemma truncate_rest:
  assumes rest: "at_rest H s" and call: "ltfs_fsops_truncate ops env len d (vol, s) = Some (r, vol', s')"
  shows "at_rest H s'"
proof -
  have raw: "at_rest H t" if c: "fsraw_truncate env d l (v, s) = Some (q, v', t)" for l v q v' t
  proof -
    obtain x vx sx where x: "take_volume (v, s) = Some (x, vx, sx)" using c by (cases "take_volume (v, s)") (auto simp: fsraw_truncate_def)
    note tv = take_volume_state [OF x at_restD [OF rest]]
    show ?thesis
    proof (cases x)
      case (Inl e)
      then have "sx = s" using tv(2) by simp
      then show ?thesis using c x Inl rest by (auto simp: fsraw_truncate_def)
    next
      case (Inr u)
      have q: "fs_inv H (alter d (put_contents c') y) = fs_inv H y" for c' y
        using alter_quiet(1) [of "put_contents c'" H d y] by (simp add: put_contents_def shape_def)
      obtain n where "dentries s d = Some n" using c x tv rest Inr by (cases "dentries s d") (auto simp: fsraw_truncate_def lock_ops)
      then show ?thesis
        using c x tv rest Inr by (auto simp: fsraw_truncate_def lock_ops release_volume_held at_rest_def q split: prod.splits)
    qed
  qed
  show ?thesis
  proof (cases "len < 0")
    case False
    obtain n where n: "dentries s d = Some n" using call False by (cases "dentries s d") (auto simp: ltfs_fsops_truncate_def)
    show ?thesis
    proof (cases "isdir n")
      case False
      then obtain x vx sx where x: "device_ok ops env False (vol, s) = Some (x, vx, sx)"
        using call n \<open>\<not> len < 0\<close> by (cases "device_ok ops env False (vol, s)") (auto simp: ltfs_fsops_truncate_def)
      have sx: "sx = s" using device_ok_state [OF x] rest by simp
      show ?thesis
      proof (cases x)
        case (Inr u)
        then obtain q vq t where t: "fsraw_truncate env d (nat len) (vx, s) = Some (q, vq, t)"
            "ltfs_fsops_update_used_blocks d (vq, t) = Some (r, vol', s')"
          using call n False \<open>\<not> len < 0\<close> x sx unfolding ltfs_fsops_truncate_def fcfs_truncate_def
          by (cases "fsraw_truncate env d (nat len) (vx, s)") auto
        then show ?thesis using update_blocks_rest(1) [OF raw [OF t(1)] t(2)] by simp
      qed (use call n False \<open>\<not> len < 0\<close> x sx rest in \<open>auto simp: ltfs_fsops_truncate_def\<close>)
    qed (use call n \<open>\<not> len < 0\<close> rest in \<open>auto simp: ltfs_fsops_truncate_def\<close>)
  qed (use call rest in \<open>auto simp: ltfs_fsops_truncate_def\<close>)
qed

text \<open>A handler that has passed the device check, the formatting of its path and the volume lock.\<close>

lemma create_rest:
  assumes rest: "at_rest H s" and size: "size_class.size H + 6 < U32" and "no_oom (oe_tree env)"
    and fmt: "format_path env 0 False path = Some (Inr (path_text (ds @ [k])))" and names: "\<forall>x \<in> set (ds @ [k]). name_ok x"
    and dir: "\<And>par n. resolve s ds = Some par \<Longrightarrow> dentries s par = Some n \<Longrightarrow> isdir n"
    and uid: "0 < uid_number s" "uid_number s + 1 < U64"
    and call: "ltfs_fsops_create ops env path isd readonly (vol, s) = Some (r, vol', s')"
  shows "at_rest (case r of Inl _ \<Rightarrow> H | Inr d \<Rightarrow> add_mset d H) s'"
proof -
  note V = at_rest_volume [OF rest]
  let ?s = "hold Volume (Rd 1) s" and ?dir = "if ds = [] then [] else path_text ds"
  have n2: "\<forall>x \<in> set ds. name_ok x" "name_ok k" using names by simp_all
  have split: "fs_split_path (path_text (ds @ [k])) = Some (?dir, k)" using n2 by (intro split_path_text) (simp add: name_ok_def)
  have tree: "\<exists>r t. create_tree (oe_tree env) (path_text (ds @ [k])) isd readonly ?s = Some (r, t) \<and> locks t Volume = Rd 1 \<and>
      at_rest (case r of Inl _ \<Rightarrow> H | Inr d \<Rightarrow> add_mset d H) (hold Volume Free t)"
  proof (cases "resolve s ds")
    case None
    then have "lookup_result ?s ?dir = Inl LTFS_NO_DENTRY" using lookup_names [OF n2(1), of ?dir ?s] by auto
    then show ?thesis using create_tree_fails(1) [OF V(1-3) assms(3) split] rest hold_back [OF rest] by simp
  next
    case (Some par)
    obtain pn where pn: "dentries s par = Some pn" using resolve_linked [of s ds par] Some at_rest_parts [OF rest] by blast
    have look: "lookup_result ?s ?dir = Inr (if ds = [] then None else resolve s (butlast ds), par)"
      using lookup_names [OF n2(1), of ?dir ?s] Some by auto
    show ?thesis
    proof (cases "child s par k")
      case None
      then have "resolve s (ds @ [k]) = None" using resolve_child [OF Some] by simp
      from create_tree_adds [OF rest _ assms(3) names Some pn dir [OF Some pn] this uid, of isd readonly] size show ?thesis by fastforce
    next
      case (Some c)
      then have "create_tree (oe_tree env) (path_text (ds @ [k])) isd readonly ?s = Some (Inl LTFS_DENTRY_EXISTS, ?s)"
        using n2 by (intro create_tree_fails(3) [OF V(1-3) assms(3) split look]) (simp_all add: name_ok_def)
      then show ?thesis using rest hold_back [OF rest] by simp
    qed
  qed
  then obtain q t where t: "create_tree (oe_tree env) (path_text (ds @ [k])) isd readonly ?s = Some (q, t)" "locks t Volume = Rd 1"
    "at_rest (case q of Inl _ \<Rightarrow> H | Inr d \<Rightarrow> add_mset d H) (hold Volume Free t)" by blast
  obtain a v x where x: "device_ok ops env False (vol, s) = Some (a, v, x)"
    using call by (cases "device_ok ops env False (vol, s)") (auto simp: ltfs_fsops_create_def)
  then have xs: "x = s" using device_ok_state rest by (metis at_restD)
  show ?thesis
  proof (cases a)
    case (Inl e)
    then show ?thesis using call x xs rest by (auto simp: ltfs_fsops_create_def)
  next
    case (Inr w)
    then have c: "obind (take_volume (v, s)) (\<lambda>_ (vol, s). do {
         (r, s) \<leftarrow> create_tree (oe_tree env) (path_text (ds @ [k])) isd readonly s;
         release_volume r (case r of Inl _ \<Rightarrow> vol | Inr _ \<Rightarrow> set_dirty False vol, s)}) = Some (r, vol', s')"
      using call x xs fmt by (simp add: ltfs_fsops_create_def)
    then obtain b v' y where y: "take_volume (v, s) = Some (b, v', y)" by (cases "take_volume (v, s)") auto
    note tv = take_volume_state [OF y] rest
    show ?thesis
    proof (cases b)
      case (Inl e)
      then show ?thesis using c y tv by auto
    next
      case (Inr z)
      then have "y = ?s" using tv by simp
      then show ?thesis using c y Inr t by (auto simp: release_volume_held)
    qed
  qed
qed

lemma unlink_rest:
  assumes rest: "at_rest H s" and "no_oom (oe_tree env)"
    and fmt: "format_path env 0 True path = Some (Inr (path_text (ds @ [k])))" and names: "\<forall>x \<in> set (ds @ [k]). name_ok x"
    and call: "ltfs_fsops_unlink ops env path (vol, s) = Some (r, vol', s')"
  shows "at_rest H s'"
proof -
  note V = at_rest_volume [OF rest]
  let ?s = "hold Volume (Rd 1) s" and ?p = "path_text (ds @ [k])"
  have tree: "at_rest H t" if t: "unlink_tree (oe_tree env) ?p ?s = Some (q, t)" for q t
  proof (cases "resolve s (ds @ [k])")
    case None
    then have "lookup_result ?s ?p = Inl LTFS_NO_DENTRY" using lookup_names [OF names, of ?p ?s] by simp
    then show ?thesis using unlink_tree_fails [OF V(1-3,5) assms(2)] t rest hold_back [OF rest] by simp
  next
    case (Some d)
    then obtain par where par: "resolve s ds = Some par" "child s par k = Some d" by (auto simp: resolve_def path_of_snoc)
    obtain n where n: "dentries s d = Some n" using resolve_linked [of s "ds @ [k]" d] Some at_rest_parts [OF rest] by blast
    have look: "lookup_result ?s ?p = Inr (Some par, d)" using lookup_names [OF names, of ?p ?s] Some par(1) by simp
    show ?thesis
    proof (cases "child_list n = []")
      case True
      then show ?thesis using unlink_tree_removes [OF rest assms(2) names Some n] t by auto
    next
      case False
      then show ?thesis using unlink_tree_not_empty [OF V(1-3) assms(2) look, of n] n t by simp
    qed
  qed
  obtain a v x where x: "device_ok ops env True (vol, s) = Some (a, v, x)"
    using call by (cases "device_ok ops env True (vol, s)") (auto simp: ltfs_fsops_unlink_def)
  then have xs: "x = s" using device_ok_state rest by (metis at_restD)
  show ?thesis
  proof (cases a)
    case (Inl e)
    then show ?thesis using call x xs rest by (simp add: ltfs_fsops_unlink_def)
  next
    case (Inr w)
    then have c: "obind (take_volume (v, s)) (\<lambda>_ (vol, s). do {
           (r, s) \<leftarrow> unlink_tree (oe_tree env) ?p s;
           Some (case r of
               Inl e \<Rightarrow> (Inl e, vol, s)
             | Inr None \<Rightarrow> (Inr (0, 0), vol, s)
             | Inr (Some ids) \<Rightarrow> (Inr ids, set_dirty False vol, s))}) = Some (r, vol', s')"
      using call x xs fmt path_text_cases [OF names] by (simp add: ltfs_fsops_unlink_def)
    then obtain b v' y where y: "take_volume (v, s) = Some (b, v', y)" by (cases "take_volume (v, s)") auto
    note tv = take_volume_state [OF y] rest
    show ?thesis
    proof (cases b)
      case (Inl e)
      then show ?thesis using c y tv by auto
    next
      case (Inr z)
      then have "y = ?s" using tv by simp
      then show ?thesis using c y Inr tree by (auto split: bind_splits sum.splits option.splits)
    qed
  qed
qed

lemma rename_rest:
  assumes rest: "at_rest H s" and size: "size_class.size H + 6 < U32" and "no_oom (oe_tree env)" "oe_copy env"
    and fmt: "format_path env 0 True from = Some (Inr (path_text (fs @ [fn])))" "format_path env 1 False to = Some (Inr (path_text (ts @ [tn])))"
    and names: "\<forall>x \<in> set (fs @ [fn]). name_ok x" "\<forall>x \<in> set (ts @ [tn]). name_ok x"
    and dir: "\<And>td n. resolve s ts = Some td \<Longrightarrow> dentries s td = Some n \<Longrightarrow> isdir n"
    and call: "ltfs_fsops_rename ops env from to (vol, s) = Some (r, vol', s')"
  shows "at_rest H s'"
proof -
  let ?s = "hold Rename Wr (hold Volume (Rd 1) s)" and ?fd = "if fs = [] then [] else path_text fs" and ?td = "if ts = [] then [] else path_text ts"
  note P = at_rest_parts [OF rest]
  have n2: "\<forall>x \<in> set ts. name_ok x" "name_ok fn" "name_ok tn" using names by simp_all
  have td: "isdir n" if "lookup_result ?s ?td = Inr (y, td)" "dentries ?s td = Some n" for y td n
    using lookup_names [OF n2(1), of ?td ?s] that dir by (auto split: option.splits if_splits)
  have "\<exists>q t. rename_tree (oe_tree env) ?fd fn ?td tn ?s = Some (q, t) \<and> fs_inv H t \<and>
      locks t = (locks ?s)(Volume := Free, Rename := Free) \<and> (isl q \<longrightarrow> same_tree ?s t)"
  proof (rule rename_tree_safe [OF assms(3) _ size])
    show "isdir n" if "lookup_result ?s ?td = Inr (y, td)" "dentries ?s td = Some n" for y td n using td that .
  qed (use P n2 in \<open>simp_all add: name_ok_def\<close>)
  then obtain q t where t: "rename_tree (oe_tree env) ?fd fn ?td tn ?s = Some (q, t)" "fs_inv H t"
      "locks t = (locks ?s)(Volume := Free, Rename := Free)" by blast
  have rt: "at_rest H t" using t(2,3) rest by (simp add: at_rest_def)
  obtain a v x where x: "device_ok ops env True (vol, s) = Some (a, v, x)"
    using call by (cases "device_ok ops env True (vol, s)") (auto simp: ltfs_fsops_rename_def)
  then have xs: "x = s" using device_ok_state rest by (metis at_restD)
  show ?thesis
  proof (cases a)
    case (Inl e)
    then show ?thesis using call x xs rest by (simp add: ltfs_fsops_rename_def)
  next
    case (Inr w)
    have sp: "fs_split_path (path_text (fs @ [fn])) = Some (?fd, fn)" "fs_split_path (path_text (ts @ [tn])) = Some (?td, tn)"
      using n2 split_path_text by (simp_all add: name_ok_def)
    have c: "rename_locked env (?fd, fn) (?td, tn) (v, s) = Some (r, vol', s')"
      using call x xs fmt Inr assms(4) sp by (simp add: ltfs_fsops_rename_def)
    then obtain b v' y where y: "take_volume (v, s) = Some (b, v', y)" by (cases "take_volume (v, s)") (auto simp: rename_locked_def)
    note tv = take_volume_state [OF y] rest
    show ?thesis
    proof (cases b)
      case (Inl e)
      then show ?thesis using c y tv by (auto simp: rename_locked_def)
    next
      case (Inr z)
      then have "y = hold Volume (Rd 1) s" using tv by simp
      moreover have "acquirewrite_mrsw Rename (hold Volume (Rd 1) s) = Some ?s" using rest by (simp add: lock_ops)
      ultimately show ?thesis using c y Inr t(1) rt by (auto simp: rename_locked_def split: sum.splits)
    qed
  qed
qed

text \<open>
  The calls that clients make, with canonical paths: the references \<open>H\<close> that they hold follow from the
  results. The environment may change from call to call. The kernel has looked the parent directories up
  before, so that they are directories.
\<close>

inductive session_step :: "'s tape_ops \<Rightarrow> dptr multiset \<times> 's mounted \<Rightarrow> dptr multiset \<times> 's mounted \<Rightarrow> bool" for ops where
  step_open: "no_oom (oe_tree env) \<Longrightarrow> size_class.size H + 6 < U32 \<Longrightarrow>
    format_path env 0 True path = Some (Inr (path_text ks)) \<Longrightarrow> \<forall>k \<in> set ks. name_ok k \<Longrightarrow>
    ltfs_fsops_open env path open_write ios (vol, s) = Some (r, vol', s') \<Longrightarrow>
    session_step ops (H, vol, s) (case r of Inl _ \<Rightarrow> H | Inr d \<Rightarrow> add_mset d H, vol', s')"
| step_close: "d \<in># H \<Longrightarrow> ltfs_fsops_close env d flush open_write ios (vol, s) = Some (r, vol', s') \<Longrightarrow>
    session_step ops (H, vol, s) (H - {#d#}, vol', s')"
| step_create: "no_oom (oe_tree env) \<Longrightarrow> size_class.size H + 6 < U32 \<Longrightarrow>
    format_path env 0 False path = Some (Inr (path_text (ds @ [k]))) \<Longrightarrow> \<forall>x \<in> set (ds @ [k]). name_ok x \<Longrightarrow>
    \<forall>par n. resolve s ds = Some par \<longrightarrow> dentries s par = Some n \<longrightarrow> isdir n \<Longrightarrow> 0 < uid_number s \<Longrightarrow> uid_number s + 1 < U64 \<Longrightarrow>
    ltfs_fsops_create ops env path isd readonly (vol, s) = Some (r, vol', s') \<Longrightarrow>
    session_step ops (H, vol, s) (case r of Inl _ \<Rightarrow> H | Inr d \<Rightarrow> add_mset d H, vol', s')"
| step_unlink: "no_oom (oe_tree env) \<Longrightarrow>
    format_path env 0 True path = Some (Inr (path_text (ds @ [k]))) \<Longrightarrow> \<forall>x \<in> set (ds @ [k]). name_ok x \<Longrightarrow>
    ltfs_fsops_unlink ops env path (vol, s) = Some (r, vol', s') \<Longrightarrow> session_step ops (H, vol, s) (H, vol', s')"
| step_rename: "no_oom (oe_tree env) \<Longrightarrow> oe_copy env \<Longrightarrow> size_class.size H + 6 < U32 \<Longrightarrow>
    format_path env 0 True from = Some (Inr (path_text (fs @ [fn]))) \<Longrightarrow> format_path env 1 False to = Some (Inr (path_text (ts @ [tn]))) \<Longrightarrow>
    \<forall>x \<in> set (fs @ [fn]). name_ok x \<Longrightarrow> \<forall>x \<in> set (ts @ [tn]). name_ok x \<Longrightarrow>
    \<forall>td n. resolve s ts = Some td \<longrightarrow> dentries s td = Some n \<longrightarrow> isdir n \<Longrightarrow>
    ltfs_fsops_rename ops env from to (vol, s) = Some (r, vol', s') \<Longrightarrow> session_step ops (H, vol, s) (H, vol', s')"
| step_write: "ltfs_fsops_write ops env d buf offset ut (vol, s) = Some (w, vol', s') \<Longrightarrow> session_step ops (H, vol, s) (H, vol', s')"
| step_read: "ltfs_fsops_read ops env d len offset (vol, s) = Some (b, vol', s') \<Longrightarrow> session_step ops (H, vol, s) (H, vol', s')"
| step_truncate: "ltfs_fsops_truncate ops env l d (vol, s) = Some (w, vol', s') \<Longrightarrow> session_step ops (H, vol, s) (H, vol', s')"
| step_utimens: "ltfs_fsops_utimens ops env tms d (vol, s) = Some (w, vol', s') \<Longrightarrow> session_step ops (H, vol, s) (H, vol', s')"
| step_readonly: "ltfs_fsops_set_readonly ops env ro d (vol, s) = Some (w, vol', s') \<Longrightarrow> session_step ops (H, vol, s) (H, vol', s')"

lemma session_step_rest:
  assumes "session_step ops x y" and "at_rest (fst x) (snd (snd x))"
  shows "at_rest (fst y) (snd (snd y))"
  using assms
proof cases
  case (step_open env H path ks open_write ios vol s r vol' s')
  then show ?thesis using open_rest [of H s env path ks open_write ios vol r vol' s'] assms(2) by simp
next
  case (step_close d H env flush open_write ios vol s r vol' s')
  then show ?thesis using close_rest [of H s d env flush open_write ios vol r vol' s'] assms(2) by simp
next
  case (step_create env H path ds k s isd readonly vol r vol' s')
  then show ?thesis using create_rest [of H s env path ds k ops isd readonly vol r vol' s'] assms(2) by simp
next
  case (step_unlink env path ds k vol s r vol' s' H)
  then show ?thesis using unlink_rest [of H s env path ds k ops vol r vol' s'] assms(2) by simp
next
  case (step_rename env H "from" fs fn to ts tn s vol r vol' s')
  then show ?thesis using rename_rest [of H s env "from" fs fn to ts tn ops vol r vol' s'] assms(2) by simp
qed (use assms(2) in \<open>auto intro: write_rest read_rest truncate_rest utimens_rest set_readonly_rest\<close>)

text \<open>
  The steps of the unlink of a directory that is not empty, up to the release of the meta lock of the parent,
  and what the end of the function would do if the lock were held.
\<close>

lemma unlink_not_empty_steps:
  assumes rest: "at_rest H s" and oom: "no_oom env" and look: "lookup_result (hold Volume (Rd 1) s) path = Inr (Some par, d)"
    and d: "dentries s d = Some n" "child_list n \<noteq> []"
  shows "\<exists>t u. parent n = Some par \<and>
    fs_path_lookup (fo_mem env 0 0) (fo_mem env 0 1) path {LOCK_PARENT_CONTENTS_W} (hold Volume (Rd 1) s) = Some (Inr d, t) \<and>
    not_empty d t = Some (True, t) \<and> releasewrite_mrsw (Contents par) t = Some u \<and> locks u (Meta par) = Free \<and>
    fs_release_dentry_unlocked (fo_mem env 3 0) par u = None \<and>
    unlink_out env par d (Inl LTFS_DIRNOTEMPTY) (hold (Meta par) Wr t) = Some (Inl LTFS_DIRNOTEMPTY, s)"
proof -
  note V = at_rest_volume [OF rest] and P = at_rest_parts [OF rest]
  obtain k pn where pn: "dentries s par = Some pn" "parent n = Some par" "d \<noteq> par"
    using lookup_result_child [OF V(1) look] d(1) by (metis dentries_hold option.inject)
  have isd: "isdir n" using fs_wf_local [of s d n] P d by (simp add: local_ok_def)
  have hp: "0 < numhandles pn" "numhandles pn < U32" and hd: "0 < numhandles n" "numhandles n < U32"
    using refs_bounds [of H s] P pn(1) d(1) by blast+
  let ?a = "alter d inc_handles (alter par inc_handles s)"
  let ?t = "hold (Contents par) Wr (hold Volume (Rd 1) ?a)"
  have t: "fs_path_lookup (fo_mem env 0 0) (fo_mem env 0 1) path {LOCK_PARENT_CONTENTS_W} (hold Volume (Rd 1) s) = Some (Inr d, ?t)"
    using path_lookup_parent [OF V(1-3)] look oom by simp
  have full: "not_empty d ?t = Some (True, ?t)"
    using d isd pn(3) rest by (simp add: not_empty_def lock_ops hold_same)
  let ?u = "hold Volume (Rd 1) ?a"
  have u: "releasewrite_mrsw (Contents par) ?t = Some ?u" using rest by (simp add: lock_ops hold_same)
  have bad: "fs_release_dentry_unlocked m par ?u = None" for m
    using pn hp rest by (simp add: fs_release_dentry_unlocked_def lock_ops releasewrite_mrsw_def)
  have undo: "alter d dec_handles (alter par dec_handles ?a) = s"
    using pn d hp hd by (simp add: alter_swap [of par d] alter_dec_inc)
  have "unlink_out env par d (Inl LTFS_DIRNOTEMPTY) (hold (Meta par) Wr ?t) = Some (Inl LTFS_DIRNOTEMPTY, s)"
    using pn d hp hd rest undo
    by (simp add: unlink_out_def lock_ops release_unlocked_keeps release_keeps hold_same hold_swap [of "Meta par"])
  then show ?thesis using t full u bad pn(2) rest by (intro exI [of _ ?t] exI [of _ ?u]) simp
qed

section \<open>Creating\<close>

lemma create_handler:
  assumes rest: "at_rest H s" and "size_class.size H + 3 < U32" and "no_oom (oe_tree env)"
    and dev: "device_ready ops env False vol vol'"
    and fmt: "format_path env 0 False path = Some (Inr (path_text (ds @ [k])))" and names: "\<forall>x \<in> set (ds @ [k]). name_ok x"
    and par: "resolve s ds = Some par" "dentries s par = Some pn" "isdir pn" and new: "resolve s (ds @ [k]) = None"
    and uid: "0 < uid_number s" "uid_number s + 1 < U64"
  shows "\<exists>d s'. ltfs_fsops_create ops env path isd readonly (vol, s) = Some (Inr d, set_dirty False vol', s') \<and>
    resolve s' = (resolve s)(ds @ [k] \<mapsto> d) \<and> at_rest (add_mset d H) s' \<and> dentries s d = None \<and>
    (\<exists>n. dentries s' d = Some n \<and> isdir n = isd \<and> uid n = uid_number s + 1) \<and> uid_number s' = uid_number s + 1 \<and>
    file_count s' = (if isd then file_count s else add64 (file_count s) 1)"
proof -
  obtain d t n where t: "create_tree (oe_tree env) (path_text (ds @ [k])) isd readonly (hold Volume (Rd 1) s) = Some (Inr d, t)"
    "locks t Volume = Rd 1" "resolve t = (resolve s)(ds @ [k] \<mapsto> d)" "at_rest (add_mset d H) (hold Volume Free t)" "dentries s d = None"
    "dentries t d = Some n" "isdir n = isd" "uid n = uid_number s + 1" "uid_number t = uid_number s + 1"
    "file_count t = (if isd then file_count s else add64 (file_count s) 1)"
    using create_tree_adds [OF rest assms(2,3) names par new uid, of isd readonly] by blast
  have "ltfs_fsops_create ops env path isd readonly (vol, s) = Some (Inr d, set_dirty False vol', hold Volume Free t)"
    using dev t(1,2) rest unfolding ltfs_fsops_create_def
    by (simp add: device_ok_ready [OF dev] fmt take_volume_ready device_ready_def release_volume_held)
  then show ?thesis using t by (intro exI [of _ d] exI [of _ "hold Volume Free t"]) simp
qed

section \<open>A small tree\<close>

text \<open>The root with a directory \<^verbatim>\<open>a\<close> that has a file \<^verbatim>\<open>b\<close>, on a volume of the file driver.\<close>

definition demo_fs :: fs where
  "demo_fs = \<lparr>dentries = [0 \<mapsto> blank_node\<lparr>isdir := True, d_name := Some [slash], platform_safe_name := Some [slash], numhandles := 1,
         link_count := 3, uid := 1, ino := 1, child_list := [([0x61], 1)]\<rparr>,
       1 \<mapsto> blank_node\<lparr>isdir := True, d_name := Some [0x61], platform_safe_name := Some [0x61], numhandles := 1, link_count := 2,
         uid := 2, ino := 2, parent := Some 0, child_list := [([0x62], 2)]\<rparr>,
       2 \<mapsto> blank_node\<lparr>d_name := Some [0x62], platform_safe_name := Some [0x62], numhandles := 1, link_count := 1,
         uid := 3, ino := 3, parent := Some 1\<rparr>],
     fresh_dentry = 3, inode_number = 3, root = 0, uid_number = 3, file_count = 1, valid_blocks = 0,
     criteria = \<lparr>have_criteria = False, max_filesize_criteria = 0, glob_patterns = None, glob_cache = None\<rparr>, locks = (\<lambda>_. Free)\<rparr>"

definition demo_env :: "filedebug_data op_env" where
  "demo_env = \<lparr>oe_tree = \<lparr>fo_icu = ascii_icu, fo_ubrk = (\<lambda>s. Some (map (\<lambda>c. [c]) s)), fo_mem = (\<lambda>_ _. True),
       fo_match = (True, \<lambda>_ _. True, \<lambda>_. True, \<lambda>_ _. True), fo_now = (7, 0), fo_iosched = False\<rparr>,
     oe_fs = envA, oe_name = (\<lambda>_ _. True), oe_copy = True, oe_since = (\<lambda>_. 0)\<rparr>"

lemma demo_rest: "at_rest {#} demo_fs"
proof -
  have "fs_wf demo_fs"
    unfolding fs_wf_def
  proof (intro conjI)
    show "\<exists>rank :: dptr \<Rightarrow> nat. \<forall>p n q. dentries demo_fs p = Some n \<longrightarrow> parent n = Some q \<longrightarrow> rank q < rank p"
      by (intro exI [of _ "\<lambda>p. p"]) (auto simp: demo_fs_def blank_node_def split: if_splits)
  qed (auto simp: demo_fs_def blank_node_def node_ok_def linked_def split: if_splits)
  moreover have "refs_ok {#} demo_fs" by (auto simp: refs_ok_def demo_fs_def blank_node_def linked_def U32_def split: if_splits)
  moreover have "locks demo_fs l = Free" for l by (simp add: demo_fs_def)
  ultimately show ?thesis by (simp add: at_rest_def fs_inv_def)
qed

lemma demo_env_ok: "no_oom (oe_tree demo_env)" "oe_copy demo_env"
  by (simp_all add: demo_env_def no_oom_def)

lemma demo_ready: "device_ready filedebug_handler demo_env low_ok volA volA"
proof -
  have "tape_read_only q (device volA) = Inr ()" for q by (simp add: tape_read_only_def volA_def blank_device_def)
  then have "ltfs_get_tape_readonly volA = Inr ()" by (simp add: ltfs_get_tape_readonly_def)
  moreover have "ltfs_test_unit_ready filedebug_handler demo_env (volA, s) = Some (Inr (), volA, s)" if "locks s Volume = Free" for s
  proof -
    have "\<not> fence (device volA)" "reval volA = None" by (simp_all add: volA_def blank_device_def)
    then show ?thesis
      using that
      by (subst ltfs_test_unit_ready.simps)
        (simp add: volume_lock_free [OF that] tape_device_lock_def tape_test_unit_ready_def demo_env_def envA_def release_volume_held hold_same)
  qed
  ultimately show ?thesis by (simp add: device_ready_def volA_def)
qed

text \<open>Names of one letter.\<close>

lemma demo_path:
  assumes "set ks \<subseteq> {[0x61], [0x62], [0x63]}"
  shows "format_path demo_env i src (path_text ks) = Some (Inr (path_text ks))" "\<forall>k \<in> set ks. name_ok k"
proof -
  let ?c = "\<lambda>c :: byte. c \<in> {slash, 0x61, 0x62, 0x63}"
  have all: "list_all ?c (path_text ks)" using assms by (induction ks) (auto simp: path_text_def split: if_splits)
  have v: "list_all ?c p \<Longrightarrow> pathname_validate ascii_icu True p = Some (Inr ())" for p
    by (induction p) (subst pathname_validate.simps, auto simp: pathname_valid_in_xml_def)+
  have l: "list_all ?c p \<Longrightarrow> list_all (\<lambda>c. c < 0x80) p" for p by (induction p) (auto simp:)
  have "map (\<lambda>c :: byte. (ucast (ucast c :: uchar) :: byte)) p = p" "list_all (\<lambda>c. c < 0x80) (map (ucast :: byte \<Rightarrow> uchar) p)" if "list_all ?c p" for p
    using that by (induction p) (auto simp:)
  then show "format_path demo_env i src (path_text ks) = Some (Inr (path_text ks))"
    using v [OF all] l [OF all] all
    by (simp add: format_path_def demo_env_def pathname_format_def pathname_format_icu_def pathname_system_to_utf16_icu_def
        pathname_normalize_nfc_icu_def pathname_utf16_to_utf8_icu_def icu_out_def comp_def)
  show "\<forall>k \<in> set ks. name_ok k" using assms by (auto simp: name_ok_def LTFS_FILENAME_MAX_def lead_def)
qed


lemma demo_resolve:
  "resolve demo_fs [] = Some 0" "resolve demo_fs [[0x61]] = Some 1" "resolve demo_fs [[0x61], [0x62]] = Some 2"
  "resolve demo_fs [[0x61], [0x63]] = None" "resolve demo_fs [[0x63]] = None"
  by (simp_all add: resolve_def child_def demo_fs_def blank_node_def)

lemma demo_nodes:
  "\<exists>n. dentries demo_fs 0 = Some n \<and> isdir n" "\<exists>n. dentries demo_fs 1 = Some n \<and> isdir n"
  "\<exists>n. dentries demo_fs 2 = Some n \<and> \<not> isdir n \<and> child_list n = [] \<and> uid n = 3 \<and> ino n = 3 \<and> used_blocks n = 0"
  "uid_number demo_fs = 3" "file_count demo_fs = 1"
  by (simp_all add: demo_fs_def blank_node_def)

section \<open>Properties\<close>

text \<open>
  C6. Creating a file or directory under a new name in an existing directory adds exactly one path to the
  tree, which leads to a dentry of the wanted kind with a new unique identifier; every other path leads
  where it did. The caller has one reference to the dentry, all counters and links agree, all locks are
  released, the count of files follows and the index is marked as changed.
\<close>

theorem create_adds_path:
  assumes rest: "at_rest H s" and "size_class.size H + 3 < U32" and "no_oom (oe_tree env)"
    and dev: "device_ready ops env False vol vol'"
    and fmt: "format_path env 0 False path = Some (Inr (path_text (ds @ [k])))" and names: "\<forall>x \<in> set (ds @ [k]). name_ok x"
    and par: "resolve s ds = Some par" "dentries s par = Some pn" "isdir pn" and new: "resolve s (ds @ [k]) = None"
    and uid: "0 < uid_number s" "uid_number s + 1 < U64"
  shows "\<exists>d s'. ltfs_fsops_create ops env path isd readonly (vol, s) = Some (Inr d, set_dirty False vol', s') \<and>
    resolve s' = (resolve s)(ds @ [k] \<mapsto> d) \<and> at_rest (add_mset d H) s' \<and> dentries s d = None \<and>
    (\<exists>n. dentries s' d = Some n \<and> isdir n = isd \<and> uid n = uid_number s + 1) \<and> uid_number s' = uid_number s + 1 \<and>
    file_count s' = (if isd then file_count s else add64 (file_count s) 1)"
  using create_handler [OF assms] by blast

theorem create_adds_path_witness:
  "\<exists>d s'. ltfs_fsops_create filedebug_handler demo_env (path_text [[0x61], [0x63]]) False False (volA, demo_fs) =
      Some (Inr d, set_dirty False volA, s') \<and>
    resolve s' [[0x61], [0x63]] = Some d \<and> resolve s' [[0x61], [0x62]] = Some 2 \<and> at_rest {#d#} s' \<and> file_count s' = 2"
proof -
  obtain pn where pn: "dentries demo_fs 1 = Some pn" "isdir pn" using demo_nodes(2) by blast
  show ?thesis
    using create_adds_path [OF demo_rest _ demo_env_ok(1) demo_ready demo_path(1) demo_path(2) _ pn, where ds = "[[0x61]]" and k = "[0x63]"
        and isd = False and readonly = False]
    by (auto simp: demo_resolve demo_nodes U32_def U64_def add64_def)
qed

text \<open>
  C8. Unlinking a file or an empty directory removes exactly its path from the tree. A dentry that is still
  open stays allocated until it is closed, any other one is freed. The counts of files and of valid blocks
  follow, all locks are released and the index is marked as changed.
\<close>

theorem unlink_removes_path:
  assumes rest: "at_rest H s" and "no_oom (oe_tree env)" and dev: "device_ready ops env True vol vol'"
    and fmt: "format_path env 0 True path = Some (Inr (path_text (ds @ [k])))" and names: "\<forall>x \<in> set (ds @ [k]). name_ok x"
    and d: "resolve s (ds @ [k]) = Some d" "dentries s d = Some n" "child_list n = []"
  shows "\<exists>s'. ltfs_fsops_unlink ops env path (vol, s) = Some (Inr (uid n, ino n), set_dirty False vol', s') \<and>
    resolve s' = (resolve s)(ds @ [k] := None) \<and> at_rest H s' \<and> (dentries s' d \<noteq> None \<longleftrightarrow> d \<in># H) \<and>
    file_count s' = (if isdir n then file_count s else sub64 (file_count s) 1) \<and>
    valid_blocks s' = sub64 (valid_blocks s) (used_blocks n)"
proof -
  obtain t where t: "unlink_tree (oe_tree env) (path_text (ds @ [k])) (hold Volume (Rd 1) s) = Some (Inr (Some (uid n, ino n)), t)"
    "resolve t = (resolve s)(ds @ [k] := None)" "at_rest H t" "dentries t d \<noteq> None \<longleftrightarrow> d \<in># H"
    "file_count t = (if isdir n then file_count s else sub64 (file_count s) 1)" "valid_blocks t = sub64 (valid_blocks s) (used_blocks n)"
    using unlink_tree_removes [OF rest assms(2) names d] by blast
  have "ltfs_fsops_unlink ops env path (vol, s) = Some (Inr (uid n, ino n), set_dirty False vol', t)"
    using dev t(1) rest path_text_cases [OF names] unfolding ltfs_fsops_unlink_def
    by (simp add: device_ok_ready [OF dev] fmt take_volume_ready device_ready_def)
  then show ?thesis using t(2-) by (intro exI [of _ t]) simp
qed

theorem unlink_removes_path_witness:
  "\<exists>s'. ltfs_fsops_unlink filedebug_handler demo_env (path_text [[0x61], [0x62]]) (volA, demo_fs) =
      Some (Inr (3, 3), set_dirty False volA, s') \<and>
    resolve s' [[0x61], [0x62]] = None \<and> resolve s' [[0x61]] = Some 1 \<and> dentries s' 2 = None \<and> file_count s' = 0"
proof -
  obtain n where n: "dentries demo_fs 2 = Some n" "\<not> isdir n" "child_list n = []" "uid n = 3" "ino n = 3" using demo_nodes(3) by blast
  show ?thesis
    using unlink_removes_path [OF demo_rest demo_env_ok(1) demo_ready demo_path(1) demo_path(2) _ n(1,3), where ds = "[[0x61]]" and k = "[0x62]"]
    by (auto simp: demo_resolve demo_nodes n sub64_def U64_def)
qed

text \<open>
  C7. A rename moves the dentry with everything below it: every path through the new name leads where the
  path through the old name led, no path through the old name is left, and all other paths are unchanged.
  An empty directory or a file of the new name is replaced. References, links and locks stay consistent
  and the index is marked as changed. The count of files stays the same, even when a file was replaced.
\<close>

theorem rename_moves_subtree:
  assumes rest: "at_rest H s" and "size_class.size H + 6 < U32" and "no_oom (oe_tree env)" "oe_copy env"
    and dev: "device_ready ops env True vol vol'"
    and fmt: "format_path env 0 True from = Some (Inr (path_text (fs @ [fn])))" "format_path env 1 False to = Some (Inr (path_text (ts @ [tn])))"
    and names: "\<forall>x \<in> set (fs @ [fn]). name_ok x" "\<forall>x \<in> set (ts @ [tn]). name_ok x"
    and f: "resolve s (fs @ [fn]) = Some f" "dentries s f = Some n"
    and td: "resolve s ts = Some td" "dentries s td = Some tdn" "isdir tdn"
    and loop: "\<not> prefix (fs @ [fn]) ts"
    and target: "\<And>t m. resolve s (ts @ [tn]) = Some t \<Longrightarrow> dentries s t = Some m \<Longrightarrow> t = f \<or> child_list m = []"
  shows "\<exists>s'. ltfs_fsops_rename ops env from to (vol, s) = Some (Inr (uid n, ino n), set_dirty False vol', s') \<and>
    (\<forall>ns. resolve s' ns = (if prefix (ts @ [tn]) ns then resolve s (fs @ [fn] @ drop (Suc (length ts)) ns)
      else if prefix (fs @ [fn]) ns then None else resolve s ns)) \<and>
    at_rest H s' \<and> file_count s' = file_count s"
proof -
  let ?s = "hold Rename Wr (hold Volume (Rd 1) s)"
  note P = at_rest_parts [OF rest]
  obtain fd where fd: "resolve s fs = Some fd" using f(1) by (auto simp: resolve_def path_of_snoc)
  have n2: "\<forall>x \<in> set fs. name_ok x" "\<forall>x \<in> set ts. name_ok x" "name_ok fn" "name_ok tn" using names by simp_all
  have wf: "fs_wf s" using P by simp
  have "can_rename s fd td f fn tn" by (rule can_rename_paths [OF wf fd td(1) f(1) td(2,3) n2(3,4) loop target])
  then have can: "can_rename ?s fd td f fn tn" using same_tree_can_rename [of s ?s] by simp
  obtain x where lf: "lookup_result ?s (if fs = [] then [] else path_text fs) = Inr (x, fd)"
    using lookup_names [OF n2(1), of "if fs = [] then [] else path_text fs" ?s] fd by auto
  obtain y where lt: "lookup_result ?s (if ts = [] then [] else path_text ts) = Inr (y, td)"
    using lookup_names [OF n2(2), of "if ts = [] then [] else path_text ts" ?s] td(1) by auto
  obtain s' where s': "rename_tree (oe_tree env) (if fs = [] then [] else path_text fs) fn (if ts = [] then [] else path_text ts) tn ?s =
      Some (Inr (True, uid n, ino n), s')" "fs_inv H s'" "locks s' = (locks ?s)(Volume := Free, Rename := Free)" "file_count s' = file_count s"
      "\<forall>ns. resolve s' ns = (if prefix (ts @ [tn]) ns then resolve s (fs @ [fn] @ drop (Suc (length ts)) ns)
        else if prefix (fs @ [fn]) ns then None else resolve s ns)"
    using rename_tree_ok [OF assms(3) _ assms(2) _ _ _ lf lt _ _ can, of fs ts n] P fd td(1) f(2) by auto
  have "ltfs_fsops_rename ops env from to (vol, s) = Some (Inr (uid n, ino n), set_dirty False vol', s')"
    using rename_handler [OF rest dev assms(4) fmt _ _ s'(1)] n2 by (simp add: name_ok_def)
  moreover have "locks s' l = Free" for l using s'(3) rest by simp
  ultimately show ?thesis using s'(2,4,5) by (intro exI [of _ s']) (simp add: at_rest_def del: append.assoc)
qed

theorem rename_moves_subtree_witness:
  "\<exists>s'. ltfs_fsops_rename filedebug_handler demo_env (path_text [[0x61]]) (path_text [[0x63]]) (volA, demo_fs) =
      Some (Inr (2, 2), set_dirty False volA, s') \<and>
    resolve s' [[0x63], [0x62]] = Some 2 \<and> resolve s' [[0x61]] = None \<and> at_rest {#} s'"
proof -
  obtain n where n: "dentries demo_fs 1 = Some n" "uid n = 2" "ino n = 2" by (simp add: demo_fs_def blank_node_def)
  obtain r where r: "dentries demo_fs 0 = Some r" "isdir r" using demo_nodes(1) by blast
  show ?thesis
    using rename_moves_subtree [OF demo_rest _ demo_env_ok demo_ready demo_path(1) demo_path(1) demo_path(2) demo_path(2) _ n(1) _ r,
        where fs = "[]" and fn = "[0x61]" and ts = "[]" and tn = "[0x63]"]
    by (auto simp: demo_resolve n U32_def)
qed

text \<open>
  C20. A rename of a directory to a path below itself is refused with \<open>LTFS_RENAMELOOP\<close>; the tree, all
  references and all locks are as before.
\<close>

theorem rename_into_itself_refused:
  assumes rest: "at_rest H s" and "size_class.size H + 6 < U32" and "no_oom (oe_tree env)" "oe_copy env"
    and dev: "device_ready ops env True vol vol'"
    and fmt: "format_path env 0 True from = Some (Inr (path_text (fs @ [fn])))" "format_path env 1 False to = Some (Inr (path_text (ts @ [tn])))"
    and names: "\<forall>x \<in> set (fs @ [fn]). name_ok x" "\<forall>x \<in> set (ts @ [tn]). name_ok x"
    and td: "resolve s ts = Some td" and loop: "prefix (fs @ [fn]) ts"
  shows "\<exists>s'. ltfs_fsops_rename ops env from to (vol, s) = Some (Inl LTFS_RENAMELOOP, vol', s') \<and> same_tree s s' \<and> at_rest H s'"
proof -
  let ?s = "hold Rename Wr (hold Volume (Rd 1) s)"
  note P = at_rest_parts [OF rest]
  have wf: "fs_wf s" using P by simp
  obtain zs where zs: "ts = (fs @ [fn]) @ zs" using loop by (auto elim: prefixE)
  obtain f where f: "resolve s (fs @ [fn]) = Some f" "path_of (child s) f zs = Some td"
    using td unfolding zs resolve_def path_of_append [of _ _ "fs @ [fn]" zs] by (auto split: option.splits)
  obtain fd where fd: "resolve s fs = Some fd" "child s fd fn = Some f" using f(1) by (auto simp: resolve_def path_of_snoc)
  have bl: "below ?s td f" using path_below [OF wf f(2)] same_tree_below [of s ?s] by simp
  have n2: "\<forall>x \<in> set fs. name_ok x" "\<forall>x \<in> set ts. name_ok x" "name_ok fn" "name_ok tn" using names by simp_all
  obtain x where lf: "lookup_result ?s (if fs = [] then [] else path_text fs) = Inr (x, fd)"
    using lookup_names [OF n2(1), of "if fs = [] then [] else path_text fs" ?s] fd by auto
  obtain y where lt: "lookup_result ?s (if ts = [] then [] else path_text ts) = Inr (y, td)"
    using lookup_names [OF n2(2), of "if ts = [] then [] else path_text ts" ?s] td(1) by auto
  obtain s' where s': "rename_tree (oe_tree env) (if fs = [] then [] else path_text fs) fn (if ts = [] then [] else path_text ts) tn ?s =
      Some (Inl LTFS_RENAMELOOP, s')" "same_tree ?s s'" "fs_inv H s'" "locks s' = (locks ?s)(Volume := Free, Rename := Free)"
    using rename_tree_loop [OF assms(3) _ assms(2) _ _ _ lf lt _ bl, of fn tn] P fd(2) n2 by (auto simp: name_ok_def)
  have "ltfs_fsops_rename ops env from to (vol, s) = Some (Inl LTFS_RENAMELOOP, vol', s')"
    using rename_handler [OF rest dev assms(4) fmt _ _ s'(1)] n2 by (simp add: name_ok_def)
  moreover have "locks s' l = Free" for l using s'(4) rest by simp
  moreover have "same_tree s s'" using s'(2) same_tree_trans [of s ?s s'] by simp
  ultimately show ?thesis using s'(3) by (intro exI [of _ s']) (simp add: at_rest_def)
qed

theorem rename_into_itself_refused_witness:
  "\<exists>s'. ltfs_fsops_rename filedebug_handler demo_env (path_text [[0x61]]) (path_text [[0x61], [0x63]]) (volA, demo_fs) =
      Some (Inl LTFS_RENAMELOOP, volA, s') \<and> same_tree demo_fs s' \<and> at_rest {#} s'"
  using rename_into_itself_refused [OF demo_rest _ demo_env_ok demo_ready demo_path(1) demo_path(1) demo_path(2) demo_path(2),
      where fs = "[]" and fn = "[0x61]" and ts = "[[0x61]]" and tn = "[0x63]"]
  by (auto simp: demo_resolve U32_def)



text \<open>
  C21. Unlinking a directory that is not empty does not end with \<^verbatim>\<open>LTFS_DIRNOTEMPTY\<close>, as it is documented, but
  releases a lock that it does not hold. The lookup and the test for emptiness return, with the meta lock of the
  parent directory free; the label \<^verbatim>\<open>out\<close> releases this lock all the same, and no step after that is defined.
  The release is the only fault: with the meta lock held at that point, the rest of the function would return
  \<^verbatim>\<open>LTFS_DIRNOTEMPTY\<close> and leave everything as it was.
\<close>

theorem unlink_not_empty_undefined:
  assumes rest: "at_rest H s" and "no_oom (oe_tree env)" and dev: "device_ready ops env True vol vol'"
    and fmt: "format_path env 0 True path = Some (Inr (path_text (ds @ [k])))" and names: "\<forall>x \<in> set (ds @ [k]). name_ok x"
    and d: "resolve s (ds @ [k]) = Some d" "dentries s d = Some n" "child_list n \<noteq> []"
  shows "\<exists>par t u. resolve s ds = Some par \<and> parent n = Some par \<and>
    fs_path_lookup (fo_mem (oe_tree env) 0 0) (fo_mem (oe_tree env) 0 1) (path_text (ds @ [k])) {LOCK_PARENT_CONTENTS_W} (hold Volume (Rd 1) s) =
      Some (Inr d, t) \<and>
    not_empty d t = Some (True, t) \<and> releasewrite_mrsw (Contents par) t = Some u \<and> locks u (Meta par) = Free \<and>
    fs_release_dentry_unlocked (fo_mem (oe_tree env) 3 0) par u = None \<and>
    unlink_out (oe_tree env) par d (Inl LTFS_DIRNOTEMPTY) (hold (Meta par) Wr t) = Some (Inl LTFS_DIRNOTEMPTY, s) \<and>
    ltfs_fsops_unlink ops env path (vol, s) = None"
proof -
  note V = at_rest_volume [OF rest]
  let ?p = "path_text (ds @ [k])" and ?s = "hold Volume (Rd 1) s"
  obtain par where par: "resolve s ds = Some par" using d(1) by (auto simp: resolve_def path_of_snoc)
  have look: "lookup_result ?s ?p = Inr (Some par, d)" using lookup_names [OF names, of ?p ?s] d(1) par by simp
  have "unlink_tree (oe_tree env) ?p ?s = None"
    by (rule unlink_tree_not_empty [OF V(1-3) assms(2) look _ d(3)]) (simp add: d(2))
  then have none: "ltfs_fsops_unlink ops env path (vol, s) = None"
    using dev rest path_text_cases [OF names] unfolding ltfs_fsops_unlink_def
    by (simp add: device_ok_ready [OF dev] fmt take_volume_ready device_ready_def)
  from unlink_not_empty_steps [OF rest assms(2) look d(2,3)] none par show ?thesis by blast
qed

theorem unlink_not_empty_undefined_witness:
  "\<exists>t u. fs_path_lookup True True (path_text [[0x61]]) {LOCK_PARENT_CONTENTS_W} (hold Volume (Rd 1) demo_fs) = Some (Inr 1, t) \<and>
    releasewrite_mrsw (Contents 0) t = Some u \<and> locks u (Meta 0) = Free \<and>
    unlink_out (oe_tree demo_env) 0 1 (Inl LTFS_DIRNOTEMPTY) (hold (Meta 0) Wr t) = Some (Inl LTFS_DIRNOTEMPTY, demo_fs) \<and>
    ltfs_fsops_unlink filedebug_handler demo_env (path_text [[0x61]]) (volA, demo_fs) = None"
proof -
  obtain n where n: "dentries demo_fs 1 = Some n" "child_list n \<noteq> []" by (simp add: demo_fs_def blank_node_def)
  have mem: "fo_mem (oe_tree demo_env) i j" for i j by (simp add: demo_env_def)
  show ?thesis
    using unlink_not_empty_undefined [OF demo_rest demo_env_ok(1) demo_ready demo_path(1) demo_path(2) _ n, where ds = "[]" and k = "[0x61]"]
    by (simp add: demo_resolve mem) blast
qed

text \<open>
  C9. Every rename between canonical paths whose new parent is a directory returns, with the invariant and
  all locks released, and when it returns an error the tree is as it was.
\<close>

theorem rename_returns:
  assumes rest: "at_rest H s" and size: "size_class.size H + 6 < U32" and "no_oom (oe_tree env)" "oe_copy env"
    and dev: "device_ready ops env True vol vol'"
    and fmt: "format_path env 0 True from = Some (Inr (path_text (fs @ [fn])))" "format_path env 1 False to = Some (Inr (path_text (ts @ [tn])))"
    and names: "\<forall>x \<in> set (fs @ [fn]). name_ok x" "\<forall>x \<in> set (ts @ [tn]). name_ok x"
    and par: "\<And>td n. resolve s ts = Some td \<Longrightarrow> dentries s td = Some n \<Longrightarrow> isdir n"
  shows "\<exists>r vol'' s'. ltfs_fsops_rename ops env from to (vol, s) = Some (r, vol'', s') \<and> at_rest H s' \<and>
    (\<forall>e. r = Inl e \<longrightarrow> vol'' = vol' \<and> resolve s' = resolve s)"
proof -
  let ?s = "hold Rename Wr (hold Volume (Rd 1) s)" and ?fd = "if fs = [] then [] else path_text fs" and ?td = "if ts = [] then [] else path_text ts"
  note P = at_rest_parts [OF rest]
  have n2: "\<forall>x \<in> set ts. name_ok x" "name_ok fn" "name_ok tn" using names by simp_all
  have "\<exists>q t. rename_tree (oe_tree env) ?fd fn ?td tn ?s = Some (q, t) \<and> fs_inv H t \<and>
      locks t = (locks ?s)(Volume := Free, Rename := Free) \<and> (isl q \<longrightarrow> same_tree ?s t)"
  proof (rule rename_tree_safe [OF assms(3) _ size])
    show "isdir n" if "lookup_result ?s ?td = Inr (y, td)" "dentries ?s td = Some n" for y td n
      using lookup_names [OF n2(1), of ?td ?s] that par by (auto split: option.splits if_splits)
  qed (use P n2 in \<open>simp_all add: name_ok_def\<close>)
  then obtain q t where t: "rename_tree (oe_tree env) ?fd fn ?td tn ?s = Some (q, t)" "fs_inv H t"
      "locks t = (locks ?s)(Volume := Free, Rename := Free)" "isl q \<longrightarrow> same_tree ?s t" by blast
  have "at_rest H t" using t(2,3) rest by (simp add: at_rest_def)
  moreover have "resolve t = resolve s" if "isl q" using same_tree_graph(4) [of ?s t] t(4) that by simp
  moreover have "ltfs_fsops_rename ops env from to (vol, s) =
      Some (case q of Inl e \<Rightarrow> (Inl e, vol', t) | Inr (b, i) \<Rightarrow> (Inr i, if b then set_dirty False vol' else vol', t))"
    using rename_handler [OF rest dev assms(4) fmt _ _ t(1)] n2 by (simp add: name_ok_def)
  ultimately show ?thesis by (cases q) auto
qed

theorem rename_returns_witness:
  "\<exists>r vol s'. ltfs_fsops_rename filedebug_handler demo_env (path_text [[0x63]]) (path_text [[0x61], [0x63]]) (volA, demo_fs) = Some (r, vol, s') \<and>
    at_rest {#} s'"
proof -
  have "isdir n" if "resolve demo_fs [[0x61]] = Some td" "dentries demo_fs td = Some n" for td n
    using that demo_nodes(2) by (auto simp: demo_resolve)
  then show ?thesis
    using rename_returns [OF demo_rest _ demo_env_ok demo_ready demo_path(1) demo_path(1) demo_path(2) demo_path(2),
        where fs = "[]" and fn = "[0x63]" and ts = "[[0x61]]" and tn = "[0x63]"]
    by (simp add: U32_def) blast
qed

text \<open>
  C10. Opening a path that exists for reading gives its dentry, and closing it again restores the state of the
  volume and of the tree exactly, except that the close sets the times of the dentry when an earlier write had
  left them for the next close; a path that does not exist is refused without any change. The path is canonical,
  allocations succeed and no revalidation is under way.
\<close>

theorem open_close_roundtrip:
  assumes rest: "at_rest H s" and "no_oom (oe_tree env)" and "reval vol = None"
    and fmt: "format_path env 0 True path = Some (Inr (path_text ks))" and names: "\<forall>k \<in> set ks. name_ok k"
  shows "case resolve s ks of
      None \<Rightarrow> ltfs_fsops_open env path False ios (vol, s) = Some (Inl LTFS_NO_DENTRY, vol, s)
    | Some d \<Rightarrow> \<exists>n s'. dentries s d = Some n \<and> ltfs_fsops_open env path False ios (vol, s) = Some (Inr d, vol, s') \<and>
        ltfs_fsops_close env d flush False ios (vol, s') =
          Some (Inr (), vol, if need_update_time n then alter d (\<lambda>n. (dir_times (fo_now (oe_tree env)) n)\<lparr>need_update_time := False\<rparr>) s else s)"
proof (cases "resolve s ks")
  case None
  then show ?thesis using open_spec [OF rest assms(2,3) fmt names, of ios] by simp
next
  case (Some d)
  have P: "fs_wf s" "refs_ok H s" using at_rest_parts [OF rest] by simp_all
  obtain n where n: "dentries s d = Some n" "linked s d n" using resolve_linked [OF P(1) Some] by blast
  have h: "numhandles n < U32" "0 < numhandles n" using refs_bounds [OF P(2) n(1)] by simp_all
  let ?g = "\<lambda>n. (dir_times (fo_now (oe_tree env)) n)\<lparr>need_update_time := False\<rparr>"
  let ?f = "if need_update_time n then ?g else (\<lambda>n. n)" and ?s = "alter d inc_handles s"
  have times: "close_times env d ?s = Some (alter d ?f ?s)"
    using n rest by (auto simp: close_times_def lock_ops hold_same alter_alter comp_def alter_same)
  have "dec32 (inc32 (numhandles n)) = numhandles n" using h by (simp add: dec32_inc32)
  then have "dec_handles (?f (inc_handles n)) = ?f n" by (cases n) (simp add: dir_times_def)
  then have "alter d dec_handles (alter d ?f ?s) = alter d ?f s" using n(1) by (simp add: alter_alter alter_def)
  then have "fs_release_dentry mem d (alter d ?f ?s) = Some (alter d ?f s)" for mem
    using release_keeps [of "alter d ?f ?s" d "?f (inc_handles n)" mem] n h rest by (simp add: dir_times_def)
  then have "ltfs_fsops_close env d flush False ios (vol, ?s) = Some (Inr (), vol, alter d ?f s)"
    using n times unfolding ltfs_fsops_close_def ltfs_fsraw_close_def fcfs_close_def by simp
  moreover have "alter d ?f s = (if need_update_time n then alter d ?g s else s)" using n by (simp add: alter_same)
  ultimately show ?thesis using open_spec [OF rest assms(2,3) fmt names, of ios] Some n by simp
qed

theorem open_close_roundtrip_witness:
  "\<exists>s'. ltfs_fsops_open demo_env (path_text [[0x61], [0x62]]) False True (volA, demo_fs) = Some (Inr 2, volA, s') \<and>
    ltfs_fsops_close demo_env 2 True False True (volA, s') = Some (Inr (), volA, demo_fs)"
proof -
  obtain n where n: "dentries demo_fs 2 = Some n" "\<not> need_update_time n" by (simp add: demo_fs_def blank_node_def)
  have "reval volA = None" by (simp add: volA_def)
  then show ?thesis
    using n open_close_roundtrip [OF demo_rest demo_env_ok(1) _ demo_path, where ks = "[[0x61], [0x62]]" and vol = volA and ios = True and flush = True]
    by (auto simp: demo_resolve)
qed

end
