(* ===== verification/Ltfs_Client.thy ===== *)
theory Ltfs_Client
  imports Ltfs_Session
begin

text \<open>
  What a client of the file system sees over several calls: a file that is opened, written and closed has the
  written bytes when it is opened again; the path of a dentry leads back to it; the entries of a directory
  are its children.
\<close>

section \<open>The contents of a file through open and close\<close>

text \<open>What describes the contents of a dentry; open and close do not change it.\<close>

definition body :: "'a dentry_scheme \<Rightarrow> extent_info list \<times> nat \<times> nat" where
  "body n = (extentlist n, size n, realsize n)"

lemma body_stored: "body n = body m \<Longrightarrow> stored tp lab bs (dentry.truncate n) = stored tp lab bs (dentry.truncate m)"
    "body n = body m \<Longrightarrow> file_content tp lab bs (dentry.truncate n) = file_content tp lab bs (dentry.truncate m)"
  by (simp_all add: body_def stored_def file_ok_def file_content_def dentry.truncate_def)

text \<open>Opening a file for writing.\<close>

lemma open_write_spec:
  assumes rest: "at_rest H s" and size: "size_class.size H + 3 < U32" and "no_oom (oe_tree env)" and "reval vol = None"
    and w: "ltfs_get_tape_readonly vol = Inr ()"
    and fmt: "format_path env 0 True path = Some (Inr (path_text ks))" and names: "\<forall>k \<in> set ks. name_ok k"
    and d: "resolve s ks = Some d" "dentries s d = Some n" "\<not> isslink n" "d_name n = Some nm"
  shows "\<exists>s' m. ltfs_fsops_open env path True ios (vol, s) = Some (Inr d, vol, s') \<and> at_rest (add_mset d H) s' \<and>
    resolve s' = resolve s \<and> dentries s' d = Some m \<and> body m = body n \<and> isdir m = isdir n"
proof -
  let ?s = "hold Volume (Rd 1) s"
  note V = at_rest_volume [OF rest]
  let ?a = "alter d inc_handles ?s" and ?n = "inc_handles n"
  have look: "fs_path_lookup True True (path_text ks) {} ?s = Some (Inr d, ?a)"
    unfolding path_lookup_plain [OF V(1-3)] using lookup_names [OF names, of "path_text ks" ?s] d(1) by simp
  have inv: "fs_inv (add_mset d H) (alter d inc_handles s)" using fs_inv_get [of H s d n] rest size d(2) by (simp add: at_rest_def)
  define x where "x = index_criteria_get_max_filesize (criteria s)"
  define g where "g = (if \<not> isdir n \<and> \<not> matches_name_criteria n \<and> 0 < x \<and> size n \<le> x then match_dentry (oe_tree env) d (hold (Meta d) Wr ?a) else Some (hold (Meta d) Wr ?a))"
  obtain b ic where m: "match_dentry (oe_tree env) d (hold (Meta d) Wr ?a) =
      Some (alter d (matches_name_criteria_update (\<lambda>_. b)) ((hold (Meta d) Wr ?a)\<lparr>criteria := ic\<rparr>))"
    using match_dentry_spec [of "hold (Meta d) Wr ?a" d ?n nm "oe_tree env"] d(2,4) by auto
  show ?thesis
  proof (cases "\<not> isdir n \<and> \<not> matches_name_criteria n \<and> 0 < x \<and> size n \<le> x")
    case True
    let ?f = "matches_name_criteria_update (\<lambda>_. b)"
    let ?t = "alter d ?f ((alter d inc_handles s)\<lparr>criteria := ic\<rparr>)"
    have "fs_inv (add_mset d H) ?t" "resolve ?t = resolve s"
      using alter_quiet(1) [of ?f "add_mset d H" d "(alter d inc_handles s)\<lparr>criteria := ic\<rparr>"]
        alter_quiet(2) [of ?f d "(alter d inc_handles s)\<lparr>criteria := ic\<rparr>"] inv by (simp_all add: shape_def)
    moreover have "hold Volume Free (hold (Meta d) Free (alter d ?f ((hold (Meta d) Wr ?a)\<lparr>criteria := ic\<rparr>))) = ?t"
      using rest by (simp add: hold_def alter_def fun_upd_idem fun_upd_twist [of Volume "Meta d"])
    ultimately show ?thesis
      using True m look d rest assms(3) w unfolding x_def
      by (intro exI [of _ ?t] exI [of _ "?f ?n"])
        (simp add: ltfs_fsops_open_def open_named_def open_dentry_def fcfs_open_def fmt ltfs_fsraw_open_def take_volume_ready [OF assms(4)]
          release_volume_held lock_ops at_rest_def body_def)
  next
    case False
    let ?t = "alter d inc_handles s"
    have "hold Volume Free ?a = ?t" "hold Volume Free (hold (Meta d) Free (hold (Meta d) Wr ?a)) = ?t"
      using rest by (simp_all add: hold_def alter_def fun_upd_idem fun_upd_twist [of Volume "Meta d"])
    then show ?thesis
      using False look d rest assms(3) w inv unfolding x_def
      by (intro exI [of _ ?t] exI [of _ ?n])
        (auto simp: ltfs_fsops_open_def open_named_def open_dentry_def fcfs_open_def fmt ltfs_fsraw_open_def take_volume_ready [OF assms(4)]
          release_volume_held lock_ops at_rest_def body_def)
  qed
qed

text \<open>What closing a file leaves as it is, other than the contents.\<close>

definition kept :: "node \<Rightarrow> bool \<times> byte list option \<times> (byte list \<times> byte list) list" where
  "kept n = (isdir n, target n, xattrlist n)"

text \<open>Closing a file that is in the tree.\<close>

lemma close_body:
  assumes rest: "at_rest (add_mset d H) s" and "reval vol = None" and path: "resolve s ks = Some d" and n: "dentries s d = Some n"
  shows "\<exists>s' m. ltfs_fsops_close env d flush open_write ios (vol, s) = Some (Inr (), vol, s') \<and> at_rest H s' \<and> resolve s' = resolve s \<and>
    dentries s' d = Some m \<and> body m = body n \<and> kept m = kept n"
proof -
  have inv: "fs_inv (add_mset d H) s" and lk: "\<forall>l. locks s l = Free" using rest by (simp_all add: at_rest_def)
  obtain a na where a: "close_times env d s = Some a" "fs_inv (add_mset d H) a" "locks a = locks s" "resolve a = resolve s" "dentries a d = Some na"
      "body na = body n" "kept na = kept n"
  proof -
    obtain a na where a: "close_times env d s = Some a" "fs_inv (add_mset d H) a" "locks a = locks s" "resolve a = resolve s" "dentries a d = Some na"
      using close_times_spec [OF inv n] lk by blast
    moreover have "body na = body n \<and> kept na = kept n"
      using a(1,5) n lk by (auto simp: close_times_def lock_ops body_def kept_def dir_times_def change_def split: if_splits)
    ultimately show thesis using that by blast
  qed
  obtain b m where b: "(if open_write then ltfs_fsops_update_used_blocks d (vol, a) else Some (Inr (), vol, a)) = Some (Inr (), vol, b)"
      "fs_inv (add_mset d H) b" "locks b = locks s" "resolve b = resolve s" "dentries b d = Some m" "body m = body n" "kept m = kept n"
  proof (cases open_write)
    case True
    obtain b m where b: "ltfs_fsops_update_used_blocks d (vol, a) = Some (Inr (), vol, b)" "fs_inv (add_mset d H) b" "locks b = locks a"
        "resolve b = resolve a" "dentries b d = Some m"
      using update_blocks_spec [OF a(2,5) _ assms(2)] a lk by auto
    moreover have "body m = body na \<and> kept m = kept na"
      using b(1,5) a(3,5) lk assms(2)
      by (auto simp: ltfs_fsops_update_used_blocks_def ltfs_update_valid_block_count_def lock_ops take_volume_ready release_volume_held
          body_def kept_def Let_def change_def)
    ultimately show thesis using that [of b m] a True by simp
  qed (use that a in simp)
  have l: "linked b d m" using linked_iff_resolves [OF _ b(5)] b(2,4) path by (auto simp: fs_inv_def)
  note put = fs_inv_put [OF b(2,5) l]
  have "fs_release_dentry (fo_mem (oe_tree env) 30 0) d b = Some (alter d dec_handles b)"
    by (rule release_keeps [OF b(5) put(2)]) (use b(3) lk in simp)
  then have "ltfs_fsops_close env d flush open_write ios (vol, s) = Some (Inr (), vol, alter d dec_handles b)"
    unfolding ltfs_fsops_close_def using a(1) b(1,5) by (simp add: ltfs_fsraw_close_def fcfs_close_def del: if_split)
  then show ?thesis
    using b put(1) lk by (intro exI [of _ "alter d dec_handles b"] exI [of _ "dec_handles m"]) (simp add: at_rest_def body_def kept_def)
qed

text \<open>Reading and writing change only the contents of the one dentry.\<close>

lemma put_contents_body [simp]: "body (put_contents c n) = body c" "isdir (put_contents c n) = isdir n"
  by (simp_all add: put_contents_def body_def)

lemma body_truncate [simp]: "body (dentry.truncate n) = body n"
  by (simp add: body_def dentry.truncate_def)

lemma truncate_dentry [simp]: "dentry.truncate c = c" for c :: dentry
  by (cases c) (simp add: dentry.truncate_def)

lemma write_handler:
  assumes n: "dentries s d = Some n" "\<not> isdir n" and rest: "at_rest H s"
    and w: "\<And>ut. \<exists>r c vol'. ltfs_fsraw_write ops (oe_fs env) buf offset (ltfs_dp_id vol) ut (dentry.truncate n, vol) = Some (r, c, vol') \<and> P r c vol'"
  shows "\<exists>r c vol' s' m. ltfs_fsops_write ops env d buf offset ut (vol, s) = Some (r, vol', s') \<and> at_rest H s' \<and> resolve s' = resolve s \<and>
    dentries s' d = Some m \<and> body m = body c \<and> \<not> isdir m \<and> P r c vol'"
proof -
  define u where "u = (if fo_iosched (oe_tree env) then True else ut)"
  obtain r c vol' where c: "ltfs_fsraw_write ops (oe_fs env) buf offset (ltfs_dp_id vol) u (dentry.truncate n, vol) = Some (r, c, vol')" "P r c vol'"
    using w by blast
  let ?t = "alter d (put_contents c) s" and ?g = "need_update_time_update (\<lambda>_. True)"
  have q: "at_rest H ?t" "resolve ?t = resolve s" using contents_quiet [OF rest] by simp_all
  have q2: "at_rest H (alter d ?g ?t)" "resolve (alter d ?g ?t) = resolve s"
    using alter_quiet(1) [of ?g H d ?t] alter_quiet(2) [of ?g d ?t] q by (simp_all add: shape_def at_rest_def)
  have eq: "ltfs_fsops_write ops env d buf offset ut (vol, s) = Some (r, vol', if \<not> ut \<and> r = Inr () then alter d ?g ?t else ?t)"
    using n c(1) rest unfolding ltfs_fsops_write_def fcfs_write_def u_def
    by (cases "fo_iosched (oe_tree env)") (auto simp: change_def fsraw_write_eq [OF n(1)])
  show ?thesis
  proof (cases "\<not> ut \<and> r = Inr ()")
    case True
    then show ?thesis
      using eq q2 n c(2)
      by (intro exI [of _ r] exI [of _ c] exI [of _ vol'] exI [of _ "alter d ?g ?t"] exI [of _ "?g (put_contents c n)"])
        (auto simp: body_def put_contents_def)
  next
    case False
    then show ?thesis
      using eq q n c(2)
      by (intro exI [of _ r] exI [of _ c] exI [of _ vol'] exI [of _ ?t] exI [of _ "put_contents c n"]) auto
  qed
qed

lemma read_handler:
  assumes n: "dentries s d = Some n" "\<not> isdir n" and rest: "at_rest H s"
    and r: "ltfs_fsraw_read ops (oe_fs env) len offset (dentry.truncate n, vol) = Some (r, c, vol')"
  shows "ltfs_fsops_read ops env d len offset (vol, s) = Some (r, vol', alter d (put_contents c) s)"
    "at_rest H (alter d (put_contents c) s)" "resolve (alter d (put_contents c) s) = resolve s"
  using contents_quiet [OF rest] n r rest by (simp_all add: ltfs_fsops_read_def fcfs_read_def fsraw_read_eq [OF n(1)])

section \<open>Writing and reading back\<close>

lemma blank_seek: "tape_seek_append_position filedebug_handler 1 False blank_device = (Inr (), blank_device)"
  by (simp add: tape_seek_append_position_def tape_seek_def blank_device_def on_pos_def filedebug_handler_def filedebug_locate_def blank_tape_def
      note_warning_def rbind_def pos0_def MISSING_EOD_def TAPE_BLOCK_MAX_def U64_def warn_def ew_zone_def pew_zone_def MAX_PARTITIONS_def
      ok_host_def fun_eq_iff)

lemma blank_write: "\<exists>dev. tape_write filedebug_handler [5, 6] False True blank_device = (Inr 2, dev)"
proof -
  define st1 where "st1 = clear_set (Suc 0) {0} blank_tape"
  obtain wp at where p: "new_write_pass ok_host st1 = (Inr (), st1\<lparr>write_pass := wp, dir := (dir st1)\<lparr>attrs := at\<rparr>\<rparr>)"
    using new_write_pass_ok [OF ok_host_ok] by blast
  have h: "\<not> fault ok_host x" "written ok_host n = n" for x n by (simp_all add: ok_host_def)
  have b: "ready blank_tape" "cur_partition blank_tape = 1" "cur_block blank_tape = 0" "filedebug_data.max_block_size blank_tape = 16777216"
    "cur_partition st1 = 1" "p0_warning st1 = 0" "p1_warning st1 = 0" "p0_p_warning st1 = 0" "p1_p_warning st1 = 0" "add64 0 1 = 1"
    by (simp_all add: st1_def clear_set_def add64_def U64_def) (simp_all add: blank_tape_def)
  have k: "p0_warning (clear_set q B x) = p0_warning x" "p1_warning (clear_set q B x) = p1_warning x"
    "p0_p_warning (clear_set q B x) = p0_p_warning x" "p1_p_warning (clear_set q B x) = p1_p_warning x"
    "p0_warning (set_file f d x) = p0_warning x" "p1_warning (set_file f d x) = p1_warning x"
    "p0_p_warning (set_file f d x) = p0_p_warning x" "p1_p_warning (set_file f d x) = p1_p_warning x" for q B x f d
    by (simp_all add: clear_set_def set_file_def)
  obtain st pos where w: "filedebug_write ok_host (Some [5, 6]) 2 (blank_tape, pos0) = (Inr 2, st, pos)" "\<not> early_warning pos" "\<not> programmable_early_warning pos"
    using p b unfolding filedebug_write_def filedebug_remove_current_record_def
    by (simp add: remove_record_ok h rbind_def st1_def [symmetric] write_eod_ok U64_def warn_def ew_zone_def pew_entry_def k)
      (simp add: pos0_def)
  have "op_write filedebug_handler [5, 6] = filedebug_write ok_host (Some [5, 6]) 2" by (simp add: filedebug_handler_def numeral_2_eq_2)
  then have "on_pos (op_write filedebug_handler [5, 6]) blank_device = (Inr 2, blank_device\<lparr>backend_data := st, position := pos\<rparr>)"
    using w(1) by (simp add: on_pos_def) (simp add: blank_device_def)
  then show ?thesis using w(2,3) by (simp add: tape_write_def) (simp add: blank_device_def)
qed

text \<open>The two bytes fit on the empty tape.\<close>

lemma volB_write_data:
  "\<exists>b vol'. ltfs_fsraw_write_data filedebug_handler envA CHR ''b'' [5, 6] 1 volB = Some (Inr b, vol')"
proof -
  let ?vol = "volB\<lparr>dp_index_file_end := False\<rparr>"
  have i: "write_data_index filedebug_handler envA CHR ''b'' volB = Some (Inr (), ?vol)"
    by (simp add: write_data_index_def volB_parts ltfs_get_partition_readonly_def tape_read_only_def volA_labels blank_device_def
        ltfs_write_index_conditional_def)
  have l: "ltfs_part_id2num CHR ''b'' (vol_label volB) = 1" "CHR ''b'' \<noteq> partid_ip (vol_label volB)" "blocksize (vol_label volB) = 524288"
    using volA_labels(2) by (auto simp: volB_parts volA_labels ltfs_ip_id_def)
  obtain dev where w: "tape_write filedebug_handler [5, 6] False True blank_device = (Inr 2, dev)" using blank_write by blast
  have "write_blocks filedebug_handler 524288 [] dev = Some (Inr (), dev)" by (subst write_blocks.simps) simp
  then have "write_blocks filedebug_handler 524288 [5, 6] blank_device = Some (Inr (), dev)"
    using w by (subst write_blocks.simps) simp
  then obtain b vol' where "write_data_blocks filedebug_handler CHR ''b'' [5, 6] 1 ?vol = Some (Inr b, vol')"
    using l by (simp add: write_data_blocks_def on_dev_def volB_parts blank_seek [unfolded One_nat_def])
  then have "write_data_locked filedebug_handler envA CHR ''b'' [5, 6] 1 volB = Some (Inr b, vol')" by (simp add: write_data_locked_def i)
  then have "ltfs_fsraw_write_data_unlocked filedebug_handler envA CHR ''b'' [5, 6] 1 volB = Some (Inr b, vol')"
    by (simp add: ltfs_fsraw_write_data_unlocked_def volB_parts tape_device_lock_def envA_def write_unlock_def) (simp add: blank_device_def)
  then show ?thesis by (subst ltfs_fsraw_write_data.simps) (simp add: ltfs_get_volume_lock_def volB_parts)
qed

lemma loop_error: "add_extent_loop bs ext mem i pre suf rs = (Inl e, es) \<Longrightarrow> e = LTFS_NO_MEMORY"
  by (induction bs ext mem i pre suf rs rule: add_extent_loop.induct)
    (auto simp: entry_update_def Let_def split: sum.splits option.splits if_splits prod.splits)

lemma volB_write_fits:
  assumes "at_rest H s" and "d \<in># H" and "ltfs_fsops_write filedebug_handler demo_env d [5, 6] 1 True (volB, s) = Some (r, m)"
  shows "r \<noteq> Inl LTFS_LESS_SPACE"
proof -
  obtain n where n: "dentries s d = Some n" using refs_handle [of H s d] assms(1,2) at_rest_parts by blast
  obtain b vol' where b: "ltfs_fsraw_write_data filedebug_handler envA CHR ''b'' [5, 6] 1 volB = Some (Inr b, vol')"
    using volB_write_data by blast
  have e: "oe_fs demo_env = envA" "\<not> fo_iosched (oe_tree demo_env)" by (simp_all add: demo_env_def)
  have "r = Inl LTFS_ISDIRECTORY \<or> r = fst (add_extent_vol envA \<lparr>partition = CHR ''b'', block = (case b of None \<Rightarrow> 0 | Some b \<Rightarrow> b), byteoffset = 0,
      bytecount = 2, fileoffset = 1\<rparr> True (dentry.truncate n, vol'))"
    using assms(1,3) n e unfolding ltfs_fsops_write_def
    by (auto simp: fsraw_write_eq [OF n] ltfs_fsraw_write_def volB_parts b [unfolded One_nat_def] numeral_2_eq_2 split: if_splits prod.splits)
  moreover have "fst (ltfs_fsraw_add_extent_unlocked bs mem now ext u d idx) \<noteq> Inl LTFS_LESS_SPACE" for bs mem now ext u d idx
  proof -
    obtain q es where q: "add_extent_loop bs ext mem 1 (rev (extentlist d)) [] (realsize d) = (q, es)"
      by (cases "add_extent_loop bs ext mem 1 (rev (extentlist d)) [] (realsize d)")
    then show ?thesis
      using loop_error [of bs ext mem 1 "rev (extentlist d)" "[]" "realsize d"] by (cases q) (auto simp: ltfs_fsraw_add_extent_unlocked_def Let_def split: prod.splits)
  qed
  ultimately show ?thesis by (elim disjE) (simp_all add: add_extent_vol_def case_prod_beta)
qed

text \<open>
  C11. What a client writes to a file is there when the file is opened again, on a writable volume of the file
  driver with room for the data, for a file whose extents are on the tape, when allocations succeed: after opening a path for
  writing, writing a buffer at an offset, closing the file and opening the path again, a read of the range
  returns the bytes that were written. The write may also report that the medium has little space left; then the
  file is as it was. All calls return; after each of them, the failed write included, no reader-writer lock is
  held, the invariant of the tree holds and every path leads where it did.
\<close>

theorem write_close_open_read:
  assumes rest: "at_rest H s" and size: "size_class.size H + 3 < U32" and oom: "no_oom (oe_tree env)"
    and v: "can_write_data vol" "ltfs_get_tape_readonly vol = Inr ()" and fsenv: "fs_mutex (oe_fs env)" "\<forall>i. fs_malloc (oe_fs env) i"
    and buf: "buf \<noteq> []" "room vol (length buf)" "offset + length buf + blocksize (vol_label vol) \<le> U64"
    and fmt: "format_path env 0 True path = Some (Inr (path_text ks))" and names: "\<forall>k \<in> set ks. name_ok k"
    and d: "resolve s ks = Some d" "dentries s d = Some n" "\<not> isdir n" "\<not> isslink n" "d_name n = Some nm"
    and onTape: "stored (kept_tape vol) (vol_label vol) (blocksize (vol_label vol)) (dentry.truncate n)"
    and cache: "cache_ok (kept_tape vol) (blocksize (vol_label vol)) vol"
  shows "\<exists>s1 r m2. ltfs_fsops_open env path True ios (vol, s) = Some (Inr d, vol, s1) \<and>
    at_rest (add_mset d H) s1 \<and> resolve s1 = resolve s \<and>
    ltfs_fsops_write filedebug_handler env d buf offset ut (vol, s1) = Some (r, m2) \<and>
    at_rest (add_mset d H) (snd m2) \<and> resolve (snd m2) = resolve s \<and>
    (r = Inl LTFS_LESS_SPACE \<and> (\<exists>n'. dentries (snd m2) d = Some n' \<and> body n' = body n) \<or>
     r = Inr () \<and>
     (\<exists>m3 m4 m5. ltfs_fsops_close env d flush True ios m2 = Some (Inr (), m3) \<and> at_rest H (snd m3) \<and> resolve (snd m3) = resolve s \<and>
       ltfs_fsops_open env path False ios m3 = Some (Inr d, m4) \<and> at_rest (add_mset d H) (snd m4) \<and> resolve (snd m4) = resolve s \<and>
       ltfs_fsops_read filedebug_handler env d (length buf) offset m4 = Some (Inr buf, m5) \<and>
       at_rest (add_mset d H) (snd m5) \<and> resolve (snd m5) = resolve s))"
proof -
  let ?bs = "blocksize (vol_label vol)"
  have rv: "reval vol = None" and bs: "0 < ?bs" using v(1) by (simp_all add: can_write_data_def Let_def)
  obtain s1 n1 where s1: "ltfs_fsops_open env path True ios (vol, s) = Some (Inr d, vol, s1)" "at_rest (add_mset d H) s1"
      "resolve s1 = resolve s" "dentries s1 d = Some n1" "body n1 = body n" "isdir n1 = isdir n"
    using open_write_spec [OF rest size oom rv v(2) fmt names d(1,2,4,5)] by blast
  have f1: "stored (kept_tape vol) (vol_label vol) ?bs (dentry.truncate n1)" using onTape body_stored(1) [OF s1(5)] by simp
  define P where "P r c vol' \<longleftrightarrow> can_read vol' \<and> vol_label vol' = vol_label vol \<and> stored (dev_tape (device vol')) (vol_label vol) ?bs c \<and>
      (r = Inr () \<and> contents vol' c = write_content offset buf (contents vol (dentry.truncate n1)) \<or> r = Inl LTFS_LESS_SPACE \<and> c = dentry.truncate n1)" for r c vol'
  have "\<exists>r c vol'. ltfs_fsraw_write filedebug_handler (oe_fs env) buf offset (ltfs_dp_id vol) ut (dentry.truncate n1, vol) = Some (r, c, vol') \<and> P r c vol'" for ut
    using write_contents [OF v(1) fsenv buf f1 cache, of ut] unfolding P_def by blast
  from write_handler [OF s1(4) _ s1(2) this, of ut] d(3) s1(6)
  obtain r c vol' s2 n2 where s2: "ltfs_fsops_write filedebug_handler env d buf offset ut (vol, s1) = Some (r, vol', s2)"
      "at_rest (add_mset d H) s2" "resolve s2 = resolve s1" "dentries s2 d = Some n2" "body n2 = body c" "\<not> isdir n2" "P r c vol'"
    by auto
  show ?thesis
  proof (cases "r = Inl LTFS_LESS_SPACE")
    case False
    then have w: "can_read vol'" "vol_label vol' = vol_label vol" "stored (dev_tape (device vol')) (vol_label vol) ?bs c" "r = Inr ()"
        "contents vol' c = write_content offset buf (contents vol (dentry.truncate n1))" using s2(7) by (auto simp: P_def)
    have rv': "reval vol' = None" using w(1) by (simp add: can_read_def)
    obtain s3 n3 where s3: "ltfs_fsops_close env d flush True ios (vol', s2) = Some (Inr (), vol', s3)" "at_rest H s3" "resolve s3 = resolve s2"
        "dentries s3 d = Some n3" "body n3 = body n2" "isdir n3 = isdir n2"
      using close_body [OF s2(2) rv' _ s2(4), of ks env flush True ios] s2(3) s1(3) d(1) by (auto simp: kept_def)
    let ?s4 = "alter d inc_handles s3" and ?n4 = "inc_handles n3"
    have o4: "ltfs_fsops_open env path False ios (vol', s3) = Some (Inr d, vol', ?s4)"
      using open_spec [OF s3(2) oom rv' fmt names, of ios] s3(3) s2(3) s1(3) d(1) by simp
    have r4: "at_rest (add_mset d H) ?s4" using fs_inv_get [of H s3 d n3] s3(2,4) size by (simp add: at_rest_def)
    have b4: "body (dentry.truncate ?n4) = body c" unfolding body_truncate using s3(5) s2(5) by (simp add: body_def)
    have st: "stored (dev_tape (device vol')) (vol_label vol') (blocksize (vol_label vol')) (dentry.truncate ?n4)"
      and co: "contents vol' (dentry.truncate ?n4) = write_content offset buf (contents vol (dentry.truncate n1))"
      using body_stored [of "?n4" c] b4 w(2,3,5) by simp_all
    have "length (contents vol' (dentry.truncate ?n4)) = size ?n4" by (simp add: file_content_def dentry.truncate_def)
    then have "offset + length buf \<le> size (dentry.truncate ?n4)" unfolding co by (simp add: dentry.truncate_def)
    then obtain c5 vol5 where r5: "ltfs_fsraw_read filedebug_handler (oe_fs env) (length buf) offset (dentry.truncate ?n4, vol') =
        Some (Inr (take (length buf) (drop offset (contents vol' (dentry.truncate ?n4)))), c5, vol5)"
      using read_content [OF w(1), of "oe_fs env" "dentry.truncate ?n4" "length buf" offset] st fsenv buf bs by auto
    have "take (length buf) (drop offset (contents vol' (dentry.truncate ?n4))) = buf" unfolding co by (simp add: write_content_def)
    then have "ltfs_fsops_read filedebug_handler env d (length buf) offset (vol', ?s4) = Some (Inr buf, vol5, alter d (put_contents c5) ?s4)"
      "at_rest (add_mset d H) (alter d (put_contents c5) ?s4)" "resolve (alter d (put_contents c5) ?s4) = resolve ?s4"
      using read_handler [OF _ _ r4 r5] s3(4,6) s2(6) by simp_all
    moreover have "resolve ?s4 = resolve s" using s3(3) s2(3) s1(3) by simp
    ultimately show ?thesis using s1(1-3) s2(1-3) s3(1-3) o4 r4 w(4) by auto
  next
    case True
    then have "body n2 = body n" using s2(5,7) s1(5) by (simp add: P_def)
    then show ?thesis using True s1(1-3) s2(1-4) by auto
  qed
qed

theorem write_close_open_read_witness:
  "\<exists>s1 m2 m3 m4 m5. ltfs_fsops_open demo_env (path_text [[0x61], [0x62]]) True False (volB, demo_fs) = Some (Inr 2, volB, s1) \<and>
    ltfs_fsops_write filedebug_handler demo_env 2 [5, 6] 1 True (volB, s1) = Some (Inr (), m2) \<and>
    ltfs_fsops_close demo_env 2 True True False m2 = Some (Inr (), m3) \<and>
    ltfs_fsops_open demo_env (path_text [[0x61], [0x62]]) False False m3 = Some (Inr 2, m4) \<and>
    ltfs_fsops_read filedebug_handler demo_env 2 2 1 m4 = Some (Inr [5, 6], m5) \<and> at_rest {#2#} (snd m5)"
proof -
  obtain n where n: "dentries demo_fs 2 = Some n" "\<not> isdir n" "\<not> isslink n" "d_name n = Some [0x62]" "body n = ([], 0, 0)"
    by (simp add: demo_fs_def blank_node_def body_def)
  have st: "stored tp lab bs (dentry.truncate n)" for tp lab bs
    using n(5) by (simp add: body_def stored_def file_ok_def readable_def dentry.truncate_def U64_def)
  have "tape_read_only q (device volB) = Inr ()" for q by (simp add: tape_read_only_def volB_def volA_def blank_device_def)
  then have ro: "ltfs_get_tape_readonly volB = Inr ()" by (simp add: ltfs_get_tape_readonly_def)
  have env: "fs_mutex (oe_fs demo_env)" "\<forall>i. fs_malloc (oe_fs demo_env) i" by (simp_all add: demo_env_def envA_def)
  obtain s1 r m2 where a: "ltfs_fsops_open demo_env (path_text [[0x61], [0x62]]) True False (volB, demo_fs) = Some (Inr 2, volB, s1)"
      "at_rest {#2#} s1" "ltfs_fsops_write filedebug_handler demo_env 2 [5, 6] 1 True (volB, s1) = Some (r, m2)"
      "r \<noteq> Inl LTFS_LESS_SPACE \<Longrightarrow> r = Inr () \<and>
       (\<exists>m3 m4 m5. ltfs_fsops_close demo_env 2 True True False m2 = Some (Inr (), m3) \<and>
         ltfs_fsops_open demo_env (path_text [[0x61], [0x62]]) False False m3 = Some (Inr 2, m4) \<and>
         ltfs_fsops_read filedebug_handler demo_env 2 2 1 m4 = Some (Inr [5, 6], m5) \<and> at_rest {#2#} (snd m5))"
    using write_close_open_read [OF demo_rest _ demo_env_ok(1) volB_ready(1) ro env _ _ _ demo_path(1) demo_path(2) demo_resolve(3) n(1-4) st,
        where buf = "[5, 6]" and offset = 1 and ios = False and ut = True and flush = True] volB_ready(2) volB_cache
    by (fastforce simp: volB_ready(3) U32_def U64_def numeral_2_eq_2)
  have "r \<noteq> Inl LTFS_LESS_SPACE" using volB_write_fits [OF a(2) _ a(3)] by simp
  from a(4) [OF this] a(1,3) show ?thesis by blast
qed

section \<open>Paths of dentries and entries of directories\<close>

lemma dentry_names_path:
  assumes wf: "fs_wf s" and free: "unlocked s" and "resolve s ks = Some p"
  shows "dentry_names (\<lambda>_. True) p acc s = Some (Inr (([slash] # ks) @ acc), s)" "dentry_depth (Some p) s = Some (Suc (length ks))"
  using assms(3)
proof (induction ks arbitrary: p acc rule: rev_induct)
  case Nil
  case 1
  have p: "p = root s" using 1 by (simp add: resolve_def)
  obtain n where "dentries s p = Some n" "parent n = None" "platform_safe_name n = Some [slash]" using wf p by (auto simp: fs_wf_def)
  then show ?case by (subst dentry_names.simps) simp
  case 2
  have "p = root s" using 2 by (simp add: resolve_def)
  then obtain n where "dentries s p = Some n" "parent n = None" using wf by (auto simp: fs_wf_def)
  moreover have "dentry_depth None s = Some 0" by (subst dentry_depth.simps) simp
  ultimately show ?case by (subst dentry_depth.simps) simp
next
  case (snoc k ks)
  have *: "\<exists>q n. resolve s ks = Some q \<and> dentries s p = Some n \<and> parent n = Some q \<and> platform_safe_name n = Some k" if "resolve s (ks @ [k]) = Some p" for p
  proof -
    obtain q where q: "resolve s ks = Some q" "child s q k = Some p" using \<open>resolve s (ks @ [k]) = Some p\<close> by (auto simp: resolve_def path_of_snoc)
    then show ?thesis using child_edge [OF wf] fs_wf_edge_up [OF wf] by (auto simp: up_def)
  qed
  case 1
  from * [OF this] obtain q n where q: "resolve s ks = Some q" "dentries s p = Some n" "parent n = Some q" "platform_safe_name n = Some k" by blast
  then show ?case using free snoc.IH(1) [OF q(1), of "k # acc"] by (subst dentry_names.simps) (simp add: lock_ops hold_same)
  case 2
  from * [OF this] obtain q n where q: "resolve s ks = Some q" "dentries s p = Some n" "parent n = Some q" by blast
  then show ?case using snoc.IH(2) [OF q(1)] by (subst dentry_depth.simps) simp
qed

lemma join_names_text: "ks \<noteq> [] \<Longrightarrow> slash # join_names ks = concat (map (\<lambda>k. slash # k) ks)"
  by (induction ks rule: join_names.induct) auto

lemma concat_names_text: "concat_names ([slash] # ks) = path_text ks"
  using join_names_text [of ks] by (cases ks) (auto simp: concat_names_def path_text_def)

text \<open>
  C18. The path that \<^verbatim>\<open>fs_dentry_lookup\<close> computes for a dentry of the tree, by walking up to the root, leads
  back to this dentry when it is looked up; the walk leaves the state as it was.
\<close>

theorem dentry_lookup_roundtrip:
  assumes rest: "at_rest H s" and path: "resolve s ks = Some p" and names: "\<forall>k \<in> set ks. name_ok k"
  shows "fs_dentry_lookup True (\<lambda>_. True) True p s = Some (Inr (Some (path_text ks)), s) \<and>
    fs_path_lookup True True (path_text ks) {} s = Some (Inr p, alter p inc_handles s)"
proof -
  have P: "fs_wf s" "refs_ok H s" "unlocked s" using at_rest_parts [OF rest] by simp_all
  have "fs_dentry_lookup True (\<lambda>_. True) True p s = Some (Inr (Some (path_text ks)), s)"
    using dentry_names_path [OF P(1,3) path] by (simp add: fs_dentry_lookup_def concat_names_text)
  moreover have "fs_path_lookup True True (path_text ks) {} s = Some (Inr p, alter p inc_handles s)"
    unfolding path_lookup_plain [OF P] using lookup_names [OF names, of "path_text ks" s] path by simp
  ultimately show ?thesis by simp
qed

theorem dentry_lookup_roundtrip_witness:
  "fs_dentry_lookup True (\<lambda>_. True) True 2 demo_fs = Some (Inr (Some [slash, 0x61, slash, 0x62]), demo_fs) \<and>
    fs_path_lookup True True [slash, 0x61, slash, 0x62] {} demo_fs = Some (Inr 2, alter 2 inc_handles demo_fs)"
  using dentry_lookup_roundtrip [OF demo_rest demo_resolve(3) demo_path(2)] by (simp add: path_text_def)

text \<open>The search for an entry finds the child with this number.\<close>

lemma find_direntry_nth:
  assumes "\<forall>(k, p) \<in> set cl. \<exists>m. dentries s p = Some m \<and> \<not> deleted m \<and> platform_safe_name m = Some k"
  shows "find_direntry s (i + j) i cl = Some (if j < length cl then (i + j, Some (snd (cl ! j))) else (i + length cl, None))"
  using assms
proof (induction cl arbitrary: i j)
  case (Cons c cl)
  obtain k p where c: "c = (k, p)" by (cases c)
  obtain m where "dentries s p = Some m" "\<not> deleted m" "platform_safe_name m = Some k" using Cons.prems c by auto
  then show ?case using Cons.IH [of "i + 1" "j - 1"] Cons.prems c by (cases j) auto
qed simp

lemma find_direntry_hold [simp]: "find_direntry (hold l x s) a b cl = find_direntry s a b cl"
proof (induction cl arbitrary: b)
  case (Cons c cl)
  then show ?case by (cases c, cases "dentries s (snd c)") simp_all
qed simp

text \<open>
  C19. Reading the entries of a directory by number lists exactly the names that lead on from its path, each
  once: after the entries for the directory itself and its parent, which the root does not have, the
  \<open>i\<close>-th call returns the \<open>i\<close>-th name, and every later call ends with \<open>LTFS_NO_DENTRY\<close>.
\<close>

theorem read_direntry_lists_directory:
  assumes rest: "at_rest H s" and path: "resolve s ks = Some p" "dentries s p = Some n" "isdir n"
  shows "\<exists>ns. distinct ns \<and> set ns = {k. resolve s (ks @ [k]) \<noteq> None} \<and>
    (\<forall>i. (\<exists>e. i < length ns \<and> de_psn e = Some (ns ! i) \<and>
        ltfs_fsops_read_direntry p ((if ks = [] then 0 else 2) + i) True s = Some (Inr e, s)) \<or>
      length ns \<le> i \<and> ltfs_fsops_read_direntry p ((if ks = [] then 0 else 2) + i) True s = Some (Inl LTFS_NO_DENTRY, s))"
proof -
  let ?ns = "map fst (child_list n)"
  define off where "off = (if ks = [] then 0 else 2 :: nat)"
  have wf: "fs_wf s" using at_rest_parts [OF rest] by simp
  note nd = fs_wf_node [OF wf path(2)]
  have dist: "distinct ?ns" using fs_wf_local [OF wf path(2)] by (simp add: local_ok_def)
  have "resolve s (ks @ [k]) = child s p k" for k using resolve_child [OF path(1)] .
  then have names: "set ?ns = {k. resolve s (ks @ [k]) \<noteq> None}" using path(2) by (auto simp: child_def map_of_eq_None_iff)
  have ch: "\<forall>(k, c) \<in> set (child_list n). \<exists>m. dentries s c = Some m \<and> \<not> deleted m \<and> platform_safe_name m = Some k"
  proof clarify
    fix k c assume "(k, c) \<in> set (child_list n)"
    then obtain m where m: "dentries s c = Some m" "parent m = Some p" "platform_safe_name m = Some k" using node_child [OF nd] by blast
    then have "\<not> deleted m" using fs_wf_local [OF wf m(1)] by (simp add: local_ok_def linked_def)
    then show "\<exists>m. dentries s c = Some m \<and> \<not> deleted m \<and> platform_safe_name m = Some k" using m by blast
  qed
  have top: "parent n = None \<longleftrightarrow> ks = []"
  proof
    assume "parent n = None"
    then have "p = root s" using resolve_linked [OF wf path(1)] path(2) by (auto simp: linked_def)
    then show "ks = []" using resolve_unique [OF wf path(1), of "[]"] by (simp add: resolve_def)
  qed (use path wf in \<open>auto simp: resolve_def fs_wf_def\<close>)
  have start: "direntry_start True (off + i) p n = (None, None, off)" for i using top by (simp add: direntry_start_def off_def)
  have "(\<exists>e. i < length ?ns \<and> de_psn e = Some (?ns ! i) \<and> ltfs_fsops_read_direntry p (off + i) True s = Some (Inr e, s)) \<or>
      length ?ns \<le> i \<and> ltfs_fsops_read_direntry p (off + i) True s = Some (Inl LTFS_NO_DENTRY, s)" for i
  proof (cases "i < length (child_list n)")
    case True
    obtain k c where kc: "child_list n ! i = (k, c)" by (cases "child_list n ! i")
    then obtain m where m: "dentries s c = Some m" "platform_safe_name m = Some k" using ch nth_mem [OF True] by fastforce
    then have "\<exists>e. de_psn e = Some k \<and> ltfs_fsops_read_direntry p (off + i) True s = Some (Inr e, s)"
      using path rest find_direntry_nth [OF ch, of off i] True kc unfolding ltfs_fsops_read_direntry_def
      by (auto simp: lock_ops hold_same start)
    then show ?thesis using True kc by auto
  next
    case False
    then show ?thesis
      using path rest find_direntry_nth [OF ch, of off i] unfolding ltfs_fsops_read_direntry_def by (auto simp: lock_ops hold_same start)
  qed
  then show ?thesis using dist names unfolding off_def by (intro exI [of _ ?ns]) blast
qed

theorem read_direntry_lists_directory_witness:
  "\<exists>e. ltfs_fsops_read_direntry 1 2 True demo_fs = Some (Inr e, demo_fs) \<and> de_psn e = Some [0x62] \<and>
    ltfs_fsops_read_direntry 1 3 True demo_fs = Some (Inl LTFS_NO_DENTRY, demo_fs)"
proof -
  obtain n where n: "dentries demo_fs 1 = Some n" "isdir n" using demo_nodes(2) by blast
  obtain ns where ns: "distinct ns" "set ns = {k. resolve demo_fs ([[0x61]] @ [k]) \<noteq> None}"
    and all: "\<forall>i. (\<exists>e. i < length ns \<and> de_psn e = Some (ns ! i) \<and> ltfs_fsops_read_direntry 1 (2 + i) True demo_fs = Some (Inr e, demo_fs)) \<or>
      length ns \<le> i \<and> ltfs_fsops_read_direntry 1 (2 + i) True demo_fs = Some (Inl LTFS_NO_DENTRY, demo_fs)"
    using read_direntry_lists_directory [OF demo_rest demo_resolve(2) n] by auto
  have "set ns = {[0x62]}" using ns(2) by (auto simp: resolve_def child_def demo_fs_def blank_node_def split: if_splits)
  moreover have "length ns = 1" using distinct_card [OF ns(1)] calculation by simp
  ultimately have "ns = [[0x62]]" by (cases ns) auto
  then show ?thesis using spec [OF all, of 0] spec [OF all, of 1] by auto
qed

end
