(* ===== verification/Ltfs_Xattr.thy ===== *)
theory Ltfs_Xattr
  imports Ltfs_Client
begin

text \<open>
  Extended attributes: \<^verbatim>\<open>libltfs/xattr.c\<close> and the four operations of \<^verbatim>\<open>ltfs_fsops.c\<close> on them. The attributes of a
  dentry are a list of names and values in the order of the queue \<^verbatim>\<open>xattrlist\<close>. The names that stand for
  properties of the file system (virtual attributes) are decided here; how their values are formatted,
  parsed and applied is a parameter.
\<close>

section \<open>The list of attributes\<close>

text \<open>\<^verbatim>\<open>_xattr_seek\<close>: the first entry with the name.\<close>

definition xattr_seek :: "byte list \<Rightarrow> (byte list \<times> byte list) list \<Rightarrow> byte list option" where
  "xattr_seek name l = map_option snd (find (\<lambda>e. fst e = name) l)"

text \<open>The entry found by the search gets another value, or is removed from the queue.\<close>

fun xattr_put :: "byte list \<Rightarrow> byte list \<Rightarrow> (byte list \<times> byte list) list \<Rightarrow> (byte list \<times> byte list) list" where
  "xattr_put name v [] = []"
| "xattr_put name v (e # l) = (if fst e = name then (fst e, v) # l else e # xattr_put name v l)"

fun xattr_drop :: "byte list \<Rightarrow> (byte list \<times> byte list) list \<Rightarrow> (byte list \<times> byte list) list" where
  "xattr_drop name [] = []"
| "xattr_drop name (e # l) = (if fst e = name then l else e # xattr_drop name l)"

text \<open>
  \<open>found\<close>: the entry exists. \<open>mem\<close>: the allocations of the entry, its name and its value. An existing
  attribute whose new value cannot be allocated is removed.
\<close>

definition xattr_do_set ::
    "(nat \<Rightarrow> bool) \<Rightarrow> byte list \<Rightarrow> byte list \<Rightarrow> bool \<Rightarrow> (byte list \<times> byte list) list \<Rightarrow> (unit, (byte list \<times> byte list) list) result" where
  "xattr_do_set mem name value found l =
     (if \<not> found \<and> (\<not> mem 0 \<or> \<not> mem 1) then (Inl LTFS_NO_MEMORY, l)
      else let l = (if found then l else (name, []) # l)
        in if value \<noteq> [] \<and> \<not> mem 2 then (Inl LTFS_NO_MEMORY, xattr_drop name l)
           else (Inr (), xattr_put name value l))"

lemma xattr_seek_simps [simp]:
  "xattr_seek name [] = None"
  "xattr_seek name (e # l) = (if fst e = name then Some (snd e) else xattr_seek name l)"
  by (simp_all add: xattr_seek_def)

lemma xattr_seek_map_of: "xattr_seek name l = map_of l name"
  by (induction l) auto

lemma xattr_put_map: "map_of (xattr_put name v l) = (if map_of l name = None then map_of l else (map_of l)(name \<mapsto> v))"
  by (induction l) (auto simp: fun_eq_iff)

lemma xattr_put_names [simp]: "map fst (xattr_put name v l) = map fst l"
  by (induction l) auto

lemma xattr_drop_names: "map fst (xattr_drop name l) = remove1 name (map fst l)"
  by (induction l) auto

lemma xattr_drop_map: "distinct (map fst l) \<Longrightarrow> map_of (xattr_drop name l) = (map_of l)(name := None)"
proof (induction l)
  case (Cons e l)
  then have "fst e = name \<Longrightarrow> map_of l name = None" by (auto simp: map_of_eq_None_iff)
  then show ?case using Cons by (auto simp: fun_eq_iff)
qed simp

text \<open>The names stay distinct, and the attribute is set while every other one keeps its value.\<close>

lemma xattr_do_set_ok:
  assumes "\<forall>i. mem i"
  shows "\<exists>l'. xattr_do_set mem name value (xattr_seek name l \<noteq> None) l = (Inr (), l') \<and> map_of l' = (map_of l)(name \<mapsto> value)"
  using assms by (auto simp: xattr_do_set_def Let_def xattr_put_map xattr_seek_map_of fun_eq_iff)

lemma xattr_do_set_distinct:
  assumes "distinct (map fst l)"
  shows "distinct (map fst (snd (xattr_do_set mem name value (xattr_seek name l \<noteq> None) l)))"
proof (cases "xattr_seek name l")
  case None
  then have "name \<notin> fst ` set l" by (simp add: xattr_seek_map_of map_of_eq_None_iff)
  then show ?thesis using assms None by (auto simp: xattr_do_set_def Let_def)
qed (use assms in \<open>auto simp: xattr_do_set_def Let_def xattr_drop_names distinct_remove1\<close>)

section \<open>Names\<close>

definition ascii_lower :: "byte \<Rightarrow> byte" where
  "ascii_lower c = (if 0x41 \<le> c \<and> c \<le> 0x5a then c + 0x20 else c)"

text \<open>\<open>strcasestr (name, p) == name\<close>.\<close>

definition starts_caseless :: "string \<Rightarrow> byte list \<Rightarrow> bool" where
  "starts_caseless p name \<longleftrightarrow> map ascii_lower (take (length p) name) = str p"

text \<open>The names that users may neither set nor remove, other than by the virtual attributes.\<close>

definition reserved_name :: "byte list \<Rightarrow> bool" where
  "reserved_name name \<longleftrightarrow> starts_caseless ''ltfs'' name \<and> name \<noteq> str ''ltfs.spannedFileOffset'' \<and>
     \<not> starts_caseless ''ltfs.permissions.'' name \<and> \<not> starts_caseless ''ltfs.hash.'' name"

definition xattr_strip_name :: "byte list \<Rightarrow> byte list option" where
  "xattr_strip_name name = (if take 5 name = str ''user.'' then Some (drop 5 name) else None)"

text \<open>The virtual attributes of every dentry, of a file with data and of the root.\<close>

definition virtual_all :: "string list" where
  "virtual_all = [''ltfs.createTime'', ''ltfs.modifyTime'', ''ltfs.accessTime'', ''ltfs.changeTime'', ''ltfs.backupTime'',
     ''ltfs.fileUID'', ''ltfs.volumeUUID'', ''ltfs.volumeName'', ''ltfs.driveCaptureDump'', ''ltfs.softwareVersion'',
     ''ltfs.softwareFormatSpec'', ''ltfs.softwareVendor'', ''ltfs.softwareProduct'', ''ltfs.mamApplicationVendor'',
     ''ltfs.mamApplicationName'', ''ltfs.mamApplicationVersion'', ''ltfs.mamApplicationFormatVersion'', ''ltfs.mamVolumeName'',
     ''ltfs.mamBarcode'']"

definition virtual_root :: "string list" where
  "virtual_root = [''ltfs.commitMessage'', ''ltfs.indexVersion'', ''ltfs.labelVersion'', ''ltfs.sync'', ''ltfs.indexGeneration'',
     ''ltfs.indexTime'', ''ltfs.policyExists'', ''ltfs.policyAllowUpdate'', ''ltfs.volumeFormatTime'', ''ltfs.volumeBlocksize'',
     ''ltfs.volumeCompression'', ''ltfs.indexLocation'', ''ltfs.indexPrevious'', ''ltfs.indexCreator'', ''ltfs.labelCreator'',
     ''ltfs.partitionMap'', ''ltfs.volumeSerial'', ''ltfs.mediaLoads'', ''ltfs.mediaRecoveredWriteErrors'',
     ''ltfs.mediaPermanentWriteErrors'', ''ltfs.mediaRecoveredReadErrors'', ''ltfs.mediaPermanentReadErrors'',
     ''ltfs.mediaPreviousPermanentWriteErrors'', ''ltfs.mediaPreviousPermanentReadErrors'', ''ltfs.mediaBeginningMediumPasses'',
     ''ltfs.mediaMiddleMediumPasses'', ''ltfs.mediaEfficiency'', ''ltfs.mediaStorageAlert'', ''ltfs.mediaDatasetsWritten'',
     ''ltfs.mediaDatasetsRead'', ''ltfs.mediaMBWritten'', ''ltfs.mediaMBRead'', ''ltfs.mediaDataPartitionTotalCapacity'',
     ''ltfs.mediaDataPartitionAvailableSpace'', ''ltfs.mediaIndexPartitionTotalCapacity'',
     ''ltfs.mediaIndexPartitionAvailableSpace'', ''ltfs.mediaEncrypted'', ''ltfs.driveEncryptionState'',
     ''ltfs.driveEncryptionMethod'', ''ltfs.vendor.IBM.referencedBlocks'', ''ltfs.vendor.IBM.trace'',
     ''ltfs.vendor.IBM.totalBlocks'', ''ltfs.vendor.IBM.cartridgeMountNode'', ''ltfs.vendor.IBM.logLevel'',
     ''ltfs.vendor.IBM.syslogLevel'']"

definition xattr_is_virtual :: "dptr \<Rightarrow> node \<Rightarrow> byte list \<Rightarrow> fs \<Rightarrow> bool" where
  "xattr_is_virtual d n name s \<longleftrightarrow>
     name \<in> set (map str virtual_all) \<or>
     \<not> isdir n \<and> extentlist n \<noteq> [] \<and> (name = str ''ltfs.partition'' \<or> name = str ''ltfs.startblock'') \<or>
     d = root s \<and> (have_criteria (criteria s) \<and> name = str ''ltfs.policyMaxFileSize'' \<or>
       name \<in> set (map str virtual_root) \<or> take 11 name = str ''ltfs.vendor'')"

text \<open>Every virtual name is reserved.\<close>

lemma starts_caseless_str: "list_all (\<lambda>c. ascii_lower (of_char c) = of_char c) p \<Longrightarrow> take (length p) name = str p \<Longrightarrow> starts_caseless p name"
  by (simp add: starts_caseless_def str_def list_all_iff)

lemma lower_ltfs: "list_all (\<lambda>c. ascii_lower (of_char c) = of_char c) ''ltfs''"
  by (simp add: ascii_lower_def)

lemma virtual_prefix: "name \<in> set (map str virtual_all) \<union> set (map str virtual_root) \<Longrightarrow> take 4 name = str ''ltfs''"
  by (auto simp: virtual_all_def virtual_root_def str_def)

lemma virtual_starts: "xattr_is_virtual d n name s \<Longrightarrow> starts_caseless ''ltfs'' name"
proof -
  assume v: "xattr_is_virtual d n name s"
  have "take 4 name = str ''ltfs''"
  proof (cases "take 11 name = str ''ltfs.vendor''")
    case True
    then have "take 4 (take 11 name) = take 4 (str ''ltfs.vendor'')" by simp
    then show ?thesis by (simp add: str_def)
  next
    case False
    then have "name \<in> set (map str virtual_all) \<union> set (map str virtual_root) \<or> name = str ''ltfs.partition'' \<or> name = str ''ltfs.startblock'' \<or>
        name = str ''ltfs.policyMaxFileSize''" using v by (auto simp: xattr_is_virtual_def)
    then show ?thesis using virtual_prefix [of name] by (auto simp: str_def)
  qed
  then show ?thesis by (intro starts_caseless_str [OF lower_ltfs]) (simp add: eval_nat_numeral)
qed


section \<open>Attributes of a dentry\<close>

text \<open>
  The environment: \<open>xe_get\<close>, \<open>xe_set\<close> and \<open>xe_remove\<close> are what the virtual attributes do; a value to get may be
  missing without an error. \<open>xe_mem\<close>: the allocations of \<^verbatim>\<open>xattr_do_set\<close>; \<open>xe_unformat\<close>: those of the
  conversion of names. \<open>xe_fmt\<close>: those of the formatting of a name.
\<close>

record 's xattr_env =
  xe_op :: "'s op_env"
  xe_get :: "byte list \<Rightarrow> dptr \<Rightarrow> 's mounted \<Rightarrow> (byte list option, 's mounted) result"
  xe_set :: "byte list \<Rightarrow> byte list \<Rightarrow> dptr \<Rightarrow> 's mounted \<Rightarrow> (unit, 's mounted) result"
  xe_remove :: "byte list \<Rightarrow> dptr \<Rightarrow> 's mounted \<Rightarrow> (unit, 's mounted) result"
  xe_mem :: "nat \<Rightarrow> bool"
  xe_unformat :: "nat \<Rightarrow> bool"
  xe_fmt :: "nat \<Rightarrow> bool"

definition LTFS_MAX_XATTR_SIZE :: nat where "LTFS_MAX_XATTR_SIZE = 4096"

text \<open>Attributes that are read from the extent list need its lock.\<close>

definition needs_contents :: "byte list \<Rightarrow> bool" where
  "needs_contents name \<longleftrightarrow> name = str ''ltfs.startblock'' \<or> name = str ''ltfs.partition''"

definition xattr_lock_dentry :: "byte list \<Rightarrow> dptr \<Rightarrow> fs \<Rightarrow> fs option" where
  "xattr_lock_dentry name d s = (if needs_contents name then acquireread_mrsw (Contents d) s else Some s)"

definition xattr_unlock_dentry :: "byte list \<Rightarrow> dptr \<Rightarrow> fs \<Rightarrow> fs option" where
  "xattr_unlock_dentry name d s = (if needs_contents name then releaseread_mrsw (Contents d) s else Some s)"

text \<open>The label \<^verbatim>\<open>out_unlock\<close>.\<close>

definition xattr_out :: "byte list \<Rightarrow> dptr \<Rightarrow> err + 'a \<Rightarrow> 's mounted \<Rightarrow> ('a, 's mounted) result option" where
  "xattr_out name d r = (\<lambda>(vol, s). do { s \<leftarrow> xattr_unlock_dentry name d s; Some (r, vol, s) })"

text \<open>A real attribute is set under the meta lock; \<open>creat\<close> and \<open>repl\<close> are the two flags.\<close>

definition xattr_set_real ::
    "'s xattr_env \<Rightarrow> dptr \<Rightarrow> byte list \<Rightarrow> byte list \<Rightarrow> bool \<Rightarrow> bool \<Rightarrow> 's mounted \<Rightarrow> (unit, 's mounted) result option" where
  "xattr_set_real env d name value creat repl = (\<lambda>(vol, s). do {
     s \<leftarrow> acquirewrite_mrsw (Meta d) s;
     n \<leftarrow> dentries s d;
     let found = (xattr_seek name (xattrlist n) \<noteq> None);
     if creat \<and> found then do { s \<leftarrow> releasewrite_mrsw (Meta d) s; Some (Inl LTFS_XATTR_EXISTS, vol, s) }
     else if repl \<and> \<not> found then do { s \<leftarrow> releasewrite_mrsw (Meta d) s; Some (Inl LTFS_NO_XATTR, vol, s) }
     else case xattr_do_set (xe_mem env) name value found (xattrlist n) of
       (Inl e, l) \<Rightarrow> do {
         s \<leftarrow> change d (xattrlist_update (\<lambda>_. l)) s;
         s \<leftarrow> releasewrite_mrsw (Meta d) s;
         Some (Inl e, vol, s)}
     | (Inr _, l) \<Rightarrow> do {
         s \<leftarrow> change d (\<lambda>n. n\<lparr>xattrlist := l, change_time := fo_now (oe_tree (xe_op env))\<rparr>) s;
         s \<leftarrow> releasewrite_mrsw (Meta d) s;
         Some (Inr (), set_dirty False vol, s)}})"

definition xattr_set ::
    "'s xattr_env \<Rightarrow> dptr \<Rightarrow> byte list \<Rightarrow> byte list \<Rightarrow> bool \<Rightarrow> bool \<Rightarrow> 's mounted \<Rightarrow> (unit, 's mounted) result option" where
  "xattr_set env d name value creat repl = (\<lambda>(vol, s).
     if length value > LTFS_MAX_XATTR_SIZE then Some (Inl LTFS_LARGE_XATTR, vol, s)
     else do {
       s \<leftarrow> xattr_lock_dentry name d s;
       n \<leftarrow> dentries s d;
       if xattr_is_virtual d n name s then
         (case xe_set env name value d (vol, s) of
            (Inl e, m) \<Rightarrow> xattr_out name d (Inl (if e = LTFS_NO_XATTR then LTFS_RDONLY_XATTR else e)) m
          | (Inr _, m) \<Rightarrow> xattr_out name d (Inr ()) m)
       else if reserved_name name then xattr_out name d (Inl LTFS_RDONLY_XATTR) (vol, s)
       else do { (r, m) \<leftarrow> xattr_set_real env d name value creat repl (vol, s); xattr_out name d r m }})"

text \<open>
  The value of a virtual attribute for a buffer of \<open>len\<close> bytes: the number of bytes and the bytes copied. A
  buffer of no bytes asks for the size.
\<close>

definition xattr_get_virtual ::
    "'s xattr_env \<Rightarrow> dptr \<Rightarrow> byte list \<Rightarrow> nat \<Rightarrow> 's mounted \<Rightarrow> (nat \<times> byte list, 's mounted) result" where
  "xattr_get_virtual env d name len m =
     (case xe_get env name d m of
        (Inl e, m) \<Rightarrow> (Inl e, m)
      | (Inr None, m) \<Rightarrow> (Inr (0, []), m)
      | (Inr (Some v), m) \<Rightarrow>
          if len = 0 then (Inr (length v, []), m)
          else if len < length v then (Inl LTFS_SMALL_BUFFER, m)
          else (Inr (length v, v), m))"

definition xattr_get_real :: "dptr \<Rightarrow> byte list \<Rightarrow> nat \<Rightarrow> 's mounted \<Rightarrow> (nat \<times> byte list, 's mounted) result option" where
  "xattr_get_real d name len = (\<lambda>(vol, s). do {
     s \<leftarrow> acquireread_mrsw (Meta d) s;
     n \<leftarrow> dentries s d;
     let r = (case xattr_seek name (xattrlist n) of
                None \<Rightarrow> Inl LTFS_NO_XATTR
              | Some v \<Rightarrow> if len \<noteq> 0 \<and> len < length v then Inl LTFS_SMALL_BUFFER
                         else Inr (length v, if len \<noteq> 0 then v else []));
     s \<leftarrow> releaseread_mrsw (Meta d) s;
     Some (r, vol, s)})"

text \<open>
  When the device is fenced the volume lock is released, and the caller is told to start again unless the
  revalidation failed.
\<close>

definition xattr_get ::
    "'s xattr_env \<Rightarrow> dptr \<Rightarrow> byte list \<Rightarrow> nat \<Rightarrow> 's mounted \<Rightarrow> (nat \<times> byte list, 's mounted) result option" where
  "xattr_get env d name len = (\<lambda>(vol, s). do {
     s \<leftarrow> xattr_lock_dentry name d s;
     n \<leftarrow> dentries s d;
     let real = (\<lambda>m. do { (r, m) \<leftarrow> xattr_get_real d name len m; xattr_out name d r m });
     if xattr_is_virtual d n name s then
       (case xattr_get_virtual env d name len (vol, s) of
          (Inr v, m) \<Rightarrow> xattr_out name d (Inr v) m
        | (Inl e, vol, s) \<Rightarrow>
            if e = LTFS_DEVICE_FENCED then do {
              s \<leftarrow> xattr_unlock_dentry name d s;
              s \<leftarrow> release_mrsw Volume s;
              r \<leftarrow> ltfs_wait_revalidation vol;
              Some (case r of Inl e \<Rightarrow> Inl e | Inr _ \<Rightarrow> Inl LTFS_RESTART_OPERATION, vol, s)}
            else if NEED_REVAL e then do {
              s \<leftarrow> xattr_unlock_dentry name d s;
              s \<leftarrow> release_mrsw Volume s;
              case fs_revalidate (oe_fs (xe_op env)) vol of
                (Inl e, vol) \<Rightarrow> Some (Inl e, vol, s)
              | (Inr _, vol) \<Rightarrow> Some (Inl LTFS_RESTART_OPERATION, vol, s)}
            else if IS_UNEXPECTED_MOVE e then xattr_out name d (Inl e) (vol\<lparr>reval := Some LTFS_REVAL_FAILED\<rparr>, s)
            else if e \<noteq> LTFS_NO_XATTR then xattr_out name d (Inl e) (vol, s)
            else real (vol, s))
     else real (vol, s)})"

text \<open>
  The names with their prefix, each ended by a null byte, as far as they fit into \<open>len\<close> bytes; the number
  \<open>nb\<close> of bytes counts those that do not fit. \<open>i\<close> numbers the conversions.
\<close>

definition LTFS_LIVELINK_EA_NAME :: "byte list" where "LTFS_LIVELINK_EA_NAME = str ''ltfs.vendor.IBM.prefixLength''"

fun list_physicals_loop ::
    "icu_env \<Rightarrow> (nat \<Rightarrow> bool) \<Rightarrow> byte list \<Rightarrow> nat \<Rightarrow> nat \<Rightarrow> nat \<Rightarrow> byte list \<Rightarrow> (byte list \<times> byte list) list \<Rightarrow> err + nat \<times> byte list" where
  "list_physicals_loop icu mem pre len i nb out [] = Inr (nb, out)"
| "list_physicals_loop icu mem pre len i nb out (e # l) =
     (case pathname_unformat icu (mem i) (fst e) of
        Inl x \<Rightarrow> Inl x
      | Inr name \<Rightarrow>
          if name = LTFS_LIVELINK_EA_NAME then list_physicals_loop icu mem pre len (i + 1) nb out l
          else let nb = nb + length pre + length name + 1
            in list_physicals_loop icu mem pre len (i + 1) nb (if len \<noteq> 0 \<and> nb \<le> len then out @ pre @ name @ [0] else out) l)"

definition xattr_list_physicals :: "icu_env \<Rightarrow> (nat \<Rightarrow> bool) \<Rightarrow> nat \<Rightarrow> node \<Rightarrow> err + nat \<times> byte list" where
  "xattr_list_physicals icu mem len n =
     (case pathname_unformat icu (mem 0) (str ''user.'') of
        Inl e \<Rightarrow> Inl e
      | Inr pre \<Rightarrow> list_physicals_loop icu mem pre len 1 0 [] (xattrlist n))"

definition xattr_list :: "'s xattr_env \<Rightarrow> dptr \<Rightarrow> nat \<Rightarrow> 's mounted \<Rightarrow> (nat \<times> byte list, 's mounted) result option" where
  "xattr_list env d len = (\<lambda>(vol, s). do {
     s \<leftarrow> acquireread_mrsw (Meta d) s;
     n \<leftarrow> dentries s d;
     let r = (case xattr_list_physicals (fo_icu (oe_tree (xe_op env))) (xe_unformat env) len n of
                Inl e \<Rightarrow> Inl e
              | Inr (nb, out) \<Rightarrow> if len \<noteq> 0 \<and> nb > len then Inl LTFS_SMALL_BUFFER else Inr (nb, out));
     s \<leftarrow> releaseread_mrsw (Meta d) s;
     Some (r, vol, s)})"

definition xattr_do_remove :: "'s xattr_env \<Rightarrow> dptr \<Rightarrow> byte list \<Rightarrow> bool \<Rightarrow> fs \<Rightarrow> (unit, fs) result option" where
  "xattr_do_remove env d name forced s = do {
     s \<leftarrow> acquirewrite_mrsw (Meta d) s;
     n \<leftarrow> dentries s d;
     if xattr_seek name (xattrlist n) = None then do { s \<leftarrow> releasewrite_mrsw (Meta d) s; Some (Inl LTFS_NO_XATTR, s) }
     else if \<not> forced \<and> reserved_name name then do { s \<leftarrow> releasewrite_mrsw (Meta d) s; Some (Inl LTFS_RDONLY_XATTR, s) }
     else do {
       s \<leftarrow> change d (\<lambda>n. n\<lparr>xattrlist := xattr_drop name (xattrlist n), change_time := fo_now (oe_tree (xe_op env))\<rparr>) s;
       s \<leftarrow> releasewrite_mrsw (Meta d) s;
       Some (Inr (), s)}}"

text \<open>The index is marked as changed even when nothing was removed.\<close>

definition xattr_remove :: "'s xattr_env \<Rightarrow> dptr \<Rightarrow> byte list \<Rightarrow> 's mounted \<Rightarrow> (unit, 's mounted) result option" where
  "xattr_remove env d name = (\<lambda>(vol, s). do {
     s \<leftarrow> xattr_lock_dentry name d s;
     n \<leftarrow> dentries s d;
     if xattr_is_virtual d n name s then
       (case xe_remove env name d (vol, s) of
          (Inl e, m) \<Rightarrow> xattr_out name d (Inl (if e = LTFS_NO_XATTR then LTFS_RDONLY_XATTR else e)) m
        | (Inr _, m) \<Rightarrow> xattr_out name d (Inr ()) m)
     else do {
       (r, s) \<leftarrow> xattr_do_remove env d name False s;
       xattr_out name d r (set_dirty False vol, s)}})"



section \<open>The operations on paths\<close>

text \<open>The name of an attribute: formatted, without its prefix, and validated. \<open>bad\<close> is the error for another prefix.\<close>

definition xattr_name :: "'s xattr_env \<Rightarrow> err \<Rightarrow> byte list \<Rightarrow> (err + byte list) option" where
  "xattr_name env bad name =
     (case pathname_format (fo_icu (oe_tree (xe_op env))) (xe_fmt env) name True False of
        Some (Inr name) \<Rightarrow>
          (case xattr_strip_name name of
             None \<Rightarrow> Some (Inl bad)
           | Some name \<Rightarrow>
               (case pathname_validate_xattr_name (fo_icu (oe_tree (xe_op env))) name of
                  None \<Rightarrow> None
                | Some (Inl e) \<Rightarrow> Some (Inl e)
                | Some (Inr _) \<Rightarrow> Some (Inr name)))
      | r \<Rightarrow> r)"

text \<open>From the label \<^verbatim>\<open>start\<close>: \<open>sync\<close> for the attribute of the root that writes the index.\<close>

partial_function (option) setxattr_locked ::
    "'s xattr_env \<Rightarrow> bool \<Rightarrow> byte list \<Rightarrow> byte list \<Rightarrow> byte list \<Rightarrow> bool \<Rightarrow> bool \<Rightarrow> 's mounted \<Rightarrow> (nat \<times> nat, 's mounted) result option" where
  "setxattr_locked env sync path name value creat repl m = do {
     fl \<leftarrow> (if sync then ltfs_fsops_flush (xe_op env) None False (snd m) else Some (Inr ()));
     case fl of
       Inl e \<Rightarrow> Some (Inl e, m)
     | Inr _ \<Rightarrow> do {
         (l, vol, s) \<leftarrow> volume_lock sync m;
         case l of
           Inl e \<Rightarrow> Some (Inl e, vol, s)
         | Inr _ \<Rightarrow> do {
             (r, s) \<leftarrow> fs_path_lookup (fo_mem (oe_tree (xe_op env)) 0 0) (fo_mem (oe_tree (xe_op env)) 0 1) path {} s;
             case r of
               Inl e \<Rightarrow> do { s \<leftarrow> release_mrsw Volume s; Some (Inl e, vol, s) }
             | Inr d \<Rightarrow> do {
                 n \<leftarrow> dentries s d;
                 (_, m) \<leftarrow> xattr_get env d name LTFS_MAX_XATTR_SIZE (vol, s);
                 (r, vol, s) \<leftarrow> xattr_set env d name value creat repl m;
                 s \<leftarrow> fs_release_dentry (fo_mem (oe_tree (xe_op env)) 1 0) d s;
                 s \<leftarrow> release_mrsw Volume s;
                 case r of
                   Inr _ \<Rightarrow> Some (Inr (uid n, ino n), vol, s)
                 | Inl e \<Rightarrow>
                     if NEED_REVAL e then
                       (case fs_revalidate (oe_fs (xe_op env)) vol of
                          (Inl e, vol) \<Rightarrow> Some (Inl e, vol, s)
                        | (Inr _, vol) \<Rightarrow> setxattr_locked env sync path name value creat repl (vol, s))
                     else Some (Inl e, if IS_UNEXPECTED_MOVE e then vol\<lparr>reval := Some LTFS_REVAL_FAILED\<rparr> else vol, s)}}}}"

text \<open>\<open>format_path\<close> is the formatting of the path of every operation.\<close>

definition ltfs_fsops_setxattr ::
    "'s tape_ops \<Rightarrow> 's xattr_env \<Rightarrow> byte list \<Rightarrow> byte list \<Rightarrow> byte list \<Rightarrow> bool \<Rightarrow> bool \<Rightarrow> 's mounted \<Rightarrow> (nat \<times> nat, 's mounted) result option" where
  "ltfs_fsops_setxattr ops env path name value creat repl m =
     (if length value > LTFS_MAX_XATTR_SIZE then Some (Inl LTFS_LARGE_XATTR, m)
      else obind (device_ok ops (xe_op env) True m) (\<lambda>_ m.
        case format_path (xe_op env) 0 True path of
          None \<Rightarrow> None
        | Some (Inl e) \<Rightarrow> Some (Inl e, m)
        | Some (Inr path') \<Rightarrow>
            (case xattr_name env LTFS_XATTR_NAMESPACE name of
               None \<Rightarrow> None
             | Some (Inl e) \<Rightarrow> Some (Inl e, m)
             | Some (Inr name) \<Rightarrow>
                 setxattr_locked env (name = str ''ltfs.sync'' \<and> path = [slash]) path' name value creat repl m)))"

partial_function (option) getxattr_locked ::
    "'s xattr_env \<Rightarrow> byte list \<Rightarrow> byte list \<Rightarrow> nat \<Rightarrow> 's mounted \<Rightarrow> (nat \<times> byte list, 's mounted) result option" where
  "getxattr_locked env path name len m = do {
     (l, vol, s) \<leftarrow> take_volume m;
     case l of
       Inl e \<Rightarrow> Some (Inl e, vol, s)
     | Inr _ \<Rightarrow> do {
         (r, s) \<leftarrow> fs_path_lookup (fo_mem (oe_tree (xe_op env)) 0 0) (fo_mem (oe_tree (xe_op env)) 0 1) path {} s;
         case r of
           Inl e \<Rightarrow> do { s \<leftarrow> releaseread_mrsw Volume s; Some (Inl e, vol, s) }
         | Inr d \<Rightarrow> do {
             (r, vol, s) \<leftarrow> xattr_get env d name len (vol, s);
             s \<leftarrow> fs_release_dentry (fo_mem (oe_tree (xe_op env)) 1 0) d s;
             if r = Inl LTFS_RESTART_OPERATION then getxattr_locked env path name len (vol, s)
             else do { s \<leftarrow> releaseread_mrsw Volume s; Some (r, vol, s) }}}}"

definition ltfs_fsops_getxattr ::
    "'s xattr_env \<Rightarrow> byte list \<Rightarrow> byte list \<Rightarrow> nat \<Rightarrow> 's mounted \<Rightarrow> (nat \<times> byte list, 's mounted) result option" where
  "ltfs_fsops_getxattr env path name len m =
     (case format_path (xe_op env) 0 True path of
        None \<Rightarrow> None
      | Some (Inl e) \<Rightarrow> Some (Inl e, m)
      | Some (Inr path) \<Rightarrow>
          (case xattr_name env LTFS_NO_XATTR name of
             None \<Rightarrow> None
           | Some (Inl e) \<Rightarrow> Some (Inl e, m)
           | Some (Inr name) \<Rightarrow> getxattr_locked env path name len m))"

text \<open>A dentry is looked up under the volume lock, used and released again.\<close>

definition with_dentry ::
    "'s op_env \<Rightarrow> byte list \<Rightarrow> (dptr \<Rightarrow> 's mounted \<Rightarrow> ('a, 's mounted) result option) \<Rightarrow> 's mounted \<Rightarrow> ('a, 's mounted) result option" where
  "with_dentry env path f m = obind (take_volume m) (\<lambda>_ (vol, s). do {
     (r, s) \<leftarrow> fs_path_lookup (fo_mem (oe_tree env) 0 0) (fo_mem (oe_tree env) 0 1) path {} s;
     case r of
       Inl e \<Rightarrow> release_volume (Inl e) (vol, s)
     | Inr d \<Rightarrow> do {
         (r, vol, s) \<leftarrow> f d (vol, s);
         s \<leftarrow> fs_release_dentry (fo_mem (oe_tree env) 1 0) d s;
         release_volume r (vol, s)}})"

definition ltfs_fsops_listxattr ::
    "'s xattr_env \<Rightarrow> byte list \<Rightarrow> nat \<Rightarrow> 's mounted \<Rightarrow> (nat \<times> byte list, 's mounted) result option" where
  "ltfs_fsops_listxattr env path len m =
     (case format_path (xe_op env) 0 True path of
        None \<Rightarrow> None
      | Some (Inl e) \<Rightarrow> Some (Inl e, m)
      | Some (Inr path) \<Rightarrow> with_dentry (xe_op env) path (\<lambda>d. xattr_list env d len) m)"

definition ltfs_fsops_removexattr ::
    "'s tape_ops \<Rightarrow> 's xattr_env \<Rightarrow> byte list \<Rightarrow> byte list \<Rightarrow> 's mounted \<Rightarrow> (unit, 's mounted) result option" where
  "ltfs_fsops_removexattr ops env path name m = obind (device_ok ops (xe_op env) True m) (\<lambda>_ m.
     case format_path (xe_op env) 0 True path of
       None \<Rightarrow> None
     | Some (Inl e) \<Rightarrow> Some (Inl e, m)
     | Some (Inr path) \<Rightarrow>
         (case xattr_name env LTFS_NO_XATTR name of
            None \<Rightarrow> None
          | Some (Inl e) \<Rightarrow> Some (Inl e, m)
          | Some (Inr name) \<Rightarrow> with_dentry (xe_op env) path (\<lambda>d. xattr_remove env d name) m))"



section \<open>Attributes of users\<close>

text \<open>A name outside of the reserved space is neither virtual nor reserved, and needs no lock of the extent list.\<close>

definition user_name :: "byte list \<Rightarrow> bool" where
  "user_name name \<longleftrightarrow> \<not> starts_caseless ''ltfs'' name"

lemma user_name_simps [simp]:
  assumes "user_name name"
  shows "\<not> xattr_is_virtual d n name s" "\<not> reserved_name name" "\<not> needs_contents name" "name \<noteq> str ''ltfs.sync''"
proof -
  show "\<not> xattr_is_virtual d n name s" "\<not> reserved_name name"
    using assms virtual_starts [of d n name s] by (auto simp: user_name_def reserved_name_def)
  have "starts_caseless ''ltfs'' (str ''ltfs.startblock'')" "starts_caseless ''ltfs'' (str ''ltfs.partition'')" "starts_caseless ''ltfs'' (str ''ltfs.sync'')"
    by (simp_all add: starts_caseless_def str_def ascii_lower_def)
  then show "\<not> needs_contents name" "name \<noteq> str ''ltfs.sync''" using assms by (auto simp: user_name_def needs_contents_def)
qed

text \<open>The attributes of a dentry as a map.\<close>

definition xattrs_of :: "fs \<Rightarrow> dptr \<Rightarrow> byte list \<rightharpoonup> byte list" where
  "xattrs_of s p = (case dentries s p of None \<Rightarrow> Map.empty | Some n \<Rightarrow> map_of (xattrlist n))"

text \<open>What a get with a buffer of \<open>len\<close> bytes returns for an attribute.\<close>

definition get_result :: "byte list option \<Rightarrow> nat \<Rightarrow> err + nat \<times> byte list" where
  "get_result v len = (case v of
     None \<Rightarrow> Inl LTFS_NO_XATTR
   | Some v \<Rightarrow> if len \<noteq> 0 \<and> len < length v then Inl LTFS_SMALL_BUFFER else Inr (length v, if len \<noteq> 0 then v else []))"

lemma xattr_get_spec:
  assumes "user_name name" and "dentries s d = Some n" and "locks s (Meta d) = Free"
  shows "xattr_get env d name len (vol, s) = Some (get_result (xattrs_of s d name) len, vol, s)"
  using assms
  by (simp add: xattr_get_def xattr_lock_dentry_def xattr_out_def xattr_unlock_dentry_def xattr_get_real_def lock_ops hold_same
      get_result_def xattrs_of_def xattr_seek_map_of)

text \<open>The new list of attributes of a dentry.\<close>

abbreviation put_xattrs :: "ltfs_timespec \<Rightarrow> (byte list \<times> byte list) list \<Rightarrow> node \<Rightarrow> node" where
  "put_xattrs now l \<equiv> (\<lambda>n. n\<lparr>xattrlist := l, change_time := now\<rparr>)"

lemma xattr_set_spec:
  assumes "user_name name" and "dentries s d = Some n" and "locks s (Meta d) = Free" and "\<forall>i. xe_mem env i"
    and "length value \<le> LTFS_MAX_XATTR_SIZE"
  shows "\<exists>l. map_of l = (xattrs_of s d)(name \<mapsto> value) \<and>
    xattr_set env d name value creat repl (vol, s) =
      Some (if creat \<and> xattrs_of s d name \<noteq> None then (Inl LTFS_XATTR_EXISTS, vol, s)
            else if repl \<and> xattrs_of s d name = None then (Inl LTFS_NO_XATTR, vol, s)
            else (Inr (), set_dirty False vol, alter d (put_xattrs (fo_now (oe_tree (xe_op env))) l) s))"
proof -
  obtain l where l: "xattr_do_set (xe_mem env) name value (xattr_seek name (xattrlist n) \<noteq> None) (xattrlist n) = (Inr (), l)"
      "map_of l = (map_of (xattrlist n))(name \<mapsto> value)" using xattr_do_set_ok [OF assms(4)] by blast
  have x: "xattrs_of s d = map_of (xattrlist n)" using assms(2) by (simp add: xattrs_of_def)
  show ?thesis
    using assms l x
    by (intro exI [of _ l])
      (auto simp: xattr_set_def xattr_lock_dentry_def xattr_out_def xattr_unlock_dentry_def xattr_set_real_def lock_ops hold_same xattr_seek_map_of)
qed

lemma put_xattrs_quiet:
  "fs_inv H (alter d (put_xattrs now l) s) = fs_inv H s" "resolve (alter d (put_xattrs now l) s) = resolve s"
  using alter_quiet [of "put_xattrs now l"] by (simp_all add: shape_def)

text \<open>A reference that a call takes and gives back.\<close>

lemma borrow:
  assumes rest: "at_rest H s" and path: "resolve s ks = Some d" and names: "\<forall>k \<in> set ks. name_ok k"
    and n: "dentries s d = Some n"
  shows "fs_path_lookup True True (path_text ks) {} (hold Volume m s) = Some (Inr d, alter d inc_handles (hold Volume m s))"
    "(\<And>n g. f (numhandles_update g n) = numhandles_update g (f n)) \<Longrightarrow>
      fs_release_dentry mem d (alter d f (alter d inc_handles (hold Volume m s))) = Some (alter d f (hold Volume m s))"
    "fs_release_dentry mem d (alter d inc_handles (hold Volume m s)) = Some (hold Volume m s)"
proof -
  have P: "fs_wf s" "refs_ok H s" using at_rest_parts [OF rest] by simp_all
  have "fs_inv H (hold Volume m s)" using at_rest_parts [OF rest] by simp
  then have V: "fs_wf (hold Volume m s)" "refs_ok H (hold Volume m s)" "unlocked (hold Volume m s)"
    using at_rest_parts [OF rest] by (simp_all add: fs_inv_def)
  show "fs_path_lookup True True (path_text ks) {} (hold Volume m s) = Some (Inr d, alter d inc_handles (hold Volume m s))"
    unfolding path_lookup_plain [OF V] using lookup_names [OF names, of "path_text ks" "hold Volume m s"] path by simp
  have h: "numhandles n < U32" "0 < numhandles n" using refs_bounds [OF P(2) n] by simp_all
  have rel: "fs_release_dentry mem d (alter d f (alter d inc_handles (hold Volume m s))) = Some (alter d f (hold Volume m s))"
    if f: "\<And>n g. f (numhandles_update g n) = numhandles_update g (f n)" for f :: "node \<Rightarrow> node"
  proof -
    have g: "numhandles (f x) = numhandles x" for x using arg_cong [OF f [of "\<lambda>_. numhandles x" x], of numhandles] by simp
    let ?x = "alter d f (alter d inc_handles (hold Volume m s))"
    have rel: "fs_release_dentry mem d ?x = Some (alter d dec_handles ?x)"
      using n h rest by (intro release_keeps [where n = "f (inc_handles n)"]) (simp_all add: g)
    have "numhandles_update (dec32 \<circ> inc32) n = n" using h by (cases n) (simp add: dec32_inc32)
    then have "dec_handles (f (inc_handles n)) = f n" by (simp flip: f)
    then have "alter d dec_handles ?x = alter d f (hold Volume m s)" using n by (simp add: alter_def fun_upd_def fun_eq_iff hold_def)
    with rel show ?thesis by simp
  qed
  then show "(\<And>n g. f (numhandles_update g n) = numhandles_update g (f n)) \<Longrightarrow>
      fs_release_dentry mem d (alter d f (alter d inc_handles (hold Volume m s))) = Some (alter d f (hold Volume m s))" by blast
  have "alter d (\<lambda>n. n) x = x" for x by (simp add: alter_def map_option.id [unfolded id_def])
  then show "fs_release_dentry mem d (alter d inc_handles (hold Volume m s)) = Some (hold Volume m s)" using rel [of "\<lambda>n. n"] by simp
qed


section \<open>The operations on a path that exists\<close>

lemma xattr_name_bad: "xattr_name env bad name = Some (Inr k) \<Longrightarrow> xattr_name env bad' name = Some (Inr k)"
  by (auto simp: xattr_name_def split: option.splits sum.splits)

lemma xattrs_of_hold [simp]: "xattrs_of (hold l m s) = xattrs_of s"
  by (simp add: xattrs_of_def fun_eq_iff)

lemma xattrs_of_handles [simp]: "xattrs_of (alter p (numhandles_update f) s) = xattrs_of s"
  by (auto simp: xattrs_of_def fun_eq_iff split: option.split)

lemma xattrs_of_put:
  "dentries s d \<noteq> None \<Longrightarrow> xattrs_of (alter d (put_xattrs now l) s) = (xattrs_of s)(d := map_of l)"
  by (auto simp: xattrs_of_def fun_eq_iff split: option.split)

lemma put_xattrs_rest:
  "at_rest H (alter d (put_xattrs now l) s) = at_rest H s"
  by (simp add: at_rest_def put_xattrs_quiet)

lemma with_dentry_spec:
  assumes rest: "at_rest H s" and "no_oom (oe_tree env)" and "reval vol = None" and names: "\<forall>k \<in> set ks. name_ok k"
    and path: "resolve s ks = Some d"
    and call: "\<And>x n. locks x (Meta d) = Free \<Longrightarrow> dentries x d = Some n \<Longrightarrow>
      f d (vol, x) = Some (r, vol', alter d g x)"
    and g: "\<And>n h. g (numhandles_update h n) = numhandles_update h (g n)"
  shows "with_dentry env (path_text ks) f (vol, s) = Some (r, vol', alter d g s)"
proof -
  obtain n where n: "dentries s d = Some n" using resolve_linked [OF _ path] at_rest_parts [OF rest] by blast
  note b = borrow [OF rest path names n, where m = "Rd 1"]
  have "f d (vol, alter d inc_handles (hold Volume (Rd 1) s)) = Some (r, vol', alter d g (alter d inc_handles (hold Volume (Rd 1) s)))"
    by (rule call [where n = "inc_handles n"]) (use rest n in simp_all)
  moreover have "hold Volume Free (alter d g (hold Volume (Rd 1) s)) = alter d g s" using rest by (simp add: hold_same)
  ultimately show ?thesis
    using assms(2,3) rest b(1) b(2) [OF g] by (simp add: with_dentry_def take_volume_ready release_volume_held del: alter_hold)
qed

lemma getxattr_spec:
  assumes rest: "at_rest H s" and "no_oom (oe_tree (xe_op env))" and "reval vol = None"
    and fmt: "format_path (xe_op env) 0 True path = Some (Inr (path_text ks))" and names: "\<forall>k \<in> set ks. name_ok k"
    and name: "xattr_name env bad name = Some (Inr k)" "user_name k" and path: "resolve s ks = Some d"
  shows "ltfs_fsops_getxattr env path name len (vol, s) = Some (get_result (xattrs_of s d k) len, vol, s)"
proof -
  obtain n where n: "dentries s d = Some n" using resolve_linked [OF _ path] at_rest_parts [OF rest] by blast
  note b = borrow [OF rest path names n, where m = "Rd 1"]
  let ?x = "alter d inc_handles (hold Volume (Rd 1) s)"
  have "xattr_get env d k len (vol, ?x) = Some (get_result (xattrs_of s d k) len, vol, ?x)"
    using xattr_get_spec [OF name(2), of ?x d "inc_handles n"] rest n by simp
  moreover have "get_result v len \<noteq> Inl LTFS_RESTART_OPERATION" for v by (simp add: get_result_def split: option.split)
  moreover have "hold Volume Free (hold Volume (Rd 1) s) = s" using rest by (rule hold_back)
  ultimately show ?thesis
    using assms(2,3) rest b(1,3)
    by (simp add: ltfs_fsops_getxattr_def fmt xattr_name_bad [OF name(1)] getxattr_locked.simps [of env "path_text ks"] take_volume_ready releaseread_Some
        del: alter_hold)
qed

lemma setxattr_spec:
  assumes rest: "at_rest H s" and "no_oom (oe_tree (xe_op env))" and dev: "device_ready ops (xe_op env) True vol vol'"
    and fmt: "format_path (xe_op env) 0 True path = Some (Inr (path_text ks))" and names: "\<forall>k \<in> set ks. name_ok k"
    and name: "xattr_name env bad name = Some (Inr k)" "user_name k" and path: "resolve s ks = Some d"
    and mem: "\<forall>i. xe_mem env i" and len: "length value \<le> LTFS_MAX_XATTR_SIZE" and n: "dentries s d = Some n"
  shows "\<exists>l. map_of l = (xattrs_of s d)(k \<mapsto> value) \<and>
    ltfs_fsops_setxattr ops env path name value creat repl (vol, s) =
      Some (if creat \<and> xattrs_of s d k \<noteq> None then (Inl LTFS_XATTR_EXISTS, vol', s)
            else if repl \<and> xattrs_of s d k = None then (Inl LTFS_NO_XATTR, vol', s)
            else (Inr (uid n, ino n), set_dirty False vol', alter d (put_xattrs (fo_now (oe_tree (xe_op env))) l) s))"
proof -
  note b = borrow [OF rest path names n, where m = "Rd 1"]
  let ?x = "alter d inc_handles (hold Volume (Rd 1) s)" and ?now = "fo_now (oe_tree (xe_op env))"
  have x: "dentries ?x d = Some (inc_handles n)" "locks ?x (Meta d) = Free" "xattrs_of ?x = xattrs_of s" using rest n by simp_all
  have get: "xattr_get env d k m (vol', ?x) = Some (get_result (xattrs_of s d k) m, vol', ?x)" for m
    using xattr_get_spec [OF name(2) x(1,2)] x(3) by simp
  obtain l where l: "map_of l = (xattrs_of s d)(k \<mapsto> value)"
      "xattr_set env d k value creat repl (vol', ?x) =
      Some (if creat \<and> xattrs_of s d k \<noteq> None then (Inl LTFS_XATTR_EXISTS, vol', ?x)
            else if repl \<and> xattrs_of s d k = None then (Inl LTFS_NO_XATTR, vol', ?x)
            else (Inr (), set_dirty False vol', alter d (put_xattrs ?now l) ?x))"
    using xattr_set_spec [OF name(2) x(1,2) mem len] x(3) by metis
  have put: "fs_release_dentry m d (alter d (put_xattrs ?now l) ?x) = Some (alter d (put_xattrs ?now l) (hold Volume (Rd 1) s))" for m
    by (rule b(2)) simp
  have bk: "hold Volume Free (hold Volume (Rd 1) s) = s" "hold Volume Free (alter d (put_xattrs ?now l) (hold Volume (Rd 1) s)) = alter d (put_xattrs ?now l) s"
    using rest by (simp_all add: hold_same)
  have "setxattr_locked env False (path_text ks) k value creat repl (vol', s) =
      Some (if creat \<and> xattrs_of s d k \<noteq> None then (Inl LTFS_XATTR_EXISTS, vol', s)
            else if repl \<and> xattrs_of s d k = None then (Inl LTFS_NO_XATTR, vol', s)
            else (Inr (uid n, ino n), set_dirty False vol', alter d (put_xattrs ?now l) s))"
    using assms(2) dev rest b(1,3) get l(2) put bk n
    by (simp add: setxattr_locked.simps [of env False] take_volume_ready device_ready_def release_Some NEED_REVAL_def IS_UNEXPECTED_MOVE_def
        del: alter_hold)
  then show ?thesis
    using len name(2) l(1) rest
    by (intro exI [of _ l]) (simp add: ltfs_fsops_setxattr_def device_ok_ready [OF dev] fmt xattr_name_bad [OF name(1)])
qed


lemma removexattr_spec:
  assumes rest: "at_rest H s" and "no_oom (oe_tree (xe_op env))" and dev: "device_ready ops (xe_op env) True vol vol'"
    and fmt: "format_path (xe_op env) 0 True path = Some (Inr (path_text ks))" and names: "\<forall>k \<in> set ks. name_ok k"
    and name: "xattr_name env bad name = Some (Inr k)" "user_name k" and path: "resolve s ks = Some d"
    and n: "dentries s d = Some n"
  shows "ltfs_fsops_removexattr ops env path name (vol, s) =
    Some (if xattrs_of s d k = None then (Inl LTFS_NO_XATTR, set_dirty False vol', s)
          else (Inr (), set_dirty False vol', alter d (put_xattrs (fo_now (oe_tree (xe_op env))) (xattr_drop k (xattrlist n))) s))"
proof -
  let ?now = "fo_now (oe_tree (xe_op env))"
  have rem: "xattr_remove env d k (vol', x) =
      Some (if map_of (xattrlist m) k = None then (Inl LTFS_NO_XATTR, set_dirty False vol', x)
            else (Inr (), set_dirty False vol', alter d (put_xattrs ?now (xattr_drop k (xattrlist m))) x))"
    if x: "locks x (Meta d) = Free" "dentries x d = Some m" for x m
  proof -
    have "alter d (\<lambda>n. put_xattrs ?now (xattr_drop k (xattrlist n)) n) x = alter d (put_xattrs ?now (xattr_drop k (xattrlist m))) x"
      using x by (auto simp: alter_def)
    then show ?thesis
      using x name(2)
      by (auto simp: xattr_remove_def xattr_lock_dentry_def xattr_unlock_dentry_def xattr_out_def xattr_do_remove_def lock_ops hold_same xattr_seek_map_of)
  qed
  have at: "xattrs_of s d = map_of (xattrlist n)" using n by (simp add: xattrs_of_def)
  note b = borrow [OF rest path names n, where m = "Rd 1"]
  let ?x = "alter d inc_handles (hold Volume (Rd 1) s)" and ?f = "put_xattrs ?now (xattr_drop k (xattrlist n))"
  have x: "locks ?x (Meta d) = Free" "dentries ?x d = Some (inc_handles n)" using rest n by simp_all
  have put: "fs_release_dentry m d (alter d ?f ?x) = Some (alter d ?f (hold Volume (Rd 1) s))" for m by (rule b(2)) simp
  have bk: "hold Volume Free (hold Volume (Rd 1) s) = s" "hold Volume Free (alter d ?f (hold Volume (Rd 1) s)) = alter d ?f s"
    using rest by (simp_all add: hold_same)
  have "with_dentry (xe_op env) (path_text ks) (\<lambda>d. xattr_remove env d k) (vol', s) =
    Some (if xattrs_of s d k = None then (Inl LTFS_NO_XATTR, set_dirty False vol', s) else (Inr (), set_dirty False vol', alter d ?f s))"
    using assms(2) dev rest b(1,3) put bk rem [OF x] at
    by (simp add: with_dentry_def take_volume_ready device_ready_def release_volume_held del: alter_hold)
  then show ?thesis using rest by (simp add: ltfs_fsops_removexattr_def device_ok_ready [OF dev] fmt xattr_name_bad [OF name(1)])
qed

text \<open>The list of names as it is returned: \<open>u\<close> converts a name for the system; the live link length is hidden.\<close>

definition xattr_listing :: "(byte list \<Rightarrow> byte list) \<Rightarrow> (byte list \<times> byte list) list \<Rightarrow> byte list" where
  "xattr_listing u l = concat (map (\<lambda>k. u (str ''user.'') @ u k @ [0]) (filter (\<lambda>k. u k \<noteq> LTFS_LIVELINK_EA_NAME) (map fst l)))"

lemma list_physicals_listing:
  assumes "\<forall>k \<in> fst ` set l. pathname_unformat icu True k = Inr (u k)" and "\<forall>i. mem i"
  shows "\<exists>out'. list_physicals_loop icu mem (u (str ''user.'')) len i nb out l = Inr (nb + length (xattr_listing u l), out') \<and>
    (len = 0 \<longrightarrow> out' = out) \<and> (len \<noteq> 0 \<longrightarrow> nb + length (xattr_listing u l) \<le> len \<longrightarrow> out' = out @ xattr_listing u l)"
  using assms(1)
proof (induction l arbitrary: i nb out)
  case (Cons e l)
  let ?pre = "u (str ''user.'')" and ?nb = "nb + length (u (str ''user.'')) + length (u (fst e)) + 1"
  have e: "pathname_unformat icu True (fst e) = Inr (u (fst e))" and l: "\<forall>k \<in> fst ` set l. pathname_unformat icu True k = Inr (u k)"
    using Cons.prems by simp_all
  show ?case
  proof (cases "u (fst e) = LTFS_LIVELINK_EA_NAME")
    case True
    then show ?thesis using Cons.IH [OF l, of "i + 1" nb out] e assms(2) by (simp add: xattr_listing_def)
  next
    case False
    then show ?thesis
      using Cons.IH [OF l, of "i + 1" ?nb "if len \<noteq> 0 \<and> ?nb \<le> len then out @ ?pre @ u (fst e) @ [0] else out"] e assms(2)
      by (auto simp: xattr_listing_def Let_def add.assoc)
  qed
qed (simp add: xattr_listing_def)

lemma xattr_list_spec:
  assumes "locks x (Meta d) = Free" and n: "dentries x d = Some n" and "\<forall>i. xe_unformat env i"
    and u: "\<forall>k \<in> insert (str ''user.'') (fst ` set (xattrlist n)). pathname_unformat (fo_icu (oe_tree (xe_op env))) True k = Inr (u k)"
  shows "xattr_list env d len (vol, x) =
    Some (if len = 0 then Inr (length (xattr_listing u (xattrlist n)), [])
          else if len < length (xattr_listing u (xattrlist n)) then Inl LTFS_SMALL_BUFFER
          else Inr (length (xattr_listing u (xattrlist n)), xattr_listing u (xattrlist n)), vol, x)"
proof -
  let ?L = "xattr_listing u (xattrlist n)"
  obtain out where out: "xattr_list_physicals (fo_icu (oe_tree (xe_op env))) (xe_unformat env) len n = Inr (length ?L, out)"
    "len = 0 \<longrightarrow> out = []" "len \<noteq> 0 \<longrightarrow> length ?L \<le> len \<longrightarrow> out = ?L"
    using list_physicals_listing [of "xattrlist n" "fo_icu (oe_tree (xe_op env))" u "xe_unformat env" len 1 0 "[]"] u assms(3)
    by (auto simp: xattr_list_physicals_def)
  then show ?thesis using assms(1) n by (auto simp: xattr_list_def lock_ops hold_same)
qed


section \<open>Well-formed attributes\<close>

text \<open>The names of the attributes of a dentry are distinct and no value is longer than the limit.\<close>

definition xattrlist_ok :: "(byte list \<times> byte list) list \<Rightarrow> bool" where
  "xattrlist_ok l \<longleftrightarrow> distinct (map fst l) \<and> list_all (\<lambda>v. length v \<le> LTFS_MAX_XATTR_SIZE) (map snd l)"

definition xattrs_ok :: "fs \<Rightarrow> bool" where
  "xattrs_ok s \<longleftrightarrow> (\<forall>p n. dentries s p = Some n \<longrightarrow> xattrlist_ok (xattrlist n))"

lemma xattrs_ok_hold [simp]: "xattrs_ok (hold l m s) = xattrs_ok s"
  by (simp add: xattrs_ok_def)

lemma xattrs_ok_locks:
  "acquirewrite_mrsw l s = Some s' \<Longrightarrow> xattrs_ok s' = xattrs_ok s" "releasewrite_mrsw l s = Some s' \<Longrightarrow> xattrs_ok s' = xattrs_ok s"
  "xattr_lock_dentry name d s = Some s' \<Longrightarrow> xattrs_ok s' = xattrs_ok s" "xattr_unlock_dentry name d s = Some s' \<Longrightarrow> xattrs_ok s' = xattrs_ok s"
  by (auto simp: acquirewrite_mrsw_def releasewrite_mrsw_def xattr_lock_dentry_def xattr_unlock_dentry_def acquireread_mrsw_def releaseread_mrsw_def
      split: held.splits if_splits nat.splits)

lemma xattr_out_ok: "xattr_out name d r (vol, s) = Some (r', vol', s') \<Longrightarrow> xattrs_ok s' = xattrs_ok s \<and> r' = r"
  by (auto simp: xattr_out_def bind_eq_Some_conv xattrs_ok_locks)

lemma xattr_drop_ok: "xattrlist_ok l \<Longrightarrow> xattrlist_ok (xattr_drop name l)"
proof -
  have "set (xattr_drop name l) \<subseteq> set l" by (induction l) auto
  then show "xattrlist_ok l \<Longrightarrow> xattrlist_ok (xattr_drop name l)"
    by (auto simp: xattrlist_ok_def xattr_drop_names distinct_remove1 list_all_iff)
qed

lemma xattr_put_values:
  "list_all P (map snd l) \<Longrightarrow> P v \<Longrightarrow> list_all P (map snd (xattr_put name v l))"
  "list_all P (map snd l) \<Longrightarrow> list_all P (map snd (xattr_drop name l))"
  by (induction l) auto

lemma xattr_do_set_list_ok:
  assumes "xattrlist_ok l" and "length value \<le> LTFS_MAX_XATTR_SIZE"
  shows "xattrlist_ok (snd (xattr_do_set mem name value (xattr_seek name l \<noteq> None) l))"
  using xattr_do_set_distinct [of l mem name "value"] assms
  by (auto simp: xattrlist_ok_def xattr_do_set_def Let_def intro!: xattr_put_values)

lemma xattrs_ok_change:
  assumes "xattrs_ok s" and "change d f s = Some s'" and "\<And>n. dentries s d = Some n \<Longrightarrow> xattrlist_ok (xattrlist (f n))"
  shows "xattrs_ok s'"
  using assms by (auto simp: xattrs_ok_def change_def alter_def split: if_splits)

lemma xattr_set_real_ok:
  assumes ok: "xattrs_ok s" and len: "length value \<le> LTFS_MAX_XATTR_SIZE"
    and call: "xattr_set_real env d name value creat repl (vol, s) = Some (r, vol', s')"
  shows "xattrs_ok s'"
proof -
  obtain a n where a: "acquirewrite_mrsw (Meta d) s = Some a" "dentries a d = Some n"
    using call by (auto simp: xattr_set_real_def bind_eq_Some_conv)
  let ?r = "xattr_do_set (xe_mem env) name value (xattr_seek name (xattrlist n) \<noteq> None) (xattrlist n)"
  have oka: "xattrs_ok a" using ok xattrs_ok_locks(1) [OF a(1)] by simp
  then have new: "xattrlist_ok (snd ?r)" using a(2) len by (intro xattr_do_set_list_ok) (auto simp: xattrs_ok_def)
  consider "releasewrite_mrsw (Meta d) a = Some s'" | f b where "change d f a = Some b" "releasewrite_mrsw (Meta d) b = Some s'" "\<And>m. xattrlist (f m) = snd ?r"
    using call a by (cases ?r; cases "fst ?r") (auto simp: xattr_set_real_def bind_eq_Some_conv Let_def split: if_splits)
  then show ?thesis
  proof cases
    case 1
    then show ?thesis using oka xattrs_ok_locks(2) by blast
  next
    case (2 f b)
    have "xattrs_ok b" by (rule xattrs_ok_change [OF oka 2(1)]) (use new 2(3) in auto)
    then show ?thesis using xattrs_ok_locks(2) [OF 2(2)] by simp
  qed
qed

lemma xattr_do_remove_ok:
  assumes ok: "xattrs_ok s" and call: "xattr_do_remove env d name forced s = Some (r, s')"
  shows "xattrs_ok s'"
proof -
  obtain a n where a: "acquirewrite_mrsw (Meta d) s = Some a" "dentries a d = Some n"
    using call by (auto simp: xattr_do_remove_def bind_eq_Some_conv)
  have oka: "xattrs_ok a" using ok xattrs_ok_locks(1) [OF a(1)] by simp
  consider "releasewrite_mrsw (Meta d) a = Some s'"
    | f b where "change d f a = Some b" "releasewrite_mrsw (Meta d) b = Some s'" "\<And>m. xattrlist (f m) = xattr_drop name (xattrlist m)"
    using call a by (auto simp: xattr_do_remove_def bind_eq_Some_conv split: if_splits)
  then show ?thesis
  proof cases
    case 1
    then show ?thesis using oka xattrs_ok_locks(2) by blast
  next
    case (2 f b)
    have "xattrs_ok b" by (rule xattrs_ok_change [OF oka 2(1)]) (use oka in \<open>auto simp: 2(3) xattrs_ok_def intro: xattr_drop_ok\<close>)
    then show ?thesis using xattrs_ok_locks(2) [OF 2(2)] by simp
  qed
qed


section \<open>Properties\<close>

text \<open>An environment without virtual attributes that do anything.\<close>

definition demo_xenv :: "filedebug_data xattr_env" where
  "demo_xenv = \<lparr>xe_op = demo_env, xe_get = (\<lambda>_ _ m. (Inl LTFS_NO_XATTR, m)), xe_set = (\<lambda>_ _ _ m. (Inl LTFS_NO_XATTR, m)),
     xe_remove = (\<lambda>_ _ m. (Inl LTFS_NO_XATTR, m)), xe_mem = (\<lambda>_. True), xe_unformat = (\<lambda>_. True), xe_fmt = (\<lambda>_. True)\<rparr>"

lemma demo_xenv_sel [simp]: "xe_op demo_xenv = demo_env" "xe_mem demo_xenv i" "xe_unformat demo_xenv i" "xe_fmt demo_xenv = (\<lambda>_. True)"
  by (simp_all add: demo_xenv_def)

lemma demo_icu [simp]: "fo_icu (oe_tree demo_env) = ascii_icu"
  by (simp add: demo_env_def)

lemma demo_xattr_name: "xattr_name demo_xenv bad (str ''user.c'') = Some (Inr (str ''c''))" "user_name (str ''c'')"
proof -
  have "pathname_validate ascii_icu False (str ''user.c'') = Some (Inr ())" "pathname_validate ascii_icu False (str ''c'') = Some (Inr ())"
    by (simp_all add: str_def pathname_validate.simps pathname_valid_in_xml_def)
  then show "xattr_name demo_xenv bad (str ''user.c'') = Some (Inr (str ''c''))"
    by (simp add: xattr_name_def str_def pathname_format_def pathname_format_icu_def pathname_system_to_utf16_icu_def pathname_normalize_nfc_icu_def
        pathname_utf16_to_utf8_icu_def icu_out_def LTFS_FILENAME_MAX_def lead_def xattr_strip_name_def pathname_validate_xattr_name_def
        pathname_validate_file_def)
  show "user_name (str ''c'')" by (simp add: user_name_def starts_caseless_def str_def ascii_lower_def)
qed

text \<open>
  C12. Setting an attribute of a user on an existing path stores exactly that attribute: afterwards a get
  returns the value when the buffer is big enough, or its length for a buffer of no bytes, and every other
  attribute of every dentry is as it was. The flags are obeyed: an attribute that exists is not created
  again, one that does not exist is not replaced, and then nothing changes. The tree, the references and the
  locks are left as they were.
\<close>

theorem xattr_set_get:
  assumes rest: "at_rest H s" and "no_oom (oe_tree (xe_op env))" and dev: "device_ready ops (xe_op env) True vol vol'"
    and fmt: "format_path (xe_op env) 0 True path = Some (Inr (path_text ks))" and names: "\<forall>k \<in> set ks. name_ok k"
    and name: "xattr_name env LTFS_XATTR_NAMESPACE name = Some (Inr k)" "user_name k"
    and d: "resolve s ks = Some d" "dentries s d = Some n"
    and mem: "\<forall>i. xe_mem env i" and len: "length val \<le> LTFS_MAX_XATTR_SIZE"
  shows "if creat \<and> xattrs_of s d k \<noteq> None
      then ltfs_fsops_setxattr ops env path name val creat repl (vol, s) = Some (Inl LTFS_XATTR_EXISTS, vol', s)
    else if repl \<and> xattrs_of s d k = None
      then ltfs_fsops_setxattr ops env path name val creat repl (vol, s) = Some (Inl LTFS_NO_XATTR, vol', s)
    else \<exists>s'. ltfs_fsops_setxattr ops env path name val creat repl (vol, s) = Some (Inr (uid n, ino n), set_dirty False vol', s') \<and>
      xattrs_of s' = (xattrs_of s)(d := (xattrs_of s d)(k \<mapsto> val)) \<and> at_rest H s' \<and> resolve s' = resolve s \<and>
      (\<forall>b. ltfs_fsops_getxattr env path name b (set_dirty False vol', s') =
        Some (if b = 0 then Inr (length val, []) else if b < length val then Inl LTFS_SMALL_BUFFER else Inr (length val, val),
          set_dirty False vol', s'))"
proof -
  let ?f = "put_xattrs (fo_now (oe_tree (xe_op env)))"
  obtain l where l: "map_of l = (xattrs_of s d)(k \<mapsto> val)"
    "ltfs_fsops_setxattr ops env path name val creat repl (vol, s) =
      Some (if creat \<and> xattrs_of s d k \<noteq> None then (Inl LTFS_XATTR_EXISTS, vol', s)
            else if repl \<and> xattrs_of s d k = None then (Inl LTFS_NO_XATTR, vol', s)
            else (Inr (uid n, ino n), set_dirty False vol', alter d (?f l) s))"
    using setxattr_spec [OF assms(1-8) mem len d(2)] by blast
  let ?s = "alter d (?f l) s"
  have r: "at_rest H ?s" "resolve ?s = resolve s" using rest by (simp_all add: put_xattrs_rest put_xattrs_quiet)
  have x: "xattrs_of ?s = (xattrs_of s)(d := (xattrs_of s d)(k \<mapsto> val))" using xattrs_of_put [of s d _ l] d(2) l(1) by simp
  have v: "reval (set_dirty False vol') = None" using dev by (simp add: device_ready_def set_dirty_def)
  have "ltfs_fsops_getxattr env path name b (set_dirty False vol', ?s) = Some (get_result (Some val) b, set_dirty False vol', ?s)" for b
    using getxattr_spec [OF r(1) assms(2) v fmt names name] r(2) d(1) x by simp
  then show ?thesis using l(2) r x by (auto simp: get_result_def intro!: exI [of _ ?s])
qed

theorem xattr_set_get_witness:
  "\<exists>s'. ltfs_fsops_setxattr filedebug_handler demo_xenv (path_text [[0x61], [0x62]]) (str ''user.c'') [1, 2] True False (volA, demo_fs) =
      Some (Inr (3, 3), set_dirty False volA, s') \<and>
    ltfs_fsops_getxattr demo_xenv (path_text [[0x61], [0x62]]) (str ''user.c'') 8 (set_dirty False volA, s') =
      Some (Inr (2, [1, 2]), set_dirty False volA, s') \<and>
    ltfs_fsops_getxattr demo_xenv (path_text [[0x61], [0x62]]) (str ''user.c'') 0 (set_dirty False volA, s') =
      Some (Inr (2, []), set_dirty False volA, s') \<and>
    ltfs_fsops_getxattr demo_xenv (path_text [[0x61], [0x62]]) (str ''user.c'') 1 (set_dirty False volA, s') =
      Some (Inl LTFS_SMALL_BUFFER, set_dirty False volA, s')"
proof -
  obtain n where n: "dentries demo_fs 2 = Some n" "uid n = 3" "ino n = 3" using demo_nodes(3) by blast
  have x: "xattrs_of demo_fs 2 k = None" for k by (simp add: xattrs_of_def demo_fs_def blank_node_def)
  have e: "no_oom (oe_tree (xe_op demo_xenv))" "device_ready filedebug_handler (xe_op demo_xenv) True volA volA"
    "format_path (xe_op demo_xenv) 0 True (path_text [[0x61], [0x62]]) = Some (Inr (path_text [[0x61], [0x62]]))"
    "\<forall>k \<in> set [[0x61], [0x62]]. name_ok k" using demo_env_ok demo_ready demo_path [of "[[0x61], [0x62]]"] by simp_all
  show ?thesis
    using xattr_set_get [OF demo_rest e demo_xattr_name demo_resolve(3) n(1), where val = "[1, 2]" and creat = True and repl = False]
    by (auto simp: x n LTFS_MAX_XATTR_SIZE_def)
qed


text \<open>
  C16. Removing an attribute of a user forgets exactly that attribute: a get then finds none, every other
  attribute is as it was, and a second removal is refused. The names of the attributes are distinct, as every
  operation keeps them. The index is marked as changed by the refused removal too.
\<close>

theorem xattr_remove_get:
  assumes rest: "at_rest H s" and "no_oom (oe_tree (xe_op env))" and dev: "device_ready ops (xe_op env) True vol vol'"
    and fmt: "format_path (xe_op env) 0 True path = Some (Inr (path_text ks))" and names: "\<forall>k \<in> set ks. name_ok k"
    and name: "xattr_name env LTFS_NO_XATTR name = Some (Inr k)" "user_name k"
    and d: "resolve s ks = Some d" and ok: "xattrs_ok s"
  shows "if xattrs_of s d k = None
      then ltfs_fsops_removexattr ops env path name (vol, s) = Some (Inl LTFS_NO_XATTR, set_dirty False vol', s)
    else \<exists>s'. ltfs_fsops_removexattr ops env path name (vol, s) = Some (Inr (), set_dirty False vol', s') \<and>
      xattrs_of s' = (xattrs_of s)(d := (xattrs_of s d)(k := None)) \<and> at_rest H s' \<and> resolve s' = resolve s \<and>
      ltfs_fsops_getxattr env path name b (set_dirty False vol', s') = Some (Inl LTFS_NO_XATTR, set_dirty False vol', s')"
proof -
  obtain n where n: "dentries s d = Some n" using resolve_linked [OF _ d] at_rest_parts [OF rest] by blast
  let ?l = "xattr_drop k (xattrlist n)"
  let ?s = "alter d (put_xattrs (fo_now (oe_tree (xe_op env))) ?l) s"
  have at: "xattrs_of s d = map_of (xattrlist n)" using n by (simp add: xattrs_of_def)
  have "distinct (map fst (xattrlist n))" using ok n by (auto simp: xattrs_ok_def xattrlist_ok_def)
  then have x: "xattrs_of ?s = (xattrs_of s)(d := (xattrs_of s d)(k := None))" using xattrs_of_put [of s d _ ?l] n at by (simp add: xattr_drop_map)
  have r: "at_rest H ?s" "resolve ?s = resolve s" using rest by (simp_all add: put_xattrs_rest put_xattrs_quiet)
  have v: "reval (set_dirty False vol') = None" using dev by (simp add: device_ready_def set_dirty_def)
  have "ltfs_fsops_getxattr env path name b (set_dirty False vol', ?s) = Some (Inl LTFS_NO_XATTR, set_dirty False vol', ?s)"
    using getxattr_spec [OF r(1) assms(2) v fmt names name] r(2) d x by (simp add: get_result_def)
  then show ?thesis using removexattr_spec [OF assms(1-8) n] r x by (auto intro!: exI [of _ ?s])
qed

text \<open>The file \<^verbatim>\<open>b\<close> with an attribute.\<close>

definition demo_xattr_fs :: fs where
  "demo_xattr_fs = alter 2 (put_xattrs (7, 0) [(str ''c'', [1, 2]), (str ''d'', [3])]) demo_fs"

lemma demo_xattr_rest: "at_rest {#} demo_xattr_fs" "resolve demo_xattr_fs = resolve demo_fs" "xattrs_ok demo_xattr_fs"
proof -
  show "at_rest {#} demo_xattr_fs" "resolve demo_xattr_fs = resolve demo_fs"
    using demo_rest by (simp_all add: demo_xattr_fs_def put_xattrs_rest put_xattrs_quiet)
  show "xattrs_ok demo_xattr_fs"
    by (auto simp: demo_xattr_fs_def xattrs_ok_def demo_fs_def blank_node_def xattrlist_ok_def LTFS_MAX_XATTR_SIZE_def str_def alter_def split: if_splits)
qed

lemma demo_xattrs: "xattrs_of demo_xattr_fs 2 = [str ''c'' \<mapsto> [1, 2], str ''d'' \<mapsto> [3]]"
  by (auto simp: demo_xattr_fs_def xattrs_of_def demo_fs_def alter_def str_def fun_eq_iff)

theorem xattr_remove_get_witness:
  "\<exists>s'. ltfs_fsops_removexattr filedebug_handler demo_xenv (path_text [[0x61], [0x62]]) (str ''user.c'') (volA, demo_xattr_fs) =
      Some (Inr (), set_dirty False volA, s') \<and> xattrs_of s' 2 = [str ''d'' \<mapsto> [3]] \<and>
    ltfs_fsops_getxattr demo_xenv (path_text [[0x61], [0x62]]) (str ''user.c'') 8 (set_dirty False volA, s') =
      Some (Inl LTFS_NO_XATTR, set_dirty False volA, s')"
proof -
  have e: "no_oom (oe_tree (xe_op demo_xenv))" "device_ready filedebug_handler (xe_op demo_xenv) True volA volA"
    "format_path (xe_op demo_xenv) 0 True (path_text [[0x61], [0x62]]) = Some (Inr (path_text [[0x61], [0x62]]))"
    "\<forall>k \<in> set [[0x61], [0x62]]. name_ok k" "resolve demo_xattr_fs [[0x61], [0x62]] = Some 2"
    using demo_env_ok demo_ready demo_path [of "[[0x61], [0x62]]"] demo_xattr_rest(2) demo_resolve(3) by simp_all
  have "str ''c'' \<noteq> str ''d''" by (simp add: str_def)
  then have "([str ''c'' \<mapsto> [1, 2], str ''d'' \<mapsto> [3]])(str ''c'' := None) = [str ''d'' \<mapsto> [3 :: byte]]" by (auto simp: fun_eq_iff)
  then show ?thesis
    using xattr_remove_get [OF demo_xattr_rest(1) e(1-4) demo_xattr_name e(5) demo_xattr_rest(3), where b = 8] \<open>str ''c'' \<noteq> str ''d''\<close>
    by (auto simp: demo_xattrs)
qed

text \<open>
  C13. The attributes of every dentry keep their type: whatever the outcome of a set or a remove, with memory
  or without, on virtual names or others, the names of the attributes of each dentry stay distinct and no
  value is longer than the limit, provided that the virtual attributes keep them.
\<close>

theorem xattr_types_kept:
  assumes ok: "xattrs_ok s"
    and virt: "\<And>name v d vol s r vol' s'. xattrs_ok s \<Longrightarrow> xe_set env name v d (vol, s) = (r, vol', s') \<Longrightarrow> xattrs_ok s'"
      "\<And>name d vol s r vol' s'. xattrs_ok s \<Longrightarrow> xe_remove env name d (vol, s) = (r, vol', s') \<Longrightarrow> xattrs_ok s'"
    and call: "xattr_set env d name v creat repl (vol, s) = Some (r, vol', s') \<or> xattr_remove env d name (vol, s) = Some (r, vol', s')"
  shows "xattrs_ok s'"
  using call
proof
  assume c: "xattr_set env d name v creat repl (vol, s) = Some (r, vol', s')"
  show ?thesis
  proof (cases "length v > LTFS_MAX_XATTR_SIZE")
    case False
    obtain a n where a: "xattr_lock_dentry name d s = Some a" "dentries a d = Some n"
      using c False by (auto simp: xattr_set_def bind_eq_Some_conv)
    have oka: "xattrs_ok a" using ok xattrs_ok_locks(3) [OF a(1)] by simp
    consider x y z where "xe_set env name v d (vol, a) = (x, y, z)" "\<exists>q. xattr_out name d q (y, z) = Some (r, vol', s')"
      | "\<exists>q. xattr_out name d q (vol, a) = Some (r, vol', s')"
      | x y z where "xattr_set_real env d name v creat repl (vol, a) = Some (x, y, z)" "xattr_out name d x (y, z) = Some (r, vol', s')"
      using c a False by (auto simp: xattr_set_def bind_eq_Some_conv split: if_splits prod.splits sum.splits)
    then show ?thesis
    proof cases
      case 1
      then show ?thesis using virt(1) [OF oka 1(1)] xattr_out_ok by blast
    next
      case 2
      then show ?thesis using oka xattr_out_ok by blast
    next
      case 3
      then show ?thesis using xattr_set_real_ok [OF oka _ 3(1)] False xattr_out_ok [OF 3(2)] by simp
    qed
  qed (use c ok in \<open>simp add: xattr_set_def\<close>)
next
  assume c: "xattr_remove env d name (vol, s) = Some (r, vol', s')"
  obtain a n where a: "xattr_lock_dentry name d s = Some a" "dentries a d = Some n"
    using c by (auto simp: xattr_remove_def bind_eq_Some_conv)
  have oka: "xattrs_ok a" using ok xattrs_ok_locks(3) [OF a(1)] by simp
  consider x y z where "xe_remove env name d (vol, a) = (x, y, z)" "\<exists>q. xattr_out name d q (y, z) = Some (r, vol', s')"
    | x z where "xattr_do_remove env d name False a = Some (x, z)" "xattr_out name d x (set_dirty False vol, z) = Some (r, vol', s')"
    using c a by (auto simp: xattr_remove_def bind_eq_Some_conv split: if_splits prod.splits sum.splits)
  then show ?thesis
  proof cases
    case 1
    then show ?thesis using virt(2) [OF oka 1(1)] xattr_out_ok by blast
  next
    case 2
    then show ?thesis using xattr_do_remove_ok [OF oka 2(1)] xattr_out_ok by blast
  qed
qed

theorem xattr_types_kept_witness:
  "\<exists>s'. xattr_set demo_xenv 2 (str ''c'') [5] False True (volA, demo_xattr_fs) = Some (Inr (), set_dirty False volA, s') \<and> xattrs_ok s'"
proof -
  have n: "\<exists>n. dentries demo_xattr_fs 2 = Some n" by (simp add: demo_xattr_fs_def demo_fs_def)
  then obtain s' where s': "xattr_set demo_xenv 2 (str ''c'') [5] False True (volA, demo_xattr_fs) = Some (Inr (), set_dirty False volA, s')"
    using xattr_set_spec [OF demo_xattr_name(2), of demo_xattr_fs 2 _ demo_xenv "[5]" False True volA] demo_xattr_rest(1)
    by (auto simp: LTFS_MAX_XATTR_SIZE_def demo_xattrs)
  moreover have "xattrs_ok s'"
    by (rule xattr_types_kept [OF demo_xattr_rest(3), of demo_xenv]) (use s' in \<open>auto simp: demo_xenv_def\<close>)
  ultimately show ?thesis by blast
qed

text \<open>
  C17. Listing the attributes: a call with a buffer of no bytes returns the size of the list, a buffer of at
  least that size is filled with the names, each with its prefix and a null byte at its end, and a smaller
  buffer is refused. The name of the length of live links is hidden. Nothing changes.
\<close>

theorem listxattr_protocol:
  assumes rest: "at_rest H s" and "no_oom (oe_tree (xe_op env))" and "reval vol = None"
    and fmt: "format_path (xe_op env) 0 True path = Some (Inr (path_text ks))" and names: "\<forall>k \<in> set ks. name_ok k"
    and d: "resolve s ks = Some d" "dentries s d = Some n" and mem: "\<forall>i. xe_unformat env i"
    and u: "\<forall>k \<in> insert (str ''user.'') (fst ` set (xattrlist n)). pathname_unformat (fo_icu (oe_tree (xe_op env))) True k = Inr (u k)"
  shows "ltfs_fsops_listxattr env path len (vol, s) =
    (let L = xattr_listing u (xattrlist n)
     in Some (if len = 0 then Inr (length L, []) else if len < length L then Inl LTFS_SMALL_BUFFER else Inr (length L, L), vol, s))"
proof -
  let ?L = "xattr_listing u (xattrlist n)"
  note b = borrow [OF rest d(1) names d(2), where m = "Rd 1"]
  let ?x = "alter d inc_handles (hold Volume (Rd 1) s)"
  have "xattr_list env d len (vol, ?x) =
      Some (if len = 0 then Inr (length ?L, []) else if len < length ?L then Inl LTFS_SMALL_BUFFER else Inr (length ?L, ?L), vol, ?x)"
    using xattr_list_spec [of ?x d "inc_handles n" env u len vol] rest d(2) mem u by simp
  moreover have "hold Volume Free (hold Volume (Rd 1) s) = s" using rest by (rule hold_back)
  ultimately show ?thesis
    using assms(2,3) rest b(1,3) by (simp add: ltfs_fsops_listxattr_def fmt with_dentry_def take_volume_ready release_volume_held Let_def del: alter_hold)
qed

theorem listxattr_protocol_witness:
  "ltfs_fsops_listxattr demo_xenv (path_text [[0x61], [0x62]]) 0 (volA, demo_xattr_fs) = Some (Inr (14, []), volA, demo_xattr_fs) \<and>
   ltfs_fsops_listxattr demo_xenv (path_text [[0x61], [0x62]]) 14 (volA, demo_xattr_fs) =
     Some (Inr (14, str ''user.c'' @ [0] @ str ''user.d'' @ [0]), volA, demo_xattr_fs) \<and>
   ltfs_fsops_listxattr demo_xenv (path_text [[0x61], [0x62]]) 13 (volA, demo_xattr_fs) = Some (Inl LTFS_SMALL_BUFFER, volA, demo_xattr_fs)"
proof -
  obtain n where n: "dentries demo_xattr_fs 2 = Some n" "xattrlist n = [(str ''c'', [1, 2]), (str ''d'', [3])]"
    by (simp add: demo_xattr_fs_def demo_fs_def)
  have e: "no_oom (oe_tree (xe_op demo_xenv))" "reval volA = None"
    "format_path (xe_op demo_xenv) 0 True (path_text [[0x61], [0x62]]) = Some (Inr (path_text [[0x61], [0x62]]))"
    "\<forall>k \<in> set [[0x61], [0x62]]. name_ok k" "resolve demo_xattr_fs [[0x61], [0x62]] = Some 2"
    using demo_env_ok demo_path [of "[[0x61], [0x62]]"] demo_xattr_rest(2) demo_resolve(3) by (simp_all add: volA_def)
  have u: "pathname_unformat ascii_icu True k = Inr k" for k
    by (simp add: pathname_unformat_def pathname_utf8_to_system_icu_def ascii_icu_def icu_out_def)
  show ?thesis
    using listxattr_protocol [OF demo_xattr_rest(1) e n(1), where u = "\<lambda>k. k"] u n(2) by (simp add: xattr_listing_def LTFS_LIVELINK_EA_NAME_def str_def)
qed

end
