(* ===== verification/Ltfs_Link.thy ===== *)
theory Ltfs_Link
  imports Ltfs_Xattr
begin

text \<open>
  Symbolic links and the operation that sets all times (\<^verbatim>\<open>ltfs_fsops.c\<close>). A link stores its target; in live link mode
  the part of the target that was the mount point when the link was made is replaced by the current mount
  point when the link is read.
\<close>

section \<open>Numbers as text\<close>

text \<open>The conversion \<^verbatim>\<open>%d\<close> for a number that is not negative.\<close>

fun decimal :: "nat \<Rightarrow> byte list" where
  "decimal n = (if n < 10 then [of_nat n + 0x30] else decimal (n div 10) @ [of_nat (n mod 10) + 0x30])"

declare decimal.simps [simp del]

text \<open>
  \<^verbatim>\<open>sscanf (value, "%d:%d", ...)\<close>: the number of conversions and the first number. \<open>None\<close>: a number that does not fit.
\<close>

definition isspace :: "byte \<Rightarrow> bool" where
  "isspace c \<longleftrightarrow> c = 0x20 \<or> (0x09 \<le> c \<and> c \<le> 0x0d)"

definition scan_d :: "byte list \<Rightarrow> (int \<times> byte list) option" where
  "scan_d s =
     (let s = dropWhile isspace s;
          neg = (s \<noteq> [] \<and> hd s = 0x2d);
          s = (if s \<noteq> [] \<and> (hd s = 0x2d \<or> hd s = 0x2b) then tl s else s);
          ds = takeWhile isdigit s
      in if ds = [] then None else Some (if neg then - int (digits_value ds) else int (digits_value ds), dropWhile isdigit s))"

definition fits_int :: "int \<Rightarrow> bool" where
  "fits_int n \<longleftrightarrow> - 2147483648 \<le> n \<and> n < 2147483648"

definition sscanf_d_d :: "byte list \<Rightarrow> (nat \<times> int) option" where
  "sscanf_d_d s =
     (case scan_d s of
        None \<Rightarrow> Some (0, 0)
      | Some (n, s) \<Rightarrow>
          if \<not> fits_int n then None
          else if s \<noteq> [] \<and> hd s = colon
          then (case scan_d (tl s) of None \<Rightarrow> Some (1, n) | Some (k, _) \<Rightarrow> if fits_int k then Some (2, n) else None)
          else Some (1, n))"

section \<open>Making and reading links\<close>

text \<open>
  \<open>le_mountpoint\<close> and \<open>le_livelink\<close> are fields of the volume that only these operations use. \<open>le_strdup\<close> and \<open>le_asprintf\<close>: the
  allocations of the target and of the value of the attribute.
\<close>

record 's link_env =
  le_xattr :: "'s xattr_env"
  le_mountpoint :: "byte list"
  le_livelink :: bool
  le_strdup :: bool
  le_asprintf :: bool

abbreviation le_op :: "'s link_env \<Rightarrow> 's op_env" where
  "le_op env \<equiv> xe_op (le_xattr env)"

abbreviation le_ios :: "'s link_env \<Rightarrow> bool" where
  "le_ios env \<equiv> fo_iosched (oe_tree (le_op env))"

definition xattr_set_mountpoint_length :: "(nat \<Rightarrow> bool) \<Rightarrow> dptr \<Rightarrow> byte list \<Rightarrow> fs \<Rightarrow> (unit, fs) result option" where
  "xattr_set_mountpoint_length mem d val s = do {
     s \<leftarrow> acquireread_mrsw (Meta d) s;
     n \<leftarrow> dentries s d;
     let (r, l) = xattr_do_set mem LTFS_LIVELINK_EA_NAME val (xattr_seek LTFS_LIVELINK_EA_NAME (xattrlist n) \<noteq> None) (xattrlist n);
     s \<leftarrow> change d (xattrlist_update (\<lambda>_. l)) s;
     s \<leftarrow> releaseread_mrsw (Meta d) s;
     Some (r, s)}"

text \<open>The length of the mount point when the target is below it, and 0 otherwise.\<close>

definition mount_prefix :: "byte list \<Rightarrow> byte list \<Rightarrow> nat" where
  "mount_prefix mp to = (if take (length mp) to = mp \<and> length mp < length to \<and> to ! length mp = slash then length mp else 0)"

text \<open>The result is the pair of identifiers. When the value cannot be allocated the new dentry stays open.\<close>

definition ltfs_fsops_symlink_path ::
    "'s tape_ops \<Rightarrow> 's link_env \<Rightarrow> byte list \<Rightarrow> byte list \<Rightarrow> 's mounted \<Rightarrow> (nat \<times> nat, 's mounted) result option" where
  "ltfs_fsops_symlink_path ops env to from m = obind (ltfs_fsops_create ops (le_op env) from False True m) (\<lambda>d (vol, s). do {
     n \<leftarrow> dentries s d;
     s \<leftarrow> change d (\<lambda>n. n\<lparr>target := (if le_strdup env then Some to else None), isslink := True\<rparr>) s;
     if \<not> le_asprintf env then Some (Inl LTFS_NO_MEMORY, vol, s)
     else do {
       (r, s) \<leftarrow> xattr_set_mountpoint_length (xe_mem (le_xattr env)) d (decimal (mount_prefix (le_mountpoint env) to)) s;
       (r2, m) \<leftarrow> ltfs_fsops_close (le_op env) d True True (le_ios env) (vol, s);
       Some (case r of Inl e \<Rightarrow> Inl e | Inr _ \<Rightarrow> (case r2 of Inl e \<Rightarrow> Inl e | Inr _ \<Rightarrow> Inr (uid n, ino n)), m)}})"

text \<open>
  The target with the current mount point: \<open>v\<close> is the value of the attribute, in a buffer of 32 bytes that was cleared
  before. The check of the size is in unsigned arithmetic. A prefix outside of the target is not checked.
\<close>

definition live_target :: "byte list \<Rightarrow> byte list \<Rightarrow> byte list \<Rightarrow> nat \<Rightarrow> (err + byte list) option" where
  "live_target mp t v len =
     (if length v = 32 \<and> 0 \<notin> set v then None
      else do {
        (cnt, num1) \<leftarrow> sscanf_d_d (takeWhile (\<lambda>c. c \<noteq> 0) v);
        if cnt = 1 \<and> num1 \<noteq> 0 then
          if int len < (int (length t) - num1 + int (length mp) + 1) mod int U64 then Some (Inl LTFS_SMALL_BUFFER)
          else if 0 \<le> num1 \<and> num1 \<le> int (length t) then Some (Inr (mp @ drop (nat num1) t))
          else None
        else Some (Inr t)})"

text \<open>The result is the text in the buffer. On a small buffer the dentry stays open.\<close>

definition ltfs_fsops_readlink_path ::
    "'s link_env \<Rightarrow> byte list \<Rightarrow> nat \<Rightarrow> 's mounted \<Rightarrow> (byte list, 's mounted) result option" where
  "ltfs_fsops_readlink_path env path len m = obind (ltfs_fsops_open (le_op env) path False (le_ios env) m) (\<lambda>d (vol, s). do {
     n \<leftarrow> dentries s d;
     case target n of
       None \<Rightarrow> do { (_, m) \<leftarrow> ltfs_fsops_close (le_op env) d False False (le_ios env) (vol, s); Some (Inl ENOENT, m) }
     | Some t \<Rightarrow>
         if len < length t + 1 then Some (Inl LTFS_SMALL_BUFFER, vol, s)
         else do {
           (r, m) \<leftarrow> (if le_livelink env then do {
               (g, m) \<leftarrow> xattr_get (le_xattr env) d LTFS_LIVELINK_EA_NAME 32 (vol, s);
               r \<leftarrow> (case g of Inr (nb, v) \<Rightarrow> if nb > 0 then live_target (le_mountpoint env) t v len else Some (Inr t) | Inl _ \<Rightarrow> Some (Inr t));
               Some (r, m)}
             else Some (Inr t, vol, s));
           case r of
             Inl e \<Rightarrow> Some (Inl e, m)
           | Inr buf \<Rightarrow> do {
               (c, m) \<leftarrow> ltfs_fsops_close (le_op env) d False False (le_ios env) m;
               Some (case c of Inl e \<Rightarrow> Inl e | Inr _ \<Rightarrow> Inr buf, m)}}})"

section \<open>All times\<close>

text \<open>The times of access, modification, creation and change; zero stands for a time that is not given.\<close>

type_synonym four_times = "ltfs_timespec \<times> ltfs_timespec \<times> ltfs_timespec \<times> ltfs_timespec"

definition given :: "ltfs_timespec \<Rightarrow> bool" where
  "given t \<longleftrightarrow> fst t \<noteq> 0 \<or> snd t \<noteq> 0"

definition set_all_times :: "ltfs_timespec \<Rightarrow> four_times \<Rightarrow> node \<Rightarrow> node" where
  "set_all_times now = (\<lambda>(atime, mtime, crtime, ctime) n.
     let stamp = (\<lambda>n. if given ctime then n else n\<lparr>change_time := now\<rparr>);
         n = (if given ctime then n\<lparr>change_time := normalize_ltfs_time ctime\<rparr> else n);
         n = (if given atime then stamp (n\<lparr>access_time := normalize_ltfs_time atime\<rparr>) else n);
         n = (if given mtime then stamp (n\<lparr>modify_time := normalize_ltfs_time mtime\<rparr>) else n)
     in if given crtime then stamp (n\<lparr>creation_time := normalize_ltfs_time crtime\<rparr>) else n)"

definition dirty_all_times :: "four_times \<Rightarrow> 's ltfs_volume \<Rightarrow> 's ltfs_volume" where
  "dirty_all_times = (\<lambda>(atime, mtime, crtime, ctime) vol.
     let vol = (if given ctime then set_dirty False vol else vol);
         vol = (if given atime then set_dirty True vol else vol);
         vol = (if given mtime then set_dirty False vol else vol)
     in if given crtime then set_dirty False vol else vol)"

definition ltfs_fsops_utimens_all ::
    "'s tape_ops \<Rightarrow> 's op_env \<Rightarrow> four_times \<Rightarrow> dptr \<Rightarrow> 's mounted \<Rightarrow> (unit, 's mounted) result option" where
  "ltfs_fsops_utimens_all ops env ts d m = obind (device_ok ops env True m) (\<lambda>_ m. obind (take_volume m) (\<lambda>_ (vol, s). do {
     s \<leftarrow> acquirewrite_mrsw (Meta d) s;
     s \<leftarrow> change d (set_all_times (fo_now (oe_tree env)) ts) s;
     s \<leftarrow> releasewrite_mrsw (Meta d) s;
     release_volume (Inr ()) (dirty_all_times ts vol, s)}))"

section \<open>The absolute path of a target\<close>

text \<open>\<^verbatim>\<open>strtok (target, "/")\<close>: the pieces between slashes that are not empty.\<close>

definition target_tokens :: "byte list \<Rightarrow> byte list list" where
  "target_tokens s = filter (\<lambda>t. t \<noteq> []) (split_slash s)"

text \<open>\<^verbatim>\<open>strrchr (s, '/')\<close>: what is in front of the last slash.\<close>

definition before_slash :: "byte list \<Rightarrow> byte list option" where
  "before_slash s = (if slash \<in> set s then Some (rev (drop 1 (dropWhile (\<lambda>c. c \<noteq> slash) (rev s)))) else None)"

text \<open>\<^verbatim>\<open>strstr\<close>: the text in front of and from the first occurrence of a text.\<close>

fun strstr :: "byte list \<Rightarrow> byte list \<Rightarrow> (byte list \<times> byte list) option" where
  "strstr [] sub = (if sub = [] then Some ([], []) else None)"
| "strstr (c # s) sub =
     (if take (length sub) (c # s) = sub then Some ([], c # s)
      else map_option (\<lambda>(a, b). (c # a, b)) (strstr s sub))"

text \<open>
  The loop: \<open>p\<close> are the first \<^verbatim>\<open>len\<close> bytes of a buffer of \<open>cap\<close> bytes. The last token is added as it is. The result
  \<open>Some None\<close> is a path that leaves the root. \<open>None\<close>: no token at all, or a write beyond the buffer.
\<close>

definition append_token :: "nat \<Rightarrow> byte list \<Rightarrow> byte list \<Rightarrow> byte list option" where
  "append_token cap p t = (if length p + 1 + length t + 1 \<le> cap then Some (p @ [slash] @ t) else None)"

fun target_loop :: "nat \<Rightarrow> byte list \<Rightarrow> byte list list \<Rightarrow> byte list option option" where
  "target_loop cap p [] = None"
| "target_loop cap p [t] = map_option Some (append_token cap p t)"
| "target_loop cap p (t # u # ts) =
     (if t = str ''..'' then (case before_slash p of None \<Rightarrow> Some None | Some q \<Rightarrow> target_loop cap q (u # ts))
      else if t \<noteq> str ''.'' then (case append_token cap p t of None \<Rightarrow> None | Some q \<Rightarrow> target_loop cap q (u # ts))
      else target_loop cap p (u # ts))"

text \<open>The lengths, which the code keeps as \<^verbatim>\<open>int\<close>, are natural numbers: they agree for paths shorter than 2 GiB.\<close>

definition ltfs_fsops_target_absolute_path :: "(nat \<Rightarrow> bool) \<Rightarrow> byte list \<Rightarrow> byte list \<Rightarrow> nat \<Rightarrow> (err + byte list) option" where
  "ltfs_fsops_target_absolute_path mem link targ len =
     (if link = [] \<or> hd link \<noteq> slash then Some (Inl LTFS_BAD_ARG)
      else if targ \<noteq> [] \<and> hd targ = slash \<and> strstr targ (str ''./'') = None
      then Some (if len < length targ + 1 then Inl LTFS_SMALL_BUFFER else Inr targ)
      else if \<not> mem 0 then Some (Inl LTFS_NO_MEMORY)
      else if \<not> mem 1 then Some (Inl LTFS_NO_MEMORY)
      else do {
        (p, rest) \<leftarrow> (if targ \<noteq> [] \<and> hd targ = slash
                    then map_option (\<lambda>(a, b). (a, tl b)) (strstr targ (str ''/.''))
                    else map_option (\<lambda>p. (p, targ)) (before_slash link));
        r \<leftarrow> target_loop (length link + length targ + 1) p (target_tokens rest);
        (case r of
           None \<Rightarrow> if len = 0 then None else Some (Inr [])
         | Some path \<Rightarrow> Some (if len < length path + 1 then Inl LTFS_SMALL_BUFFER else Inr path))})"


section \<open>Resolving a target\<close>

text \<open>The directory of a link, followed along the components of the target; nothing is above the root.\<close>

fun follow :: "byte list list \<Rightarrow> byte list list \<Rightarrow> byte list list option" where
  "follow ds [] = Some ds"
| "follow ds (t # ts) =
     (if t = str ''..'' then (if ds = [] then None else follow (butlast ds) ts)
      else if t = str ''.'' then follow ds ts
      else follow (ds @ [t]) ts)"

definition dir_text :: "byte list list \<Rightarrow> byte list" where
  "dir_text ks = concat (map (\<lambda>k. slash # k) ks)"

lemma dir_text_append [simp]: "dir_text (a @ b) = dir_text a @ dir_text b" "dir_text [k] = slash # k" "dir_text [] = []"
  by (simp_all add: dir_text_def)

lemma dir_text_split: "dir_text (split_slash s) = slash # s"
proof (induction s)
  case (Cons c s)
  then show ?case by (cases "split_slash s") (auto simp: dir_text_def)
qed simp

lemma split_no_slash: "\<forall>k \<in> set (split_slash s). slash \<notin> set k"
proof (induction s)
  case (Cons c s)
  then show ?case by (cases "split_slash s") auto
qed simp

lemma before_slash_dir:
  assumes "\<forall>k \<in> set ds. slash \<notin> set k"
  shows "before_slash (dir_text ds) = (if ds = [] then None else Some (dir_text (butlast ds)))"
proof (cases ds rule: rev_cases)
  case (snoc es k)
  have "slash \<notin> set (rev k)" using assms snoc by simp
  then have "dropWhile (\<lambda>c. c \<noteq> slash) (rev k @ slash # rev (dir_text es)) = slash # rev (dir_text es)"
    by (subst dropWhile_append2) auto
  then show ?thesis using snoc by (simp add: before_slash_def)
qed (simp add: before_slash_def)

lemma target_loop_follow:
  assumes "ts \<noteq> []" and "\<forall>k \<in> set ds. slash \<notin> set k" and "\<forall>t \<in> set ts. slash \<notin> set t"
    and "length (dir_text ds) + length (dir_text ts) + 1 \<le> cap"
  shows "target_loop cap (dir_text ds) ts = Some (map_option (\<lambda>es. dir_text (es @ [last ts])) (follow ds (butlast ts)))"
  using assms
proof (induction cap "dir_text ds" ts arbitrary: ds rule: target_loop.induct)
  case (2 cap t)
  then show ?case by (simp add: append_token_def dir_text_def)
next
  case (3 cap t u ts)
  have cap: "length (dir_text ds) + 1 + length t + length (dir_text (u # ts)) + 1 \<le> cap" using 3(7) by (simp add: dir_text_def)
  consider (up) "t = str ''..''" | (same) "t = str ''.''" "t \<noteq> str ''..''" | (down) "t \<noteq> str ''..''" "t \<noteq> str ''.''" by blast
  then show ?case
  proof cases
    case up
    show ?thesis
    proof (cases ds rule: rev_cases)
      case Nil
      then show ?thesis using up by (simp add: before_slash_def)
    next
      case (snoc es k)
      have b: "before_slash (dir_text ds) = Some (dir_text es)" using before_slash_dir [OF 3(5)] snoc by simp
      have "target_loop cap (dir_text es) (u # ts) = Some (map_option (\<lambda>fs. dir_text (fs @ [last (u # ts)])) (follow es (butlast (u # ts))))"
        by (rule 3(1) [OF up b]) (use 3(5,6) cap snoc in simp_all)
      then show ?thesis using up b snoc by simp
    qed
  next
    case same
    have "target_loop cap (dir_text ds) (u # ts) = Some (map_option (\<lambda>fs. dir_text (fs @ [last (u # ts)])) (follow ds (butlast (u # ts))))"
      by (rule 3(3)) (use same 3(5,6) cap in simp_all)
    then show ?thesis using same by simp
  next
    case down
    have a: "append_token cap (dir_text ds) t = Some (dir_text (ds @ [t]))" using cap by (simp add: append_token_def)
    have "target_loop cap (dir_text (ds @ [t])) (u # ts) = Some (map_option (\<lambda>fs. dir_text (fs @ [last (u # ts)])) (follow (ds @ [t]) (butlast (u # ts))))"
      by (rule 3(2) [OF down a]) (use 3(5,6) cap in simp_all)
    then show ?thesis using down a by simp
  qed
qed simp

lemma length_dir_text_filter: "length (dir_text (filter P ks)) \<le> length (dir_text ks)"
  by (induction ks) (auto simp: dir_text_def)

lemma target_tokens_bound: "length (dir_text (target_tokens s)) \<le> length s + 1"
  using length_dir_text_filter [of _ "split_slash s"] by (simp add: target_tokens_def dir_text_split)

lemma target_tokens_no_slash: "\<forall>t \<in> set (target_tokens s). slash \<notin> set t"
  using split_no_slash [of s] by (auto simp: target_tokens_def)

text \<open>
  C15. The absolute path of a relative target that has at least one component starts at the directory of the
  link and follows every component of the target but the last one: \<^verbatim>\<open>..\<close> leads to the parent, \<^verbatim>\<open>.\<close> stays, a name is
  appended. The last component is appended as it is, even if it is \<^verbatim>\<open>..\<close>. When the components before the last one
  lead above the root the call succeeds with an empty path, where the documentation promises \<^verbatim>\<open>LTFS_NO_DENTRY\<close>. The
  buffer for the result is large enough in every case, and a result that does not fit into the buffer of the caller
  is refused. Both strings are shorter than 2 GiB together, so that the \<^verbatim>\<open>int\<close> lengths of the function are exact.
\<close>

theorem target_absolute_path_follows:
  assumes link: "link = slash # l" and "mem 0" "mem 1" and "0 < len"
    and rel: "targ = [] \<or> hd targ \<noteq> slash" and ts: "target_tokens targ \<noteq> []"
    and int: "length link + length targ + 1 < 2 ^ 31"
  shows "ltfs_fsops_target_absolute_path mem link targ len =
    Some (case follow (butlast (split_slash l)) (butlast (target_tokens targ)) of
        None \<Rightarrow> Inr []
      | Some es \<Rightarrow> (let path = dir_text (es @ [last (target_tokens targ)]) in if len < length path + 1 then Inl LTFS_SMALL_BUFFER else Inr path))"
proof -
  let ?ds = "butlast (split_slash l)" and ?ts = "target_tokens targ"
  have ns: "\<forall>k \<in> set ?ds. slash \<notin> set k" using split_no_slash [of l] by (auto dest: in_set_butlastD)
  have b: "before_slash link = Some (dir_text ?ds)" using before_slash_dir [OF split_no_slash, of l] link by (simp add: dir_text_split)
  have "length (dir_text ?ds) \<le> length l"
  proof -
    have "dir_text (?ds @ [last (split_slash l)]) = slash # l" using dir_text_split [of l] by simp
    then have "dir_text ?ds @ slash # last (split_slash l) = slash # l" by (simp only: dir_text_append)
    from arg_cong [OF this, of length] show ?thesis by simp
  qed
  then have "length (dir_text ?ds) + length (dir_text ?ts) + 1 \<le> length link + length targ + 1" using target_tokens_bound [of targ] link by simp
  then have "target_loop (length link + length targ + 1) (dir_text ?ds) ?ts = Some (map_option (\<lambda>es. dir_text (es @ [last ?ts])) (follow ?ds (butlast ?ts)))"
    by (rule target_loop_follow [OF ts ns target_tokens_no_slash])
  then show ?thesis
    using assms b by (cases "follow ?ds (butlast ?ts)") (auto simp: ltfs_fsops_target_absolute_path_def Let_def)
qed

theorem target_absolute_path_follows_witness:
  "ltfs_fsops_target_absolute_path (\<lambda>_. True) (str ''/a/b/link'') (str ''../c/./x'') 20 = Some (Inr (str ''/a/c/x'')) \<and>
   ltfs_fsops_target_absolute_path (\<lambda>_. True) (str ''/a/link'') (str ''../../x'') 20 = Some (Inr []) \<and>
   ltfs_fsops_target_absolute_path (\<lambda>_. True) (str ''/a/link'') (str ''../..'') 20 = Some (Inr (str ''/..''))"
  using target_absolute_path_follows [of "str ''/a/b/link''" "str ''a/b/link''" "\<lambda>_. True" 20 "str ''../c/./x''"]
    target_absolute_path_follows [of "str ''/a/link''" "str ''a/link''" "\<lambda>_. True" 20 "str ''../../x''"]
    target_absolute_path_follows [of "str ''/a/link''" "str ''a/link''" "\<lambda>_. True" 20 "str ''../..''"]
  by (simp add: str_def target_tokens_def dir_text_def Let_def)

text \<open>An absolute target with a name that ends with a dot, but none that starts with one, dereferences a null pointer.\<close>

lemma target_dot_slash_undefined:
  assumes "mem 0" "mem 1" and "link = slash # l" and "targ = slash # s" and "strstr targ (str ''./'') \<noteq> None" and "strstr targ (str ''/.'') = None"
  shows "ltfs_fsops_target_absolute_path mem link targ len = None"
  using assms by (auto simp: ltfs_fsops_target_absolute_path_def)


section \<open>Links\<close>

lemma digits_value_snoc: "digits_value (ds @ [d]) = 10 * digits_value ds + unat (d - 0x30)"
  by (simp add: digits_value_def)

lemma digit_byte:
  assumes "n < 10"
  shows "isdigit (of_nat n + 0x30)" "unat (of_nat n + 0x30 - 0x30 :: byte) = n"
proof -
  have u: "unat (of_nat n :: byte) = n" using assms by (simp add: unat_of_nat)
  then have "unat (of_nat n + 0x30 :: byte) = n + 0x30" using assms by (simp add: unat_word_ariths)
  then show "isdigit (of_nat n + 0x30)" using assms by (simp add: isdigit_def word_le_nat_alt)
  show "unat (of_nat n + 0x30 - 0x30 :: byte) = n" using u by simp
qed

lemma decimal_value: "digits_value (decimal n) = n \<and> list_all isdigit (decimal n) \<and> decimal n \<noteq> []"
proof (induction n rule: decimal.induct)
  case (1 n)
  show ?case
  proof (cases "n < 10")
    case True
    then show ?thesis using digit_byte [of n] by (simp add: decimal.simps [of n] digits_value_def)
  next
    case False
    then show ?thesis using 1 digit_byte [of "n mod 10"] by (subst (1 2 3) decimal.simps) (simp add: digits_value_snoc)
  qed
qed

lemma decimal_length: "n < 10 ^ Suc k \<Longrightarrow> length (decimal n) \<le> Suc k"
proof (induction k arbitrary: n)
  case (Suc k)
  then have "n div 10 < 10 ^ Suc k" by (simp add: less_mult_imp_div_less mult.commute)
  then show ?case using Suc.IH [of "n div 10"] by (subst decimal.simps) simp
qed (simp add: decimal.simps)

lemma isdigit_facts: "isdigit c \<Longrightarrow> \<not> isspace c \<and> c \<noteq> 0x2d \<and> c \<noteq> 0x2b \<and> c \<noteq> 0"
  by (auto simp: isdigit_def isspace_def word_le_nat_alt)

lemma sscanf_decimal:
  assumes "n < 2147483648"
  shows "sscanf_d_d (decimal n) = Some (1, int n)" "takeWhile (\<lambda>c. c \<noteq> 0) (decimal n) = decimal n" "0 \<notin> set (decimal n)"
proof -
  have d: "\<forall>c \<in> set (decimal n). isdigit c" "decimal n \<noteq> []" using decimal_value [of n] by (simp_all add: list_all_iff)
  have h: "isdigit (hd (decimal n))" using d by simp
  have tw: "takeWhile isdigit (decimal n) = decimal n" "dropWhile isdigit (decimal n) = []" using d by (simp_all add: takeWhile_eq_all_conv dropWhile_eq_Nil_conv)
  have "dropWhile isspace (decimal n) = decimal n" using h isdigit_facts d(2) by (cases "decimal n") auto
  then have "scan_d (decimal n) = Some (int n, [])" using d(2) isdigit_facts [OF h] decimal_value [of n] by (simp add: scan_d_def Let_def tw)
  then show "sscanf_d_d (decimal n) = Some (1, int n)" using assms by (simp add: sscanf_d_d_def fits_int_def)
  show "0 \<notin> set (decimal n)" using d(1) isdigit_facts by blast
  then show "takeWhile (\<lambda>c. c \<noteq> 0) (decimal n) = decimal n" by (auto simp: takeWhile_eq_all_conv)
qed

text \<open>The target that the attribute written with the link restores.\<close>

lemma live_target_decimal:
  assumes "n \<le> length t" and "n < 2147483648" and "length mp < 2147483648" and "length t + length mp < len" and "len < U64"
  shows "live_target mp t (decimal n) len = Some (Inr (if n = 0 then t else mp @ drop n t))"
proof -
  have "length (decimal n) \<le> 10" using decimal_length [of n 9] assms(2) by simp
  moreover have "(int (length t) - int n + int (length mp) + 1) mod int U64 = int (length t) - int n + int (length mp) + 1"
    by (rule mod_pos_pos_trivial) (use assms in linarith)+
  ultimately show ?thesis using assms by (simp add: live_target_def sscanf_decimal [OF assms(2)])
qed

lemma mount_prefix_le: "mount_prefix mp to \<le> length to"
  by (simp add: mount_prefix_def)

lemma livelink_name: "\<not> needs_contents LTFS_LIVELINK_EA_NAME" "d \<noteq> root s \<Longrightarrow> \<not> xattr_is_virtual d n LTFS_LIVELINK_EA_NAME s"
  by (simp_all add: needs_contents_def LTFS_LIVELINK_EA_NAME_def str_def xattr_is_virtual_def virtual_all_def)

lemma xattr_get_livelink:
  assumes "d \<noteq> root s" and "dentries s d = Some n" and "locks s (Meta d) = Free" and "map_of (xattrlist n) LTFS_LIVELINK_EA_NAME = Some v"
    and "length v \<le> 32"
  shows "xattr_get env d LTFS_LIVELINK_EA_NAME 32 (vol, s) = Some (Inr (length v, v), vol, s)"
  using assms livelink_name
  by (simp add: xattr_get_def xattr_lock_dentry_def xattr_out_def xattr_unlock_dentry_def xattr_get_real_def lock_ops hold_same xattr_seek_map_of)


lemma set_mountpoint_length_spec:
  assumes "\<forall>i. mem i" and "dentries s d = Some n" and "locks s (Meta d) = Free"
  shows "\<exists>l. xattr_set_mountpoint_length mem d v s = Some (Inr (), alter d (xattrlist_update (\<lambda>_. l)) s) \<and>
    map_of l LTFS_LIVELINK_EA_NAME = Some v"
proof -
  obtain l where "xattr_do_set mem LTFS_LIVELINK_EA_NAME v (xattr_seek LTFS_LIVELINK_EA_NAME (xattrlist n) \<noteq> None) (xattrlist n) = (Inr (), l)"
      "map_of l = (map_of (xattrlist n))(LTFS_LIVELINK_EA_NAME \<mapsto> v)"
    using xattr_do_set_ok [OF assms(1)] by blast
  then show ?thesis using assms(2,3) by (intro exI [of _ l]) (simp add: xattr_set_mountpoint_length_def lock_ops hold_same)
qed

lemma symlink_spec:
  assumes rest: "at_rest H s" and "size_class.size H + 3 < U32" and "no_oom (oe_tree (le_op env))"
    and dev: "device_ready ops (le_op env) False vol vol'"
    and fmt: "format_path (le_op env) 0 False path = Some (Inr (path_text (ds @ [k])))" and names: "\<forall>x \<in> set (ds @ [k]). name_ok x"
    and par: "resolve s ds = Some par" "dentries s par = Some pn" "isdir pn" and new: "resolve s (ds @ [k]) = None"
    and uid: "0 < uid_number s" "uid_number s + 1 < U64"
    and mem: "le_strdup env" "le_asprintf env" "\<forall>i. xe_mem (le_xattr env) i"
  shows "\<exists>d n s' m. ltfs_fsops_symlink_path ops env to path (vol, s) = Some (Inr (uid_number s + 1, n), set_dirty False vol', s') \<and>
    at_rest H s' \<and> resolve s' = (resolve s)(ds @ [k] \<mapsto> d) \<and> dentries s' d = Some m \<and> target m = Some to \<and>
    map_of (xattrlist m) LTFS_LIVELINK_EA_NAME = Some (decimal (mount_prefix (le_mountpoint env) to))"
proof -
  obtain d a n where a: "ltfs_fsops_create ops (le_op env) path False True (vol, s) = Some (Inr d, set_dirty False vol', a)"
    "resolve a = (resolve s)(ds @ [k] \<mapsto> d)" "at_rest (add_mset d H) a" "dentries a d = Some n" "uid n = uid_number s + 1"
    using create_handler [OF assms(1-12), of False True] by blast
  let ?f = "\<lambda>n. n\<lparr>target := Some to, isslink := True\<rparr>" and ?v = "decimal (mount_prefix (le_mountpoint env) to)"
  let ?b = "alter d ?f a"
  obtain l where l: "xattr_set_mountpoint_length (xe_mem (le_xattr env)) d ?v ?b = Some (Inr (), alter d (xattrlist_update (\<lambda>_. l)) ?b)"
    "map_of l LTFS_LIVELINK_EA_NAME = Some ?v"
    using set_mountpoint_length_spec [OF mem(3), of ?b d "?f n"] a(3,4) by auto
  let ?g = "xattrlist_update (\<lambda>_. l)"
  let ?c = "alter d ?g ?b"
  have c: "at_rest (add_mset d H) ?c" "resolve ?c = resolve a"
    using alter_quiet(1) [of ?g "add_mset d H" d ?b] alter_quiet(2) [of ?g d ?b] alter_quiet(1) [of ?f "add_mset d H" d a] alter_quiet(2) [of ?f d a] a(3)
    by (simp_all add: shape_def at_rest_def)
  have rv: "reval (set_dirty False vol') = None" using dev by (simp add: device_ready_def set_dirty_def)
  have "dentries ?c d = Some (?g (?f n))" "resolve ?c (ds @ [k]) = Some d" using a(2,4) c(2) by simp_all
  from close_body [OF c(1) rv this(2,1), of "le_op env" True True "le_ios env"] obtain s' m where
    s': "ltfs_fsops_close (le_op env) d True True (le_ios env) (set_dirty False vol', ?c) = Some (Inr (), set_dirty False vol', s')"
      "at_rest H s'" "resolve s' = resolve ?c" "dentries s' d = Some m" "kept m = kept (?g (?f n))" by blast
  have "ltfs_fsops_symlink_path ops env to path (vol, s) = Some (Inr (uid_number s + 1, ino n), set_dirty False vol', s')"
    using a(1,4,5) l(1) s'(1) mem(1,2) by (simp add: ltfs_fsops_symlink_path_def change_def)
  then show ?thesis using s' c(2) a(2) l(2) by (intro exI [of _ d] exI [of _ "ino n"] exI [of _ s'] exI [of _ m]) (simp add: kept_def)
qed

lemma readlink_spec:
  assumes rest: "at_rest H s" and "no_oom (oe_tree (le_op env))" and "reval vol = None" and "size_class.size H + 3 < U32"
    and fmt: "format_path (le_op env) 0 True path = Some (Inr (path_text (ds @ [k])))" and names: "\<forall>x \<in> set (ds @ [k]). name_ok x"
    and d: "resolve s (ds @ [k]) = Some d" "dentries s d = Some m" and t: "target m = Some t" "length t < len"
    and live: "le_livelink env \<Longrightarrow> map_of (xattrlist m) LTFS_LIVELINK_EA_NAME = Some v \<and> v \<noteq> [] \<and> length v \<le> 32 \<and>
      live_target (le_mountpoint env) t v len = Some (Inr r)"
  shows "\<exists>s'. ltfs_fsops_readlink_path env path len (vol, s) = Some (Inr (if le_livelink env then r else t), vol, s') \<and> at_rest H s' \<and> resolve s' = resolve s"
proof -
  let ?a = "alter d inc_handles s"
  have inv: "fs_inv H s" and wf: "fs_wf s" using at_rest_parts [OF rest] by simp_all
  have a: "ltfs_fsops_open (le_op env) path False (le_ios env) (vol, s) = Some (Inr d, vol, ?a)"
    using open_spec [OF rest assms(2,3) fmt names, of "le_ios env"] d(1) by simp
  have ra: "at_rest (add_mset d H) ?a" using fs_inv_get [OF inv d(2)] assms(4) rest by (simp add: at_rest_def)
  have da: "dentries ?a d = Some (inc_handles m)" using d(2) by simp
  have nr: "d \<noteq> root s" using resolve_unique [OF wf d(1), of "[]"] by (auto simp: resolve_def)
  obtain s' where s': "ltfs_fsops_close (le_op env) d False False (le_ios env) (vol, ?a) = Some (Inr (), vol, s')" "at_rest H s'" "resolve s' = resolve ?a"
    using close_spec [OF ra assms(3)] by blast
  have "xattr_get (le_xattr env) d LTFS_LIVELINK_EA_NAME 32 (vol, ?a) = Some (Inr (length v, v), vol, ?a)" if "le_livelink env"
    by (rule xattr_get_livelink [OF _ da]) (use nr rest live [OF that] in simp_all)
  then have "ltfs_fsops_readlink_path env path len (vol, s) = Some (Inr (if le_livelink env then r else t), vol, s')"
    using a da s'(1) t live by (auto simp: ltfs_fsops_readlink_path_def)
  then show ?thesis using s' by (intro exI [of _ s']) simp
qed

text \<open>
  C14. A symbolic link that is made is read back: its target is returned as it was given. In live link mode the
  part of the target that was the mount point when the link was made is replaced by the mount point at the time of
  the reading. Exactly one path is added to the tree, and no reference and no lock is left behind.
\<close>

theorem symlink_readlink:
  assumes rest: "at_rest H s" and "size_class.size H + 3 < U32" and "no_oom (oe_tree (le_op env))"
    and dev: "device_ready ops (le_op env) False vol vol'"
    and fmt: "\<And>b. format_path (le_op env) 0 b path = Some (Inr (path_text (ds @ [k])))" and names: "\<forall>x \<in> set (ds @ [k]). name_ok x"
    and par: "resolve s ds = Some par" "dentries s par = Some pn" "isdir pn" and new: "resolve s (ds @ [k]) = None"
    and uid: "0 < uid_number s" "uid_number s + 1 < U64"
    and mem: "le_strdup env" "le_asprintf env" "\<forall>i. xe_mem (le_xattr env) i"
    and len: "length to + length (le_mountpoint env) + length mp < len" "len < 2147483648"
  shows "\<exists>d n s' s''. ltfs_fsops_symlink_path ops env to path (vol, s) = Some (Inr (uid_number s + 1, n), set_dirty False vol', s') \<and>
    at_rest H s' \<and> resolve s' = (resolve s)(ds @ [k] \<mapsto> d) \<and>
    ltfs_fsops_readlink_path (env\<lparr>le_mountpoint := mp, le_livelink := live\<rparr>) path len (set_dirty False vol', s') =
      Some (Inr (if live \<and> mount_prefix (le_mountpoint env) to \<noteq> 0 then mp @ drop (length (le_mountpoint env)) to else to), set_dirty False vol', s'') \<and>
    at_rest H s'' \<and> resolve s'' = resolve s'"
proof -
  let ?p = "mount_prefix (le_mountpoint env) to" and ?env = "env\<lparr>le_mountpoint := mp, le_livelink := live\<rparr>"
  obtain d n s' m where s': "ltfs_fsops_symlink_path ops env to path (vol, s) = Some (Inr (uid_number s + 1, n), set_dirty False vol', s')"
    "at_rest H s'" "resolve s' = (resolve s)(ds @ [k] \<mapsto> d)" "dentries s' d = Some m" "target m = Some to"
    "map_of (xattrlist m) LTFS_LIVELINK_EA_NAME = Some (decimal ?p)"
    using symlink_spec [OF assms(1-4) fmt names par new uid mem, of to] by blast
  have rv: "reval (set_dirty False vol') = None" using dev by (simp add: device_ready_def set_dirty_def)
  have p: "?p \<le> length to" "?p < 2147483648" using mount_prefix_le [of "le_mountpoint env" to] len by simp_all
  have lt: "live_target mp to (decimal ?p) len = Some (Inr (if ?p = 0 then to else mp @ drop ?p to))"
    by (rule live_target_decimal) (use p len in \<open>simp_all add: U64_def\<close>)
  have dec: "decimal ?p \<noteq> []" "length (decimal ?p) \<le> 32" using decimal_value [of ?p] decimal_length [of ?p 9] p(2) by simp_all
  have eq: "(if ?p = 0 then to else mp @ drop ?p to) = (if ?p \<noteq> 0 then mp @ drop (length (le_mountpoint env)) to else to)"
    by (simp add: mount_prefix_def)
  obtain s'' where "ltfs_fsops_readlink_path ?env path len (set_dirty False vol', s') =
      Some (Inr (if le_livelink ?env then (if ?p = 0 then to else mp @ drop ?p to) else to), set_dirty False vol', s'')" "at_rest H s''" "resolve s'' = resolve s'"
    using readlink_spec [OF s'(2), where env = ?env and vol = "set_dirty False vol'" and path = path and ds = ds and k = k and d = d and m = m and t = to
        and len = len and v = "decimal ?p" and r = "if ?p = 0 then to else mp @ drop ?p to"]
      assms(2,3) rv fmt names s'(3-6) lt dec len(1) by auto
  then show ?thesis
    using s'(1-3) eq by (intro exI [of _ d] exI [of _ n] exI [of _ s'] exI [of _ s'']) (cases live, simp_all)
qed

definition demo_lenv :: "filedebug_data link_env" where
  "demo_lenv = \<lparr>le_xattr = demo_xenv, le_mountpoint = str ''/mnt'', le_livelink = False, le_strdup = True, le_asprintf = True\<rparr>"

theorem symlink_readlink_witness:
  "\<exists>n s' s''. ltfs_fsops_symlink_path filedebug_handler demo_lenv (str ''/mnt/a/b'') (path_text [[0x61], [0x63]]) (volA, demo_fs) =
      Some (Inr (4, n), set_dirty False volA, s') \<and>
    ltfs_fsops_readlink_path (demo_lenv\<lparr>le_mountpoint := str ''/tape'', le_livelink := True\<rparr>) (path_text [[0x61], [0x63]]) 64 (set_dirty False volA, s') =
      Some (Inr (str ''/tape/a/b''), set_dirty False volA, s'')"
proof -
  obtain pn where pn: "dentries demo_fs 1 = Some pn" "isdir pn" using demo_nodes(2) by blast
  have e: "no_oom (oe_tree (le_op demo_lenv))" "device_ready filedebug_handler (le_op demo_lenv) False volA volA"
    "\<And>b. format_path (le_op demo_lenv) 0 b (path_text [[0x61], [0x63]]) = Some (Inr (path_text ([[0x61]] @ [[0x63]])))"
    "\<forall>x \<in> set ([[0x61]] @ [[0x63]]). name_ok x" "le_strdup demo_lenv" "le_asprintf demo_lenv" "\<forall>i. xe_mem (le_xattr demo_lenv) i"
    using demo_env_ok demo_ready demo_path [of "[[0x61], [0x63]]"] by (simp_all add: demo_lenv_def)
  have p: "mount_prefix (str ''/mnt'') (str ''/mnt/a/b'') = 4" by (simp add: mount_prefix_def str_def)
  show ?thesis
    using symlink_readlink [OF demo_rest _ e(1-4) demo_resolve(2) pn _ _ _ e(5-7), where to = "str ''/mnt/a/b''" and mp = "str ''/tape''" and len = 64 and live = True]
    by (auto simp: demo_resolve demo_nodes U32_def U64_def demo_lenv_def p) (auto simp: str_def)
qed

section \<open>Setting all times\<close>

text \<open>
  Exactly the times that are given change, each to its normalised value; the time of change is now when any
  other time is given without it.
\<close>

lemma set_all_times_spec:
  assumes "n' = set_all_times now (atime, mtime, crtime, ctime) n"
  shows "access_time n' = (if given atime then normalize_ltfs_time atime else access_time n)"
    "modify_time n' = (if given mtime then normalize_ltfs_time mtime else modify_time n)"
    "creation_time n' = (if given crtime then normalize_ltfs_time crtime else creation_time n)"
    "change_time n' = (if given ctime then normalize_ltfs_time ctime else if given atime \<or> given mtime \<or> given crtime then now else change_time n)"
    "shape n' = shape n" "numhandles n' = numhandles n"
  using assms by (auto simp: set_all_times_def Let_def shape_def)

lemma utimens_all_spec:
  assumes rest: "at_rest H s" and dev: "device_ready ops env True vol vol'" and n: "dentries s d = Some n"
  shows "\<exists>s'. ltfs_fsops_utimens_all ops env ts d (vol, s) = Some (Inr (), dirty_all_times ts vol', s') \<and> at_rest H s' \<and> resolve s' = resolve s \<and>
    dentries s' = (dentries s)(d \<mapsto> set_all_times (fo_now (oe_tree env)) ts n)"
proof -
  obtain a m c x where ts: "ts = (a, m, c, x)" by (cases ts)
  let ?f = "set_all_times (fo_now (oe_tree env)) ts"
  have q: "shape (?f n) = shape n" "numhandles (?f n) = numhandles n" for n
    unfolding ts by (rule set_all_times_spec(5) [OF refl], rule set_all_times_spec(6) [OF refl])
  have "at_rest H (alter d ?f s)" "resolve (alter d ?f s) = resolve s" using alter_quiet [of ?f, OF q] rest by (simp_all add: at_rest_def)
  moreover have "ltfs_fsops_utimens_all ops env ts d (vol, s) = Some (Inr (), dirty_all_times ts vol', alter d ?f s)"
    using rest dev n
    by (simp add: ltfs_fsops_utimens_all_def device_ok_ready [OF dev] take_volume_ready device_ready_def lock_ops release_volume_held hold_same)
  moreover have "dentries (alter d ?f s) = (dentries s)(d \<mapsto> ?f n)" using n by (simp add: alter_def)
  ultimately show ?thesis by (intro exI [of _ "alter d ?f s"]) simp
qed

end
