(* ===== verification/Ltfs_Index_Read.thy ===== *)
theory Ltfs_Index_Read
  imports Ltfs_Volume
begin

text \<open>
  Finding and reading the index of a partition: the callback that feeds libxml2 from tape
  (\<^verbatim>\<open>xml_reader.c\<close>), \<^verbatim>\<open>xml_schema_from_tape\<close> (\<^verbatim>\<open>xml_reader_libltfs.c\<close>), \<^verbatim>\<open>ltfs_read_index\<close> and \<^verbatim>\<open>ltfs_seek_index\<close>
  (\<^verbatim>\<open>ltfs_internal.c\<close>). What the parser makes of the text is a parameter. The last index file of a partition is
  found, and its text reaches the parser unchanged.
\<close>

section \<open>The input of the parser\<close>

text \<open>The context of the callback; \<open>in_buf\<close> are the bytes of the one-block buffer that are not yet used.\<close>

record xml_input_tape =
  current_pos :: nat
  eod_pos :: nat
  saw_small_block :: bool
  saw_file_mark :: bool
  buf_size :: nat
  in_buf :: "byte list"

text \<open>A file mark was read: the head is moved in front of it.\<close>

definition before_file_mark ::
    "'s tape_ops \<Rightarrow> xml_input_tape \<times> 's device_data \<Rightarrow> (unit, xml_input_tape \<times> 's device_data) result option" where
  "before_file_mark ops = (\<lambda>(ctx, dev).
     case tape_spacefm ops (- 1) dev of
       None \<Rightarrow> None
     | Some (r, dev) \<Rightarrow> Some (case r of Inl _ \<Rightarrow> Inl FAILURE | Inr _ \<Rightarrow> Inr (), ctx\<lparr>saw_file_mark := True\<rparr>, dev))"

text \<open>
  A block \<open>d\<close> was read that is smaller than the buffer. After a record a file mark is looked for; \<open>mem\<close> is the
  allocation of the buffer for it.
\<close>

definition small_block ::
    "'s tape_ops \<Rightarrow> ('s device_data \<Rightarrow> bool \<times> 's device_data) option \<Rightarrow> bool \<Rightarrow> nat \<Rightarrow> byte list \<Rightarrow>
     xml_input_tape \<times> 's device_data \<Rightarrow> (unit, xml_input_tape \<times> 's device_data) result option" where
  "small_block ops rekey mem bs d = (\<lambda>(ctx, dev).
     let ctx = ctx\<lparr>saw_small_block := True\<rparr> in
     if d = [] then before_file_mark ops (ctx, dev)
     else if eod_pos ctx = 0 \<or> current_pos ctx < eod_pos ctx then
       if \<not> mem then Some (Inl FAILURE, ctx, dev)
       else (case tape_read ops rekey bs False dev of
               (Inl _, dev) \<Rightarrow> Some (Inl FAILURE, ctx, dev)
             | (Inr d2, dev) \<Rightarrow> if d2 = [] then before_file_mark ops (ctx, dev) else Some (Inr (), ctx, dev))
     else Some (Inr (), ctx, dev))"

text \<open>The loop that reads blocks until the request is filled; \<open>saved\<close> was put into the buffer of the parser already.\<close>

partial_function (option) input_loop ::
    "'s tape_ops \<Rightarrow> ('s device_data \<Rightarrow> bool \<times> 's device_data) option \<Rightarrow> bool \<Rightarrow> nat \<Rightarrow> byte list \<Rightarrow> nat \<Rightarrow>
     xml_input_tape \<times> 's device_data \<Rightarrow> (byte list, xml_input_tape \<times> 's device_data) result option" where
  "input_loop ops rekey mem bs saved remaining st =
     (if remaining = 0 then Some (Inr saved, st)
      else if eod_pos (fst st) > 0 \<and> current_pos (fst st) = eod_pos (fst st) then Some (Inr saved, st)
      else if saw_small_block (fst st) then Some (Inr saved, st)
      else (case tape_read ops rekey (buf_size (fst st)) False (snd st) of
              (Inl _, dev) \<Rightarrow> Some (Inl FAILURE, (fst st)\<lparr>current_pos := add64 (current_pos (fst st)) 1\<rparr>, dev)
            | (Inr d, dev) \<Rightarrow>
                (case (if length d < buf_size (fst st)
                       then small_block ops rekey mem bs d ((fst st)\<lparr>current_pos := add64 (current_pos (fst st)) 1\<rparr>, dev)
                       else Some (Inr (), (fst st)\<lparr>current_pos := add64 (current_pos (fst st)) 1\<rparr>, dev)) of
                   None \<Rightarrow> None
                 | Some (Inl e, st) \<Rightarrow> Some (Inl e, st)
                 | Some (Inr _, st) \<Rightarrow>
                     if remaining > length d then input_loop ops rekey mem bs (saved @ d) (remaining - length d) st
                     else Some (Inr (saved @ take remaining d), (fst st)\<lparr>in_buf := drop remaining d\<rparr>, snd st))))"

text \<open>The sizes of the request and of the buffer are below 2 GiB, so that they are exact as \<^verbatim>\<open>int\<close>.\<close>

definition xml_input_tape_read_callback ::
    "'s tape_ops \<Rightarrow> ('s device_data \<Rightarrow> bool \<times> 's device_data) option \<Rightarrow> bool \<Rightarrow> nat \<Rightarrow> nat \<Rightarrow>
     xml_input_tape \<times> 's device_data \<Rightarrow> (byte list, xml_input_tape \<times> 's device_data) result option" where
  "xml_input_tape_read_callback ops rekey mem bs len = (\<lambda>(ctx, dev).
     if len = 0 then Some (Inr [], ctx, dev)
     else if len \<le> length (in_buf ctx) then Some (Inr (take len (in_buf ctx)), ctx\<lparr>in_buf := drop len (in_buf ctx)\<rparr>, dev)
     else input_loop ops rekey mem bs (in_buf ctx) (len - length (in_buf ctx)) (ctx\<lparr>in_buf := []\<rparr>, dev))"

section \<open>The parser\<close>

text \<open>
  \<open>xr_request\<close>: how many bytes libxml2 asks for, given the pieces that it got so far, or that it asks for no more;
  \<open>xr_parse\<close>: what \<^verbatim>\<open>_xml_parse_schema\<close> makes of the pieces (and of an error of the callback): the index, its volume UUID and whether
  symbolic links are in conflict. \<open>xr_split\<close>: \<^verbatim>\<open>ltfs_split_symlink\<close>. \<open>xr_alloc\<close>: the allocations; \<open>xr_ignore_version\<close>: the option to pass
  over an index of an unknown version.
\<close>

record parsed_index =
  p_index :: ltfs_index
  p_uuid :: string
  p_conflict :: bool

record 's xml_reader =
  xr_request :: "byte list list \<Rightarrow> nat option"
  xr_parse :: "byte list list \<Rightarrow> bool \<Rightarrow> (err + unit) \<times> parsed_index"
  xr_split :: "'s ltfs_volume \<Rightarrow> (unit, 's ltfs_volume) result"
  xr_rekey :: "('s device_data \<Rightarrow> bool \<times> 's device_data) option"
  xr_alloc :: "nat \<Rightarrow> bool"
  xr_ignore_version :: bool

partial_function (option) xml_pull ::
    "'s tape_ops \<Rightarrow> 's xml_reader \<Rightarrow> nat \<Rightarrow> byte list list \<Rightarrow> xml_input_tape \<times> 's device_data \<Rightarrow>
     (byte list list \<times> bool \<times> xml_input_tape \<times> 's device_data) option" where
  "xml_pull ops xr bs got st =
     (case xr_request xr got of
        None \<Rightarrow> Some (got, False, st)
      | Some len \<Rightarrow>
          (case xml_input_tape_read_callback ops (xr_rekey xr) (xr_alloc xr 0) bs len st of
             None \<Rightarrow> None
           | Some (Inl _, st) \<Rightarrow> Some (got, True, st)
           | Some (Inr d, st) \<Rightarrow> xml_pull ops xr bs (got @ [d]) st))"

text \<open>The result: whether a file mark ends the index, and what was parsed.\<close>

definition xml_schema_from_tape ::
    "'s tape_ops \<Rightarrow> 's xml_reader \<Rightarrow> nat \<Rightarrow> 's ltfs_volume \<Rightarrow> ((err + bool) \<times> parsed_index option \<times> 's ltfs_volume) option" where
  "xml_schema_from_tape ops xr eod vol =
     (if \<not> xr_alloc xr 1 \<or> \<not> xr_alloc xr 2 then Some (Inl LTFS_NO_MEMORY, None, vol)
      else if \<not> xr_alloc xr 3 \<or> \<not> xr_alloc xr 4 then Some (Inl LTFS_LIBXML2_FAILURE, None, vol)
      else
        let ctx = \<lparr>current_pos = pos_block (tape_get_position (device vol)), eod_pos = eod, saw_small_block = False, saw_file_mark = False,
              buf_size = to32 (blocksize (vol_label vol)), in_buf = []\<rparr>
        in case xml_pull ops xr (blocksize (vol_label vol)) [] (ctx, device vol) of
             None \<Rightarrow> None
           | Some (got, failed, ctx, dev) \<Rightarrow>
               (case xr_parse xr got failed of
                  (r, p) \<Rightarrow>
                    Some (case r of
                            Inl e \<Rightarrow> Inl (if e = LTFS_UNSUPPORTED_INDEX_VERSION \<or> e = LTFS_SYMLINK_CONFLICT \<or> e = LTFS_NO_MEMORY then e else LTFS_INDEX_INVALID)
                          | Inr _ \<Rightarrow> Inr (saw_file_mark ctx), Some p, vol\<lparr>device := dev, vol_index := p_index p\<rparr>)))"

section \<open>Reading an index\<close>

text \<open>The checks of the back pointer; the partition \<open>CHR 0x00\<close> stands for no pointer.\<close>

definition backptr_ok :: "ltfs_label \<Rightarrow> ltfs_index \<Rightarrow> bool" where
  "backptr_ok lab idx \<longleftrightarrow>
     \<not> (fst (backptr idx) \<noteq> CHR 0x00 \<and> fst (backptr idx) \<noteq> partid_dp lab) \<and>
     \<not> (fst (backptr idx) = fst (selfptr idx) \<and> snd (selfptr idx) \<noteq> 5 \<and> snd (backptr idx) \<noteq> snd (selfptr idx) \<and>
        snd (backptr idx) \<ge> sub64 (snd (selfptr idx)) 2) \<and>
     \<not> (fst (backptr idx) \<noteq> CHR 0x00 \<and> snd (backptr idx) < 5)"

text \<open>The new index, as far as it is modelled. When it cannot be allocated (\<open>xr_alloc 5\<close>) the volume has no index.\<close>

definition blank_index :: ltfs_index where
  "blank_index = \<lparr>idx_creator = None, generation = 0, mod_time = (0, 0), selfptr = (CHR 0x00, 0), backptr = (CHR 0x00, 0),
     dirty = False, atime_dirty = False, use_atime = False, version = LTFS_INDEX_VERSION\<rparr>"

text \<open>A conflict of symbolic links may be resolved.\<close>

definition ltfs_read_index ::
    "'s tape_ops \<Rightarrow> 's xml_reader \<Rightarrow> nat \<Rightarrow> bool \<Rightarrow> 's ltfs_volume \<Rightarrow> (bool, 's ltfs_volume) result option" where
  "ltfs_read_index ops xr eod recover_symlink vol =
     (let pos = tape_get_position (device vol) in
      if \<not> xr_alloc xr 5 then Some (Inl LTFS_NO_MEMORY, vol)
      else (case xml_schema_from_tape ops xr eod (vol\<lparr>vol_index := blank_index\<rparr>) of
              None \<Rightarrow> None
            | Some (r, None, vol) \<Rightarrow> Some (r, vol)
            | Some (r, Some p, vol) \<Rightarrow>
                (case (if p_conflict p \<and> recover_symlink
                       then (case xr_split xr vol of
                               (Inl e, vol) \<Rightarrow> (Inl e, vol)
                             | (Inr _, vol) \<Rightarrow> (if r = Inl LTFS_SYMLINK_CONFLICT then Inr True else r, vol))
                       else (r, vol)) of
                   (Inl e, vol) \<Rightarrow> Some (Inl e, vol)
                 | (Inr end_fm, vol) \<Rightarrow>
                     if take 36 (p_uuid p) \<noteq> take 36 (vol_uuid (vol_label vol)) then Some (Inl LTFS_INDEX_INVALID, vol)
                     else if fst (selfptr (vol_index vol)) \<noteq> part_num2id (vol_label vol) (pos_partition pos) \<or>
                             snd (selfptr (vol_index vol)) \<noteq> pos_block pos then Some (Inl LTFS_INDEX_INVALID, vol)
                     else if \<not> backptr_ok (vol_label vol) (vol_index vol) then Some (Inl LTFS_INDEX_INVALID, vol)
                     else if end_fm
                     then (case tape_spacefm ops 1 (device vol) of
                             None \<Rightarrow> None
                           | Some (r, dev) \<Rightarrow> Some (case r of Inl e \<Rightarrow> Inl e | Inr _ \<Rightarrow> Inr True, vol\<lparr>device := dev\<rparr>))
                     else Some (Inr False, vol))))"

section \<open>Searching the last index\<close>

text \<open>What the search reports: the end of data and, for an index, its end, the file mark behind it and blocks behind that.\<close>

record index_place =
  ix_end :: nat
  ix_fm_after :: bool
  ix_blocks_after :: bool

text \<open>
  From the file mark in front of a candidate; without an index the head goes back by two file marks. The search ends at block 3, the
  end of the label: \<open>Inr None\<close>.
\<close>

partial_function (option) seek_index_loop ::
    "'s tape_ops \<Rightarrow> 's xml_reader \<Rightarrow> bool \<Rightarrow> nat \<Rightarrow> 's ltfs_volume \<Rightarrow> (index_place option, 's ltfs_volume) result option" where
  "seek_index_loop ops xr recover_symlink eod vol =
     (if pos_block (tape_get_position (device vol)) = 3 then Some (Inr None, vol)
      else (case tape_spacefm ops 1 (device vol) of
              None \<Rightarrow> None
            | Some (Inl e, dev) \<Rightarrow> Some (Inl e, vol\<lparr>device := dev\<rparr>)
            | Some (Inr _, dev) \<Rightarrow>
                (case ltfs_read_index ops xr eod recover_symlink (vol\<lparr>device := dev\<rparr>) of
                   None \<Rightarrow> None
                 | Some (Inr fm, vol) \<Rightarrow>
                     Some (Inr (Some \<lparr>ix_end = pos_block (tape_get_position (device vol)), ix_fm_after = fm,
                       ix_blocks_after = (pos_block (tape_get_position (device vol)) \<noteq> eod)\<rparr>), vol)
                 | Some (Inl e, vol) \<Rightarrow>
                     if \<not> xr_ignore_version xr \<and> e = LTFS_UNSUPPORTED_INDEX_VERSION then Some (Inl e, vol)
                     else (case tape_spacefm ops (- 2) (device vol) of
                             None \<Rightarrow> None
                           | Some (Inl e, dev) \<Rightarrow> Some (Inl e, vol\<lparr>device := dev\<rparr>)
                           | Some (Inr _, dev) \<Rightarrow> seek_index_loop ops xr recover_symlink eod (vol\<lparr>device := dev\<rparr>)))))"

text \<open>The coherency data that are kept for the partition.\<close>

definition note_coherency :: "char \<Rightarrow> 's ltfs_volume \<Rightarrow> 's ltfs_volume" where
  "note_coherency part vol =
     (let u = map of_char (vol_uuid (vol_label vol)) @ [0];
          upd = (\<lambda>coh. coh\<lparr>uuid := u @ drop (length u) (uuid coh), count := of_nat (generation (vol_index vol)), set_id := of_nat (snd (selfptr (vol_index vol)))\<rparr>)
      in if part = ltfs_ip_id vol then vol\<lparr>ip_coh := upd (ip_coh vol)\<rparr> else vol\<lparr>dp_coh := upd (dp_coh vol)\<rparr>)"

text \<open>The result is the end of data and the place of the index.\<close>

definition ltfs_seek_index ::
    "'s tape_ops \<Rightarrow> 's xml_reader \<Rightarrow> char \<Rightarrow> bool \<Rightarrow> 's ltfs_volume \<Rightarrow> (nat \<times> index_place option, 's ltfs_volume) result option" where
  "ltfs_seek_index ops xr part recover_symlink vol =
     (case on_dev (tape_seek_eod ops (ltfs_part_id2num part (vol_label vol))) vol of
        (Inl e, vol) \<Rightarrow> Some (Inl e, vol)
      | (Inr _, vol) \<Rightarrow>
          let eod = pos_block (tape_get_position (device vol)) in
          if eod \<le> 4 then Some (Inr (eod, None), vol)
          else (case tape_spacefm ops (- 1) (device vol) of
                  None \<Rightarrow> None
                | Some (Inl e, dev) \<Rightarrow> Some (Inl e, vol\<lparr>device := dev\<rparr>)
                | Some (Inr _, dev) \<Rightarrow>
                    if pos_block (tape_get_position dev) = 3 then Some (Inr (eod, None), vol\<lparr>device := dev\<rparr>)
                    else (case (if pos_block (tape_get_position dev) = sub64 eod 1 then tape_spacefm ops (- 1) dev else Some (Inr (), dev)) of
                            None \<Rightarrow> None
                          | Some (Inl e, dev) \<Rightarrow> Some (Inl e, vol\<lparr>device := dev\<rparr>)
                          | Some (Inr _, dev) \<Rightarrow>
                              (case seek_index_loop ops xr recover_symlink eod (vol\<lparr>device := dev\<rparr>) of
                                 None \<Rightarrow> None
                               | Some (Inl e, vol) \<Rightarrow> Some (Inl e, vol)
                               | Some (Inr None, vol) \<Rightarrow> Some (Inr (eod, None), vol)
                               | Some (Inr (Some ix), vol) \<Rightarrow>
                                   if part \<noteq> fst (selfptr (vol_index vol)) then Some (Inl LTFS_INDEX_INVALID, vol)
                                   else Some (Inr (eod, Some ix), note_coherency part vol)))))"


section \<open>Spacing over file marks\<close>

text \<open>The last file mark in front of a block.\<close>

definition prev_fm :: "trec list \<Rightarrow> nat \<Rightarrow> nat option" where
  "prev_fm rs b = find (\<lambda>i. rs ! i = Filemark) (rev [0..<b])"

lemma prev_fm_Suc: "prev_fm rs (Suc b) = (if rs ! b = Filemark then Some b else prev_fm rs b)"
  by (simp add: prev_fm_def)

lemma prev_fm_less: "prev_fm rs b = Some i \<Longrightarrow> i < b"
  by (induction b) (auto simp: prev_fm_Suc split: if_splits, simp add: prev_fm_def)

lemma prev_fm_data: "(\<forall>i. b \<le> i \<and> i < b + k \<longrightarrow> rs ! i \<noteq> Filemark) \<Longrightarrow> prev_fm rs (b + k) = prev_fm rs b"
  by (induction k) (simp_all add: prev_fm_Suc)

text \<open>The state of a device as far as reading is concerned: its tape and where the head is.\<close>

definition at_block :: "('s \<Rightarrow> bool) \<Rightarrow> ('s \<Rightarrow> nat \<times> nat) \<Rightarrow> ('s \<Rightarrow> tape) \<Rightarrow> tape \<Rightarrow> nat \<Rightarrow> nat \<Rightarrow> 's device_data \<Rightarrow> bool" where
  "at_block ok head tape_of t p b dev \<longleftrightarrow> in_step ok head dev \<and> tape_of (backend_data dev) = t \<and>
     pos_partition (position dev) = p \<and> pos_block (position dev) = b"

text \<open>What the reader of an index needs of a driver beyond the tape layer: spacing backward and forward over one file mark.\<close>

locale index_tape = tape_device ok tape_of head max_block ops
  for ok :: "'s \<Rightarrow> bool" and tape_of head max_block and ops :: "'s tape_ops" +
  assumes back_law: "\<lbrakk>ok s; head s = (p, b); prev_fm (tape_of s p) b = Some i\<rbrakk> \<Longrightarrow>
      \<exists>s' pos'. op_space ops 1 TC_SPACE_FM_B (s, pos) = Some (Inr (), s', pos') \<and> ok s' \<and> tape_of s' = tape_of s \<and>
        head s' = (p, i) \<and> pos_block pos' = i \<and> pos_partition pos' = pos_partition pos"
    and forward_law: "\<lbrakk>ok s; head s = (p, b); b < length (tape_of s p); tape_of s p ! b = Filemark\<rbrakk> \<Longrightarrow>
      \<exists>s' pos'. op_space ops 1 TC_SPACE_FM_F (s, pos) = Some (Inr (), s', pos') \<and> ok s' \<and> tape_of s' = tape_of s \<and>
        head s' = (p, b + 1) \<and> pos_block pos' = b + 1 \<and> pos_partition pos' = pos_partition pos"
begin

lemma back_one:
  assumes "at_block ok head tape_of t p b dev" and "prev_fm (t p) b = Some i"
  shows "\<exists>dev'. tape_spacefm ops (- 1) dev = Some (Inr (), dev') \<and> at_block ok head tape_of t p i dev'"
  using back_law [of "backend_data dev" p b i "position dev"] assms by (auto simp: at_block_def in_step_def tape_spacefm_def)

lemma forward_one:
  assumes "at_block ok head tape_of t p b dev" and "b < length (t p)" and "t p ! b = Filemark"
  shows "\<exists>dev'. tape_spacefm ops 1 dev = Some (Inr (), dev') \<and> at_block ok head tape_of t p (b + 1) dev'"
  using forward_law [of "backend_data dev" p b "position dev"] assms by (auto simp: at_block_def in_step_def tape_spacefm_def)

lemma read_one:
  assumes "at_block ok head tape_of t p b dev" and "b < length (t p)"
  shows "\<exists>dev'. tape_read ops rekey n False dev = (Inr (case t p ! b of Data d \<Rightarrow> take n d | Filemark \<Rightarrow> []), dev') \<and>
    at_block ok head tape_of t p (b + 1) dev'"
  using read_law [of "backend_data dev" p b n "position dev"] assms by (auto simp: at_block_def in_step_def tape_read_def on_pos_def)

lemma seek_eod_at:
  assumes "at_block ok head tape_of t q b dev" and "p < 2" and "length (t p) < TAPE_BLOCK_MAX"
  shows "\<exists>dev'. tape_seek_eod ops p dev = (Inr (), dev') \<and> at_block ok head tape_of t p (length (t p)) dev'"
proof -
  obtain s' pos' where l: "op_locate ops p TAPE_BLOCK_MAX (backend_data dev, position dev) = (Inr (), s', pos')"
      "ok s'" "tape_of s' = t" "head s' = (p, length (t p))" "pos_block pos' = length (t p)" "pos_partition pos' = p"
    using locate_law [of "backend_data dev" p TAPE_BLOCK_MAX "position dev"] assms by (auto simp: at_block_def in_step_def)
  then show ?thesis
    using assms(2) by (auto simp: tape_seek_eod_def on_pos_def Let_def at_block_def in_step_def)
qed

end


section \<open>The text of the index reaches the parser\<close>

text \<open>The blocks of an index, and how far they are read: \<open>k\<close> blocks are read, and behind the last one a file mark.\<close>

definition blocks_at :: "tape \<Rightarrow> nat \<Rightarrow> nat \<Rightarrow> nat \<Rightarrow> nat \<Rightarrow> byte list list \<Rightarrow> bool" where
  "blocks_at t p b0 bs e blocks \<longleftrightarrow> (\<exists>pre suf. t p = pre @ map Data blocks @ Filemark # suf \<and> length pre = b0) \<and>
     (\<forall>b \<in> set blocks. 0 < length b \<and> length b \<le> bs) \<and> (\<forall>b \<in> set (butlast blocks). length b = bs) \<and> 0 < bs \<and>
     b0 + length blocks < e \<and> e < U64"

definition input_state ::
    "('s device_data \<Rightarrow> nat \<Rightarrow> bool) \<Rightarrow> nat \<Rightarrow> nat \<Rightarrow> nat \<Rightarrow> byte list list \<Rightarrow> nat \<Rightarrow> xml_input_tape \<Rightarrow> 's device_data \<Rightarrow> bool" where
  "input_state at b0 bs e blocks k ctx dev \<longleftrightarrow> k \<le> length blocks \<and> eod_pos ctx = e \<and> buf_size ctx = bs \<and>
     (if saw_small_block ctx then k = length blocks \<and> saw_file_mark ctx \<and> at dev (b0 + length blocks)
      else \<not> saw_file_mark ctx \<and> current_pos ctx = b0 + k \<and> at dev (b0 + k) \<and> (\<forall>b \<in> set (take k blocks). length b = bs))"

lemma blocks_at_nth:
  assumes "blocks_at t p b0 bs e blocks"
  shows "k < length blocks \<Longrightarrow> t p ! (b0 + k) = Data (blocks ! k) \<and> b0 + k < length (t p)"
    "t p ! (b0 + length blocks) = Filemark \<and> b0 + length blocks < length (t p)"
    "k < length blocks \<Longrightarrow> 0 < length (blocks ! k) \<and> length (blocks ! k) \<le> bs"
    "Suc k < length blocks \<Longrightarrow> length (blocks ! k) = bs"
proof -
  obtain pre suf where t: "t p = pre @ map Data blocks @ Filemark # suf" "length pre = b0" using assms by (auto simp: blocks_at_def)
  show "k < length blocks \<Longrightarrow> t p ! (b0 + k) = Data (blocks ! k) \<and> b0 + k < length (t p)"
    "t p ! (b0 + length blocks) = Filemark \<and> b0 + length blocks < length (t p)"
    using t by (auto simp: nth_append)
  show "k < length blocks \<Longrightarrow> 0 < length (blocks ! k) \<and> length (blocks ! k) \<le> bs" using assms by (auto simp: blocks_at_def)
  show "Suc k < length blocks \<Longrightarrow> length (blocks ! k) = bs"
  proof -
    assume k: "Suc k < length blocks"
    then have "butlast blocks ! k \<in> set (butlast blocks)" by (intro nth_mem) simp
    then show ?thesis using assms k by (simp add: blocks_at_def nth_butlast)
  qed
qed

context index_tape
begin

abbreviation at :: "tape \<Rightarrow> nat \<Rightarrow> 's device_data \<Rightarrow> nat \<Rightarrow> bool" where
  "at t p dev b \<equiv> at_block ok head tape_of t p b dev"

lemma before_file_mark_ok:
  assumes "at t p dev (Suc b)" and "t p ! b = Filemark"
  shows "\<exists>dev'. before_file_mark ops (ctx, dev) = Some (Inr (), ctx\<lparr>saw_file_mark := True\<rparr>, dev') \<and> at t p dev' b"
  using back_one [OF assms(1), of b] assms(2) by (auto simp: prev_fm_Suc before_file_mark_def)

text \<open>One block is read, with the file mark behind it when it is a small one.\<close>

lemma input_step:
  assumes bl: "blocks_at t p b0 bs e blocks" and st: "input_state (at t p) b0 bs e blocks k ctx dev" "\<not> saw_small_block ctx"
  defines "d \<equiv> if k < length blocks then blocks ! k else []" and "c \<equiv> ctx\<lparr>current_pos := add64 (current_pos ctx) 1\<rparr>"
  shows "\<exists>dev1 ctx' dev'. tape_read ops rekey bs False dev = (Inr d, dev1) \<and>
    (if length d < bs then small_block ops rekey True n2 d (c, dev1) else Some (Inr (), c, dev1)) = Some (Inr (), ctx', dev') \<and>
    in_buf ctx' = in_buf ctx \<and> input_state (at t p) b0 bs e blocks (min (Suc k) (length blocks)) ctx' dev' \<and>
    (k = length blocks \<longrightarrow> saw_small_block ctx')"
proof -
  let ?n = "length blocks"
  note B = blocks_at_nth [OF bl]
  have e: "0 < bs" "b0 + ?n < e" "e < U64" using bl by (simp_all add: blocks_at_def)
  have s: "k \<le> ?n" "eod_pos ctx = e" "buf_size ctx = bs" "current_pos ctx = b0 + k" "at t p dev (b0 + k)"
    using st by (simp_all add: input_state_def)
  have c: "current_pos c = b0 + Suc k" "eod_pos c = e" "buf_size c = bs" "saw_small_block c = False" "in_buf c = in_buf ctx"
    using s e st(2) by (simp_all add: c_def add64_exact)
  have len: "b0 + k < length (t p)" using B(1) [of k] B(2) s(1) by (cases "k = ?n") auto
  obtain dev1 where r: "tape_read ops rekey bs False dev = (Inr (case t p ! (b0 + k) of Data d \<Rightarrow> take bs d | Filemark \<Rightarrow> []), dev1)" "at t p dev1 (b0 + Suc k)"
    using read_one [OF s(5) len, of rekey bs] by auto
  have rd: "tape_read ops rekey bs False dev = (Inr d, dev1)" using r(1) B(1,3) [of k] B(2) s(1) by (cases "k < ?n") (auto simp: d_def)
  show ?thesis
  proof (cases "k < ?n")
    case True
    then have dn: "d \<noteq> []" using B(3) [of k] by (auto simp: d_def)
    show ?thesis
    proof (cases "length d < bs")
      case small: True
      have kn: "Suc k = ?n" using B(4) [of k] small True by (cases "Suc k < ?n") (auto simp: d_def)
      obtain dev2 where r2: "tape_read ops rekey n2 False dev1 = (Inr [], dev2)" "at t p dev2 (Suc (b0 + ?n))"
        using read_one [OF r(2), of rekey n2] B(2) kn by auto
      obtain dev3 where "before_file_mark ops (c\<lparr>saw_small_block := True\<rparr>, dev2) = Some (Inr (), c\<lparr>saw_small_block := True, saw_file_mark := True\<rparr>, dev3)"
          "at t p dev3 (b0 + ?n)"
        using before_file_mark_ok [OF r2(2)] B(2) by auto
      then show ?thesis
        using small rd dn c e(2) kn r2(1)
        by (intro exI [of _ dev1] exI [of _ "c\<lparr>saw_small_block := True, saw_file_mark := True\<rparr>"] exI [of _ dev3]) (simp add: small_block_def input_state_def)
    next
      case False
      then have "length (blocks ! k) = bs" using B(3) [of k] True by (simp add: d_def)
      moreover have "\<not> saw_file_mark c" "\<forall>b \<in> set (take k blocks). length b = bs" using st by (simp_all add: input_state_def c_def)
      ultimately show ?thesis
        using False rd c r(2) True by (intro exI [of _ dev1] exI [of _ c] exI [of _ dev1]) (auto simp: input_state_def take_Suc_conv_app_nth)
    qed
  next
    case False
    then have kn: "k = ?n" "d = []" using s(1) by (simp_all add: d_def)
    obtain dev3 where "before_file_mark ops (c\<lparr>saw_small_block := True\<rparr>, dev1) = Some (Inr (), c\<lparr>saw_small_block := True, saw_file_mark := True\<rparr>, dev3)"
        "at t p dev3 (b0 + ?n)"
      using before_file_mark_ok [where dev = dev1 and b = "b0 + ?n" and t = t and p = p and ctx = "c\<lparr>saw_small_block := True\<rparr>"] r(2) B(2) kn by auto
    then show ?thesis
      using rd kn c e(1)
      by (intro exI [of _ dev1] exI [of _ "c\<lparr>saw_small_block := True, saw_file_mark := True\<rparr>"] exI [of _ dev3]) (simp add: small_block_def input_state_def)
  qed
qed

lemma input_loop_ok:
  assumes bl: "blocks_at t p b0 bs e blocks" and st: "input_state (at t p) b0 bs e blocks k ctx dev" and "in_buf ctx = []" and "0 < m"
  shows "\<exists>k' ctx' dev'. input_loop ops rekey True n2 saved m (ctx, dev) = Some (Inr (saved @ take m (concat (drop k blocks))), ctx', dev') \<and>
    input_state (at t p) b0 bs e blocks k' ctx' dev' \<and> in_buf ctx' @ concat (drop k' blocks) = drop m (concat (drop k blocks)) \<and>
    (length (concat (drop k blocks)) < m \<longrightarrow> saw_file_mark ctx')"
  using st assms(3,4)
proof (induction "length blocks - k" arbitrary: k ctx dev saved m)
  case 0
  then have k: "k = length blocks" by (simp add: input_state_def)
  have small: "\<exists>k' ctx' dev'. input_loop ops rekey True n2 saved m (c, x) = Some (Inr saved, ctx', dev') \<and>
      input_state (at t p) b0 bs e blocks k' ctx' dev' \<and> in_buf ctx' @ concat (drop k' blocks) = [] \<and> saw_file_mark ctx'"
    if "saw_small_block c" "input_state (at t p) b0 bs e blocks k c x" "in_buf c = []" for c x
    using that k by (intro exI [of _ k] exI [of _ c] exI [of _ x]) (subst input_loop.simps, simp add: input_state_def)
  show ?case
  proof (cases "saw_small_block ctx")
    case True
    from small [OF this 0(2,3)] show ?thesis using k by force
  next
    case False
    obtain dev1 c x where s: "tape_read ops rekey bs False dev = (Inr [], dev1)"
        "small_block ops rekey True n2 [] (ctx\<lparr>current_pos := add64 (current_pos ctx) 1\<rparr>, dev1) = Some (Inr (), c, x)"
        "in_buf c = []" "input_state (at t p) b0 bs e blocks k c x" "saw_small_block c"
      using input_step [OF bl 0(2) False, of rekey n2] k bl 0(3) by (auto simp: blocks_at_def)
    have "input_loop ops rekey True n2 saved m (ctx, dev) = input_loop ops rekey True n2 saved m (c, x)"
      using s(1,2) 0(2,4) False k bl by (subst input_loop.simps) (auto simp: input_state_def blocks_at_def)
    then show ?thesis using small [OF s(5,4,3)] k by force
  qed
next
  case (Suc j)
  then have k: "k < length blocks" by simp
  then have ns: "\<not> saw_small_block ctx" using Suc.prems(1) by (auto simp: input_state_def)
  let ?d = "blocks ! k"
  have drop: "drop k blocks = ?d # drop (Suc k) blocks" using k by (simp add: Cons_nth_drop_Suc)
  obtain dev1 c x where s: "tape_read ops rekey bs False dev = (Inr ?d, dev1)"
      "(if length ?d < bs then small_block ops rekey True n2 ?d (ctx\<lparr>current_pos := add64 (current_pos ctx) 1\<rparr>, dev1)
        else Some (Inr (), ctx\<lparr>current_pos := add64 (current_pos ctx) 1\<rparr>, dev1)) = Some (Inr (), c, x)"
      "in_buf c = []" "input_state (at t p) b0 bs e blocks (Suc k) c x"
    using input_step [OF bl Suc.prems(1) ns, of rekey n2] k Suc.prems(2) by (auto simp: min_def split del: if_split cong: if_cong)
  have cur: "current_pos ctx \<noteq> e" "eod_pos ctx = e" "buf_size ctx = bs" using Suc.prems(1) ns k bl by (auto simp: input_state_def blocks_at_def)
  have step: "input_loop ops rekey True n2 saved m (ctx, dev) =
      (if m > length ?d then input_loop ops rekey True n2 (saved @ ?d) (m - length ?d) (c, x)
       else Some (Inr (saved @ take m ?d), c\<lparr>in_buf := drop m ?d\<rparr>, x))"
    using s(1,2) Suc.prems(3) cur ns by (cases "length ?d < bs"; subst input_loop.simps) simp_all
  show ?case
  proof (cases "m > length ?d")
    case True
    have "\<exists>k' ctx' dev'. input_loop ops rekey True n2 (saved @ ?d) (m - length ?d) (c, x) =
        Some (Inr ((saved @ ?d) @ take (m - length ?d) (concat (drop (Suc k) blocks))), ctx', dev') \<and>
      input_state (at t p) b0 bs e blocks k' ctx' dev' \<and> in_buf ctx' @ concat (drop k' blocks) = drop (m - length ?d) (concat (drop (Suc k) blocks)) \<and>
      (length (concat (drop (Suc k) blocks)) < m - length ?d \<longrightarrow> saw_file_mark ctx')"
      by (rule Suc.hyps(1)) (use Suc.hyps(2) s True in auto)
    then obtain k' ctx' dev' where h: "input_loop ops rekey True n2 (saved @ ?d) (m - length ?d) (c, x) =
        Some (Inr ((saved @ ?d) @ take (m - length ?d) (concat (drop (Suc k) blocks))), ctx', dev')"
      "input_state (at t p) b0 bs e blocks k' ctx' dev'" "in_buf ctx' @ concat (drop k' blocks) = drop (m - length ?d) (concat (drop (Suc k) blocks))"
      "length (concat (drop (Suc k) blocks)) < m - length ?d \<longrightarrow> saw_file_mark ctx'" by blast
    show ?thesis
      using h step True by (intro exI [of _ k'] exI [of _ ctx'] exI [of _ dev']) (simp add: drop less_diff_conv2)
  next
    case False
    then show ?thesis
      using step s(4) by (intro exI [of _ "Suc k"] exI [of _ "c\<lparr>in_buf := drop m ?d\<rparr>"] exI [of _ x]) (auto simp: drop input_state_def split: if_splits)
  qed
qed

end


text \<open>
  A parser that takes the whole of a text: it asks for at least one byte, not again after the end was reported, and does not stop
  before it has the text; of the text it makes \<open>pi\<close>. How the text is cut into pieces does not matter.
\<close>

definition text_reader :: "'s xml_reader \<Rightarrow> byte list \<Rightarrow> parsed_index \<Rightarrow> bool" where
  "text_reader xr doc pi \<longleftrightarrow> (\<forall>i. xr_alloc xr i) \<and> (\<forall>got n. xr_request xr got = Some n \<longrightarrow> 0 < n) \<and>
     (\<forall>got. concat got = doc \<longrightarrow> xr_request xr (got @ [[]]) = None) \<and>
     (\<forall>got rest. [] \<notin> set got \<and> doc = concat got @ rest \<and> xr_request xr got = None \<longrightarrow> rest = []) \<and>
     (\<forall>got. concat got = doc \<longrightarrow> xr_parse xr got False = (Inr (), pi))"

text \<open>
  The parser comes to see the end of the file when the last block is not full, as the callback looks behind a small block itself, or
  when the parser asks for more after it has the whole text.
\<close>

definition end_seen :: "nat \<Rightarrow> 's xml_reader \<Rightarrow> byte list \<Rightarrow> bool" where
  "end_seen bs xr doc \<longleftrightarrow> \<not> bs dvd length doc \<or> (\<forall>got. concat got = doc \<and> [] \<notin> set got \<longrightarrow> xr_request xr got \<noteq> None)"

lemma full_blocks_dvd: "\<forall>b \<in> set blocks. length b = bs \<Longrightarrow> bs dvd length (concat blocks)"
  by (induction blocks) auto

context index_tape
begin

lemma callback_ok:
  assumes bl: "blocks_at t p b0 bs e blocks" and st: "input_state (at t p) b0 bs e blocks k ctx dev" and len: "0 < len"
  defines "R \<equiv> in_buf ctx @ concat (drop k blocks)"
  shows "\<exists>k' ctx' dev'. xml_input_tape_read_callback ops rekey True n2 len (ctx, dev) = Some (Inr (take len R), ctx', dev') \<and>
    input_state (at t p) b0 bs e blocks k' ctx' dev' \<and> in_buf ctx' @ concat (drop k' blocks) = drop len R \<and> (R = [] \<longrightarrow> saw_file_mark ctx')"
proof (cases "len \<le> length (in_buf ctx)")
  case True
  then show ?thesis
    using st len by (intro exI [of _ k] exI [of _ "ctx\<lparr>in_buf := drop len (in_buf ctx)\<rparr>"] exI [of _ dev])
      (auto simp: xml_input_tape_read_callback_def input_state_def R_def)
next
  case False
  have "input_state (at t p) b0 bs e blocks k (ctx\<lparr>in_buf := []\<rparr>) dev" using st by (simp add: input_state_def)
  from input_loop_ok [OF bl this, of "len - length (in_buf ctx)" rekey n2 "in_buf ctx"] False len
  obtain k' ctx' dev' where l: "input_loop ops rekey True n2 (in_buf ctx) (len - length (in_buf ctx)) (ctx\<lparr>in_buf := []\<rparr>, dev) =
      Some (Inr (in_buf ctx @ take (len - length (in_buf ctx)) (concat (drop k blocks))), ctx', dev')"
    "input_state (at t p) b0 bs e blocks k' ctx' dev'" "in_buf ctx' @ concat (drop k' blocks) = drop (len - length (in_buf ctx)) (concat (drop k blocks))"
    "length (concat (drop k blocks)) < len - length (in_buf ctx) \<longrightarrow> saw_file_mark ctx'"
    by auto
  have "saw_file_mark ctx'" if "R = []"
  proof -
    have "concat (drop k blocks) = []" using that unfolding R_def by (simp only: append_is_Nil_conv)
    then show ?thesis using l(4) False unfolding \<open>concat (drop k blocks) = []\<close> by simp
  qed
  with l show ?thesis
    using False len by (intro exI [of _ k'] exI [of _ ctx'] exI [of _ dev']) (simp add: xml_input_tape_read_callback_def R_def)
qed

lemma pull_ok:
  assumes bl: "blocks_at t p b0 bs e blocks" and xr: "text_reader xr (concat blocks) pi"
    and "input_state (at t p) b0 bs e blocks k ctx dev" and "concat got @ in_buf ctx @ concat (drop k blocks) = concat blocks" and "[] \<notin> set got"
  shows "\<exists>got' k' ctx' dev'. xml_pull ops xr n2 got (ctx, dev) = Some (got', False, ctx', dev') \<and> concat got' = concat blocks \<and>
    input_state (at t p) b0 bs e blocks k' ctx' dev' \<and> concat (drop k' blocks) = [] \<and>
    ((\<forall>got. concat got = concat blocks \<and> [] \<notin> set got \<longrightarrow> xr_request xr got \<noteq> None) \<longrightarrow> saw_file_mark ctx')"
  using assms(3-)
proof (induction "length (in_buf ctx @ concat (drop k blocks))" arbitrary: got k ctx dev rule: less_induct)
  case less
  have al: "xr_alloc xr 0" using xr by (simp add: text_reader_def)
  let ?R = "in_buf ctx @ concat (drop k blocks)"
  show ?case
  proof (cases "xr_request xr got")
    case None
    have "\<And>rest. concat blocks = concat got @ rest \<Longrightarrow> rest = []" using xr None less.prems(3) by (auto simp: text_reader_def)
    from this [OF less.prems(2) [symmetric]] have R: "?R = []" .
    have "concat got = concat blocks" using less.prems(2) unfolding R by simp
    then show ?thesis
      using None less.prems(1,3) R by (intro exI [of _ got] exI [of _ k] exI [of _ ctx] exI [of _ dev]) (subst xml_pull.simps, auto)
  next
    case (Some n)
    then have n: "0 < n" using xr by (simp add: text_reader_def)
    obtain k1 ctx1 dev1 where c: "xml_input_tape_read_callback ops (xr_rekey xr) True n2 n (ctx, dev) = Some (Inr (take n ?R), ctx1, dev1)"
        "input_state (at t p) b0 bs e blocks k1 ctx1 dev1" "in_buf ctx1 @ concat (drop k1 blocks) = drop n ?R" "?R = [] \<longrightarrow> saw_file_mark ctx1"
      using callback_ok [OF bl less.prems(1) n] by blast
    have step: "xml_pull ops xr n2 got (ctx, dev) = xml_pull ops xr n2 (got @ [take n ?R]) (ctx1, dev1)"
      by (subst xml_pull.simps) (simp add: Some al c(1))
    show ?thesis
    proof (cases "?R = []")
      case True
      have got: "concat got = concat blocks" using less.prems(2) unfolding True by simp
      then have "xr_request xr (got @ [[]]) = None" using xr by (simp add: text_reader_def)
      then have "xml_pull ops xr n2 got (ctx, dev) = Some (got @ [[]], False, ctx1, dev1)"
        unfolding step True by (subst xml_pull.simps) simp
      then show ?thesis using c(2,3) c(4) [rule_format, OF True] got unfolding True by (intro exI [of _ "got @ [[]]"] exI [of _ k1] exI [of _ ctx1] exI [of _ dev1]) simp
    next
      case False
      have "concat (got @ [take n ?R]) @ in_buf ctx1 @ concat (drop k1 blocks) = concat blocks"
        unfolding c(3) using less.prems(2) by (simp add: append_take_drop_id del: take_append drop_append)
      moreover have "length (in_buf ctx1 @ concat (drop k1 blocks)) < length ?R" unfolding c(3) using n False by (cases ?R) auto
      moreover have "[] \<notin> set (got @ [take n ?R])" using less.prems(3) n False by auto
      ultimately show ?thesis unfolding step using less.hyps c(2) by blast
    qed
  qed
qed

end


text \<open>A partition with an index file: its blocks from \<open>b0\<close> on, of the volume with the label \<open>lab\<close>.\<close>

definition index_parsed :: "ltfs_label \<Rightarrow> nat \<Rightarrow> nat \<Rightarrow> parsed_index \<Rightarrow> bool" where
  "index_parsed lab p b0 pi \<longleftrightarrow> \<not> p_conflict pi \<and> take 36 (p_uuid pi) = take 36 (vol_uuid lab) \<and>
     selfptr (p_index pi) = (part_num2id lab p, b0) \<and> backptr_ok lab (p_index pi)"

context index_tape
begin

lemma schema_ok:
  assumes bl: "blocks_at t p b0 bs e blocks" and xr: "text_reader xr (concat blocks) pi"
    and vol: "at t p (device vol) b0" "blocksize (vol_label vol) = bs" "bs < U32"
  shows "\<exists>fm dev'. xml_schema_from_tape ops xr e vol = Some (Inr fm, Some pi, vol\<lparr>device := dev', vol_index := p_index pi\<rparr>) \<and>
    at t p dev' (b0 + length blocks) \<and> (end_seen bs xr (concat blocks) \<longrightarrow> fm)"
proof -
  have al: "xr_alloc xr i" for i using xr by (simp add: text_reader_def)
  let ?ctx = "\<lparr>current_pos = b0, eod_pos = e, saw_small_block = False, saw_file_mark = False, buf_size = bs, in_buf = []\<rparr>"
  have st: "input_state (at t p) b0 bs e blocks 0 ?ctx (device vol)" using vol(1) by (simp add: input_state_def)
  have pre: "concat [] @ in_buf ?ctx @ concat (drop 0 blocks) = concat blocks" "[] \<notin> set ([] :: byte list list)" by simp_all
  obtain got k ctx dev where p: "xml_pull ops xr bs [] (?ctx, device vol) = Some (got, False, ctx, dev)" "concat got = concat blocks"
      "input_state (at t p) b0 bs e blocks k ctx dev" "concat (drop k blocks) = []"
      "(\<forall>got. concat got = concat blocks \<and> [] \<notin> set got \<longrightarrow> xr_request xr got \<noteq> None) \<longrightarrow> saw_file_mark ctx"
    using pull_ok [OF bl xr st pre, of bs] by (elim exE conjE) (rule that)
  have k: "k = length blocks"
  proof (rule ccontr)
    assume "k \<noteq> length blocks"
    then have "k < length blocks" "0 < length (blocks ! k)" using p(3) blocks_at_nth(3) [OF bl, of k] by (auto simp: input_state_def)
    then show False using p(4) by (simp add: Cons_nth_drop_Suc [symmetric])
  qed
  have "pos_block (tape_get_position (device vol)) = b0" "to32 bs = bs"
    using vol(1,3) by (simp_all add: at_block_def tape_get_position_def to32_def)
  moreover have "xr_parse xr got False = (Inr (), pi)" using xr p(2) by (simp add: text_reader_def)
  ultimately have "xml_schema_from_tape ops xr e vol = Some (Inr (saw_file_mark ctx), Some pi, vol\<lparr>device := dev, vol_index := p_index pi\<rparr>)"
    using p(1) al vol(2) by (simp add: xml_schema_from_tape_def Let_def)
  moreover have "at t p dev (b0 + length blocks)" using p(3) k by (simp add: input_state_def split: if_splits)
  moreover have "bs dvd length (concat blocks)" if "\<not> saw_file_mark ctx"
    using p(3) k that full_blocks_dvd [of blocks bs] by (auto simp: input_state_def split: if_splits)
  ultimately show ?thesis using p(5) unfolding end_seen_def by blast
qed

lemma read_index_ok:
  assumes bl: "blocks_at t p b0 bs e blocks" and xr: "text_reader xr (concat blocks) pi"
    and vol: "at t p (device vol) b0" "blocksize (vol_label vol) = bs" "bs < U32" and ip: "index_parsed (vol_label vol) p b0 pi"
  shows "\<exists>fm dev'. ltfs_read_index ops xr e rec vol = Some (Inr fm, vol\<lparr>device := dev', vol_index := p_index pi\<rparr>) \<and>
    at t p dev' (b0 + length blocks + (if fm then 1 else 0)) \<and> (end_seen bs xr (concat blocks) \<longrightarrow> fm)"
proof -
  have al: "xr_alloc xr 5" using xr by (simp add: text_reader_def)
  let ?vol = "vol\<lparr>vol_index := blank_index\<rparr>"
  obtain fm dev where s: "xml_schema_from_tape ops xr e ?vol = Some (Inr fm, Some pi, vol\<lparr>device := dev, vol_index := p_index pi\<rparr>)"
      "at t p dev (b0 + length blocks)" "end_seen bs xr (concat blocks) \<longrightarrow> fm"
    using schema_ok [OF bl xr, of ?vol] vol by auto
  obtain dev' where f: "tape_spacefm ops 1 dev = Some (Inr (), dev')" "at t p dev' (b0 + length blocks + 1)"
    using forward_one [OF s(2)] blocks_at_nth(2) [OF bl] by auto
  have pos: "pos_partition (tape_get_position (device vol)) = p" "pos_block (tape_get_position (device vol)) = b0"
    using vol(1) by (simp_all add: at_block_def tape_get_position_def)
  show ?thesis
  proof (cases fm)
    case True
    then show ?thesis
      using s f al ip by (intro exI [of _ True] exI [of _ dev']) (simp add: ltfs_read_index_def index_parsed_def pos Let_def)
  next
    case False
    then show ?thesis
      using s al ip by (intro exI [of _ False] exI [of _ dev]) (simp add: ltfs_read_index_def index_parsed_def pos Let_def)
  qed
qed

end


section \<open>The last index of a partition is found\<close>

lemma prev_fm_index:
  assumes "t = pre @ [Filemark] @ map Data blocks @ [Filemark]"
  shows "prev_fm t (length t) = Some (length t - 1)" "prev_fm t (length t - 1) = Some (length pre)"
proof -
  have n: "length t = Suc (Suc (length pre) + length blocks)" "t ! (length pre) = Filemark" "t ! (Suc (length pre) + length blocks) = Filemark"
    using assms by (simp_all add: nth_append)
  show "prev_fm t (length t) = Some (length t - 1)" unfolding n(1) prev_fm_Suc using n(3) by simp
  have "prev_fm t (Suc (length pre) + length blocks) = prev_fm t (Suc (length pre))"
    by (rule prev_fm_data) (auto simp: assms nth_append nth_Cons')
  then show "prev_fm t (length t - 1) = Some (length pre)" using n by (simp add: prev_fm_Suc)
qed

context index_tape
begin

lemma seek_index_ok:
  assumes tp: "t p = pre @ [Filemark] @ map Data blocks @ [Filemark]" "4 \<le> length pre" "length (t p) < TAPE_BLOCK_MAX"
    and doc: "block_text bs blocks doc" and xr: "text_reader xr doc pi" and ip: "index_parsed (vol_label vol) p (length pre + 1) pi"
    and vol: "at t q (device vol) b" "blocksize (vol_label vol) = bs" "0 < bs" "bs < U32" "ltfs_part_id2num part (vol_label vol) = p"
      "p < 2" "part_num2id (vol_label vol) p = part"
  defines "e \<equiv> length (t p)"
  shows "\<exists>fm dev'. ltfs_seek_index ops xr part rec vol =
      Some (Inr (e, Some \<lparr>ix_end = (if fm then e else e - 1), ix_fm_after = fm, ix_blocks_after = (\<not> fm)\<rparr>),
        note_coherency part (vol\<lparr>device := dev', vol_index := p_index pi\<rparr>)) \<and>
    in_step ok head dev' \<and> tape_of (backend_data dev') = t \<and> (end_seen bs xr doc \<longrightarrow> fm)"
proof -
  let ?b = "length pre"
  have e: "e = ?b + length blocks + 2" "e < U64" "4 < e" using tp by (simp_all add: e_def TAPE_BLOCK_MAX_def)
  have bl: "blocks_at t p (?b + 1) bs e blocks"
    using doc vol(3) e tp(1) unfolding blocks_at_def block_text_def
    by (intro conjI exI [of _ "pre @ [Filemark]"] exI [of _ "[]"]) auto
  have cd: "concat blocks = doc" using doc by (simp add: block_text_def)
  obtain d1 where 1: "tape_seek_eod ops p (device vol) = (Inr (), d1)" "at t p d1 e" using seek_eod_at [OF vol(1,6) tp(3)] by (auto simp: e_def)
  obtain d2 where 2: "tape_spacefm ops (- 1) d1 = Some (Inr (), d2)" "at t p d2 (e - 1)"
    using back_one [OF 1(2)] prev_fm_index(1) [OF tp(1)] by (auto simp: e_def)
  obtain d3 where 3: "tape_spacefm ops (- 1) d2 = Some (Inr (), d3)" "at t p d3 ?b"
    using back_one [OF 2(2)] prev_fm_index(2) [OF tp(1)] by (auto simp: e_def)
  obtain d4 where 4: "tape_spacefm ops 1 d3 = Some (Inr (), d4)" "at t p d4 (?b + 1)"
    using forward_one [OF 3(2)] tp(1) by (auto simp: nth_append)
  obtain fm d5 where 5: "ltfs_read_index ops xr e rec (vol\<lparr>device := d4\<rparr>) = Some (Inr fm, vol\<lparr>device := d5, vol_index := p_index pi\<rparr>)"
      "at t p d5 (?b + 1 + length blocks + (if fm then 1 else 0))" "end_seen bs xr doc \<longrightarrow> fm"
    using read_index_ok [OF bl, of xr pi "vol\<lparr>device := d4\<rparr>" rec] xr ip vol 4(2) unfolding cd by auto
  have pos: "pos_block (tape_get_position d) = c" if "at t p d c" for d c using that by (simp add: at_block_def tape_get_position_def)
  let ?ix = "\<lparr>ix_end = (if fm then e else e - 1), ix_fm_after = fm, ix_blocks_after = (\<not> fm)\<rparr>"
  have loop: "seek_index_loop ops xr rec e (vol\<lparr>device := d3\<rparr>) = Some (Inr (Some ?ix), vol\<lparr>device := d5, vol_index := p_index pi\<rparr>)"
    using 4(1) 5(1) pos [OF 5(2)] pos [OF 3(2)] tp(2) e(1) by (subst seek_index_loop.simps) auto
  have "sub64 e 1 = e - 1" using e by (simp add: sub64_exact)
  then have "ltfs_seek_index ops xr part rec vol = Some (Inr (e, Some ?ix), note_coherency part (vol\<lparr>device := d5, vol_index := p_index pi\<rparr>))"
    using 1(1) 2(1) 3(1) loop pos [OF 1(2)] pos [OF 2(2)] e(3) vol(5,7) ip
    by (simp add: ltfs_seek_index_def on_dev_def index_parsed_def Let_def)
  then show ?thesis using 5(2,3) by (auto simp: at_block_def)
qed

end

end
