(* ===== verification/Ltfs_Check.thy ===== *)
theory Ltfs_Check
  imports Ltfs_Index_Read
begin

text \<open>
  The consistency check of a volume (\<^verbatim>\<open>ltfs_internal.c\<close>): the checks of the extents of an index and of its
  pointers, the last block that an index refers to, and \<^verbatim>\<open>ltfs_check_medium\<close>, which searches both partitions for their last index,
  takes the newer one and restores what is missing. The recovery of blocks into a directory (\<^verbatim>\<open>_ltfs_make_lost_found\<close>) is a parameter.
\<close>

section \<open>The extents of an index\<close>

text \<open>A directory tree as far as the checks look at it: whether a dentry is a directory, its entries in the order of the hash table, its extents.\<close>

datatype dtree = Dtree bool "dtree list" "extent_info list"

definition ext_lastblock :: "ltfs_label \<Rightarrow> extent_info \<Rightarrow> nat" where
  "ext_lastblock lab ext = add64 (add64 (block ext) (bytecount ext div blocksize lab)) (if bytecount ext mod blocksize lab > 0 then 1 else 0)"

fun check_extent_list :: "ltfs_label \<Rightarrow> nat \<Rightarrow> nat \<Rightarrow> extent_info list \<Rightarrow> err + unit" where
  "check_extent_list lab ip_eod dp_eod [] = Inr ()"
| "check_extent_list lab ip_eod dp_eod (ext # exts) =
     (if block ext < 4 then Inl LTFS_INDEX_INVALID
      else if partition ext = partid_ip lab \<and> ext_lastblock lab ext \<ge> ip_eod \<or> partition ext = partid_dp lab \<and> ext_lastblock lab ext \<ge> dp_eod
      then Inl LTFS_INDEX_INVALID
      else check_extent_list lab ip_eod dp_eod exts)"

fun ltfs_check_extents :: "ltfs_label \<Rightarrow> nat \<Rightarrow> nat \<Rightarrow> dtree \<Rightarrow> err + unit"
  and check_extents_entries :: "ltfs_label \<Rightarrow> nat \<Rightarrow> nat \<Rightarrow> dtree list \<Rightarrow> err + unit" where
  "ltfs_check_extents lab ip_eod dp_eod (Dtree isdir entries exts) =
     (if isdir \<and> entries \<noteq> [] then check_extents_entries lab ip_eod dp_eod entries else check_extent_list lab ip_eod dp_eod exts)"
| "check_extents_entries lab ip_eod dp_eod [] = Inr ()"
| "check_extents_entries lab ip_eod dp_eod (d # ds) =
     (case ltfs_check_extents lab ip_eod dp_eod d of Inl e \<Rightarrow> Inl e | Inr _ \<Rightarrow> check_extents_entries lab ip_eod dp_eod ds)"

text \<open>The last blocks, of the data partition and of the index partition.\<close>

definition last_ref_extent :: "ltfs_label \<Rightarrow> extent_info \<Rightarrow> nat \<times> nat \<Rightarrow> nat \<times> nat" where
  "last_ref_extent lab ext = (\<lambda>(dp_last, ip_last).
     if partition ext = partid_ip lab \<and> ext_lastblock lab ext > ip_last then (dp_last, ext_lastblock lab ext)
     else if partition ext = partid_dp lab \<and> ext_lastblock lab ext > dp_last then (ext_lastblock lab ext, ip_last)
     else (dp_last, ip_last))"

fun ltfs_last_ref :: "ltfs_label \<Rightarrow> dtree \<Rightarrow> nat \<times> nat \<Rightarrow> nat \<times> nat"
  and last_ref_entries :: "ltfs_label \<Rightarrow> dtree list \<Rightarrow> nat \<times> nat \<Rightarrow> nat \<times> nat" where
  "ltfs_last_ref lab (Dtree isdir entries exts) r =
     (if isdir \<and> entries \<noteq> [] then last_ref_entries lab entries r else fold (last_ref_extent lab) exts r)"
| "last_ref_entries lab [] r = r"
| "last_ref_entries lab (d # ds) r = last_ref_entries lab ds (ltfs_last_ref lab d r)"

section \<open>The newer index\<close>

text \<open>0: the index of the index partition is newer, 1: that of the data partition, 2: there is none.\<close>

definition ltfs_check_pointers ::
    "'s tape_ops \<Rightarrow> 's xml_reader \<Rightarrow> ltfs_index option \<Rightarrow> ltfs_index option \<Rightarrow> 's ltfs_volume \<Rightarrow> (nat, 's ltfs_volume) result option" where
  "ltfs_check_pointers ops xr ip_index dp_index vol =
     (case (ip_index, dp_index) of
        (None, None) \<Rightarrow> Some (Inr 2, vol)
      | (None, Some _) \<Rightarrow> Some (Inr 1, vol)
      | (Some ip, None) \<Rightarrow> Some (if fst (backptr ip) \<noteq> CHR 0x00 then Inl LTFS_INDEX_INVALID else Inr 0, vol)
      | (Some ip, Some dp) \<Rightarrow>
          if generation ip \<ge> generation dp \<and> fst (backptr ip) = fst (selfptr dp) \<and> snd (backptr ip) = snd (selfptr dp) then Some (Inr 0, vol)
          else if generation ip > generation dp then Some (Inl LTFS_INDEX_INVALID, vol)
          else if generation ip = generation dp \<and> fst (backptr ip) = CHR 0x00 then Some (Inr 1, vol)
          else if snd (backptr dp) > snd (backptr ip)
          then obind (Some (on_dev (tape_seek ops (ltfs_part_id2num (partid_dp (vol_label vol)) (vol_label vol)) (snd (backptr dp))) vol)) (\<lambda>_ vol.
               obind (ltfs_read_index ops xr 0 False vol) (\<lambda>_ vol.
                 Some (if fst (backptr ip) = CHR 0x00 \<and> generation (vol_index vol) < generation ip then Inl LTFS_INDEX_INVALID else Inr 1, vol)))
          else Some (Inr 1, vol))"

section \<open>The check of the medium\<close>

definition SYNC_RECOVERY :: string where "SYNC_RECOVERY = ''Recovery''"

text \<open>An index at the end of a partition without the file mark behind it gets one; the result is the end of data.\<close>

definition fill_file_mark ::
    "'s tape_ops \<Rightarrow> nat \<Rightarrow> index_place option \<Rightarrow> nat \<Rightarrow> 's ltfs_volume \<Rightarrow> (nat, 's ltfs_volume) result option" where
  "fill_file_mark ops num ix eod vol =
     (if \<exists>i \<in> set_option ix. \<not> ix_blocks_after i \<and> \<not> ix_fm_after i
      then obind (Some (on_dev (tape_seek_eod ops num) vol)) (\<lambda>_ vol.
           obind (Some (on_dev (tape_write_filemark ops 1 True True) vol)) (\<lambda>_ vol. Some (Inr (add64 eod 1), vol)))
      else Some (Inr eod, vol))"

definition blocks_after :: "index_place option \<Rightarrow> nat \<Rightarrow> bool" where
  "blocks_after ix eod \<longleftrightarrow> (case ix of Some i \<Rightarrow> ix_blocks_after i | None \<Rightarrow> eod \<noteq> 4)"

text \<open>
  The index that is taken, with its tree; \<open>newer\<close> is the result of \<open>ltfs_check_pointers\<close>. Without an index on one of the partitions the extents
  of the other one are checked. (The first case is excluded before.)
\<close>

definition choose_index ::
    "ltfs_label \<Rightarrow> nat \<Rightarrow> nat \<Rightarrow> nat \<Rightarrow> (ltfs_index \<times> dtree) option \<Rightarrow> (ltfs_index \<times> dtree) option \<Rightarrow> err + (ltfs_index \<times> dtree)" where
  "choose_index lab newer ip_eod dp_eod ip dp =
     (case (ip, dp) of
        (None, None) \<Rightarrow> Inr (ltfs_set_index_dirty False (blank_index\<lparr>mod_time := format_time lab\<rparr>), Dtree True [] [])
      | (Some (idx, t), None) \<Rightarrow> (case ltfs_check_extents lab ip_eod dp_eod t of Inl e \<Rightarrow> Inl e | Inr _ \<Rightarrow> Inr (ltfs_set_index_dirty False idx, t))
      | (None, Some (idx, t)) \<Rightarrow> (case ltfs_check_extents lab ip_eod dp_eod t of Inl e \<Rightarrow> Inl e | Inr _ \<Rightarrow> Inr (ltfs_set_index_dirty False idx, t))
      | (Some i, Some (idx, t)) \<Rightarrow> Inr (if newer = 0 then i else (ltfs_set_index_dirty False idx, t)))"

text \<open>The append position that leaves out the extra blocks of a partition; \<open>after\<close> is where it goes on behind the index.\<close>

definition discard_extra :: "nat \<Rightarrow> index_place option \<Rightarrow> nat \<Rightarrow> nat \<Rightarrow> nat \<Rightarrow> 's ltfs_volume \<Rightarrow> (unit, 's ltfs_volume) result" where
  "discard_extra num ix eod lastblock after vol =
     (case ix of
        Some i \<Rightarrow>
          if ix_blocks_after i then
            if lastblock \<ge> ix_end i \<and> lastblock < eod then on_dev (tape_set_append_position num lastblock) vol
            else if lastblock < ix_end i then on_dev (tape_set_append_position num after) vol
            else (Inr (), vol)
          else (Inr (), vol)
      | None \<Rightarrow> if eod > 4 then on_dev (tape_set_append_position num 4) vol else (Inr (), vol))"

text \<open>The extra blocks are recovered (\<open>lost_found\<close>) or given up.\<close>

definition handle_extra ::
    "(nat \<Rightarrow> nat \<Rightarrow> nat \<Rightarrow> nat \<Rightarrow> 's ltfs_volume \<times> dtree \<Rightarrow> (unit, 's ltfs_volume \<times> dtree) result) \<Rightarrow> bool \<Rightarrow>
     index_place option \<Rightarrow> index_place option \<Rightarrow> nat \<Rightarrow> nat \<Rightarrow> nat \<Rightarrow> 's ltfs_volume \<times> dtree \<Rightarrow> (unit, 's ltfs_volume \<times> dtree) result" where
  "handle_extra lost_found recover_extra ip_ix dp_ix ip_eod dp_eod ip_self st =
     rbind (if recover_extra
            then lost_found ip_eod dp_eod (case ip_ix of None \<Rightarrow> 0 | Some i \<Rightarrow> ix_end i) (case dp_ix of None \<Rightarrow> 0 | Some i \<Rightarrow> ix_end i) st
            else
              let (vol, t) = st; lab = vol_label vol; (lastblock_d, lastblock_i) = ltfs_last_ref lab t (0, 0) in
              case rbind (discard_extra (ltfs_part_id2num (partid_ip lab) lab) ip_ix ip_eod lastblock_i (sub64 ip_self 1) vol)
                     (\<lambda>_. discard_extra (ltfs_part_id2num (partid_dp lab) lab) dp_ix dp_eod lastblock_d (case dp_ix of None \<Rightarrow> 0 | Some i \<Rightarrow> ix_end i)) of
                (r, vol) \<Rightarrow> (r, vol, t))
       (\<lambda>_ (vol, t). (Inr (), vol\<lparr>vol_index := ltfs_set_index_dirty False (vol_index vol)\<rparr>, t))"

text \<open>
  An index that is dirty is written to the partitions that lack it, if that is allowed; the result of the write to the data partition is
  not looked at.
\<close>

definition restore_index ::
    "'s tape_ops \<Rightarrow> xml_env \<Rightarrow> (char \<Rightarrow> ltfs_timespec) \<Rightarrow> bool \<Rightarrow> bool \<Rightarrow> dtree \<Rightarrow> 's ltfs_volume \<Rightarrow> (unit, 's ltfs_volume) result option" where
  "restore_index ops xe now fix_it dp_index_last t vol =
     (let lab = vol_label vol; dp_num = ltfs_part_id2num (partid_dp lab) lab; lastblock_d = fst (ltfs_last_ref lab t (0, 0)) in
      if \<not> dirty (vol_index vol) then Some (Inr (), ltfs_update_cart_coherency ops vol)
      else if \<not> fix_it then Some (Inl LTFS_INCONSISTENT, vol)
      else if append_pos (device vol) dp_num \<noteq> 0 \<and> lastblock_d > append_pos (device vol) dp_num then Some (Inl LTFS_INDEX_INVALID, vol)
      else if dp_index_last then ltfs_write_index ops xe now (partid_ip lab) SYNC_RECOVERY vol
      else (case ltfs_write_index ops xe now (partid_dp lab) SYNC_RECOVERY vol of
              None \<Rightarrow> None
            | Some (_, vol) \<Rightarrow> ltfs_write_index ops xe now (partid_ip lab) SYNC_RECOVERY vol))"

text \<open>
  \<open>root_of\<close> is the directory tree that the parser made for an index.
\<close>

definition ltfs_check_medium ::
    "'s tape_ops \<Rightarrow> 's xml_reader \<Rightarrow> xml_env \<Rightarrow> (char \<Rightarrow> ltfs_timespec) \<Rightarrow> (ltfs_index \<Rightarrow> dtree) \<Rightarrow>
     (nat \<Rightarrow> nat \<Rightarrow> nat \<Rightarrow> nat \<Rightarrow> 's ltfs_volume \<times> dtree \<Rightarrow> (unit, 's ltfs_volume \<times> dtree) result) \<Rightarrow>
     bool \<Rightarrow> bool \<Rightarrow> bool \<Rightarrow> bool \<Rightarrow> 's ltfs_volume \<Rightarrow> (unit, 's ltfs_volume) result option" where
  "ltfs_check_medium ops xr xe now root_of lost_found fix_it deep recover_extra recover_symlink vol =
     (let lab = vol_label vol; ip_num = ltfs_part_id2num (ltfs_ip_id vol) lab; dp_num = ltfs_part_id2num (ltfs_dp_id vol) lab in
      obind (ltfs_seek_index ops xr (partid_ip lab) recover_symlink vol) (\<lambda>(ip_eod, ip_ix) vol.
      let ip_index = map_option (\<lambda>_. vol_index vol) ip_ix in
      obind (ltfs_seek_index ops xr (partid_dp lab) recover_symlink vol) (\<lambda>(dp_eod, dp_ix) vol.
      let dp_index = map_option (\<lambda>_. vol_index vol) dp_ix in
      if ip_ix = None \<and> dp_ix = None then Some (Inl LTFS_NO_INDEX, vol)
      else
        obind (fill_file_mark ops dp_num dp_ix dp_eod vol) (\<lambda>dp_eod vol.
        obind (fill_file_mark ops ip_num ip_ix ip_eod vol) (\<lambda>ip_eod vol.
        let extra = (blocks_after dp_ix dp_eod \<or> blocks_after ip_ix ip_eod) in
        if \<not> deep \<and> extra then Some (Inl LTFS_INCONSISTENT, vol)
        else
          obind (ltfs_check_pointers ops xr ip_index dp_index vol) (\<lambda>newer vol.
          case choose_index lab newer ip_eod dp_eod (map_option (\<lambda>i. (i, root_of i)) ip_index) (map_option (\<lambda>i. (i, root_of i)) dp_index) of
            Inl e \<Rightarrow> Some (Inl e, vol)
          | Inr (idx, t) \<Rightarrow>
              let ip_last = (ip_ix \<noteq> None \<and> \<not> blocks_after ip_ix ip_eod); dp_last = (dp_ix \<noteq> None \<and> \<not> blocks_after dp_ix dp_eod);
                  ip_self = (case ip_index of None \<Rightarrow> 0 | Some i \<Rightarrow> snd (selfptr i)) in
              obind (Some (if ip_last then on_dev (tape_set_append_position ip_num (sub64 ip_self 1)) (vol\<lparr>vol_index := idx\<rparr>)
                           else (Inr (), vol\<lparr>vol_index := idx\<rparr>))) (\<lambda>_ vol.
              case (if deep \<and> extra then handle_extra lost_found recover_extra ip_ix dp_ix ip_eod dp_eod ip_self (vol, t) else (Inr (), vol, t)) of
                (Inl e, vol, _) \<Rightarrow> Some (Inl e, vol)
              | (Inr _, vol, t) \<Rightarrow>
                  let vol = (if ip_last then vol\<lparr>ip_index_file_end := True\<rparr> else vol);
                      vol = (if dp_last then vol\<lparr>dp_index_file_end := True\<rparr> else vol) in
                  restore_index ops xe now fix_it dp_last t vol)))))))"


section \<open>The last block of an index\<close>

text \<open>The extents that the checks look at.\<close>

fun tree_extents :: "dtree \<Rightarrow> extent_info list" and entries_extents :: "dtree list \<Rightarrow> extent_info list" where
  "tree_extents (Dtree isdir entries exts) = (if isdir \<and> entries \<noteq> [] then entries_extents entries else exts)"
| "entries_extents [] = []"
| "entries_extents (d # ds) = tree_extents d @ entries_extents ds"

lemma last_ref_fold:
  "ltfs_last_ref lab t r = fold (last_ref_extent lab) (tree_extents t) r"
  "last_ref_entries lab ts r = fold (last_ref_extent lab) (entries_extents ts) r"
  by (induction t and ts arbitrary: r and r rule: tree_extents_entries_extents.induct) auto

lemma check_extents_iff:
  "ltfs_check_extents lab i d t = check_extent_list lab i d (tree_extents t)"
  "check_extents_entries lab i d ts = check_extent_list lab i d (entries_extents ts)"
proof -
  have app: "check_extent_list lab i d (xs @ ys) =
      (case check_extent_list lab i d xs of Inl e \<Rightarrow> Inl e | Inr _ \<Rightarrow> check_extent_list lab i d ys)" for xs ys
    by (induction xs) auto
  show "ltfs_check_extents lab i d t = check_extent_list lab i d (tree_extents t)"
    "check_extents_entries lab i d ts = check_extent_list lab i d (entries_extents ts)"
    by (induction t and ts rule: tree_extents_entries_extents.induct) (auto simp: app split: sum.splits)
qed

lemma last_ref_grows: "fst r \<le> fst (fold (last_ref_extent lab) exts r) \<and> snd r \<le> snd (fold (last_ref_extent lab) exts r)"
proof (induction exts arbitrary: r)
  case (Cons e exts)
  have "fst r \<le> fst (last_ref_extent lab e r) \<and> snd r \<le> snd (last_ref_extent lab e r)" by (cases r) (simp add: last_ref_extent_def)
  then show ?case using Cons.IH [of "last_ref_extent lab e r"] by (auto intro: order_trans)
qed simp

lemma last_ref_covers:
  assumes "ext \<in> set exts" and "partid_ip lab \<noteq> partid_dp lab"
  shows "partition ext = partid_dp lab \<Longrightarrow> ext_lastblock lab ext \<le> fst (fold (last_ref_extent lab) exts r)"
    "partition ext = partid_ip lab \<Longrightarrow> ext_lastblock lab ext \<le> snd (fold (last_ref_extent lab) exts r)"
proof -
  obtain xs ys where e: "exts = xs @ ext # ys" using assms(1) by (meson split_list)
  let ?r = "fold (last_ref_extent lab) xs r"
  have "partition ext = partid_dp lab \<Longrightarrow> ext_lastblock lab ext \<le> fst (last_ref_extent lab ext ?r)"
    "partition ext = partid_ip lab \<Longrightarrow> ext_lastblock lab ext \<le> snd (last_ref_extent lab ext ?r)"
    using assms(2) by (auto simp: last_ref_extent_def split: prod.splits)
  then show "partition ext = partid_dp lab \<Longrightarrow> ext_lastblock lab ext \<le> fst (fold (last_ref_extent lab) exts r)"
    "partition ext = partid_ip lab \<Longrightarrow> ext_lastblock lab ext \<le> snd (fold (last_ref_extent lab) exts r)"
    using last_ref_grows [of "last_ref_extent lab ext ?r" lab ys] by (auto simp: e)
qed

text \<open>
  The block that is taken as the end of an extent is behind all of its bytes when the extent begins with its block; the offset in the first block is
  not added, so that an extent that runs on into a further block has its last bytes there.
\<close>

lemma lastblock_behind:
  assumes "byteoffset ext = 0" and "0 < blocksize lab" and "block ext + bytecount ext < U64" and "fileoffset ext \<le> x" and "x < fileoffset ext + bytecount ext"
  shows "fst (snd (tape_byte (blocksize lab) ext x)) < ext_lastblock lab ext"
proof -
  let ?bs = "blocksize lab" and ?n = "bytecount ext"
  have e: "ext_lastblock lab ext = block ext + ?n div ?bs + (if ?n mod ?bs > 0 then 1 else 0)"
  proof -
    have "?n div ?bs + (if ?n mod ?bs > 0 then 1 else 0) \<le> ?n"
    proof (cases "?n mod ?bs > 0")
      case True
      have "?n div ?bs + 1 \<le> ?bs * (?n div ?bs) + ?n mod ?bs"
        using True assms(2) by (intro add_mono) (auto simp: Suc_le_eq)
      then show ?thesis using True by simp
    qed simp
    then show ?thesis using assms(3) by (auto simp: ext_lastblock_def add64_exact)
  qed
  have "(x - fileoffset ext) div ?bs < ?n div ?bs + (if ?n mod ?bs > 0 then 1 else 0)"
  proof (cases "?n mod ?bs > 0")
    case True
    have "(x - fileoffset ext) div ?bs \<le> ?n div ?bs" using assms(4,5) by (intro div_le_mono) simp
    then show ?thesis using True by simp
  next
    case False
    then have "?n = ?bs * (?n div ?bs)" using mult_div_mod_eq [of ?bs ?n] by simp
    moreover have "x - fileoffset ext < ?n" using assms(4,5) by simp
    ultimately show ?thesis using False by (simp add: less_mult_imp_div_less mult.commute)
  qed
  then show ?thesis using e assms(1) by (simp add: tape_byte_def)
qed


theorem last_ref_misses_block:
  assumes "partition ext = partid_dp lab" and "partid_ip lab \<noteq> partid_dp lab" and "0 < byteoffset ext" and "byteoffset ext < blocksize lab"
    and "bytecount ext = blocksize lab * Suc k" and "block ext + bytecount ext < U64"
  shows "fst (ltfs_last_ref lab (Dtree False [] [ext]) (0, 0)) = fst (snd (tape_byte (blocksize lab) ext (fileoffset ext + bytecount ext - 1)))"
proof -
  let ?bs = "blocksize lab"
  have "Suc k * 1 \<le> Suc k * ?bs" using assms(4) by (intro mult_le_mono2) simp
  then have k: "block ext + Suc k < U64" using assms(5,6) by (simp add: mult.commute)
  obtain b where b: "byteoffset ext = Suc b" using assms(3) by (cases "byteoffset ext") auto
  have e: "byteoffset ext + (bytecount ext - 1) = b + Suc k * ?bs" using assms(3-5) b by (simp add: mult.commute)
  have "(b + Suc k * ?bs) div ?bs = Suc k" using assms(4) b by (simp add: div_mult_self1 del: mult_Suc)
  then have "(byteoffset ext + (bytecount ext - 1)) div ?bs = Suc k" unfolding e .
  moreover have "ext_lastblock lab ext = block ext + Suc k" using assms(3-5) k by (simp add: ext_lastblock_def add64_exact del: mult_Suc_right)
  moreover have "fileoffset ext + bytecount ext - 1 - fileoffset ext = bytecount ext - 1" by simp
  ultimately show ?thesis using assms(1,2) by (simp add: last_ref_extent_def tape_byte_def del: mult_Suc_right)
qed

text \<open>
  The check takes an extent that ends with the last block of its partition for one that reaches behind the end of data.
\<close>

theorem check_extents_last_block:
  assumes "partition ext = partid_dp lab" and "4 \<le> block ext" and "bytecount ext = blocksize lab" and "0 < blocksize lab" and "byteoffset ext = 0"
    and "block ext + 1 < U64"
  shows "ltfs_check_extents lab ip_eod (block ext + 1) (Dtree False [] [ext]) = Inl LTFS_INDEX_INVALID \<and>
    fst (snd (tape_byte (blocksize lab) ext (fileoffset ext + bytecount ext - 1))) < block ext + 1"
  using assms by (simp add: ext_lastblock_def add64_exact tape_byte_def)


section \<open>A volume that ends in its index\<close>

text \<open>A partition ends in an index file from which the parser makes \<open>idx\<close>, and whose end it comes to see.\<close>

definition ends_in_index :: "'s xml_reader \<Rightarrow> tape \<Rightarrow> ltfs_label \<Rightarrow> char \<Rightarrow> ltfs_index \<Rightarrow> bool" where
  "ends_in_index xr t lab c idx \<longleftrightarrow> (let p = ltfs_part_id2num c lab in
     p < 2 \<and> part_num2id lab p = c \<and> length (t p) < TAPE_BLOCK_MAX \<and> 0 < blocksize lab \<and> blocksize lab < U32 \<and>
     (\<exists>pre blocks doc pi. t p = pre @ [Filemark] @ map Data blocks @ [Filemark] \<and> 4 \<le> length pre \<and>
        block_text (blocksize lab) blocks doc \<and> end_seen (blocksize lab) xr doc \<and> text_reader xr doc pi \<and> p_index pi = idx \<and>
        index_parsed lab p (length pre + 1) pi))"

lemma note_coherency_sel [simp]:
  "vol_index (note_coherency c v) = vol_index v" "device (note_coherency c v) = device v" "vol_label (note_coherency c v) = vol_label v"
  by (simp_all add: note_coherency_def Let_def)

context index_tape
begin

lemma seek_found:
  assumes "ends_in_index xr t (vol_label vol) c idx" and "in_step ok head (device vol)" and "tape_of (backend_data (device vol)) = t"
  defines "e \<equiv> length (t (ltfs_part_id2num c (vol_label vol)))"
  shows "\<exists>dev'. ltfs_seek_index ops xr c rec vol =
      Some (Inr (e, Some \<lparr>ix_end = e, ix_fm_after = True, ix_blocks_after = False\<rparr>), note_coherency c (vol\<lparr>device := dev', vol_index := idx\<rparr>)) \<and>
    in_step ok head dev' \<and> tape_of (backend_data dev') = t"
proof -
  let ?p = "ltfs_part_id2num c (vol_label vol)"
  obtain pre blocks doc pi where x: "t ?p = pre @ [Filemark] @ map Data blocks @ [Filemark]" "4 \<le> length pre"
      "block_text (blocksize (vol_label vol)) blocks doc" "end_seen (blocksize (vol_label vol)) xr doc" "text_reader xr doc pi" "p_index pi = idx"
      "index_parsed (vol_label vol) ?p (length pre + 1) pi"
      and p: "?p < 2" "part_num2id (vol_label vol) ?p = c" "length (t ?p) < TAPE_BLOCK_MAX" "0 < blocksize (vol_label vol)" "blocksize (vol_label vol) < U32"
    using assms(1) by (auto simp: ends_in_index_def Let_def)
  have "at t (pos_partition (position (device vol))) (device vol) (pos_block (position (device vol)))" using assms(2,3) by (simp add: at_block_def)
  from seek_index_ok [OF x(1,2) p(3) x(3,5,7) this refl p(4,5) refl p(1,2), of rec] x(4,6)
  show ?thesis unfolding e_def [symmetric] by auto
qed

text \<open>
  Both partitions end in their index, that of the index partition points back to that of the data partition and is not older: the check finds the
  volume consistent, without a write.
\<close>

lemma check_medium_ok:
  fixes vol
  defines "lab \<equiv> vol_label vol"
  assumes "ends_in_index xr t lab (partid_ip lab) ii" and "ends_in_index xr t lab (partid_dp lab) di"
    and vol: "in_step ok head (device vol)" "tape_of (backend_data (device vol)) = t"
    and ptr: "backptr ii = selfptr di" "generation di \<le> generation ii" "\<not> dirty ii"
  shows "\<exists>vol'. ltfs_check_medium ops xr xe now root_of lost_found fix_it deep recover_extra recover_symlink vol = Some (Inr (), vol') \<and>
    vol_index vol' = ii \<and> tape_of (backend_data (device vol')) = t \<and> ip_index_file_end vol' \<and> dp_index_file_end vol' \<and>
    append_pos (device vol') (ltfs_part_id2num (partid_ip lab) lab) = sub64 (snd (selfptr ii)) 1"
proof -
  let ?ip = "partid_ip lab" and ?dp = "partid_dp lab" and ?e = "\<lambda>c. length (t (ltfs_part_id2num c lab))"
  let ?ix = "\<lambda>c. \<lparr>ix_end = ?e c, ix_fm_after = True, ix_blocks_after = False\<rparr>"
  obtain d1 where 1: "ltfs_seek_index ops xr ?ip recover_symlink vol = Some (Inr (?e ?ip, Some (?ix ?ip)), note_coherency ?ip (vol\<lparr>device := d1, vol_index := ii\<rparr>))"
      "in_step ok head d1" "tape_of (backend_data d1) = t"
    using seek_found [of xr t vol ?ip ii recover_symlink] assms(2) vol unfolding lab_def by blast
  let ?v1 = "note_coherency ?ip (vol\<lparr>device := d1, vol_index := ii\<rparr>)"
  have l1: "vol_label ?v1 = lab" by (simp add: lab_def)
  obtain d2 where 2: "ltfs_seek_index ops xr ?dp recover_symlink ?v1 = Some (Inr (?e ?dp, Some (?ix ?dp)), note_coherency ?dp (?v1\<lparr>device := d2, vol_index := di\<rparr>))"
      "in_step ok head d2" "tape_of (backend_data d2) = t"
    using seek_found [of xr t ?v1 ?dp di recover_symlink] assms(3) 1(2,3) unfolding l1 by auto
  let ?v2 = "note_coherency ?dp (?v1\<lparr>device := d2, vol_index := di\<rparr>)"
  have p: "\<not> ltfs_part_id2num ?ip lab > 1" using assms(2) by (simp add: ends_in_index_def Let_def)
  have ids: "ltfs_ip_id vol = ?ip" "ltfs_dp_id vol = ?dp" by (simp_all add: ltfs_ip_id_def ltfs_dp_id_def lab_def)
  define v3 where "v3 = ?v2\<lparr>vol_index := ii, device := d2\<lparr>append_pos := (append_pos d2)(ltfs_part_id2num ?ip lab := sub64 (snd (selfptr ii)) 1)\<rparr>,
    ip_index_file_end := True, dp_index_file_end := True\<rparr>"
  have "ltfs_check_medium ops xr xe now root_of lost_found fix_it deep recover_extra recover_symlink vol =
      restore_index ops xe now fix_it True (root_of ii) v3"
    using 1(1) 2(1) p ptr unfolding ltfs_check_medium_def lab_def [symmetric] Let_def
    by (simp add: fill_file_mark_def blocks_after_def ltfs_check_pointers_def choose_index_def ids tape_set_append_position_def on_dev_def v3_def)
  moreover have "restore_index ops xe now fix_it True (root_of ii) v3 = Some (Inr (), ltfs_update_cart_coherency ops v3)"
    using ptr(3) by (simp add: restore_index_def v3_def Let_def)
  moreover have "tape_of (backend_data (device (ltfs_update_cart_coherency ops v3))) = t"
      "append_pos (device (ltfs_update_cart_coherency ops v3)) = (append_pos d2)(ltfs_part_id2num ?ip lab := sub64 (snd (selfptr ii)) 1)"
    using update_cart_coherency_same(1) [of v3] 2(3) by (simp_all add: dev_same_def v3_def)
  ultimately show ?thesis
    using update_cart_coherency_same(3-5) [of v3] by (intro exI [of _ "ltfs_update_cart_coherency ops v3"]) (simp add: v3_def)
qed

end

end
