(* ===== verification/Ltfs_Index_File.thy ===== *)
theory Ltfs_Index_File
  imports Ltfs_Index_Read Ltfs_Volume_File
begin

text \<open>
  The index reader on the file backend: the driver spaces over file marks as the reader needs it, and the index
  that was written last is the one that is found.
\<close>


section \<open>Spacing over one file mark\<close>

lemma space_fm_back:
  assumes h: "host_ok h" and "fd_ok st" and "cur_block st < eod st (cur_partition st)"
    and "prev_fm (fd_tape st (cur_partition st)) (Suc (cur_block st)) = Some i"
  shows "space_fm_loop h 1 True 0 st = Some (Inr (), st\<lparr>cur_block := i\<rparr>)"
  using assms(2-)
proof (induction "cur_block st" arbitrary: st)
  case 0
  let ?p = "cur_partition st"
  have fm: "fd_tape st ?p ! 0 = Filemark" "i = 0" using 0 by (auto simp: prev_fm_Suc split: if_splits) (simp_all add: prev_fm_def)
  have "files (dir st) (?p, 0, SUFFIX_FILEMARK) \<noteq> None" using fd_filemark_file [of st ?p 0] 0 fm(1) by (auto simp: fd_ok_def)
  then show ?case
    using h 0 fm by (subst space_fm_loop.simps) (auto simp: check_file_ok fd_ok_def Let_def add64_def U64_def)
next
  case (Suc b)
  let ?p = "cur_partition st" and ?st = "st\<lparr>cur_block := b\<rparr>"
  have p: "?p < 2" using Suc.prems(1) by (simp add: fd_ok_def)
  have fm: "(files (dir st) (?p, Suc b, SUFFIX_FILEMARK) \<noteq> None) = (fd_tape st ?p ! Suc b = Filemark)"
    using fd_filemark_file [of st ?p "Suc b"] Suc p by simp
  show ?case
  proof (cases "fd_tape st ?p ! Suc b = Filemark")
    case True
    then have "i = Suc b" using Suc.prems(3) Suc.hyps(2) by (simp add: prev_fm_Suc)
    then show ?thesis
      using h fm True p Suc.hyps(2) [symmetric] by (subst space_fm_loop.simps) (simp add: check_file_ok Let_def add64_def U64_def)
  next
    case False
    have ok': "fd_ok ?st" "fd_tape ?st = fd_tape st" using Suc by (auto simp: fd_ok_def fd_tape_def fun_eq_iff)
    have "space_fm_loop h 1 True 0 st = space_fm_loop h 1 True 0 ?st"
      using h fm False p Suc.hyps(2) [symmetric] by (subst space_fm_loop.simps) (simp add: check_file_ok Let_def)
    also have "\<dots> = Some (Inr (), ?st\<lparr>cur_block := i\<rparr>)"
      by (rule Suc.hyps(1)) (use Suc.prems Suc.hyps(2) ok' False in \<open>auto simp: prev_fm_Suc [of _ "cur_block st"]\<close>)
    finally show ?thesis by simp
  qed
qed

text \<open>After a spacing that ends at block \<open>b\<close> the driver reports that block.\<close>

lemma filedebug_space_at:
  assumes "host_ok h" and ok: "fd_ok st" and ty: "ty = TC_SPACE_FM_F \<or> ty = TC_SPACE_FM_B"
    and moved: "filedebug_space_fm h n (ty = TC_SPACE_FM_B) st = Some (Inr (), st\<lparr>cur_block := b\<rparr>)" and b: "b \<le> eod st (cur_partition st)"
  shows "\<exists>st' pos'. filedebug_space h n ty (st, pos) = Some (Inr (), st', pos') \<and> fd_ok st' \<and> fd_tape st' = fd_tape st \<and>
    fd_head st' = (cur_partition st, b) \<and> pos_block pos' = b \<and> pos_partition pos' = pos_partition pos"
proof -
  let ?p = "cur_partition st" and ?st = "st\<lparr>cur_block := b\<rparr>"
  have st: "ready st" "?p < 2" "part_ok (files (dir st)) ?p (eod st ?p)" "cur_block st \<noteq> MISSING_EOD" using ok by (auto simp: fd_ok_def)
  have "count_filemarks h ?p b ?st = Inr (filemarks_before (fd_tape ?st ?p) b)"
    using assms(1) st b by (intro count_filemarks_ok) auto
  moreover have "fd_ok (?st\<lparr>cur_filemarks := m\<rparr>)" "fd_tape (?st\<lparr>cur_filemarks := m\<rparr>) = fd_tape st" for m
    using ok b by (simp_all add: fd_ok_def fd_tape_def fun_eq_iff)
  ultimately show ?thesis
    using st moved ty by (auto simp: filedebug_space_def Let_def warn_def fd_head_def)
qed

lemma filedebug_back_one:
  assumes "host_ok h" and ok: "fd_ok st" and hd: "fd_head st = (p, b)" and "prev_fm (fd_tape st p) b = Some i"
  shows "\<exists>st' pos'. filedebug_space h 1 TC_SPACE_FM_B (st, pos) = Some (Inr (), st', pos') \<and> fd_ok st' \<and> fd_tape st' = fd_tape st \<and>
    fd_head st' = (p, i) \<and> pos_block pos' = i \<and> pos_partition pos' = pos_partition pos"
proof -
  have hd': "cur_partition st = p" "cur_block st = b" using hd by (simp_all add: fd_head_def)
  obtain c where b: "b = Suc c" using assms(4) by (cases b) (simp_all add: prev_fm_def)
  have c: "Suc c \<le> eod st p" using ok hd' b by (simp add: fd_ok_def)
  let ?st = "st\<lparr>cur_block := c\<rparr>"
  have "fd_ok ?st" "fd_tape ?st = fd_tape st" using ok c hd' by (simp_all add: fd_ok_def fd_tape_def fun_eq_iff)
  then have "filedebug_space_fm h 1 True st = Some (Inr (), st\<lparr>cur_block := i\<rparr>)"
    using space_fm_back [OF assms(1), of ?st i] assms(4) hd' b c by (simp add: filedebug_space_fm_def)
  moreover have "i < b" by (rule prev_fm_less [OF assms(4)])
  ultimately show ?thesis using filedebug_space_at [OF assms(1) ok, of TC_SPACE_FM_B 1 i pos] hd' b c by simp
qed

lemma filedebug_forward_one:
  assumes "host_ok h" and ok: "fd_ok st" and hd: "fd_head st = (p, b)" and b: "b < length (fd_tape st p)" "fd_tape st p ! b = Filemark"
  shows "\<exists>st' pos'. filedebug_space h 1 TC_SPACE_FM_F (st, pos) = Some (Inr (), st', pos') \<and> fd_ok st' \<and> fd_tape st' = fd_tape st \<and>
    fd_head st' = (p, b + 1) \<and> pos_block pos' = b + 1 \<and> pos_partition pos' = pos_partition pos"
proof -
  have hd': "cur_partition st = p" "cur_block st = b" using hd by (simp_all add: fd_head_def)
  then have p: "p < 2" using ok by (simp add: fd_ok_def)
  have "drop b (fd_tape st p) = Filemark # drop (Suc b) (fd_tape st p)" using b by (metis Cons_nth_drop_Suc)
  then have "filedebug_space_fm h 1 False st = Some (Inr (), st\<lparr>cur_block := b + 1\<rparr>)"
    using space_fm_forward [OF assms(1) ok, of 0 1] hd' by (simp add: filedebug_space_fm_def U64_def)
  then show ?thesis using filedebug_space_at [OF assms(1) ok, of TC_SPACE_FM_F 1 "b + 1" pos] hd' b p by simp
qed


lemma mam_index_tape: "index_tape fd_ok fd_tape fd_head filedebug_data.max_block_size (mam_handler f)"
proof -
  have "op_space (mam_handler f) = filedebug_space ok_host" by (simp add: mam_handler_def filedebug_handler_def)
  then show ?thesis
    unfolding index_tape_def index_tape_axioms_def
    using filedebug_back_one [OF ok_host_ok] filedebug_forward_one [OF ok_host_ok] by (intro conjI mam_tape_device) auto
qed

interpretation fread: index_tape fd_ok fd_tape fd_head filedebug_data.max_block_size "mam_handler file_mam"
  by (rule mam_index_tape)

section \<open>The index that was written is found\<close>

text \<open>
  Where the index of a partition is written, and the index that is written there when the index partition is to get one and the
  data partition gets one first. The last index on the data partition lies in front of block \<open>b\<close>.
\<close>

definition write_block :: "char \<Rightarrow> filedebug_data ltfs_volume \<Rightarrow> nat" where
  "write_block c vol = (let n = ltfs_part_id2num c (vol_label vol) in append_block (append_pos (device vol) n) (length (dev_tape (device vol) n)))"

definition written_index :: "(char \<Rightarrow> ltfs_timespec) \<Rightarrow> char \<Rightarrow> filedebug_data ltfs_volume \<Rightarrow> ltfs_index" where
  "written_index now c vol =
     (let dp = ltfs_dp_id vol; idx = new_index now dp (write_block dp vol) vol in
      if c = dp then idx
      else (ltfs_unset_index_dirty True (idx\<lparr>idx_creator := Some (vol_creator vol)\<rparr>))\<lparr>backptr := (dp, write_block dp vol + 1), selfptr := (c, write_block c vol + 1)\<rparr>)"

definition chain_ok :: "filedebug_data ltfs_volume \<Rightarrow> nat \<Rightarrow> bool" where
  "chain_ok vol b \<longleftrightarrow>
     (let prev = (if fst (selfptr (vol_index vol)) = ltfs_dp_id vol then selfptr (vol_index vol) else backptr (vol_index vol)) in
      fst prev = CHR 0x00 \<or> fst prev = ltfs_dp_id vol \<and> 5 \<le> snd prev \<and> snd prev + 2 \<le> b)"

text \<open>The parser makes \<open>idx\<close> of a text of the index \<open>wi\<close>: the same generation and pointers, and not dirty.\<close>

definition reads_back :: "filedebug_data xml_reader \<Rightarrow> ltfs_label \<Rightarrow> byte list \<Rightarrow> ltfs_index \<Rightarrow> ltfs_index \<Rightarrow> bool" where
  "reads_back xr lab doc wi idx \<longleftrightarrow> text_reader xr doc \<lparr>p_index = idx, p_uuid = vol_uuid lab, p_conflict = False\<rparr> \<and>
     selfptr idx = selfptr wi \<and> backptr idx = backptr wi \<and> generation idx = generation wi \<and> \<not> dirty idx"

lemma written_index_backptr:
  assumes "chain_ok vol (write_block (ltfs_dp_id vol) vol)" and "4 \<le> write_block (ltfs_dp_id vol) vol"
    and "write_block (ltfs_dp_id vol) vol < TAPE_BLOCK_MAX" and "ltfs_dp_id vol \<noteq> CHR 0x00"
  shows "backptr_ok (vol_label vol) (written_index now c vol)"
proof (cases "c = ltfs_dp_id vol")
  case True
  let ?b = "write_block (ltfs_dp_id vol) vol"
  have idx: "written_index now c vol = new_index now (ltfs_dp_id vol) ?b vol" using True by (simp add: written_index_def Let_def)
  have "sub64 (?b + 1) 2 = ?b - 1" using assms(2,3) by (simp add: sub64_exact TAPE_BLOCK_MAX_def)
  moreover have "selfptr (new_index now (ltfs_dp_id vol) ?b vol) = (ltfs_dp_id vol, ?b + 1)"
      "backptr (new_index now (ltfs_dp_id vol) ?b vol) =
        (if fst (selfptr (vol_index vol)) = ltfs_dp_id vol then selfptr (vol_index vol) else backptr (vol_index vol))"
    by (simp_all add: new_index_def next_generation_def Let_def)
  ultimately show ?thesis
    using assms(1,4) unfolding idx backptr_ok_def chain_ok_def Let_def by (auto simp: ltfs_dp_id_def)
next
  case False
  then show ?thesis using assms(2) by (auto simp: written_index_def backptr_ok_def Let_def ltfs_dp_id_def)
qed


lemma written_index_parsed:
  assumes "c = ltfs_dp_id vol \<or> c = ltfs_ip_id vol" and "chain_ok vol (write_block (ltfs_dp_id vol) vol)" and "4 \<le> write_block (ltfs_dp_id vol) vol"
    and "write_block (ltfs_dp_id vol) vol < TAPE_BLOCK_MAX" and "ltfs_dp_id vol \<noteq> CHR 0x00"
    and rd: "reads_back xr (vol_label vol) doc (written_index now c vol) idx" and num: "part_num2id (vol_label vol) p = c"
  shows "index_parsed (vol_label vol) p (write_block c vol + 1) \<lparr>p_index = idx, p_uuid = vol_uuid (vol_label vol), p_conflict = False\<rparr>"
proof -
  have "selfptr (written_index now c vol) = (c, write_block c vol + 1)"
    using assms(1) by (auto simp: written_index_def new_index_def Let_def)
  moreover have "backptr_ok (vol_label vol) idx"
    using written_index_backptr [OF assms(2-5), of now c] rd by (simp add: backptr_ok_def reads_back_def)
  ultimately show ?thesis using rd num by (simp add: index_parsed_def reads_back_def)
qed

lemma write_both_at:
  fixes vol :: "filedebug_data ltfs_volume"
  assumes f: "mam_ok f" and can: "can_write_index bs L (ltfs_dp_id vol) vol" "can_write_index bs L (ltfs_ip_id vol) vol"
    and ne: "ltfs_dp_id vol \<noteq> ltfs_ip_id vol"
    and need: "\<not> dp_index_file_end vol \<or> ip_index_file_end vol \<and> fst (selfptr (vol_index vol)) = ltfs_ip_id vol"
    and doc: "\<forall>idx. doc_ok xe bs (vol_creator vol @ '' - '' @ reason) idx (render idx) \<and> length (render idx) \<le> L"
    and c: "c = ltfs_dp_id vol \<or> c = ltfs_ip_id vol"
  shows "\<exists>vol' pre blocks. ltfs_write_index (mam_handler f) xe now (ltfs_ip_id vol) reason vol = Some (Inr (), vol') \<and>
    dev_tape (device vol') (ltfs_part_id2num c (vol_label vol)) = pre @ [Filemark] @ map Data blocks @ [Filemark] \<and>
    length pre = write_block c vol \<and> block_text bs blocks (render (written_index now c vol)) \<and>
    write_block c vol + length blocks + 2 < TAPE_BLOCK_MAX \<and> fdev_ok (device vol') \<and> vol_label vol' = vol_label vol"
proof -
  note ready = can_write_index_ready [OF f, symmetric]
  have doc': "doc_ok xe bs (vol_creator vol @ '' - '' @ reason) idx (render idx) \<and> length (render idx) \<le> L" for idx using doc by blast
  let ?n = "\<lambda>c. ltfs_part_id2num c (vol_label vol)" and ?t = "dev_tape (device vol)"
  have wb: "append_block (append_pos (device vol) (?n c)) (length (?t (?n c))) = write_block c vol" for c by (simp add: write_block_def Let_def)
  obtain rsd rsi idxd idxi vol' where w: "ltfs_write_index (mam_handler f) xe now (ltfs_ip_id vol) reason vol = Some (Inr (), vol')"
      "dev_tape (device vol') = ?t(?n (ltfs_dp_id vol) := take (write_block (ltfs_dp_id vol) vol) (?t (?n (ltfs_dp_id vol))) @ rsd,
         ?n (ltfs_ip_id vol) := take (write_block (ltfs_ip_id vol) vol) (?t (?n (ltfs_ip_id vol))) @ rsi)"
      "index_file bs (render idxd) rsd" "index_file bs (render idxi) rsi"
      "tape_device.text_dev fd_ok fd_head filedebug_data.max_block_size bs (device vol')" "vol_frame vol vol'"
      "idxd = new_index now (ltfs_dp_id vol) (write_block (ltfs_dp_id vol) vol) vol"
      "idxi = (ltfs_unset_index_dirty True (idxd\<lparr>idx_creator := Some (vol_creator vol)\<rparr>))
         \<lparr>backptr := (ltfs_dp_id vol, write_block (ltfs_dp_id vol) vol + 1), selfptr := (ltfs_ip_id vol, write_block (ltfs_ip_id vol) vol + 1)\<rparr>"
    using index_device.write_index_both [OF mam_device [OF f], where vol = vol and bs = bs and L = L and now = now and xe = xe
        and reason = reason and render = render, unfolded ready, OF can ne need doc', unfolded wb] by blast
  have nn: "?n (ltfs_dp_id vol) \<noteq> ?n (ltfs_ip_id vol)" using can ne by (auto simp: can_write_index_def Let_def)
  have idx: "idxd = written_index now (ltfs_dp_id vol) vol" "idxi = written_index now (ltfs_ip_id vol) vol"
    using w(7,8) ne by (auto simp: written_index_def Let_def)
  obtain rs where rs: "dev_tape (device vol') (?n c) = take (write_block c vol) (?t (?n c)) @ rs" "index_file bs (render (written_index now c vol)) rs"
    using c w(2-4) nn idx by auto
  then obtain blocks where bl: "block_text bs blocks (render (written_index now c vol))" "rs = [Filemark] @ map Data blocks @ [Filemark]"
    by (auto simp: index_file_def)
  have "can_write_index bs L c vol" using c can by auto
  then have cw: "write_block c vol \<le> length (?t (?n c))" "length (?t (?n c)) + L + 4 < TAPE_BLOCK_MAX"
    by (auto simp: can_write_index_def write_block_def append_block_def Let_def)
  have "length blocks \<le> L" using bl(1) blocks_length [of blocks] doc by (auto simp: block_text_def intro: order_trans)
  moreover have "fdev_ok (device vol')" using w(5) by (simp add: tape_device.text_dev_def [OF mam_tape_device])
  moreover have "vol_label vol' = vol_label vol" using w(6) by (simp add: vol_frame_def)
  ultimately show ?thesis
    using w(1) rs(1) bl cw
    by (intro exI [of _ vol'] exI [of _ "take (write_block c vol) (?t (?n c))"] exI [of _ blocks]) simp
qed

text \<open>
  C3. The index that is written is the one that is found: after a write of the index to both partitions the search of either of them ends at the
  index file of that write. The text that the writer cut into blocks reaches the parser whole, the volume takes over the index that was parsed,
  its pointers pass the checks, the search reports the end of data and that nothing follows the index, and the tape is as it was. The
  file mark behind the index is reported unless the text fills its last block, when a parser that stops with the text does not come to see it.
\<close>

theorem written_index_found:
  fixes vol :: "filedebug_data ltfs_volume"
  assumes "mam_ok f" and "can_write_index bs L (ltfs_dp_id vol) vol" and "can_write_index bs L (ltfs_ip_id vol) vol"
    and "ltfs_dp_id vol \<noteq> ltfs_ip_id vol" and "ltfs_dp_id vol \<noteq> CHR 0x00"
    and "\<not> dp_index_file_end vol \<or> ip_index_file_end vol \<and> fst (selfptr (vol_index vol)) = ltfs_ip_id vol"
    and "\<forall>idx. doc_ok xe bs (vol_creator vol @ '' - '' @ reason) idx (render idx) \<and> length (render idx) \<le> L"
    and "c = ltfs_dp_id vol \<or> c = ltfs_ip_id vol"
    and "chain_ok vol (write_block (ltfs_dp_id vol) vol)" and "4 \<le> write_block (ltfs_dp_id vol) vol" and "4 \<le> write_block c vol"
    and "reads_back xr (vol_label vol) (render (written_index now c vol)) (written_index now c vol) idx"
  shows "\<exists>vol' eod fm vol''. ltfs_write_index (mam_handler f) xe now (ltfs_ip_id vol) reason vol = Some (Inr (), vol') \<and>
    eod = length (dev_tape (device vol') (ltfs_part_id2num c (vol_label vol))) \<and>
    ltfs_seek_index (mam_handler f) xr c recover vol' =
      Some (Inr (eod, Some \<lparr>ix_end = (if fm then eod else eod - 1), ix_fm_after = fm, ix_blocks_after = (\<not> fm)\<rparr>), vol'') \<and>
    vol_index vol'' = idx \<and> dev_tape (device vol'') = dev_tape (device vol') \<and>
    (\<not> bs dvd length (render (written_index now c vol)) \<longrightarrow> fm)"
proof -
  let ?n = "ltfs_part_id2num c (vol_label vol)" and ?i = "written_index now c vol"
  obtain vol' pre blocks where w: "ltfs_write_index (mam_handler f) xe now (ltfs_ip_id vol) reason vol = Some (Inr (), vol')"
      "dev_tape (device vol') ?n = pre @ [Filemark] @ map Data blocks @ [Filemark]"
      "length pre = write_block c vol" "block_text bs blocks (render ?i)"
      "write_block c vol + length blocks + 2 < TAPE_BLOCK_MAX" "fdev_ok (device vol')" "vol_label vol' = vol_label vol"
    using write_both_at [OF assms(1-4,6-8)] by blast
  have lab: "part_num2id (vol_label vol) ?n = c" "?n < 2" "blocksize (vol_label vol) = bs" "0 < bs" "bs < U32"
      "write_block (ltfs_dp_id vol) vol < TAPE_BLOCK_MAX"
    using assms(2,3,8) by (auto simp: can_write_index_def write_block_def append_block_def Let_def)
  have rd: "text_reader xr (render ?i) \<lparr>p_index = idx, p_uuid = vol_uuid (vol_label vol), p_conflict = False\<rparr>" using assms(12) by (simp add: reads_back_def)
  have ip: "index_parsed (vol_label vol') ?n (length pre + 1) \<lparr>p_index = idx, p_uuid = vol_uuid (vol_label vol), p_conflict = False\<rparr>"
    using written_index_parsed [OF assms(8-10) lab(6) assms(5,12)] lab(1) w(3,7) by simp
  have "at_block fd_ok fd_head fd_tape (dev_tape (device vol')) (pos_partition (position (device vol'))) (pos_block (position (device vol'))) (device vol')"
    using w(6) by (simp add: at_block_def)
  from index_tape.seek_index_ok [OF mam_index_tape, OF w(2) _ _ w(4) rd ip this, of c f recover] w(3,5,7) lab assms(11)
  obtain fm dev' where "ltfs_seek_index (mam_handler f) xr c recover vol' =
      Some (Inr (length (dev_tape (device vol') ?n), Some \<lparr>ix_end = (if fm then length (dev_tape (device vol') ?n) else length (dev_tape (device vol') ?n) - 1),
        ix_fm_after = fm, ix_blocks_after = (\<not> fm)\<rparr>), note_coherency c (vol'\<lparr>device := dev', vol_index := idx\<rparr>))"
      "dev_tape dev' = dev_tape (device vol')" "end_seen bs xr (render ?i) \<longrightarrow> fm"
    unfolding w(2) by auto
  moreover have "vol_index (note_coherency c v) = vol_index v" "device (note_coherency c v) = device v" for v :: "filedebug_data ltfs_volume"
    by (simp_all add: note_coherency_def Let_def)
  ultimately show ?thesis using w(1) by (intro exI [of _ vol']) (auto simp: end_seen_def)
qed


definition label_files :: "fname \<rightharpoonup> byte list" where
  "label_files = (\<lambda>(p, b, x).
     if p < 2 \<and> (b \<in> {0, 2} \<and> x = SUFFIX_RECORD \<or> b \<in> {1, 3} \<and> x = SUFFIX_FILEMARK \<or> b = 4 \<and> x = SUFFIX_EOD) then Some [1] else None)"

definition label_tape :: filedebug_data where
  "label_tape = blank_tape\<lparr>dir := \<lparr>files = label_files, attrs = Map.empty\<rparr>, last_block := (\<lambda>_. 3), eod := (\<lambda>_. 4)\<rparr>"

definition volL :: "filedebug_data ltfs_volume" where
  "volL = volA\<lparr>device := blank_device\<lparr>backend_data := label_tape\<rparr>,
     vol_index := index1\<lparr>dirty := True, selfptr := (CHR 0x00, 0), backptr := (CHR 0x00, 0)\<rparr>\<rparr>"

definition whole_reader :: "parsed_index \<Rightarrow> filedebug_data xml_reader" where
  "whole_reader pi = \<lparr>xr_request = (\<lambda>got. if [] \<in> set got then None else Some 512), xr_parse = (\<lambda>_ _. (Inr (), pi)),
     xr_split = (\<lambda>vol. (Inr (), vol)), xr_rekey = None, xr_alloc = (\<lambda>_. True), xr_ignore_version = False\<rparr>"

lemma whole_reader_ok: "text_reader (whole_reader pi) doc pi"
  by (auto simp: text_reader_def whole_reader_def)

lemma label_tape_ok: "fd_ok label_tape"
proof -
  have "part_ok label_files p 4" if "p < 2" for p
    using that by (auto simp: part_ok_def label_files_def numeral_eq_Suc less_Suc_eq)
  then show ?thesis by (simp add: fd_ok_def label_tape_def sub64_def U64_def MISSING_EOD_def) (simp add: blank_tape_def)
qed

lemma volL_simps: "vol_label volL = vol_label volA" "vol_creator volL = vol_creator volA" "\<not> dp_index_file_end volL"
  "ltfs_dp_id volL = CHR ''b''" "ltfs_ip_id volL = CHR ''a''" "vol_index volL = index1\<lparr>dirty := True, selfptr := (CHR 0x00, 0), backptr := (CHR 0x00, 0)\<rparr>"
  "device volL = blank_device\<lparr>backend_data := label_tape\<rparr>" "eod label_tape p = 4"
  using volA_labels(1,2) by (simp_all add: volL_def ltfs_dp_id_def ltfs_ip_id_def label_tape_def) (simp add: volA_def)

lemma volL_ready: "can_write_index 524288 1000 CHR ''a'' volL" "can_write_index 524288 1000 CHR ''b'' volL"
proof -
  have "fdev_ok (blank_device\<lparr>backend_data := label_tape\<rparr>)"
    using label_tape_ok by (simp add: in_step_def blank_device_def pos0_def fd_head_def) (simp add: label_tape_def blank_tape_def)
  moreover have "filedebug_data.max_block_size label_tape = 16777216" by (simp add: label_tape_def blank_tape_def)
  moreover have "part_num2id (vol_label volA) 0 = CHR ''a''" "part_num2id (vol_label volA) 1 = CHR ''b''" by (simp_all add: volA_def)
  ultimately show "can_write_index 524288 1000 CHR ''a'' volL" "can_write_index 524288 1000 CHR ''b'' volL"
    by (simp_all add: can_write_index_def volL_simps volA_labels volA_device Let_def U32_def TAPE_BLOCK_MAX_def U64_def)
qed

theorem written_index_found_witness:
  "\<exists>vol' eod vol''. ltfs_write_index (mam_handler file_mam) small_doc (\<lambda>_. (9, 0)) CHR ''a'' SYNC_FORMAT volL = Some (Inr (), vol') \<and>
     ltfs_seek_index (mam_handler file_mam)
       (whole_reader \<lparr>p_index = written_index (\<lambda>_. (9, 0)) CHR ''a'' volL, p_uuid = vol_uuid (vol_label volL), p_conflict = False\<rparr>) CHR ''a'' False vol' =
       Some (Inr (eod, Some \<lparr>ix_end = eod, ix_fm_after = True, ix_blocks_after = False\<rparr>), vol'') \<and>
     selfptr (vol_index vol'') = (CHR ''a'', 5) \<and> backptr (vol_index vol'') = (CHR ''b'', 5)"
proof -
  let ?i = "written_index (\<lambda>_. (9, 0)) CHR ''a'' volL"
  have doc: "\<forall>idx. doc_ok small_doc 524288 (vol_creator volL @ '' - '' @ SYNC_FORMAT) idx [1, 2, 3, 4] \<and> length [1, 2, 3, 4 :: byte] \<le> 1000"
    by (simp add: doc_ok_def small_doc_def U32_def)
  have wb: "write_block CHR ''a'' volL = 4" "write_block CHR ''b'' volL = 4"
    by (simp_all add: write_block_def volL_simps volA_labels volA_device append_block_def Let_def)
  have chain: "chain_ok volL 4" by (simp add: chain_ok_def volL_simps)
  have ptr: "selfptr ?i = (CHR ''a'', 5)" "backptr ?i = (CHR ''b'', 5)" "\<not> dirty ?i"
    by (simp_all add: written_index_def wb volL_simps Let_def ltfs_unset_index_dirty_def)
  have rb: "reads_back (whole_reader \<lparr>p_index = ?i, p_uuid = vol_uuid (vol_label volL), p_conflict = False\<rparr>) (vol_label volL) [1, 2, 3, 4] ?i ?i"
    using ptr(3) whole_reader_ok by (simp add: reads_back_def)
  have nd: "\<not> 524288 dvd length [1, 2, 3, 4 :: byte]" by (auto dest: dvd_imp_le)
  show ?thesis
    using written_index_found [OF file_mam_ok, where vol = volL and bs = 524288 and L = 1000 and xe = small_doc and reason = SYNC_FORMAT
        and render = "\<lambda>_. [1, 2, 3, 4]" and c = "CHR ''a''" and now = "\<lambda>_. (9, 0)" and recover = False and idx = ?i,
        unfolded volL_simps wb, OF volL_ready(2,1) _ _ _ doc [unfolded volL_simps] _ chain _ _ rb [unfolded volL_simps]] nd ptr volL_simps
    by auto
qed

end
