(* ===== verification/Ltfs_Check_File.thy ===== *)
theory Ltfs_Check_File
  imports Ltfs_Check Ltfs_Index_File
begin

text \<open>
  The consistency check on the file backend: a volume is consistent after its index was written.
\<close>


section \<open>A volume is consistent after its index was written\<close>

lemma written_ends_in_index:
  fixes vol :: "filedebug_data ltfs_volume"
  assumes "mam_ok f" and "can_write_index bs L (ltfs_dp_id vol) vol" and "can_write_index bs L (ltfs_ip_id vol) vol"
    and "ltfs_dp_id vol \<noteq> ltfs_ip_id vol" and "ltfs_dp_id vol \<noteq> CHR 0x00"
    and "\<not> dp_index_file_end vol \<or> ip_index_file_end vol \<and> fst (selfptr (vol_index vol)) = ltfs_ip_id vol"
    and "\<forall>idx. doc_ok xe bs (vol_creator vol @ '' - '' @ reason) idx (render idx) \<and> length (render idx) \<le> L"
    and c: "c = ltfs_dp_id vol \<or> c = ltfs_ip_id vol"
    and "chain_ok vol (write_block (ltfs_dp_id vol) vol)" and "4 \<le> write_block (ltfs_dp_id vol) vol" and "4 \<le> write_block c vol"
    and rb: "reads_back xr (vol_label vol) (render (written_index now c vol)) (written_index now c vol) idx"
    and nd: "end_seen bs xr (render (written_index now c vol))"
  shows "\<exists>vol'. ltfs_write_index (mam_handler f) xe now (ltfs_ip_id vol) reason vol = Some (Inr (), vol') \<and> fdev_ok (device vol') \<and>
    vol_label vol' = vol_label vol \<and> ends_in_index xr (dev_tape (device vol')) (vol_label vol) c idx"
proof -
  let ?p = "ltfs_part_id2num c (vol_label vol)"
  obtain vol' pre blocks where w: "ltfs_write_index (mam_handler f) xe now (ltfs_ip_id vol) reason vol = Some (Inr (), vol')"
      "dev_tape (device vol') ?p = pre @ [Filemark] @ map Data blocks @ [Filemark]"
      "length pre = write_block c vol" "block_text bs blocks (render (written_index now c vol))"
      "write_block c vol + length blocks + 2 < TAPE_BLOCK_MAX" "fdev_ok (device vol')" "vol_label vol' = vol_label vol"
    using write_both_at [OF assms(1-4,6-8)] by blast
  have lab: "part_num2id (vol_label vol) ?p = c" "?p < 2" "blocksize (vol_label vol) = bs" "0 < bs" "bs < U32"
      "write_block (ltfs_dp_id vol) vol < TAPE_BLOCK_MAX"
    using assms(2,3) c by (auto simp: can_write_index_def write_block_def append_block_def Let_def)
  let ?pi = "\<lparr>p_index = idx, p_uuid = vol_uuid (vol_label vol), p_conflict = False\<rparr>"
  have "index_parsed (vol_label vol) ?p (length pre + 1) \<lparr>p_index = idx, p_uuid = vol_uuid (vol_label vol), p_conflict = False\<rparr>"
    using written_index_parsed [OF c assms(9,10) lab(6) assms(5) rb lab(1)] w(3) by simp
  moreover have "length (dev_tape (device vol') ?p) < TAPE_BLOCK_MAX" unfolding w(2) using w(3,5) by simp
  ultimately have "ends_in_index xr (dev_tape (device vol')) (vol_label vol) c idx"
    unfolding ends_in_index_def Let_def using lab w(2-4) rb nd assms(11)
    by (intro conjI exI [of _ pre] exI [of _ blocks] exI [of _ "render (written_index now c vol)"] exI [of _ ?pi]) (simp_all add: reads_back_def)
  then show ?thesis using w(1,6,7) by blast
qed

text \<open>
  C4. A volume is found consistent after its index was written, if the end of each of the two index files is seen by the reader: the text does not fill
  its last block, or the parser asks for more after it has the whole text (\<open>end_seen\<close>). Then the write to both partitions is followed by the check of the
  medium, with any of its options: the check succeeds, takes the index of the index partition, sets the append position of that partition in front of
  this index, so that the next index replaces it, notes that both partitions end in an index, and leaves the tape as it is. Without the condition this is
  not so: an index that fills its last block, read by a parser that stops with the text, is reported with blocks behind it (C3), which a check without
  the option \<^verbatim>\<open>deep\<close> answers with \<^verbatim>\<open>LTFS_INCONSISTENT\<close>.
\<close>

theorem written_volume_consistent:
  fixes vol :: "filedebug_data ltfs_volume"
  assumes "mam_ok f" and "can_write_index bs L (ltfs_dp_id vol) vol" and "can_write_index bs L (ltfs_ip_id vol) vol"
    and "ltfs_dp_id vol \<noteq> ltfs_ip_id vol" and "ltfs_dp_id vol \<noteq> CHR 0x00"
    and "\<not> dp_index_file_end vol \<or> ip_index_file_end vol \<and> fst (selfptr (vol_index vol)) = ltfs_ip_id vol"
    and "\<forall>idx. doc_ok xe bs (vol_creator vol @ '' - '' @ reason) idx (render idx) \<and> length (render idx) \<le> L"
    and "chain_ok vol (write_block (ltfs_dp_id vol) vol)" and "4 \<le> write_block (ltfs_dp_id vol) vol" and "4 \<le> write_block (ltfs_ip_id vol) vol"
    and "\<forall>c \<in> {ltfs_dp_id vol, ltfs_ip_id vol}. reads_back xr (vol_label vol) (render (written_index now c vol)) (written_index now c vol) (idx c) \<and>
      end_seen bs xr (render (written_index now c vol))"
  shows "\<exists>vol' vol''. ltfs_write_index (mam_handler f) xe now (ltfs_ip_id vol) reason vol = Some (Inr (), vol') \<and>
    ltfs_check_medium (mam_handler f) xr xe now root_of lost_found fix_it deep recover_extra recover_symlink vol' = Some (Inr (), vol'') \<and>
    vol_index vol'' = idx (ltfs_ip_id vol) \<and> dev_tape (device vol'') = dev_tape (device vol') \<and> ip_index_file_end vol'' \<and> dp_index_file_end vol'' \<and>
    append_pos (device vol'') (ltfs_part_id2num (ltfs_ip_id vol) (vol_label vol)) = write_block (ltfs_ip_id vol) vol"
proof -
  let ?dp = "ltfs_dp_id vol" and ?ip = "ltfs_ip_id vol"
  have rb: "reads_back xr (vol_label vol) (render (written_index now c vol)) (written_index now c vol) (idx c)"
      "end_seen bs xr (render (written_index now c vol))" "4 \<le> write_block c vol" if "c = ?dp \<or> c = ?ip" for c
    using assms(9-11) that by auto
  have w: "\<exists>vol'. ltfs_write_index (mam_handler f) xe now ?ip reason vol = Some (Inr (), vol') \<and> fdev_ok (device vol') \<and>
      vol_label vol' = vol_label vol \<and> ends_in_index xr (dev_tape (device vol')) (vol_label vol) c (idx c)" if "c = ?dp \<or> c = ?ip" for c
    using written_ends_in_index [OF assms(1-7) that assms(8,9) rb(3) [OF that] rb(1,2) [OF that]] .
  obtain vol' where v: "ltfs_write_index (mam_handler f) xe now ?ip reason vol = Some (Inr (), vol')" "fdev_ok (device vol')"
      "vol_label vol' = vol_label vol" "ends_in_index xr (dev_tape (device vol')) (vol_label vol) ?ip (idx ?ip)"
    using w [of ?ip] by blast
  have vd: "ends_in_index xr (dev_tape (device vol')) (vol_label vol) ?dp (idx ?dp)" using w [of ?dp] v(1) by auto
  have ids: "partid_ip (vol_label vol) = ?ip" "partid_dp (vol_label vol) = ?dp" by (simp_all add: ltfs_ip_id_def ltfs_dp_id_def)
  have ptr: "backptr (idx ?ip) = selfptr (idx ?dp)" "generation (idx ?dp) \<le> generation (idx ?ip)" "\<not> dirty (idx ?ip)"
      "snd (selfptr (idx ?ip)) = write_block ?ip vol + 1"
    using rb(1) [of ?dp] rb(1) [of ?ip] assms(4)
    by (auto simp: reads_back_def written_index_def new_index_def next_generation_def ltfs_unset_index_dirty_def Let_def)
  have "write_block ?ip vol < TAPE_BLOCK_MAX" using assms(3) by (auto simp: can_write_index_def write_block_def append_block_def Let_def)
  then have "sub64 (snd (selfptr (idx ?ip))) 1 = write_block ?ip vol" using ptr(4) by (simp add: sub64_exact TAPE_BLOCK_MAX_def)
  then show ?thesis
    using index_tape.check_medium_ok [OF mam_index_tape, where vol = vol' and t = "dev_tape (device vol')", unfolded v(3) ids, OF v(4) vd v(2) refl ptr(1-3),
        where xe = xe and now = now and root_of = root_of and lost_found = lost_found and fix_it = fix_it and deep = deep and
        recover_extra = recover_extra and recover_symlink = recover_symlink] v(1) by auto
qed



text \<open>A text of one byte, the letter of the partition, and a parser that knows the two texts.\<close>

definition letter_doc :: xml_env where
  "letter_doc = \<lparr>xml_alloc = (\<lambda>_. True), xml_doc = (\<lambda>_ idx. ([[of_char (fst (selfptr idx))]], None, []))\<rparr>"

definition letter_idx :: "char \<Rightarrow> ltfs_index" where
  "letter_idx c = (written_index (\<lambda>_. (9, 0)) c volL)\<lparr>dirty := False\<rparr>"

definition letter_reader :: "filedebug_data xml_reader" where
  "letter_reader = (whole_reader \<lparr>p_index = blank_index, p_uuid = [], p_conflict = False\<rparr>)\<lparr>xr_parse := (\<lambda>got _. (Inr (), \<lparr>p_index = letter_idx (if concat got = [97] then CHR ''a'' else CHR ''b''),
     p_uuid = vol_uuid (vol_label volL), p_conflict = False\<rparr>))\<rparr>"

lemma letter_reads_back:
  assumes "c \<in> {CHR ''a'', CHR ''b''}"
  shows "fst (selfptr (written_index (\<lambda>_. (9, 0)) c volL)) = c"
    "reads_back letter_reader (vol_label volL) [of_char c] (written_index (\<lambda>_. (9, 0)) c volL) (letter_idx c)"
proof -
  show "fst (selfptr (written_index (\<lambda>_. (9, 0)) c volL)) = c" using assms by (auto simp: written_index_def new_index_def volL_simps Let_def)
  have "text_reader letter_reader [of_char c] \<lparr>p_index = letter_idx c, p_uuid = vol_uuid (vol_label volL), p_conflict = False\<rparr>"
    using assms by (auto simp: text_reader_def letter_reader_def whole_reader_def)
  then show "reads_back letter_reader (vol_label volL) [of_char c] (written_index (\<lambda>_. (9, 0)) c volL) (letter_idx c)"
    by (simp add: reads_back_def letter_idx_def)
qed

theorem written_volume_consistent_witness:
  "\<exists>vol' vol''. ltfs_write_index (mam_handler file_mam) letter_doc (\<lambda>_. (9, 0)) CHR ''a'' SYNC_FORMAT volL = Some (Inr (), vol') \<and>
     ltfs_check_medium (mam_handler file_mam) letter_reader letter_doc (\<lambda>_. (9, 0)) (\<lambda>_. Dtree True [] []) (\<lambda>_ _ _ _ st. (Inr (), st))
       False False False False vol' = Some (Inr (), vol'') \<and>
     append_pos (device vol'') 0 = 4"
proof -
  have doc: "\<forall>idx. doc_ok letter_doc 524288 (vol_creator volL @ '' - '' @ SYNC_FORMAT) idx [of_char (fst (selfptr idx))] \<and>
      length [of_char (fst (selfptr idx)) :: byte] \<le> 1000"
    by (simp add: doc_ok_def letter_doc_def U32_def)
  have wb: "write_block CHR ''a'' volL = 4" "write_block CHR ''b'' volL = 4"
    by (simp_all add: write_block_def volL_simps volA_labels volA_device append_block_def Let_def)
  have chain: "chain_ok volL 4" by (simp add: chain_ok_def volL_simps)
  have rb: "\<forall>c \<in> {CHR ''b'', CHR ''a''}. reads_back letter_reader (vol_label volL) [of_char (fst (selfptr (written_index (\<lambda>_. (9, 0)) c volL)))]
      (written_index (\<lambda>_. (9, 0)) c volL) (letter_idx c) \<and> end_seen 524288 letter_reader [of_char (fst (selfptr (written_index (\<lambda>_. (9, 0)) c volL)))]"
    using letter_reads_back [of "CHR ''a''"] letter_reads_back [of "CHR ''b''"] by (simp add: end_seen_def)
  show ?thesis
    using written_volume_consistent [OF file_mam_ok, where vol = volL and bs = 524288 and L = 1000 and xe = letter_doc and reason = SYNC_FORMAT
        and render = "\<lambda>idx. [of_char (fst (selfptr idx))]" and now = "\<lambda>_. (9, 0)" and idx = letter_idx
        and root_of = "\<lambda>_. Dtree True [] []" and lost_found = "\<lambda>_ _ _ _ st. (Inr (), st)" and fix_it = False and deep = False and
        recover_extra = False and recover_symlink = False, unfolded volL_simps(4,5) wb, OF volL_ready(2,1) _ _ _ doc chain _ _ rb]
    by (auto simp: volL_simps volA_labels)
qed

end
