(* ===== verification/Spec2Isabelle.thy ===== *)
theory Spec2Isabelle
  imports Ltfs_Crc Ltfs_Config Ltfs_Kmi Ltfs_Locking Ltfs_Link Ltfs_Check_File
begin

text \<open>
  A verification library for LTFS, the Linear Tape File System (\<^verbatim>\<open>src/ltfs/src\<close>).

  \<^bold>\<open>The program.\<close> LTFS keeps a file system on a tape with two partitions. The data partition holds the
  contents of the files as blocks, the index partition the newest index; an index is an XML text that
  names every file with its extents. \<^verbatim>\<open>libltfs\<close> holds the file system: the tree of dentries with its locks
  and reference counters (\<^verbatim>\<open>fs.c\<close>), the operations that clients call (\<^verbatim>\<open>ltfs_fsops.c\<close>), which pass file
  contents through an I/O scheduler (\<^verbatim>\<open>iosched\<close>), files and their extents (\<^verbatim>\<open>ltfs_fsops_raw.c\<close>), volumes, labels and
  indexes (\<^verbatim>\<open>ltfs.c\<close>, \<^verbatim>\<open>ltfs_internal.c\<close>, \<^verbatim>\<open>label.c\<close>, \<^verbatim>\<open>xml_writer*.c\<close>) and the tape layer (\<^verbatim>\<open>tape.c\<close>), which calls a driver through the function table
  \<^verbatim>\<open>struct tape_ops\<close>. The drivers are in \<^verbatim>\<open>tape_drivers\<close>; the one for tests keeps a tape as a
  directory of files (\<^verbatim>\<open>generic/file/filedebug_tc.c\<close>).

  \<^bold>\<open>The theories.\<close>
  \<^item> \<open>Ltfs_Prelude\<close>: bytes, unsigned arithmetic modulo \<open>2 ^ 32\<close> and \<open>2 ^ 64\<close>, error codes, results. A
    function that may fail returns \<open>(err + 'a) \<times> state\<close>; \<open>rbind\<close> and \<open>obind\<close> are its early return.
    An outer \<open>option\<close> is \<open>None\<close> for a call that does not return or whose behaviour is undefined: a loop that
    does not end, an access to freed memory, the release of a lock that is not held, the acquisition of a
    lock by the thread that holds it.
  \<^item> \<open>Ltfs_Endian\<close>: the big-endian stores and loads of \<^verbatim>\<open>ltfs_endian.h\<close>.
  \<^item> \<open>Ltfs_Crc_Table\<close>, \<open>Ltfs_Crc\<close>: the block checksums of \<^verbatim>\<open>crc32c_crc.c\<close> and \<^verbatim>\<open>reed_solomon_crc.c\<close>, equal
    to the bitwise definition of the code and able to detect every change of one byte.
  \<^item> \<open>Ltfs_Base64\<close>: the decoder of \<^verbatim>\<open>base64.c\<close>, its inverse and its buffer accesses.
  \<^item> \<open>Ltfs_Config\<close>: the configuration file (\<^verbatim>\<open>config_file.c\<close>); what is loaded is consistent, and a configuration that is
    written is loaded again. Includes may recur for ever, so that the loop over the lines is a partial function.
  \<^item> \<open>Ltfs_Kmi\<close>: the list of encryption keys of \<^verbatim>\<open>key_format_ltfs.c\<close> and the key manager of \<^verbatim>\<open>simple.c\<close>; a
    list written in the format gives back its keys.
  \<^item> \<open>Ltfs_Pathname\<close>: formatting, validation, case folding and truncation of names (\<^verbatim>\<open>pathname.c\<close>).
  \<^item> \<open>Ltfs_Criteria\<close>: the rules that place files on the index partition (\<^verbatim>\<open>index_criteria.c\<close>): parsing, and
    matching of names, which is shown to be globbing.
  \<^item> \<open>Ltfs_Locking\<close>: the reader-writer lock of \<^verbatim>\<open>ltfs_locking.h\<close> as a transition system of interleaved
    threads, with its invariant, mutual exclusion and progress.
  \<^item> \<open>Ltfs_Extent\<close>: the extent list of a file; adding an extent overlays the map from file offsets to tape
    bytes, truncation cuts it.
  \<^item> \<open>Ltfs_Tape_Ops\<close>: positions, the function table and the contract \<open>tape_driver\<close> of a driver: an abstract
    tape (a list of blocks and filemarks for each partition) and a head position.
  \<^item> \<open>Ltfs_Filedebug\<close>: the file driver over a directory whose host calls may fail; it is an instance of
    the contract.
  \<^item> \<open>Ltfs_Tape\<close>: the tape layer for any driver; the locale \<open>tape_device\<close> extends the contract by what the
    layer needs of attributes and proves what the layer adds. \<open>Ltfs_Tape_File\<close> instantiates it with the
    file driver and states the properties.
  \<^item> \<open>Ltfs_Label\<close>: the labels of a volume and the letters of its partitions.
  \<^item> \<open>Ltfs_Volume\<close>: the volume and the writer of the index; the locale \<open>index_device\<close> extends
    \<open>tape_device\<close> by the update of the application attributes. \<open>Ltfs_Volume_File\<close> instantiates it with
    the file driver completed by an attribute function (the driver of the repository has none, which is
    one of the properties).
  \<^item> \<open>Ltfs_Index_Read\<close>: the reader of the index, from the callback that feeds the parser with tape blocks to the search of the last
    index of a partition; the locale \<open>index_tape\<close> extends \<open>tape_device\<close> by the spacing over a file mark. \<open>Ltfs_Index_File\<close>
    instantiates it with the file driver: the index that was written is the one that is found.
  \<^item> \<open>Ltfs_Check\<close>: the check of a medium (\<^verbatim>\<open>ltfs_check_medium\<close>): extents, pointers, the newer index, repair. \<open>Ltfs_Check_File\<close>:
    a volume is consistent after its index was written, if the reader sees the end of both index files: a text
    that fills its last block, with a parser that stops at its end, is taken to have blocks behind it.
  \<^item> \<open>Ltfs_Raw\<close>: writing and reading of file contents, with fence, revalidation and the one-block
    cache, as functions of the contents and the volume without the reader-writer locks. \<open>Ltfs_Raw_File\<close> states for the file driver that a write overlays the contents of the file, that
    a read returns them, and that what was written is read back.
  \<^item> \<open>Ltfs_Fs\<close>: dentries behind pointers in a store, the hash tables of names, allocation, release, lookup of
    paths with every lock (\<^verbatim>\<open>fs.c\<close>); the invariants \<open>fs_wf\<close> (a tree) and \<open>refs_ok\<close> (counters are numbers of
    references). \<open>Ltfs_Tree\<close>: the tree as a map \<open>resolve\<close> from lists of names to dentries, and what linking and
    unlinking a dentry do to it; \<open>Ltfs_Move\<close> the same for moving a subtree.
  \<^item> \<open>Ltfs_Fs_Ops\<close>, \<open>Ltfs_Rename\<close>: create, unlink and rename below the volume lock, statement by statement.
  \<^item> \<open>Ltfs_Fsops\<close>: the operations of \<^verbatim>\<open>ltfs_fsops.c\<close> as clients call them, with the checks of the device, the
    scheduler \<^verbatim>\<open>fcfs.c\<close> and every operation on the reader-writer locks of the volume and of the dentries, those of
    reading and writing included (\<open>fsraw_write\<close>, \<open>fsraw_read\<close>). \<open>Ltfs_Contents\<close>: reading and writing with locks agree
    with \<open>Ltfs_Raw\<close> and leave no lock held. \<open>Ltfs_Handlers\<close>: what each operation does to a file system at rest.
  \<^item> \<open>Ltfs_Session\<close>: sequences of calls as a step relation; no lock, reference or dentry is leaked.
    A session consists of calls that return; one that does not (the unlink of a directory that is not empty, which
    is a property of its own) ends it. \<open>Ltfs_Client\<close>: what clients see over several calls.
  \<^item> \<open>Ltfs_Xattr\<close>: extended attributes (\<^verbatim>\<open>xattr.c\<close> and the operations of \<^verbatim>\<open>ltfs_fsops.c\<close> on them): the list of a
    dentry keeps its type, what is set is got, listed and removed. \<open>Ltfs_Link\<close>: symbolic links, which are read
    back, the absolute path of a relative target, and the setting of all times.

  \<^bold>\<open>How the model reads.\<close> Structures are records with the fields that the modelled functions use, and
  functions keep their names. Pointers to state are explicit state passing. Allocations, host calls,
  times and mutexes that may fail are arguments. Loops that are not structural are
  \<open>partial_function (option)\<close>, and the properties state that they return. No fuel is used. The bounds in
  the hypotheses are those of the program's integers: block numbers below \<open>2 ^ 64 - 1\<close>, offsets of a
  file with one block to spare below \<open>2 ^ 64\<close>. Lengths of strings and buffers that the code keeps as \<^verbatim>\<open>int\<close> or
  \<^verbatim>\<open>unsigned int\<close> (key lists, targets of links, the bytes that the parser of the index asks for) are natural numbers,
  which agree below 2 GiB.

  \<^bold>\<open>Parameters.\<close> \<^verbatim>\<open>libxml2\<close>, which generates the text of an index (\<open>xml_env\<close>: the pieces of text that
  reach the write callback) and parses it (\<open>xml_reader\<close>: the sizes it asks the read callback for, and the index
  that it makes of the text), the recovery of unreferenced blocks, the Unicode library ICU (\<open>icu_env\<close>: its conversions, and the iterator over
  the characters of a text), the option parser of FUSE, the processor's checksum instructions and
  what \<^verbatim>\<open>ltfs_revalidate\<close> does to the volume are arguments of the definitions that use them. What the virtual extended attributes do is
  an argument too (\<open>xattr_env\<close>), as they report on every part of the program.

  \<^bold>\<open>Not modelled.\<close> The elements of the XML text of an index (libxml2); mount and format;
  the unified scheduler with its threads; the device mutex as a lock that is held (whether it can be taken is
  an argument); the key file reader; the SCSI drivers; the FUSE front end and the
  utilities; messages, tracing and plugin loading. Of the file-system operations: the listing that
  sorts the hash table of a directory. The flag for
  immediate filemarks, which changes no state that is modelled, is left out, and so are the branches of
  the dentry cache, which no code activates. The builds with
  \<^verbatim>\<open>HP_BUILD\<close>, \<^verbatim>\<open>QUANTUM_BUILD\<close> or \<^verbatim>\<open>GENERIC_OEM_BUILD\<close> are modelled where they differ from the others.
\<close>

end
